(* ===== verification/Prelude.thy ===== *)
theory Prelude
  imports Main
begin

text \<open>
  Shared vocabulary of the development: results of code that can raise (\<open>'e + 'a\<close>, the left
  side is the exception), loops that stop at the first exception, and the operations on
  Python strings that the modelled code uses, with the generic lemmas about them.

  A Python \<open>str\<close> is a HOL \<open>string\<close>; a \<open>char\<close> stands for the code point of the same
  number, so the model covers the strings over the code points 0 to 255.
\<close>

named_theorems result_simps \<open>inversion of results: which path produced this value\<close>
named_theorems guard_simps \<open>unfolding of the source's guards\<close>

section \<open>Results of code that can raise\<close>

definition bindE :: "'e + 'a \<Rightarrow> ('a \<Rightarrow> 'e + 'b) \<Rightarrow> 'e + 'b" where
  "bindE m f = (case m of Inl e \<Rightarrow> Inl e | Inr x \<Rightarrow> f x)"

definition ensure :: "bool \<Rightarrow> 'e \<Rightarrow> 'e + unit" where
  "ensure b e = (if b then Inr () else Inl e)"

definition mapErr :: "('e \<Rightarrow> 'f) \<Rightarrow> 'e + 'a \<Rightarrow> 'f + 'a" where
  "mapErr g m = (case m of Inl e \<Rightarrow> Inl (g e) | Inr x \<Rightarrow> Inr x)"

primrec forE :: "('a \<Rightarrow> 'e + unit) \<Rightarrow> 'a list \<Rightarrow> 'e + unit" where
  "forE f [] = Inr ()"
| "forE f (x # xs) = bindE (f x) (\<lambda>_. forE f xs)"

primrec mapE :: "('a \<Rightarrow> 'e + 'b) \<Rightarrow> 'a list \<Rightarrow> 'e + 'b list" where
  "mapE f [] = Inr []"
| "mapE f (x # xs) = bindE (f x) (\<lambda>y. bindE (mapE f xs) (\<lambda>ys. Inr (y # ys)))"

lemma bindE_simps [simp]: "bindE (Inl e) f = Inl e" "bindE (Inr x) f = f x"
  by (simp_all add: bindE_def)

lemma bindE_Inr [result_simps]: "bindE m f = Inr y \<longleftrightarrow> (\<exists>x. m = Inr x \<and> f x = Inr y)"
  by (cases m) simp_all

lemma bindE_Inl [result_simps]:
  "bindE m f = Inl e \<longleftrightarrow> m = Inl e \<or> (\<exists>x. m = Inr x \<and> f x = Inl e)"
  by (cases m) simp_all

lemma bindE_assoc: "bindE (bindE m f) g = bindE m (\<lambda>x. bindE (f x) g)"
  by (cases m) simp_all

lemma bindE_cong [fundef_cong]:
  "m = m' \<Longrightarrow> (\<And>x. m' = Inr x \<Longrightarrow> f x = f' x) \<Longrightarrow> bindE m f = bindE m' f'"
  by (cases m') simp_all

lemma ensure_simps [simp]: "ensure True e = Inr ()" "ensure False e = Inl e"
  by (simp_all add: ensure_def)

lemma ensure_Inr [result_simps]: "ensure b e = Inr u \<longleftrightarrow> b"
  by (simp add: ensure_def)

lemma ensure_Inl [result_simps]: "ensure b e = Inl e' \<longleftrightarrow> \<not> b \<and> e' = e"
  by (auto simp: ensure_def)

lemma mapErr_simps [simp]: "mapErr g (Inl e) = Inl (g e)" "mapErr g (Inr x) = Inr x"
  by (simp_all add: mapErr_def)

lemma mapErr_Inr [result_simps]: "mapErr g m = Inr x \<longleftrightarrow> m = Inr x"
  by (cases m) simp_all

lemma mapErr_Inl [result_simps]: "mapErr g m = Inl f \<longleftrightarrow> (\<exists>e. m = Inl e \<and> f = g e)"
  by (cases m) auto

text \<open>A loop of checks passes exactly when every element passes.\<close>

lemma forE_Inr [result_simps]: "forE f xs = Inr u \<longleftrightarrow> (\<forall>x\<in>set xs. f x = Inr ())"
  by (induction xs) (auto simp: result_simps)

lemma forE_Inl: "forE f xs = Inl e \<Longrightarrow> \<exists>x\<in>set xs. f x = Inl e"
  by (induction xs) (auto simp: result_simps)

lemma mapE_Inr: "mapE f xs = Inr ys \<longleftrightarrow> list_all2 (\<lambda>x y. f x = Inr y) xs ys"
  by (induction xs arbitrary: ys) (auto simp: result_simps list_all2_Cons1)

lemma mapE_member_fails: "x \<in> set xs \<Longrightarrow> f x = Inl e \<Longrightarrow> mapE f xs \<noteq> Inr ys"
  by (induction xs arbitrary: ys) (auto simp: bindE_Inr)

lemma mapE_cong [fundef_cong]:
  "xs = ys \<Longrightarrow> (\<And>x. x \<in> set ys \<Longrightarrow> f x = g x) \<Longrightarrow> mapE f xs = mapE g ys"
  by (induction ys arbitrary: xs) auto

lemma forE_cong [fundef_cong]:
  "xs = ys \<Longrightarrow> (\<And>x. x \<in> set ys \<Longrightarrow> f x = g x) \<Longrightarrow> forE f xs = forE g ys"
  by (induction ys arbitrary: xs) auto

text \<open>A loop over a list that checks each element against what it made of the one before.\<close>

fun chain_by :: "(nat \<Rightarrow> 'h \<Rightarrow> 'v \<Rightarrow> 'e + 'h) \<Rightarrow> nat \<Rightarrow> 'h \<Rightarrow> 'v list \<Rightarrow> 'e + 'h" where
  "chain_by check i previous [] = Inr previous"
| "chain_by check i previous (v # vs) = bindE (check i previous v) (\<lambda>h. chain_by check (Suc i) h vs)"

lemma chain_by_append:
  "chain_by check i p (es @ fs) = bindE (chain_by check i p es) (\<lambda>h. chain_by check (i + length es) h fs)"
  by (induction es arbitrary: i p) (simp_all add: bindE_assoc)

lemma chain_by_last:
  assumes "chain_by check i p es = Inr h" "es \<noteq> []"
  obtains q where "check (i + length es - 1) q (last es) = Inr h"
proof -
  obtain fs v where es: "es = fs @ [v]" using assms(2) by (metis rev_exhaust)
  with assms(1) that show thesis by (auto simp: chain_by_append bindE_Inr)
qed

lemma Inr_unit_iff [simp]: "(Inr (u :: unit) = x) \<longleftrightarrow> (x = Inr ())"
  by (cases x) auto

section \<open>Python strings\<close>

definition startswith :: "string \<Rightarrow> string \<Rightarrow> bool" where
  "startswith s p \<longleftrightarrow> take (length p) s = p"

definition endswith :: "string \<Rightarrow> string \<Rightarrow> bool" where
  "endswith s p \<longleftrightarrow> startswith (rev s) (rev p)"

primrec contains :: "string \<Rightarrow> string \<Rightarrow> bool" where
  "contains [] p = (p = [])"
| "contains (c # s) p = (startswith (c # s) p \<or> contains s p)"

lemma startswith_append [simp]: "startswith (p @ s) p"
  by (simp add: startswith_def)

lemma startswith_iff: "startswith s p \<longleftrightarrow> (\<exists>t. s = p @ t)"
  unfolding startswith_def by (metis append_eq_conv_conj append_take_drop_id)

lemma endswith_iff: "endswith s p \<longleftrightarrow> (\<exists>t. s = t @ p)"
  unfolding endswith_def startswith_iff by (metis rev_append rev_rev_ident)

lemma contains_iff: "contains s p \<longleftrightarrow> (\<exists>u v. s = u @ p @ v)"
proof (induction s)
  case Nil
  show ?case by simp
next
  case (Cons c s)
  show ?case
    unfolding contains.simps Cons.IH startswith_iff
    by (metis append_Cons append_Nil list.sel(3) neq_Nil_conv)
qed

text \<open>The code points below 256 that \<open>str.isspace\<close> and \<open>str.strip\<close> treat as white space.\<close>

definition is_space :: "char \<Rightarrow> bool" where
  "is_space c \<longleftrightarrow> (let n = of_char c :: nat in
     (9 \<le> n \<and> n \<le> 13) \<or> (28 \<le> n \<and> n \<le> 32) \<or> n = 133 \<or> n = 160)"

definition strip :: "string \<Rightarrow> string" where
  "strip s = rev (dropWhile is_space (rev (dropWhile is_space s)))"

definition blank :: "string \<Rightarrow> bool" where
  "blank s \<longleftrightarrow> list_all is_space s"

lemma strip_empty_iff: "strip s = [] \<longleftrightarrow> blank s"
proof -
  have "dropWhile is_space s = [] \<longleftrightarrow> dropWhile is_space (rev (dropWhile is_space s)) = []"
  proof (cases "dropWhile is_space s")
    case (Cons c t)
    then have "\<not> is_space c" using hd_dropWhile [of is_space s] by simp
    with Cons show ?thesis by (simp add: dropWhile_eq_Nil_conv)
  next
    case Nil
    then show ?thesis by (simp only: rev.simps dropWhile.simps)
  qed
  then have "strip s = [] \<longleftrightarrow> dropWhile is_space s = []" by (simp add: strip_def)
  then show ?thesis by (simp add: blank_def dropWhile_eq_Nil_conv list_all_iff)
qed

text \<open>\<open>str.lower\<close> on the code points below 256.\<close>

definition lower_char :: "char \<Rightarrow> char" where
  "lower_char c = (let n = of_char c :: nat in
     if (65 \<le> n \<and> n \<le> 90) \<or> (192 \<le> n \<and> n \<le> 222 \<and> n \<noteq> 215) then char_of (n + 32) else c)"

definition lower :: "string \<Rightarrow> string" where
  "lower s = map lower_char s"

definition is_digit :: "char \<Rightarrow> bool" where
  "is_digit c \<longleftrightarrow> (let n = of_char c :: nat in 48 \<le> n \<and> n \<le> 57)"

definition is_lower :: "char \<Rightarrow> bool" where
  "is_lower c \<longleftrightarrow> (let n = of_char c :: nat in 97 \<le> n \<and> n \<le> 122)"

definition is_upper :: "char \<Rightarrow> bool" where
  "is_upper c \<longleftrightarrow> (let n = of_char c :: nat in 65 \<le> n \<and> n \<le> 90)"

text \<open>
  \<open>re.match\<close> and \<open>re.search\<close> with a pattern \<open>^body$\<close>: without \<open>re.MULTILINE\<close> the dollar
  matches at the end of the text and also before one final newline. \<open>re.fullmatch\<close> has no
  such second place: there the body itself is used.
\<close>

definition match_dollar :: "(string \<Rightarrow> bool) \<Rightarrow> string \<Rightarrow> bool" where
  "match_dollar body s \<longleftrightarrow> body s \<or> (s \<noteq> [] \<and> last s = CHR 0x0A \<and> body (butlast s))"

lemma match_dollar_body: "body s \<Longrightarrow> match_dollar body s"
  by (simp add: match_dollar_def)

lemma match_dollar_newline: "body s \<Longrightarrow> match_dollar body (s @ [CHR 0x0A])"
  by (simp add: match_dollar_def)

definition is_hex :: "char \<Rightarrow> bool" where
  "is_hex c \<longleftrightarrow> is_digit c \<or> (let n = of_char c :: nat in 97 \<le> n \<and> n \<le> 102)"

definition hex64 :: "string \<Rightarrow> bool" where
  "hex64 s \<longleftrightarrow> length s = 64 \<and> list_all is_hex s"

lemma newline_not_hex: "\<not> is_hex (CHR 0x0A)"
  by (simp add: is_hex_def is_digit_def)

lemma hex64_no_newline: "hex64 s \<Longrightarrow> CHR 0x0A \<notin> set s"
  using newline_not_hex by (auto simp: hex64_def list_all_iff)

end
