(* ===== verification/Py_Float.thy ===== *)
theory Py_Float
  imports Prelude "HOL-Library.Log_Nat" Complex_Main
begin

text \<open>
  Python's \<open>float\<close>: an IEEE 754 binary64 number. A finite float is the rational number it
  denotes (the two zeros are one value), so comparisons with integers are exact, as in
  Python. A sum is the exact sum rounded to nearest, ties to even, with the 53-bit
  significand, the gradual underflow at exponent -1074 and the overflow at \<open>2 ^ 1024\<close> of
  the format. The lemmas the budget register needs: rounding is monotone and leaves every
  rounded value alone, so adding a cost that is not negative never lowers a total.
\<close>

datatype pyfloat = Fin rat | PInf | NInf | NaN

section \<open>Rounding to binary64\<close>

text \<open>The binary exponent of a positive rational, from the bit lengths of its quotient.\<close>

definition flog2 :: "rat \<Rightarrow> int" where
  "flog2 x = (let (p, q) = quotient_of x; k = bitlen p - bitlen q
              in if 2 powi k \<le> x then k else k - 1)"

definition round_half_even :: "rat \<Rightarrow> int" where
  "round_half_even x = (let f = \<lfloor>x\<rfloor>; r = x - of_int f
     in if r < 1/2 then f else if 1/2 < r then f + 1 else if even f then f else f + 1)"

definition grid_exp :: "rat \<Rightarrow> int" where
  "grid_exp x = max (flog2 x - 52) (-1074)"

definition rnd_pos :: "rat \<Rightarrow> rat" where
  "rnd_pos x = of_int (round_half_even (x / 2 powi grid_exp x)) * 2 powi grid_exp x"

definition rnd :: "rat \<Rightarrow> rat" where
  "rnd x = (if x = 0 then 0 else if 0 < x then rnd_pos x else - rnd_pos (- x))"

definition to_float :: "rat \<Rightarrow> pyfloat" where
  "to_float x = (let y = rnd x in
     if 2 powi 1024 \<le> y then PInf else if y \<le> - (2 powi 1024) then NInf else Fin y)"

fun fadd :: "pyfloat \<Rightarrow> pyfloat \<Rightarrow> pyfloat" where
  "fadd (Fin x) (Fin y) = to_float (x + y)"
| "fadd NaN _ = NaN"
| "fadd _ NaN = NaN"
| "fadd PInf NInf = NaN"
| "fadd NInf PInf = NaN"
| "fadd PInf _ = PInf"
| "fadd _ PInf = PInf"
| "fadd NInf _ = NInf"
| "fadd _ NInf = NInf"

text \<open>Comparisons: every comparison with a NaN is false.\<close>

fun fle :: "pyfloat \<Rightarrow> pyfloat \<Rightarrow> bool" where
  "fle NaN _ = False"
| "fle _ NaN = False"
| "fle NInf _ = True"
| "fle _ PInf = True"
| "fle (Fin x) (Fin y) = (x \<le> y)"
| "fle _ _ = False"

fun flt :: "pyfloat \<Rightarrow> pyfloat \<Rightarrow> bool" where
  "flt NaN _ = False"
| "flt _ NaN = False"
| "flt (Fin x) (Fin y) = (x < y)"
| "flt NInf y = (y \<noteq> NInf)"
| "flt x PInf = (x \<noteq> PInf)"
| "flt _ _ = False"

fun feq :: "pyfloat \<Rightarrow> pyfloat \<Rightarrow> bool" where
  "feq NaN _ = False"
| "feq x y = (x = y)"

text \<open>\<open>max(x, 0.0)\<close>: the first argument unless the second is greater, so a NaN stays.\<close>

definition fmax0 :: "pyfloat \<Rightarrow> pyfloat" where
  "fmax0 x = (if flt x (Fin 0) then Fin 0 else x)"

section \<open>The exponent and the rounding are right\<close>

lemma flog2_bounds:
  assumes "0 < x"
  shows "2 powi flog2 x \<le> x" and "x < 2 powi (flog2 x + 1)"
proof -
  obtain p q where pq: "quotient_of x = (p, q)" by fastforce
  have q: "0 < q" using quotient_of_denom_pos [OF pq] .
  have x: "x = of_int p / of_int q" using quotient_of_div [OF pq] .
  have p: "0 < p" using assms q by (simp add: x zero_less_divide_iff)
  let ?b = "\<lambda>n. nat (bitlen n)"
  have bl: "2 ^ (?b n - 1) \<le> n \<and> n < 2 ^ ?b n \<and> 1 \<le> bitlen n" if "0 < n" for n :: int
    using that bitlen_bounds [of n] by (simp add: bitlen_ge_iff_power nat_diff_distrib')
  have up: "(of_int n :: rat) < 2 powi bitlen n" if "0 < n" for n :: int
  proof -
    have "(of_int n :: rat) < of_int (2 ^ ?b n)" using bl [OF that] by linarith
    then show ?thesis using bl [OF that] by (simp add: power_int_def)
  qed
  have lo: "2 powi (bitlen n - 1) \<le> (of_int n :: rat)" if "0 < n" for n :: int
  proof -
    have "(of_int (2 ^ (?b n - 1)) :: rat) \<le> of_int n" using bl [OF that] by linarith
    moreover have "nat (bitlen n - 1) = ?b n - 1" by simp
    ultimately show ?thesis using bl [OF that] by (simp add: power_int_def)
  qed
  let ?k = "bitlen p - bitlen q"
  have "x * of_int q < 2 powi bitlen p" using up [OF p] q by (simp add: x)
  then have "x * 2 powi (bitlen q - 1) < 2 powi bitlen p"
    using mult_left_mono [OF lo [OF q], of x] assms by linarith
  then have u: "x < 2 powi (?k + 1)"
    by (simp add: field_simps power_int_add power_int_diff)
  have "2 powi (bitlen p - 1) \<le> x * of_int q" using lo [OF p] q by (simp add: x)
  also have "\<dots> \<le> x * 2 powi bitlen q"
    using mult_left_mono [OF less_imp_le [OF up [OF q]], of x] assms by linarith
  finally have l: "2 powi (?k - 1) \<le> x"
    by (simp add: field_simps power_int_add power_int_diff)
  show "2 powi flog2 x \<le> x" and "x < 2 powi (flog2 x + 1)"
    using u l by (auto simp: flog2_def pq Let_def)
qed

lemma powi_two_le [simp]: "(2::rat) powi a \<le> 2 powi b \<longleftrightarrow> a \<le> b"
  by (meson linorder_not_le one_less_numeral_iff power_int_increasing power_int_strict_increasing rel_simps(6) less_imp_le one_le_numeral semiring_norm(76))

lemma flog2_mono: assumes "0 < x" "x \<le> y" shows "flog2 x \<le> flog2 y"
proof -
  have "(2::rat) powi flog2 x < 2 powi (flog2 y + 1)"
    using flog2_bounds [of x] flog2_bounds [of y] assms by linarith
  then show ?thesis by (metis linorder_not_le powi_two_le zle_add1_eq_le)
qed

lemma round_half_even_int [simp]: "round_half_even (of_int n) = n"
  by (simp add: round_half_even_def Let_def)

lemma round_half_even_mono:
  assumes "x \<le> y"
  shows "round_half_even x \<le> round_half_even y"
proof (cases "\<lfloor>x\<rfloor> = \<lfloor>y\<rfloor>")
  case True
  with assms show ?thesis by (auto simp: round_half_even_def Let_def)
next
  case False
  then have "\<lfloor>x\<rfloor> + 1 \<le> \<lfloor>y\<rfloor>" using floor_mono [OF assms] by linarith
  moreover have "round_half_even x \<le> \<lfloor>x\<rfloor> + 1" "\<lfloor>y\<rfloor> \<le> round_half_even y"
    by (auto simp: round_half_even_def Let_def)
  ultimately show ?thesis by linarith
qed

text \<open>Rounding keeps the order across a power of two: the grid of the larger number starts there.\<close>

lemma rnd_pos_lower: assumes "0 < y" shows "2 powi flog2 y \<le> rnd_pos y \<or> grid_exp y = -1074"
proof (cases "grid_exp y = -1074")
  case False
  then have e: "grid_exp y = flog2 y - 52" by (simp add: grid_exp_def max_def split: if_splits)
  have "of_int (2 ^ 52) \<le> y / 2 powi grid_exp y"
    using flog2_bounds(1) [OF assms] by (simp add: e field_simps power_int_diff)
  from round_half_even_mono [OF this] have "2 ^ 52 \<le> round_half_even (y / 2 powi grid_exp y)"
    by (simp only: round_half_even_int)
  then have "(2 ^ 52 :: rat) \<le> of_int (round_half_even (y / 2 powi grid_exp y))"
    by (metis of_int_le_iff of_int_numeral of_int_power)
  then have "2 ^ 52 * 2 powi grid_exp y \<le> rnd_pos y"
    unfolding rnd_pos_def by (rule mult_right_mono) simp
  then show ?thesis by (simp add: e power_int_diff)
qed simp

lemma rnd_pos_upper: assumes "0 < x" shows "rnd_pos x \<le> 2 powi (grid_exp x + 53)"
proof -
  have "flog2 x + 1 \<le> grid_exp x + 53" by (simp add: grid_exp_def)
  then have "(2::rat) powi (flog2 x + 1) \<le> 2 powi (grid_exp x + 53)" by (simp only: powi_two_le)
  then have "x < 2 powi (grid_exp x + 53)" using flog2_bounds(2) [OF assms] by linarith
  then have "x / 2 powi grid_exp x \<le> of_int (2 ^ 53)"
    by (simp add: field_simps power_int_add)
  from round_half_even_mono [OF this] have "round_half_even (x / 2 powi grid_exp x) \<le> 2 ^ 53"
    by (simp only: round_half_even_int)
  then have "of_int (round_half_even (x / 2 powi grid_exp x)) \<le> (2 ^ 53 :: rat)"
    by (metis of_int_le_iff of_int_numeral of_int_power)
  then have "rnd_pos x \<le> 2 ^ 53 * 2 powi grid_exp x"
    unfolding rnd_pos_def by (rule mult_right_mono) simp
  then show ?thesis by (simp add: power_int_add)
qed

lemma rnd_pos_mono: assumes "0 < x" "x \<le> y" shows "rnd_pos x \<le> rnd_pos y"
proof -
  have le: "grid_exp x \<le> grid_exp y"
    using flog2_mono [OF assms] by (auto simp: grid_exp_def)
  show ?thesis
  proof (cases "grid_exp x = grid_exp y")
    case True
    have "x / 2 powi grid_exp x \<le> y / 2 powi grid_exp x"
      using assms(2) by (simp add: divide_right_mono)
    from round_half_even_mono [OF this] show ?thesis
      unfolding rnd_pos_def True by (intro mult_right_mono) (simp_all add: True)
  next
    case False
    with le have lt: "grid_exp x < grid_exp y" by simp
    then have ge: "grid_exp y \<noteq> -1074" by (auto simp: grid_exp_def)
    then have e: "grid_exp y = flog2 y - 52" by (simp add: grid_exp_def max_def split: if_splits)
    have "rnd_pos x \<le> 2 powi (grid_exp x + 53)" using rnd_pos_upper [OF assms(1)] .
    also have "\<dots> \<le> 2 powi flog2 y" using lt e by simp
    also have "\<dots> \<le> rnd_pos y" using rnd_pos_lower [of y] assms ge by simp
    finally show ?thesis .
  qed
qed

lemma rnd_pos_nonneg: assumes "0 < x" shows "0 \<le> rnd_pos x"
proof -
  have "of_int 0 \<le> x / 2 powi grid_exp x" using assms by simp
  from round_half_even_mono [OF this] have "0 \<le> round_half_even (x / 2 powi grid_exp x)"
    by (simp only: round_half_even_int)
  then show ?thesis by (simp add: rnd_pos_def)
qed

lemma rnd_mono: assumes "x \<le> y" shows "rnd x \<le> rnd y"
proof -
  consider "0 < x" | "x \<le> 0" "0 \<le> y" | "y < 0" using assms by linarith
  then show ?thesis
  proof cases
    case 1
    with assms rnd_pos_mono show ?thesis by (simp add: rnd_def)
  next
    case 2
    with rnd_pos_nonneg [of y] rnd_pos_nonneg [of "- x"] show ?thesis by (auto simp: rnd_def)
  next
    case 3
    with assms rnd_pos_mono [of "- y" "- x"] show ?thesis by (simp add: rnd_def)
  qed
qed

text \<open>A multiple of a power of two on a fine enough grid is not moved.\<close>

lemma rnd_pos_exact:
  assumes "x = of_int m * 2 powi e" "grid_exp x \<le> e"
  shows "rnd_pos x = x"
proof -
  have "x / 2 powi grid_exp x = of_int m * 2 powi (e - grid_exp x)"
    by (subst assms(1)) (simp add: power_int_diff)
  also have "\<dots> = of_int (m * 2 ^ nat (e - grid_exp x))"
    using assms(2) by (simp add: power_int_def)
  finally have eq: "x / 2 powi grid_exp x = of_int (m * 2 ^ nat (e - grid_exp x))" .
  then have "of_int (m * 2 ^ nat (e - grid_exp x)) * 2 powi grid_exp x = x"
    by (simp add: eq [symmetric] del: of_int_mult)
  then show ?thesis unfolding rnd_pos_def eq round_half_even_int .
qed

lemma rnd_pos_idem: assumes "0 < x" "0 < rnd_pos x" shows "rnd_pos (rnd_pos x) = rnd_pos x"
proof -
  let ?m = "round_half_even (x / 2 powi grid_exp x)" and ?e = "grid_exp x" and ?y = "rnd_pos x"
  have y: "?y = of_int ?m * 2 powi ?e" by (simp add: rnd_pos_def)
  show ?thesis
  proof (cases "?y = 2 powi (?e + 53)")
    case True
    have "\<not> 2 powi (?e + 54) \<le> ?y" by (simp add: True)
    then have "flog2 ?y + 1 \<le> ?e + 54"
      using flog2_bounds(1) [OF assms(2)] powi_two_le [of "?e + 54" "flog2 ?y"] by linarith
    moreover have "-1074 \<le> ?e" by (simp add: grid_exp_def)
    ultimately have "grid_exp ?y \<le> ?e + 1" by (simp add: grid_exp_def)
    then show ?thesis
      by (intro rnd_pos_exact [where m = "2 ^ 52" and e = "?e + 1"]) (simp_all add: True power_int_add)
  next
    case False
    then have "?y < 2 powi (?e + 53)" using rnd_pos_upper [OF assms(1)] by simp
    then have "flog2 ?y < ?e + 53"
      using flog2_bounds(1) [OF assms(2)] powi_two_le [of "?e + 53" "flog2 ?y"] by linarith
    moreover have "-1074 \<le> ?e" by (simp add: grid_exp_def)
    ultimately have "grid_exp ?y \<le> ?e" by (simp add: grid_exp_def)
    then show ?thesis by (rule rnd_pos_exact [OF y])
  qed
qed

lemma rnd_idem [simp]: "rnd (rnd x) = rnd x"
proof -
  consider "x = 0" | "0 < x" | "x < 0" by linarith
  then show ?thesis
  proof cases
    case 2
    with rnd_pos_nonneg [OF 2] rnd_pos_idem [OF 2] show ?thesis by (simp add: rnd_def)
  next
    case 3
    with rnd_pos_nonneg [of "- x"] rnd_pos_idem [of "- x"] show ?thesis by (simp add: rnd_def)
  qed (simp add: rnd_def)
qed

text \<open>Integers below \<open>2 ^ 53\<close> are not moved.\<close>

lemma rnd_int: assumes "0 \<le> n" "n < 2 ^ 53" shows "rnd (of_int n) = of_int n"
proof (cases "n = 0")
  case False
  let ?x = "of_int n :: rat"
  have pos: "0 < ?x" using False assms by simp
  have "?x < of_int (2 ^ 53)" using assms(2) by linarith
  then have "?x < 2 powi 53" by simp
  then have "flog2 ?x < 53" using flog2_bounds(1) [OF pos] powi_two_le [of 53 "flog2 ?x"] by linarith
  then have "rnd_pos ?x = ?x" by (intro rnd_pos_exact [where m = n and e = 0]) (simp_all add: grid_exp_def)
  then show ?thesis using pos by (simp add: rnd_def)
qed (simp add: rnd_def)

lemma rnd_numeral [simp]: "numeral n < (2 ^ 53 :: int) \<Longrightarrow> rnd (numeral n) = numeral n"
  using rnd_int [of "numeral n"] by simp

lemma rnd_one [simp]: "rnd 1 = 1"
  using rnd_int [of 1] by simp

section \<open>Well-formed floats and running totals\<close>

text \<open>The values a binary64 can hold: what rounding returns, the infinities and NaN.\<close>

fun wf_float :: "pyfloat \<Rightarrow> bool" where
  "wf_float (Fin x) = (rnd x = x \<and> - (2 powi 1024) < x \<and> x < 2 powi 1024)"
| "wf_float _ = True"

lemma rnd_zero [simp]: "rnd 0 = 0"
  by (simp add: rnd_def)

lemma wf_to_float: "wf_float (to_float x)"
  by (simp add: to_float_def Let_def)

lemma wf_zero [simp]: "wf_float (Fin 0)"
  by (simp add: rnd_def)

lemma wf_fadd: "wf_float (fadd x y)"
  by (cases "(x, y)" rule: fadd.cases) (simp_all add: wf_to_float)

lemma fle_refl: "x \<noteq> NaN \<Longrightarrow> fle x x"
  by (cases x) simp_all

lemma fle_trans: "fle x y \<Longrightarrow> fle y z \<Longrightarrow> fle x z"
  by (cases x; cases y; cases z) simp_all

text \<open>Adding a non-negative number never lowers a float, whatever the rounding does.\<close>

lemma fadd_increases:
  assumes "wf_float x" "fle (Fin 0) c"
  shows "fadd x c = NaN \<or> fle x (fadd x c)"
proof (cases x)
  case (Fin a)
  note x = this
  show ?thesis
  proof (cases c)
    case (Fin b)
    have "rnd a \<le> rnd (a + b)" using assms(2) by (intro rnd_mono) (simp add: Fin)
    then show ?thesis using assms(1) by (auto simp: x Fin to_float_def Let_def)
  qed (use x assms(2) in simp_all)
qed (use assms(2) in \<open>cases c; simp\<close>)+

lemma fmax0_nonneg: "fmax0 c = NaN \<or> fle (Fin 0) (fmax0 c)"
  by (cases c) (auto simp: fmax0_def)

lemma not_fle_flt: "x \<noteq> NaN \<Longrightarrow> y \<noteq> NaN \<Longrightarrow> \<not> fle x y \<longleftrightarrow> flt y x"
  by (cases x; cases y) auto

end
