(* ===== verification/Py_Value.thy ===== *)
theory Py_Value
  imports Py_Float "HOL-Library.AList" "HOL-Library.List_Lexorder" "HOL-Library.Char_ord"
    "HOL-Library.Multiset"
begin

text \<open>
  The dynamically typed values the modelled modules pass around: what \<open>json.loads\<close> returns
  and \<open>json.dumps\<close> takes. A \<open>dict\<close> is the list of its items in insertion order;
  \<open>d[k] = v\<close> is \<open>AList.update\<close>, which replaces the value of a present key in place and
  appends a new key at the end, as Python does. Strings are ordered by code point.
\<close>

datatype json =
    JNull
  | JBool bool
  | JInt int
  | JFlt pyfloat
  | JStr string
  | JList "json list"
  | JObj "(string \<times> json) list"

type_synonym dict = "(string \<times> json) list"

section \<open>Type tests and reads\<close>

primrec is_str :: "json \<Rightarrow> bool" where
  "is_str JNull = False" | "is_str (JBool b) = False" | "is_str (JInt n) = False"
| "is_str (JFlt x) = False" | "is_str (JStr s) = True" | "is_str (JList xs) = False"
| "is_str (JObj d) = False"

primrec is_obj :: "json \<Rightarrow> bool" where
  "is_obj JNull = False" | "is_obj (JBool b) = False" | "is_obj (JInt n) = False"
| "is_obj (JFlt x) = False" | "is_obj (JStr s) = False" | "is_obj (JList xs) = False"
| "is_obj (JObj d) = True"

primrec is_list :: "json \<Rightarrow> bool" where
  "is_list JNull = False" | "is_list (JBool b) = False" | "is_list (JInt n) = False"
| "is_list (JFlt x) = False" | "is_list (JStr s) = False" | "is_list (JList xs) = True"
| "is_list (JObj d) = False"

text \<open>\<open>isinstance(v, str) and v\<close>: a string that is not empty.\<close>

definition nonempty_str :: "json \<Rightarrow> bool" where
  "nonempty_str v \<longleftrightarrow> (case v of JStr s \<Rightarrow> s \<noteq> [] | _ \<Rightarrow> False)"

text \<open>\<open>isinstance(v, str) and v.strip()\<close>, and the text of a string.\<close>

definition nonblank :: "json \<Rightarrow> bool" where
  "nonblank v = (case v of JStr s \<Rightarrow> \<not> blank s | _ \<Rightarrow> False)"

definition text_of :: "json \<Rightarrow> string" where
  "text_of v = (case v of JStr s \<Rightarrow> s | _ \<Rightarrow> [])"

text \<open>Python truth of a value: \<open>None\<close>, \<open>False\<close>, zeros and empty containers are false.\<close>

primrec truthy :: "json \<Rightarrow> bool" where
  "truthy JNull = False"
| "truthy (JBool b) = b"
| "truthy (JInt n) = (n \<noteq> 0)"
| "truthy (JFlt x) = (x \<noteq> Fin 0)"
| "truthy (JStr s) = (s \<noteq> [])"
| "truthy (JList xs) = (xs \<noteq> [])"
| "truthy (JObj d) = (d \<noteq> [])"

text \<open>\<open>d.get(k)\<close>, the keys, and \<open>k in d\<close>.\<close>

definition dget :: "dict \<Rightarrow> string \<Rightarrow> json" where
  "dget d k = (case map_of d k of None \<Rightarrow> JNull | Some v \<Rightarrow> v)"

definition dict_keys :: "dict \<Rightarrow> string list" where
  "dict_keys d = map fst d"

definition has_key :: "dict \<Rightarrow> string \<Rightarrow> bool" where
  "has_key d k \<longleftrightarrow> k \<in> set (dict_keys d)"

text \<open>\<open>set(d) == {...}\<close> for a fixed collection of field names.\<close>

definition keys_are :: "dict \<Rightarrow> string list \<Rightarrow> bool" where
  "keys_are d ks \<longleftrightarrow> set (dict_keys d) = set ks"

definition dset :: "string \<Rightarrow> json \<Rightarrow> dict \<Rightarrow> dict" where
  "dset k v d = AList.update k v d"

lemma dget_simps [simp]: "dget [] k = JNull" "dget ((k', v) # d) k = (if k = k' then v else dget d k)"
  by (simp_all add: dget_def)

lemma dget_dset [simp]: "dget (dset k v d) k' = (if k' = k then v else dget d k')"
  by (simp add: dget_def dset_def update_conv')

lemma update_fresh: "map_of xs i = None \<Longrightarrow> AList.update i b xs = xs @ [(i, b)]"
  by (induction xs) (auto split: if_splits)

lemma update_update [simp]: "AList.update k v (AList.update k u d) = AList.update k v d"
  by (induction d) auto

lemma dset_dset [simp]: "dset k v (dset k u d) = dset k v d"
  by (simp add: dset_def)

lemma dset_dset_other:
  "k \<noteq> k' \<Longrightarrow> k \<in> set (map fst d) \<Longrightarrow> dset k v (dset k' w (dset k u d)) = dset k v (dset k' w d)"
proof (induction d)
  case (Cons p d)
  have "AList.update k v (AList.update k u d) = AList.update k v d" by (induction d) auto
  with Cons show ?case by (auto simp: dset_def)
qed simp

lemma filter_dset: "k \<notin> S \<Longrightarrow> filter (\<lambda>kv. fst kv \<notin> S) (dset k v d) = dset k v (filter (\<lambda>kv. fst kv \<notin> S) d)"
  by (induction d) (auto simp: dset_def)

lemma dget_in_keys: "dget d k \<noteq> JNull \<Longrightarrow> k \<in> set (map fst d)"
  by (cases "map_of d k") (auto simp: dget_def dest!: map_of_SomeD intro: image_eqI [rotated])

lemma dict_keys_dset: "set (dict_keys (dset k v d)) = insert k (set (dict_keys d))"
  by (induction d) (auto simp: dict_keys_def dset_def)

lemma has_key_iff: "has_key d k \<longleftrightarrow> map_of d k \<noteq> None"
  by (simp add: has_key_def dict_keys_def map_of_eq_None_iff)

lemma keys_are_has_key: "keys_are d ks \<Longrightarrow> has_key d k \<longleftrightarrow> k \<in> set ks"
  by (simp add: keys_are_def has_key_def)

lemma nonempty_str_iff: "nonempty_str v \<longleftrightarrow> (\<exists>s. v = JStr s \<and> s \<noteq> [])"
  by (cases v) (simp_all add: nonempty_str_def)

lemma is_obj_iff: "is_obj v \<longleftrightarrow> (\<exists>d. v = JObj d)"
  by (cases v) simp_all

lemma is_str_iff: "is_str v \<longleftrightarrow> (\<exists>s. v = JStr s)"
  by (cases v) simp_all

lemma is_list_iff: "is_list v \<longleftrightarrow> (\<exists>xs. v = JList xs)"
  by (cases v) simp_all

section \<open>Items, their values and their order\<close>

definition map_vals :: "('a \<Rightarrow> 'b) \<Rightarrow> ('k \<times> 'a) list \<Rightarrow> ('k \<times> 'b) list" where
  "map_vals f d = map (\<lambda>kv. (fst kv, f (snd kv))) d"

lemma map_vals_cong [fundef_cong]:
  "d = e \<Longrightarrow> (\<And>k v. (k, v) \<in> set e \<Longrightarrow> f v = g v) \<Longrightarrow> map_vals f d = map_vals g e"
  by (auto simp: map_vals_def)

lemma map_vals_simps [simp]: "map_vals f [] = []" "map_vals f (x # d) = (fst x, f (snd x)) # map_vals f d"
  by (simp_all add: map_vals_def)

lemma fst_map_vals [simp]: "map fst (map_vals f d) = map fst d"
  by (simp add: map_vals_def comp_def)

lemma map_vals_map_vals [simp]: "map_vals f (map_vals g d) = map_vals (\<lambda>v. f (g v)) d"
  by (simp add: map_vals_def comp_def)

lemma map_of_map_vals: "map_of (map_vals f d) k = map_option f (map_of d k)"
  by (induction d) auto

lemma map_vals_insort:
  "map_vals f (insort_key fst x xs) = insort_key fst (fst x, f (snd x)) (map_vals f xs)"
  by (induction xs) (auto simp: map_vals_def)

text \<open>Sorting by key commutes with a map over the values.\<close>

lemma map_vals_sort: "map_vals f (sort_key fst d) = sort_key fst (map_vals f d)"
  by (induction d) (simp_all add: map_vals_insort)

lemma sort_sort_fst [simp]: "sort_key fst (sort_key fst xs) = sort_key fst xs"
  by (rule sort_key_id_if_sorted) simp

lemma sort_map_vals_sort [simp]:
  "sort_key fst (map_vals f (sort_key fst d)) = sort_key fst (map_vals f d)"
  by (simp add: map_vals_sort)

lemma sum_list_map_sort:
  "sum_list (map (h :: _ \<Rightarrow> nat) (sort_key f xs)) = sum_list (map h xs)"
proof -
  have "sum_mset (mset (map h (sort_key f xs))) = sum_mset (mset (map h xs))" by simp
  then show ?thesis by (simp only: sum_mset_sum_list)
qed

text \<open>The sort is stable: the first item of every key stays the first.\<close>

lemma map_of_insort_fst: "map_of (insort_key fst x xs) k = (if k = fst x then Some (snd x) else map_of xs k)"
  by (induction xs) auto

lemma map_of_sort_fst [simp]: "map_of (sort_key fst d) k = map_of d k"
  by (induction d) (auto simp: map_of_insort_fst)

lemma dget_map_vals:
  "f JNull = JNull \<Longrightarrow> dget (map_vals f d) k = f (dget d k)"
  by (simp add: dget_def map_of_map_vals split: option.splits)

lemma dget_sort [simp]: "dget (sort_key fst d) k = dget d k"
  by (simp add: dget_def)

lemma keys_are_sort [simp]: "keys_are (sort_key fst d) ks = keys_are d ks"
  by (simp add: keys_are_def dict_keys_def)

lemma keys_are_map_vals [simp]: "keys_are (map_vals f d) ks = keys_are d ks"
  by (simp add: keys_are_def dict_keys_def)

section \<open>Equality and membership\<close>

text \<open>
  Python's \<open>==\<close>: booleans, integers and floats compare by their numeric value
  (\<open>True == 1 == 1.0\<close>), a dict ignores the order of its items, a NaN equals nothing.
\<close>

fun num_val :: "json \<Rightarrow> pyfloat option" where
  "num_val (JBool b) = Some (Fin (if b then 1 else 0))"
| "num_val (JInt n) = Some (Fin (of_int n))"
| "num_val (JFlt x) = Some x"
| "num_val _ = None"

fun py_eq :: "json \<Rightarrow> json \<Rightarrow> bool" where
  "py_eq JNull w = (w = JNull)"
| "py_eq (JStr s) w = (w = JStr s)"
| "py_eq (JList xs) w = (case w of JList ys \<Rightarrow> list_all2 py_eq xs ys | _ \<Rightarrow> False)"
| "py_eq (JObj d) w = (case w of
     JObj e \<Rightarrow> length d = length e \<and>
       list_all (\<lambda>kv. case map_of e (fst kv) of None \<Rightarrow> False | Some y \<Rightarrow> py_eq (snd kv) y) d
   | _ \<Rightarrow> False)"
| "py_eq v w = (case num_val v of None \<Rightarrow> False | Some x \<Rightarrow>
     (case num_val w of None \<Rightarrow> False | Some y \<Rightarrow> feq x y))"

lemma py_eq_str [simp]: "py_eq v (JStr s) \<longleftrightarrow> v = JStr s"
  by (cases v) auto

lemma py_eq_null [simp]: "py_eq v JNull \<longleftrightarrow> v = JNull"
  by (cases v) auto

text \<open>\<open>v in xs\<close> for a list or tuple.\<close>

definition py_in :: "json \<Rightarrow> json list \<Rightarrow> bool" where
  "py_in v xs \<longleftrightarrow> (\<exists>x\<in>set xs. py_eq v x)"

text \<open>
  Lists and dicts cannot be hashed: looking one up in a set or a dict raises
  \<open>TypeError\<close>.
\<close>

fun hashable :: "json \<Rightarrow> bool" where
  "hashable (JList xs) = False"
| "hashable (JObj d) = False"
| "hashable v = True"

section \<open>Sizes\<close>

text \<open>The nodes of a value and its nesting depth, as the bounded-input checks count them.\<close>

fun nodes :: "json \<Rightarrow> nat" where
  "nodes (JList xs) = Suc (sum_list (map nodes xs))"
| "nodes (JObj d) = Suc (sum_list (map (\<lambda>kv. nodes (snd kv)) d))"
| "nodes v = 1"

fun height :: "json \<Rightarrow> nat" where
  "height (JList xs) = (case xs of [] \<Rightarrow> 0 | _ \<Rightarrow> Suc (Max (set (map height xs))))"
| "height (JObj d) =
     (case d of [] \<Rightarrow> 0 | _ \<Rightarrow> Suc (Max (set (map (\<lambda>kv. height (snd kv)) d))))"
| "height v = 0"

end
