(* ===== verification/Canonical.thy ===== *)
theory Canonical
  imports Py_Value "HOL-Library.Multiset"
begin

text \<open>
  Canonical JSON text and digests. \<open>json.dumps(v, sort_keys=True, separators=(",", ":"))\<close>
  is written out (items sorted by key, no white space, the escapes of the \<open>json\<close> module),
  for both settings of \<open>ensure_ascii\<close>; the digest helpers of
  \<open>widget_contract/product_packaging/_digest.py\<close> are built on it.

  Two functions of the Python runtime stay abstract, in the record \<open>hostlib\<close>: the
  SHA-256 hex digest of a text, and \<open>float.__repr__\<close>. Every theorem holds for all of their
  values unless it names what it assumes of them.
\<close>

record hostlib =
  sha256 :: "string \<Rightarrow> string"
  float_repr :: "rat \<Rightarrow> string"

section \<open>Text of a value\<close>

fun dec_nat :: "nat \<Rightarrow> string" where
  "dec_nat n = (if n < 10 then [char_of (48 + n)] else dec_nat (n div 10) @ [char_of (48 + n mod 10)])"

declare dec_nat.simps [simp del]

definition dec_int :: "int \<Rightarrow> string" where
  "dec_int n = (if n < 0 then CHR ''-'' # dec_nat (nat (- n)) else dec_nat (nat n))"

definition hex_digit :: "nat \<Rightarrow> char" where
  "hex_digit n = (if n < 10 then char_of (48 + n) else char_of (87 + n))"

text \<open>One character inside a string literal.\<close>

definition esc_char :: "bool \<Rightarrow> char \<Rightarrow> string" where
  "esc_char ascii c = (let n = of_char c :: nat in
     if c = CHR 0x22 then [CHR 0x5C, CHR 0x22]
     else if c = CHR 0x5C then [CHR 0x5C, CHR 0x5C]
     else if n = 10 then [CHR 0x5C, CHR ''n'']
     else if n = 13 then [CHR 0x5C, CHR ''r'']
     else if n = 9 then [CHR 0x5C, CHR ''t'']
     else if n = 12 then [CHR 0x5C, CHR ''f'']
     else if n = 8 then [CHR 0x5C, CHR ''b'']
     else if n < 32 \<or> (ascii \<and> 126 < n)
       then [CHR 0x5C, CHR ''u'', CHR ''0'', CHR ''0'', hex_digit (n div 16), hex_digit (n mod 16)]
     else [c])"

definition quote :: "bool \<Rightarrow> string \<Rightarrow> string" where
  "quote ascii s = CHR 0x22 # concat (map (esc_char ascii) s) @ [CHR 0x22]"

fun join :: "string \<Rightarrow> string list \<Rightarrow> string" where
  "join sep [] = []"
| "join sep [x] = x"
| "join sep (x # y # xs) = x @ sep @ join sep (y # xs)"

fun float_text :: "hostlib \<Rightarrow> pyfloat \<Rightarrow> string" where
  "float_text H (Fin x) = float_repr H x"
| "float_text H PInf = ''Infinity''"
| "float_text H NInf = ''-Infinity''"
| "float_text H NaN = ''NaN''"

fun dumps :: "hostlib \<Rightarrow> bool \<Rightarrow> json \<Rightarrow> string" where
  "dumps H a JNull = ''null''"
| "dumps H a (JBool b) = (if b then ''true'' else ''false'')"
| "dumps H a (JInt n) = dec_int n"
| "dumps H a (JFlt x) = float_text H x"
| "dumps H a (JStr s) = quote a s"
| "dumps H a (JList xs) = ''['' @ join '','' (map (dumps H a) xs) @ '']''"
| "dumps H a (JObj d) = ''{'' @ join '','' (map (\<lambda>kt. quote a (fst kt) @ '':'' @ snd kt)
     (sort_key fst (map_vals (dumps H a) d))) @ ''}''"

text \<open>\<open>allow_nan=False\<close> refuses a value that holds an infinity or a NaN.\<close>

fun finite_json :: "json \<Rightarrow> bool" where
  "finite_json (JFlt x) = (case x of Fin _ \<Rightarrow> True | _ \<Rightarrow> False)"
| "finite_json (JList xs) = list_all finite_json xs"
| "finite_json (JObj d) = list_all (\<lambda>kv. finite_json (snd kv)) d"
| "finite_json v = True"

text \<open>What \<open>json.loads\<close> returns for the canonical text: the same value, its items in key order.\<close>

fun json_norm :: "json \<Rightarrow> json" where
  "json_norm (JList xs) = JList (map json_norm xs)"
| "json_norm (JObj d) = JObj (sort_key fst (map_vals json_norm d))"
| "json_norm v = v"

section \<open>The packaging digest helpers\<close>

datatype digest_error =
    Digest_not_string string
  | Digest_doubled_prefix string
  | Digest_not_hex64 string

definition SHA256_PREFIX :: string where
  "SHA256_PREFIX = ''sha256:''"

definition canonical_object :: "hostlib \<Rightarrow> json \<Rightarrow> string" where
  "canonical_object H obj = dumps H True obj"

definition canonical_array :: "hostlib \<Rightarrow> json list \<Rightarrow> string" where
  "canonical_array H items = ''['' @ join '','' (map (dumps H True) items) @ '']''"

definition sha256_hex :: "hostlib \<Rightarrow> string \<Rightarrow> string" where
  "sha256_hex H text = sha256 H text"

definition strip_prefix :: "string \<Rightarrow> string" where
  "strip_prefix value = (if startswith value SHA256_PREFIX
     then drop (length SHA256_PREFIX) value else value)"

definition normalize_digest :: "json \<Rightarrow> string \<Rightarrow> digest_error + string" where
  "normalize_digest value field = (case value of
     JStr s \<Rightarrow>
       (let stripped = strip_prefix s in
        if startswith s SHA256_PREFIX \<and> startswith stripped SHA256_PREFIX
          then Inl (Digest_doubled_prefix field)
        else if \<not> match_dollar hex64 stripped then Inl (Digest_not_hex64 field)
        else Inr stripped)
   | _ \<Rightarrow> Inl (Digest_not_string field))"

definition digest_of_object :: "hostlib \<Rightarrow> json \<Rightarrow> string" where
  "digest_of_object H obj = sha256_hex H (canonical_object H obj)"

section \<open>Lemmas\<close>

lemma canonical_array_eq: "canonical_array H items = canonical_object H (JList items)"
  by (simp add: canonical_array_def canonical_object_def)

lemma strip_prefix_add [simp]: "strip_prefix (SHA256_PREFIX @ s) = s"
  by (simp add: strip_prefix_def)

lemma hex64_no_prefix: assumes "match_dollar hex64 s" shows "\<not> startswith s SHA256_PREFIX"
proof
  assume "startswith s SHA256_PREFIX"
  then obtain t where s: "s = ''sha256:'' @ t" by (auto simp: startswith_iff SHA256_PREFIX_def)
  have "\<not> is_hex (CHR ''s'')" by (simp add: is_hex_def is_digit_def)
  moreover have "CHR ''s'' \<in> set (butlast s)" by (simp add: s butlast_append)
  ultimately show False using assms in_set_butlastD [of "CHR ''s''" s]
    by (auto simp: match_dollar_def hex64_def list_all_iff)
qed

text \<open>
  Normalisation accepts a string exactly when what is left after one optional prefix is a
  64-digit hex text, or such a text and one newline; the result is that rest.
\<close>

lemma normalize_digest_Inr:
  "normalize_digest v f = Inr d \<longleftrightarrow>
     (v = JStr d \<or> v = JStr (SHA256_PREFIX @ d)) \<and> match_dollar hex64 d"
proof (cases v)
  case (JStr s)
  show ?thesis
  proof (cases "startswith s SHA256_PREFIX")
    case True
    then obtain t where s: "s = SHA256_PREFIX @ t" by (auto simp: startswith_iff)
    show ?thesis
      using hex64_no_prefix [of t] hex64_no_prefix [of s] True
      by (auto simp: normalize_digest_def JStr s Let_def)
  next
    case False
    then show ?thesis
      by (auto simp: normalize_digest_def JStr Let_def strip_prefix_def)
  qed
qed (simp_all add: normalize_digest_def)

lemma normalize_digest_idem:
  "normalize_digest v f = Inr d \<Longrightarrow> normalize_digest (JStr d) g = Inr d"
  by (simp add: normalize_digest_Inr)

lemma normalize_digest_hex64 [simp]:
  "hex64 d \<Longrightarrow> normalize_digest (JStr d) f = Inr d"
  by (simp add: normalize_digest_Inr match_dollar_body)

text \<open>The canonical text does not see the order of the items: reading it back changes nothing.\<close>

lemma map_vals_json_cong:
  assumes "\<And>x y. x \<in> set d \<Longrightarrow> y \<in> Basic_BNFs.snds x \<Longrightarrow> f y = g y"
  shows "map_vals f d = map_vals g d"
proof (rule map_vals_cong [OF refl])
  fix k v assume "(k, v) \<in> set d"
  then show "f v = g v" using assms [of "(k, v)" v] by (simp add: Basic_BNFs.prod_set_defs)
qed

lemma dumps_norm [simp]: "dumps H a (json_norm v) = dumps H a v"
proof (induction v)
  case (JList xs)
  then show ?case by (simp add: comp_def cong: map_cong)
next
  case (JObj d)
  then have "map_vals (\<lambda>v. dumps H a (json_norm v)) d = map_vals (dumps H a) d"
    by (rule map_vals_json_cong)
  then show ?case by simp
qed simp_all

lemma json_norm_idem [simp]: "json_norm (json_norm v) = json_norm v"
proof (induction v)
  case (JList xs)
  then show ?case by (simp add: comp_def cong: map_cong)
next
  case (JObj d)
  then have "map_vals (\<lambda>v. json_norm (json_norm v)) d = map_vals json_norm d"
    by (rule map_vals_json_cong)
  then show ?case by simp
qed simp_all

lemma finite_norm [simp]: "finite_json (json_norm v) = finite_json v"
  by (induction v) (auto simp: list_all_iff map_vals_def Basic_BNFs.prod_set_defs)

lemma nodes_norm [simp]: "nodes (json_norm v) = nodes v"
proof (induction v)
  case (JList xs)
  then show ?case by (simp add: comp_def cong: map_cong)
next
  case (JObj d)
  have "sum_list (map (\<lambda>kv. nodes (snd kv)) (sort_key fst (map_vals json_norm d)))
      = sum_list (map (\<lambda>kv. nodes (snd kv)) (map_vals json_norm d))"
    by (rule sum_list_map_sort)
  also have "\<dots> = sum_list (map snd (map_vals (\<lambda>v. nodes (json_norm v)) d))"
    by (simp add: map_vals_def comp_def)
  also have "map_vals (\<lambda>v. nodes (json_norm v)) d = map_vals nodes d"
    using JObj by (rule map_vals_json_cong)
  finally show ?case by (simp add: map_vals_def comp_def)
qed simp_all

lemma map_of_json_norm: "map_of (sort_key fst (map_vals json_norm d)) k = map_option json_norm (map_of d k)"
  by (simp add: map_of_map_vals)

lemma json_norm_eq_iff [simp]:
  "json_norm v = JNull \<longleftrightarrow> v = JNull" "json_norm v = JBool b \<longleftrightarrow> v = JBool b"
  "json_norm v = JInt n \<longleftrightarrow> v = JInt n" "json_norm v = JFlt x \<longleftrightarrow> v = JFlt x"
  "json_norm v = JStr s \<longleftrightarrow> v = JStr s"
  by (cases v; simp)+

lemma is_obj_norm [simp]: "is_obj (json_norm v) = is_obj v"
  by (cases v) simp_all

lemma dget_json_norm [simp]: "dget (map_vals json_norm d) k = json_norm (dget d k)"
  by (simp add: dget_map_vals)

lemma dumps_map_norm:
  "dumps H a (JObj (map (\<lambda>k. (k, json_norm (f k))) ks)) = dumps H a (JObj (map (\<lambda>k. (k, f k)) ks))"
proof -
  have "map (\<lambda>k. (k, json_norm (f k))) ks = map_vals json_norm (map (\<lambda>k. (k, f k)) ks)"
    by (simp add: map_vals_def comp_def)
  then show ?thesis by simp
qed

text \<open>An upper bound of the length of the text that does not look at the characters.\<close>

fun text_bound :: "hostlib \<Rightarrow> json \<Rightarrow> nat" where
  "text_bound H (JBool b) = 5"
| "text_bound H (JInt n) = length (dec_int n)"
| "text_bound H (JFlt x) = length (float_text H x)"
| "text_bound H (JStr s) = 6 * length s + 2"
| "text_bound H (JList xs) = 2 + sum_list (map (\<lambda>x. Suc (text_bound H x)) xs)"
| "text_bound H (JObj d) = 2 + sum_list (map (\<lambda>kv. 6 * length (fst kv) + 4 + text_bound H (snd kv)) d)"
| "text_bound H JNull = 4"

lemma length_esc_char: "length (esc_char a c) \<le> 6"
  by (simp add: esc_char_def Let_def)

lemma length_concat_esc: "length (concat (map (esc_char a) s)) \<le> 6 * length s"
proof (induction s)
  case (Cons c s)
  then show ?case using length_esc_char [of a c] by simp
qed simp

lemma length_quote: "length (quote a s) \<le> 6 * length s + 2"
  using length_concat_esc [of a s] by (simp add: quote_def)

lemma length_join: "length (join [c] xs) \<le> sum_list (map (\<lambda>x. Suc (length x)) xs)"
  by (induction "[c]" xs rule: join.induct) auto

lemma dumps_bound: "length (dumps H a v) \<le> text_bound H v"
proof (induction v)
  case (JStr s)
  then show ?case using length_quote [of a s] by simp
next
  case (JList xs)
  have "sum_list (map (\<lambda>x. Suc (length (dumps H a x))) xs) \<le> sum_list (map (\<lambda>x. Suc (text_bound H x)) xs)"
    using JList by (intro sum_list_mono) simp
  then show ?case using length_join [of "CHR '',''" "map (dumps H a) xs"] by (simp add: comp_def)
next
  case (JObj d)
  let ?g = "\<lambda>kt. quote a (fst kt) @ '':'' @ snd kt"
  let ?s = "sort_key fst (map_vals (dumps H a) d)"
  have "sum_list (map (\<lambda>kt. Suc (length (?g kt))) ?s) = sum_list (map (\<lambda>kt. Suc (length (?g kt))) (map_vals (dumps H a) d))"
    by (rule sum_list_map_sort)
  also have "\<dots> = sum_list (map (\<lambda>kv. Suc (length (quote a (fst kv)) + Suc (length (dumps H a (snd kv))))) d)"
    by (simp add: map_vals_def comp_def)
  also have "\<dots> \<le> sum_list (map (\<lambda>kv. 6 * length (fst kv) + 4 + text_bound H (snd kv)) d)"
  proof (rule sum_list_mono)
    fix kv assume "kv \<in> set d"
    then have "length (dumps H a (snd kv)) \<le> text_bound H (snd kv)" using JObj [of kv "snd kv"] by (simp add: Basic_BNFs.prod_set_defs)
    then show "Suc (length (quote a (fst kv)) + Suc (length (dumps H a (snd kv)))) \<le> 6 * length (fst kv) + 4 + text_bound H (snd kv)"
      using length_quote [of a "fst kv"] by simp
  qed
  finally show ?case using length_join [of "CHR '',''" "map ?g ?s"] by (simp add: comp_def)
qed simp_all

declare dumps.simps(6,7) [simp del]

section \<open>The digest function\<close>

text \<open>The digest function returns 64 lowercase hex digits, as \<open>hexdigest\<close> of SHA-256 does.\<close>

definition sha_hex :: "hostlib \<Rightarrow> bool" where
  "sha_hex H \<longleftrightarrow> (\<forall>t. hex64 (sha256 H t))"

text \<open>A library to evaluate on: any function of the text with 64 hex digits will do.\<close>

definition sample_lib :: hostlib where
  "sample_lib = \<lparr>sha256 = (\<lambda>t. replicate 63 (CHR ''0'') @ [hex_digit (length t mod 16)]),
     float_repr = (\<lambda>_. ''0.0'')\<rparr>"

lemma is_hex_digit: "n < 16 \<Longrightarrow> is_hex (hex_digit n)"
  by (simp add: is_hex_def is_digit_def hex_digit_def)

lemma sample_sha_hex: "sha_hex sample_lib"
  by (simp add: sha_hex_def sample_lib_def hex64_def list_all_iff is_hex_digit)
    (simp add: is_hex_def is_digit_def)

definition sample_digest :: string where
  "sample_digest = replicate 64 (CHR ''0'')"

lemma sample_digest_hex: "hex64 sample_digest"
  by (simp add: sample_digest_def hex64_def is_hex_def is_digit_def list_all_iff)

end
