(* ===== verification/Core_Store.thy ===== *)
theory Core_Store
  imports Canonical
begin

text \<open>
  \<open>agent-platform/state/core_store.py\<close>: the append-only store of content-bearing records.
  The state is the directory \<open>records/\<close>, a list of files by identity; a file is its length
  in bytes and what \<open>json.loads\<close> makes of it (nothing, when a partial or foreign file does
  not parse). The operating system's answers that are not determined by that state (a
  failing \<open>os.open\<close>, write or directory sync, what a reader sees while another writer is
  busy) are arguments. Interleaved writers are in the theory \<open>Core_Concurrent\<close>.
\<close>

datatype core_error = CoreError (category: string) (message: string) (exit_code: nat)

definition SCHEMA_VERSION :: int where "SCHEMA_VERSION = 1"
definition OUTCOME_APPENDED :: string where "OUTCOME_APPENDED = ''appended''"
definition OUTCOME_REDELIVERY :: string where "OUTCOME_REDELIVERY = ''re-delivery''"
definition OUTCOME_CONFLICT :: string where "OUTCOME_CONFLICT = ''conflict''"
definition CONFLICT_FIELD :: string where "CONFLICT_FIELD = ''payload_digest''"

definition MAX_JSON_BYTES :: nat where "MAX_JSON_BYTES = 1048576"
definition MAX_JSON_DEPTH :: nat where "MAX_JSON_DEPTH = 32"
definition MAX_JSON_NODES :: nat where "MAX_JSON_NODES = 20000"
definition MAX_TEXT_LENGTH :: nat where "MAX_TEXT_LENGTH = 16384"
definition MAX_KEY_LENGTH :: nat where "MAX_KEY_LENGTH = 256"
definition MAX_REF_LENGTH :: nat where "MAX_REF_LENGTH = 128"
definition READ_ATTEMPTS :: nat where "READ_ATTEMPTS = 50"
definition CAS_ATTEMPTS :: nat where "CAS_ATTEMPTS = 3"

lemmas core_limits = MAX_JSON_BYTES_def MAX_JSON_DEPTH_def MAX_JSON_NODES_def
  MAX_TEXT_LENGTH_def MAX_KEY_LENGTH_def MAX_REF_LENGTH_def
lemmas outcome_defs = OUTCOME_APPENDED_def OUTCOME_REDELIVERY_def OUTCOME_CONFLICT_def

section \<open>Input validation\<close>

text \<open>\<open>IDENTITY_RE\<close>, \<open>ISSUE_REF_RE\<close> and \<open>UTC_RE\<close>, each used with \<open>fullmatch\<close>.\<close>

definition identity_re :: "string \<Rightarrow> bool" where
  "identity_re s = (case s of [] \<Rightarrow> False | c # r \<Rightarrow>
     (is_lower c \<or> is_digit c) \<and> length r \<le> 127 \<and>
     list_all (\<lambda>d. is_lower d \<or> is_digit d \<or> d \<in> set ''._:-'') r)"

definition issue_ref_re :: "string \<Rightarrow> bool" where
  "issue_ref_re s = (case s of [] \<Rightarrow> False | c # r \<Rightarrow>
     (is_lower c \<or> is_upper c \<or> is_digit c) \<and> length r \<le> 127 \<and>
     list_all (\<lambda>d. is_lower d \<or> is_upper d \<or> is_digit d \<or> d \<in> set ''/_.#-'') r)"

definition utc_re :: "string \<Rightarrow> bool" where
  "utc_re s = list_all2 (\<lambda>t c. if t = CHR ''d'' then is_digit c else c = t)
     ''dddd-dd-ddTdd:dd:dd.ddddddZ'' s"

definition digit_val :: "char \<Rightarrow> nat" where
  "digit_val c = of_char c - 48"

definition number_at :: "nat \<Rightarrow> nat \<Rightarrow> string \<Rightarrow> nat" where
  "number_at i n s = foldl (\<lambda>v c. 10 * v + digit_val c) 0 (take n (drop i s))"

definition leap_year :: "nat \<Rightarrow> bool" where
  "leap_year y \<longleftrightarrow> y mod 4 = 0 \<and> (y mod 100 \<noteq> 0 \<or> y mod 400 = 0)"

definition days_in_month :: "nat \<Rightarrow> nat \<Rightarrow> nat" where
  "days_in_month y m = (if m = 2 then (if leap_year y then 29 else 28)
     else if m \<in> {4, 6, 9, 11} then 30 else 31)"

text \<open>What \<open>datetime.fromisoformat\<close> requires of a text of that shape.\<close>

definition calendar_ok :: "string \<Rightarrow> bool" where
  "calendar_ok s \<longleftrightarrow> (let y = number_at 0 4 s; m = number_at 5 2 s; d = number_at 8 2 s in
     1 \<le> y \<and> 1 \<le> m \<and> m \<le> 12 \<and> 1 \<le> d \<and> d \<le> days_in_month y m \<and>
     number_at 11 2 s < 24 \<and> number_at 14 2 s < 60 \<and> number_at 17 2 s < 60)"

definition validate_utc :: "json \<Rightarrow> bool" where
  "validate_utc v \<longleftrightarrow> (case v of JStr s \<Rightarrow> utc_re s \<and> calendar_ok s | _ \<Rightarrow> False)"

definition validate_identity :: "json \<Rightarrow> core_error + string" where
  "validate_identity v = (case v of
     JStr s \<Rightarrow> if identity_re s then Inr s
       else Inl (CoreError ''invalid_input'' ''identity must match the identity pattern'' 3)
   | _ \<Rightarrow> Inl (CoreError ''invalid_input'' ''identity must match the identity pattern'' 3))"

definition pathlike :: "string \<Rightarrow> bool" where
  "pathlike s \<longleftrightarrow> contains s [CHR 0x5C] \<or> startswith s ''/'' \<or> startswith s ''./''
     \<or> startswith s ''../'' \<or> contains s ''/../''
     \<or> (3 \<le> length s \<and> take 2 (drop 1 s) \<in> {'':/'', '':'' @ [CHR 0x5C]})"

definition validate_issue_ref :: "json \<Rightarrow> core_error + json" where
  "validate_issue_ref v = (case v of
     JNull \<Rightarrow> Inr JNull
   | JStr s \<Rightarrow>
       if s = [] \<or> MAX_REF_LENGTH < length s \<or> \<not> issue_ref_re s
         then Inl (CoreError ''invalid_input'' ''issue_ref must be an opaque bounded reference string'' 3)
       else if pathlike s
         then Inl (CoreError ''invalid_input'' ''issue_ref must not look like a filesystem path'' 3)
       else Inr v
   | _ \<Rightarrow> Inl (CoreError ''invalid_input'' ''issue_ref must be an opaque bounded reference string'' 3))"

definition normalize_digest_input :: "json \<Rightarrow> string \<Rightarrow> core_error + string" where
  "normalize_digest_input v field = (case v of
     JStr s \<Rightarrow>
       (let stripped = strip_prefix s in
        if startswith s SHA256_PREFIX \<and> startswith stripped SHA256_PREFIX
          then Inl (CoreError ''invalid_input'' (field @ '': doubled sha256: prefix is not permitted'') 3)
        else if \<not> hex64 stripped
          then Inl (CoreError ''invalid_input'' (field @ '': must be 64 lowercase hex chars'') 3)
        else Inr stripped)
   | _ \<Rightarrow> Inl (CoreError ''invalid_input'' (field @ '': digest input must be a string'') 3))"

text \<open>
  \<open>_validate_json_shape\<close>: the counter of visited nodes is threaded through the traversal, so
  the functions over one value, a list and the items of a dict return it.
\<close>

function (sequential)
  shape :: "nat \<Rightarrow> json \<Rightarrow> nat \<Rightarrow> core_error + nat" and
  shape_list :: "nat \<Rightarrow> json list \<Rightarrow> nat \<Rightarrow> core_error + nat" and
  shape_items :: "nat \<Rightarrow> dict \<Rightarrow> nat \<Rightarrow> core_error + nat" where
  "shape depth v n =
     (if MAX_JSON_NODES < Suc n \<or> MAX_JSON_DEPTH < depth
        then Inl (CoreError ''invalid_input'' ''JSON exceeds complexity limits'' 3)
      else (case v of
        JStr s \<Rightarrow> if MAX_TEXT_LENGTH < length s
          then Inl (CoreError ''invalid_input'' ''JSON string exceeds size limit'' 3)
          else Inr (Suc n)
      | JFlt x \<Rightarrow> if finite_json v then Inr (Suc n)
          else Inl (CoreError ''invalid_input'' ''JSON numbers must be finite'' 3)
      | JList xs \<Rightarrow> shape_list (Suc depth) xs (Suc n)
      | JObj d \<Rightarrow> shape_items (Suc depth) d (Suc n)
      | _ \<Rightarrow> Inr (Suc n)))"
| "shape_list depth [] n = Inr n"
| "shape_list depth (x # xs) n = bindE (shape depth x n) (\<lambda>m. shape_list depth xs m)"
| "shape_items depth [] n = Inr n"
| "shape_items depth ((k, x) # d) n =
     (if MAX_KEY_LENGTH < length k
        then Inl (CoreError ''invalid_input'' ''JSON key exceeds size limit'' 3)
      else bindE (shape depth x n) (\<lambda>m. shape_items depth d m))"
  by pat_completeness auto
termination
  by (relation "measure (case_sum (\<lambda>(_, v, _). 2 * size v)
      (case_sum (\<lambda>(_, xs, _). Suc (2 * size_list size xs))
        (\<lambda>(_, d, _). Suc (2 * size_list (size_prod (\<lambda>_. 0) size) d))))") auto

declare shape.simps [simp del]

section \<open>Record envelopes\<close>

definition canonical_json :: "hostlib \<Rightarrow> json \<Rightarrow> core_error + string" where
  "canonical_json H v = (if finite_json v then Inr (dumps H True v)
     else Inl (CoreError ''invalid_input'' ''value cannot be represented as canonical JSON'' 3))"

definition ENVELOPE_FIELDS :: "string list" where
  "ENVELOPE_FIELDS = [''schema_version'', ''identity'', ''record_digest'', ''payload'',
     ''issue_ref'', ''supersedes'', ''appended_at'', ''record_hash'']"

definition UNSIGNED_FIELDS :: "string list" where
  "UNSIGNED_FIELDS = [''appended_at'', ''identity'', ''issue_ref'', ''payload'',
     ''record_digest'', ''schema_version'', ''supersedes'']"

definition hash_envelope :: "hostlib \<Rightarrow> dict \<Rightarrow> core_error + string" where
  "hash_envelope H e = bindE (canonical_json H (JObj (map (\<lambda>k. (k, dget e k)) UNSIGNED_FIELDS)))
     (\<lambda>t. Inr (sha256_hex H t))"

definition integrity :: "string \<Rightarrow> core_error" where
  "integrity m = CoreError ''integrity_error'' m 6"

definition verify_envelope :: "hostlib \<Rightarrow> json \<Rightarrow> core_error + unit" where
  "verify_envelope H v = (case v of
     JObj e \<Rightarrow>
       if \<not> keys_are e ENVELOPE_FIELDS then Inl (integrity ''record has an invalid schema'')
       else if dget e ''schema_version'' \<noteq> JInt SCHEMA_VERSION
         then Inl (integrity ''record schema version is invalid'')
       else if \<not> (case dget e ''identity'' of JStr s \<Rightarrow> identity_re s | _ \<Rightarrow> False)
         then Inl (integrity ''record identity is invalid'')
       else if \<not> is_obj (dget e ''payload'')
         then Inl (integrity ''record payload is not an object'')
       else bindE (mapErr (\<lambda>c. integrity (message c)) (shape 0 (dget e ''payload'') 0)) (\<lambda>_.
         bindE (canonical_json H (dget e ''payload'')) (\<lambda>t.
           if dget e ''record_digest'' \<noteq> JStr (sha256_hex H t)
             then Inl (integrity ''record digest does not match payload'')
           else bindE (mapErr (\<lambda>c. integrity (message c)) (validate_issue_ref (dget e ''issue_ref''))) (\<lambda>_.
             if \<not> (case dget e ''supersedes'' of JNull \<Rightarrow> True | JStr s \<Rightarrow> hex64 s | _ \<Rightarrow> False)
               then Inl (integrity ''record supersedes digest is invalid'')
             else if \<not> validate_utc (dget e ''appended_at'')
               then Inl (integrity ''record timestamp is not canonical UTC'')
             else bindE (hash_envelope H e) (\<lambda>h.
               if dget e ''record_hash'' \<noteq> JStr h then Inl (integrity ''record hash is invalid'')
               else Inr ()))))
   | _ \<Rightarrow> Inl (integrity ''record has an invalid schema''))"

section \<open>Reading a record file\<close>

record blob =
  blob_size :: nat
  blob_doc :: "json option"

text \<open>What one attempt to read the file sees.\<close>

datatype observation = Missing | Read_error | Bytes blob

definition check_bytes :: "hostlib \<Rightarrow> blob \<Rightarrow> core_error + json" where
  "check_bytes H b =
     (if MAX_JSON_BYTES < blob_size b then Inl (integrity ''record exceeds size limit'')
      else (case blob_doc b of
        None \<Rightarrow> Inl (integrity ''record is not valid bounded JSON'')
      | Some v \<Rightarrow> bindE (shape 0 v 0) (\<lambda>_. bindE (verify_envelope H v) (\<lambda>_. Inr v))))"

text \<open>
  \<open>_read_verified\<close>: attempt \<open>i\<close> sees \<open>obs i\<close>; a missing file ends the loop, any other
  failure is remembered and raised after the last attempt.
\<close>

fun read_loop :: "hostlib \<Rightarrow> (nat \<Rightarrow> observation) \<Rightarrow> nat \<Rightarrow> nat \<Rightarrow> core_error \<Rightarrow> core_error + json" where
  "read_loop H obs i 0 last_error = Inl last_error"
| "read_loop H obs i (Suc k) last_error = (case obs i of
     Missing \<Rightarrow> Inl (CoreError ''not_found'' ''record file not found'' 4)
   | Read_error \<Rightarrow> read_loop H obs (Suc i) k (CoreError ''io_error'' ''could not read record'' 7)
   | Bytes b \<Rightarrow> (case check_bytes H b of
       Inr v \<Rightarrow> Inr v
     | Inl e \<Rightarrow> read_loop H obs (Suc i) k e))"

definition read_verified :: "hostlib \<Rightarrow> (nat \<Rightarrow> observation) \<Rightarrow> core_error + json" where
  "read_verified H obs =
     read_loop H obs 0 READ_ATTEMPTS (CoreError ''io_error'' ''could not read record'' 7)"

definition render_loser :: "json \<Rightarrow> string \<Rightarrow> string \<Rightarrow> dict" where
  "render_loser existing record_digest ident = (case existing of JObj e \<Rightarrow>
     (let old = dget e ''record_digest'';
          outcome = (if old = JStr record_digest then OUTCOME_REDELIVERY else OUTCOME_CONFLICT);
          rendering = [(''outcome'', JStr outcome), (''appended'', JBool False),
            (''identity'', JStr ident), (''record_digest'', JStr record_digest),
            (''existing_record_digest'', old)]
      in if outcome = OUTCOME_REDELIVERY
         then rendering @ [(''existing_appended_at'', dget e ''appended_at'')]
         else rendering @ [(''conflict'', JObj [(''field'', JStr CONFLICT_FIELD),
           (''values'', JList [old, JStr record_digest])])])
   | _ \<Rightarrow> [])"

section \<open>The store\<close>

record core_store =
  records :: "(string \<times> blob) list"
  has_backup :: bool

text \<open>
  Failures the operating system may answer with during one append. After a failed write
  the module removes its own partial file; \<open>left_over\<close> is what stays when that fails too.
\<close>

record os_faults =
  link_found :: bool
  open_fails :: bool
  write_fails :: bool
  left_over :: "blob option"
  sync_fails :: bool

definition no_faults :: os_faults where
  "no_faults = \<lparr>link_found = False, open_fails = False, write_fails = False, left_over = None, sync_fails = False\<rparr>"

definition backup_status :: "core_store \<Rightarrow> string" where
  "backup_status st = (if has_backup st then ''configured'' else ''declared-unfulfilled'')"

text \<open>The files in the order of their names, each read and verified.\<close>

definition iter_records :: "hostlib \<Rightarrow> core_store \<Rightarrow> core_error + json list" where
  "iter_records H st = mapE (\<lambda>f. read_verified H (\<lambda>_. Bytes (snd f)))
     (sort_key (\<lambda>f. fst f @ ''.json'') (records st))"

definition scan_by_digest :: "hostlib \<Rightarrow> string \<Rightarrow> core_store \<Rightarrow> core_error + json option" where
  "scan_by_digest H digest st = bindE (iter_records H st) (\<lambda>rs.
     Inr (find (\<lambda>r. case r of JObj e \<Rightarrow> dget e ''record_digest'' = JStr digest | _ \<Rightarrow> False) rs))"

text \<open>The answer of \<open>open(O_CREAT | O_EXCL)\<close>, with what later reads of an existing file see.\<close>

datatype open_answer = Created | Exists "nat \<Rightarrow> observation" | Open_error

fun cas_loop :: "hostlib \<Rightarrow> (nat \<Rightarrow> open_answer) \<Rightarrow> string \<Rightarrow> string \<Rightarrow> nat \<Rightarrow> nat
    \<Rightarrow> core_error + dict option" where
  "cas_loop H os digest ident i 0 = Inl (CoreError ''io_error'' ''concurrent appends did not resolve'' 7)"
| "cas_loop H os digest ident i (Suc k) = (case os i of
     Created \<Rightarrow> Inr None
   | Open_error \<Rightarrow> Inl (CoreError ''io_error'' ''could not create record'' 7)
   | Exists obs \<Rightarrow> (case read_verified H obs of
       Inr e \<Rightarrow> Inr (Some (render_loser e digest ident))
     | Inl err \<Rightarrow> if category err = ''not_found'' \<and> 0 < k
         then cas_loop H os digest ident (Suc i) k else Inl err))"

text \<open>
  The part of \<open>append\<close> before the first system call on the record file: the checked
  arguments, the envelope, its self-certifying hash and the size limit of its text.
\<close>

definition checked_supersedes :: "hostlib \<Rightarrow> json \<Rightarrow> core_store \<Rightarrow> core_error + json" where
  "checked_supersedes H supersedes st =
     (if supersedes = JNull then Inr JNull
      else bindE (normalize_digest_input supersedes ''supersedes'') (\<lambda>d.
        bindE (scan_by_digest H d st) (\<lambda>r.
          if r = None
            then Inl (CoreError ''invalid_input'' ''supersedes digest does not match any stored record'' 3)
          else Inr (JStr d))))"

definition unsigned_envelope :: "string \<Rightarrow> string \<Rightarrow> json \<Rightarrow> json \<Rightarrow> json \<Rightarrow> string \<Rightarrow> dict" where
  "unsigned_envelope checked digest payload ref sups now =
     [(''schema_version'', JInt SCHEMA_VERSION), (''identity'', JStr checked),
      (''record_digest'', JStr digest), (''payload'', json_norm payload),
      (''issue_ref'', ref), (''supersedes'', sups), (''appended_at'', JStr now)]"

definition seal :: "hostlib \<Rightarrow> dict \<Rightarrow> core_error + dict" where
  "seal H unsigned = bindE (canonical_json H (JObj unsigned)) (\<lambda>u.
     let envelope = unsigned @ [(''record_hash'', JStr (sha256_hex H u))] in
     bindE (verify_envelope H (JObj envelope)) (\<lambda>_.
     bindE (canonical_json H (JObj envelope)) (\<lambda>blob.
       if MAX_JSON_BYTES < Suc (length blob)
         then Inl (CoreError ''invalid_input'' ''record exceeds size limit'' 3)
       else Inr envelope)))"

definition prepare :: "hostlib \<Rightarrow> string \<Rightarrow> json \<Rightarrow> json \<Rightarrow> json \<Rightarrow> json \<Rightarrow> core_store
    \<Rightarrow> core_error + (string \<times> string \<times> dict)" where
  "prepare H now payload ident issue_ref supersedes st =
     (if \<not> is_obj payload then Inl (CoreError ''invalid_input'' ''payload must be a JSON object'' 3)
      else bindE (shape 0 payload 0) (\<lambda>_.
        bindE (canonical_json H payload) (\<lambda>text.
        if MAX_JSON_BYTES < length text
          then Inl (CoreError ''invalid_input'' ''payload exceeds size limit'' 3)
        else let digest = sha256_hex H text in
        bindE (validate_identity (if ident \<noteq> JNull then ident else JStr digest)) (\<lambda>checked.
        bindE (validate_issue_ref issue_ref) (\<lambda>ref.
        bindE (checked_supersedes H supersedes st) (\<lambda>sups.
        bindE (seal H (unsigned_envelope checked digest payload ref sups now)) (\<lambda>envelope.
          Inr (checked, digest, envelope))))))))"

definition envelope_blob :: "hostlib \<Rightarrow> dict \<Rightarrow> blob" where
  "envelope_blob H e = \<lparr>blob_size = Suc (length (dumps H True (JObj e))),
     blob_doc = Some (json_norm (JObj e))\<rparr>"

definition answers :: "os_faults \<Rightarrow> string \<Rightarrow> core_store \<Rightarrow> nat \<Rightarrow> open_answer" where
  "answers F ident st = (\<lambda>_. case map_of (records st) ident of
     Some b \<Rightarrow> Exists (\<lambda>_. Bytes b)
   | None \<Rightarrow> if open_fails F then Open_error else Created)"

definition core_append :: "hostlib \<Rightarrow> os_faults \<Rightarrow> string \<Rightarrow> json \<Rightarrow> json \<Rightarrow> json \<Rightarrow> json \<Rightarrow> core_store
    \<Rightarrow> (core_error + dict) \<times> core_store" where
  "core_append H F now payload ident issue_ref supersedes st =
     (case prepare H now payload ident issue_ref supersedes st of
        Inl e \<Rightarrow> (Inl e, st)
      | Inr (checked, digest, envelope) \<Rightarrow>
          if link_found F
            then (Inl (CoreError ''unsafe_path'' ''links and reparse points are not allowed'' 3), st)
          else (case cas_loop H (answers F checked st) digest checked 0 CAS_ATTEMPTS of
            Inl e \<Rightarrow> (Inl e, st)
          | Inr (Some rendering) \<Rightarrow> (Inr rendering, st)
          | Inr None \<Rightarrow>
              if write_fails F then (Inl (CoreError ''io_error'' ''could not persist record'' 7),
                case left_over F of None \<Rightarrow> st
                | Some b \<Rightarrow> st\<lparr>records := AList.update checked b (records st)\<rparr>)
              else let st' = st\<lparr>records := AList.update checked (envelope_blob H envelope) (records st)\<rparr> in
                if sync_fails F
                  then (Inl (CoreError ''io_error'' ''could not synchronize core store directory'' 7), st')
                else (Inr [(''outcome'', JStr OUTCOME_APPENDED), (''appended'', JBool True),
                  (''identity'', JStr checked), (''record_digest'', JStr digest)], st')))"

definition store_get :: "hostlib \<Rightarrow> json \<Rightarrow> core_store \<Rightarrow> core_error + json option" where
  "store_get H ident st = bindE (validate_identity ident) (\<lambda>checked.
     case map_of (records st) checked of
       None \<Rightarrow> Inr None
     | Some b \<Rightarrow> (case read_verified H (\<lambda>_. Bytes b) of
         Inr e \<Rightarrow> Inr (Some e)
       | Inl err \<Rightarrow> if category err = ''not_found'' then Inr None else Inl err))"

definition get_by_digest :: "hostlib \<Rightarrow> json \<Rightarrow> core_store \<Rightarrow> core_error + json option" where
  "get_by_digest H digest st =
     bindE (normalize_digest_input digest ''digest'') (\<lambda>d. scan_by_digest H d st)"

definition store_verify :: "hostlib \<Rightarrow> core_store \<Rightarrow> core_error + nat" where
  "store_verify H st = bindE (mapE (\<lambda>f. read_verified H (\<lambda>_. Bytes (snd f)))
     (sort_key (\<lambda>f. fst f @ ''.json'') (records st))) (\<lambda>rs. Inr (length rs))"

section \<open>Lemmas: bounded input\<close>

fun texts_ok :: "json \<Rightarrow> bool" where
  "texts_ok (JStr s) = (length s \<le> MAX_TEXT_LENGTH)"
| "texts_ok (JFlt x) = finite_json (JFlt x)"
| "texts_ok (JList xs) = list_all texts_ok xs"
| "texts_ok (JObj d) = list_all (\<lambda>kv. length (fst kv) \<le> MAX_KEY_LENGTH \<and> texts_ok (snd kv)) d"
| "texts_ok v = True"

text \<open>The declarative reading of the bounded-input check.\<close>

definition bounded_json :: "json \<Rightarrow> bool" where
  "bounded_json v \<longleftrightarrow> nodes v \<le> MAX_JSON_NODES \<and> height v \<le> MAX_JSON_DEPTH \<and> texts_ok v"

lemma plus_Max_le:
  assumes "finite S" "S \<noteq> {}"
  shows "c + Max S \<le> (m :: nat) \<longleftrightarrow> (\<forall>x\<in>S. c + x \<le> m)"
  using Max_in [OF assms] Max_ge [OF assms(1)] by (meson add_le_cancel_left order_trans)

lemma height_list: "d + height (JList xs) \<le> m \<longleftrightarrow> d \<le> m \<and> (\<forall>x\<in>set xs. Suc d + height x \<le> m)"
proof (cases xs)
  case (Cons y ys)
  have "d + height (JList xs) = Suc d + Max (height ` set xs)" by (simp add: Cons)
  then show ?thesis using plus_Max_le [of "height ` set xs" "Suc d" m] by (auto simp: Cons)
qed simp

lemma height_obj: "d + height (JObj e) \<le> m \<longleftrightarrow> d \<le> m \<and> (\<forall>kv\<in>set e. Suc d + height (snd kv) \<le> m)"
proof (cases e)
  case (Cons y ys)
  have "d + height (JObj e) = Suc d + Max ((\<lambda>kv. height (snd kv)) ` set e)" by (simp add: Cons)
  then show ?thesis
    using plus_Max_le [of "(\<lambda>kv. height (snd kv)) ` set e" "Suc d" m] by (auto simp: Cons)
qed simp

lemma nodes_pos: "0 < nodes v"
  by (cases v) simp_all

lemma shape_iff:
  "shape depth v n = Inr m \<longleftrightarrow> m = n + nodes v \<and> n + nodes v \<le> MAX_JSON_NODES \<and>
     depth + height v \<le> MAX_JSON_DEPTH \<and> texts_ok v"
  "shape_list depth xs n = Inr m \<longleftrightarrow> m = n + sum_list (map nodes xs) \<and>
     (xs = [] \<or> n + sum_list (map nodes xs) \<le> MAX_JSON_NODES) \<and>
     (\<forall>x\<in>set xs. depth + height x \<le> MAX_JSON_DEPTH \<and> texts_ok x)"
  "shape_items depth d n = Inr m \<longleftrightarrow> m = n + sum_list (map (\<lambda>kv. nodes (snd kv)) d) \<and>
     (d = [] \<or> n + sum_list (map (\<lambda>kv. nodes (snd kv)) d) \<le> MAX_JSON_NODES) \<and>
     (\<forall>kv\<in>set d. depth + height (snd kv) \<le> MAX_JSON_DEPTH \<and> texts_ok (snd kv) \<and>
       length (fst kv) \<le> MAX_KEY_LENGTH)"
proof (induction depth v n and depth xs n and depth d n arbitrary: m and m and m
    rule: shape_shape_list_shape_items.induct)
  case (1 depth v n)
  show ?case
  proof (cases "MAX_JSON_NODES < Suc n \<or> MAX_JSON_DEPTH < depth")
    case True
    with nodes_pos [of v] show ?thesis by (subst shape.simps) auto
  next
    case False
    show ?thesis
    proof (cases v)
      case (JList xs)
      with False "1.IH"(1) [OF False JList] show ?thesis
        by (subst shape.simps) (auto simp: height_list list_all_iff simp del: height.simps)
    next
      case (JObj e)
      with False "1.IH"(2) [OF False JObj] show ?thesis
        by (subst shape.simps) (auto simp: height_obj list_all_iff simp del: height.simps)
    qed (use False in \<open>subst shape.simps; auto\<close>)+
  qed
next
  case (3 depth x xs n)
  show ?case
  proof (cases "shape depth x n")
    case (Inl e)
    with "3.IH"(1) [of "n + nodes x"] show ?thesis by auto
  next
    case (Inr k)
    with "3.IH"(1) [of k] "3.IH"(2) [OF Inr, of m] nodes_pos [of x] show ?thesis by auto
  qed
next
  case (5 depth k x d n)
  show ?case
  proof (cases "MAX_KEY_LENGTH < length k")
    case False
    note key = this
    show ?thesis
    proof (cases "shape depth x n")
      case (Inl e)
      with "5.IH"(1) [OF key, of "n + nodes x"] key show ?thesis by auto
    next
      case (Inr j)
      with "5.IH"(1) [OF key, of j] "5.IH"(2) [OF key Inr, of m] key nodes_pos [of x]
      show ?thesis by auto
    qed
  qed auto
qed auto

lemma shape_bounded: "shape 0 v 0 = Inr m \<longleftrightarrow> m = nodes v \<and> bounded_json v"
  by (auto simp: shape_iff bounded_json_def)

text \<open>With texts in bounds the only possible refusal is the one for complexity.\<close>

lemma shape_error:
  "shape depth v n = Inl e \<Longrightarrow> texts_ok v \<Longrightarrow>
     e = CoreError ''invalid_input'' ''JSON exceeds complexity limits'' 3"
  "shape_list depth xs n = Inl e \<Longrightarrow> list_all texts_ok xs \<Longrightarrow>
     e = CoreError ''invalid_input'' ''JSON exceeds complexity limits'' 3"
  "shape_items depth d n = Inl e \<Longrightarrow>
     list_all (\<lambda>kv. length (fst kv) \<le> MAX_KEY_LENGTH \<and> texts_ok (snd kv)) d \<Longrightarrow>
     e = CoreError ''invalid_input'' ''JSON exceeds complexity limits'' 3"
proof (induction depth v n and depth xs n and depth d n arbitrary: e and e and e
    rule: shape_shape_list_shape_items.induct)
  case (1 depth v n)
  from "1.prems" "1.IH" show ?case
    by (subst (asm) shape.simps) (auto split: if_splits json.splits simp del: finite_json.simps)
qed (auto simp: result_simps split: if_splits)

lemma shape_category:
  "shape depth v n = Inl e \<Longrightarrow> category e = ''invalid_input''"
  "shape_list depth xs n = Inl e \<Longrightarrow> category e = ''invalid_input''"
  "shape_items depth d n = Inl e \<Longrightarrow> category e = ''invalid_input''"
proof (induction depth v n and depth xs n and depth d n arbitrary: e and e and e
    rule: shape_shape_list_shape_items.induct)
  case (1 depth v n)
  from "1.prems" "1.IH" show ?case
    by (subst (asm) shape.simps) (auto split: if_splits json.splits simp del: finite_json.simps)
qed (auto simp: result_simps split: if_splits)

lemma texts_ok_finite: "texts_ok v \<Longrightarrow> finite_json v"
  by (induction v) (auto simp: list_all_iff Basic_BNFs.prod_set_defs split: pyfloat.splits)

lemma texts_ok_norm [simp]: "texts_ok (json_norm v) = texts_ok v"
  by (induction v) (auto simp: list_all_iff map_vals_def Basic_BNFs.prod_set_defs)

lemma height_norm [simp]: "height (json_norm v) = height v"
proof -
  have "height (json_norm v) \<le> m \<longleftrightarrow> height v \<le> m" for m
  proof (induction v arbitrary: m)
    case (JList xs)
    then show ?case
      using height_list [of 0 "map json_norm xs" m] height_list [of 0 xs m]
      by (cases m) (auto simp del: height.simps)
  next
    case (JObj d)
    then have "(Suc 0 + height (json_norm (snd kv)) \<le> m) = (Suc 0 + height (snd kv) \<le> m)"
      if "kv \<in> set d" for kv
      using that by (cases m) (auto simp: Basic_BNFs.prod_set_defs)
    then have "(\<forall>kv\<in>set (sort_key fst (map_vals json_norm d)). Suc 0 + height (snd kv) \<le> m)
        = (\<forall>kv\<in>set d. Suc 0 + height (snd kv) \<le> m)"
      by (auto simp: map_vals_def)
    then show ?case
      using height_obj [of 0 "sort_key fst (map_vals json_norm d)" m] height_obj [of 0 d m]
      by (simp del: height.simps)
  qed simp_all
  then show ?thesis by (metis order_antisym order_refl)
qed

lemma bounded_norm [simp]: "bounded_json (json_norm v) = bounded_json v"
  by (simp add: bounded_json_def)

lemma canonical_json_bounded: "bounded_json v \<Longrightarrow> canonical_json H v = Inr (dumps H True v)"
  by (simp add: canonical_json_def bounded_json_def texts_ok_finite)

declare height.simps(1,2) [simp del]

end
