(* ===== verification/Machines.thy ===== *)
theory Machines
  imports Prelude
begin

text \<open>
  The interfaces that several components share. A component is a state with operations on
  it; a history is a list of operations. An invariant that every operation keeps holds after
  every history; in a write-once component what a key answers never changes again; a gate
  lets a token through at most once.
\<close>

definition run :: "('q \<Rightarrow> 's \<Rightarrow> 's) \<Rightarrow> 'q list \<Rightarrow> 's \<Rightarrow> 's" where
  "run op qs s = fold op qs s"

lemma run_simps [simp]: "run op [] s = s" "run op (q # qs) s = run op qs (op q s)"
  by (simp_all add: run_def)

lemma run_append: "run op (qs @ rs) s = run op rs (run op qs s)"
  by (simp add: run_def)

locale invariant_machine =
  fixes op :: "'q \<Rightarrow> 's \<Rightarrow> 's" and inv :: "'s \<Rightarrow> bool" and allowed :: "'q \<Rightarrow> bool"
  assumes preserved: "inv s \<Longrightarrow> allowed q \<Longrightarrow> inv (op q s)"
begin

lemma run_inv: "inv s \<Longrightarrow> list_all allowed qs \<Longrightarrow> inv (run op qs s)"
  by (induction qs arbitrary: s) (auto intro: preserved)

end

text \<open>Values that stay in every state the invariant holds in.\<close>

locale durable_machine = invariant_machine op inv allowed
  for op :: "'q \<Rightarrow> 's \<Rightarrow> 's" and inv :: "'s \<Rightarrow> bool" and allowed :: "'q \<Rightarrow> bool" +
  fixes value_at :: "'s \<Rightarrow> 'k \<Rightarrow> 'v option"
  assumes stays: "inv s \<Longrightarrow> allowed q \<Longrightarrow> value_at s k = Some v \<Longrightarrow> value_at (op q s) k = Some v"
begin

lemma run_stays:
  "inv s \<Longrightarrow> list_all allowed qs \<Longrightarrow> value_at s k = Some v \<Longrightarrow> value_at (run op qs s) k = Some v"
  by (induction qs arbitrary: s) (auto intro: preserved stays)

end

locale write_once =
  fixes op :: "'q \<Rightarrow> 's \<Rightarrow> 's" and lookup :: "'s \<Rightarrow> 'k \<Rightarrow> 'v option"
  assumes kept: "lookup s k = Some v \<Longrightarrow> lookup (op q s) k = Some v"
begin

lemma run_kept: "lookup s k = Some v \<Longrightarrow> lookup (run op qs s) k = Some v"
  by (induction qs arbitrary: s) (auto intro: kept)

lemma run_same_value:
  "lookup (run op qs s) k = Some v \<Longrightarrow> lookup (run op (qs @ rs) s) k = Some w \<Longrightarrow> w = v"
  by (simp add: run_append run_kept)

end

text \<open>
  A gate answers whether it admits a token. What it promises: an admitted token is recorded,
  a recorded token is not admitted, and a recorded token stays recorded.
\<close>

locale one_shot_gate = write_once op lookup
  for op :: "'q \<Rightarrow> 's \<Rightarrow> 's" and lookup :: "'s \<Rightarrow> 'k \<Rightarrow> 'v option" +
  fixes admits :: "'q \<Rightarrow> 's \<Rightarrow> bool" and token :: "'q \<Rightarrow> 'k"
  assumes recorded: "admits q s \<Longrightarrow> lookup (op q s) (token q) \<noteq> None"
    and refused: "lookup s (token q) \<noteq> None \<Longrightarrow> \<not> admits q s"
begin

primrec admissions :: "'k \<Rightarrow> 'q list \<Rightarrow> 's \<Rightarrow> nat" where
  "admissions k [] s = 0"
| "admissions k (q # qs) s = (if token q = k \<and> admits q s then 1 else 0) + admissions k qs (op q s)"

lemma admissions_recorded: "lookup s k = Some v \<Longrightarrow> admissions k qs s = 0"
proof (induction qs arbitrary: s)
  case (Cons q qs)
  then show ?case using refused [of s q] kept [of s k v q] by auto
qed simp

text \<open>The replay of an admitted token is refused, however many calls lie between.\<close>

lemma replay_refused:
  assumes "admits q s" "token r = token q"
  shows "\<not> admits r (run op (q # qs) s)"
proof -
  obtain v where "lookup (op q s) (token q) = Some v" using recorded [OF assms(1)] by auto
  then show ?thesis using run_kept [of "op q s" "token q" v qs] refused [of "run op (q # qs) s" r] assms(2) by simp
qed

lemma at_most_once: "admissions k qs s \<le> 1"
proof (induction qs arbitrary: s)
  case (Cons q qs)
  show ?case
  proof (cases "token q = k \<and> admits q s")
    case True
    then obtain v where "lookup (op q s) k = Some v" using recorded [of q s] by auto
    then show ?thesis using True admissions_recorded by simp
  qed (use Cons.IH [of "op q s"] in auto)
qed simp

end

end
