(* ===== verification/Core_Store_Props.thy ===== *)
theory Core_Store_Props
  imports Core_Store Machines
begin

text \<open>
  What the Core store of \<open>state/core_store.py\<close> guarantees: appends never touch a stored
  record, the outcome of an append is determined by the stored record of its identity, and
  what was appended is read back verified, for every payload that leaves room for the
  envelope around it.
\<close>

section \<open>Reading back\<close>

lemma read_loop_const:
  "read_loop H (\<lambda>_. Bytes b) i (Suc k) e = check_bytes H b"
proof (induction k arbitrary: i e)
  case 0
  show ?case by (simp split: sum.splits)
next
  case (Suc k)
  show ?case
  proof (cases "check_bytes H b")
    case (Inl e')
    have "read_loop H (\<lambda>_. Bytes b) i (Suc (Suc k)) e = read_loop H (\<lambda>_. Bytes b) (Suc i) (Suc k) e'"
      by (subst read_loop.simps) (simp add: Inl del: read_loop.simps)
    then show ?thesis using Suc.IH by simp
  qed simp
qed

lemma read_verified_const [simp]: "read_verified H (\<lambda>_. Bytes b) = check_bytes H b"
  unfolding read_verified_def using read_loop_const [of H b 0 49] by (simp add: READ_ATTEMPTS_def)

lemma hash_envelope_norm:
  "distinct (map fst e) \<Longrightarrow>
     hash_envelope H (sort_key fst (map_vals json_norm e)) = hash_envelope H e"
  by (simp add: hash_envelope_def canonical_json_def dumps_map_norm list_all_iff)

lemma case_norm_str:
  "(case json_norm v of JStr s \<Rightarrow> P s | _ \<Rightarrow> False) = (case v of JStr s \<Rightarrow> P s | _ \<Rightarrow> False)"
  by (cases v) simp_all

lemma case_norm_opt:
  "(case json_norm v of JNull \<Rightarrow> True | JStr s \<Rightarrow> P s | _ \<Rightarrow> False) =
   (case v of JNull \<Rightarrow> True | JStr s \<Rightarrow> P s | _ \<Rightarrow> False)"
  by (cases v) simp_all

lemma validate_utc_norm: "validate_utc (json_norm v) = validate_utc v"
  by (simp add: validate_utc_def case_norm_str)

lemma validate_issue_ref_norm: "mapErr g (validate_issue_ref (json_norm v)) = Inr r \<Longrightarrow> r = json_norm v"
  by (cases v) (auto simp: validate_issue_ref_def result_simps split: if_splits)

lemma issue_ref_norm: "validate_issue_ref (json_norm v) = validate_issue_ref v"
  by (cases v) (simp_all add: validate_issue_ref_def)

lemma shape_norm_ok: "mapErr g (shape 0 (json_norm v) 0) = Inr m \<longleftrightarrow> mapErr g (shape 0 v 0) = Inr m"
  by (simp add: result_simps shape_bounded)

text \<open>Reading the text of an envelope back gives an envelope that verifies as the written one did.\<close>

lemma verify_envelope_norm:
  assumes d: "distinct (map fst e)" and v: "verify_envelope H (JObj e) = Inr ()"
  shows "verify_envelope H (json_norm (JObj e)) = Inr ()"
  using v
  by (auto simp: verify_envelope_def d hash_envelope_norm [OF d] case_norm_str case_norm_opt
      validate_utc_norm issue_ref_norm canonical_json_def shape_norm_ok result_simps shape_bounded
      split: if_splits)

section \<open>What a prepared append looks like\<close>

lemma validate_identity_Inr: "validate_identity v = Inr i \<longleftrightarrow> v = JStr i \<and> identity_re i"
  by (auto simp: validate_identity_def split: json.splits)

lemma prepare_facts:
  assumes "prepare H now payload ident issue_ref supersedes st = Inr (i, dg, e)"
  shows "is_obj payload" "bounded_json payload" "dg = sha256 H (dumps H True payload)" "identity_re i"
    "if ident = JNull then i = dg else ident = JStr i"
    "\<exists>ref sups. validate_issue_ref issue_ref = Inr ref \<and> checked_supersedes H supersedes st = Inr sups
       \<and> seal H (unsigned_envelope i dg payload ref sups now) = Inr e"
  using assms
  by (auto simp: prepare_def result_simps shape_bounded validate_identity_Inr sha256_hex_def
      canonical_json_bounded Let_def split: if_splits)

lemma seal_facts:
  assumes "seal H u = Inr e"
  shows "\<exists>h. e = u @ [(''record_hash'', JStr (sha256 H h))]" "verify_envelope H (JObj e) = Inr ()"
    "Suc (length (dumps H True (JObj e))) \<le> MAX_JSON_BYTES"
  using assms
  by (auto simp: seal_def result_simps Let_def sha256_hex_def canonical_json_def
      split: if_splits)

lemma prepare_envelope:
  assumes p: "prepare H now payload ident issue_ref supersedes st = Inr (i, dg, e)"
  shows "map fst e = ENVELOPE_FIELDS" "dget e ''identity'' = JStr i" "dget e ''record_digest'' = JStr dg"
    "dget e ''payload'' = json_norm payload" "dget e ''appended_at'' = JStr now"
    "verify_envelope H (JObj e) = Inr ()" "Suc (length (dumps H True (JObj e))) \<le> MAX_JSON_BYTES"
proof -
  obtain ref sups h where s: "seal H (unsigned_envelope i dg payload ref sups now) = Inr e"
    and e: "e = unsigned_envelope i dg payload ref sups now @ [(''record_hash'', JStr h)]"
    using prepare_facts(6) [OF p] seal_facts(1) by blast
  show "map fst e = ENVELOPE_FIELDS" "dget e ''identity'' = JStr i" "dget e ''record_digest'' = JStr dg"
    "dget e ''payload'' = json_norm payload" "dget e ''appended_at'' = JStr now"
    by (simp_all add: e unsigned_envelope_def ENVELOPE_FIELDS_def dget_def)
  show "verify_envelope H (JObj e) = Inr ()" "Suc (length (dumps H True (JObj e))) \<le> MAX_JSON_BYTES"
    using seal_facts(2,3) [OF s] by simp_all
qed

lemma distinct_envelope: "map fst e = ENVELOPE_FIELDS \<Longrightarrow> distinct (map fst e)"
  by (simp add: ENVELOPE_FIELDS_def)

text \<open>Room for the envelope: eight more nodes, one more level of nesting.\<close>

definition fits_envelope :: "json \<Rightarrow> bool" where
  "fits_envelope p \<longleftrightarrow> nodes p + 8 \<le> MAX_JSON_NODES \<and> Suc (height p) \<le> MAX_JSON_DEPTH"

lemma checked_supersedes_cases:
  "checked_supersedes H s st = Inr sups \<Longrightarrow> sups = JNull \<or> (\<exists>d. sups = JStr d \<and> hex64 d)"
  by (auto simp: checked_supersedes_def normalize_digest_input_def result_simps Let_def
      split: if_splits json.splits)

lemma validate_issue_ref_cases:
  "validate_issue_ref v = Inr r \<Longrightarrow> r = JNull \<or> (\<exists>s. r = JStr s \<and> length s \<le> MAX_REF_LENGTH)"
  by (auto simp: validate_issue_ref_def split: if_splits json.splits)

lemma identity_length: "identity_re s \<Longrightarrow> length s \<le> 128"
  by (auto simp: identity_re_def split: list.splits)

lemma bounded_envelope:
  assumes p: "prepare H now payload ident issue_ref supersedes st = Inr (i, dg, e)" and H: "sha_hex H"
  shows "bounded_json (JObj e) \<longleftrightarrow> fits_envelope payload" "texts_ok (JObj e)"
proof -
  obtain ref sups h where r: "validate_issue_ref issue_ref = Inr ref"
    and s: "checked_supersedes H supersedes st = Inr sups"
    and e: "e = unsigned_envelope i dg payload ref sups now @ [(''record_hash'', JStr (sha256 H h))]"
    using prepare_facts(6) [OF p] seal_facts(1) by blast
  have now: "length now = 27"
    using prepare_envelope(5,6) [OF p]
    by (auto simp: verify_envelope_def result_simps validate_utc_def utc_re_def
        split: if_splits dest!: list_all2_lengthD)
  have "length dg = 64" "length (sha256 H h) = 64"
    using H prepare_facts(3) [OF p] by (auto simp: sha_hex_def hex64_def)
  then show texts: "texts_ok (JObj e)"
    using prepare_facts(2) [OF p] identity_length [OF prepare_facts(4) [OF p]] now
      validate_issue_ref_cases [OF r] checked_supersedes_cases [OF s]
    by (auto simp: e unsigned_envelope_def bounded_json_def core_limits hex64_def)
  have n: "nodes (JObj e) = nodes payload + 8"
    using validate_issue_ref_cases [OF r] checked_supersedes_cases [OF s]
    by (auto simp: e unsigned_envelope_def)
  have "height (JObj e) \<le> m \<longleftrightarrow> Suc (height payload) \<le> m" for m
    using height_obj [of 0 e m] validate_issue_ref_cases [OF r] checked_supersedes_cases [OF s]
    by (auto simp: e unsigned_envelope_def)
  with n texts show "bounded_json (JObj e) \<longleftrightarrow> fits_envelope payload" by (simp add: bounded_json_def fits_envelope_def del: height.simps nodes.simps texts_ok.simps)
qed

text \<open>A sealed envelope is read back exactly when its payload leaves that room.\<close>

lemma check_envelope_blob:
  assumes p: "prepare H now payload ident issue_ref supersedes st = Inr (i, dg, e)" and H: "sha_hex H"
  shows "check_bytes H (envelope_blob H e) =
    (if fits_envelope payload then Inr (json_norm (JObj e))
     else Inl (CoreError ''invalid_input'' ''JSON exceeds complexity limits'' 3))"
proof -
  note E = prepare_envelope [OF p]
  have v: "verify_envelope H (json_norm (JObj e)) = Inr ()"
    using verify_envelope_norm [OF distinct_envelope [OF E(1)] E(6)] .
  have "check_bytes H (envelope_blob H e) =
      bindE (shape 0 (json_norm (JObj e)) 0) (\<lambda>_. Inr (json_norm (JObj e)))"
    using E(7) v by (simp add: check_bytes_def envelope_blob_def del: json_norm.simps)
  then show ?thesis
    using bounded_envelope [OF p H] shape_bounded [of "json_norm (JObj e)"]
      shape_error(1) [of 0 "json_norm (JObj e)" 0] texts_ok_norm [of "JObj e"]
      bounded_norm [of "JObj e"]
    by (cases "shape 0 (json_norm (JObj e)) 0")
      (auto simp del: json_norm.simps bounded_norm texts_ok_norm texts_ok.simps)
qed

section \<open>The compare-and-set on the identity\<close>

lemma verify_envelope_category: "verify_envelope H v = Inl m \<Longrightarrow> category m \<noteq> ''not_found''"
  by (auto simp: verify_envelope_def integrity_def canonical_json_def hash_envelope_def result_simps
      split: json.splits if_splits)

lemma check_bytes_category: "check_bytes H b = Inl m \<Longrightarrow> category m \<noteq> ''not_found''"
  by (auto simp: check_bytes_def integrity_def result_simps dest: verify_envelope_category shape_category
      split: if_splits option.splits)

lemma check_bytes_obj: "check_bytes H b = Inr v \<Longrightarrow> \<exists>e. v = JObj e \<and> verify_envelope H v = Inr ()"
  by (auto simp: check_bytes_def result_simps verify_envelope_def split: if_splits option.splits json.splits)

lemma cas_loop_answers:
  "cas_loop H (answers F i st) dg i 0 CAS_ATTEMPTS = (case map_of (records st) i of
     None \<Rightarrow> if open_fails F then Inl (CoreError ''io_error'' ''could not create record'' 7) else Inr None
   | Some b \<Rightarrow> (case check_bytes H b of
       Inr e \<Rightarrow> Inr (Some (render_loser e dg i)) | Inl m \<Rightarrow> Inl m))"
  by (auto simp: CAS_ATTEMPTS_def eval_nat_numeral answers_def dest: check_bytes_category
      split: option.splits sum.splits)

text \<open>The three ways an append can end, as one equation.\<close>

lemma core_append_eq:
  "core_append H F now p ident r s st =
    (case prepare H now p ident r s st of
       Inl e \<Rightarrow> (Inl e, st)
     | Inr (i, dg, e) \<Rightarrow>
         if link_found F
           then (Inl (CoreError ''unsafe_path'' ''links and reparse points are not allowed'' 3), st)
         else (case map_of (records st) i of
           Some b \<Rightarrow> (case check_bytes H b of
               Inr old \<Rightarrow> (Inr (render_loser old dg i), st) | Inl m \<Rightarrow> (Inl m, st))
         | None \<Rightarrow>
             if open_fails F then (Inl (CoreError ''io_error'' ''could not create record'' 7), st)
             else if write_fails F then (Inl (CoreError ''io_error'' ''could not persist record'' 7),
               case left_over F of None \<Rightarrow> st
               | Some b \<Rightarrow> st\<lparr>records := AList.update i b (records st)\<rparr>)
             else (if sync_fails F
                 then Inl (CoreError ''io_error'' ''could not synchronize core store directory'' 7)
                 else Inr [(''outcome'', JStr OUTCOME_APPENDED), (''appended'', JBool True),
                   (''identity'', JStr i), (''record_digest'', JStr dg)],
               st\<lparr>records := AList.update i (envelope_blob H e) (records st)\<rparr>)))"
  by (simp add: core_append_def cas_loop_answers Let_def split: sum.splits option.splits)

lemma render_loser_outcome:
  "dget (render_loser (JObj old) dg i) ''outcome'' =
     JStr (if dget old ''record_digest'' = JStr dg then OUTCOME_REDELIVERY else OUTCOME_CONFLICT)"
  "dget (render_loser (JObj old) dg i) ''appended'' = JBool False"
  "dget (render_loser (JObj old) dg i) ''conflict'' =
     (if dget old ''record_digest'' = JStr dg then JNull
      else JObj [(''field'', JStr CONFLICT_FIELD),
        (''values'', JList [dget old ''record_digest'', JStr dg])])"
  by (simp_all add: render_loser_def Let_def dget_def outcome_defs)

lemma appended_outcome: "dget (render_loser old dg i) ''outcome'' \<noteq> JStr OUTCOME_APPENDED"
  by (simp add: render_loser_def Let_def dget_def outcome_defs split: json.splits)

lemma core_append_appendedE:
  assumes a: "core_append H F now p ident r s st = (Inr d, st')"
    and o: "dget d ''outcome'' = JStr OUTCOME_APPENDED"
  obtains i dg e where "prepare H now p ident r s st = Inr (i, dg, e)" "map_of (records st) i = None"
    "st' = st\<lparr>records := AList.update i (envelope_blob H e) (records st)\<rparr>"
    "dget d ''identity'' = JStr i" "dget d ''record_digest'' = JStr dg"
proof -
  obtain i dg e where p: "prepare H now p ident r s st = Inr (i, dg, e)"
    using a by (auto simp: core_append_eq split: sum.splits)
  have n: "map_of (records st) i = None"
    using a o appended_outcome by (auto simp: core_append_eq p split: option.splits sum.splits if_splits)
  from a n show ?thesis
    by (intro that [OF p n]) (auto simp: core_append_eq p dget_def split: if_splits option.splits)
qed

definition sample_now :: string where
  "sample_now = ''2026-09-14T08:30:00.000000Z''"

definition empty_store :: core_store where
  "empty_store = \<lparr>records = [], has_backup = False\<rparr>"

section \<open>Which appends are accepted\<close>

text \<open>The sealing step succeeds for a checked payload that leaves 4096 bytes for the envelope.\<close>

lemma utc_length: "validate_utc (JStr now) \<Longrightarrow> length now = 27"
  by (auto simp: validate_utc_def utc_re_def dest!: list_all2_lengthD)

lemma dump_envelope_length:
  assumes i: "length i \<le> 128" and dg: "length dg = 64" and h: "length h = 64" and now: "length now = 27"
    and ref: "ref = JNull \<or> (\<exists>t. ref = JStr t \<and> length t \<le> MAX_REF_LENGTH)"
    and sups: "sups = JNull \<or> (\<exists>t. sups = JStr t \<and> length t = 64)"
  shows "length (dumps H True (JObj (unsigned_envelope i dg p ref sups now @ [(''record_hash'', JStr h)])))
    \<le> length (dumps H True p) + 4000"
proof -
  have key: "length (quote True k) = length k + 2"
    if "k \<in> {''schema_version'', ''identity'', ''record_digest'', ''payload'', ''issue_ref'',
      ''supersedes'', ''appended_at'', ''record_hash''}" for k
    using that by (auto simp: quote_def esc_char_def Let_def)
  have v1: "length (dumps H True ref) \<le> 770"
    using ref
  proof (elim disjE exE conjE)
    fix t assume "ref = JStr t" "length t \<le> MAX_REF_LENGTH"
    then show ?thesis using length_quote [of True t] by (simp add: core_limits)
  qed simp
  have v2: "length (dumps H True sups) \<le> 386"
    using sups
  proof (elim disjE exE conjE)
    fix t assume "sups = JStr t" "length t = 64"
    then show ?thesis using length_quote [of True t] by simp
  qed simp
  have w: "length (quote True i) \<le> 770" "length (quote True dg) \<le> 386" "length (quote True h) \<le> 386"
    "length (quote True now) \<le> 164"
    using length_quote [of True i] length_quote [of True dg] length_quote [of True h]
      length_quote [of True now] i dg h now by simp_all
  have n: "length (dec_int 1) = 1" by (simp add: dec_int_def dec_nat.simps)
  show ?thesis
    using v1 v2 w by (simp add: dumps.simps(7) unsigned_envelope_def key dumps_norm SCHEMA_VERSION_def n)
qed

lemma verify_envelopeI:
  assumes "keys_are e ENVELOPE_FIELDS" "dget e ''schema_version'' = JInt 1" "dget e ''identity'' = JStr i"
    "identity_re i" "dget e ''payload'' = p" "is_obj p" "bounded_json p"
    "dget e ''record_digest'' = JStr (sha256 H (dumps H True p))"
    "validate_issue_ref (dget e ''issue_ref'') = Inr r"
    "dget e ''supersedes'' = JNull \<or> (\<exists>d. dget e ''supersedes'' = JStr d \<and> hex64 d)"
    "validate_utc (dget e ''appended_at'')" "hash_envelope H e = Inr h" "dget e ''record_hash'' = JStr h"
  shows "verify_envelope H (JObj e) = Inr ()"
proof -
  have "shape 0 p 0 = Inr (nodes p)" using assms(7) by (simp add: shape_bounded)
  moreover have "canonical_json H p = Inr (dumps H True p)" using assms(7) by (rule canonical_json_bounded)
  ultimately show ?thesis
    using assms(1-6,8-) by (auto simp: verify_envelope_def SCHEMA_VERSION_def sha256_hex_def)
qed

lemma seal_ok:
  assumes H: "sha_hex H" and p: "is_obj p" "bounded_json p" "length (dumps H True p) + 4096 \<le> MAX_JSON_BYTES"
    and i: "identity_re i" and dg: "dg = sha256 H (dumps H True p)" and now: "validate_utc (JStr now)"
    and ref: "validate_issue_ref r = Inr ref" and sups: "sups = JNull \<or> (\<exists>d. sups = JStr d \<and> hex64 d)"
  shows "\<exists>e. seal H (unsigned_envelope i dg p ref sups now) = Inr e"
proof -
  let ?u = "unsigned_envelope i dg p ref sups now"
  obtain h where h: "h = sha256 H (dumps H True (JObj ?u))" by blast
  let ?e = "?u @ [(''record_hash'', JStr h)]"
  have fin: "finite_json p" using p texts_ok_finite by (auto simp: bounded_json_def)
  have fr: "finite_json ref" "finite_json sups"
    using validate_issue_ref_cases [OF ref] sups by auto
  have vr: "validate_issue_ref ref = Inr ref"
    using ref by (auto simp: validate_issue_ref_def split: json.splits if_splits)
  have u: "finite_json (JObj ?u)" "finite_json (JObj ?e)" using fin fr by (simp_all add: unsigned_envelope_def)
  have len: "length (dumps H True (JObj ?e)) \<le> length (dumps H True p) + 4000"
    using H dg validate_issue_ref_cases [OF ref] sups
    by (intro dump_envelope_length) (auto simp: h sha_hex_def hex64_def utc_length [OF now] identity_length [OF i])
  have m: "map (\<lambda>k. (k, dget ?e k)) UNSIGNED_FIELDS = sort_key fst ?u"
    by (simp add: UNSIGNED_FIELDS_def unsigned_envelope_def dget_def)
  have hd: "dumps H True (JObj (map (\<lambda>k. (k, dget ?e k)) UNSIGNED_FIELDS)) = dumps H True (JObj ?u)"
    by (simp only: m dumps.simps(7) map_vals_sort sort_sort_fst)
  have fm: "finite_json (JObj (map (\<lambda>k. (k, dget ?e k)) UNSIGNED_FIELDS))"
    using fin fr by (simp add: UNSIGNED_FIELDS_def unsigned_envelope_def dget_def)
  have he: "hash_envelope H ?e = Inr h"
    by (simp only: hash_envelope_def canonical_json_def fm hd if_True bindE_simps sha256_hex_def h [symmetric])
  have g: "dget ?e ''schema_version'' = JInt 1" "dget ?e ''identity'' = JStr i"
    "dget ?e ''record_digest'' = JStr dg" "dget ?e ''payload'' = json_norm p" "dget ?e ''issue_ref'' = ref"
    "dget ?e ''supersedes'' = sups" "dget ?e ''appended_at'' = JStr now" "dget ?e ''record_hash'' = JStr h"
    "keys_are ?e ENVELOPE_FIELDS"
    by (simp_all add: unsigned_envelope_def dget_def SCHEMA_VERSION_def keys_are_def ENVELOPE_FIELDS_def
        dict_keys_def)
  have v: "verify_envelope H (JObj ?e) = Inr ()"
  proof (rule verify_envelopeI [OF g(9,1,2) i g(4) _ _ _ _ _ _ he g(8)])
    show "is_obj (json_norm p)" using p(1) by (auto simp: is_obj_iff)
    show "bounded_json (json_norm p)" using p(2) by simp
    show "dget ?e ''record_digest'' = JStr (sha256 H (dumps H True (json_norm p)))"
      unfolding g(3) by (simp only: dg dumps_norm)
    show "validate_issue_ref (dget ?e ''issue_ref'') = Inr ref" by (simp only: g vr)
    show "dget ?e ''supersedes'' = JNull \<or> (\<exists>d. dget ?e ''supersedes'' = JStr d \<and> hex64 d)"
      using sups by (simp only: g)
    show "validate_utc (dget ?e ''appended_at'')" using now by (simp only: g)
  qed
  have "seal H ?u = Inr ?e"
    using u v len p(3)
    by (simp add: seal_def canonical_json_def sha256_hex_def h [symmetric] del: finite_json.simps)
  then show ?thesis by blast
qed

text \<open>A well-formed request on a store: no supersession, a free identity, a valid clock.\<close>

definition well_formed_request :: "hostlib \<Rightarrow> string \<Rightarrow> json \<Rightarrow> json \<Rightarrow> json \<Rightarrow> bool" where
  "well_formed_request H now payload ident issue_ref \<longleftrightarrow>
     is_obj payload \<and> bounded_json payload \<and> length (dumps H True payload) + 4096 \<le> MAX_JSON_BYTES \<and>
     validate_utc (JStr now) \<and>
     (ident = JNull \<or> (case ident of JStr i \<Rightarrow> identity_re i | _ \<Rightarrow> False)) \<and>
     (case validate_issue_ref issue_ref of Inr _ \<Rightarrow> True | Inl _ \<Rightarrow> False)"

definition request_identity :: "hostlib \<Rightarrow> json \<Rightarrow> json \<Rightarrow> string" where
  "request_identity H payload ident =
     (case ident of JStr i \<Rightarrow> i | _ \<Rightarrow> sha256 H (dumps H True payload))"

lemma is_hex_lower: "is_hex c \<Longrightarrow> is_lower c \<or> is_digit c"
  by (auto simp: is_hex_def is_lower_def Let_def)

lemma hex64_identity: "hex64 s \<Longrightarrow> identity_re s"
  using is_hex_lower by (cases s) (auto simp: hex64_def identity_re_def list_all_iff)

lemma prepare_ok:
  assumes H: "sha_hex H" and w: "well_formed_request H now p ident r"
  obtains e where "prepare H now p ident r JNull st =
    Inr (request_identity H p ident, sha256 H (dumps H True p), e)"
proof -
  let ?dg = "sha256 H (dumps H True p)"
  let ?i = "request_identity H p ident"
  obtain ref where ref: "validate_issue_ref r = Inr ref"
    using w by (auto simp: well_formed_request_def split: sum.splits)
  have i: "validate_identity (if ident \<noteq> JNull then ident else JStr ?dg) = Inr ?i"
    using w H hex64_identity [of ?dg]
    by (auto simp: validate_identity_Inr request_identity_def well_formed_request_def sha_hex_def
        split: json.splits)
  then have ire: "identity_re ?i" by (simp add: validate_identity_Inr)
  obtain e where "seal H (unsigned_envelope ?i ?dg p ref JNull now) = Inr e"
    using seal_ok [OF H _ _ _ ire refl _ ref, of p now JNull] w by (auto simp: well_formed_request_def)
  moreover have "shape 0 p 0 = Inr (nodes p)" using w by (simp add: well_formed_request_def shape_bounded)
  moreover have "canonical_json H p = Inr (dumps H True p)"
    using w by (simp add: well_formed_request_def canonical_json_bounded)
  ultimately have "prepare H now p ident r JNull st = Inr (?i, ?dg, e)"
    using w i ref by (simp add: prepare_def checked_supersedes_def well_formed_request_def sha256_hex_def Let_def)
  then show ?thesis by (rule that)
qed

section \<open>Sequences of appends\<close>

text \<open>One call of \<open>append\<close> with the system\'s answers to it, and a history of such calls.\<close>

record append_call =
  call_faults :: os_faults
  call_now :: string
  call_payload :: json
  call_identity :: json
  call_issue_ref :: json
  call_supersedes :: json

definition run_append :: "hostlib \<Rightarrow> append_call \<Rightarrow> core_store \<Rightarrow> core_store" where
  "run_append H q st = snd (core_append H (call_faults q) (call_now q) (call_payload q)
     (call_identity q) (call_issue_ref q) (call_supersedes q) st)"

definition append_all :: "hostlib \<Rightarrow> append_call list \<Rightarrow> core_store \<Rightarrow> core_store" where
  "append_all H = run (run_append H)"

lemma core_append_keeps:
  assumes "core_append H F now p ident r s st = (res, st')" "map_of (records st) i = Some b"
  shows "map_of (records st') i = Some b"
  using assms by (auto simp: core_append_eq update_conv split: sum.splits option.splits if_splits)

lemma run_append_keeps:
  "map_of (records st) i = Some b \<Longrightarrow> map_of (records (run_append H q st)) i = Some b"
  unfolding run_append_def by (rule core_append_keeps [OF prod.collapse [symmetric]])

interpretation core_files: write_once "run_append H" "\<lambda>st. map_of (records st)" for H
  by unfold_locales (rule run_append_keeps)

lemma append_all_keeps:
  "map_of (records st) i = Some b \<Longrightarrow> map_of (records (append_all H qs st)) i = Some b"
  unfolding append_all_def by (rule core_files.run_kept)

lemma appended_blob:
  assumes "core_append H F now p ident r s st = (Inr d, st')" "dget d ''outcome'' = JStr OUTCOME_APPENDED"
  obtains i dg e where "prepare H now p ident r s st = Inr (i, dg, e)"
    "dget d ''identity'' = JStr i" "dget d ''record_digest'' = JStr dg"
    "map_of (records (append_all H qs st')) i = Some (envelope_blob H e)"
proof (rule core_append_appendedE [OF assms])
  fix i dg e
  assume p: "prepare H now p ident r s st = Inr (i, dg, e)" "dget d ''identity'' = JStr i"
    "dget d ''record_digest'' = JStr dg"
    and st: "st' = st\<lparr>records := AList.update i (envelope_blob H e) (records st)\<rparr>"
  have "map_of (records st') i = Some (envelope_blob H e)" by (simp add: st update_conv)
  then show ?thesis by (intro that [OF p] append_all_keeps)
qed

lemma append_fresh:
  assumes "sha_hex H" "well_formed_request H now p ident r"
    "map_of (records st) (request_identity H p ident) = None"
  shows "fst (core_append H no_faults now p ident r JNull st) =
    Inr [(''outcome'', JStr OUTCOME_APPENDED), (''appended'', JBool True),
      (''identity'', JStr (request_identity H p ident)),
      (''record_digest'', JStr (sha256 H (dumps H True p)))]"
  by (rule prepare_ok [OF assms(1,2), of st]) (simp add: core_append_eq assms(3) no_faults_def)

text \<open>The sample calls the theorems are applied to: an empty payload, and one nested 32 deep.\<close>

fun nest :: "nat \<Rightarrow> json" where
  "nest 0 = JNull"
| "nest (Suc n) = JList [nest n]"

definition deep_payload :: json where
  "deep_payload = JObj [(''k'', nest 31)]"

lemma nest_facts: "height (nest n) = n" "nodes (nest n) = Suc n" "texts_ok (nest n)"
  "length (dumps H a (nest n)) = 4 + 2 * n"
  by (induction n) (simp_all add: dumps.simps(6) height.simps(1))

lemma deep_payload_facts: "is_obj deep_payload" "height deep_payload = 32" "bounded_json deep_payload"
  "length (dumps H True deep_payload) = 72" "\<not> fits_envelope deep_payload"
proof -
  show h: "height deep_payload = 32" by (simp add: deep_payload_def nest_facts height.simps(1,2))
  show "is_obj deep_payload" by (simp add: deep_payload_def)
  show "bounded_json deep_payload" using h by (simp add: bounded_json_def deep_payload_def nest_facts core_limits)
  show "\<not> fits_envelope deep_payload" using h by (simp add: fits_envelope_def core_limits)
  show "length (dumps H True deep_payload) = 72"
    by (simp add: deep_payload_def dumps.simps(7) nest_facts quote_def esc_char_def Let_def)
qed

lemma sample_now_utc: "validate_utc (JStr sample_now)"
  by code_simp

lemma empty_payload_facts: "well_formed_request H sample_now (JObj []) JNull JNull" "fits_envelope (JObj [])"
  by (simp_all add: well_formed_request_def sample_now_utc bounded_json_def core_limits dumps.simps(7)
      validate_issue_ref_def fits_envelope_def height.simps(2))

lemma deep_request: "well_formed_request H sample_now deep_payload JNull JNull"
  by (simp add: well_formed_request_def sample_now_utc deep_payload_facts core_limits validate_issue_ref_def)

abbreviation sample_append :: "json \<Rightarrow> (core_error + dict) \<times> core_store" where
  "sample_append p \<equiv> core_append sample_lib no_faults sample_now p JNull JNull JNull empty_store"

lemma sample_appended:
  assumes "well_formed_request sample_lib sample_now p JNull JNull"
  obtains d where "sample_append p = (Inr d, snd (sample_append p))"
    "dget d ''outcome'' = JStr OUTCOME_APPENDED"
    "dget d ''identity'' = JStr (request_identity sample_lib p JNull)"
proof
  show "sample_append p = (Inr [(''outcome'', JStr OUTCOME_APPENDED), (''appended'', JBool True),
      (''identity'', JStr (request_identity sample_lib p JNull)),
      (''record_digest'', JStr (sha256 sample_lib (dumps sample_lib True p)))], snd (sample_append p))"
    using append_fresh [OF sample_sha_hex assms, of empty_store]
    by (intro prod_eqI) (simp_all add: empty_store_def)
qed (simp_all add: dget_def)

section \<open>A store without foreign files\<close>

text \<open>Every file holds a verified envelope of the identity it is named after.\<close>

definition readable_store :: "hostlib \<Rightarrow> core_store \<Rightarrow> bool" where
  "readable_store H st \<longleftrightarrow> distinct (map fst (records st)) \<and>
     (\<forall>f\<in>set (records st). case check_bytes H (snd f) of
        Inr (JObj e) \<Rightarrow> dget e ''identity'' = JStr (fst f) | _ \<Rightarrow> False)"

lemma readable_append:
  assumes H: "sha_hex H" and st: "readable_store H st" and p: "fits_envelope p" and F: "left_over F = None"
  shows "readable_store H (snd (core_append H F now p ident r s st))"
proof (cases "prepare H now p ident r s st")
  case (Inr ide)
  obtain i dg e where pr: "prepare H now p ident r s st = Inr (i, dg, e)" using Inr by (cases ide) auto
  have "readable_store H (st\<lparr>records := AList.update i (envelope_blob H e) (records st)\<rparr>)"
    if n: "map_of (records st) i = None"
    using st n p check_envelope_blob [OF pr H] prepare_envelope(2) [OF pr]
    by (auto simp: readable_store_def update_fresh map_of_eq_None_iff)
  with st F show ?thesis by (auto simp: core_append_eq pr split: option.splits sum.splits)
qed (simp add: core_append_eq st)

definition clean_call :: "append_call \<Rightarrow> bool" where
  "clean_call q \<longleftrightarrow> fits_envelope (call_payload q) \<and> left_over (call_faults q) = None"

interpretation core_readable:
    invariant_machine "run_append H" "\<lambda>st. sha_hex H \<and> readable_store H st" clean_call for H
  by unfold_locales (auto simp: run_append_def clean_call_def readable_append)

lemma mapE_ok: "(\<And>x. x \<in> set xs \<Longrightarrow> \<exists>y. f x = Inr y) \<Longrightarrow> \<exists>ys. mapE f xs = Inr ys \<and> length ys = length xs"
  by (induction xs) (force simp: result_simps)+

lemma readable_verify:
  assumes "readable_store H st"
  shows "store_verify H st = Inr (length (records st))"
proof -
  have "\<exists>rs. mapE (\<lambda>f. read_verified H (\<lambda>_. Bytes (snd f))) (sort_key (\<lambda>f. fst f @ ''.json'') (records st)) = Inr rs
      \<and> length rs = length (sort_key (\<lambda>f. fst f @ ''.json'') (records st))"
    using assms by (intro mapE_ok) (auto simp: readable_store_def dest!: bspec split: sum.splits, metis sumE)
  then show ?thesis by (auto simp: store_verify_def)
qed

lemma append_identity:
  assumes "core_append H F now p (JStr i) r s st = (Inr d, st')" "dget d ''outcome'' = JStr OUTCOME_APPENDED"
  shows "dget d ''identity'' = JStr i"
proof (rule appended_blob [OF assms, of "[]"])
  fix i' dg e
  assume "prepare H now p (JStr i) r s st = Inr (i', dg, e)" "dget d ''identity'' = JStr i'"
  with prepare_facts(5) [OF this(1)] show ?thesis by simp
qed

text \<open>Reading back what was appended, after any further history.\<close>

lemma append_readback:
  assumes "sha_hex H" "fits_envelope p"
    "core_append H F now p ident r s st = (Inr d, st')" "dget d ''outcome'' = JStr OUTCOME_APPENDED"
  shows "\<exists>e. store_get H (dget d ''identity'') (append_all H qs st') = Inr (Some (JObj e))
    \<and> dget e ''payload'' = json_norm p \<and> dget e ''record_digest'' = dget d ''record_digest''
    \<and> dget e ''record_digest'' = JStr (sha256 H (dumps H True p))
    \<and> dget e ''identity'' = dget d ''identity'' \<and> dget e ''appended_at'' = JStr now"
proof (rule appended_blob [OF assms(3,4)])
  fix i dg e
  assume p: "prepare H now p ident r s st = Inr (i, dg, e)"
    and d: "dget d ''identity'' = JStr i" "dget d ''record_digest'' = JStr dg"
    and b: "map_of (records (append_all H qs st')) i = Some (envelope_blob H e)"
  have "validate_identity (JStr i) = Inr i" using prepare_facts(4) [OF p] by (simp add: validate_identity_Inr)
  then have "store_get H (JStr i) (append_all H qs st') = Inr (Some (JObj (sort_key fst (map_vals json_norm e))))"
    using assms(2) by (simp add: store_get_def b check_envelope_blob [OF p assms(1)])
  then show ?thesis
    using prepare_envelope(2-5) [OF p] prepare_facts(3) [OF p] by (simp add: d)
qed

section \<open>Guarantees\<close>

text \<open>C23: the store is append-only. Whatever calls of append follow, successful or failing, a
  record file that exists keeps its bytes.\<close>

theorem core_store_append_only:
  "map_of (records st) i = Some b \<Longrightarrow> map_of (records (append_all H qs st)) i = Some b"
  by (rule append_all_keeps)

text \<open>C24: what append reported as appended is read back by identity, verified, after any
  further appends: the payload in canonical key order, its digest and its time stamp. The
  payload must leave room for the envelope in the reader\'s limits (see the next theorem).\<close>

theorem core_store_roundtrip:
  assumes "sha_hex H" "fits_envelope p"
    "core_append H F now p ident r s st = (Inr d, st')" "dget d ''outcome'' = JStr OUTCOME_APPENDED"
  shows "\<exists>e. store_get H (dget d ''identity'') (append_all H qs st') = Inr (Some (JObj e))
    \<and> dget e ''payload'' = json_norm p \<and> dget e ''record_digest'' = dget d ''record_digest''
    \<and> dget e ''record_digest'' = JStr (sha256 H (dumps H True p))
    \<and> dget e ''identity'' = dget d ''identity'' \<and> dget e ''appended_at'' = JStr now"
  using assms by (rule append_readback)

text \<open>The converse limit. A payload that append accepts but that does not leave room for
  the envelope (32 levels of nesting, or more than 19992 nodes) is stored and reported as
  appended, and from then on the identity cannot be read, and no listing, digest look-up or
  verification of the whole store succeeds, whatever is appended later.\<close>

theorem core_store_unreadable_append:
  assumes "sha_hex H" "\<not> fits_envelope p"
    "core_append H F now p ident r s st = (Inr d, st')" "dget d ''outcome'' = JStr OUTCOME_APPENDED"
  shows "store_get H (dget d ''identity'') (append_all H qs st')
      = Inl (CoreError ''invalid_input'' ''JSON exceeds complexity limits'' 3)
    \<and> (\<forall>rs. iter_records H (append_all H qs st') \<noteq> Inr rs)
    \<and> (\<forall>n. store_verify H (append_all H qs st') \<noteq> Inr n)
    \<and> (\<forall>v r. get_by_digest H v (append_all H qs st') \<noteq> Inr r)"
proof (rule appended_blob [OF assms(3,4)])
  fix i dg e
  assume p: "prepare H now p ident r s st = Inr (i, dg, e)" and d: "dget d ''identity'' = JStr i"
    and b: "map_of (records (append_all H qs st')) i = Some (envelope_blob H e)"
  let ?st = "append_all H qs st'"
  have v: "validate_identity (JStr i) = Inr i" using prepare_facts(4) [OF p] by (simp add: validate_identity_Inr)
  note c = check_envelope_blob [OF p assms(1)]
  have "store_get H (JStr i) ?st = Inl (CoreError ''invalid_input'' ''JSON exceeds complexity limits'' 3)"
    using assms(2) by (simp add: store_get_def v b c)
  moreover have "(i, envelope_blob H e) \<in> set (sort_key (\<lambda>f. fst f @ ''.json'') (records ?st))"
    using map_of_SomeD [OF b] by simp
  then have "mapE (\<lambda>f. read_verified H (\<lambda>_. Bytes (snd f)))
      (sort_key (\<lambda>f. fst f @ ''.json'') (records ?st)) \<noteq> Inr rs" for rs
    by (rule mapE_member_fails) (simp add: c assms(2))
  ultimately show ?thesis
    by (auto simp: d iter_records_def store_verify_def get_by_digest_def scan_by_digest_def result_simps)
qed

text \<open>A well-formed request with a free identity is accepted: a bounded payload object
  whose text leaves 4096 bytes for the envelope, a canonical clock value, an identity of the
  pattern (or none, and then the digest is the identity), a valid issue reference.\<close>

theorem core_store_accepts:
  assumes "sha_hex H" "well_formed_request H now p ident r"
    "map_of (records st) (request_identity H p ident) = None"
  shows "fst (core_append H no_faults now p ident r JNull st) =
    Inr [(''outcome'', JStr OUTCOME_APPENDED), (''appended'', JBool True),
      (''identity'', JStr (request_identity H p ident)),
      (''record_digest'', JStr (sha256 H (dumps H True p)))]"
  using assms by (rule append_fresh)

text \<open>C25: the first writer of an identity wins. After an append succeeded whose payload leaves room for the envelope
  (\<open>fits_envelope\<close>: the stored record passes the limits of the readers), every later append
  that resolves to the same identity leaves the store as it is and reports a re-delivery when
  its payload has the same digest, and otherwise a conflict that names both digests. Without that room the stored record
  cannot be read back (\<open>core_store_unreadable_append\<close>).\<close>

theorem core_store_first_writer_wins:
  assumes "sha_hex H" "fits_envelope p"
    "core_append H F now p ident r s st = (Inr d, st1)" "dget d ''outcome'' = JStr OUTCOME_APPENDED"
    "prepare H now2 p2 ident2 r2 s2 (append_all H qs st1) = Inr (i, dg, e)" "dget d ''identity'' = JStr i"
    "\<not> link_found F2"
  shows "\<exists>d2. core_append H F2 now2 p2 ident2 r2 s2 (append_all H qs st1) = (Inr d2, append_all H qs st1)
    \<and> dget d2 ''appended'' = JBool False
    \<and> (if dget d ''record_digest'' = JStr dg
        then dget d2 ''outcome'' = JStr OUTCOME_REDELIVERY
        else dget d2 ''outcome'' = JStr OUTCOME_CONFLICT \<and>
          dget d2 ''conflict'' = JObj [(''field'', JStr CONFLICT_FIELD),
            (''values'', JList [dget d ''record_digest'', JStr dg])])"
proof (rule appended_blob [OF assms(3,4)])
  fix i' dg' e'
  assume p: "prepare H now p ident r s st = Inr (i', dg', e')"
    and d: "dget d ''identity'' = JStr i'" "dget d ''record_digest'' = JStr dg'"
    and b: "map_of (records (append_all H qs st1)) i' = Some (envelope_blob H e')"
  let ?old = "sort_key fst (map_vals json_norm e')"
  have i: "i' = i" using assms(6) d by simp
  have old: "dget e' ''record_digest'' = JStr dg'" by (rule prepare_envelope(3) [OF p])
  have "core_append H F2 now2 p2 ident2 r2 s2 (append_all H qs st1)
      = (Inr (render_loser (JObj ?old) dg i), append_all H qs st1)"
    using assms(2,7) b by (simp add: core_append_eq assms(5) i check_envelope_blob [OF p assms(1)])
  then show ?thesis
    using render_loser_outcome [of ?old dg i] by (auto simp: old d)
qed

text \<open>a store that grows from empty by calls of append verifies completely: verify counts
  every file. It holds for any history of calls, rejected ones included, whose payloads leave
  room for the envelope and whose failed writes were cleaned up.\<close>

theorem core_store_verifies:
  assumes "sha_hex H" "list_all clean_call qs"
  shows "store_verify H (append_all H qs empty_store) = Inr (length (records (append_all H qs empty_store)))"
proof -
  have "readable_store H empty_store" by (simp add: readable_store_def empty_store_def)
  then show ?thesis
    using core_readable.run_inv [OF _ assms(2), of H empty_store] assms(1)
    by (simp add: append_all_def readable_verify)
qed

theorem core_store_append_only_witness:
  "map_of (records (append_all sample_lib [] (empty_store\<lparr>records := [(''a'', \<lparr>blob_size = 3, blob_doc = None\<rparr>)]\<rparr>))) ''a''
     = Some \<lparr>blob_size = 3, blob_doc = None\<rparr>"
  by (rule core_store_append_only) (simp add: empty_store_def)

theorem core_store_roundtrip_witness:
  "\<exists>d e. sample_append (JObj []) = (Inr d, snd (sample_append (JObj [])))
     \<and> store_get sample_lib (dget d ''identity'') (append_all sample_lib [] (snd (sample_append (JObj []))))
         = Inr (Some (JObj e)) \<and> dget e ''payload'' = JObj []"
proof (rule sample_appended [OF empty_payload_facts(1)])
  fix d
  assume d: "sample_append (JObj []) = (Inr d, snd (sample_append (JObj [])))"
    "dget d ''outcome'' = JStr OUTCOME_APPENDED"
  from core_store_roundtrip [OF sample_sha_hex empty_payload_facts(2) this, of "[]"] d(1)
  show ?thesis by auto
qed

theorem core_store_unreadable_append_witness:
  "\<exists>d. sample_append deep_payload = (Inr d, snd (sample_append deep_payload))
     \<and> dget d ''outcome'' = JStr OUTCOME_APPENDED
     \<and> store_verify sample_lib (append_all sample_lib [] (snd (sample_append deep_payload))) \<noteq> Inr 1"
proof (rule sample_appended [OF deep_request])
  fix d
  assume d: "sample_append deep_payload = (Inr d, snd (sample_append deep_payload))"
    "dget d ''outcome'' = JStr OUTCOME_APPENDED"
  from core_store_unreadable_append [OF sample_sha_hex deep_payload_facts(5) this, of "[]"] d
  show ?thesis by blast
qed

theorem core_store_accepts_witness:
  "fst (core_append sample_lib no_faults sample_now (JObj []) JNull JNull JNull empty_store) =
    Inr [(''outcome'', JStr OUTCOME_APPENDED), (''appended'', JBool True),
      (''identity'', JStr (request_identity sample_lib (JObj []) JNull)),
      (''record_digest'', JStr (sha256 sample_lib (dumps sample_lib True (JObj []))))]"
  by (rule core_store_accepts [OF sample_sha_hex empty_payload_facts(1)]) (simp add: empty_store_def)

theorem core_store_first_writer_wins_witness:
  "\<exists>d d2. sample_append (JObj []) = (Inr d, snd (sample_append (JObj [])))
     \<and> core_append sample_lib no_faults sample_now (JObj []) JNull JNull JNull
         (append_all sample_lib [] (snd (sample_append (JObj []))))
       = (Inr d2, append_all sample_lib [] (snd (sample_append (JObj []))))
     \<and> dget d2 ''appended'' = JBool False"
proof (rule sample_appended [OF empty_payload_facts(1)])
  fix d
  assume d: "sample_append (JObj []) = (Inr d, snd (sample_append (JObj [])))"
    "dget d ''outcome'' = JStr OUTCOME_APPENDED"
    and i: "dget d ''identity'' = JStr (request_identity sample_lib (JObj []) JNull)"
  obtain e where e: "prepare sample_lib sample_now (JObj []) JNull JNull JNull
      (append_all sample_lib [] (snd (sample_append (JObj [])))) =
    Inr (request_identity sample_lib (JObj []) JNull, sha256 sample_lib (dumps sample_lib True (JObj [])), e)"
    by (rule prepare_ok [OF sample_sha_hex empty_payload_facts(1)])
  have "\<not> link_found no_faults" by (simp add: no_faults_def)
  from core_store_first_writer_wins [OF sample_sha_hex empty_payload_facts(2) d e i this] d(1)
  show ?thesis by blast
qed

theorem core_store_verifies_witness:
  "store_verify sample_lib (append_all sample_lib
      [\<lparr>call_faults = no_faults, call_now = sample_now, call_payload = JObj [], call_identity = JNull,
        call_issue_ref = JNull, call_supersedes = JNull\<rparr>] empty_store)
    = Inr (length (records (append_all sample_lib
      [\<lparr>call_faults = no_faults, call_now = sample_now, call_payload = JObj [], call_identity = JNull,
        call_issue_ref = JNull, call_supersedes = JNull\<rparr>] empty_store)))"
  by (rule core_store_verifies [OF sample_sha_hex]) (simp add: clean_call_def empty_payload_facts no_faults_def)

end
