(* ===== verification/Core_Concurrent.thy ===== *)
theory Core_Concurrent
  imports Core_Store_Props "HOL-Library.Transitive_Closure_Table"
begin

text \<open>
  Interleaved calls of \<open>CoreStore.append\<close> (\<open>state/core_store.py\<close>). Each writer has passed
  the checks of its own call (a \<open>job\<close>: identity, digest and sealed envelope); one step of the
  relation is one system call of one writer, a failure of it, or the death of a writer. The
  store decides the race by \<open>open(O_CREAT | O_EXCL)\<close> alone: no lock is modelled because the
  code takes none.
\<close>

record job =
  job_identity :: string
  job_digest :: string
  job_envelope :: dict

text \<open>Where a writer is: opening with \<open>k\<close> attempts left; reading the winner's file with \<open>k\<close> attempts
  left afterwards, \<open>n\<close> reads left and the last error; writing; written but not yet flushed; flushed and about
  to synchronise the directory; finished; killed.\<close>

datatype pc =
    Opening nat
  | Reading nat nat core_error
  | Writing
  | Written
  | Syncing
  | Finished "core_error + dict"
  | Killed

record config =
  disk :: "string \<Rightarrow> blob option"
  pcs :: "nat \<Rightarrow> pc"

definition goto :: "nat \<Rightarrow> pc \<Rightarrow> config \<Rightarrow> config" where
  "goto w p c = c\<lparr>pcs := (pcs c)(w := p)\<rparr>"

definition put_file :: "string \<Rightarrow> blob option \<Rightarrow> config \<Rightarrow> config" where
  "put_file i b c = c\<lparr>disk := (disk c)(i := b)\<rparr>"

definition partial_blob :: "nat \<Rightarrow> blob" where
  "partial_blob n = \<lparr>blob_size = n, blob_doc = None\<rparr>"

definition appended_answer :: "job \<Rightarrow> dict" where
  "appended_answer j = [(''outcome'', JStr OUTCOME_APPENDED), (''appended'', JBool True),
     (''identity'', JStr (job_identity j)), (''record_digest'', JStr (job_digest j))]"

inductive writer_step :: "hostlib \<Rightarrow> (nat \<Rightarrow> job) \<Rightarrow> config \<Rightarrow> config \<Rightarrow> bool"
  for H :: hostlib and jobs :: "nat \<Rightarrow> job" where
  create: "\<lbrakk>pcs c w = Opening (Suc k); disk c (job_identity (jobs w)) = None\<rbrakk> \<Longrightarrow>
    writer_step H jobs c (goto w Writing (put_file (job_identity (jobs w)) (Some (partial_blob 0)) c))"
| exists: "\<lbrakk>pcs c w = Opening (Suc k); disk c (job_identity (jobs w)) = Some b\<rbrakk> \<Longrightarrow>
    writer_step H jobs c
      (goto w (Reading k READ_ATTEMPTS (CoreError ''io_error'' ''could not read record'' 7)) c)"
| open_error: "pcs c w = Opening (Suc k) \<Longrightarrow>
    writer_step H jobs c (goto w (Finished (Inl (CoreError ''io_error'' ''could not create record'' 7))) c)"
| attempts_spent: "pcs c w = Opening 0 \<Longrightarrow>
    writer_step H jobs c
      (goto w (Finished (Inl (CoreError ''io_error'' ''concurrent appends did not resolve'' 7))) c)"
| read_missing: "\<lbrakk>pcs c w = Reading k (Suc n) e; disk c (job_identity (jobs w)) = None\<rbrakk> \<Longrightarrow>
    writer_step H jobs c (goto w (if 0 < k then Opening k
      else Finished (Inl (CoreError ''not_found'' ''record file not found'' 4))) c)"
| read_error: "pcs c w = Reading k (Suc n) e \<Longrightarrow>
    writer_step H jobs c (goto w (Reading k n (CoreError ''io_error'' ''could not read record'' 7)) c)"
| read_bad: "\<lbrakk>pcs c w = Reading k (Suc n) e; disk c (job_identity (jobs w)) = Some b;
      check_bytes H b = Inl m\<rbrakk> \<Longrightarrow>
    writer_step H jobs c (goto w (Reading k n m) c)"
| read_ok: "\<lbrakk>pcs c w = Reading k (Suc n) e; disk c (job_identity (jobs w)) = Some b;
      check_bytes H b = Inr v\<rbrakk> \<Longrightarrow>
    writer_step H jobs c (goto w (Finished (Inr
      (render_loser v (job_digest (jobs w)) (job_identity (jobs w))))) c)"
| reads_spent: "pcs c w = Reading k 0 e \<Longrightarrow> writer_step H jobs c (goto w (Finished (Inl e)) c)"
| write_part: "pcs c w = Writing \<Longrightarrow>
    writer_step H jobs c (put_file (job_identity (jobs w)) (Some (partial_blob n)) c)"
| write_all: "pcs c w = Writing \<Longrightarrow>
    writer_step H jobs c (goto w Written
      (put_file (job_identity (jobs w)) (Some (envelope_blob H (job_envelope (jobs w)))) c))"
| write_failed: "pcs c w = Writing \<or> pcs c w = Written \<Longrightarrow>
    writer_step H jobs c (goto w (Finished (Inl (CoreError ''io_error'' ''could not persist record'' 7)))
      (put_file (job_identity (jobs w)) None c))"
| unlink_failed: "pcs c w = Writing \<or> pcs c w = Written \<Longrightarrow>
    writer_step H jobs c (goto w (Finished (Inl (CoreError ''io_error'' ''could not persist record'' 7))) c)"
| flushed: "pcs c w = Written \<Longrightarrow> writer_step H jobs c (goto w Syncing c)"
| synced: "pcs c w = Syncing \<Longrightarrow>
    writer_step H jobs c (goto w (Finished (Inr (appended_answer (jobs w)))) c)"
| sync_failed: "pcs c w = Syncing \<Longrightarrow>
    writer_step H jobs c (goto w (Finished (Inl
      (CoreError ''io_error'' ''could not synchronize core store directory'' 7))) c)"
| killed: "(\<forall>r. pcs c w \<noteq> Finished r) \<Longrightarrow> writer_step H jobs c (goto w Killed c)"

inductive_cases writer_stepE: "writer_step H jobs c c'"

definition race_start :: "(string \<Rightarrow> blob option) \<Rightarrow> config" where
  "race_start D = \<lparr>disk = D, pcs = (\<lambda>_. Opening CAS_ATTEMPTS)\<rparr>"

lemmas config_simps [simp] = goto_def put_file_def

section \<open>The owner of an identity\<close>

text \<open>A writer owns its identity from its successful create until its write fails or it dies.\<close>

fun owns :: "pc \<Rightarrow> bool" where
  "owns Writing = True" | "owns Written = True" | "owns Syncing = True"
| "owns (Finished (Inr d)) = (dget d ''outcome'' = JStr OUTCOME_APPENDED)"
| "owns _ = False"

fun stored :: "pc \<Rightarrow> bool" where
  "stored Written = True" | "stored Syncing = True"
| "stored (Finished (Inr d)) = (dget d ''outcome'' = JStr OUTCOME_APPENDED)"
| "stored _ = False"

definition race_inv :: "hostlib \<Rightarrow> (nat \<Rightarrow> job) \<Rightarrow> config \<Rightarrow> bool" where
  "race_inv H jobs c \<longleftrightarrow>
     (\<forall>w. owns (pcs c w) \<longrightarrow> disk c (job_identity (jobs w)) \<noteq> None) \<and>
     (\<forall>v w. owns (pcs c v) \<longrightarrow> owns (pcs c w) \<longrightarrow> job_identity (jobs v) = job_identity (jobs w) \<longrightarrow> v = w) \<and>
     (\<forall>w. stored (pcs c w) \<longrightarrow>
        disk c (job_identity (jobs w)) = Some (envelope_blob H (job_envelope (jobs w))))"

lemma stored_owns: "stored p \<Longrightarrow> owns p"
  by (cases p rule: stored.cases) auto

lemma appended_answer_owns: "dget (appended_answer j) ''outcome'' = JStr OUTCOME_APPENDED"
  by (simp add: appended_answer_def dget_def)

lemma race_inv_start: "race_inv H jobs (race_start D)"
  by (simp add: race_inv_def race_start_def)

lemma race_inv_goto:
  assumes "race_inv H jobs c" "owns p \<Longrightarrow> owns (pcs c w)" "stored p \<Longrightarrow> stored (pcs c w)"
  shows "race_inv H jobs (goto w p c)"
  using assms unfolding race_inv_def by simp metis

text \<open>An owner may change its file: no other owner of the identity exists.\<close>

lemma race_inv_put:
  assumes inv: "race_inv H jobs c" and o: "owns (pcs c w)"
    and p: "owns p \<Longrightarrow> b \<noteq> None" "stored p \<Longrightarrow> b = Some (envelope_blob H (job_envelope (jobs w)))"
  shows "race_inv H jobs (goto w p (put_file (job_identity (jobs w)) b c))"
proof -
  have other: "\<not> owns (pcs c v)" if "v \<noteq> w" "job_identity (jobs v) = job_identity (jobs w)" for v
    using inv o that unfolding race_inv_def by metis
  show ?thesis
    using inv p other stored_owns o unfolding race_inv_def by simp metis
qed

lemma goto_here: "goto w (pcs c w) c = c"
  by simp

lemma race_inv_step:
  assumes "writer_step H jobs c c'" "race_inv H jobs c"
  shows "race_inv H jobs c'"
  using assms(1)
proof (cases rule: writer_step.cases)
  case (create w k)
  have "\<not> owns (pcs c v)" if "job_identity (jobs v) = job_identity (jobs w)" for v
    using create(3) assms(2) that unfolding race_inv_def by metis
  with create assms(2) stored_owns show ?thesis unfolding race_inv_def by simp metis
next
  case (write_part w n)
  have "race_inv H jobs (goto w Writing (put_file (job_identity (jobs w)) (Some (partial_blob n)) c))"
    by (rule race_inv_put [OF assms(2)]) (simp_all add: write_part)
  moreover have "goto w Writing (put_file (job_identity (jobs w)) (Some (partial_blob n)) c) = c'"
    using goto_here [of w c'] write_part by simp
  ultimately show ?thesis by simp
next
  case (write_all w)
  show ?thesis unfolding write_all(1) by (rule race_inv_put [OF assms(2)]) (simp_all add: write_all)
next
  case (write_failed w)
  show ?thesis unfolding write_failed(1)
    by (rule race_inv_put [OF assms(2)]) (use write_failed(2) in auto)
qed (auto simp only: intro!: race_inv_goto [OF assms(2)] split: if_splits,
  auto simp: appended_answer_owns appended_outcome split: if_splits)

lemma race_inv_reach:
  assumes "(writer_step H jobs)\<^sup>*\<^sup>* c c'" "race_inv H jobs c"
  shows "race_inv H jobs c'"
  using assms by (induction rule: rtranclp_induct) (auto intro: race_inv_step)

lemma finished_stays:
  assumes "(writer_step H jobs)\<^sup>*\<^sup>* c c'" "pcs c w = Finished r"
  shows "pcs c' w = Finished r"
  using assms
proof (induction rule: rtranclp_induct)
  case (step y z)
  from step.hyps(2) step.IH [OF step.prems] show ?case by (cases rule: writer_step.cases) auto
qed

section \<open>What a loser reports\<close>

text \<open>Where the bytes of a file come from.\<close>

definition origin :: "hostlib \<Rightarrow> (nat \<Rightarrow> job) \<Rightarrow> (string \<Rightarrow> blob option) \<Rightarrow> string \<Rightarrow> blob \<Rightarrow> bool" where
  "origin H jobs D i b \<longleftrightarrow> D i = Some b \<or>
     (\<exists>v. job_identity (jobs v) = i \<and> b = envelope_blob H (job_envelope (jobs v)))"

definition truthful :: "hostlib \<Rightarrow> (nat \<Rightarrow> job) \<Rightarrow> (string \<Rightarrow> blob option) \<Rightarrow> config \<Rightarrow> bool" where
  "truthful H jobs D c \<longleftrightarrow>
     (\<forall>i b. disk c i = Some b \<longrightarrow> origin H jobs D i b \<or> blob_doc b = None) \<and>
     (\<forall>w d. pcs c w = Finished (Inr d) \<longrightarrow> d = appended_answer (jobs w) \<or>
        (\<exists>b v. origin H jobs D (job_identity (jobs w)) b \<and> check_bytes H b = Inr v \<and>
           d = render_loser v (job_digest (jobs w)) (job_identity (jobs w))))"

lemma check_bytes_doc: "check_bytes H b = Inr v \<Longrightarrow> blob_doc b \<noteq> None"
  by (auto simp: check_bytes_def split: if_splits option.splits)

lemma truthful_step:
  assumes "writer_step H jobs c c'" "truthful H jobs D c"
  shows "truthful H jobs D c'"
  using assms
proof (cases rule: writer_step.cases)
  case (read_ok w k n e b v)
  then have "origin H jobs D (job_identity (jobs w)) b"
    using assms(2) check_bytes_doc [OF read_ok(4)] unfolding truthful_def by metis
  with read_ok assms(2) show ?thesis unfolding truthful_def by auto
qed (auto simp: truthful_def origin_def partial_blob_def split: if_splits)

lemma truthful_reach:
  assumes "(writer_step H jobs)\<^sup>*\<^sup>* (race_start D) c"
  shows "truthful H jobs D c"
  using assms
proof (induction rule: rtranclp_induct)
  case base
  show ?case by (simp add: truthful_def race_start_def origin_def)
qed (rule truthful_step)

section \<open>A race that runs\<close>

lemma winner_run:
  assumes "pcs c w = Opening (Suc k)" "disk c (job_identity (jobs w)) = None"
  shows "(writer_step H jobs)\<^sup>*\<^sup>* c (goto w (Finished (Inr (appended_answer (jobs w))))
    (put_file (job_identity (jobs w)) (Some (envelope_blob H (job_envelope (jobs w)))) c))"
proof -
  let ?i = "job_identity (jobs w)"
  let ?b = "Some (envelope_blob H (job_envelope (jobs w)))"
  let ?c1 = "goto w Writing (put_file ?i (Some (partial_blob 0)) c)"
  let ?c2 = "goto w Written (put_file ?i ?b c)"
  let ?c3 = "goto w Syncing (put_file ?i ?b c)"
  have "writer_step H jobs c ?c1" using assms by (rule create)
  moreover have "writer_step H jobs ?c1 ?c2" using write_all [of ?c1 w H jobs] by simp
  moreover have "writer_step H jobs ?c2 ?c3" using flushed [of ?c2 w H jobs] by simp
  moreover have "writer_step H jobs ?c3 (goto w (Finished (Inr (appended_answer (jobs w)))) (put_file ?i ?b c))"
    using synced [of ?c3 w H jobs] by simp
  ultimately show ?thesis by (meson converse_rtranclp_into_rtranclp rtranclp.rtrancl_refl)
qed

lemma loser_run:
  assumes "pcs c w = Opening (Suc k)" "disk c (job_identity (jobs w)) = Some b" "check_bytes H b = Inr v"
  shows "(writer_step H jobs)\<^sup>*\<^sup>* c (goto w (Finished (Inr
    (render_loser v (job_digest (jobs w)) (job_identity (jobs w))))) c)"
proof -
  let ?c1 = "goto w (Reading k READ_ATTEMPTS (CoreError ''io_error'' ''could not read record'' 7)) c"
  have "writer_step H jobs c ?c1" using assms(1,2) by (rule exists)
  moreover have "writer_step H jobs ?c1 (goto w (Finished (Inr
      (render_loser v (job_digest (jobs w)) (job_identity (jobs w))))) c)"
    using read_ok [of ?c1 w k 49 "CoreError ''io_error'' ''could not read record'' 7" jobs b H v] assms
    by (simp add: READ_ATTEMPTS_def)
  ultimately show ?thesis by (meson converse_rtranclp_into_rtranclp rtranclp.rtrancl_refl)
qed

lemma race_run:
  assumes "check_bytes H (envelope_blob H (job_envelope j)) = Inr v"
  obtains c d where "(writer_step H (\<lambda>_. j))\<^sup>*\<^sup>* (race_start (\<lambda>_. None)) c"
    "pcs c 0 = Finished (Inr (appended_answer j))" "pcs c 1 = Finished (Inr d)"
    "dget d ''outcome'' \<noteq> JStr OUTCOME_APPENDED"
proof -
  let ?s = "race_start (\<lambda>_. None)"
  let ?c = "goto 0 (Finished (Inr (appended_answer j)))
    (put_file (job_identity j) (Some (envelope_blob H (job_envelope j))) ?s)"
  have "(writer_step H (\<lambda>_. j))\<^sup>*\<^sup>* ?s ?c"
    using winner_run [of ?s 0 2 "\<lambda>_. j" H] by (simp add: race_start_def CAS_ATTEMPTS_def)
  also have "(writer_step H (\<lambda>_. j))\<^sup>*\<^sup>* ?c (goto 1 (Finished (Inr
      (render_loser v (job_digest j) (job_identity j)))) ?c)"
    using loser_run [of ?c 1 2 "\<lambda>_. j" _ H v] assms by (simp add: race_start_def CAS_ATTEMPTS_def)
  finally show ?thesis by (rule that) (simp, simp, rule appended_outcome)
qed

lemma sample_job:
  obtains j :: job and v where "check_bytes sample_lib (envelope_blob sample_lib (job_envelope j)) = Inr v"
proof (rule prepare_ok [OF sample_sha_hex empty_payload_facts(1), of empty_store])
  fix e
  assume "prepare sample_lib sample_now (JObj []) JNull JNull JNull empty_store =
    Inr (request_identity sample_lib (JObj []) JNull, sha256 sample_lib (dumps sample_lib True (JObj [])), e)"
  from check_envelope_blob [OF this sample_sha_hex] empty_payload_facts(2)
  show ?thesis by (intro that [of "\<lparr>job_identity = ''a'', job_digest = [], job_envelope = e\<rparr>"]) simp
qed

section \<open>Guarantees\<close>

text \<open>C26: of any number of concurrent appends to one identity, in any interleaving of their
  system calls, with failures and killed writers, at most one reports that it appended.\<close>

theorem core_race_unique_winner:
  assumes "(writer_step H jobs)\<^sup>*\<^sup>* (race_start D) c"
    "pcs c v = Finished (Inr d)" "dget d ''outcome'' = JStr OUTCOME_APPENDED"
    "pcs c w = Finished (Inr d')" "dget d' ''outcome'' = JStr OUTCOME_APPENDED"
    "job_identity (jobs v) = job_identity (jobs w)"
  shows "v = w"
  using race_inv_reach [OF assms(1) race_inv_start] assms(2-) by (auto simp: race_inv_def)

text \<open>A reported append is durable. From the moment a writer reports it, its sealed
  envelope is the content of the file, whatever the other writers do.\<close>

theorem core_race_durable:
  assumes "(writer_step H jobs)\<^sup>*\<^sup>* (race_start D) c" "(writer_step H jobs)\<^sup>*\<^sup>* c c'"
    "pcs c w = Finished (Inr d)" "dget d ''outcome'' = JStr OUTCOME_APPENDED"
  shows "disk c' (job_identity (jobs w)) = Some (envelope_blob H (job_envelope (jobs w)))"
proof -
  have "race_inv H jobs c'" using assms(1,2) race_inv_reach race_inv_start by (metis rtranclp_trans)
  moreover have "pcs c' w = Finished (Inr d)" by (rule finished_stays [OF assms(2,3)])
  ultimately show ?thesis using assms(4) by (auto simp: race_inv_def)
qed

text \<open>a loser tells the truth. A re-delivery or conflict answer was rendered from a record
  that verified, and that record is either one stored before the race or the sealed envelope
  of a writer of the same identity; it names that record's digest, and it is a re-delivery
  exactly when that digest is the loser's own.\<close>

theorem core_race_loser_truthful:
  assumes "(writer_step H jobs)\<^sup>*\<^sup>* (race_start D) c" "pcs c w = Finished (Inr d)"
    "dget d ''outcome'' \<noteq> JStr OUTCOME_APPENDED"
  shows "\<exists>b e. (D (job_identity (jobs w)) = Some b \<or>
       (\<exists>v. job_identity (jobs v) = job_identity (jobs w) \<and> b = envelope_blob H (job_envelope (jobs v))))
     \<and> check_bytes H b = Inr (JObj e) \<and> dget d ''existing_record_digest'' = dget e ''record_digest''
     \<and> (dget d ''outcome'' = JStr OUTCOME_REDELIVERY \<longleftrightarrow> dget e ''record_digest'' = JStr (job_digest (jobs w)))"
proof -
  have "d \<noteq> appended_answer (jobs w)" using assms(3) appended_answer_owns by auto
  then obtain b v where b: "origin H jobs D (job_identity (jobs w)) b" "check_bytes H b = Inr v"
    and d: "d = render_loser v (job_digest (jobs w)) (job_identity (jobs w))"
    using truthful_reach [OF assms(1)] assms(2) unfolding truthful_def by blast
  obtain e where v: "v = JObj e" using check_bytes_obj [OF b(2)] by blast
  have "dget d ''existing_record_digest'' = dget e ''record_digest''"
    by (simp add: d v render_loser_def Let_def dget_def outcome_defs)
  moreover have "dget d ''outcome'' = JStr OUTCOME_REDELIVERY \<longleftrightarrow>
      dget e ''record_digest'' = JStr (job_digest (jobs w))"
    using render_loser_outcome(1) [of e] by (simp add: d v outcome_defs)
  ultimately show ?thesis using b unfolding v origin_def by blast
qed

theorem core_race_unique_winner_witness:
  "\<exists>c j. (writer_step sample_lib (\<lambda>_. j))\<^sup>*\<^sup>* (race_start (\<lambda>_. None)) c
     \<and> (\<exists>d. pcs c 0 = Finished (Inr d) \<and> dget d ''outcome'' = JStr OUTCOME_APPENDED
       \<and> (\<forall>w d'. pcs c w = Finished (Inr d') \<and> dget d' ''outcome'' = JStr OUTCOME_APPENDED \<longrightarrow> 0 = w))"
proof (rule sample_job)
  fix j :: job and v assume "check_bytes sample_lib (envelope_blob sample_lib (job_envelope j)) = Inr v"
  then show ?thesis
    using core_race_unique_winner [where jobs = "\<lambda>_. j"] appended_answer_owns
    by (elim race_run) (blast 12)
qed

theorem core_race_durable_witness:
  "\<exists>c (j :: job). pcs (c :: config) 0 = Finished (Inr (appended_answer j))
     \<and> disk c (job_identity j) = Some (envelope_blob sample_lib (job_envelope j))"
proof (rule sample_job)
  fix j :: job and v assume "check_bytes sample_lib (envelope_blob sample_lib (job_envelope j)) = Inr v"
  then show ?thesis
  proof (elim race_run)
    fix c d
    assume c: "(writer_step sample_lib (\<lambda>_. j))\<^sup>*\<^sup>* (race_start (\<lambda>_. None)) c"
      "pcs c 0 = Finished (Inr (appended_answer j))"
    from c core_race_durable [OF c(1) rtranclp.rtrancl_refl c(2) appended_answer_owns] show ?thesis by blast
  qed
qed

theorem core_race_loser_truthful_witness:
  "\<exists>c (j :: job) d e. pcs (c :: config) 1 = Finished (Inr d) \<and> dget d ''outcome'' \<noteq> JStr OUTCOME_APPENDED
     \<and> check_bytes sample_lib (envelope_blob sample_lib (job_envelope j)) = Inr (JObj e)
     \<and> dget d ''existing_record_digest'' = dget e ''record_digest''"
proof (rule sample_job)
  fix j :: job and v assume "check_bytes sample_lib (envelope_blob sample_lib (job_envelope j)) = Inr v"
  then show ?thesis
  proof (elim race_run)
    fix c d
    assume c: "(writer_step sample_lib (\<lambda>_. j))\<^sup>*\<^sup>* (race_start (\<lambda>_. None)) c"
      "pcs c 1 = Finished (Inr d)" "dget d ''outcome'' \<noteq> JStr OUTCOME_APPENDED"
    from c(2,3) core_race_loser_truthful [OF c] show ?thesis by (auto 0 4)
  qed
qed

end
