(* ===== verification/Packaging_Records.thy ===== *)
theory Packaging_Records
  imports Canonical Machines
begin

text \<open>
  The record shapes of \<open>widget_contract/product_packaging\<close>: revisions (\<open>revision.py\<close>) and
  operation records (\<open>operation_record.py\<close>). A mapping argument is a JSON value; the
  exceptions are datatypes with one constructor for each raise.
\<close>

section \<open>Revisions\<close>

definition REVISION_FIELDS :: "string list" where
  "REVISION_FIELDS = [''package_id'', ''parent_revision_identity'', ''content'']"

definition FROZEN_REVISION_FIELDS :: "string list" where
  "FROZEN_REVISION_FIELDS = [''audience'', ''evidence_refs'', ''features'', ''outcome'', ''package_id'',
     ''parent_revision_identity'', ''prior_binding_refs'', ''problem'', ''referenced_repositories'', ''scope'']"

datatype revision_error =
    Revision_not_mapping
  | Revision_missing "string list"
  | Revision_undeclared "string list"
  | Revision_package_id
  | Revision_parent digest_error

definition build_revision :: "json \<Rightarrow> json \<Rightarrow> json \<Rightarrow> revision_error + dict" where
  "build_revision package_id content parent =
     (if \<not> nonempty_str package_id then Inl Revision_package_id
      else bindE (if parent = JNull then Inr JNull
          else bindE (mapErr Revision_parent (normalize_digest parent ''parent_revision_identity''))
            (\<lambda>p. Inr (JStr p)))
        (\<lambda>p. Inr [(''package_id'', package_id), (''parent_revision_identity'', p), (''content'', content)]))"

definition revision_identity :: "hostlib \<Rightarrow> json \<Rightarrow> string" where
  "revision_identity H revision = digest_of_object H revision"

definition candidate_digest :: "hostlib \<Rightarrow> json \<Rightarrow> string" where
  "candidate_digest H revision = revision_identity H revision"

definition missing_fields :: "string list \<Rightarrow> dict \<Rightarrow> string list" where
  "missing_fields fs d = filter (\<lambda>f. \<not> has_key d f) fs"

definition extra_fields :: "string list \<Rightarrow> dict \<Rightarrow> string list" where
  "extra_fields fs d = sort (filter (\<lambda>k. k \<notin> set fs) (remdups (dict_keys d)))"

definition check_fields :: "string list \<Rightarrow> string list \<Rightarrow> dict \<Rightarrow> revision_error + unit" where
  "check_fields required allowed d =
     bindE (ensure (missing_fields required d = []) (Revision_missing (missing_fields required d))) (\<lambda>_.
       ensure (extra_fields allowed d = []) (Revision_undeclared (extra_fields allowed d)))"

definition validate_revision :: "json \<Rightarrow> revision_error + unit" where
  "validate_revision revision = (case revision of
     JObj d \<Rightarrow>
       bindE (if has_key d ''content'' then check_fields REVISION_FIELDS REVISION_FIELDS d
          else check_fields [''package_id'', ''parent_revision_identity''] FROZEN_REVISION_FIELDS d) (\<lambda>_.
         if \<not> nonempty_str (dget d ''package_id'') then Inl Revision_package_id
         else let parent = dget d ''parent_revision_identity'' in
           if parent = JNull then Inr ()
           else bindE (mapErr Revision_parent (normalize_digest parent ''parent_revision_identity'')) (\<lambda>_. Inr ()))
   | _ \<Rightarrow> Inl Revision_not_mapping)"

definition is_genesis :: "dict \<Rightarrow> bool" where
  "is_genesis revision \<longleftrightarrow> dget revision ''parent_revision_identity'' = JNull"

definition revision_chain_digest :: "hostlib \<Rightarrow> json \<Rightarrow> string" where
  "revision_chain_digest H revision = revision_identity H revision"

section \<open>Operation records\<close>

definition OPERATION_FIELDS :: "string list" where
  "OPERATION_FIELDS = [''operation_id'', ''package_id'', ''original_parent'', ''candidate_revision'',
     ''candidate_digest'', ''status'', ''result_revision_identity'', ''recorded_at'']"

definition STATUS_PENDING :: string where "STATUS_PENDING = ''pending''"
definition STATUS_COMMITTED :: string where "STATUS_COMMITTED = ''committed''"
definition STATUS_REJECTED_CONTENT_MISMATCH :: string where
  "STATUS_REJECTED_CONTENT_MISMATCH = ''rejected-op-content-mismatch''"
definition STATUS_REJECTED_CONCURRENT :: string where
  "STATUS_REJECTED_CONCURRENT = ''rejected-op-concurrent''"

definition STATUSES :: "string list" where
  "STATUSES = [STATUS_PENDING, STATUS_COMMITTED, STATUS_REJECTED_CONTENT_MISMATCH, STATUS_REJECTED_CONCURRENT]"

lemmas status_defs = STATUS_PENDING_def STATUS_COMMITTED_def STATUS_REJECTED_CONTENT_MISMATCH_def
  STATUS_REJECTED_CONCURRENT_def STATUSES_def

text \<open>\<open>_TIMESTAMP_RE\<close>: the fixed part, an optional fraction, \<open>Z\<close>; used with \<open>match\<close>.\<close>

definition timestamp_re :: "string \<Rightarrow> bool" where
  "timestamp_re s \<longleftrightarrow>
     list_all2 (\<lambda>t c. if t = CHR ''d'' then is_digit c else c = t) ''dddd-dd-ddTdd:dd:dd'' (take 19 s) \<and>
     (case drop 19 s of
        [] \<Rightarrow> False
      | c # r \<Rightarrow> c = CHR ''Z'' \<and> r = [] \<or>
          c = CHR ''.'' \<and> 2 \<le> length r \<and> last r = CHR ''Z'' \<and> list_all is_digit (butlast r))"

datatype operation_error =
    Operation_not_mapping
  | Operation_undeclared "string list"
  | Operation_missing "string list"
  | Operation_empty string
  | Operation_status json
  | Operation_candidate_digest
  | Operation_result_not_candidate
  | Operation_result_not_null
  | Operation_recorded_at
  | Operation_revision revision_error
  | Operation_digest digest_error

definition validate_operation_record :: "hostlib \<Rightarrow> json \<Rightarrow> operation_error + unit" where
  "validate_operation_record H record = (case record of
     JObj d \<Rightarrow>
       bindE (ensure (extra_fields OPERATION_FIELDS d = [])
           (Operation_undeclared (extra_fields OPERATION_FIELDS d))) (\<lambda>_.
       bindE (ensure (missing_fields OPERATION_FIELDS d = [])
           (Operation_missing (missing_fields OPERATION_FIELDS d))) (\<lambda>_.
       bindE (forE (\<lambda>f. ensure (nonempty_str (dget d f)) (Operation_empty f)) [''operation_id'', ''package_id'']) (\<lambda>_.
       bindE (ensure (dget d ''status'' \<in> JStr ` set STATUSES) (Operation_status (dget d ''status''))) (\<lambda>_.
       bindE (mapErr Operation_revision (validate_revision (dget d ''candidate_revision''))) (\<lambda>_.
       let expected = candidate_digest H (dget d ''candidate_revision'');
           result = dget d ''result_revision_identity'' in
       bindE (ensure (dget d ''candidate_digest'' = JStr expected) Operation_candidate_digest) (\<lambda>_.
       bindE (if dget d ''status'' = JStr STATUS_COMMITTED
          then ensure (result = JStr expected) Operation_result_not_candidate
          else ensure (result = JNull) Operation_result_not_null) (\<lambda>_.
       bindE (if dget d ''original_parent'' = JNull then Inr ()
          else bindE (mapErr Operation_digest (normalize_digest (dget d ''original_parent'') ''original_parent''))
            (\<lambda>_. Inr ())) (\<lambda>_.
       ensure (case dget d ''recorded_at'' of JStr s \<Rightarrow> match_dollar timestamp_re s | _ \<Rightarrow> False)
         Operation_recorded_at))))))))
   | _ \<Rightarrow> Inl Operation_not_mapping)"

text \<open>\<open>recorded_at or _now()\<close>: an absent or empty argument takes the clock's value.\<close>

definition make_operation_record :: "hostlib \<Rightarrow> string \<Rightarrow> json \<Rightarrow> json \<Rightarrow> json \<Rightarrow> json \<Rightarrow> json \<Rightarrow> json \<Rightarrow> json
    \<Rightarrow> operation_error + dict" where
  "make_operation_record H now operation_id package_id original_parent candidate_revision status result recorded_at =
     (let record = [(''operation_id'', operation_id), (''package_id'', package_id),
          (''original_parent'', original_parent), (''candidate_revision'', candidate_revision),
          (''candidate_digest'', JStr (candidate_digest H candidate_revision)), (''status'', status),
          (''result_revision_identity'', result),
          (''recorded_at'', if truthy recorded_at then recorded_at else JStr now)]
      in bindE (validate_operation_record H (JObj record)) (\<lambda>_. Inr record))"

definition strip_scenario_metadata :: "dict \<Rightarrow> dict" where
  "strip_scenario_metadata d = map (\<lambda>f. (f, dget d f)) (filter (has_key d) OPERATION_FIELDS)"

definition operation_outcome_identity :: "dict \<Rightarrow> json" where
  "operation_outcome_identity d =
     (if dget d ''status'' = JStr STATUS_COMMITTED then dget d ''result_revision_identity'' else JNull)"

definition replay_result :: "dict \<Rightarrow> dict" where
  "replay_result d = [(''operation_id'', dget d ''operation_id''), (''replayed'', JBool True),
     (''result_revision_identity'', operation_outcome_identity d),
     (''candidate_digest'', dget d ''candidate_digest'')]"

section \<open>Lemmas\<close>

lemma missing_nil: "missing_fields fs d = [] \<longleftrightarrow> set fs \<subseteq> set (dict_keys d)"
  by (auto simp: missing_fields_def filter_empty_conv has_key_def)

lemma extra_nil: "extra_fields fs d = [] \<longleftrightarrow> set (dict_keys d) \<subseteq> set fs"
  by (simp only: set_empty [symmetric]) (auto simp: extra_fields_def)

lemma check_fields_Inr: "check_fields req al d = Inr u \<longleftrightarrow>
    set req \<subseteq> set (dict_keys d) \<and> set (dict_keys d) \<subseteq> set al"
  by (simp add: check_fields_def result_simps missing_nil extra_nil)

text \<open>What passes validation, as one condition.\<close>

lemma validate_revision_Inr: "validate_revision v = Inr u \<longleftrightarrow>
    (\<exists>d. v = JObj d \<and>
       (if has_key d ''content'' then keys_are d REVISION_FIELDS
        else {''package_id'', ''parent_revision_identity''} \<subseteq> set (dict_keys d) \<and>
          set (dict_keys d) \<subseteq> set FROZEN_REVISION_FIELDS) \<and>
       nonempty_str (dget d ''package_id'') \<and>
       (is_genesis d \<or> (\<exists>p. normalize_digest (dget d ''parent_revision_identity'') ''parent_revision_identity'' = Inr p)))"
  by (cases v)
    (auto simp: validate_revision_def result_simps check_fields_Inr keys_are_def is_genesis_def Let_def)

lemma build_revision_valid:
  "build_revision package_id content parent = Inr d \<Longrightarrow> validate_revision (JObj d) = Inr ()"
  by (auto simp: build_revision_def result_simps validate_revision_Inr has_key_def dict_keys_def
      keys_are_def REVISION_FIELDS_def is_genesis_def dget_def normalize_digest_idem split: if_splits)

lemma make_operation_record_Inr:
  "make_operation_record H now oid pid par cand st res rec = Inr d \<Longrightarrow>
     dget d ''operation_id'' = oid \<and> dget d ''package_id'' = pid \<and> dget d ''original_parent'' = par \<and>
     dget d ''candidate_revision'' = cand \<and> dget d ''candidate_digest'' = JStr (candidate_digest H cand) \<and>
     dget d ''status'' = st \<and> dget d ''result_revision_identity'' = res \<and>
     map fst d = OPERATION_FIELDS \<and> validate_operation_record H (JObj d) = Inr ()"
  by (auto simp: make_operation_record_def Let_def result_simps dget_def OPERATION_FIELDS_def)

end
