(* ===== verification/Decision_Slot.thy ===== *)
theory Decision_Slot
  imports Packaging_Records
begin

text \<open>
  \<open>widget_contract/product_packaging/decision_slot.py\<close>: a slot with a head that moves by
  compare-and-set, re-delivery of what was already committed, and supersession. The state is
  the class's three attributes; \<open>seen\<close> is the dict from identity to committed record.
\<close>

definition OUTCOME_ACCEPTED :: string where "OUTCOME_ACCEPTED = ''accepted''"
definition OUTCOME_REJECTED :: string where "OUTCOME_REJECTED = ''rejected''"
definition OUTCOME_LOST_CAS :: string where "OUTCOME_LOST_CAS = ''lost-CAS''"
definition SLOT_REDELIVERY :: string where "SLOT_REDELIVERY = ''re-delivery''"
definition OUTCOME_STALE :: string where "OUTCOME_STALE = ''stale''"

lemmas slot_outcome_defs = OUTCOME_ACCEPTED_def OUTCOME_REJECTED_def OUTCOME_LOST_CAS_def
  SLOT_REDELIVERY_def OUTCOME_STALE_def

datatype slot_error =
    Slot_package_id
  | Slot_scope
  | Slot_missing "string list"
  | Slot_verdict
  | Slot_operator
  | Slot_key_mismatch
  | Slot_digest digest_error

definition decision_key :: "hostlib \<Rightarrow> json \<Rightarrow> json \<Rightarrow> json \<Rightarrow> slot_error + string" where
  "decision_key H package_id revision_digest decision_scope =
     (if \<not> nonempty_str package_id then Inl Slot_package_id
      else if \<not> nonempty_str decision_scope then Inl Slot_scope
      else bindE (mapErr Slot_digest (normalize_digest revision_digest ''revision_digest'')) (\<lambda>stripped.
        Inr (sha256_hex H (canonical_array H [package_id, JStr stripped, decision_scope]))))"

definition decision_identity_fields :: "dict \<Rightarrow> dict" where
  "decision_identity_fields record = filter (\<lambda>kv. fst kv \<notin> {''recorded_at'', ''outcome''}) record"

definition normalize_operand :: "string \<Rightarrow> dict \<Rightarrow> digest_error + dict" where
  "normalize_operand operand d = (case dget d operand of
     JStr s \<Rightarrow> bindE (normalize_digest (JStr s) operand) (\<lambda>n. Inr (dset operand (JStr n) d))
   | _ \<Rightarrow> Inr d)"

definition decision_record_identity :: "hostlib \<Rightarrow> dict \<Rightarrow> digest_error + string" where
  "decision_record_identity H record =
     bindE (normalize_operand ''revision_digest'' (decision_identity_fields record)) (\<lambda>d.
     bindE (normalize_operand ''supersedes'' d) (\<lambda>d'. Inr (digest_of_object H (JObj d'))))"

definition DECISION_FIELDS :: "string list" where
  "DECISION_FIELDS = [''decision_key'', ''decision_scope'', ''operator'', ''package_id'',
     ''revision_digest'', ''supersedes'', ''verdict'']"

definition decided :: "json \<Rightarrow> bool" where
  "decided v \<longleftrightarrow> v = JStr OUTCOME_ACCEPTED \<or> v = JStr OUTCOME_REJECTED"

definition validate_decision_record :: "hostlib \<Rightarrow> dict \<Rightarrow> slot_error + unit" where
  "validate_decision_record H r =
     bindE (ensure (missing_fields DECISION_FIELDS r = []) (Slot_missing (missing_fields DECISION_FIELDS r))) (\<lambda>_.
     bindE (ensure (nonempty_str (dget r ''decision_scope'')) Slot_scope) (\<lambda>_.
     bindE (ensure (decided (dget r ''verdict'')) Slot_verdict) (\<lambda>_.
     bindE (mapErr Slot_digest (normalize_digest (dget r ''revision_digest'') ''revision_digest'')) (\<lambda>_.
     bindE (if dget r ''supersedes'' = JNull then Inr []
        else mapErr Slot_digest (normalize_digest (dget r ''supersedes'') ''supersedes'')) (\<lambda>_.
     bindE (decision_key H (dget r ''package_id'') (dget r ''revision_digest'') (dget r ''decision_scope'')) (\<lambda>k.
     ensure (dget r ''decision_key'' = JStr k) Slot_key_mismatch))))))"

definition build_decision_record :: "hostlib \<Rightarrow> json \<Rightarrow> json \<Rightarrow> json \<Rightarrow> json \<Rightarrow> json \<Rightarrow> json \<Rightarrow> json
    \<Rightarrow> slot_error + dict" where
  "build_decision_record H package_id revision_digest decision_scope operator verdict supersedes recorded_at =
     bindE (ensure (decided verdict) Slot_verdict) (\<lambda>_.
     bindE (ensure (nonempty_str operator) Slot_operator) (\<lambda>_.
     bindE (decision_key H package_id revision_digest decision_scope) (\<lambda>k.
     bindE (mapErr Slot_digest (normalize_digest revision_digest ''revision_digest'')) (\<lambda>r.
     bindE (if supersedes = JNull then Inr JNull
        else bindE (mapErr Slot_digest (normalize_digest supersedes ''supersedes'')) (\<lambda>s. Inr (JStr s))) (\<lambda>s.
     let record = [(''package_id'', package_id), (''decision_key'', JStr k), (''revision_digest'', JStr r),
           (''decision_scope'', decision_scope), (''operator'', operator), (''verdict'', verdict),
           (''supersedes'', s)] @ (if recorded_at = JNull then [] else [(''recorded_at'', recorded_at)])
     in bindE (validate_decision_record H record) (\<lambda>_. Inr record))))))"

section \<open>The slot\<close>

record slot =
  slot_records :: "dict list"
  slot_head :: "string option"
  seen_identities :: "(string \<times> dict) list"

definition new_slot :: slot where
  "new_slot = \<lparr>slot_records = [], slot_head = None, seen_identities = []\<rparr>"

definition head_json :: "string option \<Rightarrow> json" where
  "head_json h = (case h of None \<Rightarrow> JNull | Some s \<Rightarrow> JStr s)"

definition render :: "dict \<Rightarrow> string \<Rightarrow> json \<Rightarrow> string option \<Rightarrow> dict \<Rightarrow> dict" where
  "render record ident outcome head extra =
     [(''decision_key'', dget record ''decision_key''), (''decision_record_identity'', JStr ident),
      (''verdict'', dget record ''verdict''), (''outcome'', outcome), (''head'', head_json head),
      (''governing'', JBool (decided outcome \<or> outcome = JStr SLOT_REDELIVERY)),
      (''stale'', JBool (outcome = JStr OUTCOME_STALE))] @ extra"

definition slot_deliver :: "hostlib \<Rightarrow> dict \<Rightarrow> slot \<Rightarrow> digest_error + dict \<times> slot" where
  "slot_deliver H record st =
     bindE (decision_record_identity H record) (\<lambda>content_key.
     case map_of (seen_identities st) content_key of
       Some _ \<Rightarrow>
         if slot_head st = Some content_key
           then Inr (render record content_key (JStr SLOT_REDELIVERY) (slot_head st) [(''superseded_by'', JNull)], st)
         else Inr (render record content_key (JStr OUTCOME_STALE) (slot_head st)
                [(''superseded_by'', head_json (slot_head st))], st)
     | None \<Rightarrow>
         let expected = dget record ''supersedes'' in
         if head_json (slot_head st) \<noteq> expected
           then Inr (render record content_key (JStr OUTCOME_LOST_CAS) (slot_head st)
                  [(''expected_head'', expected)], st)
         else let st' = \<lparr>slot_records = slot_records st @ [record], slot_head = Some content_key,
                seen_identities = AList.update content_key record (seen_identities st)\<rparr>
           in Inr (render record content_key (dget record ''verdict'') (slot_head st') [], st'))"

definition deliver :: "hostlib \<Rightarrow> dict \<Rightarrow> slot \<Rightarrow> slot_error + dict \<times> slot" where
  "deliver H record st =
     bindE (validate_decision_record H record) (\<lambda>_. mapErr Slot_digest (slot_deliver H record st))"

definition propose :: "hostlib \<Rightarrow> json \<Rightarrow> json \<Rightarrow> json \<Rightarrow> json \<Rightarrow> json \<Rightarrow> json \<Rightarrow> json \<Rightarrow> slot
    \<Rightarrow> slot_error + dict \<times> slot" where
  "propose H package_id revision_digest decision_scope verdict supersedes recorded_at operator st =
     bindE (build_decision_record H package_id revision_digest decision_scope operator verdict supersedes recorded_at)
       (\<lambda>record. mapErr Slot_digest (slot_deliver H record st))"

definition committed_identities :: "hostlib \<Rightarrow> slot \<Rightarrow> digest_error + string list" where
  "committed_identities H st =
     mapE (decision_record_identity H) (filter (\<lambda>r. decided (dget r ''verdict'')) (slot_records st))"

section \<open>Lemmas: identities\<close>

lemma dget_fields: "k \<notin> {''recorded_at'', ''outcome''} \<Longrightarrow> dget (decision_identity_fields r) k = dget r k"
  by (induction r) (auto simp: decision_identity_fields_def dget_def)

lemma normalize_operand_str:
  "normalize_digest (dget d k) k = Inr n \<Longrightarrow> normalize_operand k d = Inr (dset k (JStr n) d)"
  by (auto simp: normalize_operand_def normalize_digest_Inr split: json.splits)
    (auto simp: result_simps normalize_digest_Inr)

lemma normalize_operand_null: "dget d k = JNull \<Longrightarrow> normalize_operand k d = Inr d"
  by (simp add: normalize_operand_def)

lemma validate_operands:
  assumes "validate_decision_record H r = Inr ()"
  shows "\<exists>n. normalize_digest (dget r ''revision_digest'') ''revision_digest'' = Inr n"
    "dget r ''supersedes'' = JNull \<or> (\<exists>n. normalize_digest (dget r ''supersedes'') ''supersedes'' = Inr n)"
    "decided (dget r ''verdict'')"
  using assms by (auto simp: validate_decision_record_def result_simps split: if_splits)

lemma identity_total:
  assumes "validate_decision_record H r = Inr ()"
  obtains c where "decision_record_identity H r = Inr c"
proof -
  obtain n where "normalize_digest (dget r ''revision_digest'') ''revision_digest'' = Inr n"
    using validate_operands(1) [OF assms] by blast
  then have d: "normalize_operand ''revision_digest'' (decision_identity_fields r)
      = Inr (dset ''revision_digest'' (JStr n) (decision_identity_fields r))" (is "_ = Inr ?d")
    by (intro normalize_operand_str) (simp add: dget_fields)
  have s: "dget ?d ''supersedes'' = dget r ''supersedes''" by (simp add: dget_fields)
  have "\<exists>d'. normalize_operand ''supersedes'' ?d = Inr d'"
    using validate_operands(2) [OF assms] normalize_operand_str [of ?d "''supersedes''"]
      normalize_operand_null [of ?d "''supersedes''"] unfolding s by blast
  then show ?thesis using that d by (auto simp: decision_record_identity_def)
qed

text \<open>The identity ignores the volatile fields.\<close>

lemma identity_recorded_at:
  "k \<in> {''recorded_at'', ''outcome''} \<Longrightarrow>
     decision_record_identity H (dset k v r) = decision_record_identity H r"
proof -
  assume k: "k \<in> {''recorded_at'', ''outcome''}"
  have "decision_identity_fields (AList.update k v r) = decision_identity_fields r"
    using k by (induction r) (auto simp: decision_identity_fields_def)
  then show ?thesis by (simp add: decision_record_identity_def dset_def)
qed

section \<open>Lemmas: one delivery\<close>

definition record_id :: "hostlib \<Rightarrow> dict \<Rightarrow> string" where
  "record_id H r = (case decision_record_identity H r of Inr c \<Rightarrow> c | Inl _ \<Rightarrow> [])"

lemma identity_valid: "validate_decision_record H r = Inr () \<Longrightarrow> decision_record_identity H r = Inr (record_id H r)"
  by (erule identity_total) (simp add: record_id_def)

lemma render_outcome [simp]: "dget (render r c out h ex) ''outcome'' = out"
  by (simp add: render_def dget_def)

definition commit :: "hostlib \<Rightarrow> dict \<Rightarrow> slot \<Rightarrow> slot" where
  "commit H r st = \<lparr>slot_records = slot_records st @ [r], slot_head = Some (record_id H r),
     seen_identities = AList.update (record_id H r) r (seen_identities st)\<rparr>"

lemma deliver_valid:
  assumes "validate_decision_record H r = Inr ()"
  shows "deliver H r st =
    (let c = record_id H r in
     if map_of (seen_identities st) c \<noteq> None
       then if slot_head st = Some c
         then Inr (render r c (JStr SLOT_REDELIVERY) (slot_head st) [(''superseded_by'', JNull)], st)
         else Inr (render r c (JStr OUTCOME_STALE) (slot_head st) [(''superseded_by'', head_json (slot_head st))], st)
     else if head_json (slot_head st) \<noteq> dget r ''supersedes''
       then Inr (render r c (JStr OUTCOME_LOST_CAS) (slot_head st) [(''expected_head'', dget r ''supersedes'')], st)
     else Inr (render r c (dget r ''verdict'') (Some c) [], commit H r st))"
  by (auto simp: deliver_def assms slot_deliver_def identity_valid [OF assms] commit_def Let_def
      split: option.splits)

lemma deliver_Inr: "deliver H r st = Inr x \<Longrightarrow> validate_decision_record H r = Inr ()"
  by (auto simp: deliver_def result_simps)

text \<open>\<open>propose\<close> is a delivery of the record it builds.\<close>

lemma propose_deliver:
  "propose H p rd sc v su ra op st =
     bindE (build_decision_record H p rd sc op v su ra) (\<lambda>r. deliver H r st)"
proof (cases "build_decision_record H p rd sc op v su ra")
  case (Inr r)
  then have "validate_decision_record H r = Inr ()"
    by (auto simp: build_decision_record_def result_simps Let_def)
  then show ?thesis by (simp add: propose_def Inr deliver_def)
qed (simp add: propose_def)

definition slot_op :: "hostlib \<Rightarrow> dict \<Rightarrow> slot \<Rightarrow> slot" where
  "slot_op H r st = (case deliver H r st of Inr (_, st') \<Rightarrow> st' | Inl _ \<Rightarrow> st)"

text \<open>A delivery commits: the only way the slot changes.\<close>

definition commits :: "hostlib \<Rightarrow> dict \<Rightarrow> slot \<Rightarrow> bool" where
  "commits H r st \<longleftrightarrow> validate_decision_record H r = Inr () \<and>
     map_of (seen_identities st) (record_id H r) = None \<and> head_json (slot_head st) = dget r ''supersedes''"

lemma slot_op_eq: "slot_op H r st = (if commits H r st then commit H r st else st)"
proof (cases "validate_decision_record H r")
  case (Inl e)
  then show ?thesis by (simp add: slot_op_def deliver_def commits_def)
next
  case (Inr u)
  then have v: "validate_decision_record H r = Inr ()" by simp
  show ?thesis by (auto simp: slot_op_def deliver_valid [OF v] commits_def v Let_def)
qed

section \<open>Lemmas: histories\<close>

text \<open>
  The committed records form one chain: the first supersedes nothing, each later one names the
  identity of the record before it; the head is the last identity; no identity occurs twice.
\<close>

definition slot_inv :: "hostlib \<Rightarrow> slot \<Rightarrow> bool" where
  "slot_inv H st \<longleftrightarrow>
     (let rs = slot_records st; ids = map (record_id H) rs in
      slot_head st = (if rs = [] then None else Some (last ids)) \<and> distinct ids \<and>
      seen_identities st = zip ids rs \<and>
      (\<forall>r\<in>set rs. validate_decision_record H r = Inr ()) \<and>
      (\<forall>j<length rs. dget (rs ! j) ''supersedes'' = (if j = 0 then JNull else JStr (ids ! (j - 1)))))"

lemma slot_inv_new: "slot_inv H new_slot"
  by (simp add: slot_inv_def new_slot_def)

lemma slot_inv_commit:
  assumes inv: "slot_inv H st" and c: "commits H r st"
  shows "slot_inv H (commit H r st)"
proof -
  let ?rs = "slot_records st" and ?ids = "map (record_id H) (slot_records st)"
  have "map fst (seen_identities st) = ?ids" using inv by (simp add: slot_inv_def Let_def)
  then have n: "record_id H r \<notin> set ?ids"
    using c by (simp add: commits_def map_of_eq_None_iff flip: set_map)
  have s: "dget r ''supersedes'' = (if ?rs = [] then JNull else JStr (last ?ids))"
    using c inv by (auto simp: commits_def slot_inv_def Let_def head_json_def)
  have "dget ((?rs @ [r]) ! j) ''supersedes'' =
      (if j = 0 then JNull else JStr ((?ids @ [record_id H r]) ! (j - 1)))" if "j < Suc (length ?rs)" for j
    using that inv s
    by (cases "j = length ?rs") (auto simp: slot_inv_def Let_def nth_append last_conv_nth)
  then show ?thesis
    using inv n c
    by (auto simp: slot_inv_def commit_def Let_def update_fresh commits_def)
qed

interpretation slot_chain: invariant_machine "slot_op H" "slot_inv H" "\<lambda>_. True" for H
  by unfold_locales (simp add: slot_op_eq slot_inv_commit)

interpretation slot_gate: one_shot_gate "slot_op H" "\<lambda>st. map_of (seen_identities st)" "commits H" "record_id H" for H
  by unfold_locales (auto simp: slot_op_eq commit_def commits_def update_conv)

section \<open>Lemmas: prefixed operands\<close>

lemma identity_fields_dset: "decision_identity_fields (dset ''supersedes'' v r) = dset ''supersedes'' v (decision_identity_fields r)"
  unfolding decision_identity_fields_def by (rule filter_dset) simp

lemma identity_supersedes:
  assumes v: "validate_decision_record H r = Inr ()" and s: "dget r ''supersedes'' = JStr (SHA256_PREFIX @ h)"
    and h: "match_dollar hex64 h"
  shows "decision_record_identity H (dset ''supersedes'' (JStr h) r) = decision_record_identity H r"
proof -
  let ?F = "decision_identity_fields r"
  obtain n where n: "normalize_digest (dget r ''revision_digest'') ''revision_digest'' = Inr n"
    using validate_operands(1) [OF v] by blast
  have k: "''supersedes'' \<in> set (map fst ?F)"
    using dget_in_keys [of ?F "''supersedes''"] s by (simp add: dget_fields)
  have "normalize_operand ''revision_digest'' (dset ''supersedes'' (JStr h) ?F)
      = Inr (dset ''revision_digest'' (JStr n) (dset ''supersedes'' (JStr h) ?F))"
    "normalize_operand ''revision_digest'' ?F = Inr (dset ''revision_digest'' (JStr n) ?F)"
    using n by (auto intro!: normalize_operand_str simp: dget_fields)
  moreover have "normalize_operand ''supersedes'' (dset ''revision_digest'' (JStr n) (dset ''supersedes'' (JStr h) ?F))
      = Inr (dset ''supersedes'' (JStr h) (dset ''revision_digest'' (JStr n) (dset ''supersedes'' (JStr h) ?F)))"
    "normalize_operand ''supersedes'' (dset ''revision_digest'' (JStr n) ?F)
      = Inr (dset ''supersedes'' (JStr h) (dset ''revision_digest'' (JStr n) ?F))"
    using s h by (auto intro!: normalize_operand_str simp: dget_fields normalize_digest_Inr)
  ultimately show ?thesis
    by (simp add: decision_record_identity_def identity_fields_dset dset_dset_other [OF _ k])
qed

lemma validate_supersedes:
  assumes "validate_decision_record H r = Inr ()" "normalize_digest w ''supersedes'' = Inr h"
  shows "validate_decision_record H (dset ''supersedes'' w r) = Inr ()"
  using assms
  by (auto simp: validate_decision_record_def result_simps missing_nil dict_keys_dset normalize_digest_Inr)

text \<open>Building a record succeeds on non-empty names, a decided verdict and valid digests.\<close>

lemma build_decision_ok:
  assumes "decided v" "nonempty_str op" "nonempty_str p" "nonempty_str sc"
    "normalize_digest rd ''revision_digest'' = Inr n" "su = JNull \<or> (\<exists>m. normalize_digest su ''supersedes'' = Inr m)"
  obtains r where "build_decision_record H p rd sc op v su JNull = Inr r"
    "dget r ''supersedes'' = (case normalize_digest su ''supersedes'' of Inr m \<Rightarrow> JStr m | Inl _ \<Rightarrow> JNull)"
    "validate_decision_record H r = Inr ()"
proof -
  obtain m where m: "if su = JNull then m = JNull else \<exists>t. normalize_digest su ''supersedes'' = Inr t \<and> m = JStr t"
    using assms(6) by (cases "su = JNull") auto
  obtain k where k: "decision_key H p rd sc = Inr k" "decision_key H p (JStr n) sc = Inr k"
    using assms normalize_digest_idem by (fastforce simp: decision_key_def)
  let ?r = "[(''package_id'', p), (''decision_key'', JStr k), (''revision_digest'', JStr n),
    (''decision_scope'', sc), (''operator'', op), (''verdict'', v), (''supersedes'', m)]"
  have g: "dget ?r ''package_id'' = p" "dget ?r ''decision_key'' = JStr k" "dget ?r ''revision_digest'' = JStr n"
    "dget ?r ''decision_scope'' = sc" "dget ?r ''verdict'' = v" "dget ?r ''supersedes'' = m"
    "missing_fields DECISION_FIELDS ?r = []"
    by (simp_all add: dget_def missing_fields_def DECISION_FIELDS_def has_key_def dict_keys_def)
  have v: "validate_decision_record H ?r = Inr ()"
    unfolding validate_decision_record_def g
    using assms m k normalize_digest_idem by (fastforce simp: result_simps split: if_splits)
  have "build_decision_record H p rd sc op v su JNull = Inr ?r"
    using assms(1-5) m k v by (auto simp: build_decision_record_def Let_def split: if_splits)
  moreover have "m = (case normalize_digest su ''supersedes'' of Inr m \<Rightarrow> JStr m | Inl _ \<Rightarrow> JNull)"
    using m by (auto simp: normalize_digest_def split: if_splits)
  ultimately show ?thesis using that g(6) v by metis
qed

section \<open>Guarantees\<close>

text \<open>C27: after any history of deliveries, accepted or not, the committed records of a slot form
  one chain. The first supersedes nothing, every later one names the identity of its
  predecessor, the head is the identity of the last, and no identity is committed twice.\<close>

theorem decision_slot_chain:
  "let st = run (slot_op H) rs new_slot; ids = map (record_id H) (slot_records st) in
     distinct ids \<and> committed_identities H st = Inr ids \<and>
     slot_head st = (if ids = [] then None else Some (last ids)) \<and>
     (\<forall>j<length ids. dget (slot_records st ! j) ''supersedes'' = (if j = 0 then JNull else JStr (ids ! (j - 1))))"
proof -
  let ?st = "run (slot_op H) rs new_slot"
  have inv: "slot_inv H ?st"
    by (rule slot_chain.run_inv [OF slot_inv_new]) (simp add: list_all_iff)
  then have valid: "\<forall>r\<in>set (slot_records ?st). validate_decision_record H r = Inr ()"
    by (simp add: slot_inv_def Let_def)
  then have "filter (\<lambda>r. decided (dget r ''verdict'')) (slot_records ?st) = slot_records ?st"
    by (auto simp: filter_id_conv dest: validate_operands(3))
  then have "committed_identities H ?st = Inr (map (record_id H) (slot_records ?st))"
    using valid by (simp add: committed_identities_def mapE_Inr list_all2_conv_all_nth identity_valid)
  then show ?thesis using inv by (auto simp: slot_inv_def Let_def)
qed

text \<open>What a delivery answers. A committed content is a re-delivery while it is the head and
  stale afterwards, whatever its time stamp, and changes nothing; a new record commits exactly
  when the head is the one it supersedes, and otherwise the answer is lost-CAS and nothing changes.\<close>

theorem decision_slot_outcomes:
  assumes v: "validate_decision_record H r = Inr ()"
  shows "\<exists>d st'. deliver H r st = Inr (d, st') \<and>
    dget d ''outcome'' =
      (if map_of (seen_identities st) (record_id H r) \<noteq> None
         then JStr (if slot_head st = Some (record_id H r) then SLOT_REDELIVERY else OUTCOME_STALE)
       else if head_json (slot_head st) = dget r ''supersedes'' then dget r ''verdict''
       else JStr OUTCOME_LOST_CAS) \<and>
    (decided (dget d ''outcome'') \<longleftrightarrow> st' \<noteq> st) \<and>
    (decided (dget d ''outcome'') \<longrightarrow> slot_head st' = Some (record_id H r) \<and>
       slot_records st' = slot_records st @ [r])"
proof -
  have u: "\<not> decided (JStr SLOT_REDELIVERY)" "\<not> decided (JStr OUTCOME_STALE)" "\<not> decided (JStr OUTCOME_LOST_CAS)"
    by (simp_all add: decided_def slot_outcome_defs)
  have "commit H r st \<noteq> st"
    by (metis append_self_conv commit_def not_Cons_self2 slot.select_convs(1))
  then show ?thesis
    using validate_operands(3) [OF v] by (simp add: deliver_valid [OF v] Let_def u commit_def)
qed

text \<open>prefix tolerance does not reach the compare-and-set. A delivered record that names the
  current head with the \<open>sha256:\<close> prefix has the same content identity as the record that
  names it bare, and the bare one would be committed, but the prefixed one loses the
  compare-and-set: the comparison uses the operand as it was supplied.\<close>

theorem decision_slot_prefixed_head_loses:
  assumes v: "validate_decision_record H r = Inr ()" and h: "slot_head st = Some h" "match_dollar hex64 h"
    and s: "dget r ''supersedes'' = JStr (SHA256_PREFIX @ h)"
    and n: "map_of (seen_identities st) (record_id H r) = None"
  shows "record_id H (dset ''supersedes'' (JStr h) r) = record_id H r \<and>
    commits H (dset ''supersedes'' (JStr h) r) st \<and>
    (\<exists>d. deliver H r st = Inr (d, st) \<and> dget d ''outcome'' = JStr OUTCOME_LOST_CAS)"
proof (intro conjI)
  have i: "decision_record_identity H (dset ''supersedes'' (JStr h) r) = decision_record_identity H r"
    by (rule identity_supersedes [OF v s h(2)])
  then show "record_id H (dset ''supersedes'' (JStr h) r) = record_id H r" by (simp add: record_id_def)
  then show "commits H (dset ''supersedes'' (JStr h) r) st"
    using validate_supersedes [OF v, of "JStr h" h] n h by (simp add: commits_def head_json_def normalize_digest_Inr)
  show "\<exists>d. deliver H r st = Inr (d, st) \<and> dget d ''outcome'' = JStr OUTCOME_LOST_CAS"
    using n h(1) by (simp add: deliver_valid [OF v] s head_json_def SHA256_PREFIX_def Let_def)
qed

text \<open>A record to apply the theorems to.\<close>

lemma sample_decision:
  obtains r where "validate_decision_record H r = Inr ()" "dget r ''supersedes'' = JStr (SHA256_PREFIX @ sample_digest)"
proof -
  have "normalize_digest (JStr sample_digest) f = Inr sample_digest" for f
    by (simp add: sample_digest_hex)
  then obtain r where "validate_decision_record H r = Inr ()"
    by (rule build_decision_ok [of "JStr OUTCOME_ACCEPTED" "JStr ''o''" "JStr ''p''" "JStr ''s''"
        "JStr sample_digest" _ JNull H, rotated 4]) (simp_all add: decided_def nonempty_str_def)
  then have "validate_decision_record H (dset ''supersedes'' (JStr (SHA256_PREFIX @ sample_digest)) r) = Inr ()"
    by (rule validate_supersedes [where h = sample_digest])
      (simp add: normalize_digest_Inr match_dollar_body sample_digest_hex)
  then show ?thesis by (rule that) simp
qed

theorem decision_slot_outcomes_witness:
  "\<exists>r d. validate_decision_record sample_lib r = Inr () \<and>
     (\<exists>st'. deliver sample_lib r new_slot = Inr (d, st')) \<and> dget d ''outcome'' = JStr OUTCOME_LOST_CAS"
proof (rule sample_decision [of sample_lib])
  fix r
  assume r: "validate_decision_record sample_lib r = Inr ()"
    "dget r ''supersedes'' = JStr (SHA256_PREFIX @ sample_digest)"
  from decision_slot_outcomes [OF r(1), of new_slot] r show ?thesis
    by (auto simp: new_slot_def head_json_def)
qed

theorem decision_slot_prefixed_head_loses_witness:
  "\<exists>r d. commits sample_lib (dset ''supersedes'' (JStr sample_digest) r) (new_slot\<lparr>slot_head := Some sample_digest\<rparr>) \<and>
     deliver sample_lib r (new_slot\<lparr>slot_head := Some sample_digest\<rparr>) =
       Inr (d, new_slot\<lparr>slot_head := Some sample_digest\<rparr>) \<and> dget d ''outcome'' = JStr OUTCOME_LOST_CAS"
proof (rule sample_decision [of sample_lib])
  fix r
  assume r: "validate_decision_record sample_lib r = Inr ()"
    "dget r ''supersedes'' = JStr (SHA256_PREFIX @ sample_digest)"
  let ?st = "new_slot\<lparr>slot_head := Some sample_digest\<rparr>"
  have "slot_head ?st = Some sample_digest" "match_dollar hex64 sample_digest"
    "map_of (seen_identities ?st) (record_id sample_lib r) = None"
    by (simp_all add: new_slot_def match_dollar_body sample_digest_hex)
  from decision_slot_prefixed_head_loses [OF r(1) this(1,2) r(2) this(3)] show ?thesis by blast
qed

theorem decision_slot_chain_witness:
  "\<exists>r. slot_records (run (slot_op sample_lib) [r] new_slot) = [r] \<and>
     committed_identities sample_lib (run (slot_op sample_lib) [r] new_slot) = Inr [record_id sample_lib r]"
proof -
  have n: "normalize_digest (JStr sample_digest) f = Inr sample_digest" for f by (simp add: sample_digest_hex)
  obtain r where r: "validate_decision_record sample_lib r = Inr ()" "dget r ''supersedes'' = JNull"
    by (rule build_decision_ok [of "JStr OUTCOME_ACCEPTED" "JStr ''o''" "JStr ''p''" "JStr ''s''"
        "JStr sample_digest" sample_digest JNull sample_lib])
      (use n in \<open>auto simp: decided_def nonempty_str_def normalize_digest_def\<close>)
  then have "slot_records (run (slot_op sample_lib) [r] new_slot) = [r]"
    by (simp add: slot_op_eq commits_def commit_def new_slot_def head_json_def)
  with decision_slot_chain [of sample_lib "[r]"] show ?thesis by (auto simp: Let_def simp del: run_simps)
qed

end
