(* ===== verification/Evidence_Store.thy ===== *)
theory Evidence_Store
  imports Packaging_Records
begin

text \<open>
  \<open>widget_contract/product_packaging/evidence_store.py\<close>: evidence entries keyed by an
  idempotency key, with insert-if-absent outcomes. The state is the dict from key to entry,
  in insertion order.
\<close>

definition REQUEST_BINDING_MISMATCH :: string where
  "REQUEST_BINDING_MISMATCH = ''EV-REQUEST_BINDING_MISMATCH''"
definition EVIDENCE_REDELIVERY :: string where "EVIDENCE_REDELIVERY = ''re-delivery''"
definition EVIDENCE_CONFLICT :: string where "EVIDENCE_CONFLICT = ''conflict''"
definition OUTCOME_NEW_VERSION :: string where "OUTCOME_NEW_VERSION = ''new-evidence-version''"

lemmas evidence_outcome_defs = EVIDENCE_REDELIVERY_def EVIDENCE_CONFLICT_def OUTCOME_NEW_VERSION_def

datatype evidence_error =
    Evidence_not_string string
  | Evidence_doubled_prefix string
  | Evidence_not_hex64 string
  | Evidence_entry_id
  | Evidence_binding_mismatch
  | Evidence_missing "string list"
  | Evidence_payload_not_string

definition normalize_request_digest :: "json \<Rightarrow> string \<Rightarrow> evidence_error + string" where
  "normalize_request_digest value fld = (case value of
     JStr s \<Rightarrow>
       (let stripped = strip_prefix s in
        if startswith s SHA256_PREFIX \<and> startswith stripped SHA256_PREFIX then Inl (Evidence_doubled_prefix fld)
        else if \<not> match_dollar hex64 stripped then Inl (Evidence_not_hex64 fld)
        else Inr stripped)
   | _ \<Rightarrow> Inl (Evidence_not_string fld))"

definition evidence_idempotency_key :: "hostlib \<Rightarrow> json \<Rightarrow> json \<Rightarrow> evidence_error + string" where
  "evidence_idempotency_key H request_id entry_id =
     (if \<not> nonempty_str entry_id then Inl Evidence_entry_id
      else bindE (normalize_request_digest request_id ''request_id'') (\<lambda>stripped.
        Inr (sha256_hex H (canonical_array H [JStr stripped, entry_id]))))"

definition check_request_binding :: "json \<Rightarrow> json \<Rightarrow> evidence_error + unit" where
  "check_request_binding envelope_request_id payload_digest =
     (if \<not> py_eq envelope_request_id payload_digest then Inl Evidence_binding_mismatch else Inr ())"

definition validate_evidence_request :: "dict \<Rightarrow> evidence_error + unit" where
  "validate_evidence_request r =
     bindE (ensure (missing_fields [''entry_id'', ''payload_digest'', ''request_id''] r = [])
       (Evidence_missing (missing_fields [''entry_id'', ''payload_digest'', ''request_id''] r))) (\<lambda>_.
     bindE (normalize_request_digest (dget r ''request_id'') ''request_id'') (\<lambda>_.
     bindE (ensure (is_str (dget r ''payload_digest'')) Evidence_payload_not_string) (\<lambda>_.
     ensure (nonempty_str (dget r ''entry_id'')) Evidence_entry_id)))"

type_synonym evidence_entries = "(string \<times> dict) list"

definition evidence_append :: "hostlib \<Rightarrow> dict \<Rightarrow> evidence_entries \<Rightarrow> evidence_error + dict \<times> evidence_entries" where
  "evidence_append H r st =
     bindE (validate_evidence_request r) (\<lambda>_.
     bindE (evidence_idempotency_key H (dget r ''request_id'') (dget r ''entry_id'')) (\<lambda>key.
     bindE (normalize_request_digest (dget r ''payload_digest'') ''payload_digest'') (\<lambda>payload.
     bindE (normalize_request_digest (dget r ''request_id'') ''request_id'') (\<lambda>req.
     let entry = [(''idempotency_key'', JStr key), (''request_id'', JStr req),
           (''entry_id'', dget r ''entry_id''), (''payload_digest'', JStr payload)];
         answer = (\<lambda>outcome appended. [(''outcome'', JStr outcome), (''appended'', JBool appended),
           (''idempotency_key'', JStr key), (''entry_id'', dget r ''entry_id''), (''payload_digest'', JStr payload)])
     in case map_of st key of
          None \<Rightarrow> Inr (answer OUTCOME_NEW_VERSION True, AList.update key entry st)
        | Some existing \<Rightarrow>
            if dget existing ''payload_digest'' = JStr payload
              then Inr (answer EVIDENCE_REDELIVERY False, st)
            else Inr (answer EVIDENCE_CONFLICT False @
                [(''existing_payload_digest'', dget existing ''payload_digest'')], st)))))"

definition evidence_list :: "evidence_entries \<Rightarrow> dict list" where
  "evidence_list st = map snd st"

section \<open>Lemmas\<close>

text \<open>The normalisation is the one of \<open>_digest.py\<close>, with this module's exceptions.\<close>

fun as_evidence_error :: "digest_error \<Rightarrow> evidence_error" where
  "as_evidence_error (Digest_not_string f) = Evidence_not_string f"
| "as_evidence_error (Digest_doubled_prefix f) = Evidence_doubled_prefix f"
| "as_evidence_error (Digest_not_hex64 f) = Evidence_not_hex64 f"

lemma normalize_request_digest_eq:
  "normalize_request_digest v f = mapErr as_evidence_error (normalize_digest v f)"
  by (simp add: normalize_request_digest_def normalize_digest_def Let_def split: json.split)

lemma normalize_request_Inr: "normalize_request_digest v f = Inr d \<longleftrightarrow>
    (v = JStr d \<or> v = JStr (SHA256_PREFIX @ d)) \<and> match_dollar hex64 d"
  by (simp add: normalize_request_digest_eq result_simps normalize_digest_Inr)

lemma evidence_append_Inr:
  "evidence_append H r st = Inr (d, st') \<longleftrightarrow>
     (\<exists>key payload req. validate_evidence_request r = Inr () \<and>
        evidence_idempotency_key H (dget r ''request_id'') (dget r ''entry_id'') = Inr key \<and>
        normalize_request_digest (dget r ''payload_digest'') ''payload_digest'' = Inr payload \<and>
        normalize_request_digest (dget r ''request_id'') ''request_id'' = Inr req \<and>
        (let entry = [(''idempotency_key'', JStr key), (''request_id'', JStr req),
             (''entry_id'', dget r ''entry_id''), (''payload_digest'', JStr payload)];
           answer = (\<lambda>outcome appended. [(''outcome'', JStr outcome), (''appended'', JBool appended),
             (''idempotency_key'', JStr key), (''entry_id'', dget r ''entry_id''), (''payload_digest'', JStr payload)])
         in case map_of st key of
              None \<Rightarrow> d = answer OUTCOME_NEW_VERSION True \<and> st' = st @ [(key, entry)]
            | Some old \<Rightarrow> st' = st \<and>
                d = (if dget old ''payload_digest'' = JStr payload then answer EVIDENCE_REDELIVERY False
                  else answer EVIDENCE_CONFLICT False @ [(''existing_payload_digest'', dget old ''payload_digest'')])))"
  unfolding evidence_append_def
  by (auto simp: result_simps Let_def update_fresh split: option.splits if_splits)

definition evidence_op :: "hostlib \<Rightarrow> dict \<Rightarrow> evidence_entries \<Rightarrow> evidence_entries" where
  "evidence_op H r st = (case evidence_append H r st of Inr (_, st') \<Rightarrow> st' | Inl _ \<Rightarrow> st)"

lemma evidence_op_keeps: "map_of st k = Some e \<Longrightarrow> map_of (evidence_op H r st) k = Some e"
  by (auto simp: evidence_op_def evidence_append_Inr Let_def map_add_def split: sum.splits option.splits)

interpretation evidence_entries: write_once "evidence_op H" map_of for H
  by unfold_locales (rule evidence_op_keeps)

section \<open>Guarantees\<close>

text \<open>a key keeps the first payload digest it was appended with. Once a request was answered
  as a new evidence version, every later accepted request with the same idempotency key, after
  any history, changes nothing: it is a re-delivery when its payload digest is the same up to
  the prefix, and otherwise a conflict that names the stored digest.\<close>

theorem evidence_first_version_stays:
  assumes "evidence_append H r st = Inr (d, st1)" "dget d ''outcome'' = JStr OUTCOME_NEW_VERSION"
    "evidence_append H r2 (run (evidence_op H) qs st1) = Inr (d2, st2)"
    "dget d2 ''idempotency_key'' = dget d ''idempotency_key''"
  shows "st2 = run (evidence_op H) qs st1 \<and> dget d2 ''appended'' = JBool False \<and>
    (if dget d2 ''payload_digest'' = dget d ''payload_digest''
     then dget d2 ''outcome'' = JStr EVIDENCE_REDELIVERY
     else dget d2 ''outcome'' = JStr EVIDENCE_CONFLICT \<and>
       dget d2 ''existing_payload_digest'' = dget d ''payload_digest'')"
proof -
  obtain key e where k: "map_of st1 key = Some e" "dget d ''idempotency_key'' = JStr key"
    "dget e ''payload_digest'' = dget d ''payload_digest''"
    using assms(1,2)
    by (fastforce simp: evidence_append_Inr Let_def evidence_outcome_defs map_add_def
        split: option.splits if_splits)
  have r: "map_of (run (evidence_op H) qs st1) key = Some e" by (rule evidence_entries.run_kept [OF k(1)])
  obtain key2 payload where a: "dget d2 ''idempotency_key'' = JStr key2"
    "key2 = key \<longrightarrow> st2 = run (evidence_op H) qs st1 \<and> dget d2 ''appended'' = JBool False \<and>
      dget d2 ''payload_digest'' = JStr payload \<and>
      (if dget e ''payload_digest'' = JStr payload then dget d2 ''outcome'' = JStr EVIDENCE_REDELIVERY
       else dget d2 ''outcome'' = JStr EVIDENCE_CONFLICT \<and>
         dget d2 ''existing_payload_digest'' = dget e ''payload_digest'')"
    using assms(3) r
    by (fastforce simp: evidence_append_Inr Let_def split: option.splits if_splits)
  then show ?thesis using assms(4) k(2,3) by auto
qed

definition sample_evidence :: dict where
  "sample_evidence = [(''request_id'', JStr sample_digest), (''entry_id'', JStr ''ev-0001''),
     (''payload_digest'', JStr sample_digest)]"

lemma sample_evidence_run:
  obtains d d2 st where "evidence_append H sample_evidence [] = Inr (d, st)"
    "dget d ''outcome'' = JStr OUTCOME_NEW_VERSION" "evidence_append H sample_evidence st = Inr (d2, st)"
    "dget d2 ''idempotency_key'' = dget d ''idempotency_key''"
proof -
  have n: "normalize_request_digest (JStr sample_digest) f = Inr sample_digest" for f
    by (simp add: normalize_request_Inr match_dollar_body sample_digest_hex)
  have v: "validate_evidence_request sample_evidence = Inr ()"
    by (simp add: validate_evidence_request_def sample_evidence_def missing_fields_def has_key_def
        dict_keys_def n nonempty_str_def)
  show ?thesis
    by (rule that [of "fst (projr (evidence_append H sample_evidence []))"
          "snd (projr (evidence_append H sample_evidence []))"
          "fst (projr (evidence_append H sample_evidence (snd (projr (evidence_append H sample_evidence [])))))"])
      (simp_all add: evidence_append_def v, simp_all add: sample_evidence_def evidence_idempotency_key_def
        nonempty_str_def n Let_def)
qed

theorem evidence_first_version_stays_witness:
  "\<exists>d d2 st. evidence_append sample_lib sample_evidence [] = Inr (d, st) \<and>
     evidence_append sample_lib sample_evidence st = Inr (d2, st) \<and> dget d2 ''appended'' = JBool False"
proof (rule sample_evidence_run [of sample_lib])
  fix d d2 st
  assume a: "evidence_append sample_lib sample_evidence [] = Inr (d, st)"
    "dget d ''outcome'' = JStr OUTCOME_NEW_VERSION" "evidence_append sample_lib sample_evidence st = Inr (d2, st)"
    "dget d2 ''idempotency_key'' = dget d ''idempotency_key''"
  from evidence_first_version_stays [OF a(1,2), of sample_evidence "[]" d2 st] a show ?thesis
    by (simp add: exI)
qed

end
