(* ===== verification/Packaging_Ops.thy ===== *)
theory Packaging_Ops
  imports Core_Store_Props Decision_Slot Evidence_Store "HOL-Library.Product_Lexorder"
begin

text \<open>
  \<open>widget_contract/product_packaging/ops_api.py\<close>: the operations that compose the packaging
  modules with the Core store, and \<open>px_projection.py\<close>, the read-only projection over them. The
  state is the Core store. An exception that the code does not turn into its own
  \<open>OpsApiError\<close> has a constructor of its own.
\<close>

definition REVISION_TYPE :: string where "REVISION_TYPE = ''packaging-revision''"
definition OPERATION_TYPE :: string where "OPERATION_TYPE = ''packaging-operation''"
definition DECISION_TYPE :: string where "DECISION_TYPE = ''packaging-decision''"
definition EVIDENCE_TYPE :: string where "EVIDENCE_TYPE = ''packaging-evidence''"

lemmas packaging_types = REVISION_TYPE_def OPERATION_TYPE_def DECISION_TYPE_def EVIDENCE_TYPE_def

datatype ops_error =
    OpsApiError (kind: string) (http_status: nat)
  | Uncaught_digest digest_error
  | Uncaught_lookup

definition status_by_category :: "string \<Rightarrow> nat" where
  "status_by_category c = (if c = ''not_found'' then 404
     else if c = ''integrity_error'' \<or> c = ''io_error'' then 503 else 400)"

definition wrap_core :: "core_error \<Rightarrow> ops_error" where
  "wrap_core e = OpsApiError (category e) (status_by_category (category e))"

definition invalid_input :: ops_error where "invalid_input = OpsApiError ''invalid_input'' 400"
definition malformed :: ops_error where "malformed = OpsApiError ''integrity_error'' 503"

definition ENVELOPE_VIEW :: "string list" where
  "ENVELOPE_VIEW = [''identity'', ''record_digest'', ''appended_at'', ''issue_ref'', ''supersedes'']"

definition envelope_view :: "dict \<Rightarrow> dict" where
  "envelope_view e = map (\<lambda>k. (k, dget e k)) ENVELOPE_VIEW"

definition typed_identity :: "string \<Rightarrow> string \<Rightarrow> ops_error + string" where
  "typed_identity prefix suffix = (let i = prefix @ ''.'' @ suffix in
     case validate_identity (JStr i) of Inl _ \<Rightarrow> Inl invalid_input | Inr _ \<Rightarrow> Inr i)"

definition digest_identity :: "string \<Rightarrow> json \<Rightarrow> string \<Rightarrow> ops_error + string" where
  "digest_identity prefix value fld = (case value of
     JStr s \<Rightarrow>
       if s = [] then Inl invalid_input
       else let full = prefix @ ''.''; raw = (if startswith s full then drop (length full) s else s) in
         bindE (mapErr (\<lambda>_. invalid_input) (normalize_digest (JStr raw) fld)) (\<lambda>n. Inr (prefix @ ''.'' @ n))
   | _ \<Rightarrow> Inl invalid_input)"

section \<open>Reads\<close>

text \<open>The loop all listings share: keep the records of a type, check the body, build the view.\<close>

definition payload_of :: "json \<Rightarrow> dict" where
  "payload_of envelope = (case envelope of JObj e \<Rightarrow> (case dget e ''payload'' of JObj p \<Rightarrow> p | _ \<Rightarrow> []) | _ \<Rightarrow> [])"

definition envelope_of :: "json \<Rightarrow> dict" where
  "envelope_of v = (case v of JObj e \<Rightarrow> e | _ \<Rightarrow> [])"

definition str_of :: "json \<Rightarrow> string" where
  "str_of v = (case v of JStr s \<Rightarrow> s | _ \<Rightarrow> [])"

definition view_key :: "dict \<Rightarrow> string \<times> string" where
  "view_key view = (str_of (dget view ''appended_at''), str_of (dget view ''identity''))"

fun collect_views :: "string \<Rightarrow> string \<Rightarrow> (dict \<Rightarrow> bool) \<Rightarrow> (dict \<Rightarrow> dict \<Rightarrow> ops_error + dict) \<Rightarrow> json list
    \<Rightarrow> ops_error + dict list" where
  "collect_views rtype body keep view [] = Inr []"
| "collect_views rtype body keep view (v # vs) =
     (if dget (payload_of v) ''record_type'' \<noteq> JStr rtype then collect_views rtype body keep view vs
      else case dget (payload_of v) body of
        JObj b \<Rightarrow> if \<not> keep b then collect_views rtype body keep view vs
          else bindE (view (envelope_of v) b) (\<lambda>x.
            bindE (collect_views rtype body keep view vs) (\<lambda>xs. Inr (x # xs)))
      | _ \<Rightarrow> Inl malformed)"

definition list_views :: "hostlib \<Rightarrow> string \<Rightarrow> string \<Rightarrow> (dict \<Rightarrow> bool) \<Rightarrow> (dict \<Rightarrow> dict \<Rightarrow> ops_error + dict)
    \<Rightarrow> core_store \<Rightarrow> ops_error + dict list" where
  "list_views H rtype body keep view st =
     bindE (mapErr wrap_core (iter_records H st)) (\<lambda>rs.
     bindE (collect_views rtype body keep view rs) (\<lambda>vs. Inr (sort_key view_key vs)))"

definition in_package :: "json \<Rightarrow> dict \<Rightarrow> bool" where
  "in_package package_id body \<longleftrightarrow> package_id = JNull \<or> py_eq (dget body ''package_id'') package_id"

definition revision_view :: "hostlib \<Rightarrow> dict \<Rightarrow> dict \<Rightarrow> ops_error + dict" where
  "revision_view H envelope revision = Inr (envelope_view envelope @
     [(''record_type'', JStr REVISION_TYPE), (''revision_identity'', JStr (revision_identity H (JObj revision))),
      (''package_id'', dget revision ''package_id''),
      (''parent_revision_identity'', dget revision ''parent_revision_identity''), (''revision'', JObj revision)])"

definition list_revisions :: "hostlib \<Rightarrow> json \<Rightarrow> core_store \<Rightarrow> ops_error + dict list" where
  "list_revisions H package_id st =
     list_views H REVISION_TYPE ''revision'' (in_package package_id) (revision_view H) st"

text \<open>\<open>get\<close> with a typed identity; the views index the body without a check of its type, so
  a record of another shape under that name raises.\<close>

definition get_view :: "hostlib \<Rightarrow> string \<Rightarrow> string \<Rightarrow> (dict \<Rightarrow> dict \<Rightarrow> ops_error + dict) \<Rightarrow> core_store
    \<Rightarrow> ops_error + dict option" where
  "get_view H ident body view st =
     bindE (mapErr wrap_core (store_get H (JStr ident) st)) (\<lambda>r. case r of
       None \<Rightarrow> Inr None
     | Some v \<Rightarrow> (case dget (payload_of v) body of
        JObj b \<Rightarrow> bindE (view (envelope_of v) b) (\<lambda>x. Inr (Some x))
      | _ \<Rightarrow> Inl Uncaught_lookup))"

definition get_revision :: "hostlib \<Rightarrow> json \<Rightarrow> core_store \<Rightarrow> ops_error + dict option" where
  "get_revision H ident st = bindE (digest_identity REVISION_TYPE ident ''revision_identity'') (\<lambda>i.
     get_view H i ''revision'' (revision_view H) st)"

definition head_revision :: "hostlib \<Rightarrow> json \<Rightarrow> core_store \<Rightarrow> ops_error + dict option" where
  "head_revision H package_id st = bindE (list_revisions H package_id st) (\<lambda>rs.
     Inr (if rs = [] then None else Some (last rs)))"

definition operation_view :: "dict \<Rightarrow> dict \<Rightarrow> ops_error + dict" where
  "operation_view envelope operation = Inr (envelope_view envelope @
     [(''record_type'', JStr OPERATION_TYPE), (''operation_id'', dget operation ''operation_id''),
      (''status'', dget operation ''status''), (''package_id'', dget operation ''package_id''),
      (''result_revision_identity'', operation_outcome_identity operation), (''operation'', JObj operation)])"

definition list_operations :: "hostlib \<Rightarrow> json \<Rightarrow> core_store \<Rightarrow> ops_error + dict list" where
  "list_operations H package_id st =
     list_views H OPERATION_TYPE ''operation'' (in_package package_id) operation_view st"

definition get_operation :: "hostlib \<Rightarrow> string \<Rightarrow> core_store \<Rightarrow> ops_error + dict option" where
  "get_operation H operation_id st = bindE (typed_identity OPERATION_TYPE operation_id) (\<lambda>i.
     get_view H i ''operation'' operation_view st)"

definition decision_view :: "hostlib \<Rightarrow> dict \<Rightarrow> dict \<Rightarrow> ops_error + dict" where
  "decision_view H envelope d = bindE (mapErr Uncaught_digest (decision_record_identity H d)) (\<lambda>subject.
     Inr (envelope_view envelope @
       [(''record_type'', JStr DECISION_TYPE), (''decision_record_identity'', JStr subject)] @
       map (\<lambda>k. (k, dget d k)) [''verdict'', ''package_id'', ''decision_scope'', ''operator'',
         ''revision_digest'', ''supersedes''] @ [(''decision'', JObj d)]))"

definition list_decisions :: "hostlib \<Rightarrow> core_store \<Rightarrow> ops_error + dict list" where
  "list_decisions H st = list_views H DECISION_TYPE ''decision'' (\<lambda>_. True) (decision_view H) st"

definition get_decision :: "hostlib \<Rightarrow> json \<Rightarrow> core_store \<Rightarrow> ops_error + dict option" where
  "get_decision H ident st = bindE (digest_identity DECISION_TYPE ident ''decision_record_identity'') (\<lambda>i.
     bindE (mapErr wrap_core (store_get H (JStr i) st)) (\<lambda>r. case r of
       None \<Rightarrow> Inr None
     | Some _ \<Rightarrow> bindE (list_decisions H st) (\<lambda>vs. Inr (find (\<lambda>v. dget v ''identity'' = JStr i) vs))))"

definition evidence_view :: "dict \<Rightarrow> dict \<Rightarrow> ops_error + dict" where
  "evidence_view envelope entry = Inr (envelope_view envelope @
     [(''record_type'', JStr EVIDENCE_TYPE), (''idempotency_key'', dget entry ''idempotency_key''),
      (''entry_id'', dget entry ''entry_id''), (''payload_digest'', dget entry ''payload_digest''),
      (''entry'', JObj entry)])"

definition list_evidence :: "hostlib \<Rightarrow> core_store \<Rightarrow> ops_error + dict list" where
  "list_evidence H st = list_views H EVIDENCE_TYPE ''entry'' (\<lambda>_. True) evidence_view st"

section \<open>Mutations\<close>

definition ops_append :: "hostlib \<Rightarrow> os_faults \<Rightarrow> string \<Rightarrow> dict \<Rightarrow> string \<Rightarrow> json \<Rightarrow> string \<Rightarrow> json \<Rightarrow> core_store
    \<Rightarrow> (ops_error + dict) \<times> core_store" where
  "ops_append H F now payload ident issue_ref subject_field subject_value st =
     (case core_append H F now (JObj payload) (JStr ident) issue_ref JNull st of
        (Inl e, st') \<Rightarrow> (Inl (wrap_core e), st')
      | (Inr envelope, st') \<Rightarrow> (Inr (dset subject_field subject_value
            (dset ''record_type'' (dget payload ''record_type'') envelope)), st'))"

definition create_revision :: "hostlib \<Rightarrow> os_faults \<Rightarrow> string \<Rightarrow> json \<Rightarrow> json \<Rightarrow> core_store
    \<Rightarrow> (ops_error + dict) \<times> core_store" where
  "create_revision H F now revision issue_ref st =
     (case validate_revision revision of
        Inl _ \<Rightarrow> (Inl invalid_input, st)
      | Inr _ \<Rightarrow> (let subject = revision_identity H revision in
          case typed_identity REVISION_TYPE subject of
            Inl e \<Rightarrow> (Inl e, st)
          | Inr i \<Rightarrow> ops_append H F now
              [(''record_type'', JStr REVISION_TYPE), (''revision'', revision)]
              i issue_ref ''revision_identity'' (JStr subject) st))"

definition record_operation :: "hostlib \<Rightarrow> os_faults \<Rightarrow> string \<Rightarrow> string \<Rightarrow> json \<Rightarrow> json \<Rightarrow> json \<Rightarrow> json \<Rightarrow> json
    \<Rightarrow> json \<Rightarrow> core_store \<Rightarrow> (ops_error + dict) \<times> core_store" where
  "record_operation H F now clock operation_id package_id original_parent candidate status issue_ref st =
     (let result = (if status = JStr STATUS_COMMITTED then JStr (candidate_digest H candidate) else JNull) in
      case make_operation_record H clock operation_id package_id original_parent candidate status result JNull of
        Inl (Operation_digest d) \<Rightarrow> (Inl (Uncaught_digest d), st)
      | Inl _ \<Rightarrow> (Inl invalid_input, st)
      | Inr record \<Rightarrow> (case typed_identity OPERATION_TYPE (str_of (dget record ''operation_id'')) of
            Inl e \<Rightarrow> (Inl e, st)
          | Inr i \<Rightarrow> ops_append H F now
              [(''record_type'', JStr OPERATION_TYPE),
               (''operation'', JObj (map (\<lambda>f. (f, dget record f)) (butlast OPERATION_FIELDS)))]
              i issue_ref ''operation_id'' (dget record ''operation_id'') st))"

definition record_decision :: "hostlib \<Rightarrow> os_faults \<Rightarrow> string \<Rightarrow> json \<Rightarrow> json \<Rightarrow> json \<Rightarrow> json \<Rightarrow> json \<Rightarrow> json
    \<Rightarrow> json \<Rightarrow> core_store \<Rightarrow> (ops_error + dict) \<times> core_store" where
  "record_decision H F now package_id revision_digest decision_scope operator verdict supersedes issue_ref st =
     (case build_decision_record H package_id revision_digest decision_scope operator verdict supersedes JNull of
        Inl (Slot_digest d) \<Rightarrow> (Inl (Uncaught_digest d), st)
      | Inl _ \<Rightarrow> (Inl invalid_input, st)
      | Inr record \<Rightarrow> (case decision_record_identity H record of
            Inl d \<Rightarrow> (Inl (Uncaught_digest d), st)
          | Inr subject \<Rightarrow> (case typed_identity DECISION_TYPE subject of
              Inl e \<Rightarrow> (Inl e, st)
            | Inr i \<Rightarrow> ops_append H F now
                [(''record_type'', JStr DECISION_TYPE), (''decision'', JObj (decision_identity_fields record))]
                i issue_ref ''decision_record_identity'' (JStr subject) st)))"

definition append_evidence :: "hostlib \<Rightarrow> os_faults \<Rightarrow> string \<Rightarrow> json \<Rightarrow> json \<Rightarrow> json \<Rightarrow> json \<Rightarrow> core_store
    \<Rightarrow> (ops_error + dict) \<times> core_store" where
  "append_evidence H F now request_id entry_id payload_digest issue_ref st =
     (let request = [(''request_id'', request_id), (''entry_id'', entry_id), (''payload_digest'', payload_digest)] in
      case bindE (validate_evidence_request request) (\<lambda>_.
          bindE (check_request_binding request_id payload_digest) (\<lambda>_.
          evidence_idempotency_key H request_id entry_id)) of
        Inl _ \<Rightarrow> (Inl invalid_input, st)
      | Inr key \<Rightarrow> (case typed_identity EVIDENCE_TYPE key of
            Inl e \<Rightarrow> (Inl e, st)
          | Inr i \<Rightarrow> ops_append H F now
              [(''record_type'', JStr EVIDENCE_TYPE), (''entry'', JObj request)]
              i issue_ref ''entry_id'' entry_id st))"

definition workstream_counts :: "hostlib \<Rightarrow> core_store \<Rightarrow> ops_error + dict" where
  "workstream_counts H st =
     bindE (list_revisions H JNull st) (\<lambda>r. bindE (list_operations H JNull st) (\<lambda>o'.
     bindE (list_decisions H st) (\<lambda>d. bindE (list_evidence H st) (\<lambda>e.
       Inr [(''revisions'', JInt (int (length r))), (''operations'', JInt (int (length o'))),
         (''decisions'', JInt (int (length d))), (''evidence'', JInt (int (length e)))]))))"

section \<open>The PX projection\<close>

definition DECIDED_VERDICTS :: "json list" where
  "DECIDED_VERDICTS = [JStr ''accepted'', JStr ''rejected'']"

text \<open>\<open>_normalize_status\<close> and \<open>_normalize_verdict\<close> are the same function.\<close>

definition normalize_text :: "json \<Rightarrow> json" where
  "normalize_text v = (if nonempty_str v then v else JNull)"

definition axes :: "string \<Rightarrow> string \<Rightarrow> string \<Rightarrow> dict" where
  "axes freshness status provenance = [(''run_freshness'', JStr freshness), (''revision_status'', JStr status),
     (''run_provenance'', JStr provenance)]"

definition record_staleness :: "string \<Rightarrow> dict \<Rightarrow> json \<Rightarrow> dict" where
  "record_staleness rtype view head =
     (let provenance = (if dget view ''identity'' \<noteq> JNull then ''platform'' else ''unknown'') in
      if rtype = REVISION_TYPE then
        axes ''fresh'' (if head \<noteq> JNull \<and> py_eq (dget view ''revision_identity'') head then ''current'' else ''superseded'')
          ''platform''
      else if rtype = OPERATION_TYPE then
        (let fresh = (normalize_text (dget view ''status'') = JStr ''committed'') in
         axes (if fresh then ''completed'' else ''pending'') (if fresh then ''current'' else ''superseded'') provenance)
      else if rtype = DECISION_TYPE then
        (let d = (normalize_text (dget view ''verdict'') \<in> set DECIDED_VERDICTS) in
         axes (if d then ''completed'' else ''pending'') (if d then ''current'' else ''superseded'') provenance)
      else axes ''completed'' ''current'' ''platform'')"

definition project_record :: "json \<Rightarrow> dict \<Rightarrow> unit + dict" where
  "project_record head view =
     (case dget view ''record_type'' of
        JStr rtype \<Rightarrow>
          if rtype \<notin> {REVISION_TYPE, OPERATION_TYPE, DECISION_TYPE, EVIDENCE_TYPE} then Inl ()
          else
            let observed = dget view (if rtype = REVISION_TYPE then ''revision''
                  else if rtype = OPERATION_TYPE then ''operation''
                  else if rtype = DECISION_TYPE then ''decision'' else ''entry'');
                observation = (if observed = JNull then ''unknown''
                  else if rtype = DECISION_TYPE \<and>
                    normalize_text (dget view ''verdict'') \<notin> set DECIDED_VERDICTS then ''indeterminate''
                  else ''value'');
                package = (case observed of
                    JObj o' \<Rightarrow> if truthy (dget view ''package_id'') then dget view ''package_id'' else dget o' ''package_id''
                  | _ \<Rightarrow> dget view ''package_id'')
            in Inr ([(''px_record_type'', JStr ''px-packaging-record''), (''record_identity'', dget view ''identity''),
                 (''package_id'', package), (''issue_ref'', dget view ''issue_ref''),
                 (''source_category'', JStr rtype), (''observed'', JStr observation)] @
               (if rtype = OPERATION_TYPE then [(''operation_status'', normalize_text (dget view ''status''))] else []) @
               (if rtype = DECISION_TYPE then [(''verdict'', normalize_text (dget view ''verdict''))] else []) @
               (if rtype = EVIDENCE_TYPE then [(''entry_id'', dget view ''entry_id'')] else []) @
               record_staleness rtype view head)
      | _ \<Rightarrow> Inl ())"

datatype px_error = Px_ops ops_error | Px_record

definition project_workstream :: "hostlib \<Rightarrow> core_store \<Rightarrow> px_error + json \<times> dict \<times> dict list" where
  "project_workstream H st =
     bindE (mapErr Px_ops (workstream_counts H st)) (\<lambda>counts.
     bindE (mapErr Px_ops (list_revisions H JNull st)) (\<lambda>revisions.
     let head = (if revisions = [] then JNull else dget (last revisions) ''revision_identity'');
         project = (\<lambda>vs. mapErr (\<lambda>_. Px_record) (mapE (project_record head) vs)) in
     bindE (project revisions) (\<lambda>r.
     bindE (bindE (mapErr Px_ops (list_operations H JNull st)) project) (\<lambda>o'.
     bindE (bindE (mapErr Px_ops (list_decisions H st)) project) (\<lambda>d.
     bindE (bindE (mapErr Px_ops (list_evidence H st)) project) (\<lambda>e.
       Inr (head, counts, r @ o' @ d @ e)))))))"

section \<open>Lemmas\<close>

lemma typed_identity_Inr: "typed_identity p s = Inr i \<longleftrightarrow> i = p @ ''.'' @ s \<and> identity_re i"
  by (auto simp: typed_identity_def Let_def validate_identity_Inr split: sum.splits)
    (auto simp: validate_identity_def)

lemma hex64_first: "hex64 s \<Longrightarrow> startswith s (CHR ''p'' # t) = False"
  by (cases s) (auto simp: startswith_def hex64_def is_hex_def is_digit_def)

lemma digest_identity_hex64: "hex64 s \<Longrightarrow> digest_identity REVISION_TYPE (JStr s) f = Inr (REVISION_TYPE @ ''.'' @ s)"
  by (auto simp: digest_identity_def Let_def REVISION_TYPE_def hex64_first) (simp add: hex64_def)

lemma ops_append_outcome:
  "ops_append H F now p i r sf sv st = (Inr d, st') \<longleftrightarrow>
     (\<exists>e. core_append H F now (JObj p) (JStr i) r JNull st = (Inr e, st') \<and>
       d = dset sf sv (dset ''record_type'' (dget p ''record_type'') e))"
  by (auto simp: ops_append_def split: prod.splits sum.splits)

lemma create_revision_Inr:
  assumes "create_revision H F now v r st = (Inr d, st')"
  obtains rv e where "v = JObj rv" "core_append H F now
      (JObj [(''record_type'', JStr REVISION_TYPE), (''revision'', v)])
      (JStr (REVISION_TYPE @ ''.'' @ revision_identity H v)) r JNull st = (Inr e, st')"
    "dget e ''outcome'' = dget d ''outcome''"
  using assms
  by (auto simp: create_revision_def ops_append_outcome Let_def typed_identity_Inr validate_revision_Inr
      split: sum.splits)

lemma payload_of_stored: "dget e ''payload'' = json_norm (JObj p) \<Longrightarrow>
    dget (payload_of (JObj e)) k = json_norm (dget p k)"
  by (simp add: payload_of_def)

definition evidence_payload :: "json \<Rightarrow> json \<Rightarrow> json \<Rightarrow> json" where
  "evidence_payload request_id entry_id payload_digest = JObj [(''record_type'', JStr EVIDENCE_TYPE),
     (''entry'', JObj [(''request_id'', request_id), (''entry_id'', entry_id), (''payload_digest'', payload_digest)])]"

lemma append_evidence_Inr:
  "append_evidence H F now rq en pd r st = (Inr d, st') \<Longrightarrow>
     \<exists>key e. evidence_idempotency_key H rq en = Inr key \<and> nonempty_str en \<and> py_eq rq pd \<and>
       identity_re (EVIDENCE_TYPE @ ''.'' @ key) \<and>
       core_append H F now (evidence_payload rq en pd) (JStr (EVIDENCE_TYPE @ ''.'' @ key)) r JNull st = (Inr e, st') \<and>
       dget d ''outcome'' = dget e ''outcome'' \<and> dget d ''identity'' = dget e ''identity''"
  by (auto simp: append_evidence_def Let_def ops_append_outcome typed_identity_Inr result_simps
      check_request_binding_def evidence_idempotency_key_def evidence_payload_def
      split: sum.splits if_splits)

text \<open>A second append under an identity that was appended, on the store the first one left.\<close>

lemma second_append:
  assumes H: "sha_hex H" and fit: "fits_envelope p"
    and a: "core_append H F now p (JStr i) r s st = (Inr d, st1)" "dget d ''outcome'' = JStr Core_Store.OUTCOME_APPENDED"
    and b: "core_append H F2 now2 p2 (JStr i) r2 s2 st1 = (Inr d2, st2)"
  shows "st2 = st1 \<and> dget d2 ''outcome'' = JStr
    (if sha256 H (dumps H True p) = sha256 H (dumps H True p2) then OUTCOME_REDELIVERY else OUTCOME_CONFLICT)"
proof (rule appended_blob [OF a, of "[]"])
  fix i' dg e
  assume p: "prepare H now p (JStr i) r s st = Inr (i', dg, e)"
    and m: "map_of (records (append_all H [] st1)) i' = Some (envelope_blob H e)"
  have i: "i' = i" and dg: "dg = sha256 H (dumps H True p)" using prepare_facts(3,5) [OF p] by simp_all
  have m': "map_of (records st1) i = Some (envelope_blob H e)" using m i by (simp add: append_all_def)
  obtain dg2 e2 where p2: "prepare H now2 p2 (JStr i) r2 s2 st1 = Inr (i, dg2, e2)"
    and dg2: "dg2 = sha256 H (dumps H True p2)"
  proof (cases "prepare H now2 p2 (JStr i) r2 s2 st1")
    case (Inr x)
    then obtain j dg2 e2 where x: "prepare H now2 p2 (JStr i) r2 s2 st1 = Inr (j, dg2, e2)" by (cases x) auto
    with prepare_facts(3,5) [OF x] show ?thesis by (intro that) simp_all
  qed (use b in \<open>simp add: core_append_eq\<close>)
  have old: "dget e ''record_digest'' = JStr dg" by (rule prepare_envelope(3) [OF p])
  show ?thesis
    using b m' fit
    by (auto simp: core_append_eq p2 check_envelope_blob [OF p H] render_loser_outcome old dg dg2 split: if_splits)
qed

lemma fits_evidence: "nonempty_str en \<Longrightarrow> fits_envelope (evidence_payload (JStr a) en (JStr b))"
  by (auto simp: nonempty_str_iff evidence_payload_def fits_envelope_def core_limits height.simps(2))

lemma key_prefix: "match_dollar hex64 h \<Longrightarrow>
    evidence_idempotency_key H (JStr (SHA256_PREFIX @ h)) en = evidence_idempotency_key H (JStr h) en"
  by (auto simp: evidence_idempotency_key_def bindE_def split: sum.splits)
    (metis Inl_Inr_False Inr_inject normalize_request_Inr)+

lemma collect_views_type:
  assumes "\<And>e b x. view e b = Inr x \<Longrightarrow> dget x ''record_type'' = JStr t"
  shows "collect_views rt body keep view vs = Inr xs \<Longrightarrow> \<forall>x\<in>set xs. dget x ''record_type'' = JStr t"
  using assms
  by (induction vs arbitrary: xs) (auto simp: result_simps split: if_splits json.splits)

lemma list_views_type:
  assumes "\<And>e b x. view e b = Inr x \<Longrightarrow> dget x ''record_type'' = JStr t"
    "list_views H rt body keep view st = Inr xs"
  shows "\<forall>x\<in>set xs. dget x ''record_type'' = JStr t"
  using assms(2) collect_views_type [of view t, OF assms(1)]
  by (auto simp: list_views_def result_simps)

lemma dget_map_keys: "dget (map (\<lambda>k. (k, f k)) ks @ d) k = (if k \<in> set ks then f k else dget d k)"
  by (induction ks) auto

lemma view_types:
  "revision_view H e b = Inr x \<Longrightarrow> dget x ''record_type'' = JStr REVISION_TYPE"
  "operation_view e b = Inr x \<Longrightarrow> dget x ''record_type'' = JStr OPERATION_TYPE"
  "decision_view H e b = Inr x \<Longrightarrow> dget x ''record_type'' = JStr DECISION_TYPE"
  "evidence_view e b = Inr x \<Longrightarrow> dget x ''record_type'' = JStr EVIDENCE_TYPE"
  by (auto simp: revision_view_def operation_view_def decision_view_def evidence_view_def result_simps
      envelope_view_def dget_map_keys ENVELOPE_VIEW_def)

text \<open>A view of a packaging type is always projected.\<close>

lemma project_views:
  assumes "t \<in> {REVISION_TYPE, OPERATION_TYPE, DECISION_TYPE, EVIDENCE_TYPE}"
    "\<forall>x\<in>set xs. dget x ''record_type'' = JStr t"
  shows "\<exists>ys. mapE (project_record h) xs = Inr ys \<and> length ys = length xs"
  using assms by (intro mapE_ok) (auto simp: project_record_def Let_def)

lemma listed_types:
  "list_revisions H p st = Inr xs \<Longrightarrow> \<forall>x\<in>set xs. dget x ''record_type'' = JStr REVISION_TYPE"
  "list_operations H p st = Inr xs \<Longrightarrow> \<forall>x\<in>set xs. dget x ''record_type'' = JStr OPERATION_TYPE"
  "list_decisions H st = Inr xs \<Longrightarrow> \<forall>x\<in>set xs. dget x ''record_type'' = JStr DECISION_TYPE"
  "list_evidence H st = Inr xs \<Longrightarrow> \<forall>x\<in>set xs. dget x ''record_type'' = JStr EVIDENCE_TYPE"
  unfolding list_revisions_def list_operations_def list_decisions_def list_evidence_def
  by (erule list_views_type [rotated], erule view_types)+

section \<open>Guarantees\<close>

text \<open>C28: a created revision that leaves room for the envelope of its record (\<open>fits_envelope\<close>) is read back by its content
  identity, after any further appends: the same revision in canonical key order, under the same identity, with its package
  and its parent.\<close>

theorem revision_roundtrip:
  assumes "sha_hex H" "create_revision H F now v r st = (Inr d, st')"
    "dget d ''outcome'' = JStr Core_Store.OUTCOME_APPENDED"
    "fits_envelope (JObj [(''record_type'', JStr REVISION_TYPE), (''revision'', v)])"
  shows "\<exists>view rv. get_revision H (JStr (revision_identity H v)) (append_all H qs st') = Inr (Some view) \<and>
    json_norm v = JObj rv \<and> dget view ''revision'' = JObj rv \<and>
    dget view ''revision_identity'' = JStr (revision_identity H v) \<and>
    dget view ''package_id'' = dget rv ''package_id'' \<and>
    dget view ''parent_revision_identity'' = dget rv ''parent_revision_identity''"
proof (rule create_revision_Inr [OF assms(2)])
  fix rw e
  let ?p = "[(''record_type'', JStr REVISION_TYPE), (''revision'', v)]"
  assume v: "v = JObj rw" and a: "core_append H F now (JObj ?p)
      (JStr (REVISION_TYPE @ ''.'' @ revision_identity H v)) r JNull st = (Inr e, st')"
    and o: "dget e ''outcome'' = dget d ''outcome''"
  have o': "dget e ''outcome'' = JStr Core_Store.OUTCOME_APPENDED" using o assms(3) by simp
  obtain x where g: "store_get H (dget e ''identity'') (append_all H qs st') = Inr (Some (JObj x))"
    and x: "dget x ''payload'' = json_norm (JObj ?p)"
    using append_readback [OF assms(1,4) a o'] by blast
  obtain rv where rv: "json_norm v = JObj rv" by (simp add: v)
  have body: "dget (payload_of (JObj x)) ''revision'' = JObj rv"
    using payload_of_stored [OF x] by (simp add: rv)
  have hex: "hex64 (revision_identity H v)"
    using assms(1) by (simp add: revision_identity_def digest_of_object_def sha256_hex_def sha_hex_def)
  have id: "revision_identity H (JObj rv) = revision_identity H v"
    by (simp add: revision_identity_def digest_of_object_def canonical_object_def flip: rv)
  show ?thesis
    using g append_identity [OF a o'] rv
    by (simp add: get_revision_def digest_identity_hex64 [OF hex] get_view_def body revision_view_def
        envelope_of_def id envelope_view_def ENVELOPE_VIEW_def)
qed

text \<open>the digest errors of a decision escape. A call of \<open>record_decision\<close> whose only fault is
  a malformed revision digest does not raise the API's own error with kind \<open>invalid_input\<close>
  but the digest module's exception, which the callers do not catch as a rejection.\<close>

theorem record_decision_digest_escapes:
  assumes "decided verdict" "nonempty_str op" "nonempty_str p" "nonempty_str sc"
    "normalize_digest rd ''revision_digest'' = Inl e"
  shows "record_decision H F now p rd sc op verdict su r st = (Inl (Uncaught_digest e), st)"
  using assms by (simp add: record_decision_def build_decision_record_def decision_key_def)

text \<open>A false conflict. The evidence operation stores the request as it was spelled under an
  identity computed from the stripped digest, so a request that is repeated without the
  \<open>sha256:\<close> prefix is answered as a conflict although request and payload digest are the
  same, while the evidence store of \<open>evidence_store.py\<close> answers a re-delivery. (The two stored
  texts must have different digests, as any two different texts have for SHA-256 in practice.)\<close>

theorem evidence_prefix_false_conflict:
  assumes H: "sha_hex H" and h: "match_dollar hex64 h"
    and a: "append_evidence H F now (JStr (SHA256_PREFIX @ h)) en (JStr (SHA256_PREFIX @ h)) r st = (Inr d, st1)"
      "dget d ''outcome'' = JStr Core_Store.OUTCOME_APPENDED"
    and b: "append_evidence H F2 now2 (JStr h) en (JStr h) r2 st1 = (Inr d2, st2)"
    and c: "sha256 H (dumps H True (evidence_payload (JStr (SHA256_PREFIX @ h)) en (JStr (SHA256_PREFIX @ h))))
      \<noteq> sha256 H (dumps H True (evidence_payload (JStr h) en (JStr h)))"
  shows "st2 = st1 \<and> dget d2 ''outcome'' = JStr Core_Store.OUTCOME_CONFLICT \<and>
    normalize_request_digest (JStr (SHA256_PREFIX @ h)) ''payload_digest'' = normalize_request_digest (JStr h) ''payload_digest''"
proof -
  obtain key e where e: "evidence_idempotency_key H (JStr h) en = Inr key" "nonempty_str en"
    "core_append H F now (evidence_payload (JStr (SHA256_PREFIX @ h)) en (JStr (SHA256_PREFIX @ h)))
      (JStr (EVIDENCE_TYPE @ ''.'' @ key)) r JNull st = (Inr e, st1)" "dget d ''outcome'' = dget e ''outcome''"
    using append_evidence_Inr [OF a(1)] key_prefix [OF h] by auto
  obtain e2 where e2: "core_append H F2 now2 (evidence_payload (JStr h) en (JStr h))
      (JStr (EVIDENCE_TYPE @ ''.'' @ key)) r2 JNull st1 = (Inr e2, st2)" "dget d2 ''outcome'' = dget e2 ''outcome''"
    using append_evidence_Inr [OF b] e(1) by auto
  have o: "dget e ''outcome'' = JStr Core_Store.OUTCOME_APPENDED" using e(4) a(2) by simp
  have n: "normalize_request_digest (JStr (SHA256_PREFIX @ h)) f = Inr h" "normalize_request_digest (JStr h) f = Inr h" for f
    using h by (simp_all add: normalize_request_Inr)
  show ?thesis using second_append [OF H fits_evidence [OF e(2)] e(3) o e2(1)] c e2(2) n by simp
qed

section \<open>Sample calls\<close>

lemma typed_identity_re:
  assumes "hex64 s" "t \<in> {REVISION_TYPE, EVIDENCE_TYPE}"
  shows "identity_re (t @ ''.'' @ s)"
proof -
  let ?ok = "\<lambda>d. is_lower d \<or> is_digit d \<or> d \<in> set ''._:-''"
  have s: "list_all ?ok s" "length s = 64"
    using assms(1) is_hex_lower by (auto simp: hex64_def list_all_iff)
  have t: "list_all ?ok ''ackaging-revision.''" "list_all ?ok ''ackaging-evidence.''" "is_lower (CHR ''p'')"
    by (code_simp, code_simp, code_simp)
  have "identity_re ((CHR ''p'' # u) @ s)" if "list_all ?ok u" "length u \<le> 40" for u
    using s t(3) that unfolding identity_re_def append_Cons list.case list_all_append by simp
  from this [OF t(1)] this [OF t(2)] show ?thesis
    using assms(2) by (elim insertE emptyE) (simp_all add: packaging_types)
qed

lemma hex_not_escaped: "is_hex c \<Longrightarrow> esc_char a c = [c]"
  by (auto simp: is_hex_def is_digit_def esc_char_def Let_def)

lemma length_quote_hex64: "hex64 s \<Longrightarrow> length (quote a s) = 66"
proof -
  assume s: "hex64 s"
  have "list_all is_hex t \<Longrightarrow> concat (map (esc_char a) t) = t" for t
    by (induction t) (simp_all add: hex_not_escaped)
  with s show ?thesis by (simp add: quote_def hex64_def)
qed

lemma length_quote_prefixed: "hex64 s \<Longrightarrow> length (quote a (SHA256_PREFIX @ s)) = 73"
  using length_quote_hex64 [of s a] by (simp add: quote_def SHA256_PREFIX_def esc_char_def Let_def)

definition sample_revision :: json where
  "sample_revision = JObj [(''package_id'', JStr ''p''), (''parent_revision_identity'', JNull), (''content'', JNull)]"

lemma sample_revision_run:
  obtains d where "create_revision sample_lib no_faults sample_now sample_revision JNull empty_store =
      (Inr d, snd (create_revision sample_lib no_faults sample_now sample_revision JNull empty_store))"
    "dget d ''outcome'' = JStr Core_Store.OUTCOME_APPENDED"
proof -
  let ?H = sample_lib and ?v = sample_revision
  let ?p = "JObj [(''record_type'', JStr REVISION_TYPE), (''revision'', ?v)]"
  have val: "validate_revision ?v = Inr ()"
    by (simp add: validate_revision_Inr sample_revision_def has_key_def dict_keys_def keys_are_def
        REVISION_FIELDS_def nonempty_str_def is_genesis_def)
  have hex: "hex64 (revision_identity ?H ?v)"
    using sample_sha_hex by (simp add: revision_identity_def digest_of_object_def sha256_hex_def sha_hex_def)
  have id: "identity_re (REVISION_TYPE @ ''.'' @ revision_identity ?H ?v)"
    by (rule typed_identity_re [OF hex]) simp
  then have t: "typed_identity REVISION_TYPE (revision_identity ?H ?v) =
      Inr (REVISION_TYPE @ ''.'' @ revision_identity ?H ?v)" by (simp add: typed_identity_Inr)
  have "length (dumps ?H True ?p) \<le> 200"
    by (simp add: sample_revision_def REVISION_TYPE_def dumps.simps(7) quote_def esc_char_def Let_def)
  then have w: "well_formed_request ?H sample_now ?p (JStr (REVISION_TYPE @ ''.'' @ revision_identity ?H ?v)) JNull"
    using id by (simp add: well_formed_request_def sample_now_utc validate_issue_ref_def bounded_json_def core_limits
        sample_revision_def REVISION_TYPE_def height.simps(2))
  have "fst (core_append ?H no_faults sample_now ?p (JStr (REVISION_TYPE @ ''.'' @ revision_identity ?H ?v))
      JNull JNull empty_store) = Inr [(''outcome'', JStr Core_Store.OUTCOME_APPENDED), (''appended'', JBool True),
      (''identity'', JStr (REVISION_TYPE @ ''.'' @ revision_identity ?H ?v)),
      (''record_digest'', JStr (sha256 ?H (dumps ?H True ?p)))]" (is "_ = Inr ?e")
    using append_fresh [OF sample_sha_hex w, of empty_store] by (simp add: request_identity_def empty_store_def)
  then obtain st' where "core_append ?H no_faults sample_now ?p
      (JStr (REVISION_TYPE @ ''.'' @ revision_identity ?H ?v)) JNull JNull empty_store = (Inr ?e, st')"
    by (metis prod.collapse)
  then have "create_revision ?H no_faults sample_now ?v JNull empty_store =
      (Inr (dset ''revision_identity'' (JStr (revision_identity ?H ?v))
        (dset ''record_type'' (JStr REVISION_TYPE) ?e)), st')"
    by (simp add: create_revision_def val t ops_append_def Let_def)
  then have "create_revision ?H no_faults sample_now ?v JNull empty_store =
      (Inr (dset ''revision_identity'' (JStr (revision_identity ?H ?v))
        (dset ''record_type'' (JStr REVISION_TYPE) ?e)), snd (create_revision ?H no_faults sample_now ?v JNull empty_store))"
    by simp
  then show ?thesis by (rule that) simp
qed

theorem revision_roundtrip_witness:
  "\<exists>d view. create_revision sample_lib no_faults sample_now sample_revision JNull empty_store =
      (Inr d, snd (create_revision sample_lib no_faults sample_now sample_revision JNull empty_store)) \<and>
    get_revision sample_lib (JStr (revision_identity sample_lib sample_revision))
      (append_all sample_lib [] (snd (create_revision sample_lib no_faults sample_now sample_revision JNull empty_store)))
        = Inr (Some view) \<and> dget view ''revision'' = json_norm sample_revision"
proof (rule sample_revision_run)
  fix d
  assume d: "create_revision sample_lib no_faults sample_now sample_revision JNull empty_store =
      (Inr d, snd (create_revision sample_lib no_faults sample_now sample_revision JNull empty_store))"
    "dget d ''outcome'' = JStr Core_Store.OUTCOME_APPENDED"
  have "fits_envelope (JObj [(''record_type'', JStr REVISION_TYPE), (''revision'', sample_revision)])"
    by (simp add: fits_envelope_def sample_revision_def core_limits height.simps(2))
  from revision_roundtrip [OF sample_sha_hex d this, of "[]"] d(1) show ?thesis by metis
qed

theorem record_decision_digest_escapes_witness:
  "record_decision sample_lib no_faults sample_now (JStr ''p'') (JStr ''abc'') (JStr ''s'') (JStr ''o'')
     (JStr OUTCOME_ACCEPTED) JNull JNull empty_store
   = (Inl (Uncaught_digest (Digest_not_hex64 ''revision_digest'')), empty_store)"
  by (rule record_decision_digest_escapes)
    (simp_all add: decided_def nonempty_str_def normalize_digest_def strip_prefix_def startswith_def
      SHA256_PREFIX_def match_dollar_def hex64_def)

lemma evidence_lengths:
  "length (dumps H True (evidence_payload (JStr sample_digest) (JStr ''e'') (JStr sample_digest))) = 225"
  "length (dumps H True (evidence_payload (JStr (SHA256_PREFIX @ sample_digest)) (JStr ''e'')
     (JStr (SHA256_PREFIX @ sample_digest)))) = 239"
  by (simp_all add: evidence_payload_def dumps.simps(7) length_quote_hex64 length_quote_prefixed sample_digest_hex
      EVIDENCE_TYPE_def) (simp_all add: quote_def esc_char_def Let_def)

definition sample_key :: string where
  "sample_key = EVIDENCE_TYPE @ ''.'' @ sha256 sample_lib (canonical_array sample_lib [JStr sample_digest, JStr ''e''])"

lemma sample_evidence_append:
  assumes d: "SHA256_PREFIX @ sample_digest = x \<or> sample_digest = x"
  shows "append_evidence sample_lib F now (JStr x) (JStr ''e'') (JStr x) JNull st =
       ops_append sample_lib F now [(''record_type'', JStr EVIDENCE_TYPE),
         (''entry'', JObj [(''request_id'', JStr x), (''entry_id'', JStr ''e''), (''payload_digest'', JStr x)])]
         sample_key JNull ''entry_id'' (JStr ''e'') st"
    "identity_re sample_key"
proof -
  have m: "match_dollar hex64 sample_digest" by (simp add: match_dollar_body sample_digest_hex)
  have n: "normalize_request_digest (JStr x) f = Inr sample_digest" for f
    using d m by (auto simp: normalize_request_Inr)
  let ?key = "sha256 sample_lib (canonical_array sample_lib [JStr sample_digest, JStr ''e''])"
  have key: "evidence_idempotency_key sample_lib (JStr x) (JStr ''e'') = Inr ?key"
    by (simp add: evidence_idempotency_key_def nonempty_str_def n sha256_hex_def)
  have hex: "hex64 ?key" using sample_sha_hex by (simp add: sha_hex_def)
  show id: "identity_re sample_key" unfolding sample_key_def by (rule typed_identity_re [OF hex]) simp
  then have t: "typed_identity EVIDENCE_TYPE ?key = Inr sample_key" by (simp add: typed_identity_Inr sample_key_def)
  have v: "validate_evidence_request [(''request_id'', JStr x), (''entry_id'', JStr ''e''), (''payload_digest'', JStr x)] = Inr ()"
    by (simp add: validate_evidence_request_def missing_fields_def has_key_def dict_keys_def n nonempty_str_def)
  show "append_evidence sample_lib F now (JStr x) (JStr ''e'') (JStr x) JNull st =
       ops_append sample_lib F now [(''record_type'', JStr EVIDENCE_TYPE),
         (''entry'', JObj [(''request_id'', JStr x), (''entry_id'', JStr ''e''), (''payload_digest'', JStr x)])]
         sample_key JNull ''entry_id'' (JStr ''e'') st"
    by (simp add: append_evidence_def Let_def v check_request_binding_def key t del: append_Cons)
qed

lemma second_append_answers:
  assumes H: "sha_hex H" and fit: "fits_envelope p"
    and a: "core_append H F now p (JStr i) r s st = (Inr d, st1)" "dget d ''outcome'' = JStr Core_Store.OUTCOME_APPENDED"
    and w: "well_formed_request H now2 p2 (JStr i) r2"
  shows "\<exists>d2. core_append H no_faults now2 p2 (JStr i) r2 JNull st1 = (Inr d2, st1)"
proof (rule appended_blob [OF a, of "[]"])
  fix i' dg e
  assume p: "prepare H now p (JStr i) r s st = Inr (i', dg, e)"
    and m: "map_of (records (append_all H [] st1)) i' = Some (envelope_blob H e)"
  have m': "map_of (records st1) i = Some (envelope_blob H e)"
    using m prepare_facts(5) [OF p] by (simp add: append_all_def)
  obtain e2 where "prepare H now2 p2 (JStr i) r2 JNull st1 = Inr (i, sha256 H (dumps H True p2), e2)"
    using prepare_ok [OF H w, of st1] by (auto simp: request_identity_def)
  then show ?thesis
    by (simp add: core_append_eq m' check_envelope_blob [OF p H] fit) (simp add: no_faults_def)
qed

lemma evidence_request_ok:
  assumes "SHA256_PREFIX @ sample_digest = x \<or> sample_digest = x" "identity_re i"
  shows "well_formed_request sample_lib sample_now (evidence_payload (JStr x) (JStr ''e'') (JStr x)) (JStr i) JNull"
proof -
  have "length x \<le> 71" "length (dumps sample_lib True (evidence_payload (JStr x) (JStr ''e'') (JStr x))) \<le> 239"
    using assms(1) by (elim disjE; hypsubst; simp only: evidence_lengths;
      simp add: sample_digest_def SHA256_PREFIX_def)+
  then show ?thesis
    using assms(2)
    by (simp add: well_formed_request_def sample_now_utc validate_issue_ref_def bounded_json_def core_limits
        evidence_payload_def EVIDENCE_TYPE_def height.simps(2))
qed

theorem evidence_prefix_false_conflict_witness:
  "\<exists>d d2 st1. append_evidence sample_lib no_faults sample_now (JStr (SHA256_PREFIX @ sample_digest)) (JStr ''e'')
      (JStr (SHA256_PREFIX @ sample_digest)) JNull empty_store = (Inr d, st1) \<and>
    append_evidence sample_lib no_faults sample_now (JStr sample_digest) (JStr ''e'') (JStr sample_digest) JNull st1
      = (Inr d2, st1) \<and> dget d2 ''outcome'' = JStr Core_Store.OUTCOME_CONFLICT"
proof -
  let ?x = "SHA256_PREFIX @ sample_digest"
  let ?P = "\<lambda>x. [(''record_type'', JStr EVIDENCE_TYPE),
    (''entry'', JObj [(''request_id'', JStr x), (''entry_id'', JStr ''e''), (''payload_digest'', JStr x)])]"
  have P: "JObj (?P x) = evidence_payload (JStr x) (JStr ''e'') (JStr x)" for x by (simp add: evidence_payload_def)
  note k = sample_evidence_append [of ?x, OF disjI1 [OF refl]] sample_evidence_append(1) [of sample_digest, OF disjI2 [OF refl]]
  have w: "well_formed_request sample_lib sample_now (evidence_payload (JStr x) (JStr ''e'') (JStr x)) (JStr sample_key) JNull"
    if "SHA256_PREFIX @ sample_digest = x \<or> sample_digest = x" for x
    using evidence_request_ok [OF that k(2)] .
  obtain e st1 where a: "core_append sample_lib no_faults sample_now (evidence_payload (JStr ?x) (JStr ''e'') (JStr ?x))
      (JStr sample_key) JNull JNull empty_store = (Inr e, st1)" "dget e ''outcome'' = JStr Core_Store.OUTCOME_APPENDED"
    using append_fresh [OF sample_sha_hex w [of ?x], of empty_store]
    by (auto simp: empty_store_def request_identity_def prod_eq_iff)
  have ne: "nonempty_str (JStr ''e'')" by (simp add: nonempty_str_def)
  obtain e2 where b: "core_append sample_lib no_faults sample_now
      (evidence_payload (JStr sample_digest) (JStr ''e'') (JStr sample_digest)) (JStr sample_key) JNull JNull st1 = (Inr e2, st1)"
    using second_append_answers [OF sample_sha_hex fits_evidence [OF ne] a w [of sample_digest]] by auto
  have A: "append_evidence sample_lib no_faults sample_now (JStr ?x) (JStr ''e'') (JStr ?x) JNull empty_store =
      (Inr (dset ''entry_id'' (JStr ''e'') (dset ''record_type'' (JStr EVIDENCE_TYPE) e)), st1)"
    unfolding k(1) by (simp add: ops_append_def P a)
  have B: "append_evidence sample_lib no_faults sample_now (JStr sample_digest) (JStr ''e'') (JStr sample_digest) JNull st1 =
      (Inr (dset ''entry_id'' (JStr ''e'') (dset ''record_type'' (JStr EVIDENCE_TYPE) e2)), st1)"
    unfolding k(3) by (simp add: ops_append_def P b)
  have o: "dget (dset ''entry_id'' (JStr ''e'') (dset ''record_type'' (JStr EVIDENCE_TYPE) e)) ''outcome''
      = JStr Core_Store.OUTCOME_APPENDED" using a(2) by simp
  have c: "sha256 sample_lib (dumps sample_lib True (evidence_payload (JStr ?x) (JStr ''e'') (JStr ?x)))
      \<noteq> sha256 sample_lib (dumps sample_lib True (evidence_payload (JStr sample_digest) (JStr ''e'') (JStr sample_digest)))"
    unfolding sample_lib_def hostlib.select_convs by (simp add: evidence_lengths [unfolded sample_lib_def] hex_digit_def)
  have m: "match_dollar hex64 sample_digest" by (simp add: match_dollar_body sample_digest_hex)
  from evidence_prefix_false_conflict [OF sample_sha_hex m A o B c] A B
  show ?thesis by blast
qed

text \<open>The projection never refuses a record the API listed. Whenever the workstream can be
  counted, the projection succeeds, carries the same counts, and has exactly one projected
  record for each revision, operation, decision and evidence entry counted.\<close>

theorem projection_complete:
  assumes "workstream_counts H st = Inr counts"
  shows "\<exists>head rs. project_workstream H st = Inr (head, counts, rs) \<and>
    (\<exists>r o' d e. dget counts ''revisions'' = JInt (int r) \<and> dget counts ''operations'' = JInt (int o') \<and>
      dget counts ''decisions'' = JInt (int d) \<and> dget counts ''evidence'' = JInt (int e) \<and>
      length rs = r + o' + d + e)"
proof -
  obtain r o' d e where l: "list_revisions H JNull st = Inr r" "list_operations H JNull st = Inr o'"
    "list_decisions H st = Inr d" "list_evidence H st = Inr e"
    and c: "counts = [(''revisions'', JInt (int (length r))), (''operations'', JInt (int (length o'))),
         (''decisions'', JInt (int (length d))), (''evidence'', JInt (int (length e)))]"
    using assms by (auto simp: workstream_counts_def result_simps)
  define h where "h = (if r = [] then JNull else dget (last r) ''revision_identity'')"
  obtain r' where r': "mapE (project_record h) r = Inr r'" "length r' = length r"
    using project_views [OF _ listed_types(1) [OF l(1)]] by auto
  obtain o'' where o'': "mapE (project_record h) o' = Inr o''" "length o'' = length o'"
    using project_views [OF _ listed_types(2) [OF l(2)]] by auto
  obtain d' where d': "mapE (project_record h) d = Inr d'" "length d' = length d"
    using project_views [OF _ listed_types(3) [OF l(3)]] by auto
  obtain e' where e': "mapE (project_record h) e = Inr e'" "length e' = length e"
    using project_views [OF _ listed_types(4) [OF l(4)]] by auto
  have "project_workstream H st = Inr (h, counts, r' @ o'' @ d' @ e')"
    using assms by (simp add: project_workstream_def l r' o'' d' e' Let_def flip: h_def)
  then show ?thesis using r' o'' d' e' by (auto simp: c)
qed

theorem projection_complete_witness:
  "\<exists>head counts rs. project_workstream sample_lib empty_store = Inr (head, counts, rs)"
proof -
  have "iter_records sample_lib empty_store = Inr []" by (simp add: iter_records_def empty_store_def)
  then obtain counts where "workstream_counts sample_lib empty_store = Inr counts"
    by (simp add: workstream_counts_def list_revisions_def list_operations_def list_decisions_def
        list_evidence_def list_views_def)
  from projection_complete [OF this] show ?thesis by blast
qed

end
