(* ===== verification/Store_Files.thy ===== *)
theory Store_Files
  imports Machines
begin

text \<open>
  Stores that are one JSON file: the nonce and the spend register (\<open>cortxt_mcp/nonce_store.py\<close>) and the idempotency
  store (\<open>events/idempotency.py\<close>). Their loaders (\<open>_read_json\<close>, \<open>_load\<close>) catch every error of a read and go on with the
  empty register, so each operation comes with what it finds: whether its read works and whether its write does.
\<close>

record file_access =
  can_read :: bool
  can_write :: bool

definition loaded :: "file_access \<Rightarrow> 'a list \<Rightarrow> 'a list" where
  "loaded a xs = (if can_read a then xs else [])"

lemma loaded_simps [simp]: "can_read a \<Longrightarrow> loaded a xs = xs" "\<not> can_read a \<Longrightarrow> loaded a xs = []"
  by (simp_all add: loaded_def)

text \<open>
  A gate that holds only for some operations, and in states that satisfy an invariant: an admitted token is recorded, a
  recorded token is not admitted and stays recorded. An operation that is not \<open>allowed\<close>, one whose read fails, may forget it.
\<close>

locale guarded_gate = durable_machine op inv allowed lookup
  for op :: "'q \<Rightarrow> 's \<Rightarrow> 's" and inv :: "'s \<Rightarrow> bool" and allowed :: "'q \<Rightarrow> bool" and lookup :: "'s \<Rightarrow> 'k \<Rightarrow> 'v option" +
  fixes admits :: "'q \<Rightarrow> 's \<Rightarrow> bool" and token :: "'q \<Rightarrow> 'k"
  assumes recorded: "inv s \<Longrightarrow> admits q s \<Longrightarrow> inv (op q s) \<and> lookup (op q s) (token q) \<noteq> None"
    and refused: "inv s \<Longrightarrow> allowed q \<Longrightarrow> lookup s (token q) \<noteq> None \<Longrightarrow> \<not> admits q s"
begin

text \<open>The operation that is admitted first need not be an allowed one: it recorded its token.\<close>

lemma replay_refused:
  assumes "inv s" "admits q s" "list_all allowed qs" "allowed r" "token r = token q"
  shows "\<not> admits r (run op (q # qs) s)"
proof -
  obtain v where v: "inv (op q s)" "lookup (op q s) (token q) = Some v" using recorded [OF assms(1,2)] by auto
  then have "inv (run op qs (op q s))" "lookup (run op qs (op q s)) (token r) \<noteq> None"
    using run_inv [OF v(1) assms(3)] run_stays [OF v(1) assms(3) v(2)] assms(5) by auto
  then show ?thesis using refused [OF _ assms(4)] by simp
qed

end

text \<open>A one-shot gate is one that holds for all operations and states.\<close>

sublocale one_shot_gate \<subseteq> unguarded: guarded_gate op "\<lambda>_. True" "\<lambda>_. True" lookup admits token
  by unfold_locales (use kept recorded refused in auto)

end
