(* ===== verification/Events.thy ===== *)
theory Events
  imports Canonical Py_Float Store_Files
begin

text \<open>
  The event surface \<open>agent-platform/events\<close>: the closed-schema validator (\<open>validation.py\<close>), the
  registry (\<open>registry.py\<close>), the envelope (\<open>envelope.py\<close>), HMAC verification (\<open>signing.py\<close>) and the
  idempotency store (\<open>idempotency.py\<close>). Functions of the Python runtime that are not written
  out are in \<open>eventlib\<close>: the HMAC hex digest of a secret and a payload, \<open>json.loads\<close>, the acceptance of
  \<open>datetime.fromisoformat\<close> and \<open>re.search\<close>. Instants are microseconds; the time stamp
  a store entry keeps is the instant its ISO text was made from.
\<close>

record eventlib =
  host :: hostlib
  hmac_hex :: "string \<Rightarrow> string \<Rightarrow> string"
  json_loads :: "string \<Rightarrow> json option"
  iso_ok :: "string \<Rightarrow> bool"
  re_search :: "string \<Rightarrow> string \<Rightarrow> bool"

section \<open>Schema validation\<close>

text \<open>A schema dictionary with the keywords the validator reads; an absent keyword is \<open>None\<close>.\<close>

datatype schema = Schema
  (s_types: "string list option")
  (s_const: "json option")
  (s_enum: "json list option")
  (s_pattern: "string option")
  (s_required: "string list")
  (s_closed: bool)
  (s_properties: "(string \<times> schema) list")
  (s_bounds: "nat option \<times> nat option")
  (s_items: "schema option")
  (s_range: "json option \<times> json option")

datatype path_step = Key string | Index nat

datatype violation =
    V_type "path_step list"
  | V_const "path_step list"
  | V_enum "path_step list"
  | V_pattern "path_step list"
  | V_missing "path_step list" string
  | V_unknown "path_step list" string
  | V_max_items "path_step list"
  | V_min_items "path_step list"
  | V_minimum "path_step list"
  | V_maximum "path_step list"

definition has_type :: "string \<Rightarrow> json \<Rightarrow> bool" where
  "has_type t v = (
     if t = ''object'' then is_obj v
     else if t = ''array'' then is_list v
     else if t = ''string'' then is_str v
     else if t = ''integer'' then (case v of JInt _ \<Rightarrow> True | _ \<Rightarrow> False)
     else if t = ''number'' then (case v of JInt _ \<Rightarrow> True | JFlt _ \<Rightarrow> True | _ \<Rightarrow> False)
     else if t = ''boolean'' then (case v of JBool _ \<Rightarrow> True | _ \<Rightarrow> False)
     else t = ''null'' \<and> v = JNull)"

definition num_less :: "json \<Rightarrow> json \<Rightarrow> bool" where
  "num_less v w = (case (num_val v, num_val w) of (Some x, Some y) \<Rightarrow> flt x y | _ \<Rightarrow> False)"

definition check_scalar :: "eventlib \<Rightarrow> json \<Rightarrow> schema \<Rightarrow> path_step list \<Rightarrow> violation + unit" where
  "check_scalar E v s path =
     bindE (ensure (case s_types s of None \<Rightarrow> True | Some ts \<Rightarrow> \<exists>t\<in>set ts. has_type t v) (V_type path)) (\<lambda>_.
     bindE (ensure (case s_const s of None \<Rightarrow> True | Some c \<Rightarrow> py_eq v c) (V_const path)) (\<lambda>_.
     bindE (ensure (case s_enum s of None \<Rightarrow> True | Some vs \<Rightarrow> py_in v vs) (V_enum path)) (\<lambda>_.
     ensure (case (s_pattern s, v) of (Some p, JStr t) \<Rightarrow> re_search E p t | _ \<Rightarrow> True) (V_pattern path))))"

definition missing_required :: "schema \<Rightarrow> dict \<Rightarrow> string list" where
  "missing_required s d = sort (filter (\<lambda>k. \<not> has_key d k) (s_required s))"

definition unknown_keys :: "schema \<Rightarrow> dict \<Rightarrow> string list" where
  "unknown_keys s d = sort (filter (\<lambda>k. k \<notin> fst ` set (s_properties s)) (remdups (dict_keys d)))"

definition check_keys :: "schema \<Rightarrow> dict \<Rightarrow> path_step list \<Rightarrow> violation + unit" where
  "check_keys s d path =
     bindE (ensure (missing_required s d = []) (V_missing path (hd (missing_required s d)))) (\<lambda>_.
     ensure (\<not> s_closed s \<or> unknown_keys s d = []) (V_unknown path (hd (unknown_keys s d))))"

definition check_length :: "schema \<Rightarrow> nat \<Rightarrow> path_step list \<Rightarrow> violation + unit" where
  "check_length s n path =
     bindE (ensure (case snd (s_bounds s) of None \<Rightarrow> True | Some m \<Rightarrow> n \<le> m) (V_max_items path)) (\<lambda>_.
     ensure (case fst (s_bounds s) of None \<Rightarrow> True | Some m \<Rightarrow> m \<le> n) (V_min_items path))"

definition check_range :: "json \<Rightarrow> schema \<Rightarrow> path_step list \<Rightarrow> violation + unit" where
  "check_range v s path =
     bindE (ensure (case fst (s_range s) of None \<Rightarrow> True | Some m \<Rightarrow> \<not> num_less v m) (V_minimum path)) (\<lambda>_.
     ensure (case snd (s_range s) of None \<Rightarrow> True | Some m \<Rightarrow> \<not> num_less m v) (V_maximum path))"

function (sequential) validate_data :: "eventlib \<Rightarrow> json \<Rightarrow> schema \<Rightarrow> path_step list \<Rightarrow> violation + unit" where
  "validate_data E (JObj d) s path = bindE (check_scalar E (JObj d) s path) (\<lambda>_. bindE (check_keys s d path) (\<lambda>_.
     forE (\<lambda>(k, v). case map_of (s_properties s) k of
         None \<Rightarrow> Inr ()
       | Some t \<Rightarrow> validate_data E v t (path @ [Key k])) d))"
| "validate_data E (JList xs) s path = bindE (check_scalar E (JList xs) s path) (\<lambda>_.
     bindE (check_length s (length xs) path) (\<lambda>_.
     case s_items s of
       None \<Rightarrow> Inr ()
     | Some t \<Rightarrow> forE (\<lambda>(i, v). validate_data E v t (path @ [Index i])) (enumerate 0 xs)))"
| "validate_data E (JInt n) s path = bindE (check_scalar E (JInt n) s path) (\<lambda>_. check_range (JInt n) s path)"
| "validate_data E (JFlt x) s path = bindE (check_scalar E (JFlt x) s path) (\<lambda>_. check_range (JFlt x) s path)"
| "validate_data E v s path = check_scalar E v s path"
  by pat_completeness auto
termination
proof (relation "measure (\<lambda>(_, v, _). size v)", goal_cases)
  case (2 E d s path u u' kv k v t)
  then have "size_prod (\<lambda>_. 0) size (k, v) < Suc (size_list (size_prod (\<lambda>_. 0) size) d)"
    by (auto intro: size_list_estimation' le_imp_less_Suc)
  then show ?case by simp
next
  case (3 E xs s path u u' t iv i v)
  then have "v \<in> set xs" by (auto simp: enumerate_eq_zip dest: set_zip_rightD)
  then show ?case by (auto intro: size_list_estimation le_imp_less_Suc size_list_estimation')
qed simp

section \<open>The registry\<close>

definition typed :: "string list \<Rightarrow> schema" where
  "typed ts = Schema (Some ts) None None None [] False [] (None, None) None (None, None)"

definition enum_of :: "string list \<Rightarrow> schema" where
  "enum_of vs = Schema (Some [''string'']) None (Some (map JStr vs)) None [] False [] (None, None) None (None, None)"

definition array_of :: "schema \<Rightarrow> schema" where
  "array_of t = Schema (Some [''array'']) None None None [] False [] (None, None) (Some t) (None, None)"

definition closed :: "string list \<Rightarrow> string list \<Rightarrow> (string \<times> schema) list \<Rightarrow> schema" where
  "closed ts req props = Schema (Some ts) None None None req True props (None, None) None (None, None)"

definition repository_schema :: schema where
  "repository_schema = closed [''string'', ''object''] []
     [(''id'', typed [''integer'', ''string'']), (''name'', typed [''string'']), (''full_name'', typed [''string''])]"

definition GITHUB_PUSH_SCHEMA :: schema where
  "GITHUB_PUSH_SCHEMA = closed [''object''] [''ref'', ''repository'', ''sender'', ''head_commit'']
     [(''ref'', typed [''string'']),
      (''repository'', repository_schema),
      (''sender'', closed [''string'', ''object''] []
         [(''login'', typed [''string'']), (''id'', typed [''integer'', ''string''])]),
      (''head_commit'', closed [''string'', ''object''] []
         [(''id'', typed [''string'']), (''message'', typed [''string'']), (''timestamp'', typed [''string''])]),
      (''branch'', typed [''string'']), (''before'', typed [''string'']), (''after'', typed [''string'']),
      (''commits'', array_of (typed [''object'']))]"

definition GITHUB_ISSUE_SCHEMA :: schema where
  "GITHUB_ISSUE_SCHEMA = closed [''object''] [''action'', ''issue_number'', ''actor'']
     [(''action'', enum_of [''opened'', ''edited'', ''labeled'', ''unlabeled'', ''closed'', ''reopened'', ''transferred'']),
      (''issue_number'', typed [''integer'']),
      (''labels'', array_of (typed [''string''])),
      (''actor'', typed [''string'']),
      (''repository'', repository_schema)]"

definition GITHUB_PULL_REQUEST_REVIEW_SCHEMA :: schema where
  "GITHUB_PULL_REQUEST_REVIEW_SCHEMA =
     closed [''object''] [''action'', ''pull_request_number'', ''review_state'', ''actor'']
     [(''action'', enum_of [''submitted'', ''edited'', ''dismissed'']),
      (''pull_request_number'', typed [''integer'']),
      (''review_state'', enum_of [''approved'', ''changes_requested'', ''commented'', ''dismissed'']),
      (''actor'', typed [''string'']),
      (''repository'', repository_schema)]"

definition CORTXT_WORKFLOW_TRANSITION_SCHEMA :: schema where
  "CORTXT_WORKFLOW_TRANSITION_SCHEMA =
     closed [''object''] [''issue_id'', ''from'', ''to'', ''run_id'', ''claim_id'']
     [(''issue_id'', typed [''string'']), (''from'', typed [''string'']), (''to'', typed [''string'']),
      (''run_id'', typed [''string'']), (''claim_id'', typed [''string''])]"

type_synonym registry = "(string \<times> schema) list"

definition DEFAULT_SCHEMAS :: registry where
  "DEFAULT_SCHEMAS = [(''github.push'', GITHUB_PUSH_SCHEMA), (''github.issue'', GITHUB_ISSUE_SCHEMA),
     (''github.pull_request_review'', GITHUB_PULL_REQUEST_REVIEW_SCHEMA),
     (''cortxt.workflow.transition'', CORTXT_WORKFLOW_TRANSITION_SCHEMA)]"

definition register_schema :: "string \<Rightarrow> schema \<Rightarrow> registry \<Rightarrow> unit + registry" where
  "register_schema event_type s reg = (if blank event_type then Inl () else Inr (AList.update event_type s reg))"

definition get_schema :: "registry \<Rightarrow> string \<Rightarrow> schema option" where
  "get_schema reg event_type = map_of reg event_type"

datatype data_error = Unknown_type | Data_violation violation

definition validate_event_data :: "eventlib \<Rightarrow> registry \<Rightarrow> string \<Rightarrow> json \<Rightarrow> data_error + unit" where
  "validate_event_data E reg event_type data = (case get_schema reg event_type of
     None \<Rightarrow> Inl Unknown_type
   | Some s \<Rightarrow> mapErr Data_violation (validate_data E data s []))"

section \<open>Envelopes\<close>

record envelope =
  env_id :: string
  env_type :: string
  env_occurred_at :: string
  env_source :: string
  env_data :: dict

text \<open>\<open>TYPE_PATTERN\<close> is used with \<open>match\<close>, so a final newline passes.\<close>

definition type_pattern :: "string \<Rightarrow> bool" where
  "type_pattern s = (case s of [] \<Rightarrow> False | c # r \<Rightarrow> is_lower c \<and> length r \<le> 63 \<and>
     list_all (\<lambda>d. is_lower d \<or> is_digit d \<or> d \<in> set ''._-'') r)"

definition ENVELOPE_KEYS :: "string list" where
  "ENVELOPE_KEYS = [''data'', ''id'', ''occurred_at'', ''source'', ''type'']"

datatype envelope_error =
    Envelope_not_object | Envelope_unknown string | Envelope_missing string
  | Envelope_id | Envelope_type | Envelope_occurred_at | Envelope_source | Envelope_data

definition replace_z :: "string \<Rightarrow> string" where
  "replace_z s = concat (map (\<lambda>c. if c = CHR ''Z'' then ''+00:00'' else [c]) s)"

definition validate_iso8601 :: "eventlib \<Rightarrow> json \<Rightarrow> bool" where
  "validate_iso8601 E v = (case v of JStr s \<Rightarrow> \<not> blank s \<and> iso_ok E (replace_z s) | _ \<Rightarrow> False)"

definition validate_envelope :: "eventlib \<Rightarrow> json \<Rightarrow> envelope_error + envelope" where
  "validate_envelope E doc = (case doc of
     JObj d \<Rightarrow>
       (let extra = sort (filter (\<lambda>k. k \<notin> set ENVELOPE_KEYS) (remdups (dict_keys d)));
            missing = filter (\<lambda>k. \<not> has_key d k) ENVELOPE_KEYS in
        bindE (ensure (extra = []) (Envelope_unknown (hd extra))) (\<lambda>_.
        bindE (ensure (missing = []) (Envelope_missing (hd missing))) (\<lambda>_.
        bindE (ensure (nonblank (dget d ''id'')) Envelope_id) (\<lambda>_.
        bindE (ensure (case dget d ''type'' of JStr s \<Rightarrow> match_dollar type_pattern s | _ \<Rightarrow> False) Envelope_type) (\<lambda>_.
        bindE (ensure (validate_iso8601 E (dget d ''occurred_at'')) Envelope_occurred_at) (\<lambda>_.
        bindE (ensure (nonblank (dget d ''source'')) Envelope_source) (\<lambda>_.
        case dget d ''data'' of
          JObj x \<Rightarrow> Inr \<lparr>env_id = text_of (dget d ''id''), env_type = text_of (dget d ''type''),
            env_occurred_at = text_of (dget d ''occurred_at''), env_source = text_of (dget d ''source''), env_data = x\<rparr>
        | _ \<Rightarrow> Inl Envelope_data)))))))
   | _ \<Rightarrow> Inl Envelope_not_object)"

definition envelope_dict :: "envelope \<Rightarrow> json" where
  "envelope_dict e = JObj [(''id'', JStr (env_id e)), (''type'', JStr (env_type e)),
     (''occurred_at'', JStr (env_occurred_at e)), (''source'', JStr (env_source e)), (''data'', JObj (env_data e))]"

section \<open>Signatures\<close>

definition compute_signature :: "eventlib \<Rightarrow> string \<Rightarrow> string \<Rightarrow> string \<Rightarrow> bool \<Rightarrow> string option" where
  "compute_signature E payload secret scheme prefix =
     (if lower scheme = ''sha256''
        then Some (if prefix then ''sha256='' @ hmac_hex E secret payload else hmac_hex E secret payload)
      else None)"

text \<open>
  \<open>int(actual_hex, 16)\<close> also takes signs, blanks and underscores; none of those passes the
  comparison that follows with a hex digest, so the digits are all that is checked here.
\<close>

definition verify_signature :: "eventlib \<Rightarrow> string \<Rightarrow> string \<Rightarrow> string option \<Rightarrow> string \<Rightarrow> bool" where
  "verify_signature E payload secret signature scheme = (case signature of
     None \<Rightarrow> False
   | Some sig \<Rightarrow>
       if blank sig \<or> secret = [] then False
       else if lower (strip scheme) \<notin> {''sha256'', ''x-hub-signature-256'', ''x-cortxt-signature''} then False
       else
         let expected = hmac_hex E secret payload;
             stripped = strip sig;
             actual = (if startswith (lower stripped) ''sha256='' then drop 7 stripped else stripped) in
         length actual = length expected \<and> list_all is_hex (lower actual) \<and> lower actual = lower expected)"

section \<open>The idempotency store\<close>

text \<open>\<open>timedelta.total_seconds\<close>: the microseconds divided by a million, rounded to a float.\<close>

definition total_seconds :: "int \<Rightarrow> rat" where
  "total_seconds us = rnd (of_int us / 1000000)"

record idem_entry =
  payload_hash :: string
  recorded_at :: int

type_synonym idem_store = "(string \<times> idem_entry) list"

datatype idem_status = Processed | Replayed_within_window | Accepted_outside_window | Replayed_hash_mismatch

text \<open>\<open>_load\<close> answers the empty store when its read fails; \<open>None\<close> is an \<open>OSError\<close> of \<open>_save\<close>, which leaves the file.\<close>

definition idem_save :: "file_access \<Rightarrow> 'a \<Rightarrow> idem_store \<Rightarrow> idem_store \<Rightarrow> 'a option \<times> idem_store" where
  "idem_save a answer st' st = (if can_write a then (Some answer, st') else (None, st))"

definition idem_record :: "file_access \<Rightarrow> int \<Rightarrow> string \<Rightarrow> string \<Rightarrow> int \<Rightarrow> idem_store \<Rightarrow> idem_status option \<times> idem_store" where
  "idem_record a window event_id hash now st =
     (let data = loaded a st; new = AList.update event_id \<lparr>payload_hash = hash, recorded_at = now\<rparr> data in
      case map_of data event_id of
        None \<Rightarrow> idem_save a Processed new st
      | Some entry \<Rightarrow>
          if total_seconds (now - recorded_at entry) \<le> of_int window then (Some Replayed_within_window, st)
          else if payload_hash entry = hash then idem_save a Accepted_outside_window new st
          else (Some Replayed_hash_mismatch, st))"

definition idem_prune :: "file_access \<Rightarrow> int \<Rightarrow> int \<Rightarrow> int option \<Rightarrow> idem_store \<Rightarrow> nat option \<times> idem_store" where
  "idem_prune a window now max_age st =
     (let threshold = (case max_age of None \<Rightarrow> window | Some m \<Rightarrow> m);
          data = loaded a st;
          keep = filter (\<lambda>(_, e). total_seconds (now - recorded_at e) \<le> of_int threshold) data;
          removed = length data - length keep
      in if 0 < removed then idem_save a removed keep st else (Some 0, st))"

definition compute_payload_hash :: "eventlib \<Rightarrow> json + string \<Rightarrow> string" where
  "compute_payload_hash E payload = sha256_hex (host E) (case payload of
     Inr raw \<Rightarrow> raw | Inl v \<Rightarrow> dumps (host E) True v)"

end
