(* ===== verification/Dispatch.thy ===== *)
theory Dispatch
  imports Events
begin

text \<open>
  \<open>agent-platform/events/dispatch.py\<close>: the dispatch pipeline. Bytes and text arguments are
  strings, a handler is a function that returns a value or raises with a message, and the
  handlers a call runs are read off its response: \<open>Handled\<close> and \<open>Handler_failed\<close> are the only
  responses of a run handler, and \<open>Store_raises\<close> is the \<open>OSError\<close> of a store that cannot be written, which leaves
  \<open>dispatch_event\<close>. A history is what dispatches and prunes do to one store, one after the other.
\<close>

datatype event_input = Doc json | Raw string | Validated envelope | Other_input

datatype response =
    Signature_missing
  | Signature_invalid
  | No_payload
  | Malformed_json
  | Invalid_input_type
  | Invalid_envelope envelope_error
  | Unknown_event_type envelope
  | Invalid_data envelope violation
  | Replayed envelope
  | Hash_mismatch envelope
  | No_handler envelope
  | Handled envelope json
  | Handler_failed envelope string
  | Store_raises envelope

record dispatch_call =
  d_envelope :: "event_input option"
  d_handlers :: "(string \<times> (envelope \<Rightarrow> string + json)) list"
  d_secret :: "string option"
  d_raw :: "string option"
  d_signature :: "string option"
  d_scheme :: string
  d_now :: int
  d_file :: file_access

definition check_signature :: "eventlib \<Rightarrow> dispatch_call \<Rightarrow> response + unit" where
  "check_signature E q = (case d_secret q of
     None \<Rightarrow> Inr ()
   | Some secret \<Rightarrow>
       (let effective = (case d_raw q of Some r \<Rightarrow> Some r
            | None \<Rightarrow> (case d_envelope q of Some (Raw r) \<Rightarrow> Some r | _ \<Rightarrow> None)) in
        case (effective, d_signature q) of
          (Some r, Some sig) \<Rightarrow>
            if verify_signature E r secret (Some sig) (d_scheme q) then Inr () else Inl Signature_invalid
        | _ \<Rightarrow> Inl Signature_missing))"

definition resolve_document :: "eventlib \<Rightarrow> dispatch_call \<Rightarrow> response + json" where
  "resolve_document E q =
     (case (case d_envelope q of Some x \<Rightarrow> Some x | None \<Rightarrow> map_option Raw (d_raw q)) of
        None \<Rightarrow> Inl No_payload
      | Some (Raw r) \<Rightarrow> (case json_loads E r of None \<Rightarrow> Inl Malformed_json | Some v \<Rightarrow> Inr v)
      | Some (Validated e) \<Rightarrow> Inr (envelope_dict e)
      | Some (Doc v) \<Rightarrow> if is_obj v then Inr v else Inl Invalid_input_type
      | Some Other_input \<Rightarrow> Inl Invalid_input_type)"

definition checked_envelope :: "eventlib \<Rightarrow> registry \<Rightarrow> dispatch_call \<Rightarrow> response + envelope \<times> json" where
  "checked_envelope E reg q =
     bindE (check_signature E q) (\<lambda>_.
     bindE (resolve_document E q) (\<lambda>doc.
     bindE (mapErr Invalid_envelope (validate_envelope E doc)) (\<lambda>e.
     case get_schema reg (env_type e) of
       None \<Rightarrow> Inl (Unknown_event_type e)
     | Some s \<Rightarrow> bindE (mapErr (Invalid_data e) (validate_data E (JObj (env_data e)) s [])) (\<lambda>_. Inr (e, doc)))))"

definition call_hash :: "eventlib \<Rightarrow> dispatch_call \<Rightarrow> json \<Rightarrow> string" where
  "call_hash E q doc = compute_payload_hash E (case d_raw q of
     Some r \<Rightarrow> Inr r
   | None \<Rightarrow> (case d_envelope q of Some (Raw r) \<Rightarrow> Inr r | _ \<Rightarrow> Inl doc))"

definition route :: "dispatch_call \<Rightarrow> envelope \<Rightarrow> response" where
  "route q e = (case map_of (d_handlers q) (env_type e) of
     None \<Rightarrow> No_handler e
   | Some h \<Rightarrow> (case h e of Inr r \<Rightarrow> Handled e r | Inl m \<Rightarrow> Handler_failed e m))"

definition dispatch_event :: "eventlib \<Rightarrow> registry \<Rightarrow> int option \<Rightarrow> dispatch_call \<Rightarrow> idem_store
    \<Rightarrow> response \<times> idem_store" where
  "dispatch_event E reg window q st =
     (case checked_envelope E reg q of
        Inl r \<Rightarrow> (r, st)
      | Inr (e, doc) \<Rightarrow>
          (case window of
             None \<Rightarrow> (route q e, st)
           | Some w \<Rightarrow>
               (case idem_record (d_file q) w (env_id e) (call_hash E q doc) (d_now q) st of
                  (None, st') \<Rightarrow> (Store_raises e, st')
                | (Some Replayed_within_window, st') \<Rightarrow> (Replayed e, st')
                | (Some Replayed_hash_mismatch, st') \<Rightarrow> (Hash_mismatch e, st')
                | (Some _, st') \<Rightarrow> (route q e, st'))))"

section \<open>Lemmas\<close>

text \<open>The envelope a response ran a handler on.\<close>

fun ran :: "response \<Rightarrow> envelope option" where
  "ran (Handled e r) = Some e"
| "ran (Handler_failed e m) = Some e"
| "ran _ = None"

lemma ran_route: "ran (route q e) = (if map_of (d_handlers q) (env_type e) = None then None else Some e)"
  by (auto simp: route_def split: option.splits sum.splits)

lemma checked_no_run: "checked_envelope E reg q = Inl r \<Longrightarrow> ran r = None"
  by (auto simp: checked_envelope_def check_signature_def resolve_document_def result_simps
      split: option.splits event_input.splits if_splits)

lemma ran_dispatch:
  "ran (fst (dispatch_event E reg (Some w) q st)) = Some e \<longleftrightarrow>
     (\<exists>doc. checked_envelope E reg q = Inr (e, doc) \<and> map_of (d_handlers q) (env_type e) \<noteq> None \<and>
        fst (idem_record (d_file q) w (env_id e) (call_hash E q doc) (d_now q) st)
          \<in> {Some Processed, Some Accepted_outside_window})"
  by (auto simp: dispatch_event_def ran_route dest: checked_no_run
      split: sum.splits prod.splits option.splits idem_status.splits if_splits)

text \<open>The operations on one store, and their effect on it.\<close>

datatype event_op = Dispatches dispatch_call | Prunes file_access int "int option"

definition dispatch_op :: "eventlib \<Rightarrow> registry \<Rightarrow> int \<Rightarrow> event_op \<Rightarrow> idem_store \<Rightarrow> idem_store" where
  "dispatch_op E reg w p st = (case p of
     Dispatches q \<Rightarrow> snd (dispatch_event E reg (Some w) q st)
   | Prunes a now max_age \<Rightarrow> snd (idem_prune a w now max_age st))"

lemma dispatch_op_eq: "dispatch_op E reg w (Dispatches q) st = (case checked_envelope E reg q of
    Inl _ \<Rightarrow> st | Inr (e, doc) \<Rightarrow> snd (idem_record (d_file q) w (env_id e) (call_hash E q doc) (d_now q) st))"
  by (auto simp: dispatch_op_def dispatch_event_def split: sum.splits prod.splits option.splits idem_status.splits)

text \<open>The operations under which the window holds up to the instant \<open>now\<close>: a dispatch reads the file, and a prune removes
  nothing younger than the window and runs on no clock ahead of \<open>now\<close>. A prune that cannot read the file removes nothing.\<close>

definition keeps_window :: "int \<Rightarrow> int \<Rightarrow> event_op \<Rightarrow> bool" where
  "keeps_window w now p = (case p of
     Dispatches q \<Rightarrow> can_read (d_file q)
   | Prunes a n max_age \<Rightarrow> n \<le> now \<and> (case max_age of None \<Rightarrow> True | Some m \<Rightarrow> w \<le> m))"

fun is_prune :: "event_op \<Rightarrow> bool" where
  "is_prune (Prunes a n m) = True"
| "is_prune (Dispatches q) = False"

text \<open>
  What a later entry for the same event id says about an earlier one: same payload hash, and
  either the same time stamp or one at more than the window's distance.
\<close>

definition supersedes_entry :: "int \<Rightarrow> idem_entry \<Rightarrow> idem_entry \<Rightarrow> bool" where
  "supersedes_entry w old new \<longleftrightarrow> payload_hash new = payload_hash old \<and>
     (recorded_at new = recorded_at old \<or> of_int w < total_seconds (recorded_at new - recorded_at old))"

lemma total_seconds_mono: "a \<le> b \<Longrightarrow> total_seconds a \<le> total_seconds b"
  unfolding total_seconds_def by (rule rnd_mono) (simp add: divide_right_mono)

lemma total_seconds_neg: "a \<le> 0 \<Longrightarrow> total_seconds a \<le> 0"
  using total_seconds_mono [of a 0] by (simp add: total_seconds_def rnd_def)

lemma outside_positive: "0 \<le> w \<Longrightarrow> of_int w < total_seconds a \<Longrightarrow> 0 < a"
  using total_seconds_neg [of a] by (metis linorder_not_le of_int_0_le_iff order.strict_trans1 order.strict_trans2)

lemma supersedes_entry_trans:
  assumes "0 \<le> w" "supersedes_entry w a b" "supersedes_entry w b c"
  shows "supersedes_entry w a c"
proof -
  have "of_int w < total_seconds (recorded_at c - recorded_at a)"
    if "of_int w < total_seconds (recorded_at b - recorded_at a)" "of_int w < total_seconds (recorded_at c - recorded_at b)"
    using that outside_positive [OF assms(1) that(1)]
      total_seconds_mono [of "recorded_at c - recorded_at b" "recorded_at c - recorded_at a"] by simp
  then show ?thesis using assms(2,3) by (auto simp: supersedes_entry_def)
qed

lemma idem_record_entry:
  assumes "map_of st k = Some a" "can_read f"
  shows "\<exists>b. map_of (snd (idem_record f w i h n st)) k = Some b \<and> supersedes_entry w a b"
  using assms by (auto simp: idem_record_def idem_save_def supersedes_entry_def update_conv Let_def split: option.splits)

lemma map_of_filtered:
  "distinct (map fst xs) \<Longrightarrow> map_of xs k = Some v \<Longrightarrow> P (k, v) \<Longrightarrow> map_of (filter P xs) k = Some v"
  by (intro map_of_is_SomeI) (auto simp: distinct_map_filter dest: map_of_SomeD)

lemma idem_prune_entry:
  assumes "map_of st k = Some a" "distinct (map fst st)"
  shows "map_of (snd (idem_prune f w n m st)) k = Some a \<or>
    of_int (case m of None \<Rightarrow> w | Some x \<Rightarrow> x) < total_seconds (n - recorded_at a)"
  using assms map_of_filtered [OF assms(2,1), of "\<lambda>(_, e). total_seconds (n - recorded_at e) \<le> of_int (case m of None \<Rightarrow> w | Some x \<Rightarrow> x)"]
  by (auto simp: idem_prune_def idem_save_def Let_def loaded_def)

lemma distinct_keys_op: "distinct (map fst st) \<Longrightarrow> distinct (map fst (dispatch_op E reg w p st))"
  by (auto simp: dispatch_op_def dispatch_event_def idem_record_def idem_prune_def idem_save_def loaded_def Let_def
      distinct_update distinct_map_filter split: event_op.splits sum.splits prod.splits option.splits idem_status.splits if_splits)

lemma distinct_keys_run: "distinct (map fst st) \<Longrightarrow> distinct (map fst (run (dispatch_op E reg w) ps st))"
  by (induction ps arbitrary: st) (auto simp: distinct_keys_op)

lemma dispatch_op_entry:
  assumes "map_of st k = Some a" "distinct (map fst st)" "keeps_window w now p"
  shows "(\<exists>b. map_of (dispatch_op E reg w p st) k = Some b \<and> supersedes_entry w a b) \<or>
    is_prune p \<and> of_int w < total_seconds (now - recorded_at a)"
proof (cases p)
  case (Dispatches q)
  then have "can_read (d_file q)" using assms(3) by (simp add: keeps_window_def)
  then show ?thesis using assms(1) idem_record_entry [OF assms(1)]
    by (auto simp: Dispatches dispatch_op_eq supersedes_entry_def split: sum.splits prod.splits)
next
  case (Prunes f n m)
  have "of_int w < total_seconds (now - recorded_at a)" if "of_int (case m of None \<Rightarrow> w | Some x \<Rightarrow> x) < total_seconds (n - recorded_at a)"
  proof -
    have "n \<le> now" "w \<le> (case m of None \<Rightarrow> w | Some x \<Rightarrow> x)" using assms(3) by (auto simp: keeps_window_def Prunes split: option.splits)
    then have "of_int w \<le> (of_int (case m of None \<Rightarrow> w | Some x \<Rightarrow> x) :: rat)"
      "total_seconds (n - recorded_at a) \<le> total_seconds (now - recorded_at a)" by (simp_all add: total_seconds_mono)
    then show ?thesis using that by linarith
  qed
  then show ?thesis using idem_prune_entry [OF assms(1,2), of f w n m]
    by (auto simp: Prunes dispatch_op_def supersedes_entry_def)
qed

text \<open>What is left of an entry after a history: an entry that supersedes it, or the window was over.\<close>

lemma run_entry:
  assumes "0 \<le> w" "map_of st k = Some a" "distinct (map fst st)" "list_all (keeps_window w now) ps"
  shows "(\<exists>b. map_of (run (dispatch_op E reg w) ps st) k = Some b \<and> supersedes_entry w a b) \<or>
    list_ex is_prune ps \<and> of_int w < total_seconds (now - recorded_at a)"
  using assms(2-4)
proof (induction ps arbitrary: st a)
  case Nil
  then show ?case by (simp add: supersedes_entry_def)
next
  case (Cons p ps)
  have p: "keeps_window w now p" "list_all (keeps_window w now) ps" using Cons.prems(3) by simp_all
  from dispatch_op_entry [OF Cons.prems(1,2) p(1), of E reg] show ?case
  proof
    assume "\<exists>b. map_of (dispatch_op E reg w p st) k = Some b \<and> supersedes_entry w a b"
    then obtain b where b: "map_of (dispatch_op E reg w p st) k = Some b" "supersedes_entry w a b" by blast
    have "0 < recorded_at b - recorded_at a \<or> recorded_at b = recorded_at a"
      using b(2) outside_positive [OF assms(1), of "recorded_at b - recorded_at a"] by (auto simp: supersedes_entry_def)
    then have "total_seconds (now - recorded_at b) \<le> total_seconds (now - recorded_at a)" by (intro total_seconds_mono) auto
    then show ?thesis using Cons.IH [OF b(1) distinct_keys_op [OF Cons.prems(2)] p(2)] supersedes_entry_trans [OF assms(1) b(2)] by auto
  qed simp
qed

section \<open>Guarantees\<close>

text \<open>C29: no handler runs on an event that failed a check. When a handler ran, the envelope it ran on came from the
  document of the call, is valid for its type pattern, and its registered schema accepted the data; with a secret
  configured, the HMAC of the payload the call signs was verified: the raw payload if one is passed, else the envelope
  itself, which must then be a text. When not both are passed, that signed payload is what the document was parsed from. When
  both are, the envelope need not be what was signed (\<open>dispatch_signature_not_bound\<close>).\<close>

theorem dispatch_fail_closed:
  assumes "ran (fst (dispatch_event E reg window q st)) = Some e"
  shows "(\<exists>s. get_schema reg (env_type e) = Some s \<and> validate_data E (JObj (env_data e)) s [] = Inr ()) \<and>
    (\<exists>doc. resolve_document E q = Inr doc \<and> validate_envelope E doc = Inr e \<and>
      (\<forall>secret. d_secret q = Some secret \<longrightarrow> (\<exists>raw sig. d_signature q = Some sig \<and>
         (d_raw q = Some raw \<or> d_raw q = None \<and> d_envelope q = Some (Raw raw)) \<and>
         verify_signature E raw secret (Some sig) (d_scheme q) \<and>
         (d_raw q = None \<or> d_envelope q = None \<longrightarrow> json_loads E raw = Some doc))))"
proof -
  obtain doc where c: "checked_envelope E reg q = Inr (e, doc)"
    using assms
    by (auto simp: dispatch_event_def ran_route dest: checked_no_run
        split: sum.splits prod.splits option.splits idem_status.splits if_splits)
  have doc: "resolve_document E q = Inr doc" using c by (auto simp: checked_envelope_def result_simps split: option.splits)
  have parsed: "json_loads E raw = Some doc" if "d_envelope q = Some (Raw raw) \<or> d_envelope q = None \<and> d_raw q = Some raw" for raw
    using doc that by (auto simp: resolve_document_def split: option.splits)
  have "\<exists>raw sig. d_signature q = Some sig \<and> (d_raw q = Some raw \<or> d_raw q = None \<and> d_envelope q = Some (Raw raw)) \<and>
       verify_signature E raw secret (Some sig) (d_scheme q)" if "d_secret q = Some secret" for secret
    using c that by (auto simp: checked_envelope_def check_signature_def result_simps
        split: option.splits event_input.splits if_splits)
  then have "\<forall>secret. d_secret q = Some secret \<longrightarrow> (\<exists>raw sig. d_signature q = Some sig \<and>
         (d_raw q = Some raw \<or> d_raw q = None \<and> d_envelope q = Some (Raw raw)) \<and>
         verify_signature E raw secret (Some sig) (d_scheme q) \<and>
         (d_raw q = None \<or> d_envelope q = None \<longrightarrow> json_loads E raw = Some doc))"
    using parsed by (metis option.distinct(1))
  then show ?thesis
    using c doc by (auto simp: checked_envelope_def result_simps split: option.splits)
qed

text \<open>C30: at most one run in a window. Of two dispatches to one store that both ran a handler for the same event id the later
  one came more than the window after the earlier one, by the clocks the calls were given, whatever dispatches and
  prunes lie between, when none of those dispatches and not the later call itself failed to read the store, and the
  prunes kept everything younger than the window and ran on no clock ahead of the later call's. Without a prune between them
  the two also carried the same payload hash. Writes may fail, and no assumption is made on the order of the dispatches'
  clocks. The calls follow each other: the store takes no lock.\<close>

theorem dispatch_once_per_window:
  assumes w: "0 \<le> w" and st: "distinct (map fst st)"
    and a: "ran (fst (dispatch_event E reg (Some w) q st)) = Some e"
      "checked_envelope E reg q = Inr (e, doc)"
    and ps: "list_all (keeps_window w (d_now r)) ps" "can_read (d_file r)"
    and b: "ran (fst (dispatch_event E reg (Some w) r (run (dispatch_op E reg w) (Dispatches q # ps) st))) = Some f"
      "checked_envelope E reg r = Inr (f, doc2)"
    and same: "env_id f = env_id e"
  shows "of_int w < total_seconds (d_now r - d_now q) \<and> (list_ex is_prune ps \<or> call_hash E r doc2 = call_hash E q doc)"
proof -
  let ?x = "\<lparr>payload_hash = call_hash E q doc, recorded_at = d_now q\<rparr>" and ?st = "dispatch_op E reg w (Dispatches q) st"
  have x: "map_of ?st (env_id e) = Some ?x"
    using a by (auto simp: ran_dispatch dispatch_op_eq idem_record_def idem_save_def update_conv Let_def split: option.splits if_splits)
  from run_entry [OF w x distinct_keys_op [OF st] ps(1)] show ?thesis
  proof
    assume "\<exists>y. map_of (run (dispatch_op E reg w) ps ?st) (env_id e) = Some y \<and> supersedes_entry w ?x y"
    then obtain y where y: "map_of (run (dispatch_op E reg w) (Dispatches q # ps) st) (env_id e) = Some y" "supersedes_entry w ?x y"
      by auto
    have z: "of_int w < total_seconds (d_now r - recorded_at y)" "payload_hash y = call_hash E r doc2"
      using b y(1) same ps(2) by (auto simp: ran_dispatch idem_record_def Let_def split: if_splits)
    have "of_int w < total_seconds (d_now r - d_now q)"
    proof (cases "recorded_at y = d_now q")
      case False
      then have "0 < recorded_at y - d_now q"
        using y(2) outside_positive [OF w, of "recorded_at y - d_now q"] by (auto simp: supersedes_entry_def)
      with z(1) show ?thesis
        using total_seconds_mono [of "d_now r - recorded_at y" "d_now r - d_now q"] by simp
    qed (use z(1) in simp)
    then show ?thesis using y(2) z(2) by (simp add: supersedes_entry_def)
  qed simp
qed

text \<open>The store fails open. \<open>_load\<close> answers the empty store on every error of a read: the call runs the handler again for an id it
  has just processed, whatever its payload, and writes the store back with this one entry.\<close>

theorem failed_load_runs_again:
  assumes "checked_envelope E reg q = Inr (e, doc)" "map_of (d_handlers q) (env_type e) \<noteq> None"
    and "\<not> can_read (d_file q)" "can_write (d_file q)"
  shows "ran (fst (dispatch_event E reg (Some w) q st)) = Some e \<and>
    dispatch_op E reg w (Dispatches q) st = [(env_id e, \<lparr>payload_hash = call_hash E q doc, recorded_at = d_now q\<rparr>)]"
  using assms by (simp add: ran_dispatch dispatch_op_eq idem_record_def idem_save_def)

text \<open>The signature does not cover the envelope. When a call passes both an envelope and a raw
  payload, the HMAC is checked on the raw payload and the handler runs on the envelope: any
  payload with a valid signature admits any valid envelope.\<close>

theorem dispatch_signature_not_bound:
  assumes "verify_signature E raw secret (Some sig) (d_scheme q)" "d_secret q = Some secret"
    "d_raw q = Some raw" "d_signature q = Some sig" "d_envelope q = Some (Doc doc)"
    "validate_envelope E doc = Inr e" "get_schema reg (env_type e) = Some s"
    "validate_data E (JObj (env_data e)) s [] = Inr ()" "map_of (d_handlers q) (env_type e) = Some h"
  shows "ran (fst (dispatch_event E reg None q st)) = Some e"
proof -
  have "is_obj doc" using assms(6) by (auto simp: validate_envelope_def split: json.splits)
  with assms have "checked_envelope E reg q = Inr (e, doc)"
    by (simp add: checked_envelope_def check_signature_def resolve_document_def)
  with assms(9) show ?thesis by (simp add: dispatch_event_def ran_route)
qed

section \<open>Sample calls\<close>

definition sample_eventlib :: eventlib where
  "sample_eventlib = \<lparr>host = sample_lib, hmac_hex = (\<lambda>_ _. replicate 64 (CHR ''0'')),
     json_loads = (\<lambda>_. None), iso_ok = (\<lambda>_. True), re_search = (\<lambda>_ _. False)\<rparr>"

definition sample_event :: json where
  "sample_event = JObj [(''id'', JStr ''e1''), (''type'', JStr ''cortxt.workflow.transition''),
     (''occurred_at'', JStr ''2026-01-01''), (''source'', JStr ''s''),
     (''data'', JObj [(''issue_id'', JStr ''1''), (''from'', JStr ''a''), (''to'', JStr ''b''),
       (''run_id'', JStr ''r''), (''claim_id'', JStr ''c'')])]"

definition sample_call :: "int \<Rightarrow> dispatch_call" where
  "sample_call now = \<lparr>d_envelope = Some (Doc sample_event),
     d_handlers = [(''cortxt.workflow.transition'', \<lambda>_. Inr JNull)], d_secret = Some ''k'',
     d_raw = Some ''other'', d_signature = Some (replicate 64 (CHR ''0'')), d_scheme = ''sha256'', d_now = now, d_file = \<lparr>can_read = True, can_write = True\<rparr>\<rparr>"

definition sample_envelope :: envelope where
  "sample_envelope = \<lparr>env_id = ''e1'', env_type = ''cortxt.workflow.transition'', env_occurred_at = ''2026-01-01'',
     env_source = ''s'', env_data = [(''issue_id'', JStr ''1''), (''from'', JStr ''a''), (''to'', JStr ''b''),
       (''run_id'', JStr ''r''), (''claim_id'', JStr ''c'')]\<rparr>"

lemma sample_envelope_ok: "validate_envelope sample_eventlib sample_event = Inr sample_envelope"
  by code_simp

lemma sample_schema: "get_schema DEFAULT_SCHEMAS (env_type sample_envelope) = Some CORTXT_WORKFLOW_TRANSITION_SCHEMA"
  by (simp add: get_schema_def DEFAULT_SCHEMAS_def sample_envelope_def)

lemma sample_data_ok:
  "validate_data sample_eventlib (JObj (env_data sample_envelope)) CORTXT_WORKFLOW_TRANSITION_SCHEMA [] = Inr ()"
  by code_simp

lemma sample_signature:
  "verify_signature sample_eventlib ''other'' ''k'' (Some (replicate 64 (CHR ''0''))) ''sha256''"
  by code_simp

lemma sample_checked:
  "checked_envelope sample_eventlib DEFAULT_SCHEMAS (sample_call n) = Inr (sample_envelope, sample_event)"
  using sample_envelope_ok sample_schema sample_data_ok sample_signature
  by (simp add: checked_envelope_def check_signature_def resolve_document_def sample_call_def sample_event_def)

lemma sample_handler: "map_of (d_handlers (sample_call n)) (env_type sample_envelope) \<noteq> None"
  by (simp add: sample_call_def sample_envelope_def)

lemma sample_clock [simp]: "d_now (sample_call n) = n"
  by (simp add: sample_call_def)

lemma sample_later: "of_int 300 < total_seconds 1000000000"
  by code_simp

lemma sample_file [simp]: "can_read (d_file (sample_call n))" "can_write (d_file (sample_call n))"
  by (simp_all add: sample_call_def)

lemma sample_ran:
  "ran (fst (dispatch_event sample_eventlib DEFAULT_SCHEMAS (Some 300) (sample_call 0) [])) = Some sample_envelope"
  using sample_checked sample_handler by (auto simp: ran_dispatch idem_record_def idem_save_def)

theorem dispatch_fail_closed_witness:
  "validate_data sample_eventlib (JObj (env_data sample_envelope)) CORTXT_WORKFLOW_TRANSITION_SCHEMA [] = Inr ()"
  using dispatch_fail_closed [OF sample_ran] sample_schema by auto

theorem dispatch_once_per_window_witness:
  "of_int 300 < total_seconds (d_now (sample_call 1000000000) - d_now (sample_call 0))"
proof -
  have h: "call_hash sample_eventlib (sample_call n) d = call_hash sample_eventlib (sample_call 0) d" for n d
    by (simp add: call_hash_def sample_call_def)
  let ?rw = "\<lparr>can_read = True, can_write = True\<rparr>"
  have ps: "list_all (keeps_window 300 (d_now (sample_call 1000000000))) [Prunes ?rw 0 (Some 600)]"
    by (simp add: keeps_window_def)
  have b: "ran (fst (dispatch_event sample_eventlib DEFAULT_SCHEMAS (Some 300) (sample_call 1000000000)
      (run (dispatch_op sample_eventlib DEFAULT_SCHEMAS 300) [Dispatches (sample_call 0), Prunes ?rw 0 (Some 600)] []))) = Some sample_envelope"
    using sample_checked sample_handler sample_later h [of 1000000000 sample_event]
    by (auto simp: ran_dispatch dispatch_op_eq dispatch_op_def [of _ _ _ "Prunes _ _ _"] idem_record_def idem_prune_def idem_save_def
        total_seconds_def rnd_def)
  have "(0 :: int) \<le> 300" "distinct (map fst ([] :: idem_store))" by simp_all
  from dispatch_once_per_window [OF this sample_ran sample_checked ps _ b sample_checked] show ?thesis by simp
qed

theorem failed_load_runs_again_witness:
  "ran (fst (dispatch_event sample_eventlib DEFAULT_SCHEMAS (Some 300) ((sample_call 0)\<lparr>d_file := \<lparr>can_read = False, can_write = True\<rparr>\<rparr>)
     [(''e1'', \<lparr>payload_hash = [], recorded_at = 0\<rparr>)])) = Some sample_envelope"
proof -
  let ?q = "(sample_call 0)\<lparr>d_file := \<lparr>can_read = False, can_write = True\<rparr>\<rparr>"
  have c: "checked_envelope sample_eventlib DEFAULT_SCHEMAS ?q = Inr (sample_envelope, sample_event)"
    using sample_envelope_ok sample_schema sample_data_ok sample_signature
    by (simp add: checked_envelope_def check_signature_def resolve_document_def sample_call_def sample_event_def)
  have "map_of (d_handlers ?q) (env_type sample_envelope) \<noteq> None" using sample_handler [of 0] by simp
  from failed_load_runs_again [OF c this] show ?thesis by simp
qed

theorem dispatch_signature_not_bound_witness:
  "ran (fst (dispatch_event sample_eventlib DEFAULT_SCHEMAS None (sample_call 0) [])) = Some sample_envelope"
proof -
  obtain h where "map_of (d_handlers (sample_call 0)) (env_type sample_envelope) = Some h"
    using sample_handler by blast
  with sample_envelope_ok sample_schema sample_data_ok sample_signature show ?thesis
    by (intro dispatch_signature_not_bound [where secret = "''k''" and raw = "''other''" and doc = sample_event])
      (auto simp: sample_call_def)
qed

end
