(* ===== verification/Session_State.thy ===== *)
theory Session_State
  imports Canonical Machines
begin

text \<open>
  \<open>agent-platform/runtime/session_state.py\<close> and \<open>session_writer.py\<close>: append-only, hash-chained
  session documents. The store is a list of files by session id; a file is what \<open>json.loads\<close>
  makes of it, \<open>None\<close> when it does not parse. The clock's text, the fresh \<open>uuid4\<close> digits and
  whether the file system accepts the write are arguments.
\<close>

datatype session_error = SessionError (s_category: string) (s_message: string)
  | Value_error | Type_error | Index_error | Attribute_error

definition SESSION_SCHEMA :: int where "SESSION_SCHEMA = 1"
definition ZERO_HASH :: string where "ZERO_HASH = replicate 64 (CHR ''0'')"

definition hex_run :: "nat \<Rightarrow> string \<Rightarrow> bool" where
  "hex_run n s \<longleftrightarrow> length s = n \<and> list_all is_hex s"

text \<open>\<open>SESSION_ID_RE\<close> and \<open>EVENT_TYPE_RE\<close>, both used with \<open>fullmatch\<close>.\<close>

definition session_id_re :: "string \<Rightarrow> bool" where
  "session_id_re s \<longleftrightarrow> startswith s ''session_'' \<and> hex_run 32 (drop 8 s)"

definition event_type_re :: "string \<Rightarrow> bool" where
  "event_type_re s = (case s of [] \<Rightarrow> False | c # r \<Rightarrow> is_lower c \<and> length r \<le> 63 \<and>
     list_all (\<lambda>d. is_lower d \<or> is_digit d \<or> d \<in> set ''_.-'') r)"

text \<open>\<open>canonical_json\<close>: \<open>None\<close> is the \<open>ValueError\<close> of \<open>allow_nan=False\<close>.\<close>

definition canonical_bytes :: "hostlib \<Rightarrow> json \<Rightarrow> string option" where
  "canonical_bytes H v = (if finite_json v then Some (dumps H False v) else None)"

lemma canonical_bytes_Some: "canonical_bytes H v = Some t \<longleftrightarrow> finite_json v \<and> t = dumps H False v"
  by (auto simp: canonical_bytes_def)

lemma canonical_bytes_norm [simp]: "canonical_bytes H (json_norm v) = canonical_bytes H v"
  by (simp add: canonical_bytes_def)

section \<open>Events and their chain\<close>

definition SIGNED_FIELDS :: "string list" where
  "SIGNED_FIELDS = [''sequence'', ''event_type'', ''payload'', ''previous_hash'', ''timestamp'']"

definition EVENT_FIELDS :: "string list" where
  "EVENT_FIELDS = SIGNED_FIELDS @ [''hash'']"

definition new_event :: "hostlib \<Rightarrow> string \<Rightarrow> nat \<Rightarrow> string \<Rightarrow> json \<Rightarrow> json \<Rightarrow> session_error + dict" where
  "new_event H now sequence event_type payload previous =
     (if \<not> event_type_re event_type then Inl (SessionError ''invalid_input'' ''invalid event_type'')
      else let unsigned = [(''sequence'', JInt (int sequence)), (''event_type'', JStr event_type),
        (''payload'', payload), (''previous_hash'', previous), (''timestamp'', JStr now)] in
        case canonical_bytes H (JObj unsigned) of
          None \<Rightarrow> Inl Value_error
        | Some text \<Rightarrow> Inr (unsigned @ [(''hash'', JStr (sha256 H text))]))"

definition integrity_error :: "string \<Rightarrow> session_error" where
  "integrity_error m = SessionError ''integrity_error'' m"

definition check_event :: "hostlib \<Rightarrow> nat \<Rightarrow> json \<Rightarrow> json \<Rightarrow> session_error + json" where
  "check_event H i previous v = (case v of
     JObj e \<Rightarrow>
       if \<not> keys_are e EVENT_FIELDS then Inl (integrity_error ''event has an invalid shape'')
       else if \<not> py_eq (dget e ''sequence'') (JInt (int i)) \<or> \<not> py_eq (dget e ''previous_hash'') previous
         then Inl (integrity_error ''event sequence or chain is invalid'')
       else (case canonical_bytes H (JObj (map (\<lambda>k. (k, dget e k)) SIGNED_FIELDS)) of
         None \<Rightarrow> Inl Value_error
       | Some text \<Rightarrow>
           if dget e ''hash'' \<noteq> JStr (sha256 H text) then Inl (integrity_error ''event hash is invalid'')
           else Inr (dget e ''hash''))
   | _ \<Rightarrow> Inl (integrity_error ''event has an invalid shape''))"

abbreviation chain_from :: "hostlib \<Rightarrow> nat \<Rightarrow> json \<Rightarrow> json list \<Rightarrow> session_error + json" where
  "chain_from H \<equiv> chain_by (check_event H)"

text \<open>
  \<open>_validate_chain\<close>. The events of a foreign document need not be a list: an empty string or
  object passes the loop, a longer one fails at its first element, and a value that cannot be
  iterated raises \<open>TypeError\<close>.
\<close>

definition check_events :: "hostlib \<Rightarrow> json \<Rightarrow> session_error + unit" where
  "check_events H events = (case events of
     JList es \<Rightarrow> bindE (chain_from H 0 (JStr ZERO_HASH) es) (\<lambda>_. Inr ())
   | JStr s \<Rightarrow> ensure (s = []) (integrity_error ''event has an invalid shape'')
   | JObj d \<Rightarrow> ensure (d = []) (integrity_error ''event has an invalid shape'')
   | _ \<Rightarrow> Inl Type_error)"

definition validate_chain :: "hostlib \<Rightarrow> json \<Rightarrow> string \<Rightarrow> session_error + unit" where
  "validate_chain H doc session_id = (case doc of
     JObj d \<Rightarrow>
       if \<not> keys_are d [''schema_version'', ''session_id'', ''events'']
         then Inl (integrity_error ''session has an invalid shape'')
       else if \<not> py_eq (dget d ''schema_version'') (JInt SESSION_SCHEMA) \<or> dget d ''session_id'' \<noteq> JStr session_id
         then Inl (integrity_error ''session identity is invalid'')
       else check_events H (dget d ''events'')
   | _ \<Rightarrow> Inl (integrity_error ''session has an invalid shape''))"

section \<open>The store\<close>

type_synonym session_store = "(string \<times> json option) list"

definition session_path :: "string \<Rightarrow> session_error + string" where
  "session_path session_id = (if session_id_re session_id then Inr session_id
     else Inl (SessionError ''invalid_input'' ''invalid session_id''))"

definition atomic_write :: "hostlib \<Rightarrow> bool \<Rightarrow> string \<Rightarrow> json \<Rightarrow> session_store
    \<Rightarrow> (session_error + json) \<times> session_store" where
  "atomic_write H writes path doc st = (case canonical_bytes H doc of
     None \<Rightarrow> (Inl Value_error, st)
   | Some _ \<Rightarrow>
       if \<not> writes then (Inl (SessionError ''io_error'' ''could not persist session''), st)
       else (Inr doc, AList.update path (Some (json_norm doc)) st))"

definition OPTIONAL_FIELDS :: "string list" where
  "OPTIONAL_FIELDS = [''workstream_id'', ''run_id'', ''issue_id'', ''branch'', ''worktree'',
     ''worker_role'', ''runtime'', ''plan_task_ref'']"

definition create_payload :: "json \<Rightarrow> dict \<Rightarrow> dict" where
  "create_payload task_id optional = (''task_id'', task_id) #
     filter (\<lambda>kv. snd kv \<noteq> JNull) (map (\<lambda>k. (k, dget optional k)) OPTIONAL_FIELDS)"

definition session_create :: "hostlib \<Rightarrow> string \<Rightarrow> string \<Rightarrow> bool \<Rightarrow> json \<Rightarrow> dict \<Rightarrow> session_store
    \<Rightarrow> (session_error + json) \<times> session_store" where
  "session_create H now uuid_hex writes task_id optional st =
     (if \<not> nonblank task_id
        then (Inl (SessionError ''invalid_input'' ''task_id must be a non-empty string''), st)
      else let session_id = ''session_'' @ uuid_hex in
        case new_event H now 0 ''session.created'' (JObj (create_payload task_id optional)) (JStr ZERO_HASH) of
          Inl e \<Rightarrow> (Inl e, st)
        | Inr event \<Rightarrow> (case session_path session_id of
            Inl e \<Rightarrow> (Inl e, st)
          | Inr path \<Rightarrow> atomic_write H writes path
              (JObj [(''schema_version'', JInt SESSION_SCHEMA), (''session_id'', JStr session_id),
                (''events'', JList [JObj event])]) st))"

definition session_load :: "hostlib \<Rightarrow> string \<Rightarrow> session_store \<Rightarrow> session_error + json" where
  "session_load H session_id st = bindE (session_path session_id) (\<lambda>path.
     case map_of st path of
       None \<Rightarrow> Inl (SessionError ''not_found'' ''session was not found'')
     | Some None \<Rightarrow> Inl (integrity_error ''session is not valid JSON'')
     | Some (Some doc) \<Rightarrow> bindE (validate_chain H doc session_id) (\<lambda>_. Inr doc))"

text \<open>\<open>len(session["events"]) - 1\<close> of a loaded document.\<close>

definition events_of :: "json \<Rightarrow> json list" where
  "events_of doc = (case doc of JObj d \<Rightarrow> (case dget d ''events'' of JList es \<Rightarrow> es | _ \<Rightarrow> []) | _ \<Rightarrow> [])"

definition latest_sequence :: "json \<Rightarrow> int" where
  "latest_sequence doc = int (length (events_of doc)) - 1"

text \<open>\<open>append\<close> up to its write: the loaded document with the new event.\<close>

definition conflict :: "int \<Rightarrow> int \<Rightarrow> session_error" where
  "conflict expected current = SessionError ''sequence_conflict''
     (''expected sequence '' @ dec_int expected @ '', found '' @ dec_int current)"

definition prepare_append :: "hostlib \<Rightarrow> string \<Rightarrow> string \<Rightarrow> int \<Rightarrow> string \<Rightarrow> json \<Rightarrow> session_store
    \<Rightarrow> session_error + json" where
  "prepare_append H now session_id expected event_type payload st =
     bindE (session_load H session_id st) (\<lambda>doc.
     if latest_sequence doc \<noteq> expected then Inl (conflict expected (latest_sequence doc))
     else (case doc of
       JObj d \<Rightarrow> (case dget d ''events'' of
         JList es \<Rightarrow>
           if es = [] then Inl Index_error
           else (case last es of
             JObj e \<Rightarrow> bindE (new_event H now (length es) event_type payload (dget e ''hash'')) (\<lambda>event.
               Inr (JObj (dset ''events'' (JList (es @ [JObj event])) d)))
           | _ \<Rightarrow> Inl Type_error)
       | _ \<Rightarrow> Inl Attribute_error)
     | _ \<Rightarrow> Inl Type_error))"

definition session_append :: "hostlib \<Rightarrow> string \<Rightarrow> bool \<Rightarrow> string \<Rightarrow> int \<Rightarrow> string \<Rightarrow> json \<Rightarrow> session_store
    \<Rightarrow> (session_error + json) \<times> session_store" where
  "session_append H now writes session_id expected event_type payload st =
     (case prepare_append H now session_id expected event_type payload st of
        Inl e \<Rightarrow> (Inl e, st)
      | Inr doc \<Rightarrow> atomic_write H writes session_id doc st)"

text \<open>\<open>SessionWriter.append\<close>: the lock makes the read of the sequence and the append one step.\<close>

definition writer_append :: "hostlib \<Rightarrow> string \<Rightarrow> bool \<Rightarrow> string \<Rightarrow> string \<Rightarrow> json \<Rightarrow> session_store
    \<Rightarrow> (session_error + json) \<times> session_store" where
  "writer_append H now writes session_id event_type payload st =
     (case session_load H session_id st of
        Inl e \<Rightarrow> (Inl e, st)
      | Inr doc \<Rightarrow> session_append H now writes session_id (latest_sequence doc) event_type payload st)"

section \<open>Lemmas\<close>

lemma new_event_Inr: "new_event H now n t pl p = Inr e \<longleftrightarrow> event_type_re t \<and> finite_json pl \<and> finite_json p \<and>
    e = (let u = [(''sequence'', JInt (int n)), (''event_type'', JStr t), (''payload'', pl),
      (''previous_hash'', p), (''timestamp'', JStr now)] in u @ [(''hash'', JStr (sha256 H (dumps H False (JObj u))))])"
  by (auto simp: new_event_def Let_def canonical_bytes_def)

lemma new_event_fields: "new_event H now n t pl p = Inr e \<Longrightarrow>
    dget e ''event_type'' = JStr t \<and> dget e ''payload'' = pl \<and> dget e ''sequence'' = JInt (int n)"
  by (auto simp: new_event_Inr Let_def)

lemma EVENT_FIELDS_eq: "EVENT_FIELDS = [''sequence'', ''event_type'', ''payload'', ''previous_hash'', ''timestamp'', ''hash'']"
  by (simp add: EVENT_FIELDS_def SIGNED_FIELDS_def)

text \<open>The event an append builds passes the check it will meet when it is read back.\<close>

lemma new_event_checks:
  assumes "new_event H now n t pl (JStr h) = Inr e"
  shows "check_event H n (JStr h) (json_norm (JObj e)) = Inr (dget e ''hash'')"
proof -
  have keys: "keys_are e EVENT_FIELDS"
    using assms by (auto simp: new_event_Inr Let_def keys_are_def dict_keys_def EVENT_FIELDS_eq)
  have signed: "JObj (map (\<lambda>k. (k, dget e k)) SIGNED_FIELDS) =
      JObj [(''sequence'', JInt (int n)), (''event_type'', JStr t), (''payload'', pl),
        (''previous_hash'', JStr h), (''timestamp'', JStr now)]" (is "_ = ?u")
    using assms by (simp add: new_event_Inr Let_def SIGNED_FIELDS_def)
  have body: "canonical_bytes H (JObj (map (\<lambda>k. (k, json_norm (dget e k))) SIGNED_FIELDS)) = Some (dumps H False ?u)"
    using assms unfolding canonical_bytes_Some dumps_map_norm signed
    by (auto simp: new_event_Inr SIGNED_FIELDS_def Let_def)
  show ?thesis
    using assms keys by (simp add: check_event_def body) (simp add: new_event_Inr Let_def)
qed

lemma check_event_hash: "check_event H i p v = Inr h \<Longrightarrow>
    \<exists>e t. v = JObj e \<and> h = dget e ''hash'' \<and> h = JStr (sha256 H t)"
  by (auto simp: check_event_def split: json.splits if_splits option.splits) metis

lemma chain_last_hash:
  assumes "chain_from H i p es = Inr h" "es \<noteq> []"
  shows "\<exists>e t. last es = JObj e \<and> h = dget e ''hash'' \<and> h = JStr (sha256 H t)"
  using assms by (rule chain_by_last) (rule check_event_hash)

section \<open>Every stored document is a valid chain\<close>

definition session_ok :: "hostlib \<Rightarrow> string \<Rightarrow> json \<Rightarrow> bool" where
  "session_ok H sid v \<longleftrightarrow> session_id_re sid \<and> json_norm v = v \<and> finite_json v \<and> validate_chain H v sid = Inr () \<and> events_of v \<noteq> []"

definition sessions_ok :: "hostlib \<Rightarrow> session_store \<Rightarrow> bool" where
  "sessions_ok H st \<longleftrightarrow> (\<forall>sid f. map_of st sid = Some f \<longrightarrow> (\<exists>v. f = Some v \<and> session_ok H sid v))"

lemma sessions_ok_load:
  "sessions_ok H st \<Longrightarrow> map_of st sid = Some f \<Longrightarrow> \<exists>v. f = Some v \<and> session_ok H sid v \<and> session_load H sid st = Inr v"
  unfolding sessions_ok_def session_ok_def session_load_def session_path_def by fastforce

lemma load_stored: "session_load H sid st = Inr v \<Longrightarrow> map_of st sid = Some (Some v)"
  by (auto simp: session_load_def session_path_def result_simps split: option.splits if_splits)

lemma validate_chain_events:
  assumes "validate_chain H (JObj d) sid = Inr ()" "dget d ''events'' = JList es"
  obtains h where "chain_from H 0 (JStr ZERO_HASH) es = Inr h"
  using assms by (auto simp: validate_chain_def check_events_def result_simps split: if_splits)

lemma session_ok_shape:
  assumes "session_ok H sid v"
  obtains d es h e t where "v = JObj d" "dget d ''events'' = JList es" "es \<noteq> []" "events_of v = es"
    "chain_from H 0 (JStr ZERO_HASH) es = Inr h" "last es = JObj e" "h = dget e ''hash''" "h = JStr (sha256 H t)"
    "map json_norm es = es"
proof -
  from assms obtain d es where v: "v = JObj d" and es: "dget d ''events'' = JList es" "es \<noteq> []"
    by (auto simp: session_ok_def events_of_def split: json.splits)
  obtain h where h: "chain_from H 0 (JStr ZERO_HASH) es = Inr h"
    using assms validate_chain_events [of H d sid es] es by (auto simp: session_ok_def v)
  obtain e t where e: "last es = JObj e" "h = dget e ''hash''" "h = JStr (sha256 H t)"
    using chain_last_hash [OF h es(2)] by auto
  have n: "JObj (sort_key fst (map_vals json_norm d)) = JObj d" using assms by (simp add: session_ok_def v)
  have "json_norm (dget d ''events'') = dget (sort_key fst (map_vals json_norm d)) ''events''" by simp
  also have "\<dots> = dget d ''events''" using n by (simp only: json.inject)
  finally have "map json_norm es = es" by (simp add: es(1))
  with that v es h e show thesis by (simp add: events_of_def)
qed

lemma py_eq_norm_int [simp]: "py_eq (json_norm v) (JInt n) = py_eq v (JInt n)"
  by (cases v) simp_all

lemma keys_are_dset: "keys_are d ks \<Longrightarrow> k \<in> set ks \<Longrightarrow> keys_are (dset k v d) ks"
  by (auto simp: keys_are_def dict_keys_dset)

lemma finite_dset: "finite_json (JObj d) \<Longrightarrow> finite_json v \<Longrightarrow> finite_json (JObj (dset k v d))"
  by (induction d) (auto simp: dset_def)

lemma finite_dget: "finite_json (JObj d) \<Longrightarrow> finite_json (dget d k)"
  by (fastforce simp: dget_def list_all_iff dest: map_of_SomeD split: option.split)

lemma new_event_finite: "new_event H now n t pl p = Inr e \<Longrightarrow> finite_json (JObj e)"
  by (simp add: new_event_Inr Let_def)

text \<open>What an accepted append writes: the old events and one more, in a document that is valid again.\<close>

lemma prepare_append_ok:
  assumes "sessions_ok H st" "prepare_append H now sid expected t pl st = Inr doc"
  obtains v e where "session_load H sid st = Inr v" "session_ok H sid v" "expected = latest_sequence v"
    "session_ok H sid (json_norm doc)" "events_of (json_norm doc) = events_of v @ [json_norm (JObj e)]"
    "new_event H now (length (events_of v)) t pl (dget e ''previous_hash'') = Inr e"
    "canonical_bytes H doc \<noteq> None"
proof -
  from assms(2) obtain v where l: "session_load H sid st = Inr v" and "\<not> latest_sequence v \<noteq> expected"
    unfolding prepare_append_def bindE_Inr by (auto split: if_splits)
  then have ex: "expected = latest_sequence v" by simp
  have ok: "session_ok H sid v" using sessions_ok_load [OF assms(1) load_stored [OF l]] by simp
  obtain d es h e0 x where sh: "v = JObj d" "dget d ''events'' = JList es" "es \<noteq> []" "events_of v = es"
    "chain_from H 0 (JStr ZERO_HASH) es = Inr h" "last es = JObj e0" "h = dget e0 ''hash''"
    "h = JStr (sha256 H x)" "map json_norm es = es"
    using ok by (rule session_ok_shape)
  from assms(2) obtain e where e: "new_event H now (length es) t pl h = Inr e"
    and doc: "doc = JObj (dset ''events'' (JList (es @ [JObj e])) d)"
    by (auto simp: prepare_append_def result_simps l ex sh split: if_splits)
  let ?es = "es @ [json_norm (JObj e)]"
  have chain: "chain_from H 0 (JStr ZERO_HASH) ?es = Inr (dget e ''hash'')"
    using e new_event_checks [of H now "length es" t pl "sha256 H x" e]
    by (simp add: chain_by_append sh(5) sh(8) del: json_norm.simps)
  have v: "keys_are d [''schema_version'', ''session_id'', ''events'']"
    "py_eq (dget d ''schema_version'') (JInt SESSION_SCHEMA)" "dget d ''session_id'' = JStr sid"
    using ok by (auto simp: session_ok_def validate_chain_def sh(1) split: if_splits)
  have ev: "events_of (json_norm doc) = ?es" by (simp add: doc events_of_def sh(9))
  have "finite_json (JList es)" using ok finite_dget [of d "''events''"] by (simp add: session_ok_def sh(1,2))
  have fin: "finite_json doc"
    unfolding doc using ok new_event_finite [OF e] \<open>finite_json (JList es)\<close>
    by (intro finite_dset) (simp_all add: session_ok_def sh(1))
  have ok': "session_ok H sid (json_norm doc)"
    unfolding session_ok_def ev
  proof (intro conjI)
    show "validate_chain H (json_norm doc) sid = Inr ()"
      using v chain by (simp add: doc validate_chain_def keys_are_dset check_events_def sh(9))
  qed (use ok fin in \<open>simp_all add: session_ok_def\<close>)
  have "dget e ''previous_hash'' = h" using e by (auto simp: new_event_Inr Let_def)
  then show thesis using that [OF l ok ex ok', of e] ev e sh(4) fin by (simp add: canonical_bytes_def)
qed

lemma create_ok:
  assumes "session_create H now u w task opt st = (Inr doc, st')"
  shows "st' = AList.update (''session_'' @ u) (Some (json_norm doc)) st \<and> session_ok H (''session_'' @ u) (json_norm doc)"
proof -
  from assms obtain e where e: "new_event H now 0 ''session.created'' (JObj (create_payload task opt)) (JStr ZERO_HASH) = Inr e"
    and p: "session_id_re (''session_'' @ u)"
    and st': "st' = AList.update (''session_'' @ u) (Some (json_norm doc)) st" and fin: "finite_json doc"
    and doc: "doc = JObj [(''schema_version'', JInt SESSION_SCHEMA), (''session_id'', JStr (''session_'' @ u)),
                (''events'', JList [JObj e])]"
    by (auto simp: session_create_def atomic_write_def session_path_def canonical_bytes_def Let_def
        split: if_splits sum.splits option.splits)
  have "chain_from H 0 (JStr ZERO_HASH) [json_norm (JObj e)] = Inr (dget e ''hash'')"
    using new_event_checks [OF e] by simp
  then have "session_ok H (''session_'' @ u) (json_norm doc)"
    using p fin finite_norm [of "JObj e"] by (simp add: session_ok_def doc validate_chain_def keys_are_def dict_keys_def check_events_def events_of_def
        insert_commute)
  with st' show ?thesis by simp
qed

lemma append_ok:
  assumes "sessions_ok H st" "session_append H now w sid n t pl st = (Inr doc, st')"
  shows "prepare_append H now sid n t pl st = Inr doc" "st' = AList.update sid (Some (json_norm doc)) st"
    "session_ok H sid (json_norm doc)"
proof -
  show p: "prepare_append H now sid n t pl st = Inr doc" and "st' = AList.update sid (Some (json_norm doc)) st"
    using assms(2) by (auto simp: session_append_def atomic_write_def split: sum.splits option.splits if_splits)
  show "session_ok H sid (json_norm doc)" by (rule prepare_append_ok [OF assms(1) p])
qed

lemma failed_call_keeps:
  "fst (session_append H now w sid n t pl st) = Inl x \<Longrightarrow> snd (session_append H now w sid n t pl st) = st"
  "fst (session_create H now u w task opt st) = Inl y \<Longrightarrow> snd (session_create H now u w task opt st) = st"
  by (auto simp: session_append_def session_create_def atomic_write_def Let_def split: sum.splits option.splits if_splits)

datatype session_call =
    Create string string bool json dict
  | Append string bool string int string json

fun session_step :: "hostlib \<Rightarrow> session_call \<Rightarrow> session_store \<Rightarrow> session_store" where
  "session_step H (Create now u w task opt) st = snd (session_create H now u w task opt st)"
| "session_step H (Append now w sid n t pl) st = snd (session_append H now w sid n t pl st)"

lemma sessions_ok_update:
  "sessions_ok H st \<Longrightarrow> session_ok H sid v \<Longrightarrow> sessions_ok H (AList.update sid (Some v) st)"
  by (simp add: sessions_ok_def update_conv')

lemma step_cases:
  assumes "sessions_ok H st"
  shows "session_step H c st = st \<or> (\<exists>sid doc. session_step H c st = AList.update sid (Some (json_norm doc)) st \<and>
    session_ok H sid (json_norm doc) \<and>
    (case c of Create now u w task opt \<Rightarrow> sid = ''session_'' @ u
     | Append now w i n t pl \<Rightarrow> sid = i \<and> prepare_append H now i n t pl st = Inr doc))"
proof (cases c)
  case (Create now u w task opt)
  show ?thesis
  proof (cases "session_create H now u w task opt st")
    case (Pair r st')
    then show ?thesis
      using failed_call_keeps(2) [of H now u w task opt st] create_ok [of H now u w task opt st]
      by (cases r) (auto simp: Create)
  qed
next
  case (Append now w sid n t pl)
  show ?thesis
  proof (cases "session_append H now w sid n t pl st")
    case (Pair r st')
    then show ?thesis
      using failed_call_keeps(1) [of H now w sid n t pl st] append_ok [OF assms, of now w sid n t pl]
      by (cases r) (auto simp: Append)
  qed
qed

interpretation sessions: invariant_machine "session_step H" "sessions_ok H" "\<lambda>_. True" for H
proof
  fix st c assume "sessions_ok H st"
  then show "sessions_ok H (session_step H c st)"
    using step_cases [of H st c] sessions_ok_update by metis
qed

lemma sessions_ok_run: "sessions_ok H (run (session_step H) cs [])"
  by (rule sessions.run_inv) (simp_all add: sessions_ok_def list_all_iff)

text \<open>Histories: \<open>uuid4\<close> never returns the digits of an id that is in use.\<close>

definition session_op :: "hostlib \<Rightarrow> session_call \<Rightarrow> session_store \<Rightarrow> session_store" where
  "session_op H c st = (case c of
     Create now u w task opt \<Rightarrow> if map_of st (''session_'' @ u) \<noteq> None then st else session_step H c st
   | _ \<Rightarrow> session_step H c st)"

definition stored_event :: "session_store \<Rightarrow> string \<times> nat \<Rightarrow> json option" where
  "stored_event st k = (case map_of st (fst k) of
     Some (Some v) \<Rightarrow> if snd k < length (events_of v) then Some (events_of v ! snd k) else None
   | _ \<Rightarrow> None)"

interpretation events: durable_machine "session_op H" "sessions_ok H" "\<lambda>_. True" stored_event for H
proof
  fix st c assume ok: "sessions_ok H st"
  show "sessions_ok H (session_op H c st)"
    using ok sessions.preserved [OF ok, of c] by (cases c) (auto simp: session_op_def)
  fix k v assume v: "stored_event st k = Some v"
  show "stored_event (session_op H c st) k = Some v"
  proof (cases "session_op H c st = st")
    case False
    then have "session_op H c st = session_step H c st" by (auto simp: session_op_def split: session_call.splits if_splits)
    with False step_cases [OF ok, of c] obtain sid doc where
      u: "session_op H c st = AList.update sid (Some (json_norm doc)) st" and
      c: "case c of Create now u w task opt \<Rightarrow> sid = ''session_'' @ u
          | Append now w i n t pl \<Rightarrow> sid = i \<and> prepare_append H now i n t pl st = Inr doc" by auto
    show ?thesis
    proof (cases "sid = fst k")
      case True
      then have "map_of st sid \<noteq> None" using v by (auto simp: stored_event_def split: option.splits)
      with c False obtain now w n t pl where p: "prepare_append H now sid n t pl st = Inr doc"
        by (auto simp: session_op_def split: session_call.splits)
      obtain x e where "session_load H sid st = Inr x"
        "events_of (json_norm doc) = events_of x @ [json_norm (JObj e)]"
        using prepare_append_ok [OF ok p] by metis
      then show ?thesis using v True
        by (auto simp: u stored_event_def update_conv' nth_append dest: load_stored split: if_splits)
    qed (use v in \<open>simp add: u stored_event_def update_conv'\<close>)
  qed (simp add: v)
qed

lemma reachable_ok: "sessions_ok H (run (session_op H) cs [])"
  by (rule events.run_inv) (simp_all add: sessions_ok_def list_all_iff)

lemma append_accepted:
  assumes "sessions_ok H st" "session_load H sid st = Inr v" "event_type_re t" "finite_json pl"
  obtains doc where "prepare_append H now sid (latest_sequence v) t pl st = Inr doc" "canonical_bytes H doc \<noteq> None"
proof -
  have "session_ok H sid v" using sessions_ok_load [OF assms(1) load_stored [OF assms(2)]] by simp
  then obtain d es h e x where sh: "v = JObj d" "dget d ''events'' = JList es" "es \<noteq> []" "events_of v = es"
    "last es = JObj e" "h = dget e ''hash''" "h = JStr (sha256 H x)" by (rule session_ok_shape)
  obtain ev where ev: "new_event H now (length es) t pl h = Inr ev"
    using assms(3,4) sh(7) by (simp add: new_event_Inr Let_def)
  then have "prepare_append H now sid (latest_sequence v) t pl st = Inr (JObj (dset ''events'' (JList (es @ [JObj ev])) d))"
    using sh by (simp add: prepare_append_def assms(2))
  then show thesis using prepare_append_ok [OF assms(1)] that by metis
qed

lemma create_accepted:
  assumes "nonblank task" "finite_json task" "finite_json (JObj opt)" "hex_run 32 u"
  obtains doc where "session_create H now u True task opt st = (Inr doc, AList.update (''session_'' @ u) (Some (json_norm doc)) st)"
proof -
  have sid: "session_id_re (''session_'' @ u)" using assms(4) by (simp add: session_id_re_def startswith_def)
  have pl: "finite_json (JObj (create_payload task opt))"
    using assms(2) finite_dget [OF assms(3)] by (auto simp: create_payload_def list_all_iff)
  obtain e where e: "new_event H now 0 ''session.created'' (JObj (create_payload task opt)) (JStr ZERO_HASH) = Inr e"
    using pl by (simp add: new_event_Inr Let_def event_type_re_def is_lower_def is_digit_def del: finite_json.simps)
      (simp add: new_event_def)
  then show thesis
    using sid assms(1) new_event_finite [OF e]
    by (intro that [of "JObj [(''schema_version'', JInt SESSION_SCHEMA), (''session_id'', JStr (''session_'' @ u)),
        (''events'', JList [JObj e])]"])
      (simp add: session_create_def session_path_def atomic_write_def canonical_bytes_def Let_def)
qed

section \<open>Guarantees\<close>

text \<open>C32: a session store always loads. After any history of creations and appends, whatever of
  their arguments, clocks and failing writes, every file of the store parses and its hash
  chain, sequence numbers and identity validate.\<close>

theorem session_store_loads:
  assumes "map_of (run (session_op H) cs []) sid = Some f"
  shows "\<exists>v. f = Some v \<and> session_load H sid (run (session_op H) cs []) = Inr v \<and> 0 \<le> latest_sequence v"
proof -
  obtain v where "f = Some v" "session_ok H sid v" "session_load H sid (run (session_op H) cs []) = Inr v"
    using sessions_ok_load [OF reachable_ok assms] by auto
  moreover from \<open>session_ok H sid v\<close> have "events_of v \<noteq> []" by (simp add: session_ok_def)
  then have "0 \<le> latest_sequence v" by (cases "events_of v") (simp_all add: latest_sequence_def)
  ultimately show ?thesis by simp
qed

text \<open>recorded events never change. An event at some position of a session stays there, byte for
  byte of its canonical form, whatever creations and appends follow.\<close>

theorem session_events_stay:
  assumes "stored_event (run (session_op H) cs []) (sid, i) = Some e"
  shows "stored_event (run (session_op H) (cs @ ds) []) (sid, i) = Some e"
  unfolding run_append by (rule events.run_stays [OF reachable_ok _ assms]) (simp add: list_all_iff)

text \<open>An append is read back. When an append reports success, the expected sequence was the
  session's latest one, and loading the session returns the old events and one more, whose
  type and payload are the given ones and whose previous hash is the last old hash.\<close>

theorem session_append_roundtrip:
  assumes "session_append H now w sid n t pl (run (session_op H) cs []) = (Inr doc, st')"
  shows "\<exists>v e. session_load H sid (run (session_op H) cs []) = Inr v \<and> n = latest_sequence v \<and>
    session_load H sid st' = Inr (json_norm doc) \<and> events_of (json_norm doc) = events_of v @ [json_norm (JObj e)] \<and>
    dget e ''event_type'' = JStr t \<and> dget e ''payload'' = pl \<and> dget e ''sequence'' = JInt (n + 1)"
proof -
  note ok = reachable_ok [of H cs]
  note a = append_ok [OF ok assms]
  obtain v e where v: "session_load H sid (run (session_op H) cs []) = Inr v" "n = latest_sequence v"
    "events_of (json_norm doc) = events_of v @ [json_norm (JObj e)]"
    "new_event H now (length (events_of v)) t pl (dget e ''previous_hash'') = Inr e"
    using prepare_append_ok [OF ok a(1)] by metis
  have "session_load H sid st' = Inr (json_norm doc)"
    using sessions_ok_load [OF sessions_ok_update [OF ok a(3)], of sid] a(2) by (simp add: update_conv')
  moreover have "dget e ''event_type'' = JStr t \<and> dget e ''payload'' = pl \<and> dget e ''sequence'' = JInt (n + 1)"
    using new_event_fields [OF v(4)] by (simp add: latest_sequence_def v(2))
  ultimately show ?thesis using v by blast
qed

text \<open>a stale append is refused. After an append at some expected sequence succeeded, the next one
  that expects the same sequence changes nothing and reports the sequence it found.\<close>

theorem session_stale_append_refused:
  assumes "session_append H now w sid n t pl (run (session_op H) cs []) = (Inr doc, st')"
  shows "session_append H now' w' sid n t' pl' st' = (Inl (conflict n (n + 1)), st')"
proof -
  note ok = reachable_ok [of H cs]
  note a = append_ok [OF ok assms]
  obtain v e where v: "n = latest_sequence v" "events_of (json_norm doc) = events_of v @ [json_norm (JObj e)]"
    using prepare_append_ok [OF ok a(1)] by metis
  have "session_load H sid st' = Inr (json_norm doc)"
    using sessions_ok_load [OF sessions_ok_update [OF ok a(3)], of sid] a(2) by (simp add: update_conv')
  moreover have "latest_sequence (json_norm doc) = n + 1" by (simp add: latest_sequence_def v)
  ultimately show ?thesis by (simp add: session_append_def prepare_append_def)
qed

text \<open>the serialized writer never meets a conflict. On a session that loads, an append of a
  well-formed event type and a finite payload succeeds when the file can be written.\<close>

theorem writer_append_accepts:
  assumes "session_load H sid (run (session_op H) cs []) = Inr v" "event_type_re t" "finite_json pl"
  shows "\<exists>doc. fst (writer_append H now True sid t pl (run (session_op H) cs [])) = Inr doc"
proof -
  obtain doc where "prepare_append H now sid (latest_sequence v) t pl (run (session_op H) cs []) = Inr doc"
    "canonical_bytes H doc \<noteq> None"
    by (rule append_accepted [OF reachable_ok assms])
  then show ?thesis by (auto simp: writer_append_def session_append_def atomic_write_def assms(1))
qed

text \<open>The optimistic check does not cover the write. When two processes both read a session
  before either writes, both appends report success, and the store ends as if the first had
  never been made: its event is lost.\<close>

theorem session_overlapping_appends:
  assumes "prepare_append H now sid n t pl (run (session_op H) cs []) = Inr doc"
    "prepare_append H now' sid n t' pl' (run (session_op H) cs []) = Inr doc'"
  shows "\<exists>st1. atomic_write H True sid doc (run (session_op H) cs []) = (Inr doc, st1) \<and>
    atomic_write H True sid doc' st1 = (Inr doc', snd (session_append H now' True sid n t' pl' (run (session_op H) cs [])))"
proof -
  have "canonical_bytes H doc \<noteq> None" "canonical_bytes H doc' \<noteq> None"
    using prepare_append_ok [OF reachable_ok assms(1)] prepare_append_ok [OF reachable_ok assms(2)] by metis+
  then obtain b b' where "canonical_bytes H doc = Some b" "canonical_bytes H doc' = Some b'" by auto
  then show ?thesis by (simp add: session_append_def assms(2) atomic_write_def)
qed

section \<open>A sample session\<close>

definition sample_sid :: string where "sample_sid = ''session_'' @ replicate 32 (CHR ''0'')"

definition sample_calls :: "session_call list" where
  "sample_calls = [Create ''2026-01-01T00:00:00.000000Z'' (replicate 32 (CHR ''0'')) True (JStr ''task'') []]"

abbreviation sample_sessions :: session_store where
  "sample_sessions \<equiv> run (session_op sample_lib) sample_calls []"

lemma sample_loads:
  obtains v where "session_load sample_lib sample_sid sample_sessions = Inr v"
    "map_of sample_sessions sample_sid = Some (Some v)" "events_of v \<noteq> []"
proof -
  let ?u = "replicate 32 (CHR ''0'')"
  have "nonblank (JStr ''task'')" by (simp add: nonblank_def blank_def is_space_def)
  moreover have "hex_run 32 ?u" by (simp add: hex_run_def is_hex_def is_digit_def list_all_iff)
  ultimately obtain doc where d: "session_create sample_lib ''2026-01-01T00:00:00.000000Z'' ?u True (JStr ''task'') [] [] =
      (Inr doc, AList.update (''session_'' @ ?u) (Some (json_norm doc)) [])"
    using create_accepted [of "JStr ''task''" "[]" ?u sample_lib _ "[]"] by (auto simp: finite_json.simps)
  have m: "map_of sample_sessions sample_sid = Some (Some (json_norm doc))"
    using d by (simp add: sample_calls_def session_op_def sample_sid_def)
  then obtain v where "v = json_norm doc" "session_ok sample_lib sample_sid v"
    "session_load sample_lib sample_sid sample_sessions = Inr v"
    using sessions_ok_load [OF reachable_ok m] by auto
  then show thesis using that m by (simp add: session_ok_def)
qed

lemma sample_prepare:
  assumes "session_load sample_lib sample_sid sample_sessions = Inr v"
  obtains doc where
    "prepare_append sample_lib now sample_sid (latest_sequence v) ''note'' (JObj []) sample_sessions = Inr doc"
    "session_append sample_lib now True sample_sid (latest_sequence v) ''note'' (JObj []) sample_sessions =
       (Inr doc, AList.update sample_sid (Some (json_norm doc)) sample_sessions)"
proof -
  have "event_type_re ''note''" by (simp add: event_type_re_def is_lower_def)
  then obtain doc where "prepare_append sample_lib now sample_sid (latest_sequence v) ''note'' (JObj []) sample_sessions = Inr doc"
    "canonical_bytes sample_lib doc \<noteq> None"
    using append_accepted [OF reachable_ok assms, of "''note''" "JObj []" now] by auto
  with that show thesis by (auto simp: session_append_def atomic_write_def)
qed

theorem session_store_loads_witness:
  "\<exists>v. session_load sample_lib sample_sid sample_sessions = Inr v \<and> 0 \<le> latest_sequence v"
proof (rule sample_loads)
  fix v assume "map_of sample_sessions sample_sid = Some (Some v)"
  from session_store_loads [OF this] show ?thesis by auto
qed

theorem session_events_stay_witness:
  "\<exists>e. stored_event (run (session_op sample_lib) (sample_calls @ sample_calls) []) (sample_sid, 0) = Some e"
proof (rule sample_loads)
  fix v assume "map_of sample_sessions sample_sid = Some (Some v)" "events_of v \<noteq> []"
  then have "stored_event sample_sessions (sample_sid, 0) = Some (hd (events_of v))"
    by (simp add: stored_event_def hd_conv_nth)
  from session_events_stay [OF this] show ?thesis by blast
qed

theorem session_append_roundtrip_witness:
  "\<exists>v e w st'. session_load sample_lib sample_sid sample_sessions = Inr v \<and>
    session_load sample_lib sample_sid st' = Inr w \<and> events_of w = events_of v @ [json_norm (JObj e)]"
proof (rule sample_loads)
  fix v assume "session_load sample_lib sample_sid sample_sessions = Inr v"
  then show ?thesis by (rule sample_prepare) (use session_append_roundtrip in blast)
qed

theorem session_stale_append_refused_witness:
  "\<exists>n st'. session_append sample_lib [] True sample_sid n ''note'' (JObj []) st' = (Inl (conflict n (n + 1)), st')"
proof (rule sample_loads)
  fix v assume "session_load sample_lib sample_sid sample_sessions = Inr v"
  then show ?thesis by (rule sample_prepare) (use session_stale_append_refused in blast)
qed

theorem writer_append_accepts_witness:
  "\<exists>doc. fst (writer_append sample_lib [] True sample_sid ''note'' (JObj []) sample_sessions) = Inr doc"
proof (rule sample_loads)
  fix v assume "session_load sample_lib sample_sid sample_sessions = Inr v"
  then show ?thesis by (rule writer_append_accepts) (simp_all add: event_type_re_def is_lower_def)
qed

theorem session_overlapping_appends_witness:
  "\<exists>doc doc' n st1. atomic_write sample_lib True sample_sid doc sample_sessions = (Inr doc, st1) \<and>
    atomic_write sample_lib True sample_sid doc' st1 =
      (Inr doc', snd (session_append sample_lib ''b'' True sample_sid n ''note'' (JObj []) sample_sessions))"
proof (rule sample_loads)
  fix v assume v: "session_load sample_lib sample_sid sample_sessions = Inr v"
  obtain doc doc' where
    "prepare_append sample_lib ''a'' sample_sid (latest_sequence v) ''note'' (JObj []) sample_sessions = Inr doc"
    "prepare_append sample_lib ''b'' sample_sid (latest_sequence v) ''note'' (JObj []) sample_sessions = Inr doc'"
    using sample_prepare [OF v, of "''a''"] sample_prepare [OF v, of "''b''"] by metis
  from session_overlapping_appends [OF this] show ?thesis by blast
qed

end
