(* ===== verification/Ledger.thy ===== *)
theory Ledger
  imports Core_Store_Props Session_State
begin

text \<open>
  \<open>agent-platform/state/ledger.py\<close> with the provider policy of \<open>inference/provider_policy.py\<close>: one
  hash-chained ledger file per run. A file is its length in bytes and what \<open>json.loads\<close> makes
  of it, as in the core store. The texts of the clock, the fresh \<open>uuid4\<close> digits, what
  \<open>parse_budget\<close> makes of the budget, the lock and the outcome of the write are arguments; the
  checks of the path for links are not modelled.
\<close>

section \<open>The provider policy\<close>

definition EVIDENCE_FIELDS :: "string list" where
  "EVIDENCE_FIELDS = [''provider_id'', ''approved'', ''zero_data_retention'', ''encryption'', ''dpa'',
     ''subprocessors_published'', ''hosting_region_published'', ''incident_process_published'',
     ''independent_assurance'']"

definition requirements :: "string \<Rightarrow> string list option" where
  "requirements level = map_of [
     (''L0'', [''approved'']),
     (''L1'', [''approved'', ''zero_data_retention'', ''encryption'']),
     (''L2'', [''approved'', ''zero_data_retention'', ''encryption'', ''dpa'', ''subprocessors_published'',
       ''hosting_region_published'', ''incident_process_published''])] level"

record policy_decision =
  allowed :: bool
  decision_class :: string
  provider_id :: string
  reasons :: "string list"

text \<open>
  \<open>evaluate_provider\<close> on evidence the dataclass accepted. A status is an enumeration member
  exactly when its text is one of the three values, so \<open>is COMPLETED\<close> reads as that text.
\<close>

definition evaluate_provider :: "string \<Rightarrow> dict \<Rightarrow> policy_decision" where
  "evaluate_provider data_class evidence =
     (let raw = dget evidence ''provider_id'';
          pid = (case raw of JStr s \<Rightarrow> s | _ \<Rightarrow> ''unknown'');
          denied = (\<lambda>rs. \<lparr>allowed = False, decision_class = data_class, provider_id = pid, reasons = rs\<rparr>) in
      if data_class \<notin> {''L0'', ''L1'', ''L2'', ''L3''} then denied [''unknown_data_class'']
      else if \<not> nonblank raw then denied [''missing_provider_evidence'']
      else case requirements data_class of
        None \<Rightarrow> denied [''l3_policy_not_defined'']
      | Some fs \<Rightarrow>
          let missing = map (\<lambda>f. ''missing_'' @ f) (filter (\<lambda>f. dget evidence f \<noteq> JBool True) fs) @
            (if data_class = ''L2'' \<and> dget evidence ''independent_assurance'' \<noteq> JStr ''completed''
             then [''independent_assurance_not_completed''] else []) in
          if missing \<noteq> [] then denied missing
          else \<lparr>allowed = True, decision_class = data_class, provider_id = pid, reasons = [''requirements_satisfied'']\<rparr>)"

datatype ledger_error = LedgerError (l_category: string) (l_message: string) (l_exit: nat)

text \<open>\<open>evaluate_evidence\<close>: \<open>ProviderEvidence(**evidence)\<close> needs the two fields without a default and takes no other names.\<close>

definition evaluate_evidence :: "string \<Rightarrow> json \<Rightarrow> ledger_error + json" where
  "evaluate_evidence data_class v = (case v of
     JObj d \<Rightarrow>
       if \<not> list_all (\<lambda>k. k \<in> set EVIDENCE_FIELDS) (dict_keys d) \<or> \<not> has_key d ''provider_id'' \<or> \<not> has_key d ''approved''
         then Inl (LedgerError ''invalid_input'' ''provider evidence has an invalid schema'' 3)
       else (let r = evaluate_provider data_class d in
         if \<not> allowed r then Inl (LedgerError ''policy_denied'' ''authoritative provider policy denied the run'' 3)
         else Inr (JObj [(''allowed'', JBool (allowed r)), (''data_class'', JStr (decision_class r)),
           (''provider_id'', JStr (provider_id r)), (''reasons'', JList (map JStr (reasons r)))]))
   | _ \<Rightarrow> Inl (LedgerError ''invalid_input'' ''provider evidence must be an object'' 3))"

section \<open>Bounded input\<close>

text \<open>\<open>_validate_json_shape\<close> is, limits and messages included, the function of the core store.\<close>

definition ledger_shape :: "json \<Rightarrow> ledger_error + unit" where
  "ledger_shape v = bindE (mapErr (\<lambda>e. LedgerError (category e) (message e) (exit_code e)) (shape 0 v 0)) (\<lambda>_. Inr ())"

definition ledger_json :: "hostlib \<Rightarrow> json \<Rightarrow> ledger_error + string" where
  "ledger_json H v = (case canonical_bytes H v of
     None \<Rightarrow> Inl (LedgerError ''invalid_input'' ''value cannot be represented as canonical JSON'' 3)
   | Some t \<Rightarrow> Inr t)"

definition utf8_length :: "string \<Rightarrow> nat" where
  "utf8_length s = length s + length (filter (\<lambda>c. 128 \<le> (of_char c :: nat)) s)"

text \<open>\<open>read_json_file\<close> of an input file, \<open>None\<close> when it is not a regular file.\<close>

definition read_json_file :: "blob option \<Rightarrow> ledger_error + json" where
  "read_json_file f = (case f of
     None \<Rightarrow> Inl (LedgerError ''invalid_input'' ''input must be a regular file'' 3)
   | Some b \<Rightarrow>
       if MAX_JSON_BYTES < blob_size b then Inl (LedgerError ''invalid_input'' ''input exceeds size limit'' 3)
       else (case blob_doc b of
         None \<Rightarrow> Inl (LedgerError ''invalid_input'' ''input is not valid bounded JSON'' 3)
       | Some v \<Rightarrow> bindE (ledger_shape v) (\<lambda>_. Inr v)))"

section \<open>Events and their chain\<close>

definition run_id_re :: "string \<Rightarrow> bool" where
  "run_id_re s \<longleftrightarrow> startswith s ''run_'' \<and> hex_run 32 (drop 4 s)"

definition LEDGER_SIGNED :: "string list" where
  "LEDGER_SIGNED = [''event_type'', ''payload'', ''previous_hash'', ''run_id'', ''schema_version'', ''sequence'', ''timestamp'']"

definition LEDGER_FIELDS :: "string list" where
  "LEDGER_FIELDS = LEDGER_SIGNED @ [''hash'']"

definition ledger_event :: "hostlib \<Rightarrow> string \<Rightarrow> string \<Rightarrow> nat \<Rightarrow> string \<Rightarrow> json \<Rightarrow> string \<Rightarrow> ledger_error + dict" where
  "ledger_event H now rid sequence event_type payload previous =
     (let unsigned = [(''event_type'', JStr event_type), (''payload'', payload), (''previous_hash'', JStr previous),
        (''run_id'', JStr rid), (''schema_version'', JInt SCHEMA_VERSION), (''sequence'', JInt (int sequence)),
        (''timestamp'', JStr now)] in
      bindE (ledger_json H (JObj unsigned)) (\<lambda>t. Inr (unsigned @ [(''hash'', JStr (sha256 H t))])))"

definition corrupt :: "string \<Rightarrow> ledger_error" where
  "corrupt m = LedgerError ''integrity_error'' m 6"

definition check_ledger_event :: "hostlib \<Rightarrow> string \<Rightarrow> nat \<Rightarrow> string \<Rightarrow> json \<Rightarrow> ledger_error + string" where
  "check_ledger_event H rid i previous v = (case v of
     JObj e \<Rightarrow>
       if \<not> keys_are e LEDGER_FIELDS then Inl (corrupt ''event has an invalid schema'')
       else if dget e ''sequence'' \<noteq> JInt (int i) then Inl (corrupt ''event sequence is invalid'')
       else if dget e ''schema_version'' \<noteq> JInt SCHEMA_VERSION then Inl (corrupt ''event schema version is invalid'')
       else if dget e ''run_id'' \<noteq> JStr rid \<or> dget e ''previous_hash'' \<noteq> JStr previous
         then Inl (corrupt ''event context or chain is invalid'')
       else if \<not> (case dget e ''event_type'' of JStr s \<Rightarrow> event_type_re s | _ \<Rightarrow> False)
         then Inl (corrupt ''event type is invalid'')
       else if \<not> validate_utc (dget e ''timestamp'') then Inl (corrupt ''event timestamp is not canonical UTC'')
       else bindE (ledger_json H (JObj (map (\<lambda>k. (k, dget e k)) LEDGER_SIGNED))) (\<lambda>t.
         if dget e ''hash'' \<noteq> JStr (sha256 H t) then Inl (corrupt ''event hash is invalid'')
         else Inr (sha256 H t))
   | _ \<Rightarrow> Inl (corrupt ''event has an invalid schema''))"

definition validate_ledger :: "hostlib \<Rightarrow> json \<Rightarrow> string \<Rightarrow> ledger_error + unit" where
  "validate_ledger H ledger rid = (case ledger of
     JObj d \<Rightarrow>
       if \<not> keys_are d [''schema_version'', ''run_id'', ''events''] then Inl (corrupt ''ledger has an invalid schema'')
       else if dget d ''schema_version'' \<noteq> JInt SCHEMA_VERSION then Inl (corrupt ''ledger schema version is invalid'')
       else if dget d ''run_id'' \<noteq> JStr rid then Inl (corrupt ''ledger identity is invalid'')
       else (case dget d ''events'' of
         JList es \<Rightarrow> if es = [] then Inl (corrupt ''ledger must contain events'')
           else bindE (chain_by (check_ledger_event H rid) 0 ZERO_HASH es) (\<lambda>_. Inr ())
       | _ \<Rightarrow> Inl (corrupt ''ledger must contain events''))
   | _ \<Rightarrow> Inl (corrupt ''ledger has an invalid schema''))"

section \<open>The store\<close>

type_synonym ledger_store = "(string \<times> blob) list"

definition run_path :: "string \<Rightarrow> ledger_error + string" where
  "run_path rid = (if run_id_re rid then Inr rid else Inl (LedgerError ''invalid_input'' ''invalid run_id'' 3))"

definition ledger_blob :: "hostlib \<Rightarrow> json \<Rightarrow> blob" where
  "ledger_blob H v = \<lparr>blob_size = Suc (utf8_length (dumps H False v)), blob_doc = Some (json_norm v)\<rparr>"

text \<open>\<open>_replace\<close>; a failed directory sync leaves the new file in place and is reported all the same.\<close>

definition ledger_replace :: "hostlib \<Rightarrow> bool \<Rightarrow> bool \<Rightarrow> string \<Rightarrow> json \<Rightarrow> ledger_store
    \<Rightarrow> (ledger_error + json) \<times> ledger_store" where
  "ledger_replace H writes syncs rid ledger st = (case ledger_json H ledger of
     Inl e \<Rightarrow> (Inl e, st)
   | Inr _ \<Rightarrow>
       if \<not> writes then (Inl (LedgerError ''io_error'' ''could not persist ledger'' 7), st)
       else let st' = AList.update rid (ledger_blob H ledger) st in
         if \<not> syncs then (Inl (LedgerError ''io_error'' ''could not synchronize ledger directory'' 7), st')
         else (Inr ledger, st'))"

definition bounded_text :: "json \<Rightarrow> bool" where
  "bounded_text v = (case v of JStr s \<Rightarrow> \<not> blank s \<and> length s \<le> 256 | _ \<Rightarrow> False)"

text \<open>\<open>create\<close> up to its writes: the ledger with its first event.\<close>

definition ledger_opening :: "hostlib \<Rightarrow> string \<Rightarrow> string \<Rightarrow> json \<Rightarrow> json \<Rightarrow> json \<Rightarrow> ledger_error + string
    \<Rightarrow> blob option \<Rightarrow> ledger_error + json" where
  "ledger_opening H now rid task_id data_class workflow budget evidence_file =
     bindE (ensure (bounded_text task_id \<and> bounded_text data_class \<and> bounded_text workflow)
       (LedgerError ''invalid_input'' ''task_id, data_class, and workflow must be bounded strings'' 3)) (\<lambda>_.
     bindE (read_json_file evidence_file) (\<lambda>evidence.
     bindE (evaluate_evidence (text_of data_class) evidence) (\<lambda>decision.
     bindE budget (\<lambda>max_cost.
     bindE (run_path rid) (\<lambda>_.
     bindE (ledger_event H now rid 0 ''run.created''
       (JObj [(''budget'', JObj [(''max_cost_usd'', JStr max_cost)]), (''data_class'', data_class),
         (''policy_decision'', decision), (''task_id'', task_id), (''workflow'', workflow)]) ZERO_HASH) (\<lambda>e.
     Inr (JObj [(''schema_version'', JInt SCHEMA_VERSION), (''run_id'', JStr rid), (''events'', JList [JObj e])])))))))"

definition ledger_create :: "hostlib \<Rightarrow> string \<Rightarrow> string \<Rightarrow> bool \<Rightarrow> bool \<Rightarrow> json \<Rightarrow> json \<Rightarrow> json
    \<Rightarrow> ledger_error + string \<Rightarrow> blob option \<Rightarrow> ledger_store \<Rightarrow> (ledger_error + json) \<times> ledger_store" where
  "ledger_create H now uuid_hex writes syncs task_id data_class workflow budget evidence_file st =
     (let rid = ''run_'' @ uuid_hex in
      case ledger_opening H now rid task_id data_class workflow budget evidence_file of
        Inl e \<Rightarrow> (Inl e, st)
      | Inr ledger \<Rightarrow>
          if map_of st rid \<noteq> None then (Inl (LedgerError ''io_error'' ''could not create run directory'' 7), st)
          else ledger_replace H writes syncs rid ledger st)"

definition not_found :: ledger_error where
  "not_found = LedgerError ''not_found'' ''run ledger was not found'' 4"

definition ledger_load :: "hostlib \<Rightarrow> string \<Rightarrow> ledger_store \<Rightarrow> ledger_error + json" where
  "ledger_load H rid st = bindE (run_path rid) (\<lambda>path.
     case map_of st path of
       None \<Rightarrow> Inl not_found
     | Some b \<Rightarrow>
         if MAX_JSON_BYTES < blob_size b then Inl (corrupt ''ledger exceeds size limit'')
         else (case blob_doc b of
           None \<Rightarrow> Inl (corrupt ''ledger is not valid bounded JSON'')
         | Some v \<Rightarrow> bindE (mapErr (\<lambda>e. if l_category e = ''invalid_input'' then corrupt (l_message e) else e) (ledger_shape v)) (\<lambda>_.
             bindE (validate_ledger H v rid) (\<lambda>_. Inr v))))"

text \<open>\<open>append\<close> up to its write: the loaded ledger with the new event.\<close>

definition ledger_prepare :: "hostlib \<Rightarrow> string \<Rightarrow> bool \<Rightarrow> string \<Rightarrow> int \<Rightarrow> string \<Rightarrow> blob option \<Rightarrow> ledger_store
    \<Rightarrow> ledger_error + json" where
  "ledger_prepare H now locked rid expected event_type payload_file st =
     bindE (ensure (0 \<le> expected) (LedgerError ''invalid_input'' ''expected_sequence must be a nonnegative integer'' 3)) (\<lambda>_.
     bindE (ensure (event_type_re event_type) (LedgerError ''invalid_input'' ''invalid event_type'' 3)) (\<lambda>_.
     bindE (read_json_file payload_file) (\<lambda>payload.
     bindE (run_path rid) (\<lambda>path.
     bindE (ensure (map_of st path \<noteq> None) not_found) (\<lambda>_.
     bindE (ensure (\<not> locked) (LedgerError ''sequence_conflict'' ''another append is in progress'' 5)) (\<lambda>_.
     bindE (ledger_load H rid st) (\<lambda>ledger.
     let current = latest_sequence ledger in
     bindE (ensure (current = expected) (LedgerError ''sequence_conflict''
       (''expected sequence '' @ dec_int expected @ '', found '' @ dec_int current) 5)) (\<lambda>_.
     case (ledger, last (events_of ledger)) of
       (JObj d, JObj e) \<Rightarrow>
         bindE (ledger_event H now rid (length (events_of ledger)) event_type payload (text_of (dget e ''hash''))) (\<lambda>event.
           Inr (JObj (dset ''events'' (JList (events_of ledger @ [JObj event])) d)))
     | _ \<Rightarrow> Inl not_found))))))))"

definition ledger_append :: "hostlib \<Rightarrow> string \<Rightarrow> bool \<Rightarrow> bool \<Rightarrow> bool \<Rightarrow> string \<Rightarrow> int \<Rightarrow> string \<Rightarrow> blob option
    \<Rightarrow> ledger_store \<Rightarrow> (ledger_error + json) \<times> ledger_store" where
  "ledger_append H now locked writes syncs rid expected event_type payload_file st =
     (case ledger_prepare H now locked rid expected event_type payload_file st of
        Inl e \<Rightarrow> (Inl e, st)
      | Inr ledger \<Rightarrow> ledger_replace H writes syncs rid ledger st)"

section \<open>Lemmas\<close>

lemma ledger_json_Inr [result_simps]: "ledger_json H v = Inr t \<longleftrightarrow> finite_json v \<and> t = dumps H False v"
  by (auto simp: ledger_json_def canonical_bytes_def split: if_splits)

lemma ledger_event_Inr: "ledger_event H now rid n t pl p = Inr e \<longleftrightarrow> finite_json pl \<and>
    e = (let u = [(''event_type'', JStr t), (''payload'', pl), (''previous_hash'', JStr p), (''run_id'', JStr rid),
        (''schema_version'', JInt SCHEMA_VERSION), (''sequence'', JInt (int n)), (''timestamp'', JStr now)]
      in u @ [(''hash'', JStr (sha256 H (dumps H False (JObj u))))])"
  by (auto simp: ledger_event_def Let_def result_simps)

lemma ledger_event_finite: "ledger_event H now rid n t pl p = Inr e \<Longrightarrow> finite_json (JObj e)"
  by (simp add: ledger_event_Inr Let_def)

lemma ledger_event_fields: "ledger_event H now rid n t pl p = Inr e \<Longrightarrow> dget e ''payload'' = pl \<and> (''payload'', pl) \<in> set e"
  by (auto simp: ledger_event_Inr Let_def)

lemma LEDGER_FIELDS_eq: "LEDGER_FIELDS = [''event_type'', ''payload'', ''previous_hash'', ''run_id'', ''schema_version'',
    ''sequence'', ''timestamp'', ''hash'']"
  by (simp add: LEDGER_FIELDS_def LEDGER_SIGNED_def)

lemma ledger_event_checks:
  assumes "ledger_event H now rid n t pl p = Inr e" "event_type_re t" "validate_utc (JStr now)"
  shows "\<exists>h. check_ledger_event H rid n p (json_norm (JObj e)) = Inr h \<and> dget e ''hash'' = JStr h"
proof -
  have keys: "keys_are e LEDGER_FIELDS"
    using assms(1) by (auto simp: ledger_event_Inr Let_def keys_are_def dict_keys_def LEDGER_FIELDS_eq)
  have signed: "JObj (map (\<lambda>k. (k, dget e k)) LEDGER_SIGNED) =
      JObj [(''event_type'', JStr t), (''payload'', pl), (''previous_hash'', JStr p), (''run_id'', JStr rid),
        (''schema_version'', JInt SCHEMA_VERSION), (''sequence'', JInt (int n)), (''timestamp'', JStr now)]" (is "_ = ?u")
    using assms(1) by (simp add: ledger_event_Inr Let_def LEDGER_SIGNED_def)
  have body: "ledger_json H (JObj (map (\<lambda>k. (k, json_norm (dget e k))) LEDGER_SIGNED)) = Inr (dumps H False ?u)"
    using assms(1) unfolding ledger_json_Inr dumps_map_norm signed
    by (auto simp: ledger_event_Inr LEDGER_SIGNED_def Let_def)
  show ?thesis
    using assms keys by (simp add: check_ledger_event_def body) (simp add: ledger_event_Inr Let_def)
qed

lemma check_ledger_hash: "check_ledger_event H rid i p v = Inr h \<Longrightarrow> \<exists>e. v = JObj e \<and> dget e ''hash'' = JStr h"
  by (auto simp: check_ledger_event_def result_simps split: json.splits if_splits)

lemma ledger_chain_last:
  assumes "chain_by (check_ledger_event H rid) i p es = Inr h" "es \<noteq> []"
  shows "\<exists>e. last es = JObj e \<and> dget e ''hash'' = JStr h"
  using assms by (rule chain_by_last) (rule check_ledger_hash)

text \<open>A document a run file may hold, whatever its size.\<close>

definition ledger_ok :: "hostlib \<Rightarrow> string \<Rightarrow> json \<Rightarrow> bool" where
  "ledger_ok H rid v \<longleftrightarrow> run_id_re rid \<and> json_norm v = v \<and> finite_json v \<and> validate_ledger H v rid = Inr ()"

definition ledgers_ok :: "hostlib \<Rightarrow> ledger_store \<Rightarrow> bool" where
  "ledgers_ok H st \<longleftrightarrow> (\<forall>rid b. map_of st rid = Some b \<longrightarrow> (\<exists>v. b = ledger_blob H v \<and> ledger_ok H rid (json_norm v)))"

lemma ledger_ok_shape:
  assumes "ledger_ok H rid v"
  obtains d es h e where "v = JObj d" "dget d ''events'' = JList es" "es \<noteq> []" "events_of v = es"
    "chain_by (check_ledger_event H rid) 0 ZERO_HASH es = Inr h" "last es = JObj e" "dget e ''hash'' = JStr h"
    "map json_norm es = es"
proof -
  from assms obtain d es h where v: "v = JObj d" "dget d ''events'' = JList es" "es \<noteq> []"
    "chain_by (check_ledger_event H rid) 0 ZERO_HASH es = Inr h"
    by (auto simp: ledger_ok_def validate_ledger_def result_simps split: json.splits if_splits)
  obtain e where e: "last es = JObj e" "dget e ''hash'' = JStr h" using ledger_chain_last [OF v(4,3)] by auto
  have n: "JObj (sort_key fst (map_vals json_norm d)) = JObj d" using assms by (simp add: ledger_ok_def v)
  have "json_norm (dget d ''events'') = dget (sort_key fst (map_vals json_norm d)) ''events''" by simp
  also have "\<dots> = dget d ''events''" using n by (simp only: json.inject)
  finally have "map json_norm es = es" by (simp add: v(2))
  with that v e show thesis by (simp add: events_of_def)
qed

lemma ledger_ok_append:
  assumes ok: "ledger_ok H rid (JObj d)" and ev: "dget d ''events'' = JList es"
    and ch: "chain_by (check_ledger_event H rid) 0 ZERO_HASH es = Inr h" and n: "map json_norm es = es"
    and e: "ledger_event H now rid (length es) t pl h = Inr e" and t: "event_type_re t" "validate_utc (JStr now)"
  shows "ledger_ok H rid (json_norm (JObj (dset ''events'' (JList (es @ [JObj e])) d)))"
proof -
  let ?doc = "JObj (dset ''events'' (JList (es @ [JObj e])) d)"
  have "finite_json (JList es)" using ok finite_dget [of d "''events''"] by (simp add: ledger_ok_def ev)
  then have fin: "finite_json ?doc"
    using ok ledger_event_finite [OF e] by (intro finite_dset) (simp_all add: ledger_ok_def)
  obtain h' where "check_ledger_event H rid (length es) h (json_norm (JObj e)) = Inr h'"
    using ledger_event_checks [OF e t] by auto
  then have chain: "chain_by (check_ledger_event H rid) 0 ZERO_HASH (es @ [json_norm (JObj e)]) = Inr h'"
    by (simp add: chain_by_append ch del: json_norm.simps)
  have v: "keys_are d [''schema_version'', ''run_id'', ''events'']"
    "dget d ''schema_version'' = JInt SCHEMA_VERSION" "dget d ''run_id'' = JStr rid"
    using ok by (auto simp: ledger_ok_def validate_ledger_def split: if_splits)
  have "validate_ledger H (json_norm ?doc) rid = Inr ()"
    using v chain by (simp add: validate_ledger_def keys_are_dset n)
  then show ?thesis using ok fin unfolding ledger_ok_def json_norm_idem finite_norm by simp
qed

lemma ledger_shape_Inr: "ledger_shape v = Inr () \<longleftrightarrow> bounded_json v"
  by (auto simp: ledger_shape_def result_simps shape_bounded)

lemma ledger_load_Inr:
  "ledger_load H rid st = Inr v \<Longrightarrow> \<exists>b. map_of st rid = Some b \<and> blob_doc b = Some v \<and> validate_ledger H v rid = Inr () \<and>
     bounded_json v \<and> blob_size b \<le> MAX_JSON_BYTES \<and> run_id_re rid"
  by (auto simp: ledger_load_def run_path_def ledger_shape_def result_simps shape_bounded
      split: option.splits if_splits)

text \<open>A file with a valid document is read back exactly when it is within the bounds of the reader.\<close>

lemma ledger_load_blob:
  assumes "map_of st rid = Some (ledger_blob H v)" "ledger_ok H rid (json_norm v)"
  shows "(ledger_load H rid st = Inr (json_norm v) \<longleftrightarrow>
      bounded_json v \<and> Suc (utf8_length (dumps H False v)) \<le> MAX_JSON_BYTES) \<and>
    (ledger_load H rid st \<noteq> Inr (json_norm v) \<longrightarrow> (\<exists>m. ledger_load H rid st = Inl (corrupt m)))"
proof (cases "shape 0 (json_norm v) 0")
  case (Inl x)
  then have "\<not> bounded_json (json_norm v)" using shape_bounded [of "json_norm v"] by auto
  then show ?thesis
    using assms Inl shape_category(1) [OF Inl]
    by (auto simp: ledger_load_def run_path_def ledger_ok_def ledger_blob_def ledger_shape_def)
next
  case (Inr n)
  then have "bounded_json v" using shape_bounded [of "json_norm v"] by auto
  then show ?thesis
    using assms Inr by (auto simp: ledger_load_def run_path_def ledger_ok_def ledger_blob_def ledger_shape_def)
qed

lemma ledger_replace_cases:
  "snd (ledger_replace H w y rid doc st) \<in> {st, AList.update rid (ledger_blob H doc) st}"
  "fst (ledger_replace H w y rid doc st) = Inr doc' \<Longrightarrow>
     doc' = doc \<and> snd (ledger_replace H w y rid doc st) = AList.update rid (ledger_blob H doc) st"
  by (auto simp: ledger_replace_def Let_def split: sum.splits if_splits)

lemma ledger_prepare_Inr:
  assumes "ledger_prepare H now l rid n t f st = Inr doc"
  obtains d e h pl where "ledger_load H rid st = Inr (JObj d)" "last (events_of (JObj d)) = JObj e"
    "latest_sequence (JObj d) = n" "read_json_file f = Inr pl" "event_type_re t"
    "ledger_event H now rid (length (events_of (JObj d))) t pl (text_of (dget e ''hash'')) = Inr h"
    "doc = JObj (dset ''events'' (JList (events_of (JObj d) @ [JObj h])) d)"
proof -
  from assms obtain pl v where v: "ledger_load H rid st = Inr v" "latest_sequence v = n" "read_json_file f = Inr pl" "event_type_re t"
    and c: "(case (v, last (events_of v)) of (JObj d, JObj e) \<Rightarrow>
         bindE (ledger_event H now rid (length (events_of v)) t pl (text_of (dget e ''hash''))) (\<lambda>h.
           Inr (JObj (dset ''events'' (JList (events_of v @ [JObj h])) d)))
     | _ \<Rightarrow> Inl not_found) = Inr doc"
    unfolding ledger_prepare_def by (auto simp: result_simps Let_def)
  show thesis
  proof (cases v)
    case (JObj d)
    show thesis
    proof (cases "last (events_of v)")
      case (JObj e)
      with c v show thesis by (auto simp: \<open>v = JObj d\<close> result_simps intro: that)
    qed (use c in \<open>simp_all add: JObj\<close>)
  qed (use c in simp_all)
qed

lemma ledger_prepare_loads: "ledger_prepare H now l rid n t f st = Inr doc \<Longrightarrow> \<exists>v. ledger_load H rid st = Inr v"
  by (erule ledger_prepare_Inr) blast

text \<open>An accepted append writes a document that is a valid chain again, in bounds or not.\<close>

lemma ledger_prepare_ok:
  assumes ok: "ledgers_ok H st" and p: "ledger_prepare H now l rid n t f st = Inr doc" and now: "validate_utc (JStr now)"
  obtains v h pl where "ledger_load H rid st = Inr v" "latest_sequence v = n" "read_json_file f = Inr pl"
    "ledger_ok H rid (json_norm doc)" "dget h ''payload'' = pl" "(''payload'', pl) \<in> set h"
    "events_of doc = events_of v @ [JObj h]" "events_of (json_norm doc) = events_of v @ [json_norm (JObj h)]"
proof (rule ledger_prepare_Inr [OF p])
  fix d e h pl
  assume l: "ledger_load H rid st = Inr (JObj d)" "latest_sequence (JObj d) = n" "read_json_file f = Inr pl"
    and last: "last (events_of (JObj d)) = JObj e" and t: "event_type_re t"
    and h: "ledger_event H now rid (length (events_of (JObj d))) t pl (text_of (dget e ''hash'')) = Inr h"
    and doc: "doc = JObj (dset ''events'' (JList (events_of (JObj d) @ [JObj h])) d)"
  have v: "ledger_ok H rid (JObj d)"
    using ok ledger_load_Inr [OF l(1)] by (fastforce simp: ledgers_ok_def ledger_blob_def)
  then obtain es hx where sh: "dget d ''events'' = JList es" "events_of (JObj d) = es"
    "chain_by (check_ledger_event H rid) 0 ZERO_HASH es = Inr hx" "dget e ''hash'' = JStr hx" "map json_norm es = es"
    by (rule ledger_ok_shape) (use last in auto)
  have "ledger_ok H rid (json_norm doc)"
    unfolding doc sh(2)
    by (rule ledger_ok_append [OF v sh(1,3,5) _ t now]) (use h in \<open>simp add: sh(2,4) text_of_def\<close>)
  then show thesis
    using that [OF l, of h] ledger_event_fields [OF h] by (simp add: doc events_of_def sh)
qed

lemma ledger_append_accepted:
  assumes ok: "ledgers_ok H st" and l: "ledger_load H rid st = Inr v" and t: "event_type_re t" and f: "read_json_file f = Inr pl"
  obtains doc where "ledger_append H now False True True rid (latest_sequence v) t f st =
    (Inr doc, AList.update rid (ledger_blob H doc) st)"
proof -
  have okv: "ledger_ok H rid v" using ok ledger_load_Inr [OF l] by (fastforce simp: ledgers_ok_def ledger_blob_def)
  then have fin: "finite_json v" by (simp add: ledger_ok_def)
  obtain d es hx e where sh: "v = JObj d" "dget d ''events'' = JList es" "es \<noteq> []" "events_of v = es" "last es = JObj e"
    "dget e ''hash'' = JStr hx" using okv by (rule ledger_ok_shape)
  have "finite_json pl"
    using f by (auto simp: read_json_file_def result_simps ledger_shape_Inr bounded_json_def texts_ok_finite split: option.splits if_splits)
  then obtain h where h: "ledger_event H now rid (length es) t pl hx = Inr h" by (simp add: ledger_event_Inr)
  have "finite_json (JList (es @ [JObj h]))"
    using finite_dget [of d "''events''"] fin ledger_event_finite [OF h] by (simp add: sh)
  then have fd: "finite_json (JObj (dset ''events'' (JList (es @ [JObj h])) d))"
    using fin by (intro finite_dset) (simp_all add: sh(1))
  obtain b where "map_of st rid = Some b" "run_id_re rid" using ledger_load_Inr [OF l] by auto
  then have "ledger_prepare H now False rid (latest_sequence v) t f st = Inr (JObj (dset ''events'' (JList (es @ [JObj h])) d))"
    using h sh t f by (simp add: ledger_prepare_def l run_path_def latest_sequence_def text_of_def Suc_leI)
  with that show thesis using fd by (simp add: ledger_append_def ledger_replace_def ledger_json_def canonical_bytes_def)
qed

lemma ledger_opening_ok:
  assumes p: "ledger_opening H now rid task cls flow budget f = Inr doc" and now: "validate_utc (JStr now)"
  shows "ledger_ok H rid (json_norm doc)"
proof -
  from p obtain pl e where rid: "run_id_re rid" and e: "ledger_event H now rid 0 ''run.created'' pl ZERO_HASH = Inr e"
    and doc: "doc = JObj [(''schema_version'', JInt SCHEMA_VERSION), (''run_id'', JStr rid), (''events'', JList [JObj e])]"
    by (auto simp: ledger_opening_def result_simps run_path_def split: if_splits)
  have "event_type_re ''run.created''" by (simp add: event_type_re_def is_lower_def is_digit_def)
  then obtain h where "check_ledger_event H rid 0 ZERO_HASH (json_norm (JObj e)) = Inr h"
    using ledger_event_checks [OF e _ now] by auto
  then have "validate_ledger H (json_norm doc) rid = Inr ()"
    by (simp add: doc validate_ledger_def keys_are_def dict_keys_def insert_commute)
  moreover have "finite_json doc" using ledger_event_finite [OF e] by (simp add: doc)
  ultimately show ?thesis using rid unfolding ledger_ok_def json_norm_idem finite_norm by simp
qed

lemma height_member: "x \<in> set xs \<Longrightarrow> Suc (height x) \<le> height (JList xs)"
  using height_list [of 0 xs "height (JList xs)"] by auto

lemma height_value: "(k, x) \<in> set d \<Longrightarrow> Suc (height x) \<le> height (JObj d)"
  using height_obj [of 0 d "height (JObj d)"] by auto

lemma deep_event: assumes "events_of doc = es @ [v]" shows "height v + 2 \<le> height doc"
proof -
  obtain d where doc: "doc = JObj d" and "dget d ''events'' = JList (es @ [v])"
    using assms by (auto simp: events_of_def split: json.splits)
  then have "(''events'', JList (es @ [v])) \<in> set d" by (auto simp: dget_def dest: map_of_SomeD split: option.splits)
  from height_value [OF this] height_member [of v "es @ [v]"] show ?thesis by (simp add: doc)
qed

section \<open>Histories\<close>

datatype ledger_call =
    Open_run string string bool bool json json json "ledger_error + string" "blob option"
  | Extend_run string bool bool bool string int string "blob option"

fun ledger_op :: "hostlib \<Rightarrow> ledger_call \<Rightarrow> ledger_store \<Rightarrow> ledger_store" where
  "ledger_op H (Open_run now u w y task cls flow budget f) st = snd (ledger_create H now u w y task cls flow budget f st)"
| "ledger_op H (Extend_run now l w y rid n t f) st = snd (ledger_append H now l w y rid n t f st)"

text \<open>The clock text of \<open>utc_now\<close> is canonical.\<close>

fun clock_ok :: "ledger_call \<Rightarrow> bool" where
  "clock_ok (Open_run now u w y task cls flow budget f) = validate_utc (JStr now)"
| "clock_ok (Extend_run now l w y rid n t f) = validate_utc (JStr now)"

lemma ledger_op_cases:
  "ledger_op H c st = st \<or> (\<exists>rid doc. ledger_op H c st = AList.update rid (ledger_blob H doc) st \<and>
    (case c of
       Open_run now u w y task cls flow budget f \<Rightarrow>
         map_of st rid = None \<and> ledger_opening H now rid task cls flow budget f = Inr doc
     | Extend_run now l w y i n t f \<Rightarrow> rid = i \<and> ledger_prepare H now l i n t f st = Inr doc))"
proof (cases c)
  case (Open_run now u w y task cls flow budget f)
  show ?thesis
    using ledger_replace_cases(1) [of H w y "''run_'' @ u" _ st]
    by (cases "ledger_opening H now (''run_'' @ u) task cls flow budget f")
      (auto simp: Open_run ledger_create_def Let_def)
next
  case (Extend_run now l w y i n t f)
  show ?thesis
    using ledger_replace_cases(1) [of H w y i _ st]
    by (cases "ledger_prepare H now l i n t f st") (auto simp: Extend_run ledger_append_def)
qed

lemma ledgers_ok_update:
  "ledgers_ok H st \<Longrightarrow> ledger_ok H rid (json_norm v) \<Longrightarrow> ledgers_ok H (AList.update rid (ledger_blob H v) st)"
  unfolding ledgers_ok_def update_conv' by (auto split: if_splits)

definition recorded_event :: "ledger_store \<Rightarrow> string \<times> nat \<Rightarrow> json option" where
  "recorded_event st k = (case map_of st (fst k) of
     None \<Rightarrow> None
   | Some b \<Rightarrow> (case blob_doc b of
       None \<Rightarrow> None
     | Some v \<Rightarrow> if snd k < length (events_of v) then Some (events_of v ! snd k) else None))"

interpretation runs: durable_machine "ledger_op H" "ledgers_ok H" clock_ok recorded_event for H
proof
  fix st c assume ok: "ledgers_ok H st" and c: "clock_ok c"
  from ledger_op_cases [of H c st] show "ledgers_ok H (ledger_op H c st)"
  proof (elim disjE exE conjE)
    fix rid doc
    assume u: "ledger_op H c st = AList.update rid (ledger_blob H doc) st"
      and d: "case c of
        Open_run now u w y task cls flow budget f \<Rightarrow>
          map_of st rid = None \<and> ledger_opening H now rid task cls flow budget f = Inr doc
      | Extend_run now l w y i n t f \<Rightarrow> rid = i \<and> ledger_prepare H now l i n t f st = Inr doc"
    have "ledger_ok H rid (json_norm doc)"
      using d c ledger_opening_ok ledger_prepare_ok [OF ok] by (cases c) (auto, metis)
    then show ?thesis by (simp add: u ledgers_ok_update [OF ok])
  qed (simp add: ok)
next
  fix st c k v assume ok: "ledgers_ok H st" and c: "clock_ok c" and v: "recorded_event st k = Some v"
  from ledger_op_cases [of H c st] show "recorded_event (ledger_op H c st) k = Some v"
  proof (elim disjE exE conjE)
    fix rid doc
    assume u: "ledger_op H c st = AList.update rid (ledger_blob H doc) st"
      and d: "case c of
        Open_run now u w y task cls flow budget f \<Rightarrow>
          map_of st rid = None \<and> ledger_opening H now rid task cls flow budget f = Inr doc
      | Extend_run now l w y i n t f \<Rightarrow> rid = i \<and> ledger_prepare H now l i n t f st = Inr doc"
    show ?thesis
    proof (cases "rid = fst k")
      case True
      with v d obtain now l n t f where p: "ledger_prepare H now l rid n t f st = Inr doc" and "validate_utc (JStr now)"
        using c by (cases c) (auto simp: recorded_event_def)
      then obtain x h where l: "ledger_load H rid st = Inr x"
        and e: "events_of (json_norm doc) = events_of x @ [json_norm (JObj h)]"
        using ledger_prepare_ok [OF ok] by metis
      show ?thesis using v ledger_load_Inr [OF l] True e
        by (auto simp: u recorded_event_def update_conv' ledger_blob_def nth_append split: if_splits)
    qed (use v in \<open>simp add: u recorded_event_def update_conv'\<close>)
  qed (simp add: v)
qed

lemma ledgers_reachable: "list_all clock_ok cs \<Longrightarrow> ledgers_ok H (run (ledger_op H) cs [])"
  by (rule runs.run_inv) (simp add: ledgers_ok_def)

text \<open>A run whose file cannot be loaded is never written again.\<close>

lemma ledger_load_local: "map_of st rid = map_of st' rid \<Longrightarrow> ledger_load H rid st = ledger_load H rid st'"
  by (simp add: ledger_load_def run_path_def bindE_def split: sum.split)

interpretation stuck: invariant_machine "ledger_op H" "\<lambda>st. map_of st rid = Some b \<and> ledger_load H rid st = Inl e" "\<lambda>_. True"
  for H rid b e
proof
  fix st c assume st: "map_of st rid = Some b \<and> ledger_load H rid st = Inl e"
  have "map_of (ledger_op H c st) rid = map_of st rid"
    using ledger_op_cases [of H c st] st
    by (cases c) (auto simp: update_conv' simp del: ledger_op.simps dest!: ledger_prepare_loads)
  with st show "map_of (ledger_op H c st) rid = Some b \<and> ledger_load H rid (ledger_op H c st) = Inl e"
    using ledger_load_local [of "ledger_op H c st" rid st H] by simp
qed

section \<open>Guarantees\<close>

text \<open>a ledger is append-only. An event recorded at some position of a run stays there whatever
  creations, appends, lock conflicts and failing writes follow.\<close>

theorem ledger_events_stay:
  assumes "list_all clock_ok (cs @ ds)" "recorded_event (run (ledger_op H) cs []) (rid, i) = Some e"
  shows "recorded_event (run (ledger_op H) (cs @ ds) []) (rid, i) = Some e"
  using assms by (auto simp: run_append intro: runs.run_stays ledgers_reachable)

text \<open>An accepted append is read back exactly when the whole ledger is within the limits of the
  reader: then loading returns the old events and the new one, and otherwise it reports an
  integrity error.\<close>

theorem ledger_append_readback:
  assumes "list_all clock_ok cs" "validate_utc (JStr now)"
    "ledger_append H now l w y rid n t f (run (ledger_op H) cs []) = (Inr doc, st')"
  shows "\<exists>v h. ledger_load H rid (run (ledger_op H) cs []) = Inr v \<and> n = latest_sequence v \<and>
    events_of (json_norm doc) = events_of v @ [json_norm (JObj h)] \<and>
    (if bounded_json doc \<and> utf8_length (dumps H False doc) < MAX_JSON_BYTES
     then ledger_load H rid st' = Inr (json_norm doc)
     else \<exists>m. ledger_load H rid st' = Inl (corrupt m))"
proof -
  note ok = ledgers_reachable [OF assms(1), of H]
  have p: "ledger_prepare H now l rid n t f (run (ledger_op H) cs []) = Inr doc"
    and st': "st' = AList.update rid (ledger_blob H doc) (run (ledger_op H) cs [])"
    using assms(3) by (auto simp: ledger_append_def ledger_replace_def Let_def split: sum.splits if_splits)
  obtain v h where v: "ledger_load H rid (run (ledger_op H) cs []) = Inr v" "latest_sequence v = n"
    "ledger_ok H rid (json_norm doc)" "events_of (json_norm doc) = events_of v @ [json_norm (JObj h)]"
    using ledger_prepare_ok [OF ok p assms(2)] by metis
  have "map_of st' rid = Some (ledger_blob H doc)" by (simp add: st' update_conv')
  from ledger_load_blob [OF this v(3)] v show ?thesis by (auto simp: Suc_le_eq)
qed

text \<open>An append can end a run. The bounds of an input are checked before it is embedded in the
  ledger: an accepted payload nested more than 29 levels deep makes the ledger's file
  unreadable, and no later call reads or extends the run again.\<close>

theorem ledger_append_bricks:
  assumes "list_all clock_ok cs" "validate_utc (JStr now)"
    "ledger_append H now l w y rid n t f (run (ledger_op H) cs []) = (Inr doc, st')"
    "read_json_file f = Inr pl" "29 < height pl"
  shows "\<exists>m. ledger_load H rid (run (ledger_op H) qs st') = Inl (corrupt m)"
proof -
  note ok = ledgers_reachable [OF assms(1), of H]
  have p: "ledger_prepare H now l rid n t f (run (ledger_op H) cs []) = Inr doc"
    and st': "st' = AList.update rid (ledger_blob H doc) (run (ledger_op H) cs [])"
    using assms(3) by (auto simp: ledger_append_def ledger_replace_def Let_def split: sum.splits if_splits)
  obtain v h where v: "ledger_ok H rid (json_norm doc)" "(''payload'', pl) \<in> set h" "events_of doc = events_of v @ [JObj h]"
    using ledger_prepare_ok [OF ok p assms(2)] assms(4) by (metis Inr_inject)
  have "MAX_JSON_DEPTH < height doc"
    using deep_event [OF v(3)] height_value [OF v(2)] assms(5) by (simp add: MAX_JSON_DEPTH_def)
  then have deep: "\<not> bounded_json doc" by (simp add: bounded_json_def)
  have m: "map_of st' rid = Some (ledger_blob H doc)" by (simp add: st' update_conv')
  then obtain m where "ledger_load H rid st' = Inl (corrupt m)"
    using ledger_load_blob [OF m v(1)] deep by auto
  then show ?thesis using stuck.run_inv [of st' rid "ledger_blob H doc" H "corrupt m" qs] m by (auto simp: list_all_iff)
qed

text \<open>C33: no run without assurance. A run is created only for a data class below L3 and with evidence
  that is literally true in every field that class requires, and for L2 with a completed
  independent assurance; the recorded first event holds the allowing decision.\<close>

theorem ledger_run_is_assured:
  assumes "fst (ledger_create H now u w y task cls flow budget f st) = Inr doc"
  shows "\<exists>level d fs. cls = JStr level \<and> read_json_file f = Inr (JObj d) \<and> requirements level = Some fs \<and>
    list_all (\<lambda>k. dget d k = JBool True) fs \<and> (level = ''L2'' \<longrightarrow> dget d ''independent_assurance'' = JStr ''completed'') \<and>
    (\<exists>decision. evaluate_evidence level (JObj d) = Inr (JObj decision) \<and> dget decision ''allowed'' = JBool True)"
proof -
  obtain o' where o: "ledger_opening H now (''run_'' @ u) task cls flow budget f = Inr o'"
    using assms by (auto simp: ledger_create_def Let_def split: sum.splits)
  then obtain ev dec where cls: "bounded_text cls" and ev: "read_json_file f = Inr ev"
    and dec: "evaluate_evidence (text_of cls) ev = Inr dec"
    by (auto simp: ledger_opening_def result_simps)
  obtain level where level: "cls = JStr level" using cls by (auto simp: bounded_text_def split: json.splits)
  obtain d where d: "ev = JObj d" and al: "allowed (evaluate_provider level d)"
    using dec by (auto simp: evaluate_evidence_def level text_of_def Let_def split: json.splits if_splits)
  show ?thesis
    using al dec ev
    by (auto simp: evaluate_provider_def evaluate_evidence_def level text_of_def d Let_def list_all_iff filter_empty_conv
        split: if_splits option.splits)
qed

section \<open>A sample run\<close>

definition sample_rid :: string where "sample_rid = ''run_'' @ replicate 32 (CHR ''0'')"

definition sample_evidence :: "blob option" where
  "sample_evidence = Some \<lparr>blob_size = 40, blob_doc = Some (JObj [(''provider_id'', JStr ''p''), (''approved'', JBool True)])\<rparr>"

definition sample_unsigned :: dict where
  "sample_unsigned = [(''event_type'', JStr ''run.created''),
    (''payload'', JObj [(''budget'', JObj [(''max_cost_usd'', JStr ''1'')]), (''data_class'', JStr ''L0''),
      (''policy_decision'', JObj [(''allowed'', JBool True), (''data_class'', JStr ''L0''), (''provider_id'', JStr ''p''),
        (''reasons'', JList [JStr ''requirements_satisfied''])]),
      (''task_id'', JStr ''t''), (''workflow'', JStr ''w'')]),
    (''previous_hash'', JStr ZERO_HASH), (''run_id'', JStr sample_rid), (''schema_version'', JInt SCHEMA_VERSION),
    (''sequence'', JInt 0), (''timestamp'', JStr sample_now)]"

definition sample_ledger :: "string \<Rightarrow> json" where
  "sample_ledger h = JObj [(''schema_version'', JInt SCHEMA_VERSION), (''run_id'', JStr sample_rid),
    (''events'', JList [JObj (sample_unsigned @ [(''hash'', JStr h)])])]"

abbreviation sample_hash :: string where
  "sample_hash \<equiv> sha256 sample_lib (dumps sample_lib False (JObj sample_unsigned))"

lemma sample_opening:
  "ledger_opening sample_lib sample_now sample_rid (JStr ''t'') (JStr ''L0'') (JStr ''w'') (Inr ''1'') sample_evidence =
     Inr (sample_ledger sample_hash)"
proof -
  have "ledger_shape (JObj [(''provider_id'', JStr ''p''), (''approved'', JBool True)]) = Inr ()"
    by (simp add: ledger_shape_Inr bounded_json_def core_limits height.simps(2))
  then have "read_json_file sample_evidence = Inr (JObj [(''provider_id'', JStr ''p''), (''approved'', JBool True)])"
    by (simp add: read_json_file_def sample_evidence_def core_limits)
  moreover have "run_path sample_rid = Inr sample_rid"
    by (simp add: run_path_def run_id_re_def sample_rid_def startswith_def hex_run_def is_hex_def is_digit_def list_all_iff)
  ultimately show ?thesis
    by (simp add: ledger_opening_def bounded_text_def blank_def is_space_def evaluate_evidence_def EVIDENCE_FIELDS_def
        dict_keys_def has_key_def evaluate_provider_def requirements_def nonblank_def text_of_def ledger_event_def
        ledger_json_def canonical_bytes_def sample_ledger_def sample_unsigned_def)
qed

lemma sample_bounds:
  assumes "length h = 64"
  shows "bounded_json (sample_ledger h)" "length (dumps H False (sample_ledger h)) \<le> 4000"
proof -
  have len: "length ZERO_HASH = 64" "length sample_rid = 36" "length sample_now = 27"
    using utc_length [OF sample_now_utc] by (simp_all add: ZERO_HASH_def sample_rid_def)
  then show "bounded_json (sample_ledger h)"
    using assms by (simp add: sample_ledger_def sample_unsigned_def bounded_json_def core_limits height.simps(1,2))
  have "length (dec_int 1) = 1" "length (dec_int 0) = 1" by (simp_all add: dec_int_def dec_nat.simps)
  then have "text_bound H (sample_ledger h) \<le> 4000"
    using assms len by (simp add: sample_ledger_def sample_unsigned_def SCHEMA_VERSION_def)
  then show "length (dumps H False (sample_ledger h)) \<le> 4000" using dumps_bound [of H False "sample_ledger h"] by linarith
qed

definition sample_open :: ledger_call where
  "sample_open = Open_run sample_now (replicate 32 (CHR ''0'')) True True (JStr ''t'') (JStr ''L0'') (JStr ''w'') (Inr ''1'')
     sample_evidence"

abbreviation sample_ledgers :: ledger_store where
  "sample_ledgers \<equiv> run (ledger_op sample_lib) [sample_open] []"

lemma sample_hash_length: "length (sha256 sample_lib x) = 64"
  using sample_sha_hex by (simp add: sha_hex_def hex64_def)

lemma sample_opened:
  "ledger_create sample_lib sample_now (replicate 32 (CHR ''0'')) True True (JStr ''t'') (JStr ''L0'') (JStr ''w'') (Inr ''1'')
     sample_evidence [] = (Inr (sample_ledger sample_hash), [(sample_rid, ledger_blob sample_lib (sample_ledger sample_hash))])"
proof -
  have "ledger_json sample_lib (sample_ledger sample_hash) = Inr (dumps sample_lib False (sample_ledger sample_hash))"
    using sample_bounds(1) [OF sample_hash_length] by (simp add: ledger_json_Inr bounded_json_def texts_ok_finite)
  moreover have "''run_'' @ replicate 32 (CHR ''0'') = sample_rid" by (simp only: sample_rid_def)
  ultimately show ?thesis by (simp only: ledger_create_def Let_def sample_opening ledger_replace_def) simp
qed

lemma ledger_sample_clock: "list_all clock_ok [sample_open]"
  by (simp add: sample_open_def sample_now_utc)

lemma sample_ledgers_eq: "sample_ledgers = [(sample_rid, ledger_blob sample_lib (sample_ledger sample_hash))]"
  by (simp only: run_simps sample_open_def ledger_op.simps sample_opened snd_conv)

lemma sample_load: "ledger_load sample_lib sample_rid sample_ledgers = Inr (json_norm (sample_ledger sample_hash))"
proof -
  let ?doc = "sample_ledger sample_hash"
  have m: "map_of sample_ledgers sample_rid = Some (ledger_blob sample_lib ?doc)"
    unfolding sample_ledgers_eq by simp
  have "ledger_ok sample_lib sample_rid (json_norm ?doc)" by (rule ledger_opening_ok [OF sample_opening sample_now_utc])
  moreover have "utf8_length (dumps sample_lib False ?doc) \<le> 2 * length (dumps sample_lib False ?doc)"
    using length_filter_le [of _ "dumps sample_lib False ?doc"] by (simp add: utf8_length_def)
  then have "Suc (utf8_length (dumps sample_lib False ?doc)) \<le> MAX_JSON_BYTES"
    using sample_bounds(2) [of sample_hash sample_lib, OF sample_hash_length] unfolding MAX_JSON_BYTES_def by linarith
  ultimately show ?thesis using ledger_load_blob [OF m] sample_bounds(1) [OF sample_hash_length] by blast
qed

definition deep_file :: "blob option" where
  "deep_file = Some \<lparr>blob_size = 72, blob_doc = Some deep_payload\<rparr>"

lemma deep_file_read: "read_json_file deep_file = Inr deep_payload"
  using deep_payload_facts(3) ledger_shape_Inr [of deep_payload] by (simp add: read_json_file_def deep_file_def core_limits)

lemma sample_extended:
  obtains doc where "ledger_append sample_lib sample_now False True True sample_rid 0 ''note'' deep_file sample_ledgers =
    (Inr doc, AList.update sample_rid (ledger_blob sample_lib doc) sample_ledgers)"
proof (rule ledger_append_accepted [OF ledgers_reachable [OF ledger_sample_clock] sample_load _ deep_file_read])
  show "event_type_re ''note''" by (simp add: event_type_re_def is_lower_def)
  have "latest_sequence (json_norm (sample_ledger sample_hash)) = 0"
    by (simp add: latest_sequence_def events_of_def sample_ledger_def)
  then show "ledger_append sample_lib sample_now False True True sample_rid
      (latest_sequence (json_norm (sample_ledger sample_hash))) ''note'' deep_file sample_ledgers =
      (Inr doc, AList.update sample_rid (ledger_blob sample_lib doc) sample_ledgers) \<Longrightarrow> thesis" for doc
    using that by simp
qed

theorem ledger_events_stay_witness:
  "\<exists>e. recorded_event (run (ledger_op sample_lib) ([sample_open] @ [sample_open]) []) (sample_rid, 0) = Some e"
proof -
  have "\<exists>e. recorded_event sample_ledgers (sample_rid, 0) = Some e"
    unfolding sample_ledgers_eq by (simp add: recorded_event_def ledger_blob_def sample_ledger_def events_of_def)
  with ledger_events_stay [of "[sample_open]" "[sample_open]" sample_lib sample_rid 0] ledger_sample_clock show ?thesis
    by (auto simp del: run_simps)
qed

theorem ledger_append_readback_witness:
  "\<exists>v h doc st'. ledger_load sample_lib sample_rid sample_ledgers = Inr v \<and>
    events_of (json_norm doc) = events_of v @ [json_norm (JObj h)] \<and>
    (ledger_load sample_lib sample_rid st' = Inr (json_norm doc) \<or> (\<exists>m. ledger_load sample_lib sample_rid st' = Inl (corrupt m)))"
proof (rule sample_extended)
  fix doc assume "ledger_append sample_lib sample_now False True True sample_rid 0 ''note'' deep_file sample_ledgers =
    (Inr doc, AList.update sample_rid (ledger_blob sample_lib doc) sample_ledgers)"
  from ledger_append_readback [OF ledger_sample_clock sample_now_utc this] show ?thesis by (meson)
qed

theorem ledger_append_bricks_witness:
  "\<exists>m st'. ledger_load sample_lib sample_rid (run (ledger_op sample_lib) [sample_open] st') = Inl (corrupt m)"
proof (rule sample_extended)
  fix doc assume "ledger_append sample_lib sample_now False True True sample_rid 0 ''note'' deep_file sample_ledgers =
    (Inr doc, AList.update sample_rid (ledger_blob sample_lib doc) sample_ledgers)"
  from ledger_append_bricks [OF ledger_sample_clock sample_now_utc this deep_file_read, of "[sample_open]"] show ?thesis
    using deep_payload_facts(2) by auto
qed

theorem ledger_run_is_assured_witness:
  "\<exists>d fs. read_json_file sample_evidence = Inr (JObj d) \<and> requirements ''L0'' = Some fs \<and> list_all (\<lambda>k. dget d k = JBool True) fs"
proof -
  have "fst (ledger_create sample_lib sample_now (replicate 32 (CHR ''0'')) True True (JStr ''t'') (JStr ''L0'') (JStr ''w'') (Inr ''1'')
     sample_evidence []) = Inr (sample_ledger sample_hash)" by (simp only: sample_opened fst_conv)
  from ledger_run_is_assured [OF this] show ?thesis by auto
qed

end
