(* ===== verification/Mandate_Stores.thy ===== *)
theory Mandate_Stores
  imports Py_Value Store_Files
begin

text \<open>
  The three registers the mandate verifier is given: used nonces and cumulative spend
  (\<open>cortxt_mcp/nonce_store.py\<close>) and revoked signing keys (\<open>cortxt_mcp/revocation_store.py\<close>). The nonce
  and spend files hold what the stores themselves write, or are absent or no JSON (\<open>None\<close>), and then count as
  empty; so does a file that a call fails to read (\<open>file_access\<close>). Instants are microseconds.
\<close>

section \<open>Used nonces\<close>

type_synonym nonce_file = "string list option"

definition nonces_read :: "file_access \<Rightarrow> nonce_file \<Rightarrow> string list" where
  "nonces_read a f = loaded a (case f of None \<Rightarrow> [] | Some ns \<Rightarrow> ns)"

text \<open>\<open>check_and_consume\<close>; \<open>None\<close> is an \<open>OSError\<close> of the write.\<close>

definition check_and_consume :: "file_access \<Rightarrow> string \<Rightarrow> nonce_file \<Rightarrow> bool option \<times> nonce_file" where
  "check_and_consume a nonce f =
     (if nonce = [] then (Some False, f)
      else let used = nonces_read a f in
        if nonce \<in> set used then (Some False, f)
        else if \<not> can_write a then (None, f)
        else (Some True, Some (sort (remdups (nonce # used)))))"

definition nonce_used :: "nonce_file \<Rightarrow> string \<Rightarrow> unit option" where
  "nonce_used f n = (case f of None \<Rightarrow> None | Some ns \<Rightarrow> if n \<in> set ns then Some () else None)"

definition nonce_op :: "file_access \<times> string \<Rightarrow> nonce_file \<Rightarrow> nonce_file" where
  "nonce_op q f = snd (check_and_consume (fst q) (snd q) f)"

definition nonce_admits :: "file_access \<times> string \<Rightarrow> nonce_file \<Rightarrow> bool" where
  "nonce_admits q f \<longleftrightarrow> fst (check_and_consume (fst q) (snd q) f) = Some True"

interpretation nonce_gate: guarded_gate nonce_op "\<lambda>_. True" "\<lambda>q. can_read (fst q)" nonce_used nonce_admits snd
  by unfold_locales
    (auto simp: nonce_op_def nonce_used_def nonce_admits_def check_and_consume_def nonces_read_def Let_def set_insort_key
      split: option.splits if_splits)

lemma used_refused: "nonce_used f n \<noteq> None \<Longrightarrow> can_read a \<Longrightarrow> fst (check_and_consume a n f) = Some False"
  by (simp add: nonce_used_def check_and_consume_def nonces_read_def split: option.splits if_splits)

section \<open>Cumulative spend\<close>

type_synonym spend_file = "(string \<times> pyfloat) list option"

definition spent_of :: "spend_file \<Rightarrow> string \<Rightarrow> pyfloat" where
  "spent_of f i = (case map_of (case f of None \<Rightarrow> [] | Some s \<Rightarrow> s) i of None \<Rightarrow> Fin 0 | Some t \<Rightarrow> t)"

definition spend_read :: "file_access \<Rightarrow> spend_file \<Rightarrow> spend_file" where
  "spend_read a f = Some (loaded a (case f of None \<Rightarrow> [] | Some s \<Rightarrow> s))"

definition record_and_check :: "file_access \<Rightarrow> string option \<Rightarrow> pyfloat \<Rightarrow> pyfloat \<Rightarrow> spend_file
    \<Rightarrow> bool option \<times> spend_file" where
  "record_and_check a mandate_id cost cap f =
     (case mandate_id of
        None \<Rightarrow> (Some False, f)
      | Some i \<Rightarrow>
          if i = [] then (Some False, f)
          else let total = fadd (spent_of (spend_read a f) i) (fmax0 cost) in
            if \<not> can_write a then (None, f)
            else (Some (fle total cap), map_option (AList.update i total) (spend_read a f)))"

lemma spent_of_read [simp]: "spent_of (spend_read a f) i = (if can_read a then spent_of f i else Fin 0)"
  by (simp add: spent_of_def spend_read_def)

lemma spent_after:
  "snd (record_and_check a m c cap f) = f' \<Longrightarrow>
     spent_of f' i = (if can_write a \<and> m \<noteq> None \<and> m \<noteq> Some []
       then if m = Some i then fadd (spent_of (spend_read a f) i) (fmax0 c) else spent_of (spend_read a f) i
       else spent_of f i)"
  by (auto simp: record_and_check_def spent_of_def spend_read_def loaded_def Let_def update_conv split: option.splits if_splits)

lemma accepted_iff: "fst (record_and_check a m c cap f) = Some True \<longleftrightarrow>
    (\<exists>i. m = Some i \<and> i \<noteq> [] \<and> can_write a \<and> fle (fadd (spent_of (spend_read a f) i) (fmax0 c)) cap)"
  by (auto simp: record_and_check_def Let_def split: option.splits)

text \<open>Every stored total is a binary64 value, and a total only grows.\<close>

definition wf_spend :: "spend_file \<Rightarrow> bool" where
  "wf_spend f \<longleftrightarrow> (\<forall>i. wf_float (spent_of f i))"

lemma wf_spend_record: "wf_spend f \<Longrightarrow> wf_spend (snd (record_and_check a m c cap f))"
  using spent_after [OF refl, of a m c cap f] by (auto simp: wf_spend_def wf_fadd)

type_synonym spend_call = "file_access \<times> string option \<times> pyfloat \<times> pyfloat"

definition spend_op :: "spend_call \<Rightarrow> spend_file \<Rightarrow> spend_file" where
  "spend_op q f = (case q of (a, m, c, cap) \<Rightarrow> snd (record_and_check a m c cap f))"

fun grown :: "pyfloat \<Rightarrow> pyfloat \<Rightarrow> bool" where
  "grown x NaN = True"
| "grown x y = (x \<noteq> NaN \<and> fle x y)"

lemma grown_refl [simp]: "grown x x"
  by (cases x) auto

lemma grown_trans: "grown x y \<Longrightarrow> grown y z \<Longrightarrow> grown x z"
  by (cases z; cases y) (auto intro: fle_trans)

lemma grown_add: "wf_float x \<Longrightarrow> grown x (fadd x (fmax0 c))"
proof (cases "fmax0 c = NaN \<or> x = NaN")
  case True
  then have "fadd x (fmax0 c) = NaN" by (cases x) auto
  then show ?thesis by simp
next
  case False
  assume "wf_float x"
  with False fmax0_nonneg [of c] fadd_increases [of x "fmax0 c"] show ?thesis
    by (cases "fadd x (fmax0 c)") auto
qed

lemma grown_over: "grown x y \<Longrightarrow> \<not> fle x cap \<Longrightarrow> \<not> fle y cap"
  by (cases y) (auto intro: fle_trans)

interpretation spend_wf: invariant_machine spend_op wf_spend "\<lambda>_. True"
  by unfold_locales (auto simp: spend_op_def intro: wf_spend_record split: prod.splits)

lemma spend_op_grown: "wf_spend f \<Longrightarrow> can_read (fst q) \<Longrightarrow> grown (spent_of f i) (spent_of (spend_op q f) i)"
  using spent_after [OF refl, of "fst q" "fst (snd q)" "fst (snd (snd q))" "snd (snd (snd q))" f i]
  by (auto simp: spend_op_def wf_spend_def split_beta intro: grown_add)

lemma run_grown: "wf_spend f \<Longrightarrow> list_all (\<lambda>q. can_read (fst q)) qs \<Longrightarrow> grown (spent_of f i) (spent_of (run spend_op qs f) i)"
proof (induction qs arbitrary: f)
  case (Cons q qs)
  have "wf_spend (spend_op q f)" using spend_wf.preserved [OF Cons.prems(1)] by simp
  then show ?case using Cons.IH spend_op_grown [OF Cons.prems(1), of q i] Cons.prems(2) grown_trans by (metis list.pred_inject(2) run_simps(2))
qed simp

section \<open>Revoked signing keys\<close>

type_synonym key_identity = "string \<times> string"

record revocation_state =
  generation :: "int option"
  entries :: "(key_identity \<times> int) list"
  last_valid_at :: "int option"
  last_check_at :: "int option"
  metadata :: "(int \<times> int) option"
  invalid_newer :: bool

text \<open>
  The snapshot file as one refresh finds it: \<open>None\<close> when \<open>stat\<close> fails, and its metadata with what it parses
  to otherwise. \<open>parse\<close> is \<open>_parse_time\<close>'s call of \<open>datetime.fromisoformat\<close>, an instant in UTC or a failure.
\<close>

type_synonym snapshot_file = "((int \<times> int) \<times> json option) option"

definition parse_time :: "(string \<Rightarrow> int option) \<Rightarrow> json \<Rightarrow> int option" where
  "parse_time parse v = (case v of
     JStr s \<Rightarrow> if s = [] then None
       else parse (if last s = CHR ''Z'' then butlast s @ ''+00:00'' else s)
   | _ \<Rightarrow> None)"

fun read_records :: "(string \<Rightarrow> int option) \<Rightarrow> json list \<Rightarrow> (key_identity \<times> int) list
    \<Rightarrow> (key_identity \<times> int) list option" where
  "read_records parse [] es = Some es"
| "read_records parse (JObj r # rs) es =
     (if nonempty_str (dget r ''granted_by'') \<and> nonempty_str (dget r ''kid'') then
        (case (dget r ''granted_by'', dget r ''kid'', parse_time parse (dget r ''revoked_at'')) of
           (JStr g, JStr k, Some t) \<Rightarrow>
             if map_of es (g, k) \<noteq> None \<and> map_of es (g, k) \<noteq> Some t then None
             else read_records parse rs (AList.update (g, k) t es)
         | _ \<Rightarrow> None)
      else None)"
| "read_records parse (v # rs) es = None"

definition validate_snapshot :: "(string \<Rightarrow> int option) \<Rightarrow> json \<Rightarrow> (int \<times> (key_identity \<times> int) list) option" where
  "validate_snapshot parse raw = (case raw of
     JObj d \<Rightarrow>
       if \<not> keys_are d [''generation'', ''revocations''] then None
       else (case (dget d ''generation'', dget d ''revocations'') of
         (JInt g, JList rs) \<Rightarrow> if g < 0 then None else map_option (Pair g) (read_records parse rs [])
       | _ \<Rightarrow> None)
   | _ \<Rightarrow> None)"

text \<open>\<open>total_seconds\<close> compared with a configured float.\<close>

definition seconds_between :: "int \<Rightarrow> int \<Rightarrow> pyfloat" where
  "seconds_between later earlier = Fin (rnd (of_int (later - earlier) / 1000000))"

definition acceptable :: "revocation_state \<Rightarrow> int \<Rightarrow> (key_identity \<times> int) list \<Rightarrow> bool" where
  "acceptable st g es \<longleftrightarrow>
     (case generation st of None \<Rightarrow> True | Some old \<Rightarrow> old \<le> g) \<and>
     list_all (\<lambda>(k, t). map_of es k = Some t) (entries st)"

definition load_snapshot :: "(string \<Rightarrow> int option) \<Rightarrow> int \<Rightarrow> (int \<times> int) \<Rightarrow> json option \<Rightarrow> revocation_state
    \<Rightarrow> revocation_state" where
  "load_snapshot parse now meta raw st =
     (case (case raw of None \<Rightarrow> None | Some v \<Rightarrow> validate_snapshot parse v) of
        None \<Rightarrow> st\<lparr>invalid_newer := True\<rparr>
      | Some (g, es) \<Rightarrow>
          if acceptable st g es
            then st\<lparr>generation := Some g, entries := es, metadata := Some meta, last_valid_at := Some now,
              invalid_newer := False\<rparr>
          else st\<lparr>invalid_newer := True\<rparr>)"

definition refresh :: "(string \<Rightarrow> int option) \<Rightarrow> pyfloat \<Rightarrow> bool \<Rightarrow> int \<Rightarrow> snapshot_file \<Rightarrow> revocation_state
    \<Rightarrow> revocation_state" where
  "refresh parse interval force now file st =
     (if \<not> force \<and> (case last_check_at st of None \<Rightarrow> False | Some t \<Rightarrow> flt (seconds_between now t) interval) then st
      else let st = st\<lparr>last_check_at := Some now\<rparr> in
        case file of
          None \<Rightarrow> st\<lparr>invalid_newer := True\<rparr>
        | Some (meta, raw) \<Rightarrow>
            if \<not> force \<and> metadata st = Some meta then st else load_snapshot parse now meta raw st)"

definition open_store :: "(string \<Rightarrow> int option) \<Rightarrow> pyfloat \<Rightarrow> int \<Rightarrow> snapshot_file \<Rightarrow> revocation_state" where
  "open_store parse interval now file = refresh parse interval True now file
     \<lparr>generation = None, entries = [], last_valid_at = None, last_check_at = None, metadata = None, invalid_newer = False\<rparr>"

definition is_revoked :: "(string \<Rightarrow> int option) \<Rightarrow> pyfloat \<Rightarrow> pyfloat \<Rightarrow> int \<Rightarrow> int \<Rightarrow> snapshot_file
    \<Rightarrow> string \<Rightarrow> string \<Rightarrow> int \<Rightarrow> revocation_state \<Rightarrow> bool \<times> revocation_state" where
  "is_revoked parse interval freshness now1 now2 file g k when st =
     (let st = refresh parse interval False now1 file st in
      (case last_valid_at st of
         None \<Rightarrow> True
       | Some v \<Rightarrow> invalid_newer st \<or> flt freshness (seconds_between now2 v) \<or>
           (case map_of (entries st) (g, k) of None \<Rightarrow> False | Some t \<Rightarrow> t \<le> when), st))"

definition configured :: "revocation_state \<Rightarrow> bool" where
  "configured st \<longleftrightarrow> last_valid_at st \<noteq> None \<and> \<not> invalid_newer st"

text \<open>One query of the store: two clock readings, the file it finds, the key and the instant asked for.\<close>

record revocation_query =
  q_now1 :: int
  q_now2 :: int
  q_file :: snapshot_file
  q_key :: key_identity
  q_when :: int

definition ask :: "(string \<Rightarrow> int option) \<Rightarrow> pyfloat \<Rightarrow> pyfloat \<Rightarrow> revocation_query \<Rightarrow> revocation_state
    \<Rightarrow> bool \<times> revocation_state" where
  "ask parse interval freshness q st = is_revoked parse interval freshness (q_now1 q) (q_now2 q) (q_file q)
     (fst (q_key q)) (snd (q_key q)) (q_when q) st"

definition ask_op :: "(string \<Rightarrow> int option) \<Rightarrow> pyfloat \<Rightarrow> pyfloat \<Rightarrow> revocation_query \<Rightarrow> revocation_state
    \<Rightarrow> revocation_state" where
  "ask_op parse interval freshness q st = snd (ask parse interval freshness q st)"

lemma acceptable_keeps: "acceptable st g es \<Longrightarrow> map_of (entries st) k = Some t \<Longrightarrow> map_of es k = Some t"
  by (auto simp: acceptable_def list_all_iff dest!: map_of_SomeD split: option.splits)

lemma refresh_keeps:
  "map_of (entries st) k = Some t \<Longrightarrow> map_of (entries (refresh parse interval force now file st)) k = Some t"
  by (auto simp: refresh_def load_snapshot_def Let_def intro: acceptable_keeps
      split: option.splits prod.splits)

interpretation revocations: write_once "ask_op parse interval freshness" "\<lambda>st. map_of (entries st)"
  for parse interval freshness
  by unfold_locales (simp add: ask_op_def ask_def is_revoked_def Let_def refresh_keeps)

lemma refresh_generation:
  "generation st = Some g \<Longrightarrow> \<exists>g'. generation (refresh parse interval force now file st) = Some g' \<and> g \<le> g'"
  by (auto simp: refresh_def load_snapshot_def acceptable_def Let_def split: option.splits prod.splits)

section \<open>Guarantees\<close>

text \<open>A nonce is consumed at most once. After a call consumed it, every later call with the
  same nonce is refused, whatever calls lie between and whichever of them fail to write, as long as every read of the
  file works.\<close>

theorem nonce_consumed_once:
  assumes "fst (check_and_consume a n f) = Some True" "list_all (\<lambda>q. can_read (fst q)) qs" "can_read b"
  shows "fst (check_and_consume b n (run nonce_op qs (snd (check_and_consume a n f)))) = Some False"
proof (rule used_refused [OF _ assms(3)])
  have "nonce_admits (a, n) f" using assms by (simp add: nonce_admits_def)
  then obtain u where "nonce_used (nonce_op (a, n) f) n = Some u" using nonce_gate.recorded by fastforce
  then show "nonce_used (run nonce_op qs (snd (check_and_consume a n f))) n \<noteq> None"
    using nonce_gate.run_stays [OF TrueI assms(2), of "nonce_op (a, n) f" n u] by (simp add: nonce_op_def)
qed

text \<open>A failed read loses the register. \<open>_read_json\<close> answers the empty register on every error of a read, and the call then
  writes the register back with its own nonce alone: every nonce is admitted again, by this call or by later ones.\<close>

theorem failed_read_readmits_nonces:
  assumes "\<not> can_read a" "can_write a" "n \<noteq> []"
  shows "check_and_consume a n f = (Some True, Some [n])"
  using assms by (simp add: check_and_consume_def nonces_read_def)

text \<open>C31: an exhausted budget stays exhausted while the file is read. Once a call took a mandate's total over its cap
  (or made it a NaN), no later call under the same cap or a lower one is within budget,
  whatever costs were debited between and however the sums were rounded, when no call since then failed to read the file;
  writes may fail. A call whose read fails starts again from nothing (\<open>failed_read_resets_budget\<close>).\<close>

theorem budget_exhausted_stays:
  assumes "wf_spend f" "fst (record_and_check a (Some i) c cap f) = Some False" "i \<noteq> []" "fle cap' cap"
    and "list_all (\<lambda>q. can_read (fst q)) qs" "can_read b"
  shows "fst (record_and_check b (Some i) c' cap' (run spend_op qs (snd (record_and_check a (Some i) c cap f)))) \<noteq> Some True"
proof -
  let ?f1 = "snd (record_and_check a (Some i) c cap f)"
  let ?f2 = "run spend_op qs ?f1"
  have w: "can_write a" "\<not> fle (fadd (spent_of (spend_read a f) i) (fmax0 c)) cap"
    using assms(2,3) by (auto simp: record_and_check_def Let_def split: if_split_asm)
  have s1: "spent_of ?f1 i = fadd (spent_of (spend_read a f) i) (fmax0 c)" using spent_after [OF refl] assms(3) w(1) by simp
  have over: "\<not> fle (spent_of ?f1 i) cap" using w(2) unfolding s1 .
  have wf1: "wf_spend ?f1" by (rule wf_spend_record [OF assms(1)])
  have wf2: "wf_spend ?f2" by (rule spend_wf.run_inv [OF wf1]) (simp add: list_all_iff)
  have "grown (spent_of ?f1 i) (spent_of ?f2 i)" by (rule run_grown [OF wf1 assms(5)])
  moreover have "grown (spent_of ?f2 i) (fadd (spent_of ?f2 i) (fmax0 c'))"
    using wf2 by (intro grown_add) (simp add: wf_spend_def)
  ultimately have "\<not> fle (fadd (spent_of ?f2 i) (fmax0 c')) cap" using over grown_over grown_trans by blast
  then have "\<not> fle (fadd (spent_of ?f2 i) (fmax0 c')) cap'" using assms(4) fle_trans by blast
  then show ?thesis using assms(6) by (simp add: accepted_iff)
qed

theorem failed_read_resets_budget:
  assumes "\<not> can_read a" "can_write a" "i \<noteq> []" "fle (fadd (Fin 0) (fmax0 c)) cap"
  shows "record_and_check a (Some i) c cap f = (Some True, Some [(i, fadd (Fin 0) (fmax0 c))])"
  using assms by (simp add: record_and_check_def spend_read_def spent_of_def)

text \<open>A revocation is permanent. Once a snapshot with a revoked key was loaded, every later
  query for that key at or after its revocation time answers revoked, whatever snapshots the
  file holds by then: a removed, backdated or rolled-back entry is never believed.\<close>

theorem revocation_permanent:
  assumes "map_of (entries st) (q_key q) = Some t" "t \<le> q_when q"
  shows "fst (ask parse interval freshness q (run (ask_op parse interval freshness) qs st))"
  using refresh_keeps [OF revocations.run_kept [OF assms(1)]] assms(2)
  by (simp add: ask_def is_revoked_def Let_def split: option.split)

text \<open>The store denies on uncertainty. It answers not revoked only when its last refresh did not
  fail, a valid snapshot is younger than the freshness bound, and that snapshot does not
  revoke the key at the instant asked for.\<close>

theorem not_revoked_only_if_fresh:
  assumes "\<not> fst (ask parse interval freshness q st)"
  shows "let st' = ask_op parse interval freshness q st in configured st' \<and>
    (\<exists>v. last_valid_at st' = Some v \<and> \<not> flt freshness (seconds_between (q_now2 q) v)) \<and>
    (\<forall>t. map_of (entries st') (q_key q) = Some t \<longrightarrow> q_when q < t)"
  using assms
  by (auto simp: ask_def ask_op_def is_revoked_def configured_def Let_def split: option.splits)

section \<open>Sample calls\<close>

abbreviation read_write :: file_access where
  "read_write \<equiv> \<lparr>can_read = True, can_write = True\<rparr>"

theorem nonce_consumed_once_witness:
  "fst (check_and_consume read_write ''n'' (run nonce_op [(read_write, ''m'')] (snd (check_and_consume read_write ''n'' None)))) = Some False"
  by (rule nonce_consumed_once) (simp_all add: check_and_consume_def nonces_read_def)

theorem budget_exhausted_stays_witness:
  "fst (record_and_check read_write (Some ''m'') (Fin 0) (Fin 1)
     (run spend_op [(read_write, Some ''k'', Fin 1, Fin 1), (\<lparr>can_read = True, can_write = False\<rparr>, Some ''m'', Fin 1, Fin 1)]
       (snd (record_and_check read_write (Some ''m'') (Fin 2) (Fin 1) None)))) \<noteq> Some True"
proof (rule budget_exhausted_stays)
  show "wf_spend None" by (simp add: wf_spend_def spent_of_def)
  show "fst (record_and_check read_write (Some ''m'') (Fin 2) (Fin 1) None) = Some False"
    by (simp add: record_and_check_def spend_read_def spent_of_def fmax0_def to_float_def)
qed simp_all

theorem failed_read_witness:
  "check_and_consume \<lparr>can_read = False, can_write = True\<rparr> ''n'' (Some [''n'']) = (Some True, Some [''n'']) \<and>
   fst (record_and_check \<lparr>can_read = False, can_write = True\<rparr> (Some ''m'') (Fin 1) (Fin 1) (Some [(''m'', Fin 2)])) = Some True"
  using failed_read_readmits_nonces [of "\<lparr>can_read = False, can_write = True\<rparr>" "''n''" "Some [''n'']"]
    failed_read_resets_budget [of "\<lparr>can_read = False, can_write = True\<rparr>" "''m''" "Fin 1" "Fin 1" "Some [(''m'', Fin 2)]"]
  by (simp add: fmax0_def to_float_def)

theorem revocation_permanent_witness:
  "fst (ask (\<lambda>_. None) (Fin 10) (Fin 60) \<lparr>q_now1 = 0, q_now2 = 0, q_file = None, q_key = (''o'', ''k''), q_when = 7\<rparr>
     (run (ask_op (\<lambda>_. None) (Fin 10) (Fin 60)) []
       \<lparr>generation = Some 1, entries = [((''o'', ''k''), 5)], last_valid_at = Some 0, last_check_at = Some 0,
         metadata = None, invalid_newer = False\<rparr>))"
  by (rule revocation_permanent [where t = 5]) simp_all

theorem not_revoked_only_if_fresh_witness:
  "configured (ask_op (\<lambda>_. None) (Fin 10) (Fin 60)
     \<lparr>q_now1 = 0, q_now2 = 0, q_file = None, q_key = (''o'', ''k''), q_when = 7\<rparr>
     \<lparr>generation = Some 1, entries = [((''o'', ''k''), 9)], last_valid_at = Some 0, last_check_at = Some 0,
       metadata = None, invalid_newer = False\<rparr>)"
proof -
  have "\<not> fst (ask (\<lambda>_. None) (Fin 10) (Fin 60)
     \<lparr>q_now1 = 0, q_now2 = 0, q_file = None, q_key = (''o'', ''k''), q_when = 7\<rparr>
     \<lparr>generation = Some 1, entries = [((''o'', ''k''), 9)], last_valid_at = Some 0, last_check_at = Some 0,
       metadata = None, invalid_newer = False\<rparr>)"
    by (simp add: ask_def is_revoked_def refresh_def seconds_between_def Let_def)
  from not_revoked_only_if_fresh [OF this] show ?thesis by (simp add: Let_def)
qed

end
