(* ===== verification/Mandate.thy ===== *)
theory Mandate
  imports Mandate_Stores Session_State
begin

text \<open>
  \<open>agent-platform/cortxt_mcp/mandate.py\<close>: signed mandate envelopes. The verifier is given its
  stores as functions on a state (record \<open>mandate_deps\<close>); \<open>Mandate_Guarantees\<close> runs it on the
  nonce, budget and revocation stores of \<open>Mandate_Stores\<close>. Ed25519, base64, \<open>fromisoformat\<close> and
  \<open>float\<close> of a text are parameters in \<open>mandate_lib\<close>; instants are microseconds.
\<close>

record mandate_lib =
  mhost :: hostlib
  iso_parse :: "string \<Rightarrow> int option"
  float_parse :: "string \<Rightarrow> pyfloat option"
  b64decode :: "string \<Rightarrow> string option"
  b64encode :: "string \<Rightarrow> string"
  key_material :: "string \<Rightarrow> bool"
  sig_valid :: "string \<Rightarrow> string \<Rightarrow> string \<Rightarrow> bool"

type_synonym keyring = "(string \<times> (string \<times> string) list) list"

definition MANDATE_SCHEMA :: int where "MANDATE_SCHEMA = 2"

definition REQUIRED_FIELDS :: "string list" where
  "REQUIRED_FIELDS = [''schema_version'', ''mandate_id'', ''granted_by'', ''kid'', ''issue_ref'', ''allowed_tools'',
     ''data_class_max'', ''budget_usd_max'', ''max_runtime_seconds'', ''expires_at'', ''nonce'', ''scope_fingerprint'',
     ''signature'']"

definition data_class_rank :: "json \<Rightarrow> nat option" where
  "data_class_rank v = (case v of
     JStr s \<Rightarrow> map_of [(''L0'', 0), (''L1'', 1), (''L2'', 2), (''L3'', 3)] s
   | _ \<Rightarrow> None)"

datatype reason =
    Accepted | Mandate_missing | Malformed_envelope | Unknown_schema_version | Unknown_granted_by | Unknown_kid
  | Key_revoked | Missing_signature | Invalid_signature | Nonce_replayed | Expires_at_invalid | Expired
  | Tool_not_allowed | Invalid_data_class | Data_class_exceeded | Runtime_exceeded | Budget_exceeded
  | Issue_ref_mismatch | Scope_fingerprint_mismatch

text \<open>A decision with its mandate id, or an exception of the given class that leaves \<open>verify_mandate\<close>.\<close>

datatype verdict = Decision (reason_of: reason) (id_of: "string option") | Raises string

text \<open>The caller passes what a client sent, so the fields that are texts can hold any value.\<close>

record call_context =
  c_issue_ref :: json
  c_data_class :: json
  c_cost :: pyfloat
  c_runtime :: "pyfloat option"
  c_scope_text :: json
  c_fingerprint :: json

record 's mandate_deps =
  dep_revoked :: "string \<Rightarrow> string \<Rightarrow> int \<Rightarrow> 's \<Rightarrow> bool \<times> 's"
  dep_consume :: "string \<Rightarrow> 's \<Rightarrow> bool \<times> 's"
  dep_debit :: "string option \<Rightarrow> pyfloat \<Rightarrow> pyfloat \<Rightarrow> 's \<Rightarrow> bool \<times> 's"

definition compute_scope_fingerprint :: "mandate_lib \<Rightarrow> string \<Rightarrow> string" where
  "compute_scope_fingerprint M scope_text = sha256 (mhost M) scope_text"

definition canonical_signing_bytes :: "mandate_lib \<Rightarrow> dict \<Rightarrow> string option" where
  "canonical_signing_bytes M d = canonical_bytes (mhost M) (JObj (filter (\<lambda>kv. fst kv \<noteq> ''signature'') d))"

section \<open>Verification\<close>

definition mandate_id_of :: "dict \<Rightarrow> string option" where
  "mandate_id_of d = (case dget d ''mandate_id'' of JStr s \<Rightarrow> if s = [] then None else Some s | _ \<Rightarrow> None)"

text \<open>The checks before the first use of a store: schema, fields and key identity.\<close>

definition check_identity :: "keyring \<Rightarrow> dict \<Rightarrow> verdict + string \<times> string \<times> string" where
  "check_identity keys d =
     (let reject = (\<lambda>r. Inl (Decision r (mandate_id_of d))); v = dget d ''schema_version'' in
      if has_key d ''schema_version'' \<and> \<not> hashable v then Inl (Raises ''TypeError'')
      else if has_key d ''schema_version'' \<and> \<not> py_eq v (JInt MANDATE_SCHEMA) then reject Unknown_schema_version
      else if \<not> keys_are d REQUIRED_FIELDS then reject Malformed_envelope
      else (case dget d ''granted_by'' of
        JStr g \<Rightarrow> (case map_of keys g of
          None \<Rightarrow> reject Unknown_granted_by
        | Some issuer \<Rightarrow> (case dget d ''kid'' of
            JStr k \<Rightarrow> if k = [] then reject Unknown_kid
              else (case map_of issuer k of None \<Rightarrow> reject Unknown_kid | Some material \<Rightarrow> Inr (g, k, material))
          | _ \<Rightarrow> reject Unknown_kid))
      | _ \<Rightarrow> reject Unknown_granted_by))"

definition signature_ok :: "mandate_lib \<Rightarrow> string \<Rightarrow> string \<Rightarrow> dict \<Rightarrow> bool" where
  "signature_ok M material signature d =
     (case (b64decode M signature, canonical_signing_bytes M d) of
        (Some sig, Some body) \<Rightarrow> sig_valid M material sig body
      | _ \<Rightarrow> False)"

text \<open>\<open>int(max_runtime_raw)\<close>: defined for finite numbers; the comparison after it keeps the integral ones.\<close>

definition runtime_limit :: "json \<Rightarrow> int option" where
  "runtime_limit v = (case v of
     JInt n \<Rightarrow> if 0 \<le> n then Some n else None
   | JFlt (Fin x) \<Rightarrow> if x = of_int \<lfloor>x\<rfloor> \<and> 0 \<le> x then Some \<lfloor>x\<rfloor> else None
   | _ \<Rightarrow> None)"

text \<open>\<open>float(v)\<close>; an integer too large for a binary64 raises \<open>OverflowError\<close>.\<close>

datatype float_result = Float pyfloat | Float_type_or_value_error | Float_overflow

definition py_float :: "mandate_lib \<Rightarrow> json \<Rightarrow> float_result" where
  "py_float M v = (case v of
     JBool b \<Rightarrow> Float (Fin (if b then 1 else 0))
   | JInt n \<Rightarrow> (case to_float (of_int n) of Fin x \<Rightarrow> Float (Fin x) | _ \<Rightarrow> Float_overflow)
   | JFlt x \<Rightarrow> Float x
   | JStr s \<Rightarrow> (case float_parse M s of Some x \<Rightarrow> Float x | None \<Rightarrow> Float_type_or_value_error)
   | _ \<Rightarrow> Float_type_or_value_error)"

text \<open>The checks between the nonce and the budget: expiry, tool, data class, runtime, and the cap.\<close>

definition check_terms :: "mandate_lib \<Rightarrow> int \<Rightarrow> string \<Rightarrow> call_context \<Rightarrow> dict \<Rightarrow> verdict + pyfloat" where
  "check_terms M now tool c d =
     (let reject = (\<lambda>r. Inl (Decision r (mandate_id_of d)));
          class_max = dget d ''data_class_max'' in
      case parse_time (iso_parse M) (dget d ''expires_at'') of
        None \<Rightarrow> reject Expires_at_invalid
      | Some expires \<Rightarrow>
          if expires \<le> now then reject Expired
          else if \<not> (case dget d ''allowed_tools'' of JList ts \<Rightarrow> py_in (JStr tool) ts | _ \<Rightarrow> False)
            then reject Tool_not_allowed
          else if \<not> hashable (c_data_class c) \<or> \<not> hashable class_max then Inl (Raises ''TypeError'')
          else (case (data_class_rank (c_data_class c), data_class_rank class_max) of
            (Some r, Some r_max) \<Rightarrow>
              if r_max < r then reject Data_class_exceeded
              else (case runtime_limit (dget d ''max_runtime_seconds'') of
                None \<Rightarrow> reject Malformed_envelope
              | Some limit \<Rightarrow>
                  if (case c_runtime c of None \<Rightarrow> False | Some est \<Rightarrow> flt (Fin (of_int limit)) est)
                    then reject Runtime_exceeded
                  else (case py_float M (dget d ''budget_usd_max'') of
                    Float_type_or_value_error \<Rightarrow> reject Malformed_envelope
                  | Float_overflow \<Rightarrow> Inl (Raises ''OverflowError'')
                  | Float cap \<Rightarrow> Inr cap))
          | _ \<Rightarrow> reject Invalid_data_class))"

text \<open>The fingerprint the call must carry, \<open>None\<close> in the code is \<open>JNull\<close>; a scope that is not a text has no \<open>encode\<close>.\<close>

definition expected_fingerprint :: "mandate_lib \<Rightarrow> call_context \<Rightarrow> json option" where
  "expected_fingerprint M c = (if c_fingerprint c \<noteq> JNull then Some (c_fingerprint c)
     else (case c_scope_text c of
       JNull \<Rightarrow> Some JNull
     | JStr s \<Rightarrow> Some (JStr (compute_scope_fingerprint M s))
     | _ \<Rightarrow> None))"

definition check_binding :: "mandate_lib \<Rightarrow> call_context \<Rightarrow> dict \<Rightarrow> verdict" where
  "check_binding M c d =
     (if truthy (c_issue_ref c) \<and> \<not> py_eq (dget d ''issue_ref'') (c_issue_ref c)
        then Decision Issue_ref_mismatch (mandate_id_of d)
      else (case expected_fingerprint M c of
        None \<Rightarrow> Raises ''AttributeError''
      | Some f \<Rightarrow> if f \<noteq> JNull \<and> \<not> py_eq (dget d ''scope_fingerprint'') f
          then Decision Scope_fingerprint_mismatch (mandate_id_of d)
          else Decision Accepted (mandate_id_of d)))"

text \<open>The two readings of the clock are \<open>now1\<close>, for the revocation, and \<open>now2\<close>, for the expiry.\<close>

definition verify_mandate :: "mandate_lib \<Rightarrow> 's mandate_deps \<Rightarrow> keyring \<Rightarrow> int \<Rightarrow> int \<Rightarrow> string \<Rightarrow> call_context
    \<Rightarrow> json \<Rightarrow> 's \<Rightarrow> verdict \<times> 's" where
  "verify_mandate M D keys now1 now2 tool c envelope st =
     (case envelope of
        JNull \<Rightarrow> (Decision Mandate_missing None, st)
      | JObj d \<Rightarrow>
          (let mid = mandate_id_of d in
           case check_identity keys d of
             Inl v \<Rightarrow> (v, st)
           | Inr (g, k, material) \<Rightarrow>
               (case dep_revoked D g k now1 st of (revoked, st1) \<Rightarrow>
                if revoked then (Decision Key_revoked mid, st1)
                else if \<not> nonempty_str (dget d ''signature'') then (Decision Missing_signature mid, st1)
                else if \<not> signature_ok M material (text_of (dget d ''signature'')) d
                  then (Decision Invalid_signature mid, st1)
                else if \<not> nonempty_str (dget d ''nonce'') then (Decision Malformed_envelope mid, st1)
                else (case dep_consume D (text_of (dget d ''nonce'')) st1 of (fresh, st2) \<Rightarrow>
                  if \<not> fresh then (Decision Nonce_replayed mid, st2)
                  else (case check_terms M now2 tool c d of
                    Inl v \<Rightarrow> (v, st2)
                  | Inr cap \<Rightarrow> (case dep_debit D mid (c_cost c) cap st2 of (affordable, st3) \<Rightarrow>
                      if \<not> affordable then (Decision Budget_exceeded mid, st3)
                      else (check_binding M c d, st3))))))
      | _ \<Rightarrow> (Decision Malformed_envelope None, st))"

text \<open>\<open>MandateVerifier\<close>: a keyring with an invalid entry is replaced by the empty one.\<close>

definition valid_public_keyring :: "mandate_lib \<Rightarrow> keyring \<Rightarrow> bool" where
  "valid_public_keyring M keys \<longleftrightarrow> list_all (\<lambda>(g, ks). g \<noteq> [] \<and> list_all (\<lambda>(k, m). k \<noteq> [] \<and> key_material M m) ks) keys"

definition verifier_keys :: "mandate_lib \<Rightarrow> keyring \<Rightarrow> keyring" where
  "verifier_keys M keys = (if valid_public_keyring M keys then keys else [])"

section \<open>Issuing\<close>

record issue_request =
  i_granted_by :: string
  i_kid :: string
  i_issue_ref :: string
  i_tools :: "string list"
  i_class_max :: string
  i_budget :: pyfloat
  i_runtime :: int
  i_expires_at :: string
  i_scope_text :: string
  i_nonce :: string
  i_mandate_id :: string
  i_schema_version :: int

text \<open>The signing key: its public half in hex and the signature it makes of a text.\<close>

record signing_key =
  public_hex :: string
  sign_text :: "string \<Rightarrow> string"

text \<open>\<open>timedelta(seconds=x)\<close> in microseconds: the integral part, and the fraction rounded half to even.\<close>

definition delta_us :: "pyfloat \<Rightarrow> int option" where
  "delta_us x = (case x of
     Fin s \<Rightarrow> (let whole = (if 0 \<le> s then \<lfloor>s\<rfloor> else \<lceil>s\<rceil>) in
       Some (whole * 1000000 + round_half_even (rnd ((s - of_int whole) * 1000000))))
   | _ \<Rightarrow> None)"

definition unsigned_mandate :: "mandate_lib \<Rightarrow> issue_request \<Rightarrow> dict" where
  "unsigned_mandate M q =
     [(''schema_version'', JInt (i_schema_version q)), (''mandate_id'', JStr (i_mandate_id q)),
      (''granted_by'', JStr (i_granted_by q)), (''kid'', JStr (i_kid q)), (''issue_ref'', JStr (i_issue_ref q)),
      (''allowed_tools'', JList (map JStr (i_tools q))), (''data_class_max'', JStr (i_class_max q)),
      (''budget_usd_max'', JFlt (i_budget q)), (''max_runtime_seconds'', JInt (i_runtime q)),
      (''expires_at'', JStr (i_expires_at q)), (''nonce'', JStr (i_nonce q)),
      (''scope_fingerprint'', JStr (compute_scope_fingerprint M (i_scope_text q)))]"

text \<open>
  \<open>issue_mandate\<close>, with the fresh nonce and mandate id already chosen. All its refusals are
  exceptions; a number of seconds that no \<open>timedelta\<close> holds raises one as well.
\<close>

datatype issue_error = Empty_kid | Invalid_keyring | Unknown_key | Key_mismatch | Negative_limits
  | Expiry_not_parsed | Limits_not_a_delta | Expiry_exceeds_ttl | Not_canonical

definition issue_mandate :: "mandate_lib \<Rightarrow> keyring \<Rightarrow> signing_key \<Rightarrow> pyfloat \<Rightarrow> pyfloat \<Rightarrow> int \<Rightarrow> issue_request
    \<Rightarrow> issue_error + dict" where
  "issue_mandate M keys key ttl skew now q =
     bindE (ensure (i_kid q \<noteq> []) Empty_kid) (\<lambda>_.
     bindE (ensure (valid_public_keyring M keys) Invalid_keyring) (\<lambda>_.
     case (case map_of keys (i_granted_by q) of None \<Rightarrow> None | Some ks \<Rightarrow> map_of ks (i_kid q)) of
       None \<Rightarrow> Inl Unknown_key
     | Some registered \<Rightarrow>
         bindE (ensure (public_hex key = lower registered) Key_mismatch) (\<lambda>_.
         bindE (ensure (\<not> flt ttl (Fin 0) \<and> \<not> flt skew (Fin 0)) Negative_limits) (\<lambda>_.
         case parse_time (iso_parse M) (JStr (i_expires_at q)) of
           None \<Rightarrow> Inl Expiry_not_parsed
         | Some expires \<Rightarrow> (case delta_us (fadd ttl skew) of
             None \<Rightarrow> Inl Limits_not_a_delta
           | Some delta \<Rightarrow>
               bindE (ensure (expires \<le> now + delta) Expiry_exceeds_ttl) (\<lambda>_.
               case canonical_bytes (mhost M) (JObj (unsigned_mandate M q)) of
                 None \<Rightarrow> Inl Not_canonical
               | Some body \<Rightarrow> Inr (unsigned_mandate M q @ [(''signature'', JStr (b64encode M (sign_text key body)))])))))))"

definition signing_key_credential_id :: "mandate_lib \<Rightarrow> string \<Rightarrow> string \<Rightarrow> string option" where
  "signing_key_credential_id M g k =
     (if g = [] \<or> k = [] then None
      else Some (''mcp-mandate-signing-key--'' @ sha256 (mhost M)
        (dec_int (int (length g)) @ '':'' @ g @ [CHR 0x0A] @ dec_int (int (length k)) @ '':'' @ k)))"

end
