(* ===== verification/Mandate_Guarantees.thy ===== *)
theory Mandate_Guarantees
  imports Mandate
begin

text \<open>
  What the mandate verifier promises. The locale \<open>mandate_registers\<close> states what it relies on:
  a nonce is used up by the first consumption and stays so through every store operation of a call that is \<open>sound\<close>. The
  stores of \<open>Mandate_Stores\<close> keep that contract for the calls that can read the nonce file, so on them a nonce passes once
  unless a read fails.
\<close>

section \<open>What a verdict says\<close>

lemma check_identity_Inr:
  "check_identity keys d = Inr (g, k, material) \<longleftrightarrow> hashable (dget d ''schema_version'') \<and>
     py_eq (dget d ''schema_version'') (JInt MANDATE_SCHEMA) \<and> keys_are d REQUIRED_FIELDS \<and>
     dget d ''granted_by'' = JStr g \<and> dget d ''kid'' = JStr k \<and> k \<noteq> [] \<and>
     (\<exists>issuer. map_of keys g = Some issuer \<and> map_of issuer k = Some material)"
  by (auto simp: check_identity_def Let_def keys_are_has_key REQUIRED_FIELDS_def
      split: if_splits json.splits option.splits)

lemma check_identity_verdict:
  "check_identity keys d = Inl v \<Longrightarrow> v = Raises ''TypeError'' \<or>
     (\<exists>r. v = Decision r (mandate_id_of d) \<and> r \<in> {Unknown_schema_version, Malformed_envelope, Unknown_granted_by, Unknown_kid})"
  by (auto simp: check_identity_def Let_def split: if_splits json.splits option.splits)

lemma check_terms_Inr:
  "check_terms M now tool c d = Inr cap \<longleftrightarrow>
     (\<exists>t ts r r_max limit. parse_time (iso_parse M) (dget d ''expires_at'') = Some t \<and> now < t \<and>
       dget d ''allowed_tools'' = JList ts \<and> JStr tool \<in> set ts \<and>
       data_class_rank (c_data_class c) = Some r \<and> data_class_rank (dget d ''data_class_max'') = Some r_max \<and> r \<le> r_max \<and>
       runtime_limit (dget d ''max_runtime_seconds'') = Some limit \<and>
       (\<forall>est. c_runtime c = Some est \<longrightarrow> \<not> flt (Fin (of_int limit)) est) \<and>
       py_float M (dget d ''budget_usd_max'') = Float cap)"
proof -
  have py_in: "py_in (JStr s) ts \<longleftrightarrow> JStr s \<in> set ts" for s ts
    unfolding py_in_def by (metis py_eq.simps(2) py_eq_str)
  have rank: "data_class_rank v = Some n \<Longrightarrow> hashable v" for v n
    by (auto simp: data_class_rank_def split: json.splits)
  show ?thesis
    by (auto simp: check_terms_def Let_def py_in not_less not_le dest: rank
        split: option.splits json.splits if_splits float_result.splits)
qed

text \<open>The reasons that come after the nonce was consumed.\<close>

definition late :: "reason set" where
  "late = {Accepted, Expires_at_invalid, Expired, Tool_not_allowed, Invalid_data_class, Data_class_exceeded,
     Runtime_exceeded, Budget_exceeded, Issue_ref_mismatch, Scope_fingerprint_mismatch}"

text \<open>A call that got past the nonce check ran the revocation and the consumption, and nothing else first.\<close>

lemma late_consumed:
  assumes "fst (verify_mandate M D keys now1 now2 tool c env st) = Decision r mid" "r \<in> late"
  obtains d g k material where "env = JObj d" "check_identity keys d = Inr (g, k, material)"
    "\<not> fst (dep_revoked D g k now1 st)" "signature_ok M material (text_of (dget d ''signature'')) d"
    "nonempty_str (dget d ''nonce'')"
    "fst (dep_consume D (text_of (dget d ''nonce'')) (snd (dep_revoked D g k now1 st)))"
proof -
  from assms obtain d where d: "env = JObj d"
    by (auto simp: verify_mandate_def late_def split: json.splits)
  show thesis
  proof (cases "check_identity keys d")
    case (Inl v)
    with assms check_identity_verdict [OF Inl] show ?thesis by (auto simp: verify_mandate_def d late_def)
  next
    case (Inr x)
    then obtain g k m where x: "check_identity keys d = Inr (g, k, m)" by (cases x) auto
    show ?thesis
      using assms by (intro that [OF d x])
        (auto simp: verify_mandate_def d x late_def Let_def split_beta split: if_splits)
  qed
qed

section \<open>The contract of the stores\<close>

record 'e mandate_query =
  m_env :: 'e
  m_now1 :: int
  m_now2 :: int
  m_tool :: string
  m_context :: call_context
  m_envelope :: json

definition query_nonce :: "'e mandate_query \<Rightarrow> string" where
  "query_nonce q = (case m_envelope q of JObj d \<Rightarrow> text_of (dget d ''nonce'') | _ \<Rightarrow> [])"

definition verify_query :: "mandate_lib \<Rightarrow> ('e \<Rightarrow> 's mandate_deps) \<Rightarrow> keyring \<Rightarrow> 'e mandate_query \<Rightarrow> 's \<Rightarrow> verdict \<times> 's" where
  "verify_query M D keys q = verify_mandate M (D (m_env q)) keys (m_now1 q) (m_now2 q) (m_tool q) (m_context q) (m_envelope q)"

definition verify_op :: "mandate_lib \<Rightarrow> ('e \<Rightarrow> 's mandate_deps) \<Rightarrow> keyring \<Rightarrow> 'e mandate_query \<Rightarrow> 's \<Rightarrow> 's" where
  "verify_op M D keys q s = snd (verify_query M D keys q s)"

definition past_nonce :: "mandate_lib \<Rightarrow> ('e \<Rightarrow> 's mandate_deps) \<Rightarrow> keyring \<Rightarrow> 'e mandate_query \<Rightarrow> 's \<Rightarrow> bool" where
  "past_nonce M D keys q s \<longleftrightarrow> (\<exists>r mid. fst (verify_query M D keys q s) = Decision r mid \<and> r \<in> late)"

locale mandate_registers =
  fixes D :: "'e \<Rightarrow> 's mandate_deps" and sound :: "'e \<Rightarrow> bool" and used :: "'s \<Rightarrow> string \<Rightarrow> unit option"
  assumes consumed: "fst (dep_consume (D e) n s) \<Longrightarrow> used (snd (dep_consume (D e) n s)) n \<noteq> None"
    and refused: "sound e \<Longrightarrow> used s n \<noteq> None \<Longrightarrow> \<not> fst (dep_consume (D e) n s)"
    and revoked_keeps: "used s n = Some u \<Longrightarrow> used (snd (dep_revoked (D e) g k t s)) n = Some u"
    and consume_keeps: "sound e \<Longrightarrow> used s n = Some u \<Longrightarrow> used (snd (dep_consume (D e) m s)) n = Some u"
    and debit_keeps: "used s n = Some u \<Longrightarrow> used (snd (dep_debit (D e) i c cap s)) n = Some u"
begin

lemma verify_keeps: "sound (m_env q) \<Longrightarrow> used s n = Some u \<Longrightarrow> used (verify_op M D keys q s) n = Some u"
  by (auto simp: verify_op_def verify_query_def verify_mandate_def Let_def split_beta
      intro: revoked_keeps consume_keeps debit_keeps split: json.splits sum.splits)

lemma past_nonce_used:
  assumes "past_nonce M D keys q s"
  shows "used (verify_op M D keys q s) (query_nonce q) \<noteq> None"
proof -
  obtain r mid where v: "fst (verify_mandate M (D (m_env q)) keys (m_now1 q) (m_now2 q) (m_tool q) (m_context q) (m_envelope q) s)
      = Decision r mid" "r \<in> late"
    using assms by (auto simp: past_nonce_def verify_query_def)
  obtain d g k m where d: "m_envelope q = JObj d" "check_identity keys d = Inr (g, k, m)"
    "\<not> fst (dep_revoked (D (m_env q)) g k (m_now1 q) s)" "signature_ok M m (text_of (dget d ''signature'')) d"
    "nonempty_str (dget d ''nonce'')"
    and f: "fst (dep_consume (D (m_env q)) (text_of (dget d ''nonce'')) (snd (dep_revoked (D (m_env q)) g k (m_now1 q) s)))"
    by (rule late_consumed [OF v])
  obtain u where "used (snd (dep_consume (D (m_env q)) (text_of (dget d ''nonce''))
      (snd (dep_revoked (D (m_env q)) g k (m_now1 q) s)))) (query_nonce q) = Some u"
    using consumed [OF f] by (auto simp: query_nonce_def d(1))
  moreover have "nonempty_str (dget d ''signature'')"
    using v d by (auto simp: verify_mandate_def Let_def split_beta late_def split: if_splits)
  ultimately show ?thesis
    using d f by (auto simp: verify_op_def verify_query_def verify_mandate_def Let_def split_beta debit_keeps split: sum.splits)
qed

lemma used_stops: "sound (m_env q) \<Longrightarrow> used s (query_nonce q) \<noteq> None \<Longrightarrow> \<not> past_nonce M D keys q s"
proof
  assume u: "sound (m_env q)" "used s (query_nonce q) \<noteq> None" and "past_nonce M D keys q s"
  then obtain r mid where v: "fst (verify_mandate M (D (m_env q)) keys (m_now1 q) (m_now2 q) (m_tool q) (m_context q) (m_envelope q) s)
      = Decision r mid" "r \<in> late"
    by (auto simp: past_nonce_def verify_query_def)
  obtain d g k where "m_envelope q = JObj d"
    and f: "fst (dep_consume (D (m_env q)) (text_of (dget d ''nonce'')) (snd (dep_revoked (D (m_env q)) g k (m_now1 q) s)))"
    by (rule late_consumed [OF v])
  then show False using u revoked_keeps refused by (fastforce simp: query_nonce_def)
qed

sublocale gate: guarded_gate "verify_op M D keys" "\<lambda>_. True" "\<lambda>q. sound (m_env q)" used "past_nonce M D keys" query_nonce for M keys
  by unfold_locales (use verify_keeps past_nonce_used used_stops in blast)+

end

section \<open>The stores of the server\<close>

record registers =
  r_nonces :: nonce_file
  r_spend :: spend_file
  r_revocations :: revocation_state

text \<open>What one call finds: the clock readings and the snapshot file of the revocation store, and
  which of the two other files can be read and written. An \<open>OSError\<close> of a write is a refusal.\<close>

record call_env =
  e_now1 :: int
  e_now2 :: int
  e_snapshot :: snapshot_file
  e_nonces :: file_access
  e_spend :: file_access

definition server_deps :: "(string \<Rightarrow> int option) \<Rightarrow> pyfloat \<Rightarrow> pyfloat \<Rightarrow> call_env \<Rightarrow> registers mandate_deps" where
  "server_deps parse interval freshness e = \<lparr>
     dep_revoked = (\<lambda>g k t s. let (r, x) = is_revoked parse interval freshness (e_now1 e) (e_now2 e) (e_snapshot e) g k t (r_revocations s)
       in (r, s\<lparr>r_revocations := x\<rparr>)),
     dep_consume = (\<lambda>n s. let (r, x) = check_and_consume (e_nonces e) n (r_nonces s) in (r = Some True, s\<lparr>r_nonces := x\<rparr>)),
     dep_debit = (\<lambda>i c cap s. let (r, x) = record_and_check (e_spend e) i c cap (r_spend s)
       in (r = Some True, s\<lparr>r_spend := x\<rparr>))\<rparr>"

interpretation server: mandate_registers "server_deps parse interval freshness" "\<lambda>e. can_read (e_nonces e)" "\<lambda>s. nonce_used (r_nonces s)"
  for parse interval freshness
proof
  fix e n s u g k t m i c cap
  let ?D = "server_deps parse interval freshness e"
  show "fst (dep_consume ?D n s) \<Longrightarrow> nonce_used (r_nonces (snd (dep_consume ?D n s))) n \<noteq> None"
    using nonce_gate.recorded [where s = "r_nonces s" and q = "(e_nonces e, n)"]
    by (simp add: server_deps_def split_beta nonce_admits_def nonce_op_def)
  show "can_read (e_nonces e) \<Longrightarrow> nonce_used (r_nonces s) n \<noteq> None \<Longrightarrow> \<not> fst (dep_consume ?D n s)"
    using used_refused [of "r_nonces s" n "e_nonces e"] by (simp add: server_deps_def split_beta)
  show "nonce_used (r_nonces s) n = Some u \<Longrightarrow> nonce_used (r_nonces (snd (dep_revoked ?D g k t s))) n = Some u"
    by (simp add: server_deps_def split_beta)
  show "can_read (e_nonces e) \<Longrightarrow> nonce_used (r_nonces s) n = Some u \<Longrightarrow> nonce_used (r_nonces (snd (dep_consume ?D m s))) n = Some u"
    using nonce_gate.stays [where s = "r_nonces s" and q = "(e_nonces e, m)" and k = n and v = u]
    by (simp add: server_deps_def split_beta nonce_op_def)
  show "nonce_used (r_nonces s) n = Some u \<Longrightarrow> nonce_used (r_nonces (snd (dep_debit ?D i c cap s))) n = Some u"
    by (simp add: server_deps_def split_beta)
qed

section \<open>Guarantees\<close>

lemma accepted_facts:
  assumes "verify_mandate M D keys now1 now2 tool c env st = (Decision Accepted mid, st')"
  shows "\<exists>d g k material cap st1 st2. env = JObj d \<and> check_identity keys d = Inr (g, k, material) \<and>
    dep_revoked D g k now1 st = (False, st1) \<and> nonempty_str (dget d ''signature'') \<and>
    signature_ok M material (text_of (dget d ''signature'')) d \<and>
    nonempty_str (dget d ''nonce'') \<and> dep_consume D (text_of (dget d ''nonce'')) st1 = (True, st2) \<and>
    check_terms M now2 tool c d = Inr cap \<and> mid = mandate_id_of d \<and> dep_debit D mid (c_cost c) cap st2 = (True, st') \<and>
    check_binding M c d = Decision Accepted mid"
proof -
  have "fst (verify_mandate M D keys now1 now2 tool c env st) = Decision Accepted mid" "Accepted \<in> late"
    using assms by (simp_all add: late_def)
  then obtain d g k m where d: "env = JObj d" "check_identity keys d = Inr (g, k, m)" "\<not> fst (dep_revoked D g k now1 st)"
    "signature_ok M m (text_of (dget d ''signature'')) d" "nonempty_str (dget d ''nonce'')"
    and f: "fst (dep_consume D (text_of (dget d ''nonce'')) (snd (dep_revoked D g k now1 st)))"
    by (rule late_consumed)
  have sig: "nonempty_str (dget d ''signature'')"
    using assms d by (auto simp: verify_mandate_def Let_def split_beta split: if_splits)
  obtain st1 where st1: "dep_revoked D g k now1 st = (False, st1)" using d(3) by (metis prod.collapse)
  obtain st2 where st2: "dep_consume D (text_of (dget d ''nonce'')) st1 = (True, st2)" using f st1 by (metis prod.collapse snd_conv)
  have v: "(case check_terms M now2 tool c d of Inl v \<Rightarrow> (v, st2)
      | Inr cap \<Rightarrow> (case dep_debit D (mandate_id_of d) (c_cost c) cap st2 of (affordable, st3) \<Rightarrow>
          if \<not> affordable then (Decision Budget_exceeded (mandate_id_of d), st3) else (check_binding M c d, st3))) = (Decision Accepted mid, st')"
    using assms d sig st1 st2 by (simp add: verify_mandate_def Let_def)
  obtain cap where cap: "check_terms M now2 tool c d = Inr cap"
    using v by (cases "check_terms M now2 tool c d") (auto simp: check_terms_def Let_def split: option.splits if_splits float_result.splits)
  then have "mid = mandate_id_of d \<and> dep_debit D (mandate_id_of d) (c_cost c) cap st2 = (True, st') \<and> check_binding M c d = Decision Accepted mid"
    using v by (auto simp: check_binding_def split: prod.splits if_splits option.splits)
  then show ?thesis using d sig st1 st2 cap by blast
qed

text \<open>The four data classes in their order, and what \<open>data_class_rank\<close> makes of them.\<close>

abbreviation data_classes :: "string list" where
  "data_classes \<equiv> [''L0'', ''L1'', ''L2'', ''L3'']"

lemma data_class_rank_nth: "data_class_rank v = Some n \<Longrightarrow> n < 4 \<and> v = JStr (data_classes ! n)"
  by (auto simp: data_class_rank_def numeral_eq_Suc split: json.splits if_splits)

lemma runtime_limit_Some: "runtime_limit v = Some n \<Longrightarrow> 0 \<le> n \<and> v \<in> {JInt n, JFlt (Fin (of_int n))}"
  by (auto simp: runtime_limit_def split: json.splits pyfloat.splits if_splits)

lemma nonempty_text: "nonempty_str v \<Longrightarrow> v = JStr (text_of v) \<and> text_of v \<noteq> []"
  by (cases v) (auto simp: nonempty_str_def text_of_def)

lemma binding_facts:
  assumes "check_binding M c d = Decision Accepted mid"
  shows "truthy (c_issue_ref c) \<Longrightarrow> py_eq (dget d ''issue_ref'') (c_issue_ref c)"
    and "c_fingerprint c \<noteq> JNull \<Longrightarrow> py_eq (dget d ''scope_fingerprint'') (c_fingerprint c)"
    and "c_fingerprint c = JNull \<Longrightarrow> c_scope_text c = JNull \<or>
      (\<exists>s. c_scope_text c = JStr s \<and> py_eq (dget d ''scope_fingerprint'') (JStr (sha256 (mhost M) s)))"
  using assms
  by (auto simp: check_binding_def expected_fingerprint_def compute_scope_fingerprint_def split: if_splits option.splits json.splits)

text \<open>C34: acceptance is sound. When a call is accepted, the envelope has exactly the required fields and schema version
  2; its key is registered for its issuer and the revocation store did not revoke it; the decoded signature
  verifies under that key over the canonical bytes of all other fields; the nonce store, in the state the
  revocation left, had the nonce still to give; the mandate has not expired; the tool is listed; the class of the data is one
  of L0 to L3 and not above the mandate's; the limit of the runtime is a whole number that the estimate does
  not exceed; the budget store, in the state the nonce left, accepted the cost under the mandate's id and cap;
  a claimed issue is the mandate's, and so is a claimed scope, by its fingerprint or else by the hash of its text.\<close>

theorem mandate_acceptance_sound:
  assumes "verify_mandate M D keys now1 now2 tool c env st = (Decision Accepted mid, st')"
  obtains d g k issuer material sig raw body nonce st1 st2 t ts i j limit cap where
    "env = JObj d" "keys_are d REQUIRED_FIELDS" "py_eq (dget d ''schema_version'') (JInt 2)"
    "dget d ''granted_by'' = JStr g" "dget d ''kid'' = JStr k" "k \<noteq> []" "map_of keys g = Some issuer" "map_of issuer k = Some material"
    "dep_revoked D g k now1 st = (False, st1)"
    "dget d ''signature'' = JStr sig" "b64decode M sig = Some raw"
    "canonical_bytes (mhost M) (JObj (filter (\<lambda>kv. fst kv \<noteq> ''signature'') d)) = Some body" "sig_valid M material raw body"
    "dget d ''nonce'' = JStr nonce" "nonce \<noteq> []" "dep_consume D nonce st1 = (True, st2)"
    "parse_time (iso_parse M) (dget d ''expires_at'') = Some t" "now2 < t"
    "dget d ''allowed_tools'' = JList ts" "JStr tool \<in> set ts"
    "c_data_class c = JStr ([''L0'', ''L1'', ''L2'', ''L3''] ! i)" "dget d ''data_class_max'' = JStr ([''L0'', ''L1'', ''L2'', ''L3''] ! j)" "i \<le> j" "j < 4"
    "dget d ''max_runtime_seconds'' \<in> {JInt limit, JFlt (Fin (of_int limit))}" "0 \<le> limit"
    "\<And>est. c_runtime c = Some est \<Longrightarrow> \<not> flt (Fin (of_int limit)) est"
    "py_float M (dget d ''budget_usd_max'') = Float cap" "dep_debit D (mandate_id_of d) (c_cost c) cap st2 = (True, st')" "mid = mandate_id_of d"
    "truthy (c_issue_ref c) \<Longrightarrow> py_eq (dget d ''issue_ref'') (c_issue_ref c)"
    "c_fingerprint c \<noteq> JNull \<Longrightarrow> py_eq (dget d ''scope_fingerprint'') (c_fingerprint c)"
    "c_fingerprint c = JNull \<Longrightarrow> c_scope_text c = JNull \<or>
      (\<exists>s. c_scope_text c = JStr s \<and> py_eq (dget d ''scope_fingerprint'') (JStr (sha256 (mhost M) s)))"
proof -
  obtain d g k material cap st1 st2 where a: "env = JObj d" "check_identity keys d = Inr (g, k, material)"
    "dep_revoked D g k now1 st = (False, st1)" "nonempty_str (dget d ''signature'')"
    "signature_ok M material (text_of (dget d ''signature'')) d"
    "nonempty_str (dget d ''nonce'')" "dep_consume D (text_of (dget d ''nonce'')) st1 = (True, st2)"
    "check_terms M now2 tool c d = Inr cap" "mid = mandate_id_of d" "dep_debit D mid (c_cost c) cap st2 = (True, st')"
    "check_binding M c d = Decision Accepted mid"
    using accepted_facts [OF assms] by blast
  obtain issuer where k: "keys_are d REQUIRED_FIELDS" "py_eq (dget d ''schema_version'') (JInt 2)" "dget d ''granted_by'' = JStr g"
    "dget d ''kid'' = JStr k" "k \<noteq> []" "map_of keys g = Some issuer" "map_of issuer k = Some material"
    using a(2) unfolding check_identity_Inr MANDATE_SCHEMA_def by blast
  obtain raw body where sig: "b64decode M (text_of (dget d ''signature'')) = Some raw" "sig_valid M material raw body"
    "canonical_bytes (mhost M) (JObj (filter (\<lambda>kv. fst kv \<noteq> ''signature'') d)) = Some body"
    using a(5) by (auto simp: signature_ok_def canonical_signing_bytes_def split: option.splits)
  obtain t ts i j limit where ct: "parse_time (iso_parse M) (dget d ''expires_at'') = Some t" "now2 < t"
    "dget d ''allowed_tools'' = JList ts" "JStr tool \<in> set ts"
    "data_class_rank (c_data_class c) = Some i" "data_class_rank (dget d ''data_class_max'') = Some j" "i \<le> j"
    "runtime_limit (dget d ''max_runtime_seconds'') = Some limit" "\<forall>est. c_runtime c = Some est \<longrightarrow> \<not> flt (Fin (of_int limit)) est"
    "py_float M (dget d ''budget_usd_max'') = Float cap"
    using a(8) unfolding check_terms_Inr by blast
  note nonempty = nonempty_text [OF a(4)] nonempty_text [OF a(6)]
  note ranks = data_class_rank_nth [OF ct(5)] data_class_rank_nth [OF ct(6)]
  note bound = binding_facts [OF a(11)]
  show thesis
    by (rule that [of d g k issuer material st1 "text_of (dget d ''signature'')" raw body "text_of (dget d ''nonce'')" st2 t ts i j limit cap])
      (use a k sig ct nonempty ranks runtime_limit_Some [OF ct(8)] bound in \<open>simp_all\<close>)
qed

text \<open>C35: a nonce works once while the nonce file is read. When a call on the server's stores got past the nonce check - whether
  it was then accepted or refused for its expiry, tool, data class, runtime, budget, issue or
  scope - no later call with the same nonce gets past it, whatever calls lie between and whichever of their writes fail, when
  no call after the first failed to read the nonce file. A failed read empties the register
  (\<open>failed_read_readmits_nonces\<close>).\<close>

theorem mandate_nonce_single_use:
  assumes "fst (verify_query M (server_deps parse interval freshness) keys q st) = Decision r mid" "r \<in> late"
    "list_all (\<lambda>q. can_read (e_nonces (m_env q))) qs" "can_read (e_nonces (m_env q'))" "query_nonce q' = query_nonce q"
    "fst (verify_query M (server_deps parse interval freshness) keys q'
       (run (verify_op M (server_deps parse interval freshness) keys) (q # qs) st)) = Decision r' mid'"
  shows "r' \<notin> late"
proof
  assume "r' \<in> late"
  then have "past_nonce M (server_deps parse interval freshness) keys q'
      (run (verify_op M (server_deps parse interval freshness) keys) (q # qs) st)"
    using assms(6) by (auto simp: past_nonce_def)
  moreover have "past_nonce M (server_deps parse interval freshness) keys q st"
    using assms(1,2) by (auto simp: past_nonce_def)
  ultimately show False
    using server.gate.replay_refused [OF TrueI _ assms(3) _ assms(5)] assms(4) by blast
qed

text \<open>an exception escapes the verifier. The schema version is looked up in a set before anything is
  authenticated, so an envelope with a list or an object there raises \<open>TypeError\<close> in every
  configuration, whatever the keyring and the stores.\<close>

theorem mandate_exception_escapes:
  assumes "has_key d ''schema_version''" "\<not> hashable (dget d ''schema_version'')"
  shows "verify_mandate M D keys now1 now2 tool c (JObj d) st = (Raises ''TypeError'', st)"
  using assms by (simp add: verify_mandate_def check_identity_def Let_def)

section \<open>From issuing to verifying\<close>

text \<open>What the round trip relies on: base64 decodes what it encoded, and a signature verifies under
  every spelling of the signer's public key.\<close>

definition crypto_ok :: "mandate_lib \<Rightarrow> signing_key \<Rightarrow> bool" where
  "crypto_ok M key \<longleftrightarrow> (\<forall>s. b64decode M (b64encode M s) = Some s) \<and> (\<forall>m. b64encode M (sign_text key m) \<noteq> []) \<and>
     (\<forall>k m. lower k = public_hex key \<longrightarrow> sig_valid M k (sign_text key m) m)"

lemma issue_mandate_Inr:
  assumes "issue_mandate M keys key ttl skew now q = Inr d"
  obtains issuer registered body t delta where "map_of keys (i_granted_by q) = Some issuer" "map_of issuer (i_kid q) = Some registered"
    "i_kid q \<noteq> []" "public_hex key = lower registered" "parse_time (iso_parse M) (JStr (i_expires_at q)) = Some t"
    "delta_us (fadd ttl skew) = Some delta" "t \<le> now + delta"
    "canonical_bytes (mhost M) (JObj (unsigned_mandate M q)) = Some body"
    "d = unsigned_mandate M q @ [(''signature'', JStr (b64encode M (sign_text key body)))]"
  using assms by (auto simp: issue_mandate_def result_simps split: option.splits if_splits)

lemma signing_bytes_norm:
  "canonical_signing_bytes M (sort_key fst (map_vals json_norm d)) = canonical_signing_bytes M d"
proof -
  have "filter P (map_vals json_norm d) = map_vals json_norm (filter P d)" if "\<And>kv. P kv = (fst kv \<noteq> ''signature'')" for P
    using that by (induction d) (auto simp: map_vals_def)
  then have "JObj (filter (\<lambda>kv. fst kv \<noteq> ''signature'') (sort_key fst (map_vals json_norm d)))
      = json_norm (JObj (filter (\<lambda>kv. fst kv \<noteq> ''signature'') d))"
    by (simp add: filter_sort)
  then show ?thesis by (simp only: canonical_signing_bytes_def canonical_bytes_norm)
qed

text \<open>The call is one the mandate allows.\<close>

definition call_allowed :: "mandate_lib \<Rightarrow> issue_request \<Rightarrow> int \<Rightarrow> string \<Rightarrow> call_context \<Rightarrow> bool" where
  "call_allowed M q now tool c \<longleftrightarrow> (\<exists>t. parse_time (iso_parse M) (JStr (i_expires_at q)) = Some t \<and> now < t) \<and>
     tool \<in> set (i_tools q) \<and>
     (\<exists>r r_max. data_class_rank (c_data_class c) = Some r \<and> data_class_rank (JStr (i_class_max q)) = Some r_max \<and> r \<le> r_max) \<and>
     0 \<le> i_runtime q \<and> (\<forall>est. c_runtime c = Some est \<longrightarrow> \<not> flt (Fin (of_int (i_runtime q))) est) \<and>
     c_issue_ref c \<in> {JStr [], JStr (i_issue_ref q)} \<and>
     expected_fingerprint M c \<in> {Some JNull, Some (JStr (compute_scope_fingerprint M (i_scope_text q)))}"

lemma issued_accepted:
  assumes "issue_mandate M keys key ttl skew now q = Inr d" "crypto_ok M key"
    "i_schema_version q = MANDATE_SCHEMA" "i_mandate_id q \<noteq> []" "i_nonce q \<noteq> []" "call_allowed M q now2 tool c"
    "dep_revoked D (i_granted_by q) (i_kid q) now1 st = (False, st1)" "dep_consume D (i_nonce q) st1 = (True, st2)"
    "dep_debit D (Some (i_mandate_id q)) (c_cost c) (i_budget q) st2 = (True, st3)"
  shows "verify_mandate M D keys now1 now2 tool c (json_norm (JObj d)) st = (Decision Accepted (Some (i_mandate_id q)), st3)"
proof (rule issue_mandate_Inr [OF assms(1)])
  fix issuer registered body t delta
  assume k: "map_of keys (i_granted_by q) = Some issuer" "map_of issuer (i_kid q) = Some registered" "i_kid q \<noteq> []"
    "public_hex key = lower registered"
    and body: "canonical_bytes (mhost M) (JObj (unsigned_mandate M q)) = Some body"
    and d: "d = unsigned_mandate M q @ [(''signature'', JStr (b64encode M (sign_text key body)))]"
  let ?d = "sort_key fst (map_vals json_norm d)"
  have get: "dget ?d ''schema_version'' = JInt (i_schema_version q)" "dget ?d ''mandate_id'' = JStr (i_mandate_id q)"
    "dget ?d ''granted_by'' = JStr (i_granted_by q)" "dget ?d ''kid'' = JStr (i_kid q)" "dget ?d ''issue_ref'' = JStr (i_issue_ref q)"
    "dget ?d ''allowed_tools'' = JList (map JStr (i_tools q))" "dget ?d ''data_class_max'' = JStr (i_class_max q)"
    "dget ?d ''budget_usd_max'' = JFlt (i_budget q)" "dget ?d ''max_runtime_seconds'' = JInt (i_runtime q)"
    "dget ?d ''expires_at'' = JStr (i_expires_at q)" "dget ?d ''nonce'' = JStr (i_nonce q)"
    "dget ?d ''scope_fingerprint'' = JStr (compute_scope_fingerprint M (i_scope_text q))"
    "dget ?d ''signature'' = JStr (b64encode M (sign_text key body))"
    by (simp_all add: d unsigned_mandate_def comp_def)
  have "keys_are d REQUIRED_FIELDS" by (auto simp: d unsigned_mandate_def keys_are_def dict_keys_def REQUIRED_FIELDS_def)
  then have keys: "keys_are ?d REQUIRED_FIELDS" by simp
  have ident: "check_identity keys ?d = Inr (i_granted_by q, i_kid q, registered)"
    unfolding check_identity_Inr get using k keys assms(3) by (simp add: MANDATE_SCHEMA_def)
  have "canonical_signing_bytes M ?d = Some body"
    unfolding signing_bytes_norm using body by (simp add: canonical_signing_bytes_def d unsigned_mandate_def)
  then have sig: "signature_ok M registered (text_of (dget ?d ''signature'')) ?d"
    unfolding get using assms(2) k(4) by (simp add: signature_ok_def crypto_ok_def text_of_def)
  have terms: "check_terms M now2 tool c ?d = Inr (i_budget q)"
    unfolding check_terms_Inr get using assms(6) by (auto simp: call_allowed_def runtime_limit_def py_float_def)
  have mid: "mandate_id_of ?d = Some (i_mandate_id q)" unfolding mandate_id_of_def get using assms(4) by simp
  have bind: "check_binding M c ?d = Decision Accepted (Some (i_mandate_id q))"
    unfolding check_binding_def get mid using assms(6) by (auto simp: call_allowed_def)
  have ne: "nonempty_str (dget ?d ''signature'')" "nonempty_str (dget ?d ''nonce'')"
    unfolding get using assms(2,5) by (simp_all add: nonempty_str_def crypto_ok_def)
  show ?thesis
    using ident sig terms bind mid ne assms(7-9) get(11) by (simp add: verify_mandate_def text_of_def Let_def)
qed

text \<open>C36: an issued mandate is accepted. The envelope \<open>issue_mandate\<close> returns, sent as JSON, is accepted for
  every call it allows, by a verifier with the same keyring whose stores do not revoke the
  key, have not seen the nonce and afford the cost; the decision carries its mandate id.\<close>

theorem mandate_issue_verify:
  assumes "issue_mandate M keys key ttl skew now q = Inr d" "crypto_ok M key"
    "i_schema_version q = MANDATE_SCHEMA" "i_mandate_id q \<noteq> []" "i_nonce q \<noteq> []" "call_allowed M q now2 tool c"
    "dep_revoked D (i_granted_by q) (i_kid q) now1 st = (False, st1)" "dep_consume D (i_nonce q) st1 = (True, st2)"
    "dep_debit D (Some (i_mandate_id q)) (c_cost c) (i_budget q) st2 = (True, st3)"
  shows "verify_mandate M D keys now1 now2 tool c (json_norm (JObj d)) st = (Decision Accepted (Some (i_mandate_id q)), st3)"
  using assms by (rule issued_accepted)

section \<open>A sample mandate\<close>

definition sample_mlib :: mandate_lib where
  "sample_mlib = \<lparr>mhost = sample_lib, iso_parse = (\<lambda>_. Some 100), float_parse = (\<lambda>_. None),
     b64decode = (\<lambda>s. Some (drop 1 s)), b64encode = (\<lambda>s. CHR ''A'' # s), key_material = (\<lambda>_. True), sig_valid = (\<lambda>k s m. s = m)\<rparr>"

definition sample_key :: signing_key where
  "sample_key = \<lparr>public_hex = ''ab'', sign_text = (\<lambda>m. m)\<rparr>"

definition sample_keys :: keyring where
  "sample_keys = [(''operator'', [(''k1'', ''ab'')])]"

definition sample_request :: issue_request where
  "sample_request = \<lparr>i_granted_by = ''operator'', i_kid = ''k1'', i_issue_ref = ''o/r#1'', i_tools = [''run''], i_class_max = ''L1'',
     i_budget = Fin 2, i_runtime = 60, i_expires_at = ''t'', i_scope_text = ''s'', i_nonce = ''n'', i_mandate_id = ''m'',
     i_schema_version = MANDATE_SCHEMA\<rparr>"

lemma sample_fields [simp]:
  "mhost sample_mlib = sample_lib" "iso_parse sample_mlib s = Some 100" "b64encode sample_mlib s = CHR ''A'' # s"
  "key_material sample_mlib s" "public_hex sample_key = ''ab''" "sign_text sample_key s = s"
  "i_kid sample_request = ''k1''" "i_granted_by sample_request = ''operator''" "i_expires_at sample_request = ''t''"
  "i_budget sample_request = Fin 2" "i_mandate_id sample_request = ''m''" "i_nonce sample_request = ''n''"
  "i_schema_version sample_request = MANDATE_SCHEMA"
  by (simp_all add: sample_mlib_def sample_key_def sample_request_def)

definition sample_context :: call_context where
  "sample_context = \<lparr>c_issue_ref = JStr [], c_data_class = JStr ''L0'', c_cost = Fin 1, c_runtime = None, c_scope_text = JNull, c_fingerprint = JNull\<rparr>"

definition sample_registers :: registers where
  "sample_registers = \<lparr>r_nonces = None, r_spend = None, r_revocations = \<lparr>generation = Some 0, entries = [],
     last_valid_at = Some 0, last_check_at = Some 0, metadata = None, invalid_newer = False\<rparr>\<rparr>"

definition sample_env :: call_env where
  "sample_env = \<lparr>e_now1 = 0, e_now2 = 0, e_snapshot = None, e_nonces = read_write, e_spend = read_write\<rparr>"

abbreviation sample_deps :: "call_env \<Rightarrow> registers mandate_deps" where
  "sample_deps \<equiv> server_deps (iso_parse sample_mlib) (Fin 10) (Fin 60)"

definition sample_envelope :: dict where
  "sample_envelope = unsigned_mandate sample_mlib sample_request @
     [(''signature'', JStr (CHR ''A'' # dumps sample_lib False (JObj (unsigned_mandate sample_mlib sample_request))))]"

lemma sample_issue: "issue_mandate sample_mlib sample_keys sample_key (Fin 60) (Fin 0) 50 sample_request = Inr sample_envelope"
proof -
  have "lower ''ab'' = ''ab''" by (simp add: lower_def lower_char_def)
  moreover have "delta_us (fadd (Fin 60) (Fin 0)) = Some 60000000"
    using round_half_even_int [of 0] by (simp add: delta_us_def to_float_def Let_def)
  moreover have "canonical_bytes sample_lib (JObj (unsigned_mandate sample_mlib sample_request)) =
      Some (dumps sample_lib False (JObj (unsigned_mandate sample_mlib sample_request)))"
    by (simp add: canonical_bytes_def unsigned_mandate_def list_all_iff)
  ultimately show ?thesis
    by (simp add: issue_mandate_def valid_public_keyring_def sample_envelope_def parse_time_def sample_keys_def del: fadd.simps)
qed

lemma sample_crypto: "crypto_ok sample_mlib sample_key"
  by (simp add: crypto_ok_def sample_mlib_def sample_key_def)

lemma sample_stores:
  "dep_revoked (sample_deps sample_env) ''operator'' ''k1'' 0 sample_registers = (False, sample_registers)"
  "dep_consume (sample_deps sample_env) ''n'' sample_registers = (True, sample_registers\<lparr>r_nonces := Some [''n'']\<rparr>)"
  "fst (dep_debit (sample_deps sample_env) (Some ''m'') (Fin 1) (Fin 2) (sample_registers\<lparr>r_nonces := Some [''n'']\<rparr>))"
  by (simp_all add: server_deps_def sample_env_def sample_registers_def is_revoked_def refresh_def seconds_between_def Let_def
      check_and_consume_def nonces_read_def record_and_check_def spend_read_def spent_of_def fmax0_def to_float_def)

lemma sample_allowed: "call_allowed sample_mlib sample_request 0 ''run'' sample_context"
  by (simp add: call_allowed_def sample_mlib_def sample_request_def sample_context_def parse_time_def data_class_rank_def
      expected_fingerprint_def)

lemma sample_accepted:
  "fst (verify_mandate sample_mlib (sample_deps sample_env) sample_keys 0 0 ''run'' sample_context
     (json_norm (JObj sample_envelope)) sample_registers) = Decision Accepted (Some ''m'')"
proof -
  obtain st3 where "dep_debit (sample_deps sample_env) (Some ''m'') (Fin 1) (Fin 2) (sample_registers\<lparr>r_nonces := Some [''n'']\<rparr>) = (True, st3)"
    using sample_stores(3) by (metis prod.collapse)
  then show ?thesis
    using issued_accepted [OF sample_issue sample_crypto _ _ _ sample_allowed, of "sample_deps sample_env" 0 sample_registers
        sample_registers "sample_registers\<lparr>r_nonces := Some [''n'']\<rparr>" st3] sample_stores
    by (simp add: sample_request_def sample_context_def)
qed

definition sample_query :: "call_env mandate_query" where
  "sample_query = \<lparr>m_env = sample_env, m_now1 = 0, m_now2 = 0, m_tool = ''run'', m_context = sample_context,
     m_envelope = json_norm (JObj sample_envelope)\<rparr>"

lemma sample_query_accepted:
  "fst (verify_query sample_mlib sample_deps sample_keys sample_query sample_registers) = Decision Accepted (Some ''m'')"
  using sample_accepted by (simp add: verify_query_def sample_query_def del: json_norm.simps)

theorem mandate_acceptance_sound_witness:
  "\<exists>d raw body. json_norm (JObj sample_envelope) = JObj d \<and> sig_valid sample_mlib ''ab'' raw body \<and> keys_are d REQUIRED_FIELDS"
proof -
  obtain st' where v: "verify_mandate sample_mlib (sample_deps sample_env) sample_keys 0 0 ''run'' sample_context
     (json_norm (JObj sample_envelope)) sample_registers = (Decision Accepted (Some ''m''), st')"
    using sample_accepted by (metis prod.collapse)
  obtain d g k issuer material raw body where d: "json_norm (JObj sample_envelope) = JObj d" "sig_valid sample_mlib material raw body"
    "keys_are d REQUIRED_FIELDS" and k: "map_of sample_keys g = Some issuer" "map_of issuer k = Some material"
    by (rule mandate_acceptance_sound [OF v])
  have "material = ''ab''" using k by (auto simp: sample_keys_def split: if_splits)
  then show ?thesis using d by blast
qed

theorem mandate_nonce_single_use_witness:
  "fst (verify_query sample_mlib sample_deps sample_keys (sample_query\<lparr>m_envelope := JObj [(''nonce'', JStr ''n'')]\<rparr>)
      (run (verify_op sample_mlib sample_deps sample_keys) [sample_query, sample_query] sample_registers)) = Decision Malformed_envelope None \<and>
    Malformed_envelope \<notin> late"
proof -
  let ?q = "sample_query\<lparr>m_envelope := JObj [(''nonce'', JStr ''n'')]\<rparr>"
  have v: "fst (verify_query sample_mlib sample_deps sample_keys ?q
      (run (verify_op sample_mlib sample_deps sample_keys) [sample_query, sample_query] sample_registers)) = Decision Malformed_envelope None"
    by (simp add: verify_query_def verify_mandate_def check_identity_def has_key_def dict_keys_def keys_are_def REQUIRED_FIELDS_def
        mandate_id_of_def)
  have n: "query_nonce ?q = query_nonce sample_query"
    by (simp add: query_nonce_def sample_query_def sample_envelope_def unsigned_mandate_def)
  have "Accepted \<in> late" by (simp add: late_def)
  have "list_all (\<lambda>q. can_read (e_nonces (m_env q))) [sample_query]" "can_read (e_nonces (m_env ?q))"
    by (simp_all add: sample_query_def sample_env_def)
  from mandate_nonce_single_use [OF sample_query_accepted \<open>Accepted \<in> late\<close> this n v] v show ?thesis by blast
qed

theorem mandate_exception_escapes_witness:
  "verify_mandate sample_mlib (sample_deps sample_env) [] 0 0 ''run'' sample_context (JObj [(''schema_version'', JList [])])
     sample_registers = (Raises ''TypeError'', sample_registers)"
  by (rule mandate_exception_escapes) (simp_all add: has_key_def dict_keys_def)

theorem mandate_issue_verify_witness:
  "\<exists>st3. verify_mandate sample_mlib (sample_deps sample_env) sample_keys 0 0 ''run'' sample_context
     (json_norm (JObj sample_envelope)) sample_registers = (Decision Accepted (Some ''m''), st3)"
proof -
  obtain st3 where "dep_debit (sample_deps sample_env) (Some ''m'') (Fin 1) (Fin 2) (sample_registers\<lparr>r_nonces := Some [''n'']\<rparr>) = (True, st3)"
    using sample_stores(3) by (metis prod.collapse)
  then show ?thesis
    using mandate_issue_verify [OF sample_issue sample_crypto _ _ _ sample_allowed, of "sample_deps sample_env" 0 sample_registers
        sample_registers "sample_registers\<lparr>r_nonces := Some [''n'']\<rparr>" st3] sample_stores
    by (auto simp: sample_request_def sample_context_def)
qed

end
