(* ===== verification/Run_Summaries.thy ===== *)
theory Run_Summaries
  imports Canonical
begin

text \<open>
  The Run-summary authority of \<open>widget_contract/run_authority.py\<close>: two stores hold records of
  the same Runs, the dispatcher's registry and the session-event documents. The definitions
  read both (\<open>summary_from_dispatcher\<close>, \<open>summaries_from_sessions\<close>), correlate them by run id
  (\<open>correlate_run_summaries\<close>) and classify how alive an issue's Runs are
  (\<open>compute_run_freshness\<close>). A summary is a record; its optional time stamps are texts, as in
  the code, and \<open>worker_role\<close> is whatever value the stores hold.

  The date functions of the Python library and \<open>repr\<close> of containers are the parameters of
  \<open>runlib\<close>. Instants are microseconds since the epoch, a naive one read as UTC.
\<close>

datatype stamp = Naive int | Aware int

record runlib =
  repr_of :: "json \<Rightarrow> string"
  fromisoformat :: "string \<Rightarrow> stamp option"
  strptime :: "string \<Rightarrow> string \<Rightarrow> stamp option"
  fromtimestamp :: "json \<Rightarrow> string option"

datatype run_error = Missing_run_id | Bad_epoch json

record run_summary =
  sm_run_id :: string
  sm_issue_ref :: string
  sm_status :: string
  sm_engine :: "string option"
  sm_worker_role :: json
  sm_started_at :: "string option"
  sm_finished_at :: "string option"
  sm_heartbeat_at :: "string option"
  sm_sources :: "string list"
  sm_conflict :: "(string \<times> string list) option"

definition STORE_DISPATCHER :: string where
  "STORE_DISPATCHER = ''dispatcher.runs''"

definition STORE_SESSION :: string where
  "STORE_SESSION = ''session.events''"

definition RUNNING_STATUS :: string where
  "RUNNING_STATUS = ''in_progress''"

definition CONFLICT_STATUS :: string where
  "CONFLICT_STATUS = ''conflict''"

definition KNOWN_STATUSES :: "string list" where
  "KNOWN_STATUSES = [''in_progress'', ''succeeded'', ''failed'', ''timed_out'', ''budget_exceeded'',
     ''blocked'', ''cancelled'', ''review_submitted'', ''conflict'', ''unknown'']"

section \<open>Reading fields\<close>

text \<open>\<open>str(v)\<close>.\<close>

definition py_str :: "runlib \<Rightarrow> json \<Rightarrow> string" where
  "py_str L v = (case v of
     JStr s \<Rightarrow> s
   | JNull \<Rightarrow> ''None''
   | JBool b \<Rightarrow> (if b then ''True'' else ''False'')
   | JInt n \<Rightarrow> dec_int n
   | _ \<Rightarrow> repr_of L v)"

text \<open>\<open>a or b\<close> for values and for optional texts.\<close>

definition or_else :: "json \<Rightarrow> json \<Rightarrow> json" where
  "or_else v w = (if truthy v then v else w)"

definition opt_or :: "string option \<Rightarrow> string option \<Rightarrow> string option" where
  "opt_or x y = (if x = None \<or> x = Some [] then y else x)"

definition iso_text :: "json \<Rightarrow> string option" where
  "iso_text v = (case v of JStr s \<Rightarrow> (if s \<noteq> [] then Some s else None) | _ \<Rightarrow> None)"

definition timestamp_of :: "runlib \<Rightarrow> json \<Rightarrow> run_error + string option" where
  "timestamp_of L v = (case v of
     JNull \<Rightarrow> Inr None
   | JStr s \<Rightarrow> Inr (if s \<noteq> [] then Some s else None)
   | JInt n \<Rightarrow> (case fromtimestamp L v of None \<Rightarrow> Inl (Bad_epoch v) | Some t \<Rightarrow> Inr (Some t))
   | JFlt x \<Rightarrow> (case fromtimestamp L v of None \<Rightarrow> Inl (Bad_epoch v) | Some t \<Rightarrow> Inr (Some t))
   | _ \<Rightarrow> Inr None)"

fun pick :: "dict \<Rightarrow> string list \<Rightarrow> json" where
  "pick payload [] = JNull"
| "pick payload (k # ks) =
     (if dget payload k \<noteq> JNull \<and> dget payload k \<noteq> JStr [] then dget payload k
      else pick payload ks)"

text \<open>\<open>d.get(k) if isinstance(d.get(k), Mapping) else {}\<close>.\<close>

definition get_dict :: "dict \<Rightarrow> string \<Rightarrow> dict" where
  "get_dict d k = (case dget d k of JObj e \<Rightarrow> e | _ \<Rightarrow> [])"

definition as_dict :: "json \<Rightarrow> dict" where
  "as_dict v = (case v of JObj d \<Rightarrow> d | _ \<Rightarrow> [])"

section \<open>Summaries from the two stores\<close>

definition summary_from_dispatcher :: "runlib \<Rightarrow> json \<Rightarrow> string \<Rightarrow> run_error + run_summary option" where
  "summary_from_dispatcher L run issue_ref = (case run of
     JObj d \<Rightarrow>
       if py_str L (dget d ''issue_id'') \<noteq> issue_ref then Inr None
       else
         (let s = py_str L (or_else (dget d ''status'') (JStr RUNNING_STATUS));
              status = (if s \<in> set KNOWN_STATUSES then s else ''unknown'') in
          bindE (ensure (has_key d ''run_id'') Missing_run_id) (\<lambda>_.
          bindE (timestamp_of L (dget d ''claimed_at'')) (\<lambda>started.
          bindE (timestamp_of L (dget d ''finished_at'')) (\<lambda>finished.
          bindE (timestamp_of L (pick d [''heartbeat_at'', ''finished_at'', ''claimed_at''])) (\<lambda>beat.
          Inr (Some \<lparr>sm_run_id = py_str L (dget d ''run_id''), sm_issue_ref = issue_ref,
            sm_status = status, sm_engine = iso_text (pick d [''runtime'']),
            sm_worker_role = pick d [''worker_role''], sm_started_at = started,
            sm_finished_at = finished, sm_heartbeat_at = beat,
            sm_sources = [STORE_DISPATCHER], sm_conflict = None\<rparr>))))))
   | _ \<Rightarrow> Inr None)"

definition event_type_of :: "runlib \<Rightarrow> dict \<Rightarrow> string" where
  "event_type_of L e = py_str L (or_else (dget e ''event_type'') (JStr []))"

fun started_scan :: "runlib \<Rightarrow> json list \<Rightarrow> string option \<Rightarrow> string option" where
  "started_scan L [] started = started"
| "started_scan L (JObj e # es) started =
     (if event_type_of L e = ''run.running''
      then opt_or (iso_text (dget (get_dict e ''payload'') ''started_at'')) started
      else started_scan L es started)"
| "started_scan L (_ # es) started = started_scan L es started"

fun terminal_scan :: "runlib \<Rightarrow> json list \<Rightarrow> string \<times> string option" where
  "terminal_scan L [] = (RUNNING_STATUS, None)"
| "terminal_scan L (JObj e # es) =
     (if event_type_of L e = ''run.review_submitted''
        then (''review_submitted'', iso_text (dget e ''timestamp''))
      else if event_type_of L e = ''run.engine_turn''
        then ((case dget (get_dict e ''payload'') ''status'' of
                 JStr s \<Rightarrow> if s \<in> set KNOWN_STATUSES then s else ''unknown''
               | _ \<Rightarrow> ''unknown''), iso_text (dget e ''timestamp''))
      else if event_type_of L e = ''run.running'' then (RUNNING_STATUS, None)
      else terminal_scan L es)"
| "terminal_scan L (_ # es) = terminal_scan L es"

fun last_stamp :: "json list \<Rightarrow> string option" where
  "last_stamp [] = None"
| "last_stamp (JObj e # es) =
     (if iso_text (dget e ''timestamp'') \<noteq> None then iso_text (dget e ''timestamp'') else last_stamp es)"
| "last_stamp (_ # es) = last_stamp es"

definition session_summary :: "runlib \<Rightarrow> string \<Rightarrow> json \<Rightarrow> run_summary option" where
  "session_summary L issue_ref doc = (case doc of
     JObj d \<Rightarrow> (case dget d ''events'' of
       JList events \<Rightarrow>
         if events = [] then None
         else
           (let created = as_dict (hd events);
                payload = get_dict created ''payload'';
                run_id = dget payload ''run_id'';
                owner_ref = pick payload [''issue_id'', ''issue_ref''] in
            if \<not> truthy run_id \<or> py_str L owner_ref \<noteq> issue_ref then None
            else
              (let started = started_scan L events (iso_text (dget created ''timestamp''));
                   (status, finished) = terminal_scan L (List.rev events);
                   last_event_ts = last_stamp (List.rev events) in
               Some \<lparr>sm_run_id = py_str L run_id, sm_issue_ref = issue_ref, sm_status = status,
                 sm_engine = iso_text (pick payload [''runtime'', ''engine_id'']),
                 sm_worker_role = pick payload [''worker_role'', ''profile''],
                 sm_started_at = started, sm_finished_at = finished,
                 sm_heartbeat_at = opt_or finished (opt_or last_event_ts started),
                 sm_sources = [STORE_SESSION], sm_conflict = None\<rparr>))
     | _ \<Rightarrow> None)
   | _ \<Rightarrow> None)"

definition summaries_from_sessions :: "runlib \<Rightarrow> json list \<Rightarrow> string \<Rightarrow> run_summary list" where
  "summaries_from_sessions L session_docs issue_ref = List.map_filter (session_summary L issue_ref) session_docs"

section \<open>Instants\<close>

text \<open>
  The part of \<open>_epoch\<close> that reads a text: \<open>fromisoformat\<close> after a final \<open>Z\<close> was replaced, then
  the two plain formats. The value is the binary64 number of seconds.
\<close>

definition stamp_seconds :: "stamp \<Rightarrow> rat" where
  "stamp_seconds t = (case t of Naive us \<Rightarrow> rnd (of_int us / 1000000) | Aware us \<Rightarrow> rnd (of_int us / 1000000))"

definition rstrip_z :: "string \<Rightarrow> string" where
  "rstrip_z s = List.rev (dropWhile (\<lambda>c. c = CHR ''Z'') (List.rev s))"

definition epoch :: "runlib \<Rightarrow> string option \<Rightarrow> rat option" where
  "epoch L value = (case value of
     None \<Rightarrow> None
   | Some v \<Rightarrow>
       if v = [] then None
       else
         (let text = (let t = strip v in if endswith t ''Z'' then butlast t @ ''+00:00'' else t) in
          map_option stamp_seconds
            (case fromisoformat L text of
               Some t \<Rightarrow> Some t
             | None \<Rightarrow> (case strptime L (rstrip_z v) ''%Y-%m-%dT%H:%M:%S'' of
                 Some t \<Rightarrow> Some t
               | None \<Rightarrow> strptime L (rstrip_z v) ''%Y-%m-%dT%H:%M:%S.%f''))))"

fun newest_from :: "runlib \<Rightarrow> (rat \<times> string) option \<Rightarrow> string option list \<Rightarrow> string option" where
  "newest_from L best [] = map_option snd best"
| "newest_from L best (v # vs) =
     (case epoch L v of
        None \<Rightarrow> newest_from L best vs
      | Some e \<Rightarrow> (case best of
          None \<Rightarrow> newest_from L (Some (e, the v)) vs
        | Some (b, _) \<Rightarrow> if b < e then newest_from L (Some (e, the v)) vs else newest_from L best vs))"

definition newest :: "runlib \<Rightarrow> string option list \<Rightarrow> string option" where
  "newest L values = newest_from L None values"

section \<open>Merging\<close>

definition agree_status :: "run_summary \<Rightarrow> run_summary \<Rightarrow> bool" where
  "agree_status a b \<longleftrightarrow> sm_status a = sm_status b"

definition keep :: "'a option \<Rightarrow> 'a option \<Rightarrow> 'a option" where
  "keep x y = (if x \<noteq> None then x else y)"

definition merged_tail ::
    "runlib \<Rightarrow> run_summary \<Rightarrow> run_summary \<Rightarrow> string \<Rightarrow> (string \<times> string list) option \<Rightarrow> run_summary" where
  "merged_tail L existing summary status conflict =
     \<lparr>sm_run_id = sm_run_id existing, sm_issue_ref = sm_issue_ref existing, sm_status = status,
      sm_engine = keep (sm_engine existing) (sm_engine summary),
      sm_worker_role = (if sm_worker_role existing \<noteq> JNull then sm_worker_role existing
                        else sm_worker_role summary),
      sm_started_at = keep (sm_started_at existing) (sm_started_at summary),
      sm_finished_at = keep (sm_finished_at existing) (sm_finished_at summary),
      sm_heartbeat_at = newest L [sm_heartbeat_at existing, sm_heartbeat_at summary],
      sm_sources = [STORE_DISPATCHER, STORE_SESSION], sm_conflict = conflict\<rparr>"

definition conflict_tail ::
    "runlib \<Rightarrow> run_summary \<Rightarrow> run_summary \<Rightarrow> string \<Rightarrow> string list \<Rightarrow> run_summary" where
  "conflict_tail L existing summary field values =
     merged_tail L existing summary CONFLICT_STATUS (Some (field, values))"

definition LIFECYCLE_SUCCESSORS :: "(string \<times> string) list" where
  "LIFECYCLE_SUCCESSORS = [(''succeeded'', ''review_submitted'')]"

definition lifecycle_successor :: "string \<Rightarrow> string \<Rightarrow> string option" where
  "lifecycle_successor first second =
     (if (first, second) \<in> set LIFECYCLE_SUCCESSORS then Some second
      else if (second, first) \<in> set LIFECYCLE_SUCCESSORS then Some first
      else None)"

text \<open>One turn of the second loop of \<open>correlate_run_summaries\<close> for a run both sides know.\<close>

definition merge_pair :: "runlib \<Rightarrow> run_summary \<Rightarrow> run_summary \<Rightarrow> run_summary" where
  "merge_pair L existing summary =
     (let later = lifecycle_successor (sm_status existing) (sm_status summary) in
      if later = None \<and> \<not> agree_status existing summary
        then conflict_tail L existing summary ''status'' [sm_status existing, sm_status summary]
      else if later \<noteq> None then merged_tail L existing summary (the later) None
      else if sm_finished_at existing \<noteq> None \<and> sm_finished_at summary \<noteq> None \<and>
              sm_finished_at existing \<noteq> sm_finished_at summary
        then conflict_tail L existing summary ''finished_at''
               [the (sm_finished_at existing), the (sm_finished_at summary)]
      else merged_tail L existing summary (sm_status existing) None)"

type_synonym merged = "(string \<times> run_summary) list"

fun dispatcher_pass :: "runlib \<Rightarrow> string \<Rightarrow> json list \<Rightarrow> merged \<Rightarrow> run_error + merged" where
  "dispatcher_pass L issue_ref [] merged = Inr merged"
| "dispatcher_pass L issue_ref (run # runs) merged =
     bindE (summary_from_dispatcher L run issue_ref) (\<lambda>summary.
     dispatcher_pass L issue_ref runs
       (case summary of None \<Rightarrow> merged | Some s \<Rightarrow> AList.update (sm_run_id s) s merged))"

definition session_reading :: "runlib \<Rightarrow> string \<Rightarrow> json \<Rightarrow> run_summary option" where
  "session_reading L issue_ref raw = (case raw of
     JObj d \<Rightarrow>
       if py_str L (or_else (dget d ''issue_ref'') (JStr [])) \<noteq> issue_ref then None
       else
         (let status = py_str L (or_else (dget d ''status'') (JStr RUNNING_STATUS)) in
          Some \<lparr>sm_run_id = py_str L (dget d ''run_id''), sm_issue_ref = issue_ref,
            sm_status = (if status \<in> set KNOWN_STATUSES then status else ''unknown''),
            sm_engine = iso_text (dget d ''engine''), sm_worker_role = pick d [''worker_role''],
            sm_started_at = iso_text (dget d ''started_at''), sm_finished_at = iso_text (dget d ''finished_at''),
            sm_heartbeat_at = opt_or (iso_text (dget d ''heartbeat_at''))
              (opt_or (iso_text (dget d ''finished_at'')) (iso_text (dget d ''started_at''))),
            sm_sources = [STORE_SESSION], sm_conflict = None\<rparr>)
   | _ \<Rightarrow> None)"

definition session_pass :: "runlib \<Rightarrow> string \<Rightarrow> merged \<Rightarrow> json \<Rightarrow> merged" where
  "session_pass L issue_ref merged raw = (case session_reading L issue_ref raw of
     None \<Rightarrow> merged
   | Some summary \<Rightarrow>
       AList.update (sm_run_id summary)
         (case map_of merged (sm_run_id summary) of
            None \<Rightarrow> summary
          | Some existing \<Rightarrow> merge_pair L existing summary) merged)"

text \<open>\<open>sorted(.., reverse=True)\<close> keeps the order of equal keys.\<close>

definition sorted_desc :: "('a \<Rightarrow> string) \<Rightarrow> 'a list \<Rightarrow> 'a list" where
  "sorted_desc key xs = List.rev (sort_key key (List.rev xs))"

definition correlate_run_summaries ::
    "runlib \<Rightarrow> string \<Rightarrow> dict \<Rightarrow> json list \<Rightarrow> run_error + run_summary list" where
  "correlate_run_summaries L issue_ref dispatcher_runs session_runs =
     bindE (dispatcher_pass L issue_ref (map snd dispatcher_runs) []) (\<lambda>merged.
     Inr (sorted_desc sm_run_id (map snd (foldl (session_pass L issue_ref) merged session_runs))))"

section \<open>The envelope of the summaries\<close>

definition opt_json :: "string option \<Rightarrow> json" where
  "opt_json x = (case x of None \<Rightarrow> JNull | Some s \<Rightarrow> JStr s)"

text \<open>A summary as the mapping the code passes on; the projection copies the same fields.\<close>

definition summary_item :: "run_summary \<Rightarrow> json" where
  "summary_item s = JObj
     [(''run_id'', JStr (sm_run_id s)), (''issue_ref'', JStr (sm_issue_ref s)),
      (''status'', JStr (sm_status s)), (''engine'', opt_json (sm_engine s)),
      (''worker_role'', sm_worker_role s), (''started_at'', opt_json (sm_started_at s)),
      (''finished_at'', opt_json (sm_finished_at s)), (''heartbeat_at'', opt_json (sm_heartbeat_at s)),
      (''sources'', JList (map JStr (sm_sources s))),
      (''conflict'', case sm_conflict s of None \<Rightarrow> JNull
         | Some (field, values) \<Rightarrow> JObj [(''field'', JStr field), (''values'', JList (map JStr values))])]"

definition run_summaries_projection :: "string \<Rightarrow> run_summary list \<Rightarrow> json" where
  "run_summaries_projection issue_ref summaries = JObj
     [(''schema_version'', JInt 1), (''issue_ref'', JStr issue_ref),
      (''runs'', JList (map summary_item summaries))]"

section \<open>Freshness\<close>

definition TERMINAL_RUN_STATUSES :: "string list" where
  "TERMINAL_RUN_STATUSES = [''succeeded'', ''failed'', ''timed_out'', ''budget_exceeded'', ''blocked'',
     ''cancelled'', ''review_submitted'']"

definition ACTIVE_RUN_STATUSES :: "string list" where
  "ACTIVE_RUN_STATUSES = [''in_progress'']"

definition UNRESOLVED_RUN_STATUSES :: "string list" where
  "UNRESOLVED_RUN_STATUSES = [''conflict'', ''unknown'']"

datatype freshness = Fresh | Stale | Stranded_running | Terminal | Unavailable | Indeterminate

record freshness_answer =
  fr_status :: freshness
  fr_age_seconds :: int
  fr_complete :: bool

definition DEFAULT_RUNNING_STALE_SECONDS :: int where
  "DEFAULT_RUNNING_STALE_SECONDS = 30"

definition DEFAULT_RUNNING_STRANDED_SECONDS :: int where
  "DEFAULT_RUNNING_STRANDED_SECONDS = 900"

text \<open>\<open>max(0, int(a - b))\<close> for two finite floats.\<close>

definition age_between :: "rat \<Rightarrow> rat \<Rightarrow> int" where
  "age_between a b = (let x = rnd (a - b) in if x < 0 then 0 else \<lfloor>x\<rfloor>)"

fun max_list :: "rat list \<Rightarrow> rat" where
  "max_list [] = 0"
| "max_list [x] = x"
| "max_list (x # y # xs) = max_list ((if x < y then y else x) # xs)"

definition signal :: "runlib \<Rightarrow> run_summary \<Rightarrow> rat option" where
  "signal L s = (case epoch L (sm_heartbeat_at s) of
     Some e \<Rightarrow> Some e | None \<Rightarrow> epoch L (sm_started_at s))"

definition unresolved :: "run_summary \<Rightarrow> bool" where
  "unresolved s \<longleftrightarrow> sm_status s \<in> set UNRESOLVED_RUN_STATUSES \<or> sm_conflict s \<noteq> None"

definition compute_run_freshness ::
    "runlib \<Rightarrow> run_summary list \<Rightarrow> string \<Rightarrow> int \<Rightarrow> int \<Rightarrow> freshness_answer" where
  "compute_run_freshness L items now_iso stale_s stranded_s =
     (case epoch L (Some now_iso) of
        None \<Rightarrow> \<lparr>fr_status = Unavailable, fr_age_seconds = 0, fr_complete = False\<rparr>
      | Some now \<Rightarrow>
          if items = [] then \<lparr>fr_status = Fresh, fr_age_seconds = 0, fr_complete = True\<rparr>
          else if list_ex unresolved items
            then \<lparr>fr_status = Indeterminate, fr_age_seconds = 0, fr_complete = False\<rparr>
          else
            (let active = filter (\<lambda>s. sm_status s \<in> set ACTIVE_RUN_STATUSES) items in
             if active \<noteq> [] then
               (let signals = List.map_filter (signal L) active in
                if signals = []
                  then \<lparr>fr_status = Stranded_running, fr_age_seconds = 0, fr_complete = False\<rparr>
                else
                  (let age = age_between now (max_list signals) in
                   \<lparr>fr_status = (if age \<le> stale_s then Fresh
                       else if age \<le> stranded_s then Stale else Stranded_running),
                    fr_age_seconds = age, fr_complete = False\<rparr>))
             else
               (let finishes = List.map_filter (\<lambda>s. epoch L (sm_finished_at s)) items in
                \<lparr>fr_status = Terminal,
                 fr_age_seconds = (if finishes \<noteq> [] then age_between now (max_list finishes) else 0),
                 fr_complete = True\<rparr>)))"

section \<open>The records of one Run\<close>

text \<open>Everything either store says about the Run \<open>r\<close> of an issue, in the order it is merged.\<close>

definition records_of :: "runlib \<Rightarrow> string \<Rightarrow> dict \<Rightarrow> json list \<Rightarrow> string \<Rightarrow> run_summary list" where
  "records_of L issue_ref dispatcher_runs session_runs r =
     (case dispatcher_pass L issue_ref (map snd dispatcher_runs) [] of
        Inl _ \<Rightarrow> []
      | Inr m \<Rightarrow> (case map_of m r of None \<Rightarrow> [] | Some s \<Rightarrow> [s])) @
     filter (\<lambda>s. sm_run_id s = r) (List.map_filter (session_reading L issue_ref) session_runs)"

primrec merge_all :: "runlib \<Rightarrow> run_summary option \<Rightarrow> run_summary list \<Rightarrow> run_summary option" where
  "merge_all L acc [] = acc"
| "merge_all L acc (b # bs) =
     merge_all L (Some (case acc of None \<Rightarrow> b | Some a \<Rightarrow> merge_pair L a b)) bs"

text \<open>\<open>a\<close> and \<open>b\<close> tell one story: the same status, or a success that was then submitted for review.\<close>

definition covers :: "run_summary \<Rightarrow> run_summary \<Rightarrow> bool" where
  "covers c b \<longleftrightarrow> sm_status b = sm_status c \<or>
     (sm_status b = ''succeeded'' \<and> sm_status c = ''review_submitted'')"

definition known_summary :: "string \<Rightarrow> run_summary \<Rightarrow> bool" where
  "known_summary issue_ref s \<longleftrightarrow> sm_issue_ref s = issue_ref \<and> sm_status s \<in> set KNOWN_STATUSES"

definition merged_ok :: "string \<Rightarrow> merged \<Rightarrow> bool" where
  "merged_ok issue_ref m \<longleftrightarrow> distinct (map fst m) \<and>
     (\<forall>(k, s) \<in> set m. k = sm_run_id s \<and> known_summary issue_ref s)"

lemma merge_pair_id [simp]: "sm_run_id (merge_pair L a b) = sm_run_id a"
    "sm_issue_ref (merge_pair L a b) = sm_issue_ref a"
  by (simp_all add: merge_pair_def Let_def conflict_tail_def merged_tail_def)

lemma lifecycle_cases:
  "lifecycle_successor s t = Some u \<longleftrightarrow>
     u = ''review_submitted'' \<and> (s = ''succeeded'' \<and> t = u \<or> t = ''succeeded'' \<and> s = u)"
  by (auto simp: lifecycle_successor_def LIFECYCLE_SUCCESSORS_def)

lemma merge_pair_status:
  "sm_status (merge_pair L a b) = CONFLICT_STATUS \<or>
   covers (merge_pair L a b) a \<and> covers (merge_pair L a b) b"
  using lifecycle_cases [of "sm_status a" "sm_status b"]
  by (cases "lifecycle_successor (sm_status a) (sm_status b)")
    (auto simp: merge_pair_def Let_def conflict_tail_def merged_tail_def covers_def agree_status_def)

lemma merge_pair_known:
  "sm_status a \<in> set KNOWN_STATUSES \<Longrightarrow> sm_status b \<in> set KNOWN_STATUSES \<Longrightarrow>
   sm_status (merge_pair L a b) \<in> set KNOWN_STATUSES"
  using merge_pair_status [of L a b]
  by (auto simp: covers_def CONFLICT_STATUS_def KNOWN_STATUSES_def)

lemma merge_pair_conflict_stays: "sm_status a = CONFLICT_STATUS \<Longrightarrow> sm_status (merge_pair L a b) = CONFLICT_STATUS"
  using merge_pair_status [of L a b] by (auto simp: covers_def CONFLICT_STATUS_def)

lemma merge_pair_same:
  assumes "sm_status (merge_pair L a b) \<noteq> CONFLICT_STATUS" "sm_status b = sm_status a"
  shows "sm_status (merge_pair L a b) = sm_status a"
    and "sm_finished_at a = Some t \<or> sm_finished_at b = Some t \<Longrightarrow> sm_finished_at (merge_pair L a b) = Some t"
  using assms by (auto simp: merge_pair_def lifecycle_successor_def LIFECYCLE_SUCCESSORS_def Let_def conflict_tail_def merged_tail_def
      keep_def agree_status_def split: if_splits)

lemma merge_pair_finish_named:
  "sm_finished_at (merge_pair L a b) \<in> {sm_finished_at a, sm_finished_at b}"
  by (auto simp: merge_pair_def Let_def conflict_tail_def merged_tail_def keep_def split: option.split)

lemma covers_trans: "covers c b \<Longrightarrow> covers b a \<Longrightarrow> covers c a"
  by (auto simp: covers_def)

lemma covers_refl [simp]: "covers a a"
  by (simp add: covers_def)

lemma merge_all_Some: "merge_all L (Some a) bs \<noteq> None"
  by (induction bs arbitrary: a) simp_all

lemma merge_all_covers:
  "merge_all L (Some a) bs = Some c \<Longrightarrow> sm_status c \<noteq> CONFLICT_STATUS \<Longrightarrow>
   covers c a \<and> (\<forall>b\<in>set bs. covers c b)"
proof (induction bs arbitrary: a)
  case (Cons b bs)
  then have c: "covers c (merge_pair L a b)" and rest: "\<forall>b\<in>set bs. covers c b" by auto
  then have "sm_status (merge_pair L a b) \<noteq> CONFLICT_STATUS"
    using Cons.prems(2) by (auto simp: covers_def CONFLICT_STATUS_def)
  with c rest show ?case using merge_pair_status [of L a b] covers_trans by auto
qed simp

lemma merge_all_finished:
  "merge_all L (Some a) bs = Some c \<Longrightarrow> sm_status c \<noteq> CONFLICT_STATUS \<Longrightarrow>
   \<forall>b\<in>set (a # bs). sm_status b = sm_status c \<Longrightarrow> b \<in> set (a # bs) \<Longrightarrow> sm_finished_at b = Some t \<Longrightarrow>
   sm_finished_at c = Some t"
proof (induction bs arbitrary: a b)
  case Nil
  have "c = a" "b = a" using Nil(1,4) by simp_all
  then show ?case using Nil(5) by simp
next
  case (Cons d bs)
  let ?m = "merge_pair L a d"
  have "covers c ?m" using merge_all_covers [of L ?m bs c] Cons.prems by simp
  then have "sm_status ?m \<noteq> CONFLICT_STATUS" using Cons.prems(2) by (auto simp: covers_def CONFLICT_STATUS_def)
  note m = merge_pair_same [OF this]
  have same: "sm_status d = sm_status a" "sm_status a = sm_status c" using Cons.prems(3) by auto
  consider "b = a \<or> b = d" | "b \<in> set bs" using Cons.prems(4) by auto
  then show ?case
  proof cases
    case 1
    then have "sm_finished_at ?m = Some t" using m(2) [OF same(1)] Cons.prems(5) by blast
    then show ?thesis using Cons.IH [of ?m ?m] Cons.prems(1-3) m(1) [OF same(1)] same by simp
  next
    case 2
    then show ?thesis using Cons.IH [of ?m b] Cons.prems m(1) [OF same(1)] same by simp
  qed
qed

lemma merge_all_finish_named:
  "merge_all L (Some a) bs = Some c \<Longrightarrow> \<exists>b\<in>set (a # bs). sm_finished_at c = sm_finished_at b"
proof (induction bs arbitrary: a)
  case (Cons d bs)
  then show ?case using Cons.IH [of "merge_pair L a d"] merge_pair_finish_named [of L a d] by auto
qed simp

section \<open>What the two passes build\<close>

lemma unknown_known [simp]: "''unknown'' \<in> set KNOWN_STATUSES"
  by (simp add: KNOWN_STATUSES_def)

lemma session_reading_known: "session_reading L issue_ref raw = Some s \<Longrightarrow> known_summary issue_ref s"
  by (cases raw) (auto simp: session_reading_def known_summary_def Let_def split: if_split_asm)

lemma dispatcher_summary_known:
  assumes "summary_from_dispatcher L run issue_ref = Inr (Some s)"
  shows "known_summary issue_ref s"
proof (cases run)
  case (JObj d)
  with assms show ?thesis
    by (auto simp: summary_from_dispatcher_def known_summary_def Let_def result_simps
        simp del: pick.simps split: if_split_asm)
qed (use assms in \<open>simp_all add: summary_from_dispatcher_def\<close>)

lemma merged_ok_update:
  assumes "merged_ok issue_ref m" "known_summary issue_ref s"
  shows "merged_ok issue_ref (AList.update (sm_run_id s) s m)"
proof -
  have "set (AList.update k v m) \<subseteq> insert (k, v) (set m)" for k v
    by (induction m) auto
  then show ?thesis using assms by (fastforce simp: merged_ok_def distinct_update)
qed

lemma dispatcher_pass_ok:
  "dispatcher_pass L issue_ref runs m = Inr m' \<Longrightarrow> merged_ok issue_ref m \<Longrightarrow> merged_ok issue_ref m'"
  by (induction runs arbitrary: m)
    (auto simp: bindE_Inr split: option.splits dest: dispatcher_summary_known intro: merged_ok_update)

lemma session_pass_ok:
  assumes "merged_ok issue_ref m"
  shows "merged_ok issue_ref (session_pass L issue_ref m raw)"
proof (cases "session_reading L issue_ref raw")
  case (Some s)
  note known = session_reading_known [OF Some]
  show ?thesis
  proof (cases "map_of m (sm_run_id s)")
    case None
    then show ?thesis using Some merged_ok_update [OF assms known] by (simp add: session_pass_def)
  next
    case (Some a)
    then have a: "sm_run_id a = sm_run_id s" "known_summary issue_ref a"
      using assms by (auto simp: merged_ok_def dest: map_of_SomeD)
    then have "known_summary issue_ref (merge_pair L a s)"
      using known merge_pair_known [of a s L] by (auto simp: known_summary_def)
    from merged_ok_update [OF assms this] a Some show ?thesis
      using \<open>session_reading L issue_ref raw = _\<close> by (simp add: session_pass_def)
  qed
qed (use assms in \<open>simp add: session_pass_def\<close>)

lemma session_fold_ok: "merged_ok issue_ref m \<Longrightarrow> merged_ok issue_ref (foldl (session_pass L issue_ref) m raws)"
  by (induction raws arbitrary: m) (simp_all add: session_pass_ok)

lemma session_pass_entry:
  "map_of (session_pass L issue_ref m raw) r =
   merge_all L (map_of m r) (filter (\<lambda>s. sm_run_id s = r) (List.map_filter (session_reading L issue_ref) [raw]))"
  by (cases "session_reading L issue_ref raw")
    (auto simp: session_pass_def map_filter_simps update_conv' split: option.splits)

lemma merge_all_append: "merge_all L acc (bs @ cs) = merge_all L (merge_all L acc bs) cs"
  by (induction bs arbitrary: acc) simp_all

lemma session_fold_entry:
  "map_of (foldl (session_pass L issue_ref) m raws) r =
   merge_all L (map_of m r) (filter (\<lambda>s. sm_run_id s = r) (List.map_filter (session_reading L issue_ref) raws))"
proof (induction raws arbitrary: m)
  case (Cons raw raws)
  show ?case
    unfolding foldl.simps Cons.IH session_pass_entry merge_all_append [symmetric]
    by (simp add: map_filter_simps split: option.splits)
qed (simp add: map_filter_simps)

lemma sorted_desc_set [simp]: "set (sorted_desc key xs) = set xs" "mset (sorted_desc key xs) = mset xs"
  by (simp_all add: sorted_desc_def)

lemma sorted_desc_sorted: "sorted (List.rev (map key (sorted_desc key xs)))"
  by (simp add: sorted_desc_def rev_map)

lemma merged_ok_keys: "merged_ok issue_ref m \<Longrightarrow> map sm_run_id (map snd m) = map fst m"
  by (induction m) (auto simp: merged_ok_def)

text \<open>The output: one summary for each Run that has a record, the merge of its records.\<close>

lemma correlate_entry:
  assumes "correlate_run_summaries L issue_ref ds raws = Inr out"
  shows "c \<in> set out \<longleftrightarrow> merge_all L None (records_of L issue_ref ds raws (sm_run_id c)) = Some c"
proof -
  obtain m where m: "dispatcher_pass L issue_ref (map snd ds) [] = Inr m"
    and out: "out = sorted_desc sm_run_id (map snd (foldl (session_pass L issue_ref) m raws))"
    using assms by (auto simp: correlate_run_summaries_def bindE_Inr)
  let ?f = "foldl (session_pass L issue_ref) m raws"
  have ok: "merged_ok issue_ref m" by (rule dispatcher_pass_ok [OF m]) (simp add: merged_ok_def)
  then have "merged_ok issue_ref ?f" by (rule session_fold_ok)
  then have "c \<in> set out \<longleftrightarrow> map_of ?f (sm_run_id c) = Some c"
    by (force simp: out merged_ok_def map_of_eq_Some_iff)
  moreover have "merge_all L None (records_of L issue_ref ds raws r) = map_of ?f r" for r
    by (simp add: session_fold_entry records_of_def m split: option.splits)
  ultimately show ?thesis by simp
qed

lemma correlate_ok:
  assumes "correlate_run_summaries L issue_ref ds raws = Inr out"
  shows "distinct (map sm_run_id out)" and "sorted (List.rev (map sm_run_id out))"
    and "c \<in> set out \<Longrightarrow> known_summary issue_ref c"
proof -
  obtain m where m: "dispatcher_pass L issue_ref (map snd ds) [] = Inr m"
    and out: "out = sorted_desc sm_run_id (map snd (foldl (session_pass L issue_ref) m raws))"
    using assms by (auto simp: correlate_run_summaries_def bindE_Inr)
  have ok: "merged_ok issue_ref (foldl (session_pass L issue_ref) m raws)"
    by (rule session_fold_ok, rule dispatcher_pass_ok [OF m]) (simp add: merged_ok_def)
  have "mset (map sm_run_id out) = mset (map sm_run_id (map snd (foldl (session_pass L issue_ref) m raws)))"
    by (simp add: out multiset.map_comp)
  then show "distinct (map sm_run_id out)"
    using ok mset_eq_imp_distinct_iff unfolding merged_ok_keys [OF ok] merged_ok_def by metis
  show "sorted (List.rev (map sm_run_id out))" by (simp add: out sorted_desc_sorted)
  show "c \<in> set out \<Longrightarrow> known_summary issue_ref c" using ok by (auto simp: out merged_ok_def)
qed

lemma merge_all_id:
  "merge_all L acc bs = Some c \<Longrightarrow> (\<And>a. acc = Some a \<Longrightarrow> sm_run_id a = r) \<Longrightarrow>
   (\<forall>b\<in>set bs. sm_run_id b = r) \<Longrightarrow> sm_run_id c = r"
proof (induction bs arbitrary: acc)
  case (Cons b bs)
  have "sm_run_id (case acc of None \<Rightarrow> b | Some a \<Rightarrow> merge_pair L a b) = r"
    using Cons.prems(2,3) by (cases acc) auto
  with Cons.IH [of "Some (case acc of None \<Rightarrow> b | Some a \<Rightarrow> merge_pair L a b)"] Cons.prems(1,3)
  show ?case by simp
qed simp

lemma records_of_id: "b \<in> set (records_of L issue_ref ds raws r) \<Longrightarrow> sm_run_id b = r"
proof -
  have "sm_run_id s = r" if "dispatcher_pass L issue_ref (map snd ds) [] = Inr m" "map_of m r = Some s" for m s
    using dispatcher_pass_ok [OF that(1)] map_of_SomeD [OF that(2)] by (auto simp: merged_ok_def)
  then show "b \<in> set (records_of L issue_ref ds raws r) \<Longrightarrow> sm_run_id b = r"
    by (cases "dispatcher_pass L issue_ref (map snd ds) []") (auto simp: records_of_def split: option.splits)
qed

lemma correlate_present:
  assumes "correlate_run_summaries L issue_ref ds raws = Inr out" "b \<in> set (records_of L issue_ref ds raws r)"
  obtains c where "c \<in> set out" "sm_run_id c = r"
proof -
  obtain x xs where xs: "records_of L issue_ref ds raws r = x # xs" using assms(2) by (cases "records_of L issue_ref ds raws r") auto
  then obtain c where c: "merge_all L None (records_of L issue_ref ds raws r) = Some c"
    using merge_all_Some [of L x xs] by auto
  have "sm_run_id c = r" using merge_all_id [OF c] records_of_id by blast
  with c show thesis using correlate_entry [OF assms(1), of c] that by simp
qed

lemma correlate_covers:
  assumes "correlate_run_summaries L issue_ref ds raws = Inr out" "c \<in> set out"
    "sm_status c \<noteq> CONFLICT_STATUS" "b \<in> set (records_of L issue_ref ds raws (sm_run_id c))"
  shows "covers c b"
proof -
  have c: "merge_all L None (records_of L issue_ref ds raws (sm_run_id c)) = Some c"
    using correlate_entry [OF assms(1)] assms(2) by blast
  then obtain x xs where xs: "records_of L issue_ref ds raws (sm_run_id c) = x # xs"
    by (cases "records_of L issue_ref ds raws (sm_run_id c)") auto
  then show ?thesis using merge_all_covers [of L x xs c] c assms(3,4) by auto
qed

section \<open>Guarantees\<close>

text \<open>C37: Statuses are never merged silently, nor are the finish times of records with one status. Whatever the dispatcher
  registry and the session records hold, a Run that the correlation shows with a status other than \<open>conflict\<close> has only
  records of that status, or successes the status \<open>review_submitted\<close> succeeds. When its records all have the status shown, every
  finish time one of them names is the one shown; when a success was merged with its submission for review, one of the
  recorded finish times is shown, and the others may differ (\<open>submission_hides_finish_time\<close>).\<close>

theorem runs_never_silently_merged:
  assumes "correlate_run_summaries L issue_ref ds raws = Inr out" and "c \<in> set out"
    and "sm_status c \<noteq> CONFLICT_STATUS"
    and "b \<in> set (records_of L issue_ref ds raws (sm_run_id c))"
  shows "(sm_status b = sm_status c \<or> (sm_status b = ''succeeded'' \<and> sm_status c = ''review_submitted'')) \<and>
    ((\<forall>x\<in>set (records_of L issue_ref ds raws (sm_run_id c)). sm_status x = sm_status c) \<longrightarrow>
       sm_finished_at b \<noteq> None \<longrightarrow> sm_finished_at c = sm_finished_at b) \<and>
    (\<exists>x\<in>set (records_of L issue_ref ds raws (sm_run_id c)). sm_finished_at c = sm_finished_at x)"
proof (intro conjI impI)
  show "sm_status b = sm_status c \<or> (sm_status b = ''succeeded'' \<and> sm_status c = ''review_submitted'')"
    using correlate_covers [OF assms] by (simp add: covers_def)
  have c: "merge_all L None (records_of L issue_ref ds raws (sm_run_id c)) = Some c"
    using correlate_entry [OF assms(1)] assms(2) by blast
  then obtain x xs where xs: "records_of L issue_ref ds raws (sm_run_id c) = x # xs"
    by (cases "records_of L issue_ref ds raws (sm_run_id c)") auto
  show "sm_finished_at c = sm_finished_at b"
    if "\<forall>x\<in>set (records_of L issue_ref ds raws (sm_run_id c)). sm_status x = sm_status c" "sm_finished_at b \<noteq> None"
    using merge_all_finished [of L x xs c b] c xs assms(3,4) that by auto
  show "\<exists>x\<in>set (records_of L issue_ref ds raws (sm_run_id c)). sm_finished_at c = sm_finished_at x"
    using merge_all_finish_named [of L x xs c] c xs by simp
qed

text \<open>A success and its submission for review are merged whatever their finish times: the time of the first is shown, without
  a conflict, although the module promises one whenever the terminal time stamps disagree.\<close>

theorem submission_hides_finish_time:
  assumes "sm_status a = ''succeeded''" "sm_status b = ''review_submitted''" "sm_finished_at a = Some t" "sm_finished_at b = Some u"
  shows "sm_status (merge_pair L a b) = ''review_submitted'' \<and> sm_finished_at (merge_pair L a b) = Some t \<and>
    sm_conflict (merge_pair L a b) = None"
  using assms by (simp add: merge_pair_def lifecycle_successor_def LIFECYCLE_SUCCESSORS_def Let_def merged_tail_def keep_def)

text \<open>C38: The correlation is a well-formed list: one summary for every Run that either store has a
  record of and no other, the Run ids strictly descending, every summary of the issue asked for
  and with a status of the known ones.\<close>

theorem correlated_runs_well_formed:
  assumes "correlate_run_summaries L issue_ref ds raws = Inr out"
  shows "sorted (List.rev (map sm_run_id out)) \<and> distinct (map sm_run_id out) \<and>
    set (map sm_run_id out) = {r. records_of L issue_ref ds raws r \<noteq> []} \<and>
    (\<forall>c\<in>set out. sm_issue_ref c = issue_ref \<and> sm_status c \<in> set KNOWN_STATUSES)"
proof -
  have "records_of L issue_ref ds raws (sm_run_id c) \<noteq> []" if "c \<in> set out" for c
    using correlate_entry [OF assms, of c] that by auto
  moreover have "r \<in> set (map sm_run_id out)" if "records_of L issue_ref ds raws r \<noteq> []" for r
    using correlate_present [OF assms, of "hd (records_of L issue_ref ds raws r)" r] that
    by (metis hd_in_set in_set_conv_nth list.set_map imageI)
  ultimately show ?thesis
    using correlate_ok [OF assms] by (auto simp: known_summary_def)
qed

text \<open>A disagreement of the stores never becomes a claim about liveness. When two records of one
  Run have statuses that are neither equal nor a success and its submission for review, the
  freshness of the issue's correlated Runs is \<open>Indeterminate\<close>, whatever the time and the bounds
  (\<open>Unavailable\<close> only when the time itself cannot be read), so nothing is derived from it.\<close>

theorem disagreement_is_indeterminate:
  assumes "correlate_run_summaries L issue_ref ds raws = Inr out"
    and "a \<in> set (records_of L issue_ref ds raws r)" and "b \<in> set (records_of L issue_ref ds raws r)"
    and "sm_status a \<noteq> sm_status b"
    and "{sm_status a, sm_status b} \<noteq> {''succeeded'', ''review_submitted''}"
  shows "compute_run_freshness L out now stale_s stranded_s =
    \<lparr>fr_status = (if epoch L (Some now) = None then Unavailable else Indeterminate),
     fr_age_seconds = 0, fr_complete = False\<rparr>"
proof -
  obtain c where c: "c \<in> set out" "sm_run_id c = r" using correlate_present [OF assms(1,2)] .
  have "sm_status c = CONFLICT_STATUS"
  proof (rule ccontr)
    assume "sm_status c \<noteq> CONFLICT_STATUS"
    then have "covers c a" "covers c b" using correlate_covers [OF assms(1) c(1)] assms(2,3) c(2) by auto
    with assms(4,5) show False by (auto simp: covers_def)
  qed
  with c have "list_ex unresolved out"
    by (auto simp: list_ex_iff unresolved_def UNRESOLVED_RUN_STATUSES_def CONFLICT_STATUS_def)
  with c(1) show ?thesis by (auto simp: compute_run_freshness_def split: option.splits)
qed

fun staleness :: "freshness \<Rightarrow> nat" where
  "staleness Fresh = 0"
| "staleness Stale = 1"
| "staleness Stranded_running = 2"
| "staleness _ = 3"

lemma age_between_mono: "a \<le> a' \<Longrightarrow> age_between a b \<le> age_between a' b"
  using rnd_mono [of "a - b" "a' - b"] by (auto simp: age_between_def Let_def intro: floor_mono)

text \<open>Time only ages a Run. With bounds in order, the same summaries judged at a later time are
  never fresher: the verdict moves from fresh to stale to stranded and not back, and the age does
  not shrink, with the binary64 arithmetic of the code.\<close>

theorem freshness_monotone:
  assumes "epoch L (Some now) = Some t" and "epoch L (Some later) = Some t'" and "t \<le> t'"
    and "stale_s \<le> stranded_s"
  shows "staleness (fr_status (compute_run_freshness L items now stale_s stranded_s))
      \<le> staleness (fr_status (compute_run_freshness L items later stale_s stranded_s)) \<and>
    fr_age_seconds (compute_run_freshness L items now stale_s stranded_s)
      \<le> fr_age_seconds (compute_run_freshness L items later stale_s stranded_s)"
proof -
  have "age_between t m \<le> age_between t' m" for m by (rule age_between_mono [OF assms(3)])
  note mono = this [of "max_list (List.map_filter (signal L) (filter (\<lambda>s. sm_status s \<in> set ACTIVE_RUN_STATUSES) items))"]
    this [of "max_list (List.map_filter (\<lambda>s. epoch L (sm_finished_at s)) items)"]
  show ?thesis using mono assms(4) by (simp add: compute_run_freshness_def assms(1,2) Let_def)
qed

text \<open>
  The sources of a merged summary are constant. When the dispatcher has no record of a Run and
  two session records name it, the summary still names the dispatcher as a source.
\<close>

lemma merged_sources_name_both_stores:
  assumes "session_reading L issue_ref x = Some a" and "session_reading L issue_ref y = Some b"
    and "sm_run_id a = sm_run_id b"
  shows "correlate_run_summaries L issue_ref [] [x, y] = Inr [merge_pair L a b] \<and>
    sm_sources a = [STORE_SESSION] \<and> sm_sources b = [STORE_SESSION] \<and>
    sm_sources (merge_pair L a b) = [STORE_DISPATCHER, STORE_SESSION]"
proof -
  have "sm_sources s = [STORE_SESSION]" if "session_reading L issue_ref z = Some s" for z s
    using that by (auto simp: session_reading_def Let_def split: json.splits if_splits)
  moreover have "sm_sources (merge_pair L a b) = [STORE_DISPATCHER, STORE_SESSION]"
    by (simp add: merge_pair_def Let_def conflict_tail_def merged_tail_def)
  ultimately show ?thesis
    using assms by (simp add: correlate_run_summaries_def session_pass_def sorted_desc_def)
qed

section \<open>Witnesses\<close>

text \<open>
  One issue with two Runs: the stores tell one story about \<open>r1\<close> and two about \<open>r2\<close>. The library
  knows two instants, 20 seconds apart.
\<close>

definition sample_runlib :: runlib where
  "sample_runlib = \<lparr>repr_of = (\<lambda>_. ''?''),
     fromisoformat = map_of [(''t0'', Aware 1000000000), (''t1'', Aware 1020000000)],
     strptime = (\<lambda>_ _. None), fromtimestamp = (\<lambda>_. None)\<rparr>"

definition sample_registry :: dict where
  "sample_registry =
     [(''r1'', JObj [(''run_id'', JStr ''r1''), (''issue_id'', JStr ''i''), (''status'', JStr ''succeeded''),
                     (''finished_at'', JStr ''t0'')]),
      (''r2'', JObj [(''run_id'', JStr ''r2''), (''issue_id'', JStr ''i''), (''status'', JStr ''blocked'')])]"

definition sample_readings :: "json list" where
  "sample_readings =
     [JObj [(''run_id'', JStr ''r1''), (''issue_ref'', JStr ''i''), (''status'', JStr ''succeeded''),
            (''finished_at'', JStr ''t0'')],
      JObj [(''run_id'', JStr ''r2''), (''issue_ref'', JStr ''i''), (''status'', JStr ''review_submitted'')]]"

definition sample_summary :: "string \<Rightarrow> string \<Rightarrow> string option \<Rightarrow> string \<Rightarrow> run_summary" where
  "sample_summary r status finished store =
     \<lparr>sm_run_id = r, sm_issue_ref = ''i'', sm_status = status, sm_engine = None, sm_worker_role = JNull,
      sm_started_at = None, sm_finished_at = finished, sm_heartbeat_at = finished,
      sm_sources = [store], sm_conflict = None\<rparr>"

lemma sample_dispatcher:
  "dispatcher_pass sample_runlib ''i'' (map snd sample_registry) [] =
     Inr [(''r1'', sample_summary ''r1'' ''succeeded'' (Some ''t0'') STORE_DISPATCHER),
          (''r2'', sample_summary ''r2'' ''blocked'' None STORE_DISPATCHER)]"
  by (simp add: sample_registry_def sample_summary_def summary_from_dispatcher_def py_str_def or_else_def
      KNOWN_STATUSES_def has_key_def dict_keys_def timestamp_of_def iso_text_def)

lemma sample_session:
  "List.map_filter (session_reading sample_runlib ''i'') sample_readings =
     [sample_summary ''r1'' ''succeeded'' (Some ''t0'') STORE_SESSION,
      sample_summary ''r2'' ''review_submitted'' None STORE_SESSION]"
  by (simp add: sample_readings_def sample_summary_def session_reading_def py_str_def or_else_def
      KNOWN_STATUSES_def iso_text_def opt_or_def map_filter_simps)

lemma sample_records:
  "records_of sample_runlib ''i'' sample_registry sample_readings r =
     (if r = ''r1'' then [sample_summary ''r1'' ''succeeded'' (Some ''t0'') STORE_DISPATCHER,
                          sample_summary ''r1'' ''succeeded'' (Some ''t0'') STORE_SESSION]
      else if r = ''r2'' then [sample_summary ''r2'' ''blocked'' None STORE_DISPATCHER,
                               sample_summary ''r2'' ''review_submitted'' None STORE_SESSION]
      else [])"
  by (auto simp: records_of_def sample_dispatcher sample_session sample_summary_def)

lemma sample_correlated:
  obtains out where "correlate_run_summaries sample_runlib ''i'' sample_registry sample_readings = Inr out"
  by (simp add: correlate_run_summaries_def sample_dispatcher)

lemma sample_merged:
  assumes "correlate_run_summaries sample_runlib ''i'' sample_registry sample_readings = Inr out"
  obtains c where "c \<in> set out" "sm_run_id c = ''r1''" "sm_status c = ''succeeded''"
proof -
  let ?a = "sample_summary ''r1'' ''succeeded'' (Some ''t0'')"
  let ?c = "merge_pair sample_runlib (?a STORE_DISPATCHER) (?a STORE_SESSION)"
  have "sm_run_id ?c = ''r1''" by (simp add: sample_summary_def)
  moreover have "sm_status ?c = ''succeeded''"
    by (simp add: merge_pair_def sample_summary_def lifecycle_successor_def LIFECYCLE_SUCCESSORS_def
        agree_status_def merged_tail_def)
  moreover have "?c \<in> set out"
    using correlate_entry [OF assms, of ?c] \<open>sm_run_id ?c = _\<close> by (simp add: sample_records)
  ultimately show thesis using that by blast
qed

theorem runs_never_silently_merged_witness:
  "\<exists>out. correlate_run_summaries sample_runlib ''i'' sample_registry sample_readings = Inr out \<and>
     (\<exists>c\<in>set out. sm_run_id c = ''r1'' \<and> sm_finished_at c = Some ''t0'')"
proof -
  obtain out where out: "correlate_run_summaries sample_runlib ''i'' sample_registry sample_readings = Inr out"
    by (rule sample_correlated)
  obtain c where c: "c \<in> set out" "sm_run_id c = ''r1''" "sm_status c = ''succeeded''"
    by (rule sample_merged [OF out])
  have "sm_finished_at c = Some ''t0''"
    using runs_never_silently_merged [OF out c(1), of "sample_summary ''r1'' ''succeeded'' (Some ''t0'') STORE_SESSION"] c
    by (simp add: sample_records sample_summary_def CONFLICT_STATUS_def)
  with out c show ?thesis by blast
qed

theorem correlated_runs_well_formed_witness:
  "\<exists>out. correlate_run_summaries sample_runlib ''i'' sample_registry sample_readings = Inr out \<and>
     set (map sm_run_id out) = {''r1'', ''r2''}"
proof -
  obtain out where out: "correlate_run_summaries sample_runlib ''i'' sample_registry sample_readings = Inr out"
    by (rule sample_correlated)
  then show ?thesis using correlated_runs_well_formed [OF out] by (auto simp: sample_records split: if_splits)
qed

lemma sample_epochs:
  "epoch sample_runlib (Some ''t0'') = Some 1000" "epoch sample_runlib (Some ''t1'') = Some 1020"
  by (simp_all add: epoch_def sample_runlib_def strip_def is_space_def endswith_def startswith_def
      stamp_seconds_def)

theorem disagreement_is_indeterminate_witness:
  "\<exists>out. correlate_run_summaries sample_runlib ''i'' sample_registry sample_readings = Inr out \<and>
     fr_status (compute_run_freshness sample_runlib out ''t1'' DEFAULT_RUNNING_STALE_SECONDS
       DEFAULT_RUNNING_STRANDED_SECONDS) = Indeterminate"
proof -
  obtain out where out: "correlate_run_summaries sample_runlib ''i'' sample_registry sample_readings = Inr out"
    by (rule sample_correlated)
  show ?thesis
    using out disagreement_is_indeterminate [OF out,
        of "sample_summary ''r2'' ''blocked'' None STORE_DISPATCHER" "''r2''"
           "sample_summary ''r2'' ''review_submitted'' None STORE_SESSION"]
    by (simp add: sample_records sample_summary_def doubleton_eq_iff sample_epochs)
qed

theorem freshness_monotone_witness:
  "staleness (fr_status (compute_run_freshness sample_runlib
       [sample_summary ''r1'' ''in_progress'' (Some ''t0'') STORE_SESSION] ''t0'' 30 900)) \<le>
   staleness (fr_status (compute_run_freshness sample_runlib
       [sample_summary ''r1'' ''in_progress'' (Some ''t0'') STORE_SESSION] ''t1'' 30 900))"
  using freshness_monotone [OF sample_epochs, of 30 900] by simp

end
