(* ===== verification/Py_Text.thy ===== *)
theory Py_Text
  imports Canonical "HOL-Library.Sublist"
begin

text \<open>
  Splitting Python strings: \<open>s.split(c)\<close> for one character, \<open>s.splitlines(keepends=True)\<close>,
  \<open>s.rstrip("\\r\\n")\<close>, \<open>s.replace\<close> of one character, and what relates them to
  \<open>c.join(..)\<close>.
\<close>

fun split_on :: "char \<Rightarrow> string \<Rightarrow> string list" where
  "split_on c [] = [[]]"
| "split_on c (x # s) = (if x = c then [] # split_on c s
     else (case split_on c s of [] \<Rightarrow> [[x]] | w # ws \<Rightarrow> (x # w) # ws))"

definition replace_char :: "char \<Rightarrow> char \<Rightarrow> string \<Rightarrow> string" where
  "replace_char a b s = map (\<lambda>c. if c = a then b else c) s"

text \<open>The characters below 256 that end a line for \<open>str.splitlines\<close>.\<close>

definition line_break :: "char \<Rightarrow> bool" where
  "line_break c \<longleftrightarrow> (let n = of_char c :: nat in n \<in> {10, 11, 12, 13, 28, 29, 30, 133})"

text \<open>The lines of a text, each with its break; a carriage return takes a line feed after it along.\<close>

fun lines_from :: "string \<Rightarrow> string \<Rightarrow> string list" where
  "lines_from cur [] = (if cur = [] then [] else [cur])"
| "lines_from cur (c # s) =
     (if c = CHR 0x0D \<and> startswith s [CHR 0x0A]
        then (cur @ [c, CHR 0x0A]) # lines_from [] (tl s)
      else if line_break c then (cur @ [c]) # lines_from [] s
      else lines_from (cur @ [c]) s)"

definition splitlines :: "string \<Rightarrow> string list" where
  "splitlines s = lines_from [] s"

definition rstrip_newlines :: "string \<Rightarrow> string" where
  "rstrip_newlines s = List.rev (dropWhile (\<lambda>c. c = CHR 0x0D \<or> c = CHR 0x0A) (List.rev s))"

section \<open>Split and join\<close>

lemma split_on_not_Nil [simp]: "split_on c s \<noteq> []"
  by (induction s) (auto split: list.splits)

lemma split_on_plain: "c \<notin> set s \<Longrightarrow> split_on c s = [s]"
  by (induction s) auto

lemma split_on_append: "split_on c (x @ c # y) = split_on c x @ split_on c y"
  by (induction x) (auto split: list.splits)

lemma split_on_parts: "w \<in> set (split_on c s) \<Longrightarrow> c \<notin> set w"
proof (induction s arbitrary: w)
  case (Cons x s)
  then show ?case by (cases "split_on c s") (auto split: if_splits)
qed simp

lemma join_Cons: "ws \<noteq> [] \<Longrightarrow> join sep (w # ws) = w @ sep @ join sep ws"
  by (cases ws) simp_all

lemma join_split_on [simp]: "join [c] (split_on c s) = s"
proof (induction s)
  case (Cons x s)
  obtain w ws where ws: "split_on c s = w # ws" by (cases "split_on c s") auto
  with Cons show ?case by (cases ws) (auto simp: join_Cons)
qed simp

lemma split_on_join: "ws \<noteq> [] \<Longrightarrow> \<forall>w\<in>set ws. c \<notin> set w \<Longrightarrow> split_on c (join [c] ws) = ws"
proof (induction ws)
  case (Cons w ws)
  then show ?case by (cases ws) (auto simp: split_on_plain split_on_append)
qed simp

text \<open>A joined path starts with another and a separator exactly when its segments do.\<close>

lemma join_startswith:
  assumes "us \<noteq> []" "ws \<noteq> []" "\<forall>w\<in>set us \<union> set ws. c \<notin> set w"
  shows "join [c] ws = join [c] us \<or> startswith (join [c] ws) (join [c] us @ [c]) \<longleftrightarrow> prefix us ws"
proof
  assume "join [c] ws = join [c] us \<or> startswith (join [c] ws) (join [c] us @ [c])"
  then consider "join [c] ws = join [c] us" | t where "join [c] ws = join [c] us @ c # t"
    by (auto simp: startswith_iff)
  then show "prefix us ws"
  proof cases
    case 1
    then have "split_on c (join [c] ws) = split_on c (join [c] us)" by simp
    with assms show ?thesis by (simp add: split_on_join)
  next
    case (2 t)
    then have "split_on c (join [c] ws) = split_on c (join [c] us) @ split_on c t"
      by (simp add: split_on_append)
    with assms show ?thesis by (simp add: split_on_join prefix_def)
  qed
next
  assume "prefix us ws"
  then obtain vs where ws: "ws = us @ vs" by (auto simp: prefix_def)
  have "join [c] (us @ vs) = join [c] us @ c # join [c] vs" if "vs \<noteq> []"
    using that assms(1)
  proof (induction us)
    case (Cons u us)
    then show ?case by (cases us) (auto simp: join_Cons)
  qed simp
  then show "join [c] ws = join [c] us \<or> startswith (join [c] ws) (join [c] us @ [c])"
    by (cases "vs = []") (auto simp: ws startswith_iff)
qed

section \<open>Lines\<close>

lemma concat_lines_from: "concat (lines_from cur s) = cur @ s"
  by (induction cur s rule: lines_from.induct) (auto simp: startswith_iff)

lemma concat_splitlines [simp]: "concat (splitlines s) = s"
  by (simp add: splitlines_def concat_lines_from)

lemma lines_from_line:
  assumes "list_all (\<lambda>c. \<not> line_break c) x" "line_break b" "b \<noteq> CHR 0x0D"
  shows "lines_from cur (x @ b # s) = (cur @ x @ [b]) # lines_from [] s"
  using assms
proof (induction x arbitrary: cur)
  case (Cons c x)
  then have "c \<noteq> CHR 0x0D" by (auto simp: line_break_def)
  with Cons show ?case by simp
qed simp

lemma splitlines_line:
  assumes "list_all (\<lambda>c. \<not> line_break c) x" "line_break b" "b \<noteq> CHR 0x0D"
  shows "splitlines (x @ b # s) = (x @ [b]) # splitlines s"
  using lines_from_line [OF assms, of "[]"] by (simp add: splitlines_def)

lemma strip_id: "list_all (\<lambda>c. \<not> is_space c) s \<Longrightarrow> strip s = s"
proof -
  have "list_all (\<lambda>c. \<not> is_space c) t \<Longrightarrow> dropWhile is_space t = t" for t
    by (cases t) auto
  note this [of s] this [of "List.rev s"]
  then show "list_all (\<lambda>c. \<not> is_space c) s \<Longrightarrow> strip s = s" by (simp add: strip_def)
qed

end
