(* ===== verification/Run_Diff.thy ===== *)
theory Run_Diff
  imports Run_Summaries Py_Text
begin

text \<open>
  The change a Run contributed, as the operator reviews it: \<open>run_diff_projection\<close> of
  \<open>widget_contract/run_authority.py\<close> with its parser of a \<open>git diff\<close>, and the path rules of
  \<open>scripts/commit_evidence.py\<close>. The git runner is a parameter: for a worktree and an argument
  list it gives the exit code and the text git printed. \<open>Inl\<close> is the \<open>TypeError\<close> of a loop over
  a record field that cannot be iterated; \<open>Inr None\<close> is the answer \<open>None\<close> for an unknown Run.
\<close>

section \<open>Path rules\<close>

fun clean_segments :: "string list \<Rightarrow> string list option" where
  "clean_segments [] = Some []"
| "clean_segments (s # ss) =
     (if s = [] \<or> s = ''.'' then clean_segments ss
      else if s = ''..'' then None
      else map_option (Cons s) (clean_segments ss))"

definition drive_lettered :: "string \<Rightarrow> bool" where
  "drive_lettered s \<longleftrightarrow> (case s of a # b # _ \<Rightarrow> (is_lower a \<or> is_upper a) \<and> b = CHR '':'' | _ \<Rightarrow> False)"

definition normalize_repo_path :: "string \<Rightarrow> string option" where
  "normalize_repo_path path =
     (if blank path then None
      else
        (let candidate = replace_char (CHR 0x5C) (CHR ''/'') (strip path) in
         if startswith candidate ''/'' \<or> drive_lettered candidate then None
         else (case clean_segments (split_on (CHR ''/'') candidate) of
             None \<Rightarrow> None
           | Some segments \<Rightarrow>
               (if join ''/'' segments = [] then None else Some (join ''/'' segments)))))"

definition path_within :: "string \<Rightarrow> string list \<Rightarrow> bool" where
  "path_within path permitted = (case normalize_repo_path path of
     None \<Rightarrow> False
   | Some normalized \<Rightarrow> list_ex (\<lambda>allowed. case normalize_repo_path allowed of
         None \<Rightarrow> False
       | Some allowed_norm \<Rightarrow>
           normalized = allowed_norm \<or> startswith normalized (allowed_norm @ ''/'')) permitted)"

section \<open>Safe identifiers\<close>

text \<open>\<open>_safe_reference\<close> refuses what looks like a path of the file system; \<open>_safe_sha\<close> keeps git
  object names.\<close>

definition slash_root :: "string \<Rightarrow> bool" where
  "slash_root s \<longleftrightarrow> startswith s ''/'' \<or> startswith s ''./'' \<or> startswith s ''../''"

definition drive_path :: "string \<Rightarrow> bool" where
  "drive_path s \<longleftrightarrow> 3 \<le> length s \<and>
     (take 2 (drop 1 s) = '':/'' \<or> take 2 (drop 1 s) = [CHR '':'', CHR 0x5C])"

definition safe_reference :: "json \<Rightarrow> string option" where
  "safe_reference value = (case value of
     JStr s \<Rightarrow>
       if s = [] then None
       else if CHR 0x5C \<in> set s \<or> slash_root s \<or> contains s ''/../'' then None
       else if drive_path s then None
       else Some s
   | _ \<Rightarrow> None)"

definition is_hex_any :: "char \<Rightarrow> bool" where
  "is_hex_any c \<longleftrightarrow> is_hex c \<or> (let n = of_char c :: nat in 65 \<le> n \<and> n \<le> 70)"

definition safe_sha :: "json \<Rightarrow> string option" where
  "safe_sha value = (case value of
     JStr s \<Rightarrow>
       (let text = strip s in
        if 7 \<le> length text \<and> length text \<le> 64 \<and> list_all is_hex_any text then Some text else None)
   | _ \<Rightarrow> None)"

section \<open>Splitting a diff\<close>

text \<open>One line of the loop of \<open>_split_diff\<close>: the chunks so far, the current path, its lines.\<close>

definition split_line ::
    "string list \<Rightarrow> (string \<times> string) list \<times> string option \<times> string list \<Rightarrow> string
     \<Rightarrow> (string \<times> string) list \<times> string option \<times> string list" where
  "split_line wanted state line = (case state of (chunks, current, lines) \<Rightarrow>
     (let (chunks', current', lines') =
        (if startswith line ''diff --git ''
         then
           ((case current of None \<Rightarrow> chunks | Some p \<Rightarrow> AList.update p (concat lines) chunks),
            List.find (\<lambda>path. endswith (rstrip_newlines line) ('' b/'' @ path)) wanted,
            [])
         else (chunks, current, lines)) in
      (chunks', current', if current' \<noteq> None then lines' @ [line] else lines')))"

definition split_diff :: "string \<Rightarrow> string list \<Rightarrow> (string \<times> string) list" where
  "split_diff output permitted =
     (case foldl (split_line permitted) ([], None, []) (splitlines output) of
        (chunks, current, lines) \<Rightarrow>
          (case current of None \<Rightarrow> chunks | Some p \<Rightarrow> AList.update p (concat lines) chunks))"

section \<open>The projection\<close>

record diff_file =
  df_path :: string
  df_withheld :: bool
  df_reason :: "string option"
  df_patch :: "string option"
  df_truncated :: bool

record diff_answer =
  da_available :: bool
  da_reason :: "string option"
  da_base_commit :: "string option"
  da_commit :: "string option"
  da_branch :: "string option"
  da_contributed_commits :: "string list"
  da_files :: "diff_file list"

datatype diff_error = Not_iterable json

definition DIFF_FILE_MAX_CHARS :: int where
  "DIFF_FILE_MAX_CHARS = 60000"

definition DIFF_TOTAL_MAX_CHARS :: int where
  "DIFF_TOTAL_MAX_CHARS = 400000"

definition diff_unavailable :: "string \<Rightarrow> diff_answer" where
  "diff_unavailable reason = \<lparr>da_available = False, da_reason = Some reason, da_base_commit = None,
     da_commit = None, da_branch = None, da_contributed_commits = [], da_files = []\<rparr>"

definition withheld :: "string \<Rightarrow> string \<Rightarrow> diff_file" where
  "withheld path reason = \<lparr>df_path = path, df_withheld = True, df_reason = Some reason,
     df_patch = None, df_truncated = False\<rparr>"

text \<open>\<open>for item in (v or ())\<close>: a text gives its characters, a mapping its keys.\<close>

definition iterate :: "json \<Rightarrow> diff_error + json list" where
  "iterate v = (if \<not> truthy v then Inr [] else case v of
     JList xs \<Rightarrow> Inr xs
   | JStr s \<Rightarrow> Inr (map (\<lambda>c. JStr [c]) s)
   | JObj d \<Rightarrow> Inr (map (\<lambda>kv. JStr (fst kv)) d)
   | _ \<Rightarrow> Inl (Not_iterable v))"

definition dispatcher_run :: "runlib \<Rightarrow> dict \<Rightarrow> string \<Rightarrow> string \<Rightarrow> dict option" where
  "dispatcher_run L store issue_ref run_id = (case dget store run_id of
     JObj run \<Rightarrow> if py_str L (dget run ''issue_id'') \<noteq> issue_ref then None else Some run
   | _ \<Rightarrow> None)"

text \<open>The loop over the contributed paths: what is withheld at once, and what may be shown.\<close>

fun sort_contributed :: "string list \<Rightarrow> string list \<Rightarrow> diff_file list \<Rightarrow> string list
    \<Rightarrow> diff_file list \<times> string list" where
  "sort_contributed policy [] files permitted = (files, permitted)"
| "sort_contributed policy (path # paths) files permitted = (case normalize_repo_path path of
     None \<Rightarrow> sort_contributed policy paths (files @ [withheld path ''unsafe_path'']) permitted
   | Some normalized \<Rightarrow>
       if \<not> path_within normalized policy
         then sort_contributed policy paths
                (files @ [withheld normalized ''outside_artifact_policy'']) permitted
       else if normalized \<notin> set permitted
         then sort_contributed policy paths files (permitted @ [normalized])
       else sort_contributed policy paths files permitted)"

text \<open>The loop that shows the patches while the budget of the response lasts.\<close>

fun show_patches :: "(string \<times> string) list \<Rightarrow> int \<Rightarrow> string list \<Rightarrow> diff_file list" where
  "show_patches patches budget [] = []"
| "show_patches patches budget (path # paths) = (case map_of patches path of
     None \<Rightarrow> withheld path ''no_change_in_contributed_range'' # show_patches patches budget paths
   | Some patch \<Rightarrow>
       if budget \<le> 0
         then withheld path ''response_budget_exhausted'' # show_patches patches budget paths
       else
         (let limit = min DIFF_FILE_MAX_CHARS budget;
              truncated = limit < int (length patch);
              shown = take (nat limit) patch in
          \<lparr>df_path = path, df_withheld = False, df_reason = None, df_patch = Some shown,
           df_truncated = truncated\<rparr> # show_patches patches (budget - int (length shown)) paths))"

definition str_items :: "json list \<Rightarrow> string list" where
  "str_items xs = map text_of (filter is_str xs)"

type_synonym git_runner = "string \<Rightarrow> string list \<Rightarrow> int \<times> string"

text \<open>The files of the answer: what is withheld, then the permitted ones with their patches.\<close>

definition reviewed_files ::
    "(string list \<Rightarrow> int \<times> string) \<Rightarrow> string \<Rightarrow> string \<Rightarrow> string list \<Rightarrow> string list \<Rightarrow> diff_file list" where
  "reviewed_files git base_commit commit policy contributed =
     (let (files, permitted) = sort_contributed policy contributed [] [];
          (code, out) = git ([''diff'', ''--no-ext-diff'', ''--no-textconv'',
              base_commit @ ''..'' @ commit, ''--''] @ permitted) in
      if permitted = [] then files
      else if code \<noteq> 0 then files @ map (\<lambda>p. withheld p ''diff_unreadable'') permitted
      else files @ show_patches (split_diff out permitted) DIFF_TOTAL_MAX_CHARS permitted)"

definition run_diff_projection ::
    "runlib \<Rightarrow> git_runner \<Rightarrow> string \<Rightarrow> string \<Rightarrow> dict \<Rightarrow> diff_error + diff_answer option" where
  "run_diff_projection L git_factory issue_ref run_id store =
     (case dispatcher_run L store issue_ref run_id of
        None \<Rightarrow> Inr None
      | Some run \<Rightarrow>
     (case dget run ''commit_evidence'' of
        JObj r \<Rightarrow>
        (let result = get_dict run ''result'';
             commit = safe_sha (dget r ''commit'');
             base_commit = safe_sha (dget r ''base_commit'');
             branch = safe_reference (dget r ''branch'');
             worktree = dget r ''worktree'';
             git = git_factory (text_of worktree) in
         if dget result ''evidence_gate'' \<noteq> JStr ''commit_correlated''
           then Inr (Some (diff_unavailable ''evidence_gate_did_not_pass''))
         else if safe_reference (dget r ''run_id'') \<noteq> Some run_id
           then Inr (Some (diff_unavailable ''evidence_run_mismatch''))
         else if safe_reference (dget r ''issue_id'') \<noteq> Some issue_ref
           then Inr (Some (diff_unavailable ''evidence_issue_mismatch''))
         else if commit = None \<or> base_commit = None
           then Inr (Some (diff_unavailable ''no_correlated_commit''))
         else if branch = None then Inr (Some (diff_unavailable ''no_registered_branch''))
         else if \<not> nonblank worktree then Inr (Some (diff_unavailable ''no_registered_worktree''))
         else if fst (git [''rev-parse'', ''--is-inside-work-tree'']) \<noteq> 0
           then Inr (Some (diff_unavailable ''worktree_unreadable''))
         else if fst (git [''merge-base'', ''--is-ancestor'', the commit,
                           ''refs/heads/'' @ the branch]) \<noteq> 0
           then Inr (Some (diff_unavailable ''commit_not_on_registered_branch''))
         else
           bindE (iterate (dget r ''policy_paths'')) (\<lambda>policy_items.
           bindE (iterate (or_else (dget r ''contributed_files'') (dget r ''files''))) (\<lambda>raw.
            bindE (iterate (dget r ''contributed_commits'')) (\<lambda>commits.
            Inr (Some \<lparr>da_available = True, da_reason = None, da_base_commit = base_commit,
              da_commit = commit, da_branch = branch,
              da_contributed_commits = List.map_filter safe_sha commits,
              da_files = reviewed_files git (the base_commit) (the commit)
                (str_items policy_items) (filter (\<lambda>p. \<not> blank p) (str_items raw))\<rparr>))))) 
      | _ \<Rightarrow> Inr (Some (diff_unavailable ''no_commit_evidence''))))"

section \<open>Paths and segments\<close>

text \<open>The segments a path is judged by; the rules below are about them.\<close>

definition segments_of :: "string \<Rightarrow> string list option" where
  "segments_of path =
     (if blank path then None
      else
        (let candidate = replace_char (CHR 0x5C) (CHR ''/'') (strip path) in
         if startswith candidate ''/'' \<or> drive_lettered candidate then None
         else (case clean_segments (split_on (CHR ''/'') candidate) of
             None \<Rightarrow> None | Some ss \<Rightarrow> if ss = [] then None else Some ss)))"

lemma clean_segments_parts:
  "clean_segments ss = Some ts \<Longrightarrow> set ts \<subseteq> set ss - {[], ''.'', ''..''}"
  by (induction ss arbitrary: ts) (auto split: if_splits)

lemma clean_split:
  assumes "clean_segments (split_on c s) = Some ts"
  shows "\<forall>t\<in>set ts. t \<noteq> [] \<and> t \<noteq> ''.'' \<and> t \<noteq> ''..'' \<and> c \<notin> set t"
proof -
  have "\<forall>t\<in>set ts. t \<in> set (split_on c s) \<and> t \<noteq> [] \<and> t \<noteq> ''.'' \<and> t \<noteq> ''..''"
    using clean_segments_parts [OF assms] by auto
  then show ?thesis using split_on_parts [of _ c s] by metis
qed

lemma join_Nil_iff: "\<forall>t\<in>set ts. t \<noteq> [] \<Longrightarrow> join sep ts = [] \<longleftrightarrow> ts = []"
  by (induction sep ts rule: join.induct) auto

lemma join_clean: "clean_segments (split_on c s) = Some ts \<Longrightarrow> join sep ts = [] \<longleftrightarrow> ts = []"
  by (rule join_Nil_iff) (use clean_split in blast)

lemma normalize_segments: "normalize_repo_path path = map_option (join ''/'') (segments_of path)"
  unfolding normalize_repo_path_def segments_of_def Let_def
  by (simp add: join_clean split: option.split)

lemma segments_ofD:
  assumes "segments_of p = Some ss"
  shows "ss \<noteq> []" and "s \<in> set ss \<Longrightarrow> s \<noteq> [] \<and> s \<noteq> ''.'' \<and> s \<noteq> ''..'' \<and> CHR ''/'' \<notin> set s"
proof -
  have "\<exists>q. clean_segments (split_on (CHR ''/'') q) = Some ss" and ss: "ss \<noteq> []"
    using assms unfolding segments_of_def Let_def by (simp_all split: if_split_asm option.split_asm) blast
  then obtain q where "clean_segments (split_on (CHR ''/'') q) = Some ss" by blast
  note clean_split [OF this]
  then show "ss \<noteq> []" and "s \<in> set ss \<Longrightarrow> s \<noteq> [] \<and> s \<noteq> ''.'' \<and> s \<noteq> ''..'' \<and> CHR ''/'' \<notin> set s"
    using ss by blast+
qed

lemma path_within_not_blank: "path_within p policy \<Longrightarrow> \<not> blank p"
  by (rule notI) (simp add: path_within_def normalize_repo_path_def [of p])

section \<open>What the loops do\<close>

lemma sort_contributed_files:
  "sort_contributed policy ps fs perm = (fs', perm') \<Longrightarrow>
   \<exists>ws qs. fs' = fs @ ws \<and> perm' = perm @ qs \<and> (\<forall>w\<in>set ws. df_patch w = None) \<and>
     (\<forall>q\<in>set qs. path_within q policy \<and> (\<exists>p\<in>set ps. normalize_repo_path p = Some q))"
proof (induction ps arbitrary: fs perm)
  case (Cons p ps)
  from Cons.prems Cons.IH show ?case
    by (fastforce simp: withheld_def split: option.splits if_splits)
qed simp

text \<open>What became of one contributed path.\<close>

definition accounted :: "string list \<Rightarrow> diff_file set \<Rightarrow> string set \<Rightarrow> string \<Rightarrow> bool" where
  "accounted policy fs perm p = (case normalize_repo_path p of
     None \<Rightarrow> withheld p ''unsafe_path'' \<in> fs
   | Some q \<Rightarrow> if path_within q policy then q \<in> perm
       else withheld q ''outside_artifact_policy'' \<in> fs)"

lemma sort_contributed_complete:
  "sort_contributed policy ps fs perm = (fs', perm') \<Longrightarrow>
   set fs \<subseteq> set fs' \<and> set perm \<subseteq> set perm' \<and> (\<forall>p\<in>set ps. accounted policy (set fs') (set perm') p)"
proof (induction ps arbitrary: fs perm)
  case (Cons p ps)
  show ?case
  proof (cases "normalize_repo_path p")
    case None
    with Cons.prems Cons.IH [of "fs @ [withheld p ''unsafe_path'']" perm] show ?thesis
      by (auto simp: accounted_def)
  next
    case (Some q)
    have new: "accounted policy (set fs') (set perm') p \<longleftrightarrow>
        (if path_within q policy then q \<in> set perm' else withheld q ''outside_artifact_policy'' \<in> set fs')"
      by (simp add: accounted_def Some)
    show ?thesis
    proof (cases "path_within q policy")
      case False
      with Some Cons.prems Cons.IH [of "fs @ [withheld q ''outside_artifact_policy'']" perm] new
      show ?thesis by auto
    next
      case True
      with Some Cons.prems Cons.IH [of fs "perm @ [q]"] Cons.IH [of fs perm] new
      show ?thesis by (auto split: if_splits)
    qed
  qed
qed simp

lemma show_patches_paths: "map df_path (show_patches patches budget paths) = paths"
  by (induction paths arbitrary: budget) (auto simp: withheld_def Let_def split: option.splits)

definition patch_size :: "diff_file \<Rightarrow> int" where
  "patch_size f = (case df_patch f of None \<Rightarrow> 0 | Some p \<Rightarrow> int (length p))"

lemma show_patches_bounds:
  "(\<forall>f\<in>set (show_patches patches budget paths). patch_size f \<le> DIFF_FILE_MAX_CHARS) \<and>
   sum_list (map patch_size (show_patches patches budget paths)) \<le> max 0 budget"
proof (induction paths arbitrary: budget)
  case (Cons p ps)
  show ?case
  proof (cases "map_of patches p")
    case None
    with Cons [of budget] show ?thesis by (simp add: withheld_def patch_size_def DIFF_FILE_MAX_CHARS_def)
  next
    case (Some x)
    let ?n = "int (length (take (nat (min DIFF_FILE_MAX_CHARS budget)) x))"
    show ?thesis
    proof (cases "budget \<le> 0")
      case True
      with Some Cons [of budget] show ?thesis by (simp add: withheld_def patch_size_def DIFF_FILE_MAX_CHARS_def)
    next
      case False
      then have "?n \<le> DIFF_FILE_MAX_CHARS" "?n \<le> budget" by (simp_all add: DIFF_FILE_MAX_CHARS_def)
      with Some Cons [of "budget - ?n"] False show ?thesis by (simp add: Let_def patch_size_def)
    qed
  qed
qed simp

text \<open>How an available answer came about.\<close>

lemma passed_guard:
  "da_available a \<Longrightarrow>
   (if c then Inr (Some (diff_unavailable s)) else x) = Inr (Some a) \<longleftrightarrow> \<not> c \<and> x = Inr (Some a)"
  by (auto simp: diff_unavailable_def)

lemma run_diff_available:
  assumes "run_diff_projection L git_factory issue_ref run_id store = Inr (Some a)" "da_available a"
  obtains run r commit base branch policy contributed where
    "dispatcher_run L store issue_ref run_id = Some run" "dget run ''commit_evidence'' = JObj r"
    "dget (get_dict run ''result'') ''evidence_gate'' = JStr ''commit_correlated''"
    "safe_reference (dget r ''run_id'') = Some run_id" "safe_reference (dget r ''issue_id'') = Some issue_ref"
    "safe_sha (dget r ''commit'') = Some commit" "safe_sha (dget r ''base_commit'') = Some base"
    "safe_reference (dget r ''branch'') = Some branch"
    "fst (git_factory (text_of (dget r ''worktree''))
       [''merge-base'', ''--is-ancestor'', commit, ''refs/heads/'' @ branch]) = 0"
    "iterate (dget r ''policy_paths'') = Inr policy"
    "iterate (or_else (dget r ''contributed_files'') (dget r ''files'')) = Inr contributed"
    "da_files a = reviewed_files (git_factory (text_of (dget r ''worktree''))) base commit
       (str_items policy) (filter (\<lambda>p. \<not> blank p) (str_items contributed))"
proof -
  obtain run where run: "dispatcher_run L store issue_ref run_id = Some run"
    using assms(1) by (cases "dispatcher_run L store issue_ref run_id") (simp_all add: run_diff_projection_def)
  obtain r where r: "dget run ''commit_evidence'' = JObj r"
    using assms by (cases "dget run ''commit_evidence''")
      (auto simp: run_diff_projection_def run diff_unavailable_def)
  from assms(1) show thesis
    unfolding run_diff_projection_def run option.case r json.case Let_def passed_guard [OF assms(2)]
    by (auto simp: bindE_Inr intro!: that [OF run r])
qed

lemma reviewed_files_cases:
  assumes "reviewed_files git base commit policy contributed = files"
  obtains fs permitted shown where
    "sort_contributed policy contributed [] [] = (fs, permitted)" "files = fs @ shown"
    "map df_path shown = permitted"
    "(\<forall>f\<in>set shown. df_patch f = None) \<or>
     (\<exists>out. shown = show_patches (split_diff out permitted) DIFF_TOTAL_MAX_CHARS permitted)"
proof -
  obtain fs permitted where sort: "sort_contributed policy contributed [] [] = (fs, permitted)"
    by fastforce
  obtain code out where git: "git ([''diff'', ''--no-ext-diff'', ''--no-textconv'',
      base @ ''..'' @ commit, ''--''] @ permitted) = (code, out)" by fastforce
  have files: "files = fs @ (if permitted = [] then [] else if code \<noteq> 0
      then map (\<lambda>p. withheld p ''diff_unreadable'') permitted
      else show_patches (split_diff out permitted) DIFF_TOTAL_MAX_CHARS permitted)"
    using assms git by (auto simp: reviewed_files_def sort)
  show thesis
    by (rule that [OF sort files]) (auto simp: withheld_def comp_def show_patches_paths)
qed

lemma reviewed_files_account:
  assumes "p \<in> set contributed"
  shows "\<exists>f\<in>set (reviewed_files git base commit policy contributed).
    df_path f = p \<or> normalize_repo_path p = Some (df_path f)"
proof -
  let ?files = "reviewed_files git base commit policy contributed"
  obtain fs permitted shown where sort: "sort_contributed policy contributed [] [] = (fs, permitted)"
    and split: "?files = fs @ shown" "map df_path shown = permitted"
    by (rule reviewed_files_cases [OF refl])
  have "accounted policy (set fs) (set permitted) p" using sort_contributed_complete [OF sort] assms by blast
  then consider "withheld p ''unsafe_path'' \<in> set fs"
    | q where "normalize_repo_path p = Some q" "q \<in> set permitted \<or> withheld q ''outside_artifact_policy'' \<in> set fs"
    by (auto simp: accounted_def split: option.splits if_splits)
  then show ?thesis
  proof cases
    case 1
    then show ?thesis by (intro bexI [of _ "withheld p ''unsafe_path''"]) (auto simp: split withheld_def)
  next
    case (2 q)
    have "\<exists>f\<in>set ?files. df_path f = q"
      using 2(2) by (auto simp: split(1) split(2) [symmetric] withheld_def intro: bexI [rotated])
    with 2(1) show ?thesis by auto
  qed
qed

text \<open>The one path through the guards that answers.\<close>

lemma run_diff_answers:
  assumes "dispatcher_run L store issue_ref run_id = Some run" "dget run ''commit_evidence'' = JObj r"
    and "dget (get_dict run ''result'') ''evidence_gate'' = JStr ''commit_correlated''"
    and "safe_reference (dget r ''run_id'') = Some run_id" "safe_reference (dget r ''issue_id'') = Some issue_ref"
    and "safe_sha (dget r ''commit'') = Some commit" "safe_sha (dget r ''base_commit'') = Some base"
    and "safe_reference (dget r ''branch'') = Some branch"
    and "dget r ''worktree'' = JStr worktree" "\<not> blank worktree"
    and "fst (git_factory worktree [''rev-parse'', ''--is-inside-work-tree'']) = 0"
    and "fst (git_factory worktree [''merge-base'', ''--is-ancestor'', commit, ''refs/heads/'' @ branch]) = 0"
    and "iterate (dget r ''policy_paths'') = Inr policy"
    and "iterate (or_else (dget r ''contributed_files'') (dget r ''files'')) = Inr contributed"
    and "iterate (dget r ''contributed_commits'') = Inr commits"
  shows "run_diff_projection L git_factory issue_ref run_id store =
    Inr (Some \<lparr>da_available = True, da_reason = None, da_base_commit = Some base, da_commit = Some commit,
      da_branch = Some branch, da_contributed_commits = List.map_filter safe_sha commits,
      da_files = reviewed_files (git_factory worktree) base commit (str_items policy)
        (filter (\<lambda>p. \<not> blank p) (str_items contributed))\<rparr>)"
  unfolding run_diff_projection_def Let_def assms(1,2,3,4,5,6,7,8,9) json.case option.case text_of_def
    option.sel assms(11,12,13,14,15) bindE_simps
  using assms(10) by (simp add: nonblank_def)

section \<open>Guarantees\<close>

text \<open>C39: The operator is only shown what the gate approved. A patch in an answer means: the durable
  record of exactly this Run and issue carries commit evidence that names both, its result passed
  the Evidence Gate, the commit was on the registered branch, and the patch is of a path that some
  contributed path normalizes to and that lies inside the recorded artifact policy.\<close>

theorem run_diff_shows_only_approved:
  assumes "run_diff_projection L git_factory issue_ref run_id store = Inr (Some a)"
    and "da_available a" and "f \<in> set (da_files a)" and "df_patch f \<noteq> None"
  shows "\<exists>run r commit branch policy contributed p.
    dispatcher_run L store issue_ref run_id = Some run \<and> dget run ''commit_evidence'' = JObj r \<and>
    dget (get_dict run ''result'') ''evidence_gate'' = JStr ''commit_correlated'' \<and>
    safe_reference (dget r ''run_id'') = Some run_id \<and> safe_reference (dget r ''issue_id'') = Some issue_ref \<and>
    safe_sha (dget r ''commit'') = Some commit \<and> safe_reference (dget r ''branch'') = Some branch \<and>
    fst (git_factory (text_of (dget r ''worktree''))
      [''merge-base'', ''--is-ancestor'', commit, ''refs/heads/'' @ branch]) = 0 \<and>
    iterate (dget r ''policy_paths'') = Inr policy \<and>
    iterate (or_else (dget r ''contributed_files'') (dget r ''files'')) = Inr contributed \<and>
    JStr p \<in> set contributed \<and> normalize_repo_path p = Some (df_path f) \<and>
    path_within (df_path f) (str_items policy)"
proof -
  obtain run r commit base branch policy contributed where facts:
    "dispatcher_run L store issue_ref run_id = Some run" "dget run ''commit_evidence'' = JObj r"
    "dget (get_dict run ''result'') ''evidence_gate'' = JStr ''commit_correlated''"
    "safe_reference (dget r ''run_id'') = Some run_id" "safe_reference (dget r ''issue_id'') = Some issue_ref"
    "safe_sha (dget r ''commit'') = Some commit" "safe_reference (dget r ''branch'') = Some branch"
    "fst (git_factory (text_of (dget r ''worktree''))
       [''merge-base'', ''--is-ancestor'', commit, ''refs/heads/'' @ branch]) = 0"
    "iterate (dget r ''policy_paths'') = Inr policy"
    "iterate (or_else (dget r ''contributed_files'') (dget r ''files'')) = Inr contributed"
    and files: "da_files a = reviewed_files (git_factory (text_of (dget r ''worktree''))) base commit
       (str_items policy) (filter (\<lambda>p. \<not> blank p) (str_items contributed))"
    by (rule run_diff_available [OF assms(1,2)])
  obtain fs permitted shown where
    sort: "sort_contributed (str_items policy) (filter (\<lambda>p. \<not> blank p) (str_items contributed)) [] [] = (fs, permitted)"
    and split: "da_files a = fs @ shown" "map df_path shown = permitted"
    by (rule reviewed_files_cases [OF files [symmetric]])
  have none: "\<forall>w\<in>set fs. df_patch w = None"
    and ok: "\<forall>q\<in>set permitted. path_within q (str_items policy) \<and>
      (\<exists>p\<in>set (filter (\<lambda>p. \<not> blank p) (str_items contributed)). normalize_repo_path p = Some q)"
    using sort_contributed_files [OF sort] by auto
  have "f \<in> set shown" using assms(3,4) split(1) none by auto
  then have "df_path f \<in> set permitted" using split(2) by auto
  with ok obtain p where p: "p \<in> set (str_items contributed)" "normalize_repo_path p = Some (df_path f)"
    and inside: "path_within (df_path f) (str_items policy)" by auto
  have "JStr p \<in> set contributed" using p(1) by (auto simp: str_items_def is_str_iff text_of_def)
  with facts p(2) inside show ?thesis by blast
qed

text \<open>The answer is bounded: no patch is longer than 60,000 characters and all of them together
  are not longer than 400,000, whatever git printed.\<close>

theorem run_diff_bounded:
  assumes "run_diff_projection L git_factory issue_ref run_id store = Inr (Some a)" and "da_available a"
  shows "(\<forall>f\<in>set (da_files a). patch_size f \<le> DIFF_FILE_MAX_CHARS) \<and>
    sum_list (map patch_size (da_files a)) \<le> DIFF_TOTAL_MAX_CHARS"
proof -
  obtain git base commit policy contributed where
    files: "da_files a = reviewed_files git base commit policy contributed"
    by (rule run_diff_available [OF assms])
  obtain fs permitted shown where sort: "sort_contributed policy contributed [] [] = (fs, permitted)"
    and split: "da_files a = fs @ shown"
    and shown: "(\<forall>f\<in>set shown. df_patch f = None) \<or>
      (\<exists>out. shown = show_patches (split_diff out permitted) DIFF_TOTAL_MAX_CHARS permitted)"
    by (rule reviewed_files_cases [OF files [symmetric]])
  have zero: "(\<forall>f\<in>set xs. df_patch f = None) \<Longrightarrow>
      (\<forall>f\<in>set xs. patch_size f = 0) \<and> sum_list (map patch_size xs) = 0" for xs
    by (induction xs) (auto simp: patch_size_def)
  have "\<forall>w\<in>set fs. df_patch w = None" using sort_contributed_files [OF sort] by auto
  note fs = zero [OF this]
  from shown show ?thesis
  proof
    assume "\<forall>f\<in>set shown. df_patch f = None"
    with zero [OF this] fs show ?thesis
      by (auto simp: split DIFF_FILE_MAX_CHARS_def DIFF_TOTAL_MAX_CHARS_def)
  next
    assume "\<exists>out. shown = show_patches (split_diff out permitted) DIFF_TOTAL_MAX_CHARS permitted"
    then show ?thesis
      using show_patches_bounds [of _ DIFF_TOTAL_MAX_CHARS permitted] fs
      by (auto simp: split DIFF_FILE_MAX_CHARS_def DIFF_TOTAL_MAX_CHARS_def)
  qed
qed

text \<open>No contributed path is dropped from the review: in an available answer every path text the
  record lists, if it is not blank, has an entry under its own or its normalized name.\<close>

theorem run_diff_accounts_for_every_path:
  assumes "run_diff_projection L git_factory issue_ref run_id store = Inr (Some a)" and "da_available a"
    and "dispatcher_run L store issue_ref run_id = Some run" and "dget run ''commit_evidence'' = JObj r"
    and "iterate (or_else (dget r ''contributed_files'') (dget r ''files'')) = Inr contributed"
    and "JStr p \<in> set contributed" and "\<not> blank p"
  shows "\<exists>f\<in>set (da_files a). df_path f = p \<or> normalize_repo_path p = Some (df_path f)"
proof -
  obtain git base commit policy where
    files: "da_files a = reviewed_files git base commit policy (filter (\<lambda>p. \<not> blank p) (str_items contributed))"
    by (rule run_diff_available [OF assms(1,2)]) (use assms(3-5) in auto)
  have "p \<in> set (filter (\<lambda>p. \<not> blank p) (str_items contributed))"
    using assms(6,7) by (force simp: str_items_def text_of_def intro: image_eqI)
  then show ?thesis unfolding files by (rule reviewed_files_account)
qed

text \<open>The artifact policy is what it should be: a path is inside it exactly when both are
  repository-relative and the segments of some entry are a prefix of the path's segments, so
  neither a name that merely starts alike nor a path that climbs out is ever inside.\<close>

theorem path_within_is_prefix:
  "path_within path policy \<longleftrightarrow>
     (\<exists>ss. segments_of path = Some ss \<and> (\<exists>entry\<in>set policy. \<exists>es. segments_of entry = Some es \<and> prefix es ss))"
proof -
  have "join ''/'' ss = join ''/'' es \<or> startswith (join ''/'' ss) (join ''/'' es @ ''/'') \<longleftrightarrow> prefix es ss"
    if "segments_of path = Some ss" "segments_of entry = Some es" for ss es entry
    using that by (intro join_startswith) (auto dest: segments_ofD)
  then show ?thesis
    by (fastforce simp: path_within_def normalize_segments list_ex_iff split: option.splits)
qed

section \<open>What the parser of the diff loses\<close>

lemma split_line_skips:
  assumes "\<not> startswith line ''diff --git ''"
  shows "split_line wanted (chunks, None, []) line = (chunks, None, [])"
  using assms by (simp add: split_line_def)

lemma split_lines_skip:
  "\<forall>l\<in>set ls. \<not> startswith l ''diff --git '' \<Longrightarrow>
   foldl (split_line wanted) (chunks, None, []) ls = (chunks, None, [])"
  by (induction ls) (simp_all add: split_line_skips)

lemma rstrip_line: "list_all (\<lambda>c. \<not> line_break c) h \<Longrightarrow> rstrip_newlines (h @ [CHR 0x0A]) = h"
  by (cases h rule: rev_cases) (auto simp: rstrip_newlines_def line_break_def)

lemma breaks [simp]: "line_break (CHR 0x0A)" "line_break (CHR 0x0C)"
  by (simp_all add: line_break_def)

lemma git_header_plain: "list_all (\<lambda>c. \<not> line_break c) ''diff --git ''"
  by (simp add: line_break_def)

text \<open>The parser of the diff breaks lines where git does not. When git prints, in the one
  permitted file's patch, a line with a form feed after which the text \<open>diff --git\<close> comes, the
  review shows the patch up to the form feed, not marked as truncated, and nothing of what follows,
  whatever that is.\<close>

theorem run_diff_hides_after_form_feed:
  assumes "list_all (\<lambda>c. \<not> line_break c) (path @ lead @ rest)"
    and "\<not> startswith (lead @ [CHR 0x0C]) ''diff --git ''"
    and "\<not> endswith (''diff --git '' @ rest) ('' b/'' @ path)"
    and "\<forall>l\<in>set (splitlines hidden). \<not> startswith l ''diff --git ''"
    and "normalize_repo_path path = Some path" and "path_within path policy"
    and "length path + length path + length lead < 1000"
    and "git [''diff'', ''--no-ext-diff'', ''--no-textconv'', base @ ''..'' @ commit, ''--'', path] =
      (0, (''diff --git a/'' @ path @ '' b/'' @ path) @ CHR 0x0A # lead @ CHR 0x0C #
          (''diff --git '' @ rest) @ CHR 0x0A # hidden)"
  shows "reviewed_files git base commit policy [path] =
    [\<lparr>df_path = path, df_withheld = False, df_reason = None,
      df_patch = Some ((''diff --git a/'' @ path @ '' b/'' @ path) @ CHR 0x0A # lead @ [CHR 0x0C]),
      df_truncated = False\<rparr>]"
proof -
  let ?h = "''diff --git a/'' @ path @ '' b/'' @ path"
  let ?g = "''diff --git '' @ rest"
  have h: "list_all (\<lambda>c. \<not> line_break c) ?h" and g: "list_all (\<lambda>c. \<not> line_break c) ?g"
    and lead: "list_all (\<lambda>c. \<not> line_break c) lead"
    using assms(1) by (simp_all add: line_break_def)
  have lines: "splitlines (?h @ CHR 0x0A # lead @ CHR 0x0C # ?g @ CHR 0x0A # hidden) =
      (?h @ [CHR 0x0A]) # (lead @ [CHR 0x0C]) # (?g @ [CHR 0x0A]) # splitlines hidden"
    using splitlines_line [OF h breaks(1)] splitlines_line [OF lead breaks(2)]
      splitlines_line [OF g breaks(1)] by simp
  have s: "startswith (?h @ [CHR 0x0A]) ''diff --git ''" "startswith (?g @ [CHR 0x0A]) ''diff --git ''"
    by (simp_all add: startswith_def)
  have eh: "endswith ?h ('' b/'' @ path)" unfolding endswith_iff by (rule exI [of _ "''diff --git a/'' @ path"]) simp
  have "split_line [path] ([], None, []) (?h @ [CHR 0x0A]) = ([], Some path, [?h @ [CHR 0x0A]])"
    by (simp add: split_line_def s(1) rstrip_line [OF h] eh del: append_assoc append.simps)
  moreover have "split_line [path] ([], Some path, [?h @ [CHR 0x0A]]) (lead @ [CHR 0x0C]) =
      ([], Some path, [?h @ [CHR 0x0A], lead @ [CHR 0x0C]])"
    using assms(2) by (simp add: split_line_def)
  moreover have "split_line [path] ([], Some path, [?h @ [CHR 0x0A], lead @ [CHR 0x0C]]) (?g @ [CHR 0x0A]) =
      ([(path, ?h @ CHR 0x0A # lead @ [CHR 0x0C])], None, [])"
    by (simp add: split_line_def s(2) rstrip_line [OF g] assms(3) del: append_assoc append.simps)
  ultimately have "split_diff (?h @ CHR 0x0A # lead @ CHR 0x0C # ?g @ CHR 0x0A # hidden) [path] =
      [(path, ?h @ CHR 0x0A # lead @ [CHR 0x0C])]"
    unfolding split_diff_def lines foldl_Cons by (simp add: split_lines_skip [OF assms(4)])
  moreover have "sort_contributed policy [path] [] [] = ([], [path])" using assms(5,6) by simp
  ultimately show ?thesis
    using assms(7,8) by (simp add: reviewed_files_def DIFF_FILE_MAX_CHARS_def DIFF_TOTAL_MAX_CHARS_def)
qed

section \<open>Witnesses\<close>

definition sample_git :: git_runner where
  "sample_git worktree args = (0, if hd args = ''diff'' then ''diff --git a/d/a b/d/a'' @ [CHR 0x0A] else [])"

definition sample_evidence :: dict where
  "sample_evidence =
     [(''run_id'', JStr ''r1''), (''issue_id'', JStr ''i''), (''commit'', JStr ''aaaaaaa''),
      (''base_commit'', JStr ''bbbbbbb''), (''branch'', JStr ''work''), (''worktree'', JStr ''w''),
      (''policy_paths'', JList [JStr ''d'']), (''contributed_files'', JList [JStr ''d/a'', JStr ''e''])]"

definition sample_store :: dict where
  "sample_store = [(''r1'', JObj [(''issue_id'', JStr ''i''), (''commit_evidence'', JObj sample_evidence),
     (''result'', JObj [(''evidence_gate'', JStr ''commit_correlated'')])])]"

definition sample_patch :: string where
  "sample_patch = ''diff --git a/d/a b/d/a'' @ [CHR 0x0A]"

definition sample_files :: "diff_file list" where
  "sample_files = [withheld ''e'' ''outside_artifact_policy'',
     \<lparr>df_path = ''d/a'', df_withheld = False, df_reason = None, df_patch = Some sample_patch,
      df_truncated = False\<rparr>]"

definition sample_answer :: diff_answer where
  "sample_answer = \<lparr>da_available = True, da_reason = None, da_base_commit = Some ''bbbbbbb'',
     da_commit = Some ''aaaaaaa'', da_branch = Some ''work'', da_contributed_commits = [],
     da_files = sample_files\<rparr>"

lemmas path_eval = normalize_repo_path_def path_within_def drive_lettered_def replace_char_def
  strip_def is_space_def blank_def startswith_def endswith_def slash_root_def drive_path_def

lemma sample_paths: "normalize_repo_path ''d'' = Some ''d''" "normalize_repo_path ''d/a'' = Some ''d/a''"
    "normalize_repo_path ''e'' = Some ''e''" "path_within ''d/a'' [''d'']" "\<not> path_within ''e'' [''d'']"
    "normalize_repo_path ''a'' = Some ''a''" "path_within ''a'' [''a'']"
  by (simp_all add: path_eval)

lemma sample_reviewed: "reviewed_files (sample_git w) base commit [''d''] [''d/a'', ''e''] = sample_files"
  by (simp add: reviewed_files_def sample_paths sample_git_def split_diff_def splitlines_def line_break_def
      split_line_def startswith_def rstrip_newlines_def endswith_def sample_files_def sample_patch_def
      withheld_def DIFF_FILE_MAX_CHARS_def DIFF_TOTAL_MAX_CHARS_def)

lemma sample_projection:
  "run_diff_projection sample_runlib sample_git ''i'' ''r1'' sample_store = Inr (Some sample_answer)"
  by (simp add: run_diff_projection_def dispatcher_run_def sample_store_def sample_evidence_def py_str_def
      get_dict_def safe_reference_def safe_sha_def path_eval is_hex_any_def is_hex_def is_digit_def
      nonblank_def text_of_def sample_answer_def)
   (simp add: sample_git_def iterate_def or_else_def str_items_def text_of_def blank_def is_space_def
      sample_reviewed map_filter_simps)

lemma sample_answer_files: "da_files sample_answer = sample_files" "da_available sample_answer"
  by (simp_all add: sample_answer_def)

theorem run_diff_shows_only_approved_witness:
  "da_available sample_answer \<and>
   (\<exists>run r policy. dispatcher_run sample_runlib sample_store ''i'' ''r1'' = Some run \<and>
      dget run ''commit_evidence'' = JObj r \<and> iterate (dget r ''policy_paths'') = Inr policy \<and>
      path_within ''d/a'' (str_items policy))"
  using run_diff_shows_only_approved [OF sample_projection, of "sample_files ! 1"]
  by (auto simp: sample_answer_files sample_files_def)

theorem run_diff_bounded_witness:
  "0 < sum_list (map patch_size (da_files sample_answer)) \<and>
   sum_list (map patch_size (da_files sample_answer)) \<le> DIFF_TOTAL_MAX_CHARS"
  using run_diff_bounded [OF sample_projection sample_answer_files(2)]
  by (simp add: sample_answer_files(1) sample_files_def patch_size_def withheld_def sample_patch_def)

theorem run_diff_accounts_for_every_path_witness:
  "\<exists>f\<in>set (da_files sample_answer). df_path f = ''e'' \<and> df_withheld f"
  using run_diff_accounts_for_every_path [OF sample_projection sample_answer_files(2), of _ sample_evidence
      "[JStr ''d/a'', JStr ''e'']" "''e''"]
  by (auto simp: dispatcher_run_def sample_store_def sample_evidence_def py_str_def iterate_def or_else_def
      blank_def is_space_def sample_paths sample_answer_files sample_files_def withheld_def)

theorem run_diff_hides_after_form_feed_witness:
  "\<exists>patch. reviewed_files (\<lambda>args. (0, (''diff --git a/a b/a'') @ CHR 0x0A # ''+'' @ CHR 0x0C #
        (''diff --git x'') @ CHR 0x0A # ''+evil'' @ [CHR 0x0A])) ''b'' ''c'' [''a''] [''a''] =
     [\<lparr>df_path = ''a'', df_withheld = False, df_reason = None, df_patch = Some patch, df_truncated = False\<rparr>] \<and>
     \<not> contains patch ''evil''"
  using run_diff_hides_after_form_feed [of "''a''" "''+''" "''x''" "''+evil'' @ [CHR 0x0A]" "[''a'']"
      "\<lambda>args. (0, (''diff --git a/a b/a'') @ CHR 0x0A # ''+'' @ CHR 0x0C #
        (''diff --git x'') @ CHR 0x0A # ''+evil'' @ [CHR 0x0A])" "''b''" "''c''"]
  by (simp add: sample_paths line_break_def startswith_def endswith_def splitlines_def)

text \<open>
  Two more facts about the path rules. A normalized path need not be one: a drive letter that comes
  after a dot segment survives, so the callers must judge the result again, as \<open>path_within\<close> does.
  And white space around a path is ignored, although git tells such names apart.
\<close>

lemma normalize_keeps_late_drive_letter: "normalize_repo_path ''./C:/x'' = Some ''C:/x''"
  by (simp add: path_eval)

lemma path_within_ignores_space: "is_space c \<Longrightarrow> path_within (c # path) policy = path_within path policy"
  by (simp add: path_within_def normalize_repo_path_def strip_def blank_def)

end
