(* ===== verification/Commit_Gate.thy ===== *)
theory Commit_Gate
  imports Run_Diff
begin

text \<open>
  The Evidence Gate of mutating Runs, \<open>scripts/commit_evidence.py\<close>: a Run's claimed success is
  accepted only with a correlated commit. The Run record is the mapping of its attributes, git a
  function from an argument list to the exit code and the printed text. A refusal is its stable
  code (the detail and the recovery text are prose built from the same values). \<open>Inl\<close> is an
  exception: an attribute that cannot be read as an integer or cannot be iterated, a policy that is
  not a text, an artifact path that is not a text.
\<close>

datatype gate_error =
    Not_an_int json
  | Bad_artifact_paths json
  | Policy_not_text json

section \<open>Patterns\<close>

text \<open>\<open>DCO_RE.search\<close>: \<open>^Signed-off-by:\s*\S.*<[^>@\s]+@[^>\s]+>\s*$\<close> on some line.\<close>

definition mail_char :: "char \<Rightarrow> bool" where
  "mail_char c \<longleftrightarrow> c \<noteq> CHR ''>'' \<and> c \<noteq> CHR ''@'' \<and> \<not> is_space c"

definition host_char :: "char \<Rightarrow> bool" where
  "host_char c \<longleftrightarrow> c \<noteq> CHR ''>'' \<and> \<not> is_space c"

text \<open>After white space a line ends, or the text does.\<close>

definition line_ends :: "string \<Rightarrow> bool" where
  "line_ends s \<longleftrightarrow> (case dropWhile (\<lambda>c. is_space c \<and> c \<noteq> CHR 0x0A) s of [] \<Rightarrow> True | c # _ \<Rightarrow> c = CHR 0x0A)"

definition mail_here :: "string \<Rightarrow> bool" where
  "mail_here s \<longleftrightarrow> (case s of
     [] \<Rightarrow> False
   | c # t \<Rightarrow> c = CHR ''<'' \<and> takeWhile mail_char t \<noteq> [] \<and>
       (case dropWhile mail_char t of
          [] \<Rightarrow> False
        | d # u \<Rightarrow> d = CHR ''@'' \<and> takeWhile host_char u \<noteq> [] \<and>
            (case dropWhile host_char u of [] \<Rightarrow> False | e # v \<Rightarrow> e = CHR ''>'' \<and> line_ends v)))"

text \<open>\<open>.*\<close> does not cross a line feed.\<close>

fun mail_later :: "string \<Rightarrow> bool" where
  "mail_later [] = False"
| "mail_later (c # s) = (mail_here (c # s) \<or> (c \<noteq> CHR 0x0A \<and> mail_later s))"

definition signed_here :: "string \<Rightarrow> bool" where
  "signed_here s \<longleftrightarrow> startswith s ''Signed-off-by:'' \<and>
     (case dropWhile is_space (drop 14 s) of [] \<Rightarrow> False | _ # t \<Rightarrow> mail_later t)"

fun dco_from :: "bool \<Rightarrow> string \<Rightarrow> bool" where
  "dco_from line_start [] = False"
| "dco_from line_start (c # s) = (line_start \<and> signed_here (c # s) \<or> dco_from (c = CHR 0x0A) s)"

definition dco_search :: "string \<Rightarrow> bool" where
  "dco_search message = dco_from True message"

text \<open>\<open>POLICY_PATH_RE.findall\<close>: the back-quoted tokens, left to right, without overlap.\<close>

definition token_char :: "char \<Rightarrow> bool" where
  "token_char c \<longleftrightarrow> is_digit c \<or> is_lower c \<or> is_upper c \<or> c \<in> set ''._/-''"

definition quoted_token :: "string \<Rightarrow> string option" where
  "quoted_token s =
     (let w = takeWhile token_char s in
      if w \<noteq> [] \<and> (is_digit (hd w) \<or> is_lower (hd w) \<or> is_upper (hd w)) \<and>
         startswith (drop (length w) s) [CHR 0x60]
      then Some w else None)"

function policy_tokens :: "string \<Rightarrow> string list" where
  "policy_tokens [] = []"
| "policy_tokens (c # s) =
     (if c = CHR 0x60
      then (case quoted_token s of
          Some w \<Rightarrow> w # policy_tokens (drop (Suc (length w)) s)
        | None \<Rightarrow> policy_tokens s)
      else policy_tokens s)"
  by pat_completeness auto
termination by (relation "measure length") auto

text \<open>\<open>dict.fromkeys\<close> keeps the first of equal tokens.\<close>

definition policy_paths :: "string \<Rightarrow> string list" where
  "policy_paths artifact_policy = List.rev (remdups (List.rev (policy_tokens artifact_policy)))"

definition full_sha :: "string \<Rightarrow> bool" where
  "full_sha s \<longleftrightarrow> length s = 40 \<and> list_all is_hex s"

section \<open>Numbers\<close>

fun digits_value :: "string \<Rightarrow> int \<Rightarrow> int" where
  "digits_value [] n = n"
| "digits_value (c # s) n = digits_value s (10 * n + (of_char c - 48))"

text \<open>\<open>str.isdigit\<close> also holds of the three superscript digits below 256, which \<open>int\<close> refuses.\<close>

definition digit_like :: "char \<Rightarrow> bool" where
  "digit_like c \<longleftrightarrow> is_digit c \<or> (of_char c :: nat) \<in> {178, 179, 185}"

definition str_isdigit :: "string \<Rightarrow> bool" where
  "str_isdigit s \<longleftrightarrow> s \<noteq> [] \<and> list_all digit_like s"

text \<open>\<open>int(v)\<close>. A text is read with an optional sign; a digit group with underscores is not.\<close>

definition int_of_text :: "string \<Rightarrow> int option" where
  "int_of_text s =
     (let t = strip s; (negative, ds) = (case t of
          c # u \<Rightarrow> if c = CHR ''-'' then (True, u) else if c = CHR ''+'' then (False, u) else (False, t)
        | [] \<Rightarrow> (False, [])) in
      if ds \<noteq> [] \<and> list_all is_digit ds
      then Some (if negative then - digits_value ds 0 else digits_value ds 0) else None)"

definition py_int :: "json \<Rightarrow> gate_error + int" where
  "py_int v = (case v of
     JInt n \<Rightarrow> Inr n
   | JBool b \<Rightarrow> Inr (if b then 1 else 0)
   | JFlt (Fin x) \<Rightarrow> Inr (if x < 0 then - \<lfloor>- x\<rfloor> else \<lfloor>x\<rfloor>)
   | JStr s \<Rightarrow> (case int_of_text s of Some n \<Rightarrow> Inr n | None \<Rightarrow> Inl (Not_an_int v))
   | _ \<Rightarrow> Inl (Not_an_int v))"

section \<open>One commit\<close>

type_synonym git = "string list \<Rightarrow> int \<times> string"

text \<open>\<open>Inl\<close> here is the failure code of the commit.\<close>

definition stripped_lines :: "string \<Rightarrow> string list" where
  "stripped_lines out = map strip (filter (\<lambda>l. \<not> blank l) (splitlines out))"

definition commit_files :: "git \<Rightarrow> string \<Rightarrow> string + string list" where
  "commit_files git sha =
     (case git [''show'', ''--name-only'', ''--format='', sha] of (code, out) \<Rightarrow>
        if code \<noteq> 0 then Inl ''commit_files_unreadable''
        else if stripped_lines out = [] then Inl ''no_files_changed''
        else Inr (stripped_lines out))"

definition commit_time :: "git \<Rightarrow> string \<Rightarrow> gate_error + int option" where
  "commit_time git sha =
     (case git [''show'', ''-s'', ''--format=%ct'', sha] of (code, out) \<Rightarrow>
        if code \<noteq> 0 \<or> \<not> str_isdigit (strip out) then Inr None
        else bindE (py_int (JStr (strip out))) (\<lambda>n. Inr (Some n)))"

definition commit_basics :: "git \<Rightarrow> string \<Rightarrow> int \<Rightarrow> gate_error + (string + string list \<times> int)" where
  "commit_basics git sha claimed_second =
     bindE (commit_time git sha) (\<lambda>time. case time of
        None \<Rightarrow> Inr (Inl ''commit_time_unreadable'')
      | Some committed_at \<Rightarrow>
          if committed_at \<le> claimed_second then Inr (Inl ''commit_predates_run'')
          else (case git [''show'', ''-s'', ''--format=%B'', sha] of (code, message) \<Rightarrow>
            if code \<noteq> 0 then Inr (Inl ''commit_message_unreadable'')
            else if \<not> dco_search message then Inr (Inl ''dco_trailer_missing'')
            else Inr (bindE (commit_files git sha) (\<lambda>files. Inr (files, committed_at)))))"

definition verify_commit_scope :: "string list \<Rightarrow> string list \<Rightarrow> string option" where
  "verify_commit_scope files permitted =
     (if list_ex (\<lambda>p. normalize_repo_path p = None) files then Some ''artifact_path_unsafe''
      else if list_ex (\<lambda>p. \<not> path_within p permitted) files then Some ''artifact_policy_violation''
      else None)"

section \<open>The gate\<close>

record commit_evidence =
  ce_run_id :: json
  ce_issue_id :: json
  ce_request_id :: json
  ce_commit :: string
  ce_branch :: json
  ce_worktree :: json
  ce_committed_at :: int
  ce_files :: "string list"
  ce_base_commit :: string
  ce_contributed_commits :: "string list"
  ce_contributed_files :: "string list"
  ce_policy_paths :: "string list"
  ce_verified_at :: pyfloat

text \<open>A verdict: \<open>Inl code\<close> refuses, \<open>Inr e\<close> is the evidence.\<close>

type_synonym verdict = "string + commit_evidence"

definition containment_failed :: "dict \<Rightarrow> bool" where
  "containment_failed run \<longleftrightarrow> dget run ''containment'' \<in>
     {JStr ''launcher_checkout_dirty'', JStr ''containment_snapshot_missing'', JStr ''containment_scan_error''}"

text \<open>The loop over the three correlation fields.\<close>

definition CORRELATED :: "(string \<times> string) list" where
  "CORRELATED = [(''run_id'', ''run_correlation_mismatch''), (''issue_id'', ''issue_correlation_mismatch''),
     (''request_id'', ''request_correlation_mismatch'')]"

definition correlate_field :: "dict \<Rightarrow> dict \<Rightarrow> string \<times> string \<Rightarrow> string + unit" where
  "correlate_field run envelope fc =
     (let expected = dget run (fst fc); claimed = dget envelope (fst fc) in
      if expected = JNull then Inl (fst fc @ ''_not_recorded'')
      else if claimed = JNull then Inl (snd fc)
      else if \<not> py_eq claimed expected then Inl (snd fc)
      else Inr ())"

definition claimed_commit :: "dict \<Rightarrow> string option" where
  "claimed_commit envelope = (case or_else (dget envelope ''commit'') (dget envelope ''commit_sha'') of
     JStr s \<Rightarrow> (let c = lower (strip s) in if full_sha c then Some c else None)
   | _ \<Rightarrow> None)"

definition recorded_base :: "dict \<Rightarrow> string option" where
  "recorded_base run = (case dget run ''base_commit'' of
     JStr s \<Rightarrow> (let c = lower (strip s) in if full_sha c then Some c else None)
   | _ \<Rightarrow> None)"

definition is_commit :: "git \<Rightarrow> string \<Rightarrow> bool" where
  "is_commit git sha \<longleftrightarrow> (case git [''cat-file'', ''-t'', sha] of (code, out) \<Rightarrow>
     code = 0 \<and> strip out = ''commit'')"

definition on_branch :: "git \<Rightarrow> string \<Rightarrow> string \<Rightarrow> bool" where
  "on_branch git sha branch \<longleftrightarrow>
     fst (git [''merge-base'', ''--is-ancestor'', sha, ''refs/heads/'' @ branch]) = 0"

text \<open>The approved paths: the explicit ones, else those the policy names in prose.\<close>

definition artifact_paths :: "dict \<Rightarrow> gate_error + string list" where
  "artifact_paths run = (let v = dget run ''artifact_paths'' in
     if \<not> truthy v then Inr []
     else (case v of
         JList xs \<Rightarrow> if list_all is_str xs then Inr (map text_of xs) else Inl (Bad_artifact_paths v)
       | JStr s \<Rightarrow> Inr (map (\<lambda>c. [c]) s)
       | JObj d \<Rightarrow> Inr (map fst d)
       | _ \<Rightarrow> Inl (Bad_artifact_paths v)))"

definition permitted_paths :: "runlib \<Rightarrow> dict \<Rightarrow> gate_error + (string + string list)" where
  "permitted_paths L run =
     bindE (artifact_paths run) (\<lambda>explicit.
       if explicit \<noteq> [] then Inr (Inr explicit)
       else
         (let policy = dget run ''artifact_policy'' in
          if \<not> truthy policy \<or> blank (py_str L policy) then Inr (Inl ''artifact_policy_missing'')
          else (case policy of
              JStr s \<Rightarrow> if policy_paths s = [] then Inr (Inl ''artifact_policy_unparsable'')
                        else Inr (Inr (policy_paths s))
            | _ \<Rightarrow> Inl (Policy_not_text policy))))"

text \<open>The loop over the contributed commits: the files of all, or the first failure.\<close>

fun contributed_files ::
    "git \<Rightarrow> string \<Rightarrow> string list \<Rightarrow> int \<Rightarrow> string list \<Rightarrow> string list \<Rightarrow> gate_error + (string + string list)" where
  "contributed_files git commit files claimed_second permitted [] = Inr (Inr [])"
| "contributed_files git commit files claimed_second permitted (sha # shas) =
     (if sha = commit
      then bindE (contributed_files git commit files claimed_second permitted shas) (\<lambda>rest.
        Inr (bindE rest (\<lambda>fs. Inr (files @ fs))))
      else
        bindE (commit_basics git sha claimed_second) (\<lambda>basics. case basics of
          Inl code \<Rightarrow> Inr (Inl (''contributed_'' @ code))
        | Inr (other, _) \<Rightarrow> (case verify_commit_scope other permitted of
            Some code \<Rightarrow> Inr (Inl (''contributed_'' @ code))
          | None \<Rightarrow> bindE (contributed_files git commit files claimed_second permitted shas) (\<lambda>rest.
              Inr (bindE rest (\<lambda>fs. Inr (other @ fs)))))))"

text \<open>
  The second half of the gate: everything the branch adds on top of the recorded base. The
  presented commit, its files and its time come from the first half.
\<close>

definition verify_contribution ::
    "git \<Rightarrow> pyfloat \<Rightarrow> dict \<Rightarrow> string \<Rightarrow> string \<Rightarrow> int \<Rightarrow> string list \<Rightarrow> int \<Rightarrow> string list
     \<Rightarrow> gate_error + verdict" where
  "verify_contribution git now run branch commit claimed_second files committed_at permitted =
     (case recorded_base run of
        None \<Rightarrow> Inr (Inl ''base_commit_not_recorded'')
      | Some base \<Rightarrow>
          if \<not> is_commit git base then Inr (Inl ''base_commit_not_found'')
          else if \<not> on_branch git base branch then Inr (Inl ''branch_not_from_recorded_base'')
          else (case git [''rev-list'', base @ ''..refs/heads/'' @ branch] of (code, out) \<Rightarrow>
            if code \<noteq> 0 then Inr (Inl ''contributed_range_unreadable'')
            else
              (let contributed = map lower (stripped_lines out) in
               if contributed = [] then Inr (Inl ''no_contributed_commits'')
               else if commit \<notin> set contributed then Inr (Inl ''commit_not_contributed_by_run'')
               else bindE (contributed_files git commit files claimed_second permitted contributed) (\<lambda>res.
                 case res of
                   Inl code \<Rightarrow> Inr (Inl code)
                 | Inr all \<Rightarrow> Inr (Inr \<lparr>ce_run_id = dget run ''run_id'', ce_issue_id = dget run ''issue_id'',
                     ce_request_id = dget run ''request_id'', ce_commit = commit,
                     ce_branch = dget run ''branch'', ce_worktree = dget run ''worktree'',
                     ce_committed_at = committed_at, ce_files = files, ce_base_commit = base,
                     ce_contributed_commits = contributed,
                     ce_contributed_files = sort (remdups all),
                     ce_policy_paths = permitted, ce_verified_at = now\<rparr>)))))"

definition verify_commit_correlation ::
    "runlib \<Rightarrow> git \<Rightarrow> pyfloat \<Rightarrow> dict \<Rightarrow> dict \<Rightarrow> gate_error + verdict" where
  "verify_commit_correlation L git now run envelope =
     (if containment_failed run then Inr (Inl ''containment_violation'')
      else (case forE (correlate_field run envelope) CORRELATED of
        Inl code \<Rightarrow> Inr (Inl code)
      | Inr _ \<Rightarrow> (case claimed_commit envelope of
        None \<Rightarrow> Inr (Inl ''commit_missing'')
      | Some commit \<Rightarrow>
          if dget run ''isolation'' \<noteq> JStr ''worktree'' \<or> \<not> truthy (dget run ''branch'')
            then Inr (Inl ''isolation_not_recorded'')
          else
            (let branch = py_str L (dget run ''branch'') in
             if \<not> is_commit git commit then Inr (Inl ''commit_not_found'')
             else if \<not> on_branch git commit branch then Inr (Inl ''commit_not_on_run_branch'')
             else
               bindE (if has_key run ''claimed_at'' then py_int (dget run ''claimed_at'') else Inr 0)
                 (\<lambda>claimed_second.
               bindE (commit_basics git commit claimed_second) (\<lambda>basics. case basics of
                 Inl code \<Rightarrow> Inr (Inl code)
               | Inr (files, committed_at) \<Rightarrow>
               bindE (permitted_paths L run) (\<lambda>scope. case scope of
                 Inl code \<Rightarrow> Inr (Inl code)
               | Inr permitted \<Rightarrow>
                   if list_ex (\<lambda>p. normalize_repo_path p = None) permitted
                     then Inr (Inl ''artifact_policy_unsafe_path'')
                   else (case verify_commit_scope files permitted of
                       Some code \<Rightarrow> Inr (Inl code)
                     | None \<Rightarrow> verify_contribution git now run branch commit claimed_second files
                                 committed_at permitted))))))))"

definition as_record :: "commit_evidence \<Rightarrow> dict" where
  "as_record e =
     [(''run_id'', ce_run_id e), (''issue_id'', ce_issue_id e), (''request_id'', ce_request_id e),
      (''commit'', JStr (ce_commit e)), (''branch'', ce_branch e), (''worktree'', ce_worktree e),
      (''committed_at'', JInt (ce_committed_at e)), (''files'', JList (map JStr (ce_files e))),
      (''base_commit'', JStr (ce_base_commit e)),
      (''contributed_commits'', JList (map JStr (ce_contributed_commits e))),
      (''contributed_files'', JList (map JStr (ce_contributed_files e))),
      (''policy_paths'', JList (map JStr (ce_policy_paths e))), (''verified_at'', JFlt (ce_verified_at e))]"

section \<open>Lemmas\<close>

lemma commit_basics_Inr:
  assumes "commit_basics git sha claimed = Inr (Inr (files, t))"
  shows "commit_time git sha = Inr (Some t) \<and> claimed < t \<and> commit_files git sha = Inr files \<and>
   (\<exists>message. git [''show'', ''-s'', ''--format=%B'', sha] = (0, message) \<and> dco_search message)"
proof -
  obtain x where x: "commit_time git sha = Inr (Some x)"
    using assms by (cases "commit_time git sha"; cases "projr (commit_time git sha)") (auto simp: commit_basics_def)
  obtain code message where "git [''show'', ''-s'', ''--format=%B'', sha] = (code, message)" by fastforce
  with assms show ?thesis
    by (auto simp: commit_basics_def x result_simps split: if_split_asm)
qed

lemma scope_None: "verify_commit_scope files permitted = None \<longleftrightarrow>
    (\<forall>f\<in>set files. normalize_repo_path f \<noteq> None \<and> path_within f permitted)"
  by (auto simp: verify_commit_scope_def list_ex_iff)

text \<open>What the gate knows of one contributed commit.\<close>

definition clean_commit :: "git \<Rightarrow> int \<Rightarrow> string list \<Rightarrow> string \<Rightarrow> string list \<Rightarrow> bool" where
  "clean_commit git claimed permitted sha files \<longleftrightarrow>
     (\<exists>t. commit_time git sha = Inr (Some t) \<and> claimed < t) \<and>
     (\<exists>message. git [''show'', ''-s'', ''--format=%B'', sha] = (0, message) \<and> dco_search message) \<and>
     commit_files git sha = Inr files \<and> (\<forall>f\<in>set files. path_within f permitted)"

lemma contributed_files_Inr:
  assumes "contributed_files git commit files claimed permitted shas = Inr (Inr all)"
    and "clean_commit git claimed permitted commit files"
  shows "(\<forall>sha\<in>set shas. \<exists>fs. clean_commit git claimed permitted sha fs \<and> set fs \<subseteq> set all) \<and>
    (\<forall>f\<in>set all. \<exists>sha\<in>set shas. \<exists>fs. commit_files git sha = Inr fs \<and> f \<in> set fs)"
  using assms(1)
proof (induction shas arbitrary: all)
  case (Cons sha shas)
  obtain fs rest where fs: "clean_commit git claimed permitted sha fs" "commit_files git sha = Inr fs"
    and rest: "contributed_files git commit files claimed permitted shas = Inr (Inr rest)" "all = fs @ rest"
  proof (cases "sha = commit")
    case True
    with Cons.prems assms(2) that show thesis
      by (auto simp: result_simps clean_commit_def)
  next
    case False
    obtain other t where basics: "commit_basics git sha claimed = Inr (Inr (other, t))"
      using Cons.prems False
      by (cases "commit_basics git sha claimed"; cases "projr (commit_basics git sha claimed)") auto
    from Cons.prems False have scope: "verify_commit_scope other permitted = None"
      and step: "bindE (contributed_files git commit files claimed permitted shas)
         (\<lambda>rest. Inr (bindE rest (\<lambda>fs. Inr (other @ fs)))) = (Inr (Inr all) :: gate_error + (string + string list))"
      by (auto simp: basics split: option.split_asm)
    from commit_basics_Inr [OF basics] scope
    have "clean_commit git claimed permitted sha other" "commit_files git sha = Inr other"
      by (auto simp: clean_commit_def scope_None)
    with step that show thesis by (auto simp: result_simps)
  qed
  from Cons.IH [OF rest(1)] fs rest(2) show ?case by fastforce
qed simp

lemma stripped_no_hex_space: "is_hex c \<Longrightarrow> \<not> is_space c"
  by (auto simp: is_hex_def is_space_def is_digit_def Let_def)

lemma full_sha_safe: "full_sha c \<Longrightarrow> safe_sha (JStr c) = Some c"
proof -
  assume c: "full_sha c"
  then have "list_all (\<lambda>c. \<not> is_space c) c" by (auto simp: full_sha_def list_all_iff stripped_no_hex_space)
  then have "strip c = c" by (rule strip_id)
  with c show ?thesis by (auto simp: safe_sha_def full_sha_def list_all_iff is_hex_any_def)
qed

text \<open>How evidence comes about.\<close>

lemma verify_contribution_Inr:
  assumes "verify_contribution git now run branch commit claimed files t permitted = Inr (Inr e)"
  obtains base out all where "recorded_base run = Some base" "on_branch git base branch"
    "git [''rev-list'', base @ ''..refs/heads/'' @ branch] = (0, out)"
    "commit \<in> set (map lower (stripped_lines out))"
    "contributed_files git commit files claimed permitted (map lower (stripped_lines out)) = Inr (Inr all)"
    "e = \<lparr>ce_run_id = dget run ''run_id'', ce_issue_id = dget run ''issue_id'',
       ce_request_id = dget run ''request_id'', ce_commit = commit, ce_branch = dget run ''branch'',
       ce_worktree = dget run ''worktree'', ce_committed_at = t, ce_files = files, ce_base_commit = base,
       ce_contributed_commits = map lower (stripped_lines out),
       ce_contributed_files = sort (remdups all), ce_policy_paths = permitted, ce_verified_at = now\<rparr>"
proof -
  obtain base where base: "recorded_base run = Some base"
    using assms by (cases "recorded_base run") (simp_all add: verify_contribution_def)
  obtain code out where list: "git [''rev-list'', base @ ''..refs/heads/'' @ branch] = (code, out)" by fastforce
  note list' = list [simplified]
  let ?r = "contributed_files git commit files claimed permitted (map lower (stripped_lines out))"
  have ok: "on_branch git base branch" "code = 0" "commit \<in> set (map lower (stripped_lines out))"
    using assms by (auto simp: verify_contribution_def base list' Let_def split: if_split_asm)
  have last: "bindE ?r (\<lambda>res. case res of Inl code \<Rightarrow> Inr (Inl code)
      | Inr all \<Rightarrow> Inr (Inr \<lparr>ce_run_id = dget run ''run_id'', ce_issue_id = dget run ''issue_id'',
       ce_request_id = dget run ''request_id'', ce_commit = commit, ce_branch = dget run ''branch'',
       ce_worktree = dget run ''worktree'', ce_committed_at = t, ce_files = files, ce_base_commit = base,
       ce_contributed_commits = map lower (stripped_lines out),
       ce_contributed_files = sort (remdups all), ce_policy_paths = permitted, ce_verified_at = now\<rparr>)) = Inr (Inr e)"
    using assms ok by (auto simp: verify_contribution_def base list' Let_def split: if_split_asm)
  then obtain all where "?r = Inr (Inr all)" by (cases ?r; cases "projr ?r") auto
  with last show thesis using that [OF base ok(1) _ ok(3)] list ok(2) by simp
qed

lemma verify_Inr:
  assumes "verify_commit_correlation L git now run envelope = Inr (Inr e)"
  obtains commit claimed files t permitted where
    "\<not> containment_failed run" "forE (correlate_field run envelope) CORRELATED = Inr ()"
    "claimed_commit envelope = Some commit" "dget run ''isolation'' = JStr ''worktree''"
    "is_commit git commit" "on_branch git commit (py_str L (dget run ''branch''))"
    "(if has_key run ''claimed_at'' then py_int (dget run ''claimed_at'') else Inr 0) = Inr claimed"
    "commit_basics git commit claimed = Inr (Inr (files, t))"
    "verify_commit_scope files permitted = None"
    "verify_contribution git now run (py_str L (dget run ''branch'')) commit claimed files t permitted = Inr (Inr e)"
    "permitted_paths L run = Inr (Inr permitted)"
proof -
  have "\<not> containment_failed run" using assms by (auto simp: verify_commit_correlation_def)
  moreover have fields: "forE (correlate_field run envelope) CORRELATED = Inr ()"
    using assms by (cases "forE (correlate_field run envelope) CORRELATED")
      (auto simp: verify_commit_correlation_def split: if_splits)
  moreover obtain commit where commit: "claimed_commit envelope = Some commit"
    using assms fields by (cases "claimed_commit envelope") (auto simp: verify_commit_correlation_def split: if_splits)
  moreover have branch: "dget run ''isolation'' = JStr ''worktree''" "is_commit git commit"
      "on_branch git commit (py_str L (dget run ''branch''))"
    using assms fields commit by (auto simp: verify_commit_correlation_def Let_def split: if_split_asm)
  moreover obtain claimed where claimed:
      "(if has_key run ''claimed_at'' then py_int (dget run ''claimed_at'') else Inr 0) = Inr claimed"
    using assms fields commit by (auto simp: verify_commit_correlation_def Let_def bindE_Inr split: if_split_asm)
  moreover obtain files t where basics: "commit_basics git commit claimed = Inr (Inr (files, t))"
    using assms fields commit claimed
    by (cases "commit_basics git commit claimed"; cases "projr (commit_basics git commit claimed)")
      (auto simp: verify_commit_correlation_def Let_def split: if_split_asm)
  moreover obtain permitted where scope: "permitted_paths L run = Inr (Inr permitted)"
    using assms fields commit claimed basics
    by (cases "permitted_paths L run"; cases "projr (permitted_paths L run)")
      (auto simp: verify_commit_correlation_def Let_def split: if_split_asm)
  moreover from assms fields commit claimed basics scope
  have "verify_commit_scope files permitted = None"
      "verify_contribution git now run (py_str L (dget run ''branch'')) commit claimed files t permitted = Inr (Inr e)"
    by (auto simp: verify_commit_correlation_def Let_def split: if_split_asm option.split_asm)
  ultimately show thesis using that by blast
qed

text \<open>Everything a piece of evidence stands for.\<close>

lemma evidence_facts:
  assumes "verify_commit_correlation L git now run envelope = Inr (Inr e)"
  obtains claimed where
    "(if has_key run ''claimed_at'' then py_int (dget run ''claimed_at'') else Inr 0) = Inr claimed"
    "ce_commit e \<in> set (ce_contributed_commits e)"
    "full_sha (ce_commit e)" "full_sha (ce_base_commit e)"
    "\<forall>sha\<in>set (ce_contributed_commits e). \<exists>files. clean_commit git claimed (ce_policy_paths e) sha files \<and>
       set files \<subseteq> set (ce_contributed_files e)"
    "\<forall>f\<in>set (ce_contributed_files e). \<exists>sha\<in>set (ce_contributed_commits e). \<exists>files.
       commit_files git sha = Inr files \<and> f \<in> set files"
    "fst (git [''rev-list'', ce_base_commit e @ ''..refs/heads/'' @ py_str L (dget run ''branch'')]) = 0"
    "ce_contributed_commits e = map lower (stripped_lines (snd
       (git [''rev-list'', ce_base_commit e @ ''..refs/heads/'' @ py_str L (dget run ''branch'')])))"
    "\<not> containment_failed run" "forE (correlate_field run envelope) CORRELATED = Inr ()"
    "ce_run_id e = dget run ''run_id''" "ce_issue_id e = dget run ''issue_id''"
    "ce_worktree e = dget run ''worktree''" "ce_branch e = dget run ''branch''"
proof -
  obtain commit claimed files t permitted where
    pre: "\<not> containment_failed run" "forE (correlate_field run envelope) CORRELATED = Inr ()"
      "claimed_commit envelope = Some commit"
    and time: "(if has_key run ''claimed_at'' then py_int (dget run ''claimed_at'') else Inr 0) = Inr claimed"
    and basics: "commit_basics git commit claimed = Inr (Inr (files, t))"
    and scope: "verify_commit_scope files permitted = None"
    and rest: "verify_contribution git now run (py_str L (dget run ''branch'')) commit claimed files t permitted = Inr (Inr e)"
    by (rule verify_Inr [OF assms])
  obtain base out all where base: "recorded_base run = Some base"
    and out: "git [''rev-list'', base @ ''..refs/heads/'' @ py_str L (dget run ''branch'')] = (0, out)"
      "commit \<in> set (map lower (stripped_lines out))"
    and loop: "contributed_files git commit files claimed permitted (map lower (stripped_lines out)) = Inr (Inr all)"
    and e: "e = \<lparr>ce_run_id = dget run ''run_id'', ce_issue_id = dget run ''issue_id'',
       ce_request_id = dget run ''request_id'', ce_commit = commit, ce_branch = dget run ''branch'',
       ce_worktree = dget run ''worktree'', ce_committed_at = t, ce_files = files, ce_base_commit = base,
       ce_contributed_commits = map lower (stripped_lines out),
       ce_contributed_files = sort (remdups all), ce_policy_paths = permitted, ce_verified_at = now\<rparr>"
    by (rule verify_contribution_Inr [OF rest])
  have "clean_commit git claimed permitted commit files"
    using commit_basics_Inr [OF basics] scope by (auto simp: clean_commit_def scope_None)
  note range = contributed_files_Inr [OF loop this]
  have "full_sha commit" "full_sha base"
    using pre(3) base by (auto simp: claimed_commit_def recorded_base_def Let_def split: json.split_asm if_split_asm)
  with pre time conjunct1 [OF range] conjunct2 [OF range] out(2) show thesis
    by (intro that) (simp_all add: e out(1) [simplified])
qed

text \<open>Where the evidence has its commit, its base and its paths from: the envelope names the commit, the Run's record the base
  and the approved paths, as a list of paths or else in the prose of its artifact policy.\<close>

lemma permitted_paths_Inr:
  assumes "permitted_paths L run = Inr (Inr ps)"
  shows "ps \<noteq> [] \<and> (dget run ''artifact_paths'' = JList (map JStr ps) \<or>
    (\<exists>s. dget run ''artifact_paths'' = JStr s \<and> ps = map (\<lambda>c. [c]) s) \<or>
    (\<exists>d. dget run ''artifact_paths'' = JObj d \<and> ps = map fst d) \<or>
    \<not> truthy (dget run ''artifact_paths'') \<and> (\<exists>s. dget run ''artifact_policy'' = JStr s \<and> ps = policy_paths s))"
proof -
  have strs: "list_all is_str xs \<Longrightarrow> map (JStr \<circ> text_of) xs = xs" for xs
    by (induction xs) (auto simp: text_of_def split: json.splits)
  show ?thesis
  proof (cases "dget run ''artifact_paths''")
    case (JList xs)
    then show ?thesis using assms strs [of xs]
      by (auto simp: permitted_paths_def artifact_paths_def Let_def result_simps split: if_splits json.splits)
  qed (use assms in \<open>auto simp: permitted_paths_def artifact_paths_def Let_def result_simps split: if_splits json.splits\<close>)
qed

lemma evidence_sources:
  assumes "verify_commit_correlation L git now run envelope = Inr (Inr e)"
  shows "claimed_commit envelope = Some (ce_commit e)" "recorded_base run = Some (ce_base_commit e)"
    "permitted_paths L run = Inr (Inr (ce_policy_paths e))" "on_branch git (ce_base_commit e) (py_str L (dget run ''branch''))"
proof -
  obtain commit claimed files t permitted where pre: "claimed_commit envelope = Some commit"
    and rest: "verify_contribution git now run (py_str L (dget run ''branch'')) commit claimed files t permitted = Inr (Inr e)"
    and scope: "permitted_paths L run = Inr (Inr permitted)"
    by (rule verify_Inr [OF assms])
  obtain base where "recorded_base run = Some base" "on_branch git base (py_str L (dget run ''branch''))"
    "ce_base_commit e = base" "ce_commit e = commit" "ce_policy_paths e = permitted"
    by (rule verify_contribution_Inr [OF rest]) simp
  then show "claimed_commit envelope = Some (ce_commit e)" "recorded_base run = Some (ce_base_commit e)"
    "permitted_paths L run = Inr (Inr (ce_policy_paths e))" "on_branch git (ce_base_commit e) (py_str L (dget run ''branch''))"
    using pre scope by simp_all
qed

section \<open>Guarantees\<close>

text \<open>C40: No commit hides behind another. When the gate accepts a Run, the commit the envelope presents is one of
  the commits that the Run's branch adds to the base commit on the Run's record, which is on that branch, and every one of
  those commits was made strictly after the Run was claimed, carries a sign-off, changes at least one file and only files
  inside the paths approved for the Run: the artifact paths on its record, or without any the paths its artifact policy
  names. The recorded files are exactly the files of those commits, the Run's containment scan did not fail, and the envelope
  names this Run, issue and request.\<close>

theorem gate_accepts_only_clean_ranges:
  assumes "verify_commit_correlation L git now run envelope = Inr (Inr e)"
  shows "\<exists>claimed base presented. (if has_key run ''claimed_at'' then py_int (dget run ''claimed_at'') else Inr 0) = Inr claimed \<and>
    dget run ''base_commit'' = JStr base \<and> ce_base_commit e = lower (strip base) \<and>
    fst (git [''merge-base'', ''--is-ancestor'', lower (strip base), ''refs/heads/'' @ py_str L (dget run ''branch'')]) = 0 \<and>
    (dget envelope ''commit'' = JStr presented \<or> \<not> truthy (dget envelope ''commit'') \<and> dget envelope ''commit_sha'' = JStr presented) \<and>
    ce_commit e = lower (strip presented) \<and>
    ce_policy_paths e \<noteq> [] \<and> (dget run ''artifact_paths'' = JList (map JStr (ce_policy_paths e)) \<or>
      (\<exists>s. dget run ''artifact_paths'' = JStr s \<and> ce_policy_paths e = map (\<lambda>c. [c]) s) \<or>
      (\<exists>d. dget run ''artifact_paths'' = JObj d \<and> ce_policy_paths e = map fst d) \<or>
      \<not> truthy (dget run ''artifact_paths'') \<and> (\<exists>s. dget run ''artifact_policy'' = JStr s \<and> ce_policy_paths e = policy_paths s)) \<and>
    ce_contributed_commits e = map lower (stripped_lines (snd
      (git [''rev-list'', lower (strip base) @ ''..refs/heads/'' @ py_str L (dget run ''branch'')]))) \<and>
    ce_commit e \<in> set (ce_contributed_commits e) \<and>
    (\<forall>sha\<in>set (ce_contributed_commits e). \<exists>t message files.
       commit_time git sha = Inr (Some t) \<and> claimed < t \<and>
       git [''show'', ''-s'', ''--format=%B'', sha] = (0, message) \<and> dco_search message \<and>
       commit_files git sha = Inr files \<and> files \<noteq> [] \<and>
       set files \<subseteq> set (ce_contributed_files e) \<and> (\<forall>f\<in>set files. path_within f (ce_policy_paths e))) \<and>
    (\<forall>f\<in>set (ce_contributed_files e). \<exists>sha\<in>set (ce_contributed_commits e). \<exists>files.
       commit_files git sha = Inr files \<and> f \<in> set files) \<and>
    \<not> containment_failed run \<and>
    (\<forall>k\<in>{''run_id'', ''issue_id'', ''request_id''}. dget run k \<noteq> JNull \<and> py_eq (dget envelope k) (dget run k))"
proof -
  have "correlate_field run envelope (k, c) = Inr () \<Longrightarrow> dget run k \<noteq> JNull \<and> py_eq (dget envelope k) (dget run k)" for k c
    by (auto simp: correlate_field_def Let_def split: if_split_asm)
  then have named: "forE (correlate_field run envelope) CORRELATED = Inr () \<Longrightarrow>
    \<forall>k\<in>{''run_id'', ''issue_id'', ''request_id''}. dget run k \<noteq> JNull \<and> py_eq (dget envelope k) (dget run k)"
    by (auto simp: CORRELATED_def bindE_Inr)
  have "commit_files git sha = Inr files \<Longrightarrow> files \<noteq> []" for sha files
    by (auto simp: commit_files_def split: prod.split_asm if_split_asm)
  then have clean: "clean_commit git claimed permitted sha files \<Longrightarrow> \<exists>t message.
      commit_time git sha = Inr (Some t) \<and> claimed < t \<and>
      git [''show'', ''-s'', ''--format=%B'', sha] = (0, message) \<and> dco_search message \<and>
      commit_files git sha = Inr files \<and> files \<noteq> [] \<and> (\<forall>f\<in>set files. path_within f permitted)"
      for claimed permitted sha files
    by (auto simp: clean_commit_def)
  note sources = evidence_sources [OF assms]
  obtain base where base: "dget run ''base_commit'' = JStr base" "ce_base_commit e = lower (strip base)"
    using sources(2) by (auto simp: recorded_base_def Let_def split: json.split_asm if_split_asm)
  obtain presented where presented: "or_else (dget envelope ''commit'') (dget envelope ''commit_sha'') = JStr presented"
    "ce_commit e = lower (strip presented)"
    using sources(1) by (auto simp: claimed_commit_def Let_def split: json.split_asm if_split_asm)
  have given: "dget envelope ''commit'' = JStr presented \<or> \<not> truthy (dget envelope ''commit'') \<and> dget envelope ''commit_sha'' = JStr presented"
    using presented(1) by (auto simp: or_else_def split: if_split_asm)
  have ancestor: "fst (git [''merge-base'', ''--is-ancestor'', lower (strip base), ''refs/heads/'' @ py_str L (dget run ''branch'')]) = 0"
    using sources(4) by (simp add: on_branch_def base(2))
  note paths = permitted_paths_Inr [OF sources(3)]
  obtain claimed where c: "(if has_key run ''claimed_at'' then py_int (dget run ''claimed_at'') else Inr 0) = Inr claimed"
    and member: "ce_commit e \<in> set (ce_contributed_commits e)"
    and range: "\<forall>sha\<in>set (ce_contributed_commits e). \<exists>files.
      clean_commit git claimed (ce_policy_paths e) sha files \<and> set files \<subseteq> set (ce_contributed_files e)"
    and listed: "\<forall>f\<in>set (ce_contributed_files e). \<exists>sha\<in>set (ce_contributed_commits e). \<exists>files.
       commit_files git sha = Inr files \<and> f \<in> set files"
    and revs: "ce_contributed_commits e = map lower (stripped_lines (snd
       (git [''rev-list'', ce_base_commit e @ ''..refs/heads/'' @ py_str L (dget run ''branch'')])))"
    and scan: "\<not> containment_failed run" and fields: "forE (correlate_field run envelope) CORRELATED = Inr ()"
    by (rule evidence_facts [OF assms])
  have each: "\<forall>sha\<in>set (ce_contributed_commits e). \<exists>t message files.
       commit_time git sha = Inr (Some t) \<and> claimed < t \<and>
       git [''show'', ''-s'', ''--format=%B'', sha] = (0, message) \<and> dco_search message \<and>
       commit_files git sha = Inr files \<and> files \<noteq> [] \<and>
       set files \<subseteq> set (ce_contributed_files e) \<and> (\<forall>f\<in>set files. path_within f (ce_policy_paths e))"
    using range clean by blast
  show ?thesis
    by (intro exI [of _ claimed] exI [of _ base] exI [of _ presented] conjI c base ancestor given presented(2) conjunct1 [OF paths]
        conjunct2 [OF paths] revs [unfolded base(2)] member each listed scan named [OF fields])
qed

text \<open>Evidence the gate accepted can be reviewed, when it is written onto the Run's record with the
  verdict, and the worktree and the branch are still there.\<close>

lemma evidence_reviewable:
  assumes "verify_commit_correlation L git now run envelope = Inr (Inr e)"
    and "dispatcher_run L store issue_ref run_id = Some record"
    and "dget record ''commit_evidence'' = JObj (as_record e)"
    and "dget (get_dict record ''result'') ''evidence_gate'' = JStr ''commit_correlated''"
    and "safe_reference (dget run ''run_id'') = Some run_id" and "safe_reference (dget run ''issue_id'') = Some issue_ref"
    and "dget run ''worktree'' = JStr worktree" and "\<not> blank worktree"
    and "safe_reference (dget run ''branch'') = Some branch"
    and "fst (git_factory worktree [''rev-parse'', ''--is-inside-work-tree'']) = 0"
    and "on_branch (git_factory worktree) (ce_commit e) branch"
  shows "\<exists>a. run_diff_projection L git_factory issue_ref run_id store = Inr (Some a) \<and> da_available a \<and>
    da_commit a = Some (ce_commit e) \<and>
    (\<forall>p\<in>set (ce_contributed_files e). \<exists>f\<in>set (da_files a). df_path f = p \<or> normalize_repo_path p = Some (df_path f))"
proof -
  obtain claimed where sha: "full_sha (ce_commit e)" "full_sha (ce_base_commit e)"
    and member: "ce_commit e \<in> set (ce_contributed_commits e)"
    and clean: "\<forall>sha\<in>set (ce_contributed_commits e). \<exists>files. clean_commit git claimed (ce_policy_paths e) sha files \<and>
       set files \<subseteq> set (ce_contributed_files e)"
    and listed: "\<forall>f\<in>set (ce_contributed_files e). \<exists>sha\<in>set (ce_contributed_commits e). \<exists>files.
       commit_files git sha = Inr files \<and> f \<in> set files"
    and same: "ce_run_id e = dget run ''run_id''" "ce_issue_id e = dget run ''issue_id''"
      "ce_worktree e = dget run ''worktree''" "ce_branch e = dget run ''branch''"
    by (rule evidence_facts [OF assms(1)])
  obtain files where "commit_files git (ce_commit e) = Inr files" "set files \<subseteq> set (ce_contributed_files e)"
    using clean member by (auto simp: clean_commit_def)
  then have ne: "ce_contributed_files e \<noteq> []"
    by (auto simp: commit_files_def split: prod.split_asm if_split_asm)
  have fields: "dget (as_record e) ''commit'' = JStr (ce_commit e)"
    "dget (as_record e) ''base_commit'' = JStr (ce_base_commit e)"
    "dget (as_record e) ''branch'' = ce_branch e" "dget (as_record e) ''worktree'' = ce_worktree e"
    "dget (as_record e) ''run_id'' = ce_run_id e" "dget (as_record e) ''issue_id'' = ce_issue_id e"
    "dget (as_record e) ''policy_paths'' = JList (map JStr (ce_policy_paths e))"
    "dget (as_record e) ''contributed_files'' = JList (map JStr (ce_contributed_files e))"
    "dget (as_record e) ''contributed_commits'' = JList (map JStr (ce_contributed_commits e))"
    by (simp_all add: as_record_def)
  have it: "iterate (JList (map JStr xs)) = Inr (map JStr xs)" "str_items (map JStr xs) = xs" for xs
    by (induction xs) (auto simp: iterate_def str_items_def text_of_def)
  let ?files = "reviewed_files (git_factory worktree) (ce_base_commit e) (ce_commit e) (ce_policy_paths e)
    (filter (\<lambda>p. \<not> blank p) (ce_contributed_files e))"
  have own: "safe_reference (dget (as_record e) ''run_id'') = Some run_id"
    and same_issue: "safe_reference (dget (as_record e) ''issue_id'') = Some issue_ref"
    using assms(5,6) by (simp_all only: fields same)
  have shas: "safe_sha (dget (as_record e) ''commit'') = Some (ce_commit e)"
    "safe_sha (dget (as_record e) ''base_commit'') = Some (ce_base_commit e)"
    using sha by (simp_all only: fields full_sha_safe)
  have on: "safe_reference (dget (as_record e) ''branch'') = Some branch"
    "dget (as_record e) ''worktree'' = JStr worktree"
    using assms(7,9) by (simp_all only: fields same)
  have at_branch: "fst (git_factory worktree [''merge-base'', ''--is-ancestor'', ce_commit e, ''refs/heads/'' @ branch]) = 0"
    using assms(11) by (simp only: on_branch_def)
  have lists: "iterate (dget (as_record e) ''policy_paths'') = Inr (map JStr (ce_policy_paths e))"
    "iterate (or_else (dget (as_record e) ''contributed_files'') (dget (as_record e) ''files'')) =
       Inr (map JStr (ce_contributed_files e))"
    "iterate (dget (as_record e) ''contributed_commits'') = Inr (map JStr (ce_contributed_commits e))"
    using ne by (simp_all add: fields it or_else_def)
  have "run_diff_projection L git_factory issue_ref run_id store =
    Inr (Some \<lparr>da_available = True, da_reason = None, da_base_commit = Some (ce_base_commit e),
      da_commit = Some (ce_commit e), da_branch = Some branch,
      da_contributed_commits = List.map_filter safe_sha (map JStr (ce_contributed_commits e)),
      da_files = ?files\<rparr>)" (is "_ = Inr (Some ?a)")
    using run_diff_answers [where git_factory = git_factory, OF assms(2-4) own same_issue shas on assms(8,10) at_branch lists] by (simp only: it)
  note answer = this
  have "\<not> blank p" if p: "p \<in> set (ce_contributed_files e)" for p
  proof -
    obtain sha files where "sha \<in> set (ce_contributed_commits e)" "commit_files git sha = Inr files" "p \<in> set files"
      using listed p by blast
    moreover from this(1) clean obtain fs where "clean_commit git claimed (ce_policy_paths e) sha fs" by blast
    ultimately have "path_within p (ce_policy_paths e)" by (simp add: clean_commit_def)
    then show ?thesis by (rule path_within_not_blank)
  qed
  then have "\<exists>f\<in>set ?files. df_path f = p \<or> normalize_repo_path p = Some (df_path f)"
    if "p \<in> set (ce_contributed_files e)" for p
    using reviewed_files_account [of p] that by simp
  with answer show ?thesis by (intro exI [of _ ?a]) simp
qed

section \<open>What the gate cannot see\<close>

lemma commit_files_blind:
  assumes "fst (git' [''show'', ''--name-only'', ''--format='', sha]) = fst (git [''show'', ''--name-only'', ''--format='', sha])"
    and "stripped_lines (snd (git' [''show'', ''--name-only'', ''--format='', sha])) =
      stripped_lines (snd (git [''show'', ''--name-only'', ''--format='', sha]))"
  shows "commit_files git' sha = commit_files git sha"
  using assms by (simp add: commit_files_def split_beta)

text \<open>The gate is blind to white space around file names. When two repositories answer alike
  except that the file lists of commits differ in the white space around the names, the gate gives
  the same verdict: a commit of a file whose name starts with a blank is judged, and accepted, as
  if it were the file without the blank that the policy permits.\<close>

theorem gate_blind_to_spaces:
  assumes "\<And>args. take 2 args \<noteq> [''show'', ''--name-only''] \<Longrightarrow> git' args = git args"
    and "\<And>sha. fst (git' [''show'', ''--name-only'', ''--format='', sha]) = fst (git [''show'', ''--name-only'', ''--format='', sha])"
    and "\<And>sha. stripped_lines (snd (git' [''show'', ''--name-only'', ''--format='', sha])) =
      stripped_lines (snd (git [''show'', ''--name-only'', ''--format='', sha]))"
  shows "verify_commit_correlation L git' now run envelope = verify_commit_correlation L git now run envelope"
proof -
  have files: "commit_files git' = commit_files git"
    by (rule ext) (rule commit_files_blind [where git' = git' and git = git, OF assms(2,3)])
  have same: "git' [''show'', ''-s'', x, sha] = git [''show'', ''-s'', x, sha]"
    "git' (''cat-file'' # xs) = git (''cat-file'' # xs)" "git' (''merge-base'' # xs) = git (''merge-base'' # xs)"
    "git' (''rev-list'' # xs) = git (''rev-list'' # xs)" for x sha xs
    by (simp_all add: assms(1))
  have basics: "commit_basics git' = commit_basics git"
    by (intro ext) (unfold commit_basics_def commit_time_def same files, rule refl)
  have loop: "contributed_files git' c fs t ps shas = contributed_files git c fs t ps shas" for c fs t ps shas
  proof (induction shas)
    case (Cons sha shas)
    show ?case by (simp only: contributed_files.simps basics Cons)
  qed simp
  have rest: "is_commit git' = is_commit git" "on_branch git' = on_branch git"
    by (intro ext, simp add: is_commit_def on_branch_def same)+
  have "verify_contribution git' = verify_contribution git"
    by (intro ext) (unfold verify_contribution_def loop rest same, rule refl)
  note contribution = this
  show ?thesis unfolding verify_commit_correlation_def basics rest contribution by (rule refl)
qed

section \<open>Witnesses\<close>

definition sample_sha :: string where
  "sample_sha = replicate 40 (CHR ''a'')"

definition sample_base :: string where
  "sample_base = replicate 40 (CHR ''b'')"

text \<open>A repository with one commit on top of the base; the name of its file comes with \<open>pad\<close>.\<close>

definition sample_repo :: "string \<Rightarrow> git" where
  "sample_repo pad args = (0,
     if take 2 args = [''show'', ''--name-only''] then pad @ ''d/a''
     else if hd args = ''cat-file'' then ''commit''
     else if hd args = ''rev-list'' then sample_sha
     else if hd (drop 2 args) = ''--format=%ct'' then ''11''
     else ''Signed-off-by: A <a@b>'')"

definition sample_run :: dict where
  "sample_run = [(''run_id'', JStr ''r1''), (''issue_id'', JStr ''i''), (''request_id'', JStr ''q''),
     (''isolation'', JStr ''worktree''), (''branch'', JStr ''work''), (''worktree'', JStr ''w''),
     (''claimed_at'', JInt 10), (''base_commit'', JStr sample_base), (''artifact_paths'', JList [JStr ''d''])]"

definition sample_envelope :: dict where
  "sample_envelope = [(''run_id'', JStr ''r1''), (''issue_id'', JStr ''i''), (''request_id'', JStr ''q''),
     (''commit'', JStr sample_sha)]"

definition sample_accepted :: commit_evidence where
  "sample_accepted = \<lparr>ce_run_id = JStr ''r1'', ce_issue_id = JStr ''i'', ce_request_id = JStr ''q'',
     ce_commit = sample_sha, ce_branch = JStr ''work'', ce_worktree = JStr ''w'', ce_committed_at = 11,
     ce_files = [''d/a''], ce_base_commit = sample_base, ce_contributed_commits = [sample_sha],
     ce_contributed_files = [''d/a''], ce_policy_paths = [''d''], ce_verified_at = Fin 0\<rparr>"

lemma sample_shas: "full_sha sample_sha" "full_sha sample_base" "strip sample_sha = sample_sha"
    "strip sample_base = sample_base" "lower sample_sha = sample_sha" "lower sample_base = sample_base"
    "splitlines sample_sha = [sample_sha]" "\<not> blank sample_sha"
  by (simp_all add: sample_sha_def sample_base_def full_sha_def is_hex_def is_digit_def strip_def is_space_def
      lower_def lower_char_def splitlines_def line_break_def blank_def numeral_eq_Suc)

lemma sample_repo_answers:
  "is_commit (sample_repo pad) sha" "on_branch (sample_repo pad) sha branch"
  "commit_time (sample_repo pad) sha = Inr (Some 11)" "dco_search ''Signed-off-by: A <a@b>''"
  "commit_files (sample_repo []) sha = Inr [''d/a'']"
  by (simp_all add: is_commit_def on_branch_def commit_time_def sample_repo_def strip_def is_space_def
      str_isdigit_def digit_like_def is_digit_def py_int_def int_of_text_def dco_search_def signed_here_def
      startswith_def mail_here_def mail_char_def host_char_def line_ends_def commit_files_def
      stripped_lines_def splitlines_def line_break_def blank_def)

lemma sample_basics: "commit_basics (sample_repo []) sha 10 = Inr (Inr ([''d/a''], 11))"
  by (simp add: commit_basics_def sample_repo_answers) (simp add: sample_repo_def sample_repo_answers(4,5))

lemma sample_contribution:
  "verify_contribution (sample_repo []) (Fin 0) sample_run ''work'' sample_sha 10 [''d/a''] 11 [''d''] =
     Inr (Inr sample_accepted)"
proof -
  have "recorded_base sample_run = Some sample_base"
    by (simp add: recorded_base_def sample_run_def sample_shas)
  moreover have "sample_repo [] (''rev-list'' # xs) = (0, sample_sha)" for xs by (simp add: sample_repo_def)
  ultimately show ?thesis
    by (simp add: verify_contribution_def sample_repo_answers stripped_lines_def sample_shas sample_accepted_def)
      (simp add: sample_run_def)
qed

lemma sample_verified:
  "verify_commit_correlation sample_runlib (sample_repo []) (Fin 0) sample_run sample_envelope =
     Inr (Inr sample_accepted)"
proof -
  have "\<not> containment_failed sample_run" by (simp add: containment_failed_def sample_run_def)
  moreover have "forE (correlate_field sample_run sample_envelope) CORRELATED = Inr ()"
    by (simp add: CORRELATED_def correlate_field_def sample_run_def sample_envelope_def)
  moreover have "claimed_commit sample_envelope = Some sample_sha"
  proof -
    have "sample_sha \<noteq> []" by (simp add: sample_sha_def)
    then show ?thesis by (simp add: claimed_commit_def sample_envelope_def or_else_def sample_shas)
  qed
  moreover have "permitted_paths sample_runlib sample_run = Inr (Inr [''d''])"
    by (simp add: permitted_paths_def artifact_paths_def sample_run_def text_of_def)
  moreover have "verify_commit_scope [''d/a''] [''d''] = None"
    by (simp add: verify_commit_scope_def sample_paths)
  moreover have "dget sample_run ''isolation'' = JStr ''worktree''" "dget sample_run ''branch'' = JStr ''work''"
      "dget sample_run ''claimed_at'' = JInt 10" "has_key sample_run ''claimed_at''"
    by (simp_all add: sample_run_def has_key_def dict_keys_def)
  ultimately show ?thesis
    by (simp add: verify_commit_correlation_def sample_repo_answers sample_basics sample_contribution
        py_str_def py_int_def sample_paths)
qed

theorem gate_accepts_only_clean_ranges_witness:
  "ce_commit sample_accepted \<in> set (ce_contributed_commits sample_accepted) \<and>
   path_within ''d/a'' (ce_policy_paths sample_accepted)"
  using gate_accepts_only_clean_ranges [OF sample_verified]
  by (auto simp: sample_accepted_def sample_repo_answers)

theorem gate_blind_to_spaces_witness:
  "verify_commit_correlation sample_runlib (sample_repo '' '') (Fin 0) sample_run sample_envelope =
     Inr (Inr sample_accepted) \<and>
   snd (sample_repo '' '' [''show'', ''--name-only'', ''--format='', sample_sha]) = '' d/a''"
  using gate_blind_to_spaces [of "sample_repo '' ''" "sample_repo []" sample_runlib "Fin 0" sample_run sample_envelope]
  by (simp add: sample_verified sample_repo_def stripped_lines_def splitlines_def line_break_def strip_def
      is_space_def blank_def)

end
