(* ===== verification/Evidence_Port.thy ===== *)
theory Evidence_Port
  imports Commit_Gate
begin

text \<open>
  The evidence gate of read-only Runs, \<open>scripts/evidence_port.py\<close>: the Run's structured report
  is its evidence. The report and the digest of its observation travel in the result envelope; the
  gate recomputes the digest. As in the commit gate the Run is the mapping of its attributes, and
  a refusal is its stable code.
\<close>

definition READONLY_REPORT_VERSION :: int where
  "READONLY_REPORT_VERSION = 1"

definition READONLY_FAILURE :: string where
  "READONLY_FAILURE = ''readonly_report_unverifiable''"

definition EVIDENCE_GATE_READONLY :: string where
  "EVIDENCE_GATE_READONLY = ''readonly_report_correlated''"

definition READONLY_GATE_FAILED :: string where
  "READONLY_GATE_FAILED = ''readonly_report_failed''"

record readonly_evidence =
  re_run_id :: json
  re_issue_id :: json
  re_request_id :: json
  re_report_version :: json
  re_observed_digest :: string
  re_verified_at :: pyfloat

definition readonly_record :: "readonly_evidence \<Rightarrow> dict" where
  "readonly_record e =
     [(''run_id'', re_run_id e), (''issue_id'', re_issue_id e), (''request_id'', re_request_id e),
      (''report_version'', re_report_version e), (''observed_digest'', JStr (re_observed_digest e)),
      (''verified_at'', JFlt (re_verified_at e))]"

text \<open>Every JSON value can be serialized, so only a missing observation has no digest.\<close>

definition observed_digest :: "hostlib \<Rightarrow> json \<Rightarrow> string option" where
  "observed_digest H observation =
     (if observation = JNull then None else Some (sha256 H (dumps H True observation)))"

definition verify_readonly_report :: "hostlib \<Rightarrow> pyfloat \<Rightarrow> dict \<Rightarrow> dict \<Rightarrow> string + readonly_evidence" where
  "verify_readonly_report H now run envelope =
     (case forE (correlate_field run envelope) CORRELATED of
        Inl code \<Rightarrow> Inl code
      | Inr _ \<Rightarrow>
          if dget envelope ''report_state'' \<noteq> JStr ''completed'' then Inl READONLY_FAILURE
          else (case dget envelope ''report_payload'' of
            JObj payload \<Rightarrow>
              (let version = (if has_key payload ''report_version'' then dget payload ''report_version''
                              else JInt READONLY_REPORT_VERSION);
                   observation = dget payload ''observed'' in
               if \<not> py_eq version (JInt READONLY_REPORT_VERSION) then Inl READONLY_FAILURE
               else if dget payload ''completed'' \<noteq> JBool True then Inl READONLY_FAILURE
               else if dget payload ''failed'' = JBool True then Inl READONLY_FAILURE
               else if \<not> is_obj observation \<or> \<not> truthy observation then Inl READONLY_FAILURE
               else (case observed_digest H observation of
                   None \<Rightarrow> Inl READONLY_FAILURE
                 | Some digest \<Rightarrow>
                     if dget envelope ''observed_digest'' \<noteq> JStr digest then Inl READONLY_FAILURE
                     else Inr \<lparr>re_run_id = dget run ''run_id'', re_issue_id = dget run ''issue_id'',
                       re_request_id = dget run ''request_id'', re_report_version = version,
                       re_observed_digest = digest, re_verified_at = now\<rparr>))
          | _ \<Rightarrow> Inl READONLY_FAILURE))"

lemma verify_readonly_Inr:
  assumes "verify_readonly_report H now run envelope = Inr e"
  shows "forE (correlate_field run envelope) CORRELATED = Inr () \<and>
    (\<exists>payload. dget envelope ''report_payload'' = JObj payload \<and> dget payload ''completed'' = JBool True \<and>
       dget payload ''failed'' \<noteq> JBool True \<and> is_obj (dget payload ''observed'') \<and> truthy (dget payload ''observed'') \<and>
       re_observed_digest e = sha256 H (dumps H True (dget payload ''observed'')) \<and>
       dget envelope ''observed_digest'' = JStr (re_observed_digest e))"
proof -
  have fields: "forE (correlate_field run envelope) CORRELATED = Inr ()"
    using assms by (cases "forE (correlate_field run envelope) CORRELATED") (auto simp: verify_readonly_report_def)
  obtain payload where "dget envelope ''report_payload'' = JObj payload"
    using assms fields
    by (cases "dget envelope ''report_payload''") (auto simp: verify_readonly_report_def split: if_split_asm)
  with assms fields show ?thesis
    by (auto simp: verify_readonly_report_def Let_def observed_digest_def split: if_split_asm)
qed

end
