(* ===== verification/Dispatcher.thy ===== *)
theory Dispatcher
  imports Evidence_Port Machines
begin

text \<open>
  The dispatcher of \<open>scripts/dispatcher.py\<close>: the registry of Runs, their claim, children,
  heartbeat, settlement through the evidence gates, expiry sweep and the synchronisation with
  GitHub. An operation takes what the outside world answers during the call (labels, whether a
  label swap or a comment goes through, the clock, read once per call) and returns its result or
  the exception, and the state left behind; what it did outside is logged. The callbacks the
  launcher injects are fields of \<open>disp_config\<close>. The registry lock makes each registry update
  atomic; the operations here run one after the other, and \<open>Dispatch_Sync\<close> interleaves the part
  that the code runs without the lock.
\<close>

section \<open>State\<close>

text \<open>
  A Run. The attributes that only the launcher writes (ceilings, artifact policy, request,
  isolation, branch, worktree, base commit, containment) are the mapping \<open>rn_approved\<close>.
\<close>

record disp_run =
  rn_run_id :: string
  rn_issue_id :: string
  rn_workflow :: string
  rn_worker_role :: string
  rn_runtime :: string
  rn_claimed_at :: rat
  rn_lease_seconds :: int
  rn_status :: string
  rn_parent_run_id :: "string option"
  rn_depth :: int
  rn_heartbeat_at :: rat
  rn_finished_at :: "rat option"
  rn_result :: json
  rn_gh_synced :: bool
  rn_gh_sync_claimed_at :: "rat option"
  rn_approved :: dict
  rn_delegation_depth :: "int option"
  rn_mutating :: bool
  rn_commit_evidence :: json
  rn_readonly_report_evidence :: json
  rn_review_submission_id :: json

datatype effect =
    Swapped string string string
  | Commented string
  | Submitted string

record dispatcher =
  dp_runs :: "(string \<times> disp_run) list"
  dp_effects :: "effect list"
  dp_observations :: "(string \<times> dict) list"

datatype gate_answer = Gate_raises | Gate_refuses string | Gate_accepts commit_evidence

record disp_config =
  cf_max_parallel_workers :: "int option"
  cf_delegation_depth :: "int option"
  cf_commit_gate :: "disp_run \<Rightarrow> dict \<Rightarrow> gate_answer"
  cf_hash :: hostlib
  cf_review_submitter :: "(disp_run \<Rightarrow> dict \<Rightarrow> json \<Rightarrow> json option) option"
  cf_evidence_recovery :: "(disp_run \<Rightarrow> dict option) option"
  cf_containment_recorder :: "(disp_run \<Rightarrow> string option) option"

text \<open>What GitHub answers during one call: the labels (\<open>None\<close>: the call raises), and whether the
  label swap and the comment succeed. A call of \<open>gh\<close> that raises, as one cut off by its timeout does, may have been
  carried out all the same: that is what the last two fields say of a call that failed.\<close>

record gh_answers =
  ga_labels :: "string list option"
  ga_swap :: bool
  ga_comment :: bool
  ga_swap_stored :: bool
  ga_comment_stored :: bool

datatype disp_error =
    Nested_dispatch
  | Bad_issue_id
  | Active_claim
  | Workers_reached
  | Not_ready
  | GitHub_error
  | Submission_error
  | Unknown_parent
  | Depth_exceeded
  | Unknown_run
  | Already_terminal
  | Key_error
  | Not_a_list json

text \<open>The exceptions that are \<open>RuntimeError\<close>s, as \<open>GitHubError\<close> and the others of the module are.\<close>

fun runtime_error :: "disp_error \<Rightarrow> bool" where
  "runtime_error Bad_issue_id = False"
| "runtime_error Key_error = False"
| "runtime_error (Not_a_list v) = False"
| "runtime_error e = True"

definition LABEL_READY :: string where "LABEL_READY = ''workflow:ready''"
definition LABEL_IN_PROGRESS :: string where "LABEL_IN_PROGRESS = ''workflow:in-progress''"
definition LABEL_BLOCKED :: string where "LABEL_BLOCKED = ''workflow:blocked''"

definition FAILING_STATUSES :: "string list" where
  "FAILING_STATUSES = [''failed'', ''timed_out'', ''budget_exceeded'', ''blocked'']"

definition GH_SYNC_CLAIM_LEASE_SECONDS :: rat where
  "GH_SYNC_CLAIM_LEASE_SECONDS = 30"

definition opt_num :: "rat option \<Rightarrow> json" where
  "opt_num x = (case x of None \<Rightarrow> JNull | Some t \<Rightarrow> JFlt (Fin t))"

text \<open>\<open>dataclasses.asdict\<close>, what the registry file holds and the gates read attribute by attribute.\<close>

definition asdict :: "disp_run \<Rightarrow> dict" where
  "asdict r =
     [(''run_id'', JStr (rn_run_id r)), (''issue_id'', JStr (rn_issue_id r)), (''workflow'', JStr (rn_workflow r)),
      (''worker_role'', JStr (rn_worker_role r)), (''runtime'', JStr (rn_runtime r)),
      (''claimed_at'', JFlt (Fin (rn_claimed_at r))), (''lease_seconds'', JInt (rn_lease_seconds r)),
      (''status'', JStr (rn_status r)), (''parent_run_id'', opt_json (rn_parent_run_id r)),
      (''depth'', JInt (rn_depth r)), (''heartbeat_at'', JFlt (Fin (rn_heartbeat_at r))),
      (''finished_at'', opt_num (rn_finished_at r)), (''result'', rn_result r),
      (''gh_synced'', JBool (rn_gh_synced r)), (''gh_sync_claimed_at'', opt_num (rn_gh_sync_claimed_at r)),
      (''max_cost_usd'', dget (rn_approved r) ''max_cost_usd''),
      (''max_parallel_workers'', dget (rn_approved r) ''max_parallel_workers''),
      (''delegation_depth'', case rn_delegation_depth r of None \<Rightarrow> JNull | Some n \<Rightarrow> JInt n),
      (''artifact_policy'', dget (rn_approved r) ''artifact_policy''),
      (''request_id'', dget (rn_approved r) ''request_id''), (''isolation'', dget (rn_approved r) ''isolation''),
      (''branch'', dget (rn_approved r) ''branch''), (''worktree'', dget (rn_approved r) ''worktree''),
      (''base_commit'', dget (rn_approved r) ''base_commit''), (''mutating'', JBool (rn_mutating r)),
      (''artifact_paths'', dget (rn_approved r) ''artifact_paths''),
      (''commit_evidence'', rn_commit_evidence r), (''readonly_report_evidence'', rn_readonly_report_evidence r),
      (''review_submission_id'', rn_review_submission_id r),
      (''containment'', dget (rn_approved r) ''containment'')]"

section \<open>The registry\<close>

definition add_run :: "disp_run \<Rightarrow> dispatcher \<Rightarrow> dispatcher" where
  "add_run r st = st\<lparr>dp_runs := AList.update (rn_run_id r) r (dp_runs st)\<rparr>"

definition get_run :: "dispatcher \<Rightarrow> string \<Rightarrow> disp_run option" where
  "get_run st run_id = map_of (dp_runs st) run_id"

text \<open>\<open>RunRegistry.update\<close> of a Run the caller has looked up.\<close>

definition update_run :: "string \<Rightarrow> (disp_run \<Rightarrow> disp_run) \<Rightarrow> dispatcher \<Rightarrow> dispatcher" where
  "update_run run_id f st = (case get_run st run_id of
     None \<Rightarrow> st
   | Some r \<Rightarrow> st\<lparr>dp_runs := AList.update run_id (f r) (dp_runs st)\<rparr>)"

definition active_issue_ids :: "dispatcher \<Rightarrow> string list" where
  "active_issue_ids st =
     remdups (map rn_issue_id (filter (\<lambda>r. rn_status r = ''in_progress'') (map snd (dp_runs st))))"

definition emit :: "effect \<Rightarrow> dispatcher \<Rightarrow> dispatcher" where
  "emit e st = st\<lparr>dp_effects := dp_effects st @ [e]\<rparr>"

definition gh_failed :: "bool \<Rightarrow> effect \<Rightarrow> dispatcher \<Rightarrow> dispatcher" where
  "gh_failed stored e st = (if stored then emit e st else st)"

definition sync_claim_stale :: "rat \<Rightarrow> disp_run \<Rightarrow> bool" where
  "sync_claim_stale now r = (case rn_gh_sync_claimed_at r of
     None \<Rightarrow> True | Some t \<Rightarrow> GH_SYNC_CLAIM_LEASE_SECONDS < rnd (now - t))"

definition is_expired :: "rat \<Rightarrow> disp_run \<Rightarrow> bool" where
  "is_expired now r =
     (let beat = (if rn_heartbeat_at r = 0 then rn_claimed_at r else rn_heartbeat_at r);
          last_known_live = max (rn_claimed_at r) beat in
      of_int (rn_lease_seconds r) < rnd (now - last_known_live))"

definition issue_parts_ok :: "string \<Rightarrow> bool" where
  "issue_parts_ok issue_id \<longleftrightarrow> length (split_on (CHR ''#'') issue_id) = 2"

section \<open>Claims, children, heartbeats\<close>

definition claim ::
    "disp_config \<Rightarrow> bool \<Rightarrow> gh_answers \<Rightarrow> rat \<Rightarrow> string \<Rightarrow> string \<times> string \<times> string \<Rightarrow> int \<Rightarrow> string option \<Rightarrow> string
     \<Rightarrow> dispatcher \<Rightarrow> (disp_error + disp_run) \<times> dispatcher" where
  "claim cfg nested g now issue_id labels_of lease_seconds run_id generated st =
     (case labels_of of (workflow, worker_role, runtime) \<Rightarrow>
      if nested then (Inl Nested_dispatch, st)
      else if \<not> issue_parts_ok issue_id then (Inl Bad_issue_id, st)
      else
        (let active = active_issue_ids st in
         if issue_id \<in> set active then (Inl Active_claim, st)
         else if (case cf_max_parallel_workers cfg of None \<Rightarrow> False | Some m \<Rightarrow> m \<le> int (length active))
           then (Inl Workers_reached, st)
         else (case ga_labels g of
             None \<Rightarrow> (Inl GitHub_error, st)
           | Some labels \<Rightarrow>
               if LABEL_READY \<notin> set labels then (Inl Not_ready, st)
               else
                 (let r = \<lparr>rn_run_id = (case run_id of None \<Rightarrow> generated | Some i \<Rightarrow> i), rn_issue_id = issue_id,
                        rn_workflow = workflow, rn_worker_role = worker_role, rn_runtime = runtime,
                        rn_claimed_at = now, rn_lease_seconds = lease_seconds, rn_status = ''in_progress'',
                        rn_parent_run_id = None, rn_depth = 0, rn_heartbeat_at = now, rn_finished_at = None,
                        rn_result = JNull, rn_gh_synced = False, rn_gh_sync_claimed_at = None, rn_approved = [],
                        rn_delegation_depth = None, rn_mutating = False, rn_commit_evidence = JNull,
                        rn_readonly_report_evidence = JNull, rn_review_submission_id = JNull\<rparr>;
                      st = add_run r st in
                  if \<not> ga_swap g
                    then (Inl GitHub_error, gh_failed (ga_swap_stored g) (Swapped issue_id LABEL_READY LABEL_IN_PROGRESS) st)
                  else
                    (let st = emit (Swapped issue_id LABEL_READY LABEL_IN_PROGRESS) st in
                     if \<not> ga_comment g then (Inl GitHub_error, gh_failed (ga_comment_stored g) (Commented issue_id) st)
                     else (Inr r, emit (Commented issue_id) st))))))"

definition spawn_child :: "disp_config \<Rightarrow> rat \<Rightarrow> string \<Rightarrow> int \<Rightarrow> dispatcher \<Rightarrow> (disp_error + disp_run) \<times> dispatcher" where
  "spawn_child cfg now parent_run_id n st = (case get_run st parent_run_id of
     None \<Rightarrow> (Inl Unknown_parent, st)
   | Some p \<Rightarrow>
       (let depth_limit = (if rn_delegation_depth p \<noteq> None then rn_delegation_depth p else cf_delegation_depth cfg) in
        if (case depth_limit of None \<Rightarrow> False | Some m \<Rightarrow> m \<le> rn_depth p) then (Inl Depth_exceeded, st)
        else
          (let c = \<lparr>rn_run_id = parent_run_id @ ''.'' @ dec_int n, rn_issue_id = rn_issue_id p,
                 rn_workflow = rn_workflow p, rn_worker_role = rn_worker_role p, rn_runtime = rn_runtime p,
                 rn_claimed_at = now, rn_lease_seconds = rn_lease_seconds p, rn_status = ''in_progress'',
                 rn_parent_run_id = Some parent_run_id, rn_depth = rn_depth p + 1, rn_heartbeat_at = now,
                 rn_finished_at = None, rn_result = JNull, rn_gh_synced = False, rn_gh_sync_claimed_at = None,
                 rn_approved = [], rn_delegation_depth = None, rn_mutating = False, rn_commit_evidence = JNull,
                 rn_readonly_report_evidence = JNull, rn_review_submission_id = JNull\<rparr> in
           (Inr c, add_run c st))))"

definition heartbeat :: "rat \<Rightarrow> string \<Rightarrow> dispatcher \<Rightarrow> (disp_error + unit) \<times> dispatcher" where
  "heartbeat now run_id st = (case get_run st run_id of
     None \<Rightarrow> (Inl Key_error, st)
   | Some _ \<Rightarrow> (Inr (), update_run run_id (\<lambda>r. r\<lparr>rn_heartbeat_at := now\<rparr>) st))"

definition query :: "rat \<Rightarrow> string \<Rightarrow> dispatcher \<Rightarrow> dict option" where
  "query now run_id st = (case get_run st run_id of
     None \<Rightarrow> None
   | Some r \<Rightarrow> Some (dset ''elapsed_seconds'' (JFlt (to_float (now - rn_claimed_at r))) (asdict r)))"

section \<open>Settlement\<close>

text \<open>\<open>_recover_timeout_evidence\<close>. A recovery that raises is one that finds nothing.\<close>

definition recover_timeout_evidence :: "disp_config \<Rightarrow> disp_run \<Rightarrow> string \<Rightarrow> dict \<Rightarrow> string \<times> dict" where
  "recover_timeout_evidence cfg r status envelope =
     (if status \<noteq> ''timed_out'' then (status, envelope)
      else (case cf_evidence_recovery cfg of
          None \<Rightarrow> (status, envelope)
        | Some recover \<Rightarrow> (case recover r of None \<Rightarrow> (status, envelope) | Some recovered \<Rightarrow> (''succeeded'', recovered))))"

text \<open>The refusals of the two gates. Of the error the stable category is kept; its recovery and
  detail texts are prose.\<close>

definition blocked_envelope :: "string \<Rightarrow> string \<Rightarrow> dict \<Rightarrow> dict" where
  "blocked_envelope marker category envelope =
     dset ''error'' (JObj [(''category'', JStr category)])
       (dset ''evidence_gate'' (JStr marker) (dset ''status'' (JStr ''blocked'') envelope))"

definition refusal_category :: "dict \<Rightarrow> string \<Rightarrow> string" where
  "refusal_category envelope code =
     (if dget envelope ''outcome'' = JStr ''unattested'' \<and> code \<in> {''commit_predates_run'', ''commit_missing''}
      then ''no_attested_outcome'' else code)"

definition with_marker :: "string \<Rightarrow> dict \<Rightarrow> disp_error + json list" where
  "with_marker marker envelope = (case iterate (dget envelope ''artifacts'') of
     Inl _ \<Rightarrow> Inl (Not_a_list (dget envelope ''artifacts''))
   | Inr artifacts \<Rightarrow> Inr (if JStr marker \<in> set artifacts then artifacts else artifacts @ [JStr marker]))"

definition gate_mutating :: "disp_config \<Rightarrow> disp_run \<Rightarrow> dict \<Rightarrow> disp_error + string \<times> dict \<times> dict option" where
  "gate_mutating cfg r envelope = (case cf_commit_gate cfg r envelope of
     Gate_raises \<Rightarrow> Inr (''blocked'', blocked_envelope ''commit_correlation_failed'' ''commit_gate_error'' envelope, None)
   | Gate_refuses code \<Rightarrow>
       Inr (''blocked'', blocked_envelope ''commit_correlation_failed'' (refusal_category envelope code) envelope, None)
   | Gate_accepts e \<Rightarrow>
       bindE (with_marker (''commit:'' @ ce_commit e) envelope) (\<lambda>artifacts.
         Inr (''succeeded'',
           dset ''commit_evidence'' (JObj (as_record e)) (dset ''branch'' (ce_branch e) (dset ''commit'' (JStr (ce_commit e))
             (dset ''evidence_gate'' (JStr ''commit_correlated'') (dset ''artifacts'' (JList artifacts) envelope)))),
           Some (as_record e))))"

definition gate_readonly :: "disp_config \<Rightarrow> rat \<Rightarrow> disp_run \<Rightarrow> dict \<Rightarrow> disp_error + string \<times> dict \<times> dict option" where
  "gate_readonly cfg now r envelope =
     (if dget envelope ''observed_digest'' = JNull \<and> rn_runtime r \<noteq> ''hermes-readonly'' then Inr (''succeeded'', envelope, None)
      else (case verify_readonly_report (cf_hash cfg) (Fin now) (asdict r) envelope of
          Inl code \<Rightarrow> Inr (''blocked'', blocked_envelope READONLY_GATE_FAILED code envelope, None)
        | Inr e \<Rightarrow>
            bindE (with_marker (''observation:'' @ re_observed_digest e) envelope) (\<lambda>artifacts.
              Inr (''succeeded'',
                dset ''readonly_report_evidence'' (JObj (readonly_record e)) (dset ''observed_digest'' (JStr (re_observed_digest e))
                  (dset ''evidence_gate'' (JStr EVIDENCE_GATE_READONLY) (dset ''artifacts'' (JList artifacts) envelope))),
                Some (readonly_record e)))))"

definition gate_commit ::
    "disp_config \<Rightarrow> rat \<Rightarrow> disp_run \<Rightarrow> string \<Rightarrow> dict \<Rightarrow> disp_error + string \<times> dict \<times> dict option" where
  "gate_commit cfg now r status envelope =
     (if status \<noteq> ''succeeded'' then Inr (status, envelope, None)
      else if rn_mutating r then gate_mutating cfg r envelope
      else gate_readonly cfg now r envelope)"

text \<open>The containment verdict the launcher's hook records on the Run before the gate reads it; a
  hook that raises records nothing.\<close>

definition with_containment :: "disp_config \<Rightarrow> disp_run \<Rightarrow> disp_run" where
  "with_containment cfg r = (case cf_containment_recorder cfg of
     None \<Rightarrow> r
   | Some scan \<Rightarrow> (case scan r of None \<Rightarrow> r
       | Some verdict \<Rightarrow> r\<lparr>rn_approved := dset ''containment'' (JStr verdict) (rn_approved r)\<rparr>))"

text \<open>The registry transition of \<open>complete\<close>, all of it under the lock.\<close>

definition settled_run :: "rat \<Rightarrow> string \<Rightarrow> dict \<Rightarrow> dict option \<Rightarrow> disp_run \<Rightarrow> disp_run" where
  "settled_run now status envelope evidence r =
     (let r = r\<lparr>rn_status := status, rn_finished_at := Some now, rn_result := JObj envelope\<rparr> in
      case evidence of None \<Rightarrow> r
      | Some e \<Rightarrow> if dget envelope ''evidence_gate'' = JStr EVIDENCE_GATE_READONLY
          then r\<lparr>rn_readonly_report_evidence := JObj e\<rparr> else r\<lparr>rn_commit_evidence := JObj e\<rparr>)"

definition observe :: "string \<Rightarrow> dict \<Rightarrow> dict option \<Rightarrow> dispatcher \<Rightarrow> dispatcher" where
  "observe run_id envelope evidence st = (case evidence of None \<Rightarrow> st
     | Some e \<Rightarrow> if dget envelope ''evidence_gate'' = JStr EVIDENCE_GATE_READONLY
         then st\<lparr>dp_observations := AList.update run_id (dset ''disposition'' (JStr ''readonly_report_verified'') e)
                (dp_observations st)\<rparr>
         else st)"

definition settle ::
    "disp_config \<Rightarrow> rat \<Rightarrow> string \<Rightarrow> string \<Rightarrow> dict \<Rightarrow> dispatcher \<Rightarrow> (disp_error + string \<times> dict) \<times> dispatcher" where
  "settle cfg now run_id status envelope st = (case get_run st run_id of
     None \<Rightarrow> (Inl Unknown_run, st)
   | Some r0 \<Rightarrow>
       if rn_status r0 \<noteq> ''in_progress'' then (Inl Already_terminal, st)
       else
         (let r = with_containment cfg r0; st = update_run run_id (with_containment cfg) st;
              (status, envelope) = recover_timeout_evidence cfg r status envelope in
          case gate_commit cfg now r status envelope of
            Inl e \<Rightarrow> (Inl e, st)
          | Inr (status, envelope, evidence) \<Rightarrow>
              (Inr (status, envelope),
               update_run run_id (settled_run now status envelope evidence) (observe run_id envelope evidence st))))"

section \<open>Synchronisation with GitHub\<close>

text \<open>The claim of the sync lease, under the lock.\<close>

definition claim_sync :: "rat \<Rightarrow> string \<Rightarrow> dispatcher \<Rightarrow> bool \<times> dispatcher" where
  "claim_sync now run_id st = (case get_run st run_id of
     None \<Rightarrow> (False, st)
   | Some r \<Rightarrow>
       if rn_gh_synced r \<or> \<not> sync_claim_stale now r then (False, st)
       else (True, update_run run_id (\<lambda>r. r\<lparr>rn_gh_sync_claimed_at := Some now\<rparr>) st))"

definition sync_target :: "string \<Rightarrow> string option" where
  "sync_target status =
     (if status = ''cancelled'' then Some LABEL_READY
      else if status \<in> set FAILING_STATUSES then Some LABEL_BLOCKED else None)"

definition submit_review :: "disp_config \<Rightarrow> string \<Rightarrow> dict \<Rightarrow> dispatcher \<Rightarrow> (disp_error + unit) \<times> dispatcher" where
  "submit_review cfg run_id envelope st = (case (cf_review_submitter cfg, get_run st run_id) of
     (Some submitter, Some r) \<Rightarrow>
       (case submitter r envelope (rn_commit_evidence r) of
          None \<Rightarrow> (Inl Submission_error, st)
        | Some submission_id \<Rightarrow>
            if truthy submission_id
            then (Inr (), update_run run_id (\<lambda>r. r\<lparr>rn_review_submission_id := submission_id\<rparr>)
                    (emit (Submitted run_id) st))
            else (Inr (), st))
   | _ \<Rightarrow> (Inr (), st))"

text \<open>The blocking calls: the label swap or the submission.\<close>

definition sync_move ::
    "disp_config \<Rightarrow> gh_answers \<Rightarrow> string \<Rightarrow> string \<Rightarrow> string \<Rightarrow> dict \<Rightarrow> dispatcher \<Rightarrow> (disp_error + unit) \<times> dispatcher" where
  "sync_move cfg g run_id issue_id status envelope st = (case sync_target status of
     None \<Rightarrow> submit_review cfg run_id envelope st
   | Some target \<Rightarrow>
       if ga_swap g then (Inr (), emit (Swapped issue_id LABEL_IN_PROGRESS target) st)
       else (Inl GitHub_error, gh_failed (ga_swap_stored g) (Swapped issue_id LABEL_IN_PROGRESS target) st))"

definition sync_github ::
    "disp_config \<Rightarrow> gh_answers \<Rightarrow> rat \<Rightarrow> string \<Rightarrow> string \<Rightarrow> string \<Rightarrow> dict \<Rightarrow> dispatcher \<Rightarrow> (disp_error + bool) \<times> dispatcher" where
  "sync_github cfg g now run_id issue_id status envelope st = (case claim_sync now run_id st of
     (False, st) \<Rightarrow> (Inr False, st)
   | (True, st) \<Rightarrow>
       if \<not> issue_parts_ok issue_id then (Inl Bad_issue_id, st)
       else (case sync_move cfg g run_id issue_id status envelope st of
           (Inl e, st) \<Rightarrow> (Inl e, st)
         | (Inr _, st) \<Rightarrow>
             if \<not> ga_comment g then (Inl GitHub_error, gh_failed (ga_comment_stored g) (Commented issue_id) st)
             else (Inr True, update_run run_id (\<lambda>r. r\<lparr>rn_gh_synced := True\<rparr>) (emit (Commented issue_id) st))))"

definition complete ::
    "disp_config \<Rightarrow> gh_answers \<Rightarrow> rat \<Rightarrow> string \<Rightarrow> string \<Rightarrow> dict \<Rightarrow> dispatcher \<Rightarrow> (disp_error + disp_run option) \<times> dispatcher" where
  "complete cfg g now run_id status envelope st = (case settle cfg now run_id status envelope st of
     (Inl e, st) \<Rightarrow> (Inl e, st)
   | (Inr (status, envelope), st) \<Rightarrow>
       (case get_run st run_id of
          None \<Rightarrow> (Inl Key_error, st)
        | Some r \<Rightarrow>
            if rn_parent_run_id r \<noteq> None then (Inr (Some r), st)
            else (case sync_github cfg g now run_id (rn_issue_id r) status envelope st of
                (Inl e, st) \<Rightarrow> (Inl e, st)
              | (Inr _, st) \<Rightarrow> (Inr (get_run st run_id), st))))"

section \<open>Sweeping and resynchronising\<close>

text \<open>Both take a snapshot under the lock and then visit its Runs one after the other; GitHub
  answers for each Run.\<close>

definition expired_runs :: "rat \<Rightarrow> dispatcher \<Rightarrow> string list" where
  "expired_runs now st =
     map rn_run_id (filter (\<lambda>r. rn_status r = ''in_progress'' \<and> is_expired now r) (map snd (dp_runs st)))"

definition lease_error :: "string \<Rightarrow> dispatcher \<Rightarrow> dict" where
  "lease_error run_id st = [(''error'', JStr (''lease expired after '' @
     (case get_run st run_id of None \<Rightarrow> ''None'' | Some r \<Rightarrow> dec_int (rn_lease_seconds r)) @ ''s with no completion''))]"

fun sweep_runs ::
    "disp_config \<Rightarrow> (string \<Rightarrow> gh_answers) \<Rightarrow> rat \<Rightarrow> string list \<Rightarrow> dispatcher \<Rightarrow> (disp_error + string list) \<times> dispatcher" where
  "sweep_runs cfg g now [] st = (Inr [], st)"
| "sweep_runs cfg g now (run_id # run_ids) st =
     (case complete cfg (g run_id) now run_id ''timed_out'' (lease_error run_id st) st of
        (Inl e, st) \<Rightarrow> if runtime_error e then sweep_runs cfg g now run_ids st else (Inl e, st)
      | (Inr _, st) \<Rightarrow>
          (case sweep_runs cfg g now run_ids st of
             (Inl e, st) \<Rightarrow> (Inl e, st) | (Inr swept, st) \<Rightarrow> (Inr (run_id # swept), st)))"

definition sweep_expired ::
    "disp_config \<Rightarrow> (string \<Rightarrow> gh_answers) \<Rightarrow> rat \<Rightarrow> dispatcher \<Rightarrow> (disp_error + string list) \<times> dispatcher" where
  "sweep_expired cfg g now st = sweep_runs cfg g now (expired_runs now st) st"

definition pending_syncs :: "dispatcher \<Rightarrow> (string \<times> string \<times> string \<times> json) list" where
  "pending_syncs st = map (\<lambda>r. (rn_run_id r, rn_issue_id r, rn_status r, rn_result r))
     (filter (\<lambda>r. rn_parent_run_id r = None \<and> rn_status r \<noteq> ''in_progress'' \<and> \<not> rn_gh_synced r) (map snd (dp_runs st)))"

fun resync_runs ::
    "disp_config \<Rightarrow> (string \<Rightarrow> gh_answers) \<Rightarrow> rat \<Rightarrow> (string \<times> string \<times> string \<times> json) list \<Rightarrow> dispatcher
     \<Rightarrow> (disp_error + string list) \<times> dispatcher" where
  "resync_runs cfg g now [] st = (Inr [], st)"
| "resync_runs cfg g now ((run_id, issue_id, status, result) # pending) st =
     (case sync_github cfg (g run_id) now run_id issue_id status (as_dict result) st of
        (Inl e, st) \<Rightarrow> if e \<in> {GitHub_error, Submission_error} then resync_runs cfg g now pending st else (Inl e, st)
      | (Inr done, st) \<Rightarrow>
          (case resync_runs cfg g now pending st of
             (Inl e, st) \<Rightarrow> (Inl e, st) | (Inr synced, st) \<Rightarrow> (Inr (if done then run_id # synced else synced), st)))"

definition resync_pending ::
    "disp_config \<Rightarrow> (string \<Rightarrow> gh_answers) \<Rightarrow> rat \<Rightarrow> dispatcher \<Rightarrow> (disp_error + string list) \<times> dispatcher" where
  "resync_pending cfg g now st = resync_runs cfg g now (pending_syncs st) st"

end
