(* ===== verification/Dispatcher_Props.thy ===== *)
theory Dispatcher_Props
  imports Dispatcher
begin

text \<open>
  The life of a Run in the dispatcher. The dispatcher's threads interleave at the registry lock:
  \<open>atomic\<close> lists what happens in one piece, the launcher's writes to the registry included, and
  every operation is a sequence of such steps. What is proved of the steps holds therefore of every
  interleaving of the operations. The steps implement the life cycle \<open>life_step\<close> of a Run.
\<close>

section \<open>Atomic steps\<close>

definition claimed_id :: "string option \<Rightarrow> string \<Rightarrow> string" where
  "claimed_id run_id generated = (case run_id of None \<Rightarrow> generated | Some i \<Rightarrow> i)"

inductive atomic :: "disp_config \<Rightarrow> dispatcher \<Rightarrow> dispatcher \<Rightarrow> bool" for cfg where
  Claimed: "get_run st (claimed_id run_id generated) = None \<Longrightarrow>
    atomic cfg st (snd (claim cfg nested g now issue_id labels_of lease_seconds run_id generated st))"
| Spawned: "get_run st (parent @ ''.'' @ dec_int n) = None \<Longrightarrow> atomic cfg st (snd (spawn_child cfg now parent n st))"
| Beaten: "atomic cfg st (snd (heartbeat now run_id st))"
| Recorded: "atomic cfg st (update_run run_id (\<lambda>r. r\<lparr>rn_approved := approved, rn_delegation_depth := depth\<rparr>) st)"
| Declared: "get_run st run_id = Some r \<Longrightarrow> rn_status r = ''in_progress'' \<Longrightarrow>
    atomic cfg st (update_run run_id (\<lambda>r. r\<lparr>rn_mutating := True\<rparr>) st)"
| Settled: "atomic cfg st (snd (settle cfg now run_id status envelope st))"
| Leased: "atomic cfg st (snd (claim_sync now run_id st))"
| Called: "atomic cfg st (emit e st)"
| Submitted: "atomic cfg st (update_run run_id (\<lambda>r. r\<lparr>rn_review_submission_id := submission_id\<rparr>) st)"
| Synced: "atomic cfg st (update_run run_id (\<lambda>r. r\<lparr>rn_gh_synced := True\<rparr>) st)"

abbreviation steps :: "disp_config \<Rightarrow> dispatcher \<Rightarrow> dispatcher \<Rightarrow> bool" where
  "steps cfg \<equiv> (atomic cfg)\<^sup>*\<^sup>*"

lemma gh_failed_steps: "steps cfg st (gh_failed stored e st)"
  by (auto simp: gh_failed_def intro: atomic.Called)

lemma submit_review_steps: "steps cfg st (snd (submit_review cfg run_id envelope st))"
proof -
  have "steps cfg st (update_run run_id (\<lambda>r. r\<lparr>rn_review_submission_id := i\<rparr>) (emit e st))" for i e
    by (rule rtranclp.rtrancl_into_rtrancl [OF r_into_rtranclp]) (rule atomic.intros)+
  then show ?thesis by (simp add: submit_review_def split: option.split)
qed

lemma sync_move_steps: "steps cfg st (snd (sync_move cfg g run_id issue_id status envelope st))"
  using submit_review_steps gh_failed_steps by (auto simp: sync_move_def intro: atomic.Called split: option.split)

lemma sync_github_steps: "steps cfg st (snd (sync_github cfg g now run_id issue_id status envelope st))"
proof -
  obtain b st1 where c: "claim_sync now run_id st = (b, st1)" by fastforce
  obtain e st2 where m: "sync_move cfg g run_id issue_id status envelope st1 = (e, st2)" by fastforce
  have 1: "steps cfg st st1" using atomic.Leased [of cfg st now run_id] c by auto
  have 2: "steps cfg st st2"
    using rtranclp_trans [OF 1] sync_move_steps [of cfg st1 g run_id issue_id status envelope] m by auto
  have "steps cfg st (update_run run_id (\<lambda>r. r\<lparr>rn_gh_synced := True\<rparr>) (emit (Commented issue_id) st2))"
    by (rule rtranclp.rtrancl_into_rtrancl [OF rtranclp.rtrancl_into_rtrancl [OF 2]]) (rule atomic.intros)+
  moreover have "steps cfg st (gh_failed stored e st2)" for stored e by (rule rtranclp_trans [OF 2 gh_failed_steps])
  ultimately show ?thesis using 1 2 by (auto simp: sync_github_def c m split: bool.split sum.split)
qed

text \<open>What \<open>complete\<close> leaves behind: the settled registry, perhaps synchronised.\<close>

lemma complete_state:
  "snd (complete cfg g now run_id status envelope st) = snd (settle cfg now run_id status envelope st) \<or>
   (\<exists>i s v. snd (complete cfg g now run_id status envelope st) =
     snd (sync_github cfg g now run_id i s v (snd (settle cfg now run_id status envelope st))))"
proof -
  obtain e st1 where s: "settle cfg now run_id status envelope st = (e, st1)" by fastforce
  show ?thesis
  proof (cases e)
    case (Inl x) then show ?thesis by (simp add: complete_def s)
  next
    case (Inr x)
    obtain s' v where x: "x = (s', v)" by (cases x)
    show ?thesis
    proof (cases "get_run st1 run_id")
      case None then show ?thesis by (simp add: complete_def s Inr x)
    next
      case (Some r)
      obtain b st2 where "sync_github cfg g now run_id (rn_issue_id r) s' v st1 = (b, st2)" by fastforce
      then have "snd (complete cfg g now run_id status envelope st) \<in> {st1, st2} \<and>
          st2 = snd (sync_github cfg g now run_id (rn_issue_id r) s' v st1)"
        using Some by (cases b) (auto simp: complete_def s Inr x)
      then show ?thesis by (auto simp: s)
    qed
  qed
qed

lemma complete_steps: "steps cfg st (snd (complete cfg g now run_id status envelope st))"
  using complete_state [of cfg g now run_id status envelope st] rtranclp_trans [OF r_into_rtranclp sync_github_steps]
    atomic.Settled [of cfg st now run_id status envelope]
  by (metis r_into_rtranclp)

lemma sweep_runs_steps: "steps cfg st (snd (sweep_runs cfg g now run_ids st))"
proof (induction run_ids arbitrary: st)
  case (Cons run_id run_ids)
  obtain e st1 where c: "complete cfg (g run_id) now run_id ''timed_out'' (lease_error run_id st) st = (e, st1)" by fastforce
  then have "steps cfg st st1" by (metis complete_steps snd_conv)
  then have "steps cfg st st1" "steps cfg st (snd (sweep_runs cfg g now run_ids st1))"
    using Cons.IH [of st1] by auto
  then show ?case by (auto simp: c split: sum.split prod.split)
qed simp

lemma resync_runs_steps: "steps cfg st (snd (resync_runs cfg g now pending st))"
proof (induction pending arbitrary: st)
  case (Cons p pending)
  obtain run_id i s v where p: "p = (run_id, i, s, v)" by (cases p)
  obtain e st1 where c: "sync_github cfg (g run_id) now run_id i s (as_dict v) st = (e, st1)" by fastforce
  then have "steps cfg st st1" by (metis sync_github_steps snd_conv)
  then have "steps cfg st st1" "steps cfg st (snd (resync_runs cfg g now pending st1))"
    using Cons.IH [of st1] by auto
  then show ?case by (auto simp: p c split: sum.split prod.split)
qed simp

lemmas operation_steps = complete_steps sweep_runs_steps [folded sweep_expired_def] resync_runs_steps
  sync_github_steps

section \<open>Reading the registry\<close>

lemma get_update [simp]:
  "get_run (update_run k f st) i = (if i = k then map_option f (get_run st k) else get_run st i)"
  by (simp add: update_run_def get_run_def AList.update_conv' split: option.split)

lemma get_add [simp]: "get_run (add_run r st) i = (if i = rn_run_id r then Some r else get_run st i)"
  by (simp add: add_run_def get_run_def AList.update_conv')

lemma get_emit [simp]: "get_run (emit e st) i = get_run st i"
  by (simp add: emit_def get_run_def)

lemma get_gh_failed [simp]: "get_run (gh_failed stored e st) i = get_run st i"
  by (simp add: gh_failed_def)

lemma get_observe [simp]: "get_run (observe run_id v e st) i = get_run st i"
  by (simp add: observe_def get_run_def split: option.split)

lemma with_containment_same [simp]:
  "rn_status (with_containment cfg r) = rn_status r" "rn_mutating (with_containment cfg r) = rn_mutating r"
  "rn_result (with_containment cfg r) = rn_result r" "rn_commit_evidence (with_containment cfg r) = rn_commit_evidence r"
  "rn_parent_run_id (with_containment cfg r) = rn_parent_run_id r" "rn_issue_id (with_containment cfg r) = rn_issue_id r"
  "rn_run_id (with_containment cfg r) = rn_run_id r" "rn_gh_synced (with_containment cfg r) = rn_gh_synced r"
  "rn_gh_sync_claimed_at (with_containment cfg r) = rn_gh_sync_claimed_at r"
  by (simp_all add: with_containment_def split: option.split)

lemma settled_run_same [simp]:
  "rn_status (settled_run now s v e r) = s" "rn_mutating (settled_run now s v e r) = rn_mutating r"
  "rn_result (settled_run now s v e r) = JObj v"
  "rn_parent_run_id (settled_run now s v e r) = rn_parent_run_id r" "rn_issue_id (settled_run now s v e r) = rn_issue_id r"
  "rn_run_id (settled_run now s v e r) = rn_run_id r" "rn_gh_synced (settled_run now s v e r) = rn_gh_synced r"
  "rn_gh_sync_claimed_at (settled_run now s v e r) = rn_gh_sync_claimed_at r"
  by (simp_all add: settled_run_def Let_def split: option.split)

section \<open>What a step does to one Run\<close>

definition core :: "disp_run \<Rightarrow> string \<times> string \<times> string option \<times> string \<times> bool \<times> json \<times> json" where
  "core r = (rn_run_id r, rn_issue_id r, rn_parent_run_id r, rn_status r, rn_mutating r, rn_result r, rn_commit_evidence r)"

inductive run_step :: "disp_config \<Rightarrow> string \<Rightarrow> disp_run option \<Rightarrow> disp_run option \<Rightarrow> bool" for cfg i where
  Stays_absent: "run_step cfg i None None"
| Created: "rn_run_id r = i \<Longrightarrow> rn_status r = ''in_progress'' \<Longrightarrow> \<not> rn_mutating r \<Longrightarrow> rn_commit_evidence r = JNull \<Longrightarrow>
    run_step cfg i None (Some r)"
| Kept: "core r' = core r \<Longrightarrow> run_step cfg i (Some r) (Some r')"
| Declares: "rn_status r = ''in_progress'' \<Longrightarrow> run_step cfg i (Some r) (Some (r\<lparr>rn_mutating := True\<rparr>))"
| Settles: "rn_status r = ''in_progress'' \<Longrightarrow> gate_commit cfg now (with_containment cfg r) status envelope = Inr (s, v, e) \<Longrightarrow>
    run_step cfg i (Some r) (Some (settled_run now s v e (with_containment cfg r)))"

inductive_cases run_step_cases: "run_step cfg i x y"

lemma run_step_same [simp]: "run_step cfg i x x"
  by (cases x) (auto intro: run_step.intros)

lemma run_step_map: "(\<And>r. core (f r) = core r) \<Longrightarrow> run_step cfg i x (map_option f x)"
  by (cases x) (auto intro: run_step.intros)

lemma declare_run_step:
  "get_run st k = Some r \<Longrightarrow> rn_status r = ''in_progress'' \<Longrightarrow>
   run_step cfg i (get_run st i) (get_run (update_run k (\<lambda>r. r\<lparr>rn_mutating := True\<rparr>) st) i)"
  by (auto intro: run_step.Declares)

lemma claim_run_step:
  assumes "get_run st (claimed_id run_id generated) = None"
  shows "run_step cfg i (get_run st i) (get_run (snd (claim cfg nested g now issue_id labels_of lease_seconds run_id generated st)) i)"
  using assms
  by (cases labels_of) (auto simp: claim_def claimed_id_def Let_def intro!: run_step.Created split: option.split)

lemma spawn_run_step:
  assumes "get_run st (parent @ ''.'' @ dec_int n) = None"
  shows "run_step cfg i (get_run st i) (get_run (snd (spawn_child cfg now parent n st)) i)"
  using assms by (auto simp: spawn_child_def Let_def intro!: run_step.Created split: option.split)

lemma settle_run_step: "run_step cfg i (get_run st i) (get_run (snd (settle cfg now run_id status envelope st)) i)"
proof (cases "\<exists>r. get_run st run_id = Some r \<and> rn_status r = ''in_progress''")
  case True
  then obtain r where r: "get_run st run_id = Some r" "rn_status r = ''in_progress''" by blast
  obtain s v where rec: "recover_timeout_evidence cfg (with_containment cfg r) status envelope = (s, v)" by fastforce
  have "core (with_containment cfg r) = core r" by (simp add: core_def)
  then show ?thesis using r rec
    by (auto simp: settle_def Let_def intro: run_step.intros split: sum.split)
qed (auto simp: settle_def split: option.split)

lemma atomic_run_step: "atomic cfg st st' \<Longrightarrow> run_step cfg i (get_run st i) (get_run st' i)"
proof (induction rule: atomic.induct)
  case Claimed then show ?case by (rule claim_run_step)
next
  case Spawned then show ?case by (rule spawn_run_step)
next
  case Declared then show ?case by (rule declare_run_step)
next
  case Settled show ?case by (rule settle_run_step)
qed (auto simp: heartbeat_def claim_sync_def core_def intro!: run_step_map run_step.Kept split: option.split)

lemma steps_run_inv:
  assumes "\<And>x y. run_step cfg i x y \<Longrightarrow> P x \<Longrightarrow> P y" "P (get_run st i)" "steps cfg st st'"
  shows "P (get_run st' i)"
  using assms(3,2) by (induction rule: rtranclp_induct) (auto intro: assms(1) [OF atomic_run_step])

section \<open>The life cycle\<close>

datatype life = Absent | Active bool | Finished bool string json json

text \<open>A Run appears, may be declared mutating while it is active, and finishes once; a mutating Run
  finishes as succeeded only with commit evidence.\<close>

inductive life_step :: "life \<Rightarrow> life \<Rightarrow> bool" where
  Appears: "life_step Absent (Active False)"
| Becomes_mutating: "life_step (Active m) (Active True)"
| Finishes: "status \<noteq> ''in_progress'' \<Longrightarrow> (status = ''succeeded'' \<Longrightarrow> m \<Longrightarrow> \<exists>e. evidence = JObj (as_record e)) \<Longrightarrow>
    life_step (Active m) (Finished m status outcome evidence)"

inductive_cases finished_step: "life_step (Finished m s v e) y"

definition life_of :: "disp_run option \<Rightarrow> life" where
  "life_of x = (case x of None \<Rightarrow> Absent
     | Some r \<Rightarrow> if rn_status r = ''in_progress'' then Active (rn_mutating r)
         else Finished (rn_mutating r) (rn_status r) (rn_result r) (rn_commit_evidence r))"

lemma with_marker_Inr: "with_marker m v = Inr xs \<Longrightarrow> JStr m \<in> set xs"
  by (auto simp: with_marker_def split: sum.split_asm if_split_asm)

lemma gate_mutating_Inr:
  assumes "gate_commit cfg now r status envelope = Inr (s, v, e)" "rn_mutating r" "s = ''succeeded''"
  shows "\<exists>ev. cf_commit_gate cfg r envelope = Gate_accepts ev \<and> e = Some (as_record ev) \<and>
    dget v ''evidence_gate'' = JStr ''commit_correlated'' \<and> dget v ''commit_evidence'' = JObj (as_record ev)"
proof -
  have g: "status = ''succeeded''" "gate_mutating cfg r envelope = Inr (s, v, e)"
    using assms by (auto simp: gate_commit_def split: if_split_asm)
  then obtain ev where ev: "cf_commit_gate cfg r envelope = Gate_accepts ev"
    using assms by (auto simp: gate_mutating_def split: gate_answer.split_asm)
  then show ?thesis using g
    by (cases "with_marker (''commit:'' @ ce_commit ev) envelope") (auto simp: gate_mutating_def)
qed

lemma settled_mutating:
  assumes "gate_commit cfg now r status envelope = Inr (s, v, e)" "rn_mutating r" "s = ''succeeded''"
  shows "\<exists>ev. cf_commit_gate cfg r envelope = Gate_accepts ev \<and>
    rn_commit_evidence (settled_run now s v e r') = JObj (as_record ev) \<and>
    dget (as_dict (rn_result (settled_run now s v e r'))) ''evidence_gate'' = JStr ''commit_correlated''"
  using gate_mutating_Inr [OF assms] by (auto simp: settled_run_def EVIDENCE_GATE_READONLY_def as_dict_def)

lemma run_step_life: "run_step cfg i x y \<Longrightarrow> life_step\<^sup>=\<^sup>= (life_of x) (life_of y)"
proof (induction rule: run_step.induct)
  case (Settles r now status envelope s v e)
  then show ?case
    using settled_mutating [where r' = "with_containment cfg r", OF Settles(2)]
    by (auto simp: life_of_def intro!: life_step.Finishes)
qed (auto simp: life_of_def core_def intro: life_step.intros)

text \<open>C1: The dispatcher implements the life cycle of a Run. Whatever operations its threads and the
  launcher interleave, as long as no run id is issued twice, every Run goes through steps of the
  life cycle only: it appears, may be declared mutating, and finishes once, as succeeded only with
  commit evidence when it is mutating.\<close>

theorem dispatcher_refines_life_cycle:
  assumes "steps cfg st st'"
  shows "life_step\<^sup>*\<^sup>* (life_of (get_run st run_id)) (life_of (get_run st' run_id))"
  using assms
proof (induction rule: rtranclp_induct)
  case (step st1 st2)
  have "life_step\<^sup>*\<^sup>* (life_of (get_run st1 run_id)) (life_of (get_run st2 run_id))"
    using run_step_life [OF atomic_run_step [OF step(2)], of run_id] by auto
  with step(3) show ?case by (rule rtranclp_trans)
qed simp

section \<open>Succeeded means accepted by the gate\<close>

definition new_dispatcher :: dispatcher where
  "new_dispatcher = \<lparr>dp_runs = [], dp_effects = [], dp_observations = []\<rparr>"

lemma get_new [simp]: "get_run new_dispatcher i = None"
  by (simp add: new_dispatcher_def get_run_def)

definition proven :: "disp_config \<Rightarrow> disp_run option \<Rightarrow> bool" where
  "proven cfg x \<longleftrightarrow> (\<forall>r. x = Some r \<longrightarrow> rn_status r = ''succeeded'' \<longrightarrow> rn_mutating r \<longrightarrow>
     (\<exists>r0 envelope e. cf_commit_gate cfg r0 envelope = Gate_accepts e \<and> rn_run_id r0 = rn_run_id r \<and>
        rn_issue_id r0 = rn_issue_id r \<and> rn_mutating r0 \<and> rn_commit_evidence r = JObj (as_record e) \<and>
        dget (as_dict (rn_result r)) ''evidence_gate'' = JStr ''commit_correlated''))"

lemma run_step_proven: "run_step cfg i x y \<Longrightarrow> proven cfg x \<Longrightarrow> proven cfg y"
proof (induction rule: run_step.induct)
  case (Settles r now status envelope s v e)
  then show ?case
    using settled_mutating [where r' = "with_containment cfg r", OF Settles(2)] by (fastforce simp: proven_def)
qed (auto simp: proven_def core_def)

lemma steps_proven: "steps cfg new_dispatcher st \<Longrightarrow> proven cfg (get_run st run_id)"
proof (rule steps_run_inv [where P = "proven cfg"])
  show "proven cfg y" if "run_step cfg run_id x y" "proven cfg x" for x y
    using that by (rule run_step_proven)
qed (simp_all add: proven_def)

definition keyed :: "string \<Rightarrow> disp_run option \<Rightarrow> bool" where
  "keyed i x \<longleftrightarrow> (\<forall>r. x = Some r \<longrightarrow> rn_run_id r = i)"

lemma run_step_keyed: "run_step cfg i x y \<Longrightarrow> keyed i x \<Longrightarrow> keyed i y"
  by (induction rule: run_step.induct) (auto simp: keyed_def core_def)

lemma steps_keyed: "keyed i (get_run st i) \<Longrightarrow> steps cfg st st' \<Longrightarrow> keyed i (get_run st' i)"
  by (rule steps_run_inv [where P = "keyed i"]) (rule run_step_keyed)

text \<open>C2: A mutating Run is recorded as succeeded only after the commit gate accepted it. From an empty
  registry, whatever is interleaved, a mutating Run that stands as succeeded was presented to the
  gate as the same Run of the same issue, the gate accepted, and the evidence it returned is the
  evidence on the Run.\<close>

theorem succeeded_means_accepted:
  assumes "steps cfg new_dispatcher st" "get_run st run_id = Some r" "rn_status r = ''succeeded''" "rn_mutating r"
  shows "\<exists>r0 envelope e. cf_commit_gate cfg r0 envelope = Gate_accepts e \<and> rn_run_id r0 = rn_run_id r \<and>
    rn_issue_id r0 = rn_issue_id r \<and> rn_mutating r0 \<and> rn_commit_evidence r = JObj (as_record e)"
  using steps_proven [OF assms(1), of run_id] assms(2-) by (fastforce simp: proven_def)

section \<open>Composition with the gate and the review projection\<close>

text \<open>\<open>self.commit_gate = commit_gate or verify_commit_correlation\<close>.\<close>

definition default_gate :: "runlib \<Rightarrow> git \<Rightarrow> pyfloat \<Rightarrow> disp_run \<Rightarrow> dict \<Rightarrow> gate_answer" where
  "default_gate L git now r envelope = (case verify_commit_correlation L git now (asdict r) envelope of
     Inl _ \<Rightarrow> Gate_raises | Inr (Inl code) \<Rightarrow> Gate_refuses code | Inr (Inr e) \<Rightarrow> Gate_accepts e)"

text \<open>\<open>RunRegistry._flush\<close>: the registry file, which the review projection reads.\<close>

definition registry_json :: "dispatcher \<Rightarrow> dict" where
  "registry_json st = map (\<lambda>(i, r). (i, JObj (asdict r))) (dp_runs st)"

lemma dget_registry: "get_run st i = Some r \<Longrightarrow> dget (registry_json st) i = JObj (asdict r)"
proof -
  have "map_of (map (\<lambda>(i, r). (i, JObj (asdict r))) xs) i = map_option (\<lambda>r. JObj (asdict r)) (map_of xs i)" for xs
    by (induction xs) auto
  then show "get_run st i = Some r \<Longrightarrow> dget (registry_json st) i = JObj (asdict r)"
    by (simp add: registry_json_def dget_def get_run_def)
qed

lemma default_gate_accepts:
  "default_gate L git now r envelope = Gate_accepts e \<Longrightarrow>
   verify_commit_correlation L git now (asdict r) envelope = Inr (Inr e)"
  by (auto simp: default_gate_def split: sum.split_asm)

text \<open>C3: What the dispatcher records as a mutating success can be opened for review. With the commit gate of the code behind it, when
  the Run and issue ids and the branch are references the review accepts and the worktree and the branch named by the
  recorded evidence are still there, the review of the registry is available, shows the accepted commit and has an entry for
  every file the Run contributed. An entry may withhold its patch or show a part of it only: it says nothing of the patch
  texts (see \<open>run_diff_hides_after_form_feed\<close>).\<close>

theorem recorded_success_is_reviewable:
  assumes "steps cfg new_dispatcher st" "cf_commit_gate cfg = default_gate L git now"
    and "get_run st run_id = Some r" "rn_status r = ''succeeded''" "rn_mutating r"
    and "safe_reference (JStr run_id) = Some run_id" "safe_reference (JStr (rn_issue_id r)) = Some (rn_issue_id r)"
    and "dget (as_dict (rn_commit_evidence r)) ''worktree'' = JStr worktree" "\<not> blank worktree"
    and "safe_reference (dget (as_dict (rn_commit_evidence r)) ''branch'') = Some branch"
    and "fst (git_factory worktree [''rev-parse'', ''--is-inside-work-tree'']) = 0"
    and "dget (as_dict (rn_commit_evidence r)) ''commit'' = JStr sha" "on_branch (git_factory worktree) sha branch"
  shows "\<exists>e a. rn_commit_evidence r = JObj (as_record e) \<and>
    run_diff_projection L git_factory (rn_issue_id r) run_id (registry_json st) = Inr (Some a) \<and> da_available a \<and>
    da_commit a = Some sha \<and>
    (\<forall>p\<in>set (ce_contributed_files e). \<exists>f\<in>set (da_files a). df_path f = p \<or> normalize_repo_path p = Some (df_path f))"
proof -
  obtain r0 envelope e where g: "verify_commit_correlation L git now (asdict r0) envelope = Inr (Inr e)"
    and same: "rn_run_id r0 = rn_run_id r" "rn_issue_id r0 = rn_issue_id r"
    and ev: "rn_commit_evidence r = JObj (as_record e)"
    and marked: "dget (as_dict (rn_result r)) ''evidence_gate'' = JStr ''commit_correlated''"
    using steps_proven [OF assms(1), of run_id] assms(2-5) by (fastforce simp: proven_def dest: default_gate_accepts)
  have id: "rn_run_id r = run_id"
    using steps_keyed [OF _ assms(1), of run_id] assms(3) by (simp add: keyed_def)
  have same_ev: "ce_worktree e = dget (asdict r0) ''worktree''" "ce_branch e = dget (asdict r0) ''branch''"
    by (rule evidence_facts [OF g], simp)+
  have "dispatcher_run L (registry_json st) (rn_issue_id r) run_id = Some (asdict r)"
    using dget_registry [OF assms(3)] by (simp add: dispatcher_run_def asdict_def py_str_def)
  moreover have "dget (asdict r) ''commit_evidence'' = JObj (as_record e)"
    "get_dict (asdict r) ''result'' = as_dict (rn_result r)"
    by (simp_all add: asdict_def ev get_dict_def as_dict_def)
  moreover have "dget (as_dict (rn_commit_evidence r)) ''worktree'' = dget (asdict r0) ''worktree''"
    "dget (as_dict (rn_commit_evidence r)) ''branch'' = dget (asdict r0) ''branch''" "sha = ce_commit e"
    using assms(12) by (simp_all add: ev as_dict_def as_record_def same_ev [symmetric])
  moreover have "dget (asdict r0) ''run_id'' = JStr run_id" "dget (asdict r0) ''issue_id'' = JStr (rn_issue_id r)"
    using same id by (simp_all add: asdict_def)
  ultimately show ?thesis
    using evidence_reviewable [OF g, of "registry_json st" "rn_issue_id r" run_id "asdict r" worktree branch git_factory]
      assms(6-13) ev marked
    by auto
qed

section \<open>Witnesses\<close>

text \<open>One mutating Run: claimed, approved, declared mutating and settled with the sample commit.\<close>

definition sample_config :: disp_config where
  "sample_config = \<lparr>cf_max_parallel_workers = Some 2, cf_delegation_depth = None,
     cf_commit_gate = default_gate sample_runlib (sample_repo []) (Fin 0), cf_hash = sample_lib,
     cf_review_submitter = Some (\<lambda>_ _ _. Some (JStr ''s'')), cf_evidence_recovery = None, cf_containment_recorder = None\<rparr>"

definition sample_answers :: gh_answers where
  "sample_answers = \<lparr>ga_labels = Some [LABEL_READY], ga_swap = True, ga_comment = True, ga_swap_stored = False, ga_comment_stored = False\<rparr>"

definition sample_approved :: dict where
  "sample_approved = [(''request_id'', JStr ''q''), (''isolation'', JStr ''worktree''), (''branch'', JStr ''work''),
     (''worktree'', JStr ''w''), (''base_commit'', JStr sample_base), (''artifact_paths'', JList [JStr ''d''])]"

definition sample_claimed :: disp_run where
  "sample_claimed = \<lparr>rn_run_id = ''r1'', rn_issue_id = ''o#1'', rn_workflow = ''w'', rn_worker_role = ''c'',
     rn_runtime = ''t'', rn_claimed_at = 10, rn_lease_seconds = 60, rn_status = ''in_progress'',
     rn_parent_run_id = None, rn_depth = 0, rn_heartbeat_at = 10, rn_finished_at = None, rn_result = JNull,
     rn_gh_synced = False, rn_gh_sync_claimed_at = None, rn_approved = [], rn_delegation_depth = None,
     rn_mutating = False, rn_commit_evidence = JNull, rn_readonly_report_evidence = JNull,
     rn_review_submission_id = JNull\<rparr>"

definition sample_active :: disp_run where
  "sample_active = sample_claimed\<lparr>rn_approved := sample_approved, rn_mutating := True\<rparr>"

definition sample_open :: dispatcher where
  "sample_open = \<lparr>dp_runs = [(''r1'', sample_active)],
     dp_effects = [Swapped ''o#1'' LABEL_READY LABEL_IN_PROGRESS, Commented ''o#1''], dp_observations = []\<rparr>"

definition sample_report :: dict where
  "sample_report = [(''run_id'', JStr ''r1''), (''issue_id'', JStr ''o#1''), (''request_id'', JStr ''q''),
     (''commit'', JStr sample_sha)]"

definition sample_correlated :: commit_evidence where
  "sample_correlated = sample_accepted\<lparr>ce_issue_id := JStr ''o#1''\<rparr>"

lemma sample_open_steps: "steps sample_config new_dispatcher sample_open"
proof -
  let ?st1 = "\<lparr>dp_runs = [(''r1'', sample_claimed)],
     dp_effects = [Swapped ''o#1'' LABEL_READY LABEL_IN_PROGRESS, Commented ''o#1''], dp_observations = []\<rparr>"
  have "snd (claim sample_config False sample_answers 10 ''o#1'' (''w'', ''c'', ''t'') 60 (Some ''r1'') [] new_dispatcher) = ?st1"
    by (simp add: claim_def issue_parts_ok_def sample_config_def sample_answers_def new_dispatcher_def
        active_issue_ids_def Let_def emit_def add_run_def sample_claimed_def)
  then have 1: "atomic sample_config new_dispatcher ?st1"
    using atomic.Claimed [of new_dispatcher "Some ''r1''" "[]" sample_config False sample_answers 10 "''o#1''" "(''w'', ''c'', ''t'')" 60]
    by simp
  let ?st2 = "update_run ''r1'' (\<lambda>r. r\<lparr>rn_approved := sample_approved, rn_delegation_depth := None\<rparr>) ?st1"
  have 2: "atomic sample_config ?st1 ?st2" by (rule atomic.Recorded)
  have "update_run ''r1'' (\<lambda>r. r\<lparr>rn_mutating := True\<rparr>) ?st2 = sample_open"
    by (simp add: update_run_def get_run_def sample_open_def sample_active_def sample_claimed_def)
  moreover have "\<exists>r. get_run ?st2 ''r1'' = Some r \<and> rn_status r = ''in_progress''"
    by (simp add: get_run_def update_run_def sample_claimed_def)
  ultimately have "atomic sample_config ?st2 sample_open" by (metis atomic.Declared)
  with 1 2 show ?thesis by (meson converse_rtranclp_into_rtranclp rtranclp.rtrancl_refl)
qed

lemma sample_gate: "cf_commit_gate sample_config sample_active sample_report = Gate_accepts sample_correlated"
proof -
  let ?run = "asdict sample_active"
  have fields: "dget ?run ''run_id'' = JStr ''r1''" "dget ?run ''issue_id'' = JStr ''o#1''" "dget ?run ''request_id'' = JStr ''q''"
    "dget ?run ''isolation'' = JStr ''worktree''" "dget ?run ''branch'' = JStr ''work''" "dget ?run ''worktree'' = JStr ''w''"
    "dget ?run ''claimed_at'' = JFlt (Fin 10)" "dget ?run ''base_commit'' = JStr sample_base"
    "dget ?run ''artifact_paths'' = JList [JStr ''d'']" "dget ?run ''containment'' = JNull" "has_key ?run ''claimed_at''"
    by (simp_all add: asdict_def sample_active_def sample_claimed_def sample_approved_def has_key_def dict_keys_def)
  have "\<not> containment_failed ?run" by (simp add: containment_failed_def fields)
  moreover have "forE (correlate_field ?run sample_report) CORRELATED = Inr ()"
    by (simp add: CORRELATED_def correlate_field_def fields) (simp add: sample_report_def)
  moreover have "sample_sha \<noteq> []" by (simp add: sample_sha_def)
  then have "claimed_commit sample_report = Some sample_sha"
    by (simp add: claimed_commit_def sample_report_def or_else_def sample_shas)
  moreover have "permitted_paths sample_runlib ?run = Inr (Inr [''d''])"
    by (simp add: permitted_paths_def artifact_paths_def fields text_of_def)
  note before = calculation this
  have scope: "verify_commit_scope [''d/a''] [''d''] = None" by (simp add: verify_commit_scope_def sample_paths)
  have "recorded_base ?run = Some sample_base" by (simp add: recorded_base_def fields sample_shas)
  moreover have "sample_repo [] (''rev-list'' # xs) = (0, sample_sha)" for xs by (simp add: sample_repo_def)
  ultimately have "verify_contribution (sample_repo []) (Fin 0) ?run ''work'' sample_sha 10 [''d/a''] 11 [''d''] =
     Inr (Inr sample_correlated)"
    by (simp add: verify_contribution_def sample_repo_answers stripped_lines_def sample_shas sample_correlated_def
        sample_accepted_def fields)
  with before scope have "verify_commit_correlation sample_runlib (sample_repo []) (Fin 0) ?run sample_report = Inr (Inr sample_correlated)"
    by (simp add: verify_commit_correlation_def sample_repo_answers sample_basics py_str_def py_int_def sample_paths fields)
  then show ?thesis by (simp add: sample_config_def default_gate_def)
qed

definition sample_settled :: dispatcher where
  "sample_settled = snd (settle sample_config 20 ''r1'' ''succeeded'' sample_report sample_open)"

lemma sample_settled_steps: "steps sample_config new_dispatcher sample_settled"
  unfolding sample_settled_def
  by (rule rtranclp.rtrancl_into_rtrancl [OF sample_open_steps atomic.Settled])

lemma sample_settled_run:
  "\<exists>r. get_run sample_settled ''r1'' = Some r \<and> rn_status r = ''succeeded'' \<and> rn_mutating r \<and> rn_issue_id r = ''o#1'' \<and>
     rn_commit_evidence r = JObj (as_record sample_correlated)"
proof -
  have open_run: "get_run sample_open ''r1'' = Some sample_active" by (simp add: sample_open_def get_run_def)
  have active: "rn_status sample_active = ''in_progress''" "rn_mutating sample_active" "rn_issue_id sample_active = ''o#1''"
    by (simp_all add: sample_active_def sample_claimed_def)
  have none: "with_containment sample_config r = r" for r by (simp add: with_containment_def sample_config_def)
  have "iterate (dget sample_report ''artifacts'') = Inr []" by (simp add: sample_report_def iterate_def)
  then have "\<exists>v. gate_commit sample_config 20 sample_active ''succeeded'' sample_report =
      Inr (''succeeded'', v, Some (as_record sample_correlated)) \<and> dget v ''evidence_gate'' = JStr ''commit_correlated''"
    using sample_gate active by (simp add: gate_commit_def gate_mutating_def with_marker_def)
  then show ?thesis
    by (auto simp: sample_settled_def settle_def Let_def open_run active none recover_timeout_evidence_def
        settled_run_def EVIDENCE_GATE_READONLY_def)
qed

theorem dispatcher_refines_life_cycle_witness:
  "life_step\<^sup>*\<^sup>* Absent (life_of (get_run sample_settled ''r1''))"
  using dispatcher_refines_life_cycle [OF sample_settled_steps, of "''r1''"] by (simp add: life_of_def)

theorem succeeded_means_accepted_witness:
  "\<exists>r0 envelope e. cf_commit_gate sample_config r0 envelope = Gate_accepts e \<and> rn_issue_id r0 = ''o#1''"
  using sample_settled_run succeeded_means_accepted [OF sample_settled_steps, of "''r1''"] by metis

theorem recorded_success_is_reviewable_witness:
  "\<exists>a. run_diff_projection sample_runlib (\<lambda>_. sample_repo []) ''o#1'' ''r1'' (registry_json sample_settled) = Inr (Some a) \<and>
     da_commit a = Some sample_sha"
proof -
  obtain r where r: "get_run sample_settled ''r1'' = Some r" "rn_status r = ''succeeded''" "rn_mutating r" "rn_issue_id r = ''o#1''"
    "rn_commit_evidence r = JObj (as_record sample_correlated)"
    using sample_settled_run by blast
  have refs: "safe_reference (JStr ''r1'') = Some ''r1''" "safe_reference (JStr ''o#1'') = Some ''o#1''"
    "safe_reference (JStr ''work'') = Some ''work''" "\<not> blank ''w''"
    by (simp_all add: safe_reference_def slash_root_def drive_path_def startswith_def blank_def is_space_def)
  have logged: "dget (as_dict (rn_commit_evidence r)) ''worktree'' = JStr ''w''" "dget (as_dict (rn_commit_evidence r)) ''branch'' = JStr ''work''"
    "dget (as_dict (rn_commit_evidence r)) ''commit'' = JStr sample_sha"
    by (simp_all add: r as_dict_def as_record_def sample_correlated_def sample_accepted_def)
  have "fst (sample_repo [] xs) = 0" for xs by (simp add: sample_repo_def)
  then show ?thesis
    using recorded_success_is_reviewable [OF sample_settled_steps _ r(1-3), of sample_runlib "sample_repo []" "Fin 0" "''w''" "''work''"
        "\<lambda>_. sample_repo []" sample_sha] refs logged r(4)
    by (auto simp: sample_config_def sample_repo_answers)
qed

end
