(* ===== verification/Dispatcher_Claims.thy ===== *)
theory Dispatcher_Claims
  imports Dispatcher_Props
begin

text \<open>
  Claims, sweeps and resynchronisation: at most one active top-level Run per issue and no more of
  them than the ceiling, a sweep leaves no expired Run active, a resynchronisation finishes what it
  may, and what an unknown status does.
\<close>

section \<open>One active Run per issue\<close>

definition top_active :: "disp_run \<Rightarrow> bool" where
  "top_active r \<longleftrightarrow> rn_status r = ''in_progress'' \<and> rn_parent_run_id r = None"

definition tops :: "dispatcher \<Rightarrow> (string \<times> string) set" where
  "tops st = {(i, rn_issue_id r) | i r. get_run st i = Some r \<and> top_active r}"

lemma finite_tops [simp]: "finite (tops st)"
proof -
  have "tops st \<subseteq> (\<lambda>(i, r). (i, rn_issue_id r)) ` set (dp_runs st)"
    by (force simp: tops_def get_run_def dest: map_of_SomeD)
  then show ?thesis by (rule finite_subset) simp
qed

lemma tops_active: "snd ` tops st \<subseteq> set (active_issue_ids st)"
  by (force simp: tops_def active_issue_ids_def top_active_def get_run_def dest: map_of_SomeD)

lemma tops_update:
  assumes "\<And>r. get_run st k = Some r \<Longrightarrow> top_active (f r) \<Longrightarrow> top_active r \<and> rn_issue_id (f r) = rn_issue_id r"
  shows "tops (update_run k f st) \<subseteq> tops st"
  using assms by (fastforce simp: tops_def split: if_split_asm)

lemma tops_same: "get_run st' = get_run st \<Longrightarrow> tops st' = tops st"
  by (simp add: tops_def)

lemma tops_settle: "tops (snd (settle cfg now run_id status envelope st)) \<subseteq> tops st"
proof -
  have contained: "tops (update_run run_id (with_containment cfg) st) \<subseteq> tops st"
    by (rule tops_update) (simp add: top_active_def)
  have "tops (update_run run_id (settled_run now s v e) (observe run_id v e (update_run run_id (with_containment cfg) st)))
      \<subseteq> tops st" if "get_run st run_id = Some r" "rn_status r = ''in_progress''" for s v e r
  proof -
    have "tops (update_run run_id (settled_run now s v e) (observe run_id v e (update_run run_id (with_containment cfg) st)))
        \<subseteq> tops (observe run_id v e (update_run run_id (with_containment cfg) st))"
      by (rule tops_update) (use that in \<open>auto simp: top_active_def\<close>)
    also have "\<dots> = tops (update_run run_id (with_containment cfg) st)"
      by (rule tops_same) (simp add: fun_eq_iff)
    finally show ?thesis using contained by blast
  qed
  then show ?thesis using contained
    by (auto simp: settle_def Let_def split: option.split sum.split prod.split)
qed

lemma atomic_tops:
  "atomic cfg st st' \<Longrightarrow> tops st' \<subseteq> tops st \<or>
   (\<exists>i issue. tops st' \<subseteq> insert (i, issue) (tops st) \<and> issue \<notin> set (active_issue_ids st) \<and>
      (\<forall>m. cf_max_parallel_workers cfg = Some m \<longrightarrow> int (length (active_issue_ids st)) < m))"
proof (induction rule: atomic.induct)
  case (Claimed st run_id generated nested g now issue_id labels_of lease_seconds)
  obtain w wr rt where l: "labels_of = (w, wr, rt)" by (cases labels_of)
  have "tops (snd (claim cfg nested g now issue_id labels_of lease_seconds run_id generated st)) \<subseteq> tops st \<or>
     tops (snd (claim cfg nested g now issue_id labels_of lease_seconds run_id generated st)) \<subseteq>
       insert (claimed_id run_id generated, issue_id) (tops st) \<and>
     issue_id \<notin> set (active_issue_ids st) \<and>
      (\<forall>m. cf_max_parallel_workers cfg = Some m \<longrightarrow> int (length (active_issue_ids st)) < m)"
    unfolding claim_def l Let_def
    by (auto simp: tops_def claimed_id_def split: option.splits if_splits)
  then show ?case by blast
next
  case (Spawned st parent n now)
  have "tops (snd (spawn_child cfg now parent n st)) \<subseteq> tops st"
    by (auto simp: spawn_child_def Let_def tops_def top_active_def split: option.splits if_splits)
  then show ?case by blast
next
  case Settled show ?case using tops_settle by blast
next
  case (Called st e) show ?case using tops_same [of "emit e st" st] by (simp add: fun_eq_iff)
qed (auto simp: heartbeat_def claim_sync_def top_active_def intro!: disjI1 tops_update split: option.split)

definition claims_ok :: "disp_config \<Rightarrow> dispatcher \<Rightarrow> bool" where
  "claims_ok cfg st \<longleftrightarrow> inj_on snd (tops st) \<and>
     (\<forall>m. cf_max_parallel_workers cfg = Some m \<longrightarrow> int (card (tops st)) \<le> max 0 m)"

lemma claims_ok_subset: "claims_ok cfg st \<Longrightarrow> tops st' \<subseteq> tops st \<Longrightarrow> claims_ok cfg st'"
  using card_mono [OF finite_tops, of "tops st'" st] by (fastforce simp: claims_ok_def intro: inj_on_subset)

lemma claims_ok_claim:
  assumes "claims_ok cfg st" "tops st' \<subseteq> insert (i, issue) (tops st)" "issue \<notin> set (active_issue_ids st)"
    and "\<And>m. cf_max_parallel_workers cfg = Some m \<Longrightarrow> int (length (active_issue_ids st)) < m"
  shows "claims_ok cfg st'"
proof -
  have inj: "inj_on snd (tops st)" using assms(1) by (simp add: claims_ok_def)
  have new: "issue \<notin> snd ` tops st" using assms(3) tops_active [of st] by blast
  have "card (tops st) = card (snd ` tops st)" using inj by (simp add: card_image)
  also have "\<dots> \<le> card (set (active_issue_ids st))" by (rule card_mono [OF _ tops_active]) simp
  also have "\<dots> \<le> length (active_issue_ids st)" by (rule card_length)
  finally have "card (tops st') \<le> Suc (length (active_issue_ids st))"
    using card_mono [OF _ assms(2)] card_insert_le_m1 [of "Suc (card (tops st))" "tops st" "(i, issue)"] by simp
  moreover have "inj_on snd (insert (i, issue) (tops st))" using inj new by (auto simp: inj_on_insert)
  then have "inj_on snd (tops st')" using assms(2) by (rule inj_on_subset)
  ultimately show ?thesis using assms(4) by (fastforce simp: claims_ok_def)
qed

lemma steps_claims_ok: "steps cfg new_dispatcher st \<Longrightarrow> claims_ok cfg st"
proof (induction rule: rtranclp_induct)
  case base show ?case by (simp add: claims_ok_def tops_def)
next
  case (step st1 st2)
  from atomic_tops [OF step(2)] show ?case
    using claims_ok_subset [OF step(3)] claims_ok_claim [OF step(3)] by blast
qed

text \<open>C4: At most one top-level Run of an issue is active, and the active top-level Runs are no more
  than the worker ceiling, in every state the dispatcher's threads can interleave into from an empty
  registry.\<close>

theorem one_active_run_per_issue:
  assumes "steps cfg new_dispatcher st"
  shows "(\<forall>i j r s. get_run st i = Some r \<longrightarrow> get_run st j = Some s \<longrightarrow> top_active r \<longrightarrow> top_active s \<longrightarrow>
      rn_issue_id r = rn_issue_id s \<longrightarrow> i = j) \<and>
    (\<forall>m. cf_max_parallel_workers cfg = Some m \<longrightarrow> int (card {i. \<exists>r. get_run st i = Some r \<and> top_active r}) \<le> max 0 m)"
proof -
  have ok: "inj_on snd (tops st)" "\<And>m. cf_max_parallel_workers cfg = Some m \<Longrightarrow> int (card (tops st)) \<le> max 0 m"
    using steps_claims_ok [OF assms] by (auto simp: claims_ok_def)
  have "i = j" if "get_run st i = Some r" "get_run st j = Some s" "top_active r" "top_active s"
      "rn_issue_id r = rn_issue_id s" for i j r s
    using inj_onD [OF ok(1), of "(i, rn_issue_id r)" "(j, rn_issue_id s)"] that by (fastforce simp: tops_def)
  moreover have "{i. \<exists>r. get_run st i = Some r \<and> top_active r} = fst ` tops st" by (force simp: tops_def)
  then have "card {i. \<exists>r. get_run st i = Some r \<and> top_active r} \<le> card (tops st)" by (simp add: card_image_le)
  ultimately show ?thesis using ok(2) by fastforce
qed

section \<open>Sweeping\<close>

definition settled :: "disp_run option \<Rightarrow> bool" where
  "settled x \<longleftrightarrow> (\<exists>r. x = Some r \<and> rn_status r \<noteq> ''in_progress'')"

lemma run_step_settled: "run_step cfg i x y \<Longrightarrow> settled x \<Longrightarrow> settled y"
  by (induction rule: run_step.induct) (auto simp: settled_def core_def)

lemma steps_settled: "steps cfg st st' \<Longrightarrow> settled (get_run st i) \<Longrightarrow> settled (get_run st' i)"
  by (rule steps_run_inv [where P = settled]) (rule run_step_settled)

lemma steps_present:
  assumes "steps cfg st st'" "get_run st i \<noteq> None"
  shows "get_run st' i \<noteq> None"
proof (rule steps_run_inv [where P = "\<lambda>x. x \<noteq> None" and cfg = cfg and st = st])
  show "y \<noteq> None" if "run_step cfg i x y" "x \<noteq> None" for x y using that by (induction rule: run_step.induct) auto
qed (use assms in auto)

text \<open>An operation on one Run leaves the others as they are.\<close>

lemma settle_other: "i \<noteq> k \<Longrightarrow> get_run (snd (settle cfg now k status envelope st)) i = get_run st i"
  by (auto simp: settle_def Let_def split: option.split sum.split prod.split)

lemma submit_review_other: "i \<noteq> k \<Longrightarrow> get_run (snd (submit_review cfg k envelope st)) i = get_run st i"
  by (simp add: submit_review_def split: option.split)

lemma sync_move_other: "i \<noteq> k \<Longrightarrow> get_run (snd (sync_move cfg g k issue_id status envelope st)) i = get_run st i"
  by (auto simp: sync_move_def submit_review_other split: option.split)

lemma sync_github_other: "i \<noteq> k \<Longrightarrow> get_run (snd (sync_github cfg g now k issue_id status envelope st)) i = get_run st i"
proof -
  assume ne: "i \<noteq> k"
  obtain b st1 where c: "claim_sync now k st = (b, st1)" by fastforce
  obtain e st2 where m: "sync_move cfg g k issue_id status envelope st1 = (e, st2)" by fastforce
  have 1: "get_run st1 i = get_run st i"
    using c ne by (auto simp: claim_sync_def split: option.split_asm if_split_asm)
  have "get_run st2 i = get_run st i" using sync_move_other [OF ne, of cfg g issue_id status envelope st1] m 1 by simp
  with 1 ne show ?thesis by (auto simp: sync_github_def c m split: bool.split sum.split)
qed

lemma complete_other: "i \<noteq> k \<Longrightarrow> get_run (snd (complete cfg g now k status envelope st)) i = get_run st i"
  using complete_state [of cfg g now k status envelope st] sync_github_other [of i k] settle_other [of i k] by fastforce

definition issues_ok :: "dispatcher \<Rightarrow> bool" where
  "issues_ok st \<longleftrightarrow> (\<forall>i r. get_run st i = Some r \<longrightarrow> issue_parts_ok (rn_issue_id r))"

lemma issues_ok_update:
  "issues_ok st \<Longrightarrow> (\<And>r. rn_issue_id (f r) = rn_issue_id r) \<Longrightarrow> issues_ok (update_run k f st)"
  by (auto simp: issues_ok_def)

lemma issues_ok_same: "issues_ok st \<Longrightarrow> get_run st' = get_run st \<Longrightarrow> issues_ok st'"
  by (simp add: issues_ok_def)

lemma issues_ok_settle:
  assumes "issues_ok st"
  shows "issues_ok (snd (settle cfg now run_id status envelope st))"
proof -
  have contained: "issues_ok (update_run run_id (with_containment cfg) st)"
    by (rule issues_ok_update [OF assms]) simp
  have "issues_ok (observe run_id v e (update_run run_id (with_containment cfg) st))" for v e
    by (rule issues_ok_same [OF contained]) (simp add: fun_eq_iff)
  then show ?thesis using contained assms
    by (auto simp: settle_def Let_def intro!: issues_ok_update split: option.split sum.split prod.split)
qed

lemma atomic_issues_ok: "atomic cfg st st' \<Longrightarrow> issues_ok st \<Longrightarrow> issues_ok st'"
proof (induction rule: atomic.induct)
  case (Claimed st run_id generated nested g now issue_id labels_of lease_seconds)
  then show ?case by (cases labels_of) (auto simp: claim_def Let_def issues_ok_def split: option.split)
next
  case (Spawned st parent n now)
  then show ?case by (auto simp: spawn_child_def Let_def issues_ok_def split: option.split)
next
  case (Called st e)
  then show ?case by (rule issues_ok_same) (simp add: fun_eq_iff)
qed (auto simp: heartbeat_def claim_sync_def issues_ok_settle intro!: issues_ok_update split: option.split)

lemma steps_issues_ok: "steps cfg st st' \<Longrightarrow> issues_ok st \<Longrightarrow> issues_ok st'"
  by (induction rule: rtranclp_induct) (auto intro: atomic_issues_ok)

text \<open>The registry is a dictionary: a key occurs once.\<close>

definition keys_ok :: "dispatcher \<Rightarrow> bool" where
  "keys_ok st \<longleftrightarrow> distinct (map fst (dp_runs st))"

lemma keys_ok_ops [simp]:
  "keys_ok st \<Longrightarrow> keys_ok (update_run k f st)" "keys_ok st \<Longrightarrow> keys_ok (add_run r st)"
  "keys_ok (emit e st) = keys_ok st" "keys_ok (gh_failed b e st) = keys_ok st" "keys_ok (observe run_id v ev st) = keys_ok st"
  by (auto simp: keys_ok_def update_run_def add_run_def emit_def gh_failed_def observe_def intro: AList.distinct_update split: option.split)

lemma atomic_keys_ok: "atomic cfg st st' \<Longrightarrow> keys_ok st \<Longrightarrow> keys_ok st'"
proof (induction rule: atomic.induct)
  case (Claimed st run_id generated nested g now issue_id labels_of lease_seconds)
  then show ?case by (cases labels_of) (auto simp: claim_def Let_def split: option.split)
qed (auto simp: spawn_child_def heartbeat_def claim_sync_def settle_def Let_def split: option.split sum.split prod.split)

lemma steps_keys_ok: "steps cfg new_dispatcher st \<Longrightarrow> keys_ok st"
proof (induction rule: rtranclp_induct)
  case base show ?case by (simp add: keys_ok_def new_dispatcher_def)
qed (rule atomic_keys_ok)

lemma listed_run:
  assumes "steps cfg new_dispatcher st" "r \<in> set (map snd (dp_runs st))"
  shows "get_run st (rn_run_id r) = Some r"
proof -
  obtain i where "(i, r) \<in> set (dp_runs st)" using assms(2) by auto
  then have i: "get_run st i = Some r"
    using steps_keys_ok [OF assms(1)] by (simp add: keys_ok_def get_run_def)
  then show ?thesis using steps_keyed [OF _ assms(1), of i] by (simp add: keyed_def)
qed

text \<open>A recovery that answers names artifacts that can be listed.\<close>

definition recoverable :: "disp_config \<Rightarrow> bool" where
  "recoverable cfg \<longleftrightarrow> (\<forall>recover r envelope. cf_evidence_recovery cfg = Some recover \<longrightarrow> recover r = Some envelope \<longrightarrow>
     (\<exists>xs. iterate (dget envelope ''artifacts'') = Inr xs))"

lemma gate_total:
  assumes "iterate (dget envelope ''artifacts'') = Inr xs"
  shows "\<exists>s v e. gate_commit cfg now r ''succeeded'' envelope = Inr (s, v, e) \<and> s \<noteq> ''in_progress''"
proof -
  have marked: "\<exists>ys. with_marker m envelope = Inr ys" for m using assms by (simp add: with_marker_def)
  have mutating: "\<exists>s v e. gate_mutating cfg r envelope = Inr (s, v, e) \<and> s \<noteq> ''in_progress''"
  proof (cases "cf_commit_gate cfg r envelope")
    case (Gate_accepts ev)
    then show ?thesis using marked [of "''commit:'' @ ce_commit ev"] by (auto simp: gate_mutating_def)
  qed (simp_all add: gate_mutating_def)
  have readonly: "\<exists>s v e. gate_readonly cfg now r envelope = Inr (s, v, e) \<and> s \<noteq> ''in_progress''"
  proof (cases "verify_readonly_report (cf_hash cfg) (Fin now) (asdict r) envelope")
    case (Inr ev)
    then show ?thesis using marked [of "''observation:'' @ re_observed_digest ev"] by (auto simp: gate_readonly_def)
  qed (simp add: gate_readonly_def)
  show ?thesis using mutating readonly by (simp add: gate_commit_def)
qed

lemma gate_after_recovery:
  assumes "recoverable cfg" "recover_timeout_evidence cfg r ''timed_out'' envelope = (s, v)"
  shows "\<exists>s' v' e'. gate_commit cfg now r s v = Inr (s', v', e') \<and> s' \<noteq> ''in_progress''"
proof (cases "s = ''succeeded''")
  case True
  then have "\<exists>xs. iterate (dget v ''artifacts'') = Inr xs"
    using assms by (auto simp: recover_timeout_evidence_def recoverable_def split: option.split_asm)
  then show ?thesis using gate_total True by blast
next
  case False
  then have "s = ''timed_out''" using assms(2) by (auto simp: recover_timeout_evidence_def split: option.split_asm)
  then show ?thesis by (simp add: gate_commit_def)
qed

lemma settle_timeout:
  assumes "recoverable cfg" "get_run st k \<noteq> None" "settle cfg now k ''timed_out'' envelope st = (x, st')"
  shows "settled (get_run st' k) \<and> (\<forall>e. x = Inl e \<longrightarrow> e = Already_terminal)"
proof -
  obtain r where r: "get_run st k = Some r" using assms(2) by auto
  show ?thesis
  proof (cases "rn_status r = ''in_progress''")
    case True
    obtain s v where rec: "recover_timeout_evidence cfg (with_containment cfg r) ''timed_out'' envelope = (s, v)" by fastforce
    then have "\<exists>s' v' e'. gate_commit cfg now (with_containment cfg r) s v = Inr (s', v', e') \<and> s' \<noteq> ''in_progress''"
      by (rule gate_after_recovery [OF assms(1)])
    then show ?thesis using assms(3) r True rec by (auto simp: settle_def Let_def settled_def)
  qed (use assms(3) r in \<open>auto simp: settle_def settled_def\<close>)
qed

lemma sync_github_errors:
  assumes "sync_github cfg g now k issue_id status envelope st = (Inl e, st')" "issue_parts_ok issue_id"
  shows "e \<in> {GitHub_error, Submission_error}"
proof -
  obtain b st1 where c: "claim_sync now k st = (b, st1)" by fastforce
  obtain y st2 where m: "sync_move cfg g k issue_id status envelope st1 = (y, st2)" by fastforce
  have "e' \<in> {GitHub_error, Submission_error}" if "y = Inl e'" for e'
    using m that by (auto simp: sync_move_def submit_review_def split: option.split_asm if_split_asm)
  then show ?thesis using assms
    by (auto simp: sync_github_def c m split: bool.split_asm sum.split_asm if_split_asm)
qed

lemma complete_timeout:
  assumes "recoverable cfg" "get_run st k \<noteq> None" "issues_ok st"
    and c: "complete cfg g now k ''timed_out'' envelope st = (x, st')"
  shows "settled (get_run st' k) \<and> (\<forall>e. x = Inl e \<longrightarrow> runtime_error e)"
proof -
  obtain y st1 where s: "settle cfg now k ''timed_out'' envelope st = (y, st1)" by fastforce
  have 1: "settled (get_run st1 k)" "\<And>e. y = Inl e \<Longrightarrow> e = Already_terminal"
    using settle_timeout [OF assms(1,2) s] by auto
  obtain r where r: "get_run st1 k = Some r" using 1 by (auto simp: settled_def)
  have parts: "issue_parts_ok (rn_issue_id r)"
    using issues_ok_settle [OF assms(3), of cfg now k "''timed_out''" envelope] s r by (auto simp: issues_ok_def)
  have "settled (get_run st' k)"
    using complete_state [of cfg g now k "''timed_out''" envelope st] c s steps_settled [OF sync_github_steps 1(1)] 1(1)
    by fastforce
  moreover have "runtime_error e" if "x = Inl e" for e
    using c that 1(2) sync_github_errors [OF _ parts]
    by (fastforce simp: complete_def s r split: sum.split_asm prod.split_asm if_split_asm)
  ultimately show ?thesis by blast
qed

lemma sweep_runs_settle:
  assumes "recoverable cfg" "issues_ok st" "\<forall>i\<in>set run_ids. get_run st i \<noteq> None"
  shows "(\<exists>swept. fst (sweep_runs cfg g now run_ids st) = Inr swept) \<and>
    (\<forall>i\<in>set run_ids. settled (get_run (snd (sweep_runs cfg g now run_ids st)) i)) \<and>
    (\<forall>i. i \<notin> set run_ids \<longrightarrow> get_run (snd (sweep_runs cfg g now run_ids st)) i = get_run st i)"
  using assms(2,3)
proof (induction run_ids arbitrary: st)
  case (Cons k ks)
  obtain x st1 where c: "complete cfg (g k) now k ''timed_out'' (lease_error k st) st = (x, st1)" by fastforce
  have over: "settled (get_run st1 k)" "\<And>e. x = Inl e \<Longrightarrow> runtime_error e"
    using complete_timeout [OF assms(1) _ Cons.prems(1) c] Cons.prems(2) by auto
  have st1: "steps cfg st st1" using complete_steps [of cfg st "g k" now k] c by (metis snd_conv)
  have other: "get_run st1 i = get_run st i" if "i \<noteq> k" for i
    using complete_other [OF that, of cfg "g k" now "''timed_out''" "lease_error k st" st] c by simp
  have "\<forall>i\<in>set ks. get_run st1 i \<noteq> None" using steps_present [OF st1] Cons.prems(2) by auto
  note IH = Cons.IH [OF steps_issues_ok [OF st1 Cons.prems(1)] this]
  obtain y st2 where rest: "sweep_runs cfg g now ks st1 = (y, st2)" by fastforce
  have "settled (get_run st2 k)"
    using steps_settled [OF sweep_runs_steps over(1), of cfg g now ks] rest by simp
  then show ?case using IH rest over(2) other by (cases x) (auto simp: c)
qed simp

text \<open>C5: A sweep ends and leaves no expired Run active. In every reachable state, whatever GitHub
  answers and whoever else has settled a Run in between, the sweep returns a list of Runs (it does not
  raise), and afterwards no Run is in progress whose lease is over.\<close>

theorem sweep_leaves_no_expired_run:
  assumes "steps cfg new_dispatcher st" "recoverable cfg"
  shows "\<exists>swept st'. sweep_expired cfg g now st = (Inr swept, st') \<and>
    (\<forall>i r. get_run st' i = Some r \<longrightarrow> rn_status r = ''in_progress'' \<longrightarrow> \<not> is_expired now r)"
proof -
  have keyed: "rn_run_id r = i" if "get_run st i = Some r" for i r
    using steps_keyed [OF _ assms(1), of i] that by (simp add: keyed_def)
  have here: "\<forall>i\<in>set (expired_runs now st). get_run st i \<noteq> None"
    using listed_run [OF assms(1)] by (auto simp: expired_runs_def)
  have listed: "i \<in> set (expired_runs now st)" if "get_run st i = Some r" "rn_status r = ''in_progress''" "is_expired now r" for i r
    using keyed [OF that(1)] that by (force simp: expired_runs_def get_run_def dest: map_of_SomeD)
  have "issues_ok st" using steps_issues_ok [OF assms(1)] by (simp add: issues_ok_def)
  note sweep = sweep_runs_settle [OF assms(2) this here, of g now]
  obtain x st' where s: "sweep_expired cfg g now st = (x, st')" by fastforce
  have "\<not> is_expired now r" if "get_run st' i = Some r" "rn_status r = ''in_progress''" for i r
  proof
    assume "is_expired now r"
    show False
    proof (cases "i \<in> set (expired_runs now st)")
      case True
      then have "settled (get_run st' i)" using sweep s by (simp add: sweep_expired_def)
      then show False using that by (simp add: settled_def)
    next
      case False
      then have "get_run st i = Some r" using sweep s that by (simp add: sweep_expired_def)
      then show False using listed that(2) \<open>is_expired now r\<close> False by blast
    qed
  qed
  moreover have "\<exists>swept. x = Inr swept" using sweep s by (simp add: sweep_expired_def)
  ultimately show ?thesis using s by blast
qed

section \<open>Resynchronising\<close>

definition answering :: "disp_config \<Rightarrow> (string \<Rightarrow> gh_answers) \<Rightarrow> bool" where
  "answering cfg g \<longleftrightarrow> (\<forall>i. ga_swap (g i) \<and> ga_comment (g i)) \<and>
     (\<forall>submitter r v e. cf_review_submitter cfg = Some submitter \<longrightarrow> submitter r v e \<noteq> None)"

lemma effects_simps [simp]:
  "dp_effects (update_run k f st) = dp_effects st" "dp_effects (emit e st) = dp_effects st @ [e]"
  by (simp_all add: update_run_def emit_def split: option.split)

text \<open>What a synchronisation makes GitHub and the review store do for a Run: its label goes to the target of a cancelled or
  failing status, or else the result is submitted for review, and then one comment is posted on its issue.\<close>

definition announced :: "disp_config \<Rightarrow> rat \<Rightarrow> disp_run \<Rightarrow> effect list" where
  "announced cfg now r = (case sync_target (rn_status r) of
       Some target \<Rightarrow> [Swapped (rn_issue_id r) LABEL_IN_PROGRESS target]
     | None \<Rightarrow> (case cf_review_submitter cfg of
         None \<Rightarrow> []
       | Some submitter \<Rightarrow>
           (case submitter (r\<lparr>rn_gh_sync_claimed_at := Some now\<rparr>) (as_dict (rn_result r)) (rn_commit_evidence r) of
              Some i \<Rightarrow> if truthy i then [Submitted (rn_run_id r)] else []
            | None \<Rightarrow> [])))
   @ [Commented (rn_issue_id r)]"

text \<open>The Runs a resynchronisation has to announce: settled, top-level, not synchronised, and with no fresh lease.\<close>

definition settled_unsynced :: "disp_run \<Rightarrow> bool" where
  "settled_unsynced r \<longleftrightarrow> rn_parent_run_id r = None \<and> rn_status r \<noteq> ''in_progress'' \<and> \<not> rn_gh_synced r"

definition due_syncs :: "rat \<Rightarrow> dispatcher \<Rightarrow> disp_run list" where
  "due_syncs now st = filter (\<lambda>r. settled_unsynced r \<and> sync_claim_stale now r) (map snd (dp_runs st))"

lemma sync_move_answers:
  assumes "answering cfg g"
  shows "\<exists>st'. sync_move cfg (g i) k issue_id status envelope st = (Inr (), st')"
proof (cases "sync_target status")
  case None
  have "\<exists>st'. submit_review cfg k envelope st = (Inr (), st')"
  proof (cases "cf_review_submitter cfg")
    case (Some submitter)
    show ?thesis
    proof (cases "get_run st k")
      case (Some r)
      obtain i where "submitter r envelope (rn_commit_evidence r) = Some i"
        using assms \<open>cf_review_submitter cfg = Some submitter\<close> by (fastforce simp: answering_def)
      then show ?thesis using Some \<open>cf_review_submitter cfg = Some submitter\<close> by (simp add: submit_review_def)
    qed (simp add: submit_review_def split: option.split)
  qed (simp add: submit_review_def)
  then show ?thesis by (simp add: sync_move_def None)
next
  case (Some target)
  then show ?thesis using assms by (simp add: sync_move_def answering_def)
qed

lemma sync_move_announces:
  assumes "answering cfg g" "get_run st k = Some r" "rn_run_id r = k" "rn_gh_sync_claimed_at r = Some now"
  obtains st' where "sync_move cfg (g i) k (rn_issue_id r) (rn_status r) (as_dict (rn_result r)) st = (Inr (), st')"
    "dp_effects st' @ [Commented (rn_issue_id r)] = dp_effects st @ announced cfg now r"
proof -
  obtain st' where m: "sync_move cfg (g i) k (rn_issue_id r) (rn_status r) (as_dict (rn_result r)) st = (Inr (), st')"
    using sync_move_answers [OF assms(1)] by blast
  have u: "r\<lparr>rn_gh_sync_claimed_at := Some now\<rparr> = r" using assms(4) by (cases r) simp
  have "dp_effects st' @ [Commented (rn_issue_id r)] = dp_effects st @ announced cfg now r"
  proof (cases "sync_target (rn_status r)")
    case (Some target)
    then show ?thesis using m by (simp add: sync_move_def announced_def split: if_split_asm) auto
  next
    case None
    then have s: "submit_review cfg k (as_dict (rn_result r)) st = (Inr (), st')" using m by (simp add: sync_move_def)
    show ?thesis
    proof (cases "cf_review_submitter cfg")
      case (Some submitter)
      then show ?thesis using s None assms(2,3)
        by (cases "submitter r (as_dict (rn_result r)) (rn_commit_evidence r)")
          (auto simp: submit_review_def announced_def u split: if_split_asm)
    qed (use s None in \<open>simp add: submit_review_def announced_def\<close>)
  qed
  then show thesis using m that by blast
qed

lemma announced_lease [simp]: "announced cfg now (r\<lparr>rn_gh_sync_claimed_at := x\<rparr>) = announced cfg now r"
  by (auto simp: announced_def split: option.split)

text \<open>One Run: it is announced and marked when it is due, and left alone when another caller holds its lease.\<close>

lemma sync_github_answers:
  assumes "answering cfg g" "issue_parts_ok (rn_issue_id r)" "get_run st k = Some r" "rn_run_id r = k" "\<not> rn_gh_synced r"
  shows "\<not> sync_claim_stale now r \<Longrightarrow>
      sync_github cfg (g i) now k (rn_issue_id r) (rn_status r) (as_dict (rn_result r)) st = (Inr False, st)"
    and "sync_claim_stale now r \<Longrightarrow> \<exists>st'. sync_github cfg (g i) now k (rn_issue_id r) (rn_status r) (as_dict (rn_result r)) st = (Inr True, st') \<and>
      (\<exists>r'. get_run st' k = Some r' \<and> rn_gh_synced r') \<and> dp_effects st' = dp_effects st @ announced cfg now r"
proof -
  show "sync_github cfg (g i) now k (rn_issue_id r) (rn_status r) (as_dict (rn_result r)) st = (Inr False, st)" if "\<not> sync_claim_stale now r"
    using that assms by (simp add: sync_github_def claim_sync_def)
  assume "sync_claim_stale now r"
  let ?r = "r\<lparr>rn_gh_sync_claimed_at := Some now\<rparr>"
  let ?st = "update_run k (\<lambda>r. r\<lparr>rn_gh_sync_claimed_at := Some now\<rparr>) st"
  have c: "claim_sync now k st = (True, ?st)" using assms \<open>sync_claim_stale now r\<close> by (simp add: claim_sync_def)
  have l: "get_run ?st k = Some ?r" using assms(3) by simp
  obtain st2 where m: "sync_move cfg (g i) k (rn_issue_id r) (rn_status r) (as_dict (rn_result r)) ?st = (Inr (), st2)"
    "dp_effects st2 @ [Commented (rn_issue_id r)] = dp_effects st @ announced cfg now r"
    using sync_move_announces [OF assms(1) l, of now i] assms(4) by auto
  have "get_run st2 k \<noteq> None" using steps_present [OF sync_move_steps, of ?st k cfg "g i"] m(1) l by (metis option.distinct(1) snd_conv)
  then show "\<exists>st'. sync_github cfg (g i) now k (rn_issue_id r) (rn_status r) (as_dict (rn_result r)) st = (Inr True, st') \<and>
      (\<exists>r'. get_run st' k = Some r' \<and> rn_gh_synced r') \<and> dp_effects st' = dp_effects st @ announced cfg now r"
    using assms(1,2) m by (auto simp: sync_github_def c answering_def)
qed

lemma resync_runs_answer:
  assumes "answering cfg g" "distinct (map rn_run_id rs)"
    and "\<forall>r\<in>set rs. issue_parts_ok (rn_issue_id r) \<and> get_run st (rn_run_id r) = Some r \<and> \<not> rn_gh_synced r"
  shows "\<exists>st'. resync_runs cfg g now (map (\<lambda>r. (rn_run_id r, rn_issue_id r, rn_status r, rn_result r)) rs) st
      = (Inr (map rn_run_id (filter (sync_claim_stale now) rs)), st') \<and>
    dp_effects st' = dp_effects st @ concat (map (announced cfg now) (filter (sync_claim_stale now) rs)) \<and>
    (\<forall>r\<in>set (filter (sync_claim_stale now) rs). \<exists>r'. get_run st' (rn_run_id r) = Some r' \<and> rn_gh_synced r') \<and>
    (\<forall>i. i \<notin> rn_run_id ` set (filter (sync_claim_stale now) rs) \<longrightarrow> get_run st' i = get_run st i)"
  using assms(2,3)
proof (induction rs arbitrary: st)
  case (Cons r rs)
  let ?k = "rn_run_id r"
  have r: "issue_parts_ok (rn_issue_id r)" "get_run st ?k = Some r" "\<not> rn_gh_synced r" using Cons.prems(2) by auto
  note one = sync_github_answers [OF assms(1) r(1,2) refl r(3), where now = now and i = ?k]
  show ?case
  proof (cases "sync_claim_stale now r")
    case False
    then show ?thesis using one(1) Cons.IH [of st] Cons.prems by auto
  next
    case True
    obtain st1 where s: "sync_github cfg (g ?k) now ?k (rn_issue_id r) (rn_status r) (as_dict (rn_result r)) st = (Inr True, st1)"
      "\<exists>r'. get_run st1 ?k = Some r' \<and> rn_gh_synced r'" "dp_effects st1 = dp_effects st @ announced cfg now r"
      using one(2) [OF True] by blast
    have other: "get_run st1 i = get_run st i" if "i \<noteq> ?k" for i
      using sync_github_other [OF that, of cfg "g ?k" now "rn_issue_id r" "rn_status r" "as_dict (rn_result r)" st] s(1) by simp
    have ne: "rn_run_id q \<noteq> ?k" if "q \<in> set rs" for q using Cons.prems(1) that by (simp add: image_iff) metis
    have "\<forall>q\<in>set rs. issue_parts_ok (rn_issue_id q) \<and> get_run st1 (rn_run_id q) = Some q \<and> \<not> rn_gh_synced q"
      using Cons.prems(2) ne other by simp
    then obtain st' where IH: "resync_runs cfg g now (map (\<lambda>r. (rn_run_id r, rn_issue_id r, rn_status r, rn_result r)) rs) st1
        = (Inr (map rn_run_id (filter (sync_claim_stale now) rs)), st')"
      "dp_effects st' = dp_effects st1 @ concat (map (announced cfg now) (filter (sync_claim_stale now) rs))"
      "\<forall>r\<in>set (filter (sync_claim_stale now) rs). \<exists>r'. get_run st' (rn_run_id r) = Some r' \<and> rn_gh_synced r'"
      "\<forall>i. i \<notin> rn_run_id ` set (filter (sync_claim_stale now) rs) \<longrightarrow> get_run st' i = get_run st1 i"
      using Cons.IH [of st1] Cons.prems(1) by auto
    have "?k \<notin> rn_run_id ` set (filter (sync_claim_stale now) rs)" using ne by force
    then have "\<exists>r'. get_run st' ?k = Some r' \<and> rn_gh_synced r'" using IH(4) s(2) by simp
    then show ?thesis using True s IH other by auto
  qed
qed simp

text \<open>C6: A resynchronisation finishes every Run it may. In every reachable state, when GitHub and the review store answer,
  it returns without raising the ids of exactly the settled top-level Runs that were not synchronised and on which
  nobody held a fresh lease; it made GitHub and the review store do for each of them, in order, exactly what
  \<open>announced\<close> says - its label moved or its result submitted, and one comment - and nothing else; each of them is marked as
  synchronised, and every other Run is left as it was.\<close>

theorem resync_finishes_pending_runs:
  assumes "steps cfg new_dispatcher st" "answering cfg g"
  shows "\<exists>st'. resync_pending cfg g now st = (Inr (map rn_run_id (due_syncs now st)), st') \<and>
    dp_effects st' = dp_effects st @ concat (map (announced cfg now) (due_syncs now st)) \<and>
    (\<forall>r\<in>set (due_syncs now st). \<exists>r'. get_run st' (rn_run_id r) = Some r' \<and> rn_gh_synced r') \<and>
    (\<forall>i. i \<notin> rn_run_id ` set (due_syncs now st) \<longrightarrow> get_run st' i = get_run st i)"
proof -
  let ?rs = "filter settled_unsynced (map snd (dp_runs st))"
  have issues: "issues_ok st" using steps_issues_ok [OF assms(1)] by (simp add: issues_ok_def)
  have listed: "get_run st (rn_run_id r) = Some r" if "r \<in> set (map snd (dp_runs st))" for r
    by (rule listed_run [OF assms(1) that])
  have here: "\<forall>r\<in>set ?rs. issue_parts_ok (rn_issue_id r) \<and> get_run st (rn_run_id r) = Some r \<and> \<not> rn_gh_synced r"
    using issues listed by (auto simp: issues_ok_def settled_unsynced_def)
  have "map fst (dp_runs st) = map rn_run_id (map snd (dp_runs st))"
  proof -
    have "fst x = rn_run_id (snd x)" if "x \<in> set (dp_runs st)" for x
    proof -
      have "get_run st (fst x) = Some (snd x)" using that steps_keys_ok [OF assms(1)] by (simp add: keys_ok_def get_run_def)
      then show ?thesis using steps_keyed [OF _ assms(1), of "fst x"] by (simp add: keyed_def)
    qed
    then show ?thesis by simp
  qed
  then have d: "distinct (map rn_run_id ?rs)" using steps_keys_ok [OF assms(1)] unfolding keys_ok_def by (metis distinct_map_filter)
  have due: "filter (sync_claim_stale now) ?rs = due_syncs now st" by (simp add: due_syncs_def conj_commute)
  have "pending_syncs st = map (\<lambda>r. (rn_run_id r, rn_issue_id r, rn_status r, rn_result r)) ?rs"
    by (simp add: pending_syncs_def settled_unsynced_def [abs_def])
  then show ?thesis using resync_runs_answer [OF assms(2) d here, of now] unfolding due by (simp add: resync_pending_def)
qed

section \<open>Statuses the dispatcher does not know\<close>

lemma with_containment_evidence [simp]: "rn_commit_evidence (with_containment cfg r) = rn_commit_evidence r"
  by (simp add: with_containment_def split: option.split)

text \<open>A status the dispatcher does not know passes no gate and is submitted for review all the
  same. Whatever the commit gate says, completing a mutating Run with a status that is neither
  \<open>succeeded\<close>, \<open>timed_out\<close>, \<open>cancelled\<close> nor a failing one writes the review submission and records the
  status without commit evidence.\<close>

theorem unknown_status_skips_the_gate:
  assumes "get_run st k = Some r" "rn_status r = ''in_progress''" "rn_mutating r" "rn_parent_run_id r = None"
    and "\<not> rn_gh_synced r" "sync_claim_stale now r" "issue_parts_ok (rn_issue_id r)" "ga_comment g"
    and "status \<notin> {''succeeded'', ''timed_out'', ''cancelled''}" "status \<notin> set FAILING_STATUSES"
    and "cf_review_submitter cfg = Some submitter" "\<And>r e. submitter r envelope e = Some submission_id" "truthy submission_id"
  shows "\<exists>r' st'. complete cfg g now k status envelope st = (Inr (Some r'), st') \<and> rn_status r' = status \<and>
    rn_mutating r' \<and> rn_commit_evidence r' = rn_commit_evidence r \<and> rn_review_submission_id r' = submission_id \<and>
    Submitted k \<in> set (dp_effects st')"
proof -
  let ?r = "settled_run now status envelope None (with_containment cfg r)"
  obtain st1 where s: "settle cfg now k status envelope st = (Inr (status, envelope), st1)" "get_run st1 k = Some ?r"
    using assms(1,2,9) by (auto simp: settle_def Let_def recover_timeout_evidence_def gate_commit_def)
  have stale: "sync_claim_stale now ?r" using assms(6) by (simp add: sync_claim_stale_def)
  have target: "sync_target status = None" using assms(9,10) by (simp add: sync_target_def)
  show ?thesis using assms(3-5,7,8,11-) stale target
    by (simp add: complete_def s sync_github_def claim_sync_def sync_move_def submit_review_def)
      (simp add: settled_run_def)
qed

section \<open>Witnesses\<close>

lemma sample_open_run: "get_run sample_open ''r1'' = Some sample_active"
  by (simp add: sample_open_def get_run_def)

theorem one_active_run_per_issue_witness:
  "top_active sample_active \<and> int (card {i. \<exists>r. get_run sample_open i = Some r \<and> top_active r}) \<le> 2"
  using one_active_run_per_issue [OF sample_open_steps]
  by (simp add: sample_config_def sample_active_def sample_claimed_def top_active_def)

theorem sweep_leaves_no_expired_run_witness:
  "is_expired 1000 sample_active \<and>
   (\<exists>swept st'. sweep_expired sample_config (\<lambda>_. sample_answers) 1000 sample_open = (Inr swept, st') \<and>
      get_run st' ''r1'' \<noteq> Some sample_active)"
proof -
  have late: "is_expired 1000 sample_active"
    by (simp add: is_expired_def sample_active_def sample_claimed_def Let_def)
  have "rn_status sample_active = ''in_progress''" by (simp add: sample_active_def sample_claimed_def)
  with late show ?thesis
    using sweep_leaves_no_expired_run [OF sample_open_steps, of "\<lambda>_. sample_answers" 1000]
    by (fastforce simp: recoverable_def sample_config_def)
qed

text \<open>A cancelled Run that nobody has announced yet.\<close>

definition sample_cancelled :: dispatcher where
  "sample_cancelled = snd (settle sample_config 20 ''r1'' ''cancelled'' [] sample_open)"

lemma sample_cancelled_run:
  "dp_runs sample_cancelled = [(''r1'', settled_run 20 ''cancelled'' [] None sample_active)]"
proof -
  have "with_containment sample_config r = r" for r by (simp add: with_containment_def sample_config_def)
  then show ?thesis
    by (simp add: sample_cancelled_def settle_def Let_def sample_open_run recover_timeout_evidence_def gate_commit_def
        observe_def update_run_def sample_active_def sample_claimed_def)
      (simp add: sample_open_def get_run_def sample_active_def sample_claimed_def)
qed

theorem resync_finishes_pending_runs_witness:
  "\<exists>st'. resync_pending sample_config (\<lambda>_. sample_answers) 30 sample_cancelled = (Inr [''r1''], st') \<and>
     dp_effects st' = dp_effects sample_cancelled @ [Swapped ''o#1'' LABEL_IN_PROGRESS LABEL_READY, Commented ''o#1'']"
proof -
  have s: "steps sample_config new_dispatcher sample_cancelled"
    unfolding sample_cancelled_def by (rule rtranclp.rtrancl_into_rtrancl [OF sample_open_steps atomic.Settled])
  have a: "answering sample_config (\<lambda>_. sample_answers)" by (simp add: answering_def sample_answers_def sample_config_def)
  have due: "due_syncs 30 sample_cancelled = [settled_run 20 ''cancelled'' [] None sample_active]"
    by (simp add: due_syncs_def sample_cancelled_run settled_unsynced_def settled_run_def sync_claim_stale_def sample_active_def sample_claimed_def)
  show ?thesis using resync_finishes_pending_runs [OF s a, of 30]
    by (simp add: due announced_def sync_target_def settled_run_def sample_active_def sample_claimed_def) blast
qed

theorem unknown_status_skips_the_gate_witness:
  "\<exists>r' st'. complete sample_config sample_answers 20 ''r1'' ''done'' [] sample_open = (Inr (Some r'), st') \<and>
     rn_status r' = ''done'' \<and> rn_commit_evidence r' = JNull \<and> Submitted ''r1'' \<in> set (dp_effects st')"
proof -
  have "issue_parts_ok ''o#1''" by (simp add: issue_parts_ok_def)
  then show ?thesis
    using unknown_status_skips_the_gate [OF sample_open_run, of 20 sample_answers "''done''" sample_config
        "\<lambda>_ _ _. Some (JStr ''s'')" "[]" "JStr ''s''"]
    by (auto simp: sample_active_def sample_claimed_def sync_claim_stale_def sample_answers_def sample_config_def FAILING_STATUSES_def)
qed

end
