(* ===== verification/Dispatch_Sync.thy ===== *)
theory Dispatch_Sync
  imports Dispatcher_Claims
begin

text \<open>
  The part of \<open>_sync_github\<close> that runs without the lock, interleaved. Callers (\<open>complete\<close> and any
  number of \<open>resync_pending\<close>) compete for the lease of one settled Run; the winner swaps the label or
  submits, comments, and marks the Run. A call of \<open>gh\<close> is cut off after 20 seconds
  (\<open>GH_CLI_TIMEOUT_SECONDS\<close>); \<open>limit\<close> bounds how long a caller takes from its lease to its mark. A comment call that raises,
  as one cut off does, may or may not have left its comment on GitHub; \<open>sy_lost\<close> counts those that did.
\<close>

definition GH_CLI_TIMEOUT_SECONDS :: rat where
  "GH_CLI_TIMEOUT_SECONDS = 20"

text \<open>A caller outside the calls, in the first call, in the second call, or done with both: when it
  took the lease, and when its call started.\<close>

datatype phase = Outside | Moving rat | Posting rat rat | Marking rat

fun leased_at :: "phase \<Rightarrow> rat option" where
  "leased_at Outside = None"
| "leased_at (Moving c) = Some c"
| "leased_at (Posting c t) = Some c"
| "leased_at (Marking c) = Some c"

fun call_started :: "phase \<Rightarrow> rat option" where
  "call_started (Moving c) = Some c"
| "call_started (Posting c t) = Some t"
| "call_started p = None"

record sync_state =
  sy_now :: rat
  sy_disp :: dispatcher
  sy_phase :: "nat \<Rightarrow> phase"
  sy_lost :: nat

definition in_time :: "rat \<Rightarrow> rat \<Rightarrow> sync_state \<Rightarrow> bool" where
  "in_time limit t S \<longleftrightarrow> sy_now S \<le> t \<and>
     (\<forall>i s. call_started (sy_phase S i) = Some s \<longrightarrow> t \<le> s + GH_CLI_TIMEOUT_SECONDS) \<and>
     (\<forall>i c. leased_at (sy_phase S i) = Some c \<longrightarrow> t \<le> c + limit)"

inductive sync_step ::
    "disp_config \<Rightarrow> rat \<Rightarrow> string \<Rightarrow> string \<Rightarrow> string \<Rightarrow> dict \<Rightarrow> sync_state \<Rightarrow> sync_state \<Rightarrow> bool"
  for cfg limit k issue status envelope where
  Ticks: "in_time limit t S \<Longrightarrow> sync_step cfg limit k issue status envelope S (S\<lparr>sy_now := t\<rparr>)"
| Takes: "sy_phase S i = Outside \<Longrightarrow> claim_sync (sy_now S) k (sy_disp S) = (True, st) \<Longrightarrow>
    sync_step cfg limit k issue status envelope S
      (S\<lparr>sy_disp := st, sy_phase := (sy_phase S)(i := Moving (sy_now S))\<rparr>)"
| Moves: "sy_phase S i = Moving c \<Longrightarrow> sync_move cfg g k issue status envelope (sy_disp S) = (Inr (), st) \<Longrightarrow>
    sync_step cfg limit k issue status envelope S
      (S\<lparr>sy_disp := st, sy_phase := (sy_phase S)(i := Posting c (sy_now S))\<rparr>)"
| Move_fails: "sy_phase S i = Moving c \<Longrightarrow> sync_move cfg g k issue status envelope (sy_disp S) = (Inl e, st) \<Longrightarrow>
    sync_step cfg limit k issue status envelope S (S\<lparr>sy_disp := st, sy_phase := (sy_phase S)(i := Outside)\<rparr>)"
| Posts: "sy_phase S i = Posting c t \<Longrightarrow>
    sync_step cfg limit k issue status envelope S
      (S\<lparr>sy_disp := emit (Commented issue) (sy_disp S), sy_phase := (sy_phase S)(i := Marking c)\<rparr>)"
| Post_fails: "sy_phase S i = Posting c t \<Longrightarrow>
    sync_step cfg limit k issue status envelope S (S\<lparr>sy_phase := (sy_phase S)(i := Outside)\<rparr>)"
| Post_lost: "sy_phase S i = Posting c t \<Longrightarrow>
    sync_step cfg limit k issue status envelope S
      (S\<lparr>sy_disp := emit (Commented issue) (sy_disp S), sy_phase := (sy_phase S)(i := Outside), sy_lost := Suc (sy_lost S)\<rparr>)"
| Marks: "sy_phase S i = Marking c \<Longrightarrow>
    sync_step cfg limit k issue status envelope S
      (S\<lparr>sy_disp := update_run k (\<lambda>r. r\<lparr>rn_gh_synced := True\<rparr>) (sy_disp S), sy_phase := (sy_phase S)(i := Outside)\<rparr>)"

definition posts :: "string \<Rightarrow> dispatcher \<Rightarrow> nat" where
  "posts issue st = count_list (dp_effects st) (Commented issue)"

definition sync_start :: "rat \<Rightarrow> dispatcher \<Rightarrow> sync_state" where
  "sync_start now st = \<lparr>sy_now = now, sy_disp = st, sy_phase = (\<lambda>_. Outside), sy_lost = 0\<rparr>"

section \<open>Callers that keep to the lease\<close>

lemma posts_emit [simp]: "posts issue (emit e st) = posts issue st + (if e = Commented issue then 1 else 0)"
  by (simp add: posts_def)

lemma posts_update [simp]: "posts issue (update_run k f st) = posts issue st"
  by (simp add: posts_def)

lemma posts_gh_failed [simp]: "posts issue (gh_failed b (Swapped x y z) st) = posts issue st"
  by (simp add: gh_failed_def)

lemma fresh_lease: "now \<le> c + 30 \<Longrightarrow> rn_gh_sync_claimed_at r = Some c \<Longrightarrow> \<not> sync_claim_stale now r"
  using rnd_mono [of "now - c" 30] by (simp add: sync_claim_stale_def GH_SYNC_CLAIM_LEASE_SECONDS_def)

lemma sync_move_keeps:
  assumes "sync_move cfg g k issue status envelope st = (x, st')"
  shows "posts issue st' = posts issue st \<and> (get_run st k = None \<longleftrightarrow> get_run st' k = None) \<and>
    (\<forall>r'. get_run st' k = Some r' \<longrightarrow> (\<exists>r. get_run st k = Some r \<and> rn_gh_synced r' = rn_gh_synced r \<and>
       rn_gh_sync_claimed_at r' = rn_gh_sync_claimed_at r))"
  using assms
  by (auto simp: sync_move_def submit_review_def split: option.split_asm if_split_asm)

text \<open>At most one caller is inside, and it holds the lease the Run records. Beside the comments of failed calls, a comment
  more than at the start is there only when the Run is marked or that caller is about to mark it.\<close>

definition orderly :: "rat \<Rightarrow> string \<Rightarrow> string \<Rightarrow> nat \<Rightarrow> sync_state \<Rightarrow> bool" where
  "orderly limit k issue n S \<longleftrightarrow> (\<exists>r. get_run (sy_disp S) k = Some r \<and>
     (\<forall>i c. leased_at (sy_phase S i) = Some c \<longrightarrow>
        rn_gh_sync_claimed_at r = Some c \<and> \<not> rn_gh_synced r \<and> sy_now S \<le> c + limit) \<and>
     (\<forall>i j. sy_phase S i \<noteq> Outside \<longrightarrow> sy_phase S j \<noteq> Outside \<longrightarrow> i = j) \<and>
     posts issue (sy_disp S) = n + sy_lost S + (if rn_gh_synced r \<or> (\<exists>i c. sy_phase S i = Marking c) then 1 else 0))"

lemma leased_None [simp]: "leased_at p = None \<longleftrightarrow> p = Outside"
  by (cases p) auto

text \<open>The state with one caller inside, or none.\<close>

lemma orderlyI:
  assumes "\<And>j. j \<noteq> i \<Longrightarrow> sy_phase S j = Outside" "get_run (sy_disp S) k = Some r"
    and "\<And>c. leased_at (sy_phase S i) = Some c \<Longrightarrow>
      rn_gh_sync_claimed_at r = Some c \<and> \<not> rn_gh_synced r \<and> sy_now S \<le> c + limit"
    and "posts issue (sy_disp S) = n + sy_lost S + (if rn_gh_synced r \<or> (\<exists>c. sy_phase S i = Marking c) then 1 else 0)"
  shows "orderly limit k issue n S"
proof -
  have one: "j = i" if "sy_phase S j \<noteq> Outside" for j using assms(1) that by blast
  have "rn_gh_sync_claimed_at r = Some c \<and> \<not> rn_gh_synced r \<and> sy_now S \<le> c + limit"
    if "leased_at (sy_phase S j) = Some c" for j c
  proof -
    have "sy_phase S j \<noteq> Outside" using that by (auto simp del: leased_None)
    then show ?thesis using assms(3) one that by blast
  qed
  moreover have "(\<exists>j c. sy_phase S j = Marking c) \<longleftrightarrow> (\<exists>c. sy_phase S i = Marking c)" using one by (metis phase.distinct(5))
  moreover have "\<forall>j j'. sy_phase S j \<noteq> Outside \<longrightarrow> sy_phase S j' \<noteq> Outside \<longrightarrow> j = j'" using one by blast
  ultimately show ?thesis unfolding orderly_def using assms(2,4) by simp
qed

lemma orderly_inside:
  assumes "orderly limit k issue n S" "leased_at (sy_phase S i) = Some c"
  obtains r where "get_run (sy_disp S) k = Some r" "rn_gh_sync_claimed_at r = Some c" "\<not> rn_gh_synced r" "sy_now S \<le> c + limit"
    "\<And>j. j \<noteq> i \<Longrightarrow> sy_phase S j = Outside"
    "posts issue (sy_disp S) = n + sy_lost S + (if \<exists>c. sy_phase S i = Marking c then 1 else 0)"
proof -
  obtain r where r: "get_run (sy_disp S) k = Some r" "rn_gh_sync_claimed_at r = Some c" "\<not> rn_gh_synced r" "sy_now S \<le> c + limit"
    and one: "\<And>i j. sy_phase S i \<noteq> Outside \<Longrightarrow> sy_phase S j \<noteq> Outside \<Longrightarrow> i = j"
    and count: "posts issue (sy_disp S) = n + sy_lost S + (if rn_gh_synced r \<or> (\<exists>i c. sy_phase S i = Marking c) then 1 else 0)"
    using assms unfolding orderly_def by blast
  have "sy_phase S i \<noteq> Outside" using assms(2) by auto
  then have out: "sy_phase S j = Outside" if "j \<noteq> i" for j using one that by blast
  then have "(\<exists>j c. sy_phase S j = Marking c) \<longleftrightarrow> (\<exists>c. sy_phase S i = Marking c)" by (metis phase.distinct(5))
  then show thesis using that [OF r out] count r(3) by simp
qed

lemma orderly_step:
  assumes "sync_step cfg limit k issue status envelope S S'" "orderly limit k issue n S" "0 \<le> limit" "limit \<le> 30"
  shows "orderly limit k issue n S'"
  using assms
proof (induction rule: sync_step.induct)
  case (Ticks t S)
  obtain r where r: "get_run (sy_disp S) k = Some r"
    "\<forall>i c. leased_at (sy_phase S i) = Some c \<longrightarrow> rn_gh_sync_claimed_at r = Some c \<and> \<not> rn_gh_synced r \<and> sy_now S \<le> c + limit"
    "\<forall>i j. sy_phase S i \<noteq> Outside \<longrightarrow> sy_phase S j \<noteq> Outside \<longrightarrow> i = j"
    "posts issue (sy_disp S) = n + sy_lost S + (if rn_gh_synced r \<or> (\<exists>i c. sy_phase S i = Marking c) then 1 else 0)"
    using Ticks(2) unfolding orderly_def by blast
  have "\<forall>i c. leased_at (sy_phase S i) = Some c \<longrightarrow> rn_gh_sync_claimed_at r = Some c \<and> \<not> rn_gh_synced r \<and> t \<le> c + limit"
    using r(2) Ticks(1) unfolding in_time_def by blast
  then show ?case using r unfolding orderly_def by (intro exI [of _ r]) simp
next
  case (Takes S i st)
  obtain r where r: "get_run (sy_disp S) k = Some r" using Takes by (auto simp: orderly_def)
  have free: "\<not> rn_gh_synced r" "sync_claim_stale (sy_now S) r"
    "st = update_run k (\<lambda>r. r\<lparr>rn_gh_sync_claimed_at := Some (sy_now S)\<rparr>) (sy_disp S)"
    using Takes(2) r by (auto simp: claim_sync_def split: if_split_asm)
  have empty: "sy_phase S j = Outside" for j
  proof (rule ccontr)
    assume "sy_phase S j \<noteq> Outside"
    then obtain c where "leased_at (sy_phase S j) = Some c" by (cases "leased_at (sy_phase S j)") auto
    then obtain r' where "get_run (sy_disp S) k = Some r'" "rn_gh_sync_claimed_at r' = Some c" "sy_now S \<le> c + limit"
      by (rule orderly_inside [OF Takes(3)])
    then show False using fresh_lease [of "sy_now S" c r] free(2) r Takes(5) by simp
  qed
  then have "posts issue (sy_disp S) = n + sy_lost S" using Takes(3) r free(1) by (simp add: orderly_def)
  with empty show ?case using Takes(4) r free
    by (intro orderlyI [where i = i and r = "r\<lparr>rn_gh_sync_claimed_at := Some (sy_now S)\<rparr>"]) auto
next
  case (Moves S i c g st)
  then obtain r where r: "get_run (sy_disp S) k = Some r" "rn_gh_sync_claimed_at r = Some c" "\<not> rn_gh_synced r" "sy_now S \<le> c + limit"
    "\<And>j. j \<noteq> i \<Longrightarrow> sy_phase S j = Outside" "posts issue (sy_disp S) = n + sy_lost S"
    by (auto elim!: orderly_inside [where i = i and c = c])
  obtain r' where "get_run st k = Some r'" using sync_move_keeps [OF Moves(2)] r(1) by (cases "get_run st k") auto
  then show ?case using sync_move_keeps [OF Moves(2)] r
    by (intro orderlyI [where i = i and r = r']) auto
next
  case (Move_fails S i c g e st)
  then obtain r where r: "get_run (sy_disp S) k = Some r" "\<not> rn_gh_synced r"
    "\<And>j. j \<noteq> i \<Longrightarrow> sy_phase S j = Outside" "posts issue (sy_disp S) = n + sy_lost S"
    by (auto elim!: orderly_inside [where i = i and c = c])
  obtain r' where "get_run st k = Some r'" using sync_move_keeps [OF Move_fails(2)] r(1) by (cases "get_run st k") auto
  then show ?case using sync_move_keeps [OF Move_fails(2)] r
    by (intro orderlyI [where i = i and r = r']) auto
next
  case (Posts S i c t)
  then obtain r where r: "get_run (sy_disp S) k = Some r" "rn_gh_sync_claimed_at r = Some c" "\<not> rn_gh_synced r" "sy_now S \<le> c + limit"
    "\<And>j. j \<noteq> i \<Longrightarrow> sy_phase S j = Outside" "posts issue (sy_disp S) = n + sy_lost S"
    by (auto elim!: orderly_inside [where i = i and c = c])
  then show ?case by (intro orderlyI [where i = i and r = r]) auto
next
  case (Post_fails S i c t)
  then obtain r where r: "get_run (sy_disp S) k = Some r" "\<not> rn_gh_synced r"
    "\<And>j. j \<noteq> i \<Longrightarrow> sy_phase S j = Outside" "posts issue (sy_disp S) = n + sy_lost S"
    by (auto elim!: orderly_inside [where i = i and c = c])
  then show ?case by (intro orderlyI [where i = i and r = r]) auto
next
  case (Post_lost S i c t)
  then obtain r where r: "get_run (sy_disp S) k = Some r" "\<not> rn_gh_synced r"
    "\<And>j. j \<noteq> i \<Longrightarrow> sy_phase S j = Outside" "posts issue (sy_disp S) = n + sy_lost S"
    by (auto elim!: orderly_inside [where i = i and c = c])
  then show ?case by (intro orderlyI [where i = i and r = r]) auto
next
  case (Marks S i c)
  then obtain r where r: "get_run (sy_disp S) k = Some r"
    "\<And>j. j \<noteq> i \<Longrightarrow> sy_phase S j = Outside" "posts issue (sy_disp S) = n + sy_lost S + 1"
    by (auto elim!: orderly_inside [where i = i and c = c])
  then show ?case by (intro orderlyI [where i = i and r = "r\<lparr>rn_gh_synced := True\<rparr>"]) auto
qed

text \<open>C7: Callers that stay within the lease comment at most once, and once more for every comment call that failed although its
  comment is there. When every caller needs no more than the 30 seconds of the lease from taking it to marking the Run, then however
  many of them compete and whichever of their calls fail, the comments posted are at most one more than the comment calls that raised
  after GitHub had stored their comment. Nothing in the code finds such a comment again.\<close>

theorem one_comment_within_the_lease:
  assumes "(sync_step cfg limit k issue status envelope)\<^sup>*\<^sup>* (sync_start now st) S" "0 \<le> limit" "limit \<le> GH_SYNC_CLAIM_LEASE_SECONDS"
    and "get_run st k = Some r" "\<not> rn_gh_synced r"
  shows "posts issue (sy_disp S) \<le> Suc (posts issue st + sy_lost S)"
proof -
  have "orderly limit k issue (posts issue st) S"
    using assms(1)
  proof (induction rule: rtranclp_induct)
    case base
    show ?case by (rule orderlyI [where i = 0 and r = r]) (use assms in \<open>auto simp: sync_start_def\<close>)
  next
    case (step S1 S2)
    then show ?case using orderly_step assms(2,3) by (simp add: GH_SYNC_CLAIM_LEASE_SECONDS_def)
  qed
  then show ?thesis by (auto simp: orderly_def split: if_split_asm)
qed

section \<open>Callers that keep to the timeouts only\<close>

text \<open>C8: The timeouts of the two calls do not keep a caller within its lease. For every unsynchronised
  Run there is a schedule in which no call of \<open>gh\<close> lasts longer than its timeout of 20 seconds, and the
  result comment is posted twice, without any call that fails: the lease of 30 seconds covers one call, and a caller makes two.\<close>

theorem timeouts_allow_two_comments:
  assumes "get_run st k = Some r" "\<not> rn_gh_synced r" "sync_claim_stale now r" "answering cfg (\<lambda>_. g)"
  shows "\<exists>S. (sync_step cfg (2 * GH_CLI_TIMEOUT_SECONDS) k issue status envelope)\<^sup>*\<^sup>* (sync_start now st) S \<and>
    posts issue (sy_disp S) = posts issue st + 2 \<and> sy_lost S = 0"
proof -
  let ?step = "sync_step cfg (2 * GH_CLI_TIMEOUT_SECONDS) k issue status envelope"
  let ?lease = "\<lambda>t. update_run k (\<lambda>r. r\<lparr>rn_gh_sync_claimed_at := Some t\<rparr>)"
  let ?start = "sync_start now st"
  have first: "claim_sync now k st = (True, ?lease now st)"
    using assms(1-3) by (simp add: claim_sync_def)
  obtain st1 where move1: "sync_move cfg g k issue status envelope (?lease now st) = (Inr (), st1)"
    using sync_move_answers [OF assms(4)] by blast
  have kept1: "posts issue st1 = posts issue st"
    "\<And>r'. get_run st1 k = Some r' \<Longrightarrow> \<not> rn_gh_synced r' \<and> rn_gh_sync_claimed_at r' = Some now" "get_run st1 k \<noteq> None"
    using sync_move_keeps [OF move1] assms(1,2) by auto
  then obtain r1 where r1: "get_run st1 k = Some r1" by blast
  have second: "claim_sync (now + 31) k st1 = (True, ?lease (now + 31) st1)"
    using kept1(2) [OF r1] r1 by (simp add: claim_sync_def sync_claim_stale_def GH_SYNC_CLAIM_LEASE_SECONDS_def)
  obtain st2 where move2: "sync_move cfg g k issue status envelope (emit (Commented issue) (?lease (now + 31) st1)) = (Inr (), st2)"
    using sync_move_answers [OF assms(4)] by blast
  have kept2: "posts issue st2 = posts issue st + 1"
    using sync_move_keeps [OF move2] kept1(1) by simp
  let ?S1 = "?start\<lparr>sy_disp := ?lease now st, sy_phase := (\<lambda>_. Outside)(0 := Moving now)\<rparr>"
  let ?S2 = "?S1\<lparr>sy_now := now + 20\<rparr>"
  let ?S3 = "?S2\<lparr>sy_disp := st1, sy_phase := (\<lambda>_. Outside)(0 := Posting now (now + 20))\<rparr>"
  let ?S4 = "?S3\<lparr>sy_now := now + 31\<rparr>"
  let ?S5 = "?S4\<lparr>sy_disp := ?lease (now + 31) st1, sy_phase := (\<lambda>_. Outside)(0 := Posting now (now + 20), 1 := Moving (now + 31))\<rparr>"
  let ?S6 = "?S5\<lparr>sy_disp := emit (Commented issue) (?lease (now + 31) st1),
    sy_phase := (\<lambda>_. Outside)(0 := Marking now, 1 := Moving (now + 31))\<rparr>"
  let ?S7 = "?S6\<lparr>sy_disp := st2, sy_phase := (\<lambda>_. Outside)(0 := Marking now, 1 := Posting (now + 31) (now + 31))\<rparr>"
  let ?S8 = "?S7\<lparr>sy_disp := emit (Commented issue) st2, sy_phase := (\<lambda>_. Outside)(0 := Marking now, 1 := Marking (now + 31))\<rparr>"
  have "?step ?start ?S1" using sync_step.Takes [of ?start 0 k "?lease now st"] first by (simp add: sync_start_def)
  moreover have "?step ?S1 ?S2"
    using sync_step.Ticks [of "2 * GH_CLI_TIMEOUT_SECONDS" "now + 20" ?S1] by (simp add: in_time_def sync_start_def GH_CLI_TIMEOUT_SECONDS_def)
  moreover have "?step ?S2 ?S3" using sync_step.Moves [of ?S2 0 now cfg g k issue status envelope st1] move1 by simp
  moreover have "?step ?S3 ?S4"
    using sync_step.Ticks [of "2 * GH_CLI_TIMEOUT_SECONDS" "now + 31" ?S3] by (simp add: in_time_def sync_start_def GH_CLI_TIMEOUT_SECONDS_def)
  moreover have "?step ?S4 ?S5" using sync_step.Takes [of ?S4 1 k "?lease (now + 31) st1"] second by simp
  moreover have "?step ?S5 ?S6" using sync_step.Posts [of ?S5 0 now "now + 20"] by (simp add: fun_upd_twist)
  moreover have "?step ?S6 ?S7"
    using sync_step.Moves [of ?S6 1 "now + 31" cfg g k issue status envelope st2] move2 by simp
  moreover have "?step ?S7 ?S8" using sync_step.Posts [of ?S7 1 "now + 31" "now + 31"] by simp
  ultimately have "?step\<^sup>*\<^sup>* ?start ?S8" by (meson rtranclp.rtrancl_refl rtranclp.rtrancl_into_rtrancl)
  moreover have "posts issue (sy_disp ?S8) = posts issue st + 2 \<and> sy_lost ?S8 = 0" using kept2 by (simp add: sync_start_def)
  ultimately show ?thesis by blast
qed

text \<open>The comments of failed calls do double. A caller within its lease whose comment call is cut off at its timeout, after GitHub
  stored the comment, leaves the Run unmarked; when the lease is over the next caller comments again.\<close>

theorem lost_answer_comments_twice:
  assumes "get_run st k = Some r" "\<not> rn_gh_synced r" "sync_claim_stale now r" "answering cfg (\<lambda>_. g)"
  shows "\<exists>S. (sync_step cfg GH_SYNC_CLAIM_LEASE_SECONDS k issue status envelope)\<^sup>*\<^sup>* (sync_start now st) S \<and>
    posts issue (sy_disp S) = posts issue st + 2 \<and> sy_lost S = 1"
proof -
  let ?step = "sync_step cfg GH_SYNC_CLAIM_LEASE_SECONDS k issue status envelope"
  let ?lease = "\<lambda>t. update_run k (\<lambda>r. r\<lparr>rn_gh_sync_claimed_at := Some t\<rparr>)"
  let ?start = "sync_start now st"
  have first: "claim_sync now k st = (True, ?lease now st)" using assms(1-3) by (simp add: claim_sync_def)
  obtain st1 where move1: "sync_move cfg g k issue status envelope (?lease now st) = (Inr (), st1)"
    using sync_move_answers [OF assms(4)] by blast
  let ?lost = "emit (Commented issue) st1"
  have kept1: "posts issue st1 = posts issue st"
    "\<And>r'. get_run st1 k = Some r' \<Longrightarrow> \<not> rn_gh_synced r' \<and> rn_gh_sync_claimed_at r' = Some now" "get_run st1 k \<noteq> None"
    using sync_move_keeps [OF move1] assms(1,2) by auto
  then obtain r1 where r1: "get_run st1 k = Some r1" by blast
  have second: "claim_sync (now + 31) k ?lost = (True, ?lease (now + 31) ?lost)"
    using kept1(2) [OF r1] r1 by (simp add: claim_sync_def sync_claim_stale_def GH_SYNC_CLAIM_LEASE_SECONDS_def)
  obtain st2 where move2: "sync_move cfg g k issue status envelope (?lease (now + 31) ?lost) = (Inr (), st2)"
    using sync_move_answers [OF assms(4)] by blast
  have kept2: "posts issue st2 = posts issue st + 1" using sync_move_keeps [OF move2] kept1(1) by simp
  let ?S1 = "?start\<lparr>sy_disp := ?lease now st, sy_phase := (\<lambda>_. Outside)(0 := Moving now)\<rparr>"
  let ?S2 = "?S1\<lparr>sy_disp := st1, sy_phase := (\<lambda>_. Outside)(0 := Posting now now)\<rparr>"
  let ?S3 = "?S2\<lparr>sy_now := now + 20\<rparr>"
  let ?S4 = "?S3\<lparr>sy_disp := ?lost, sy_phase := (\<lambda>_. Outside)(0 := Outside), sy_lost := 1\<rparr>"
  let ?S5 = "?S4\<lparr>sy_now := now + 31\<rparr>"
  let ?S6 = "?S5\<lparr>sy_disp := ?lease (now + 31) ?lost, sy_phase := (\<lambda>_. Outside)(0 := Outside, 1 := Moving (now + 31))\<rparr>"
  let ?S7 = "?S6\<lparr>sy_disp := st2, sy_phase := (\<lambda>_. Outside)(0 := Outside, 1 := Posting (now + 31) (now + 31))\<rparr>"
  let ?S8 = "?S7\<lparr>sy_disp := emit (Commented issue) st2, sy_phase := (\<lambda>_. Outside)(0 := Outside, 1 := Marking (now + 31))\<rparr>"
  have "?step ?start ?S1" using sync_step.Takes [of ?start 0 k "?lease now st"] first by (simp add: sync_start_def)
  moreover have "?step ?S1 ?S2" using sync_step.Moves [of ?S1 0 now cfg g k issue status envelope st1] move1 by (simp add: sync_start_def)
  moreover have "?step ?S2 ?S3"
    using sync_step.Ticks [of GH_SYNC_CLAIM_LEASE_SECONDS "now + 20" ?S2]
    by (simp add: in_time_def sync_start_def GH_CLI_TIMEOUT_SECONDS_def GH_SYNC_CLAIM_LEASE_SECONDS_def)
  moreover have "?step ?S3 ?S4" using sync_step.Post_lost [of ?S3 0 now now] by (simp add: sync_start_def)
  moreover have "?step ?S4 ?S5"
    using sync_step.Ticks [of GH_SYNC_CLAIM_LEASE_SECONDS "now + 31" ?S4] by (simp add: in_time_def sync_start_def)
  moreover have "?step ?S5 ?S6" using sync_step.Takes [of ?S5 1 k "?lease (now + 31) ?lost"] second by simp
  moreover have "?step ?S6 ?S7"
    using sync_step.Moves [of ?S6 1 "now + 31" cfg g k issue status envelope st2] move2 by simp
  moreover have "?step ?S7 ?S8" using sync_step.Posts [of ?S7 1 "now + 31" "now + 31"] by simp
  ultimately have "?step\<^sup>*\<^sup>* ?start ?S8" by (meson rtranclp.rtrancl_refl rtranclp.rtrancl_into_rtrancl)
  moreover have "posts issue (sy_disp ?S8) = posts issue st + 2 \<and> sy_lost ?S8 = 1" using kept2 by simp
  ultimately show ?thesis by blast
qed

section \<open>Witnesses\<close>

lemma sample_unsynced: "\<not> rn_gh_synced sample_active" "sync_claim_stale t sample_active"
  by (simp_all add: sample_active_def sample_claimed_def sync_claim_stale_def)

theorem one_comment_within_the_lease_witness:
  "\<exists>S. (sync_step sample_config 30 ''r1'' ''o#1'' ''cancelled'' [])\<^sup>*\<^sup>* (sync_start 20 sample_open) S \<and>
     S \<noteq> sync_start 20 sample_open \<and> posts ''o#1'' (sy_disp S) \<le> 2 + sy_lost S"
proof -
  let ?A = "sync_start 20 sample_open"
  let ?S = "?A\<lparr>sy_disp := snd (claim_sync 20 ''r1'' sample_open), sy_phase := (sy_phase ?A)(0 := Moving (sy_now ?A))\<rparr>"
  have "claim_sync 20 ''r1'' sample_open = (True, snd (claim_sync 20 ''r1'' sample_open))"
    using sample_unsynced by (simp add: claim_sync_def sample_open_run)
  then have step: "(sync_step sample_config 30 ''r1'' ''o#1'' ''cancelled'' [])\<^sup>*\<^sup>* ?A ?S"
    by (intro r_into_rtranclp sync_step.Takes) (simp_all add: sync_start_def)
  have "posts ''o#1'' (sy_disp ?S) \<le> 2 + sy_lost ?S"
    using one_comment_within_the_lease [OF step _ _ sample_open_run sample_unsynced(1)]
    by (simp add: GH_SYNC_CLAIM_LEASE_SECONDS_def posts_def sample_open_def)
  moreover have "sy_phase ?S 0 \<noteq> sy_phase (sync_start 20 sample_open) 0" by (simp add: sync_start_def)
  ultimately show ?thesis using step by metis
qed

theorem timeouts_allow_two_comments_witness:
  "\<exists>S. (sync_step sample_config 40 ''r1'' ''o#1'' ''cancelled'' [])\<^sup>*\<^sup>* (sync_start 20 sample_open) S \<and>
     posts ''o#1'' (sy_disp S) = 1 + 2 \<and> sy_lost S = 0"
proof -
  have "answering sample_config (\<lambda>_. sample_answers)" by (simp add: answering_def sample_config_def sample_answers_def)
  moreover have "posts ''o#1'' sample_open = 1" by (simp add: posts_def sample_open_def)
  ultimately show ?thesis
    using timeouts_allow_two_comments [OF sample_open_run sample_unsynced(1) sample_unsynced(2) [of 20],
        of sample_config sample_answers "''o#1''" "''cancelled''" "[]"]
    by (simp add: GH_CLI_TIMEOUT_SECONDS_def numeral_eq_Suc)
qed

end
