(* ===== verification/Review_Submission.thy ===== *)
theory Review_Submission
  imports Session_State Dispatcher Machines
begin

text \<open>
  The durable review submission, \<open>daemon/review_submission.py\<close>: the event \<open>run.review_submitted\<close> that
  the dispatcher writes into the session store after the evidence gate, from which the review
  transition of the issue is derived. The state is the session store of \<open>Session_State\<close>; a Run is
  the dispatcher's.
\<close>

definition REVIEW_EVENT :: string where "REVIEW_EVENT = ''run.review_submitted''"
definition REVIEW_KIND :: string where "REVIEW_KIND = ''evidence-gate''"

text \<open>A refusal of the store, an unwritable store, and exceptions the function does not turn into its
  own.\<close>

datatype review_error = Review_store session_error | Review_unwritable | Escapes session_error

fun as_review_error :: "session_error \<Rightarrow> review_error" where
  "as_review_error (SessionError c m) = Review_store (SessionError c m)"
| "as_review_error e = Escapes e"

definition review_submission_id :: "hostlib \<Rightarrow> string \<Rightarrow> string" where
  "review_submission_id H run_id = ''review-'' @ take 32 (sha256 H run_id)"

definition event_is :: "string \<Rightarrow> json \<Rightarrow> bool" where
  "event_is event_type e \<longleftrightarrow> dget (as_dict e) ''event_type'' = JStr event_type"

definition created_event :: "json \<Rightarrow> json option" where
  "created_event doc = find (event_is ''session.created'') (events_of doc)"

text \<open>\<open>_find_session\<close>: the loop over the sorted session directories. An exact match of the Run id ends
  it, the first session without a Run id for the issue is kept for the end.\<close>

fun find_in :: "hostlib \<Rightarrow> session_store \<Rightarrow> string \<Rightarrow> string \<Rightarrow> string list \<Rightarrow> string option \<Rightarrow> session_error + string option" where
  "find_in H st run_id issue_id [] legacy = Inr legacy"
| "find_in H st run_id issue_id (sid # sids) legacy =
     (case session_load H sid st of
        Inl (SessionError c m) \<Rightarrow> find_in H st run_id issue_id sids legacy
      | Inl e \<Rightarrow> Inl e
      | Inr doc \<Rightarrow> (case created_event doc of
          None \<Rightarrow> find_in H st run_id issue_id sids legacy
        | Some created \<Rightarrow> (case dget (as_dict created) ''payload'' of
            JObj payload \<Rightarrow>
              if dget payload ''run_id'' = JStr run_id then Inr (Some sid)
              else if legacy = None \<and> dget payload ''run_id'' = JNull \<and> dget payload ''issue_id'' = JStr issue_id
                then find_in H st run_id issue_id sids (Some sid)
              else find_in H st run_id issue_id sids legacy
          | _ \<Rightarrow> Inl Attribute_error)))"

definition find_session :: "hostlib \<Rightarrow> session_store \<Rightarrow> string \<Rightarrow> string \<Rightarrow> session_error + string option" where
  "find_session H st run_id issue_id =
     find_in H st run_id issue_id (sort (filter (\<lambda>sid. startswith sid ''session_'') (remdups (map fst st)))) None"

fun already_submitted :: "json list \<Rightarrow> string \<Rightarrow> session_error + bool" where
  "already_submitted [] submission_id = Inr False"
| "already_submitted (e # es) submission_id =
     (if event_is REVIEW_EVENT e
      then (case dget (as_dict e) ''payload'' of
          JObj payload \<Rightarrow> if dget payload ''review_submission_id'' = JStr submission_id then Inr True
            else already_submitted es submission_id
        | _ \<Rightarrow> Inl Attribute_error)
      else already_submitted es submission_id)"

definition run_branch :: "disp_run \<Rightarrow> json" where
  "run_branch r = dget (rn_approved r) ''branch''"

text \<open>The session of the Run, created when there is none.\<close>

definition open_session :: "hostlib \<Rightarrow> string \<Rightarrow> string \<Rightarrow> bool \<Rightarrow> disp_run \<Rightarrow> session_store
    \<Rightarrow> (session_error + string \<times> json) \<times> session_store" where
  "open_session H now uuid_hex writes r st = (case find_session H st (rn_run_id r) (rn_issue_id r) of
     Inl e \<Rightarrow> (Inl e, st)
   | Inr None \<Rightarrow>
       (case session_create H now uuid_hex writes (JStr (rn_run_id r))
           [(''run_id'', JStr (rn_run_id r)), (''issue_id'', JStr (rn_issue_id r)), (''branch'', run_branch r),
            (''worker_role'', JStr (rn_worker_role r)), (''runtime'', JStr (rn_runtime r))] st of
          (Inl e, st) \<Rightarrow> (Inl e, st)
        | (Inr doc, st) \<Rightarrow> (Inr (''session_'' @ uuid_hex, doc), st))
   | Inr (Some sid) \<Rightarrow> (case session_load H sid st of Inl e \<Rightarrow> (Inl e, st) | Inr doc \<Rightarrow> (Inr (sid, doc), st)))"

definition review_payload :: "hostlib \<Rightarrow> string \<Rightarrow> disp_run \<Rightarrow> dict \<Rightarrow> dict \<Rightarrow> session_error + dict" where
  "review_payload H submitted_at r envelope evidence = (case canonical_bytes H (JObj evidence) of
     None \<Rightarrow> Inl Value_error
   | Some text \<Rightarrow> Inr
       [(''review_submission_id'', JStr (review_submission_id H (rn_run_id r))), (''review_kind'', JStr REVIEW_KIND),
        (''idempotency_key'', JStr (review_submission_id H (rn_run_id r))),
        (''result_status'', or_else (dget envelope ''status'') (JStr (rn_status r))), (''submitted_at'', JStr submitted_at),
        (''payload_hash'', JStr (sha256 H text)), (''run_id'', JStr (rn_run_id r)), (''issue_id'', JStr (rn_issue_id r)),
        (''request_id'', dget (rn_approved r) ''request_id''), (''commit'', dget evidence ''commit''),
        (''branch'', or_else (dget evidence ''branch'') (run_branch r))])"

text \<open>The clock's text of the session events, the fresh digits, whether the store opens and takes a
  file, and the clock of the submission are what a call meets outside.\<close>

record review_call =
  rc_now :: string
  rc_uuid :: string
  rc_opens :: bool
  rc_writes :: bool
  rc_clock :: string
  rc_run :: disp_run
  rc_envelope :: dict
  rc_evidence :: dict

definition submit_review_event :: "hostlib \<Rightarrow> review_call \<Rightarrow> session_store \<Rightarrow> (review_error + string) \<times> session_store" where
  "submit_review_event H q st =
     (if \<not> rc_opens q then (Inl Review_unwritable, st)
      else
        (let r = rc_run q; submission_id = review_submission_id H (rn_run_id r) in
         case open_session H (rc_now q) (rc_uuid q) (rc_writes q) r st of
           (Inl e, st) \<Rightarrow> (Inl (as_review_error e), st)
         | (Inr (sid, doc), st) \<Rightarrow> (case already_submitted (events_of doc) submission_id of
             Inl e \<Rightarrow> (Inl (as_review_error e), st)
           | Inr True \<Rightarrow> (Inr submission_id, st)
           | Inr False \<Rightarrow> (case review_payload H (rc_clock q) r (rc_envelope q) (rc_evidence q) of
               Inl e \<Rightarrow> (Inl (as_review_error e), st)
             | Inr payload \<Rightarrow>
                 (case session_append H (rc_now q) (rc_writes q) sid (latest_sequence doc) REVIEW_EVENT (JObj payload) st of
                    (Inl e, st) \<Rightarrow> (Inl (as_review_error e), st)
                  | (Inr _, st) \<Rightarrow> (Inr submission_id, st))))))"

section \<open>Stores the writer keeps\<close>

definition created_payload :: "json \<Rightarrow> dict option" where
  "created_payload doc = (case created_event doc of None \<Rightarrow> None
     | Some e \<Rightarrow> (case dget (as_dict e) ''payload'' of JObj p \<Rightarrow> Some p | _ \<Rightarrow> None))"

definition is_submission :: "string \<Rightarrow> json \<Rightarrow> bool" where
  "is_submission submission_id e \<longleftrightarrow> event_is REVIEW_EVENT e \<and>
     dget (as_dict (dget (as_dict e) ''payload'')) ''review_submission_id'' = JStr submission_id"

text \<open>A session begins with a creation, and holds at most one submission of an id.\<close>

definition review_session :: "json \<Rightarrow> bool" where
  "review_session v \<longleftrightarrow> created_payload v \<noteq> None \<and>
     (\<forall>e\<in>set (events_of v). event_is REVIEW_EVENT e \<longrightarrow> is_obj (dget (as_dict e) ''payload'')) \<and>
     (\<forall>i. length (filter (is_submission i) (events_of v)) \<le> 1)"

definition review_ok :: "hostlib \<Rightarrow> session_store \<Rightarrow> bool" where
  "review_ok H st \<longleftrightarrow> sessions_ok H st \<and> (\<forall>sid v. map_of st sid = Some (Some v) \<longrightarrow> review_session v)"

definition payload_at :: "session_store \<Rightarrow> string \<Rightarrow> dict option" where
  "payload_at st sid = (case map_of st sid of Some (Some v) \<Rightarrow> created_payload v | _ \<Rightarrow> None)"

definition of_run :: "session_store \<Rightarrow> string \<Rightarrow> string set" where
  "of_run st run_id = {sid. \<exists>p. payload_at st sid = Some p \<and> dget p ''run_id'' = JStr run_id}"

definition of_issue :: "session_store \<Rightarrow> string \<Rightarrow> string set" where
  "of_issue st issue_id = {sid. \<exists>p. payload_at st sid = Some p \<and> dget p ''run_id'' = JNull \<and> dget p ''issue_id'' = JStr issue_id}"

definition first_of :: "string set \<Rightarrow> string option" where
  "first_of S = (case sorted_list_of_set S of [] \<Rightarrow> None | s # _ \<Rightarrow> Some s)"

lemma review_ok_load:
  assumes "review_ok H st" "map_of st sid = Some f"
  obtains v where "f = Some v" "session_load H sid st = Inr v" "review_session v" "session_id_re sid"
  using sessions_ok_load [of H st sid f] assms by (fastforce simp: review_ok_def session_ok_def)

lemma already_submitted_ok:
  "\<forall>e\<in>set es. event_is REVIEW_EVENT e \<longrightarrow> is_obj (dget (as_dict e) ''payload'') \<Longrightarrow>
   already_submitted es i = Inr (\<exists>e\<in>set es. is_submission i e)"
proof (induction es)
  case (Cons e es)
  then show ?case by (cases "dget (as_dict e) ''payload''") (auto simp: is_submission_def as_dict_def)
qed simp

lemma find_in_ok:
  assumes "review_ok H st" "\<forall>sid\<in>set sids. map_of st sid \<noteq> None"
  shows "find_in H st run_id issue_id sids legacy =
    Inr (case filter (\<lambda>sid. sid \<in> of_run st run_id) sids of s # _ \<Rightarrow> Some s
         | [] \<Rightarrow> if legacy \<noteq> None then legacy
             else (case filter (\<lambda>sid. sid \<in> of_issue st issue_id) sids of s # _ \<Rightarrow> Some s | [] \<Rightarrow> None))"
  using assms(2)
proof (induction sids arbitrary: legacy)
  case (Cons sid sids)
  obtain f where f: "map_of st sid = Some f" using Cons.prems by auto
  obtain v where v: "f = Some v" "session_load H sid st = Inr v" "review_session v"
    by (rule review_ok_load [OF assms(1) f])
  obtain p where p: "created_payload v = Some p" using v(3) by (auto simp: review_session_def)
  then obtain e where e: "created_event v = Some e" "dget (as_dict e) ''payload'' = JObj p"
    by (auto simp: created_payload_def split: option.split_asm json.split_asm)
  have at: "payload_at st sid = Some p" by (simp add: payload_at_def f v(1) p)
  have run: "sid \<in> of_run st run_id \<longleftrightarrow> dget p ''run_id'' = JStr run_id" by (simp add: of_run_def at)
  have issue: "sid \<in> of_issue st issue_id \<longleftrightarrow> dget p ''run_id'' = JNull \<and> dget p ''issue_id'' = JStr issue_id"
    by (simp add: of_issue_def at)
  have "\<forall>sid\<in>set sids. map_of st sid \<noteq> None" using Cons.prems by simp
  note IH = Cons.IH [OF this]
  show ?case
    by (cases "filter (\<lambda>sid. sid \<in> of_run st run_id) sids"; cases "sid \<in> of_run st run_id"; cases "sid \<in> of_issue st issue_id")
      (auto simp: v(2) e IH run issue)
qed simp

lemma first_of_filter:
  assumes "S \<subseteq> set xs"
  shows "first_of S = (case filter (\<lambda>x. x \<in> S) (sort (remdups xs)) of [] \<Rightarrow> None | s # _ \<Rightarrow> Some s)"
proof -
  have "filter (\<lambda>x. x \<in> S) (sort (remdups xs)) = sort (remdups (filter (\<lambda>x. x \<in> S) xs))"
    by (simp add: filter_sort remdups_filter)
  also have "\<dots> = sorted_list_of_set S"
    using assms sorted_list_of_set_sort_remdups [of "filter (\<lambda>x. x \<in> S) xs"] by (simp add: Int_absorb1 Int_def [symmetric])
  finally show ?thesis by (simp add: first_of_def)
qed

lemma sessions_named: "review_ok H st \<Longrightarrow> sid \<in> set (map fst st) \<Longrightarrow> startswith sid ''session_''"
proof -
  assume ok: "review_ok H st" and "sid \<in> set (map fst st)"
  then obtain f where "map_of st sid = Some f" by (metis list.set_map map_of_eq_None_iff not_None_eq)
  from review_ok_load [OF ok this] show ?thesis by (metis session_id_re_def)
qed

lemma find_session_ok:
  assumes "review_ok H st"
  shows "find_session H st run_id issue_id =
    Inr (case first_of (of_run st run_id) of Some s \<Rightarrow> Some s | None \<Rightarrow> first_of (of_issue st issue_id))"
proof -
  have keys: "of_run st run_id \<subseteq> set (map fst st)" "of_issue st issue_id \<subseteq> set (map fst st)"
    by (auto simp: of_run_def of_issue_def payload_at_def image_iff dest!: map_of_SomeD split: option.split_asm) (metis fst_conv)+
  have "filter (\<lambda>sid. startswith sid ''session_'') (remdups (map fst st)) = remdups (map fst st)"
    using sessions_named [OF assms] by (intro filter_True) auto
  moreover have "\<forall>sid\<in>set (sort (remdups (map fst st))). map_of st sid \<noteq> None"
    by (auto simp: map_of_eq_None_iff)
  note found = find_in_ok [OF assms this, of run_id issue_id None]
  show ?thesis
    unfolding find_session_def calculation found first_of_filter [OF keys(1)] first_of_filter [OF keys(2)]
    by (simp split: list.split)
qed

section \<open>What a call does\<close>

lemma norm_event [simp]: "dget (as_dict (json_norm (JObj e))) k = json_norm (dget e k)"
  by (simp add: as_dict_def)

lemma session_create_events:
  assumes "session_create H now u w task opt st = (Inr doc, st')"
  shows "\<exists>e. dget e ''event_type'' = JStr ''session.created'' \<and> dget e ''payload'' = JObj (create_payload task opt) \<and>
    events_of doc = [JObj e] \<and> events_of (json_norm doc) = [json_norm (JObj e)]"
proof -
  from assms obtain e where e: "new_event H now 0 ''session.created'' (JObj (create_payload task opt)) (JStr ZERO_HASH) = Inr e"
    and doc: "doc = JObj [(''schema_version'', JInt SESSION_SCHEMA), (''session_id'', JStr (''session_'' @ u)),
                (''events'', JList [JObj e])]"
    by (auto simp: session_create_def atomic_write_def session_path_def Let_def split: if_splits sum.splits option.splits)
  show ?thesis using new_event_fields [OF e] by (simp add: doc events_of_def del: json_norm.simps(2)) simp
qed

lemma find_prefix: "find P xs = Some x \<Longrightarrow> find P (xs @ ys) = Some x"
  by (induction xs) (auto split: if_split_asm)

text \<open>A new event at the end of a session that has no submission of its id.\<close>

lemma review_session_append:
  assumes "review_session v" "events_of v' = events_of v @ [json_norm (JObj e)]" "dget e ''payload'' = JObj p"
    and "dget e ''event_type'' = JStr REVIEW_EVENT" "dget p ''review_submission_id'' = JStr i"
    and "\<not> (\<exists>x\<in>set (events_of v). is_submission i x)"
  shows "review_session v' \<and> created_payload v' = created_payload v \<and>
    (\<forall>j. (\<exists>x\<in>set (events_of v'). is_submission j x) \<longleftrightarrow> (\<exists>x\<in>set (events_of v). is_submission j x) \<or> j = i)"
proof -
  have new: "is_submission j (json_norm (JObj e)) \<longleftrightarrow> j = i" for j
    using assms(3-5) by (auto simp: is_submission_def event_is_def simp del: json_norm.simps(2))
  have "created_event v \<noteq> None"
    using assms(1) by (auto simp: review_session_def created_payload_def split: option.split_asm)
  then have created: "created_event v' = created_event v"
    using find_prefix by (auto simp: created_event_def assms(2))
  have "filter (is_submission i) (events_of v) = []" using assms(6) by (auto simp: filter_empty_conv)
  then have "length (filter (is_submission j) (events_of v')) \<le> 1" for j
    using assms(1) new [of j] by (simp add: assms(2) review_session_def del: json_norm.simps(2))
  then show ?thesis
    using assms(1) new created assms(3)
    by (auto simp: review_session_def created_payload_def assms(2) simp del: json_norm.simps(2)) 
qed

definition session_of :: "session_store \<Rightarrow> string \<Rightarrow> string \<Rightarrow> string option" where
  "session_of st run_id issue_id =
     (case first_of (of_run st run_id) of Some s \<Rightarrow> Some s | None \<Rightarrow> first_of (of_issue st issue_id))"

definition has_submission :: "session_store \<Rightarrow> string \<Rightarrow> string \<Rightarrow> bool" where
  "has_submission st sid i \<longleftrightarrow> (\<exists>v. map_of st sid = Some (Some v) \<and> (\<exists>x\<in>set (events_of v). is_submission i x))"

lemma first_of_Some: "finite S \<Longrightarrow> first_of S = Some s \<Longrightarrow> s \<in> S"
  by (auto simp: first_of_def split: list.split_asm dest: arg_cong [where f = set])

lemma first_of_None: "finite S \<Longrightarrow> first_of S = None \<longleftrightarrow> S = {}"
  by (auto simp: first_of_def split: list.split dest: arg_cong [where f = set])

lemma first_of_single [simp]: "first_of {s} = Some s"
  by (simp add: first_of_def)

lemma finite_sessions [simp]: "finite (of_run st run_id)" "finite (of_issue st issue_id)"
proof -
  have "{sid. payload_at st sid \<noteq> None} \<subseteq> dom (map_of st)" by (auto simp: payload_at_def split: option.split_asm)
  then have "finite {sid. payload_at st sid \<noteq> None}" by (rule finite_subset) (rule finite_dom_map_of)
  then show "finite (of_run st run_id)" "finite (of_issue st issue_id)"
    by (auto simp: of_run_def of_issue_def intro: rev_finite_subset)
qed

lemma session_of_same: "payload_at st' = payload_at st \<Longrightarrow> session_of st' = session_of st"
  unfolding session_of_def [abs_def] of_run_def of_issue_def by (erule ssubst) (rule refl)

lemma session_of_present: "session_of st run_id issue_id = Some sid \<Longrightarrow> payload_at st sid \<noteq> None"
  using first_of_Some [OF finite_sessions(1), of st run_id sid] first_of_Some [OF finite_sessions(2), of st issue_id sid]
  by (auto simp: session_of_def of_run_def of_issue_def split: option.split_asm)

lemma open_session_error: "open_session H now u w r st = (Inl e, st') \<Longrightarrow> st' = st"
proof -
  assume o: "open_session H now u w r st = (Inl e, st')"
  let ?opt = "[(''run_id'', JStr (rn_run_id r)), (''issue_id'', JStr (rn_issue_id r)), (''branch'', run_branch r),
            (''worker_role'', JStr (rn_worker_role r)), (''runtime'', JStr (rn_runtime r))]"
  obtain y st1 where c: "session_create H now u w (JStr (rn_run_id r)) ?opt st = (y, st1)" by fastforce
  show "st' = st"
  proof (cases "find_session H st (rn_run_id r) (rn_issue_id r)")
    case (Inr f)
    then show ?thesis using o c failed_call_keeps(2) [of H now u w "JStr (rn_run_id r)" ?opt st]
      by (cases f; cases y) (auto simp: open_session_def split: sum.split_asm)
  qed (use o in \<open>simp add: open_session_def\<close>)
qed

text \<open>The payload a created session carries.\<close>

lemma created_fields:
  "json_norm (dget (create_payload (JStr t) [(''run_id'', JStr i), (''issue_id'', b), (''branch'', c), (''worker_role'', d), (''runtime'', f)]) ''run_id'') = JStr i"
  by (simp add: create_payload_def OPTIONAL_FIELDS_def)

lemma open_session_new:
  assumes ok: "review_ok H st" and fresh: "map_of st (''session_'' @ u) = None"
    and c: "session_create H now u w (JStr t) [(''run_id'', JStr t), (''issue_id'', b), (''branch'', c), (''worker_role'', d), (''runtime'', f)] st
      = (Inr doc, st')"
  shows "review_ok H st' \<and> map_of st' = (map_of st)(''session_'' @ u \<mapsto> Some (json_norm doc)) \<and>
    of_run st' t = insert (''session_'' @ u) (of_run st t) \<and> (\<forall>i. i \<noteq> t \<longrightarrow> of_run st' i = of_run st i) \<and>
    of_issue st' = of_issue st \<and> (\<forall>i x. x \<in> set (events_of doc) \<union> set (events_of (json_norm doc)) \<longrightarrow> \<not> event_is REVIEW_EVENT x)"
proof -
  have up: "st' = AList.update (''session_'' @ u) (Some (json_norm doc)) st" "session_ok H (''session_'' @ u) (json_norm doc)"
    using create_ok [OF c] by simp_all
  obtain e where e: "dget e ''event_type'' = JStr ''session.created''"
    "dget e ''payload'' = JObj (create_payload (JStr t) [(''run_id'', JStr t), (''issue_id'', b), (''branch'', c), (''worker_role'', d), (''runtime'', f)])"
    "events_of doc = [JObj e]" "events_of (json_norm doc) = [json_norm (JObj e)]"
    using session_create_events [OF c] by blast
  have plain: "\<not> event_is REVIEW_EVENT (JObj e)" "\<not> event_is REVIEW_EVENT (json_norm (JObj e))"
    using e(1) by (simp_all add: event_is_def REVIEW_EVENT_def as_dict_def)
  have "event_is ''session.created'' (json_norm (JObj e))" using e(1) by (simp add: event_is_def del: json_norm.simps(2))
  then obtain p where p: "created_payload (json_norm doc) = Some p" "dget p ''run_id'' = JStr t"
    using e(2) created_fields [of t t b c d f] by (simp add: created_payload_def created_event_def e(4) del: json_norm.simps(2)) simp
  have "review_session (json_norm doc)"
    using p plain by (simp add: review_session_def e(4) is_submission_def del: json_norm.simps(2))
  then have "review_ok H st'"
    using ok sessions_ok_update [OF _ up(2)] by (auto simp: review_ok_def up(1) update_conv')
  moreover have at: "payload_at st' = (payload_at st)(''session_'' @ u \<mapsto> p)"
    by (auto simp: payload_at_def up(1) update_conv' p(1) fun_eq_iff)
  moreover have "payload_at st (''session_'' @ u) = None" unfolding payload_at_def fresh by simp
  ultimately show ?thesis using p(2) plain e
    by (auto simp: of_run_def of_issue_def up(1) update_conv' fun_eq_iff split: if_split_asm)
qed

lemma payload_known: "review_ok H st \<Longrightarrow> map_of st sid \<noteq> None \<Longrightarrow> payload_at st sid \<noteq> None"
  using review_ok_load [of H st sid] by (fastforce simp: payload_at_def review_session_def)

lemma open_session_ok:
  assumes ok: "review_ok H st" and fresh: "map_of st (''session_'' @ u) = None"
    and o: "open_session H now u w r st = (Inr (sid, doc), st')"
  shows "review_ok H st' \<and> session_of st' (rn_run_id r) (rn_issue_id r) = Some sid \<and>
    (\<forall>i issue s. (i = rn_run_id r \<longrightarrow> issue = rn_issue_id r) \<longrightarrow> session_of st i issue = Some s \<longrightarrow> session_of st' i issue = Some s) \<and>
    (\<forall>s i. has_submission st s i \<longrightarrow> has_submission st' s i) \<and>
    (\<exists>v. map_of st' sid = Some (Some v) \<and>
       (\<forall>e\<in>set (events_of doc). event_is REVIEW_EVENT e \<longrightarrow> is_obj (dget (as_dict e) ''payload'')) \<and>
       (\<forall>i. (\<exists>x\<in>set (events_of doc). is_submission i x) \<longleftrightarrow> has_submission st' sid i))"
proof (cases "session_of st (rn_run_id r) (rn_issue_id r)")
  case (Some s)
  then have "find_session H st (rn_run_id r) (rn_issue_id r) = Inr (Some s)"
    by (simp add: find_session_ok [OF ok] session_of_def)
  then have l: "sid = s" "st' = st" "session_load H s st = Inr doc"
    using o by (auto simp: open_session_def split: sum.split_asm)
  have m: "map_of st s = Some (Some doc)" by (rule load_stored [OF l(3)])
  then have "review_session doc" using ok by (simp add: review_ok_def)
  then show ?thesis using l m ok Some by (auto simp: has_submission_def review_session_def)
next
  case None
  let ?t = "rn_run_id r" and ?sid = "''session_'' @ u"
  let ?opt = "[(''run_id'', JStr ?t), (''issue_id'', JStr (rn_issue_id r)), (''branch'', run_branch r),
            (''worker_role'', JStr (rn_worker_role r)), (''runtime'', JStr (rn_runtime r))]"
  have "find_session H st ?t (rn_issue_id r) = Inr None"
    using None by (simp add: find_session_ok [OF ok] session_of_def)
  then have c: "session_create H now u w (JStr ?t) ?opt st = (Inr doc, st')" and sid: "sid = ?sid"
    using o by (auto simp: open_session_def split: sum.split_asm prod.split_asm)
  note new = open_session_new [OF ok fresh c]
  have none: "of_run st ?t = {}"
    using None first_of_None [OF finite_sessions(1), of st ?t] by (simp add: session_of_def split: option.split_asm)
  have run: "of_run st' ?t = {?sid}" using new none by simp
  have mine: "session_of st' ?t (rn_issue_id r) = Some sid" by (simp add: session_of_def run sid)
  have others: "session_of st' i issue = Some s"
    if "i = ?t \<longrightarrow> issue = rn_issue_id r" "session_of st i issue = Some s" for i issue s
  proof -
    have "i \<noteq> ?t" using that None by auto
    then have "of_run st' i = of_run st i" "of_issue st' = of_issue st" using new by simp_all
    then show ?thesis using that(2) by (cases "first_of (of_run st i)") (simp_all add: session_of_def)
  qed
  have kept: "has_submission st' s i" if "has_submission st s i" for s i
    using that new fresh by (auto simp: has_submission_def)
  have "map_of st' sid = Some (Some (json_norm doc))" using new sid by simp
  then show ?thesis using new mine others kept by (auto simp: has_submission_def is_submission_def)
qed

text \<open>The append of the submission to a session that has none of its id.\<close>

lemma append_submission_ok:
  assumes ok: "review_ok H st" and none: "\<not> has_submission st sid i" and p: "dget p ''review_submission_id'' = JStr i"
    and a: "session_append H now w sid n REVIEW_EVENT (JObj p) st = (Inr doc, st')"
  shows "review_ok H st' \<and> session_of st' = session_of st \<and> has_submission st' sid i \<and>
    (\<forall>s j. has_submission st s j \<longrightarrow> has_submission st' s j)"
proof -
  have sessions: "sessions_ok H st" using ok by (simp add: review_ok_def)
  note ap = append_ok [OF sessions a]
  obtain v e where v: "session_load H sid st = Inr v" "events_of (json_norm doc) = events_of v @ [json_norm (JObj e)]"
    "new_event H now (length (events_of v)) REVIEW_EVENT (JObj p) (dget e ''previous_hash'') = Inr e"
    using prepare_append_ok [OF sessions ap(1)] by metis
  have m: "map_of st sid = Some (Some v)" by (rule load_stored [OF v(1)])
  then have before: "review_session v" "\<not> (\<exists>x\<in>set (events_of v). is_submission i x)"
    using ok none by (auto simp: review_ok_def has_submission_def)
  have fields: "dget e ''payload'' = JObj p" "dget e ''event_type'' = JStr REVIEW_EVENT"
    using new_event_fields [OF v(3)] by simp_all
  note new = review_session_append [OF before(1) v(2) fields p before(2), THEN conjunct1]
    review_session_append [OF before(1) v(2) fields p before(2), THEN conjunct2, THEN conjunct1]
    review_session_append [OF before(1) v(2) fields p before(2), THEN conjunct2, THEN conjunct2, rule_format]
  have up: "map_of st' = (map_of st)(sid \<mapsto> Some (json_norm doc))" by (simp add: ap(2) update_conv')
  have "review_ok H st'"
    using ok new(1) sessions_ok_update [OF sessions ap(3)] by (auto simp: review_ok_def up ap(2) [symmetric])
  moreover have "session_of st' = session_of st"
    by (rule session_of_same) (auto simp: payload_at_def up new(2) m fun_eq_iff)
  moreover have "has_submission st' s j \<longleftrightarrow> has_submission st s j \<or> s = sid \<and> j = i" for s j
  proof (cases "s = sid")
    case True
    then show ?thesis using new(3) [of j] by (simp add: has_submission_def up m)
  qed (simp add: has_submission_def up)
  ultimately show ?thesis by simp
qed

definition same_issue :: "string \<Rightarrow> string \<Rightarrow> review_call \<Rightarrow> bool" where
  "same_issue run_id issue_id q \<longleftrightarrow> (run_id = rn_run_id (rc_run q) \<longrightarrow> issue_id = rn_issue_id (rc_run q))"

lemma submit_ok:
  assumes ok: "review_ok H st" and fresh: "map_of st (''session_'' @ rc_uuid q) = None"
    and sub: "submit_review_event H q st = (x, st')"
  shows "review_ok H st' \<and>
    (\<forall>i issue s. same_issue i issue q \<longrightarrow> session_of st i issue = Some s \<longrightarrow> session_of st' i issue = Some s) \<and>
    (\<forall>s i. has_submission st s i \<longrightarrow> has_submission st' s i) \<and>
    (\<forall>i. x = Inr i \<longrightarrow> i = review_submission_id H (rn_run_id (rc_run q)) \<and>
       (\<exists>sid. session_of st' (rn_run_id (rc_run q)) (rn_issue_id (rc_run q)) = Some sid \<and> has_submission st' sid i))"
proof (cases "rc_opens q")
  case False
  then show ?thesis using ok sub by (auto simp: submit_review_event_def)
next
  case True
  let ?r = "rc_run q" and ?i = "review_submission_id H (rn_run_id (rc_run q))"
  obtain y st1 where o: "open_session H (rc_now q) (rc_uuid q) (rc_writes q) ?r st = (y, st1)" by fastforce
  show ?thesis
  proof (cases y)
    case (Inl e)
    then show ?thesis using open_session_error [OF o [unfolded Inl]] sub ok True o
      by (auto simp: submit_review_event_def)
  next
    case (Inr z)
    obtain sid doc where z: "z = (sid, doc)" by (cases z)
    note op = open_session_ok [OF ok fresh o [unfolded Inr z]]
    have ok1: "review_ok H st1" and mine: "session_of st1 (rn_run_id ?r) (rn_issue_id ?r) = Some sid"
      and others: "\<And>i issue s. same_issue i issue q \<Longrightarrow> session_of st i issue = Some s \<Longrightarrow> session_of st1 i issue = Some s"
      and kept: "\<And>s i. has_submission st s i \<Longrightarrow> has_submission st1 s i"
      using op by (auto simp: same_issue_def)
    have already: "already_submitted (events_of doc) i = Inr (has_submission st1 sid i)" for i
      using op already_submitted_ok [of "events_of doc" i] by auto
    show ?thesis
    proof (cases "has_submission st1 sid ?i")
      case there: True
      then have "st' = st1" "x = Inr ?i" using sub True by (simp_all add: submit_review_event_def o Inr z already)
      then show ?thesis using ok1 mine others kept there by blast
    next
      case not_yet: False
      show ?thesis
      proof (cases "review_payload H (rc_clock q) ?r (rc_envelope q) (rc_evidence q)")
        case (Inl e)
        then have "st' = st1" "\<And>i. x \<noteq> Inr i" using sub True not_yet by (auto simp: submit_review_event_def o Inr z already)
        then show ?thesis using ok1 others kept by blast
      next
        case payload: (Inr p)
        then have p: "dget p ''review_submission_id'' = JStr ?i"
          by (auto simp: review_payload_def split: option.split_asm)
        obtain w st2 where a: "session_append H (rc_now q) (rc_writes q) sid (latest_sequence doc) REVIEW_EVENT (JObj p) st1 = (w, st2)"
          by fastforce
        show ?thesis
        proof (cases w)
          case (Inl e)
          then have "st2 = st1" using failed_call_keeps(1) a by (metis fst_conv snd_conv)
          then have "st' = st1" "\<And>i. x \<noteq> Inr i" using sub True not_yet payload a Inl
            by (auto simp: submit_review_event_def o Inr z already \<open>y = Inr z\<close>)
          then show ?thesis using ok1 others kept by blast
        next
          case (Inr d)
          have st': "st' = st2" "x = Inr ?i" using sub True not_yet payload a Inr
            by (auto simp: submit_review_event_def o z already \<open>y = Inr z\<close>)
          have app: "review_ok H st2" "session_of st2 = session_of st1" "has_submission st2 sid ?i"
            "\<And>s j. has_submission st1 s j \<Longrightarrow> has_submission st2 s j"
            using append_submission_ok [OF ok1 not_yet p a [unfolded Inr]] by blast+
          have "\<forall>s i. has_submission st s i \<longrightarrow> has_submission st' s i" using kept app(4) st'(1) by blast
          moreover have "\<forall>i issue s. same_issue i issue q \<longrightarrow> session_of st i issue = Some s \<longrightarrow> session_of st' i issue = Some s"
            using others app(2) st'(1) by simp
          ultimately show ?thesis using app(1,3) st' mine app(2) by auto
        qed
      qed
    qed
  qed
qed

lemma submit_again:
  assumes ok: "review_ok H st" and o: "rc_opens q"
    and s: "session_of st (rn_run_id (rc_run q)) (rn_issue_id (rc_run q)) = Some sid"
    and there: "has_submission st sid (review_submission_id H (rn_run_id (rc_run q)))"
  shows "submit_review_event H q st = (Inr (review_submission_id H (rn_run_id (rc_run q))), st)"
proof -
  obtain v where m: "map_of st sid = Some (Some v)" using there by (auto simp: has_submission_def)
  have "\<exists>w. Some v = Some w \<and> session_load H sid st = Inr w \<and> review_session w"
    by (rule review_ok_load [OF ok m]) auto
  then have l: "session_load H sid st = Inr v" "review_session v" by auto
  have "already_submitted (events_of v) i = Inr (has_submission st sid i)" for i
    using l(2) already_submitted_ok [of "events_of v" i] by (simp add: review_session_def has_submission_def m)
  moreover have "find_session H st (rn_run_id (rc_run q)) (rn_issue_id (rc_run q)) = Inr (Some sid)"
    using s by (simp add: find_session_ok [OF ok] session_of_def)
  ultimately show ?thesis using o there l(1)
    by (simp add: submit_review_event_def open_session_def)
qed

section \<open>Histories\<close>

text \<open>\<open>uuid4\<close> does not return the digits of a session that exists.\<close>

definition review_op :: "hostlib \<Rightarrow> review_call \<Rightarrow> session_store \<Rightarrow> session_store" where
  "review_op H q st = (if map_of st (''session_'' @ rc_uuid q) \<noteq> None then st else snd (submit_review_event H q st))"

definition submitted_in :: "hostlib \<Rightarrow> string \<Rightarrow> string \<Rightarrow> session_store \<Rightarrow> unit \<Rightarrow> string option" where
  "submitted_in H run_id issue_id st u = (case session_of st run_id issue_id of None \<Rightarrow> None
     | Some sid \<Rightarrow> if has_submission st sid (review_submission_id H run_id) then Some sid else None)"

lemma review_op_ok: "review_ok H st \<Longrightarrow> review_ok H (review_op H q st)"
  using submit_ok [of H st q] by (cases "submit_review_event H q st") (auto simp: review_op_def)

interpretation review_store: invariant_machine "review_op H" "review_ok H" "\<lambda>_. True" for H
  by unfold_locales (rule review_op_ok)

interpretation review: durable_machine "review_op H" "review_ok H" "same_issue run_id issue_id" "submitted_in H run_id issue_id"
  for H run_id issue_id
proof
  fix st q assume ok: "review_ok H st" and same: "same_issue run_id issue_id q"
  show "review_ok H (review_op H q st)" by (rule review_op_ok [OF ok])
  fix u sid assume sub: "submitted_in H run_id issue_id st u = Some sid"
  show "submitted_in H run_id issue_id (review_op H q st) u = Some sid"
  proof (cases "map_of st (''session_'' @ rc_uuid q) = None")
    case True
    obtain x st' where s: "submit_review_event H q st = (x, st')" by fastforce
    have "session_of st run_id issue_id = Some sid" "has_submission st sid (review_submission_id H run_id)"
      using sub by (auto simp: submitted_in_def split: option.split_asm if_split_asm)
    then have "session_of st' run_id issue_id = Some sid" "has_submission st' sid (review_submission_id H run_id)"
      using submit_ok [OF ok True s] same by blast+
    then show ?thesis using True s by (simp add: submitted_in_def review_op_def)
  qed (use sub in \<open>simp add: review_op_def\<close>)
qed

lemma review_reachable: "review_ok H (run (review_op H) qs [])"
  by (rule review_store.run_inv) (simp_all add: review_ok_def sessions_ok_def list_all_iff)

text \<open>C17: A Run is submitted for review once. After a submission reported success, however many
  submissions of other Runs and of the same Run follow, with whatever envelopes, clocks and failing
  writes, submitting the Run again answers the same id and changes nothing, and no session ever holds
  two submissions of one id.\<close>

theorem review_submitted_once:
  assumes "submit_review_event H q (run (review_op H) qs []) = (Inr i, st)"
    and "map_of (run (review_op H) qs []) (''session_'' @ rc_uuid q) = None"
    and "list_all (same_issue (rn_run_id (rc_run q)) (rn_issue_id (rc_run q))) rs"
    and "rn_run_id (rc_run q') = rn_run_id (rc_run q)" "rn_issue_id (rc_run q') = rn_issue_id (rc_run q)" "rc_opens q'"
  shows "submit_review_event H q' (run (review_op H) rs st) = (Inr i, run (review_op H) rs st) \<and>
    (\<forall>sid v j. map_of (run (review_op H) rs st) sid = Some (Some v) \<longrightarrow>
       length (filter (is_submission j) (events_of v)) \<le> 1)"
proof -
  let ?run = "rn_run_id (rc_run q)" and ?issue = "rn_issue_id (rc_run q)" and ?later = "run (review_op H) rs st"
  note over = submit_ok [OF review_reachable assms(2,1)]
  obtain sid where i: "i = review_submission_id H ?run" and "session_of st ?run ?issue = Some sid" "has_submission st sid i"
    using over by blast
  then have "submitted_in H ?run ?issue st () = Some sid" by (simp add: submitted_in_def)
  then have "submitted_in H ?run ?issue ?later () = Some sid" using review.run_stays [OF _ assms(3)] over by blast
  then have "session_of ?later ?run ?issue = Some sid" "has_submission ?later sid (review_submission_id H ?run)"
    by (auto simp: submitted_in_def split: option.split_asm if_split_asm)
  moreover have ok: "review_ok H ?later" using review_store.run_inv [of H st rs] over by (simp add: list_all_iff)
  ultimately have "submit_review_event H q' ?later = (Inr i, ?later)"
    using submit_again [OF _ assms(6), of H ?later sid] assms(4,5) i by simp
  then show ?thesis using ok by (auto simp: review_ok_def review_session_def)
qed

section \<open>Witness\<close>

definition sample_submission :: review_call where
  "sample_submission = \<lparr>rc_now = ''n'', rc_uuid = replicate 32 (CHR ''0''), rc_opens = True, rc_writes = True, rc_clock = ''c'',
     rc_run = \<lparr>rn_run_id = ''r1'', rn_issue_id = ''o#1'', rn_workflow = ''w'', rn_worker_role = ''c'',
       rn_runtime = ''t'', rn_claimed_at = 10, rn_lease_seconds = 60, rn_status = ''succeeded'',
       rn_parent_run_id = None, rn_depth = 0, rn_heartbeat_at = 10, rn_finished_at = Some 20, rn_result = JNull,
       rn_gh_synced = False, rn_gh_sync_claimed_at = None, rn_approved = [], rn_delegation_depth = None,
       rn_mutating = False, rn_commit_evidence = JNull, rn_readonly_report_evidence = JNull,
       rn_review_submission_id = JNull\<rparr>, rc_envelope = [], rc_evidence = []\<rparr>"

lemma sample_submission_succeeds:
  obtains i st where "submit_review_event sample_lib sample_submission [] = (Inr i, st)"
proof -
  let ?r = "rc_run sample_submission" and ?u = "replicate 32 (CHR ''0'')"
  let ?opt = "[(''run_id'', JStr (rn_run_id ?r)), (''issue_id'', JStr (rn_issue_id ?r)), (''branch'', run_branch ?r),
            (''worker_role'', JStr (rn_worker_role ?r)), (''runtime'', JStr (rn_runtime ?r))]"
  have branch: "run_branch ?r = JNull" by (simp add: run_branch_def sample_submission_def)
  have nb: "nonblank (JStr (rn_run_id ?r))" by (simp add: nonblank_def blank_def is_space_def sample_submission_def)
  have hx: "hex_run 32 ?u" by (simp add: hex_run_def is_hex_def is_digit_def list_all_iff)
  have fin: "finite_json (JStr (rn_run_id ?r))" "finite_json (JObj ?opt)" by (simp_all add: branch)
  obtain doc where c: "session_create sample_lib ''n'' ?u True (JStr (rn_run_id ?r)) ?opt [] =
      (Inr doc, AList.update (''session_'' @ ?u) (Some (json_norm doc)) [])"
    by (rule create_accepted [OF nb fin hx])
  let ?st = "AList.update (''session_'' @ ?u) (Some (json_norm doc)) []"
  obtain e where e: "dget e ''event_type'' = JStr ''session.created''" "events_of doc = [JObj e]" "events_of (json_norm doc) = [json_norm (JObj e)]"
    using session_create_events [OF c] by blast
  have empty: "review_ok sample_lib []" by (simp add: review_ok_def sessions_ok_def)
  have ok: "review_ok sample_lib ?st" using open_session_new [OF empty _ c] by simp
  have "find_session sample_lib [] (rn_run_id ?r) (rn_issue_id ?r) = Inr None" by (simp add: find_session_def)
  then have o: "open_session sample_lib ''n'' ?u True ?r [] = (Inr (''session_'' @ ?u, doc), ?st)"
    using c by (simp add: open_session_def)
  have "already_submitted (events_of doc) i = Inr False" for i
    using e by (simp add: event_is_def REVIEW_EVENT_def as_dict_def)
  moreover obtain p where p: "review_payload sample_lib ''c'' ?r [] [] = Inr p" "finite_json (JObj p)"
    by (simp add: review_payload_def canonical_bytes_def or_else_def branch) (simp add: sample_submission_def)
  moreover have "map_of ?st (''session_'' @ ?u) = Some (Some (json_norm doc))" by simp
  then have l: "session_load sample_lib (''session_'' @ ?u) ?st = Inr (json_norm doc)"
    using sessions_ok_load [of sample_lib ?st "''session_'' @ ?u"] ok by (auto simp: review_ok_def)
  have type: "event_type_re REVIEW_EVENT" by (simp add: event_type_re_def REVIEW_EVENT_def is_lower_def is_digit_def)
  have "sessions_ok sample_lib ?st" using ok by (simp add: review_ok_def)
  then obtain d where "prepare_append sample_lib ''n'' (''session_'' @ ?u) (latest_sequence (json_norm doc)) REVIEW_EVENT (JObj p) ?st = Inr d"
    "canonical_bytes sample_lib d \<noteq> None"
    by (rule append_accepted [OF _ l type p(2)])
  moreover have "latest_sequence doc = latest_sequence (json_norm doc)" by (simp add: latest_sequence_def e)
  ultimately have "\<exists>i st. submit_review_event sample_lib sample_submission [] = (Inr i, st)"
    using o by (auto simp: submit_review_event_def session_append_def atomic_write_def sample_submission_def Let_def)
  with that show thesis by blast
qed

theorem review_submitted_once_witness:
  "\<exists>i st. submit_review_event sample_lib sample_submission [] = (Inr i, st) \<and>
     submit_review_event sample_lib sample_submission st = (Inr i, st)"
proof (rule sample_submission_succeeds)
  fix i st assume s: "submit_review_event sample_lib sample_submission [] = (Inr i, st)"
  have "rc_opens sample_submission" by (simp add: sample_submission_def)
  then show ?thesis using review_submitted_once [of sample_lib sample_submission "[]" i st "[]" sample_submission] s by auto
qed

end
