(* ===== verification/Exec_Graph.thy ===== *)
theory Exec_Graph
  imports Py_Text "HOL-Library.Product_Lexorder"
begin

text \<open>
  The dependency graph of the execution map, \<open>scripts/execution_map.py\<close>: canonical issue ids, the
  relation lines of an issue body, edges and drift, the search for a cycle, the closure of the issues
  that may not be launched, and the waves in which the others may run. The issues are the values of the
  class \<open>Issue\<close>; \<open>int\<close> reads any number of digits (Python refuses more than 4,300).
\<close>

section \<open>Issue ids\<close>

definition id_char :: "char \<Rightarrow> bool" where
  "id_char c \<longleftrightarrow> is_digit c \<or> is_lower c \<or> is_upper c \<or> c \<in> {CHR ''_'', CHR ''.'', CHR ''-''}"

definition issue_number :: "string \<Rightarrow> bool" where
  "issue_number s \<longleftrightarrow> s \<noteq> [] \<and> hd s \<noteq> CHR ''0'' \<and> list_all is_digit s"

text \<open>\<open>ISSUE_ID.fullmatch\<close>: the groups of the match. Neither of the first two can hold the separators.\<close>

definition issue_parts :: "string \<Rightarrow> (string \<times> string \<times> string) option" where
  "issue_parts s =
     (let owner = takeWhile (\<lambda>c. c \<noteq> CHR ''/'') s; rest = drop (length owner + 1) s;
          name = takeWhile (\<lambda>c. c \<noteq> CHR ''#'') rest; number = drop (length name + 1) rest in
      if CHR ''/'' \<in> set s \<and> CHR ''#'' \<in> set rest \<and> owner \<noteq> [] \<and> list_all id_char owner \<and>
         name \<noteq> [] \<and> list_all id_char name \<and> issue_number number
      then Some (owner, name, number) else None)"

definition is_issue_id :: "string \<Rightarrow> bool" where
  "is_issue_id value \<longleftrightarrow> issue_parts value \<noteq> None"

definition digits_value :: "string \<Rightarrow> nat" where
  "digits_value s = foldl (\<lambda>n c. 10 * n + (of_char c - 48)) 0 s"

text \<open>The number is printed as it was read: it has no leading zero.\<close>

definition canonical_issue_id :: "string \<Rightarrow> string \<Rightarrow> string option" where
  "canonical_issue_id value default_repo =
     (let v = strip value;
          v = (if startswith v ''#'' \<and> default_repo \<noteq> [] then default_repo @ v else v) in
      case issue_parts v of
        None \<Rightarrow> None
      | Some (owner, name, number) \<Rightarrow> Some (lower owner @ ''/'' @ lower name @ ''#'' @ number))"

definition issue_sort_key :: "string \<Rightarrow> string \<times> string \<times> nat" where
  "issue_sort_key value = (case issue_parts value of
     None \<Rightarrow> (value, [], 0)
   | Some (owner, name, number) \<Rightarrow> (lower owner, lower name, digits_value number))"

definition repo_of :: "string \<Rightarrow> string" where
  "repo_of issue_id = (if CHR ''#'' \<in> set issue_id
     then rev (drop 1 (dropWhile (\<lambda>c. c \<noteq> CHR ''#'') (rev issue_id))) else issue_id)"

definition target_of :: "string \<Rightarrow> string \<Rightarrow> string option \<times> string option" where
  "target_of raw repo = (case canonical_issue_id raw repo of
     None \<Rightarrow> (None, Some ''missing_target'')
   | Some result \<Rightarrow> if repo_of result \<noteq> repo then (Some result, Some ''cross_repo_target'') else (Some result, None))"

section \<open>Relation lines\<close>

text \<open>
  \<open>RELATION\<close> at the start of a line: the phrase, white space, a token, and white space up to the end of
  a line. The white space may hold line feeds; the last of them that ends a line is where the match ends.
\<close>

definition RELATION_PHRASES :: "string list" where
  "RELATION_PHRASES = [''Part of'', ''Blocked by'', ''Depends on'']"

definition token_rest :: "string \<Rightarrow> (string \<times> string) option" where
  "token_rest s =
     (let body = dropWhile is_space s; token = takeWhile (\<lambda>c. \<not> is_space c) body;
          after = dropWhile (\<lambda>c. \<not> is_space c) body;
          blanks = takeWhile is_space after; rest = dropWhile is_space after in
      if body = s \<or> token = [] then None
      else if rest = [] then Some (token, [])
      else if CHR 0x0A \<in> set blanks
        then Some (token, CHR 0x0A # rev (takeWhile (\<lambda>c. c \<noteq> CHR 0x0A) (rev blanks)) @ rest)
      else None)"

definition relation_at :: "string \<Rightarrow> (string \<times> string \<times> string) option" where
  "relation_at s = (case filter (\<lambda>p. startswith s (p @ '':'')) RELATION_PHRASES of
     [] \<Rightarrow> None
   | p # _ \<Rightarrow> (case token_rest (drop (length p + 1) s) of
       None \<Rightarrow> None | Some (token, rest) \<Rightarrow> Some (p, token, rest)))"

lemma length_tail_of: "c \<in> set b \<Longrightarrow> Suc (length (takeWhile (\<lambda>x. x \<noteq> c) (rev b))) \<le> length b"
proof -
  assume "c \<in> set b"
  then have "dropWhile (\<lambda>x. x \<noteq> c) (rev b) \<noteq> []" by (simp add: dropWhile_eq_Nil_conv)
  then have "length (dropWhile (\<lambda>x. x \<noteq> c) (rev b)) > 0" by blast
  moreover have "length (takeWhile (\<lambda>x. x \<noteq> c) (rev b)) + length (dropWhile (\<lambda>x. x \<noteq> c) (rev b)) = length b"
    by (metis length_append length_rev takeWhile_dropWhile_id)
  ultimately show ?thesis by linarith
qed

lemma length_token_rest: assumes "token_rest s = Some (token, rest)" shows "length rest < length s"
proof -
  define body where "body = dropWhile is_space s"
  define tok where "tok = takeWhile (\<lambda>c. \<not> is_space c) body"
  define after where "after = dropWhile (\<lambda>c. \<not> is_space c) body"
  define blanks where "blanks = takeWhile is_space after"
  define tail where "tail = dropWhile is_space after"
  note defs = body_def [symmetric] tok_def [symmetric] after_def [symmetric] blanks_def [symmetric] tail_def [symmetric]
  have "length body = length tok + length after" "length after = length blanks + length tail"
    unfolding tok_def after_def blanks_def tail_def by (metis length_append takeWhile_dropWhile_id)+
  moreover have "length body \<le> length s" unfolding body_def by (rule length_dropWhile_le)
  moreover have "tok \<noteq> []" using assms unfolding token_rest_def Let_def defs by (auto split: if_split_asm)
  then have "length tok > 0" by blast
  moreover have "length rest \<le> length blanks + length tail"
    using assms length_tail_of [of "CHR 0x0A" blanks] unfolding token_rest_def Let_def defs by (auto split: if_split_asm)
  ultimately show ?thesis by linarith
qed

lemma length_relation: "relation_at s = Some (p, token, rest) \<Longrightarrow> length rest < length s"
  by (auto simp: relation_at_def split: list.split_asm option.split_asm dest!: length_token_rest)

function relations_from :: "bool \<Rightarrow> string \<Rightarrow> (string \<times> string) list" where
  "relations_from starts [] = []"
| "relations_from starts (c # s) = (case (if starts then relation_at (c # s) else None) of
     None \<Rightarrow> relations_from (c = CHR 0x0A) s
   | Some (p, token, rest) \<Rightarrow> (p, token) # relations_from False rest)"
  by pat_completeness auto
termination
proof (relation "measure (\<lambda>(starts, s). length s)")
  fix starts c s x2 p q token rest
  assume "(if starts then relation_at (c # s) else None) = Some x2" "(p, q) = x2" "(token, rest) = q"
  then show "((False, rest), starts, c # s) \<in> measure (\<lambda>(starts, s). length s)"
    using length_relation [of "c # s" p token rest] by (auto split: if_split_asm)
qed auto

definition relations :: "string \<Rightarrow> (string \<times> string) list" where
  "relations body = relations_from True body"

section \<open>Issues, edges, drift\<close>

record issue =
  is_issue_id_of :: string
  is_body :: string
  is_state :: string
  is_labels :: "string list"
  is_area :: "string option"
  is_milestone :: "string option"
  is_native_parent :: "string option"
  is_native_prerequisites :: "string list"

datatype edge = Edge (ed_kind: string) (ed_source: string) (ed_target: string) (ed_evidence: "string list")

datatype drift = Drift (dr_code: string) (dr_issue: string) (dr_kind: string) (dr_target: string) (dr_witness: "string list")

record graph =
  gr_issues :: "issue list"
  gr_containment :: "edge list"
  gr_prerequisites :: "edge list"
  gr_drift :: "drift list"
  gr_non_launchable :: "string list"

definition WORKFLOW_PREFIX :: string where "WORKFLOW_PREFIX = ''workflow:''"

definition FATAL_DRIFT :: "string list" where
  "FATAL_DRIFT = [''self_edge'', ''prerequisite_cycle'', ''missing_target'', ''cross_repo_target'']"

definition no_text :: "string option \<Rightarrow> bool" where
  "no_text v \<longleftrightarrow> v = None \<or> v = Some []"

abbreviation plain_drift :: "string \<Rightarrow> string \<Rightarrow> drift" where
  "plain_drift code issue_id \<equiv> Drift code issue_id [] [] []"

text \<open>The candidate edges: the key is the kind, the source and the target; the value the evidence for it.\<close>

type_synonym candidates = "((string \<times> string \<times> string) \<times> string list) list"

definition has_evidence :: "(string \<times> string \<times> string) \<Rightarrow> string \<Rightarrow> candidates \<Rightarrow> bool" where
  "has_evidence key ev cands = (case map_of cands key of None \<Rightarrow> False | Some evs \<Rightarrow> ev \<in> set evs)"

definition add_evidence :: "(string \<times> string \<times> string) \<Rightarrow> string \<Rightarrow> candidates \<Rightarrow> candidates" where
  "add_evidence key ev cands = AList.update key (case map_of cands key of None \<Rightarrow> [ev]
     | Some evs \<Rightarrow> if ev \<in> set evs then evs else evs @ [ev]) cands"

definition sorted_ids :: "string list \<Rightarrow> string list" where
  "sorted_ids xs = sort_key issue_sort_key (remdups xs)"

definition text_kind :: "string \<Rightarrow> string" where
  "text_kind phrase = (if phrase = ''Part of'' then ''containment'' else ''prerequisite'')"

definition text_key :: "string \<Rightarrow> string \<Rightarrow> string \<Rightarrow> string \<times> string \<times> string" where
  "text_key phrase issue_id target =
     (if phrase = ''Part of'' then (''containment'', issue_id, target) else (''prerequisite'', target, issue_id))"

text \<open>One relation line of an issue body.\<close>

definition relate_text :: "string \<Rightarrow> string \<times> string \<Rightarrow> drift list \<times> candidates \<times> string list
    \<Rightarrow> drift list \<times> candidates \<times> string list" where
  "relate_text issue_id = (\<lambda>(phrase, raw) (drifts, cands, parents).
     let kind = text_kind phrase in
     case target_of raw (repo_of issue_id) of
       (target, Some error) \<Rightarrow>
         (drifts @ [Drift error issue_id kind (case target of None \<Rightarrow> raw | Some t \<Rightarrow> t) []], cands, parents)
     | (None, None) \<Rightarrow> (drifts, cands, parents)
     | (Some target, None) \<Rightarrow>
         (let key = text_key phrase issue_id target in
          (drifts @ (if has_evidence key ''text'' cands then [Drift ''duplicate_edge'' issue_id kind target []] else []),
           add_evidence key ''text'' cands,
           parents @ (if phrase = ''Part of'' then [target] else []))))"

text \<open>The parent of the issue in the tracker.\<close>

definition relate_parent :: "issue \<Rightarrow> string list \<Rightarrow> drift list \<times> candidates \<Rightarrow> drift list \<times> candidates" where
  "relate_parent x parents = (\<lambda>(drifts, cands).
     let issue_id = is_issue_id_of x in
     case is_native_parent x of
       None \<Rightarrow> (drifts, cands)
     | Some raw \<Rightarrow>
         if raw = [] then (drifts, cands)
         else
           (let (target, error) = target_of raw (repo_of issue_id);
                (drifts, cands) = (case (target, error) of
                    (_, Some e) \<Rightarrow> (drifts @ [Drift e issue_id ''containment'' (case target of None \<Rightarrow> raw | Some t \<Rightarrow> t) []], cands)
                  | (Some t, None) \<Rightarrow> (drifts, add_evidence (''containment'', issue_id, t) ''native'' cands)
                  | (None, None) \<Rightarrow> (drifts, cands)) in
            case target of
              None \<Rightarrow> (drifts, cands)
            | Some t \<Rightarrow>
                if parents \<noteq> [] \<and> set parents \<noteq> {t}
                then (drifts @ [Drift ''native_text_parent_mismatch'' issue_id ''containment''
                        (join '','' (sorted_ids (parents @ [t]))) []], cands)
                else (drifts, cands)))"

definition relate_native :: "string \<Rightarrow> string \<Rightarrow> drift list \<times> candidates \<Rightarrow> drift list \<times> candidates" where
  "relate_native issue_id raw = (\<lambda>(drifts, cands).
     case target_of raw (repo_of issue_id) of
       (target, Some error) \<Rightarrow> (drifts @ [Drift error issue_id ''prerequisite'' (case target of None \<Rightarrow> raw | Some t \<Rightarrow> t) []], cands)
     | (None, None) \<Rightarrow> (drifts, cands)
     | (Some target, None) \<Rightarrow>
         (let key = (''prerequisite'', target, issue_id) in
          (drifts @ (if has_evidence key ''native'' cands then [Drift ''duplicate_edge'' issue_id ''prerequisite'' target []] else []),
           add_evidence key ''native'' cands)))"

definition relate_issue :: "issue \<Rightarrow> drift list \<times> candidates \<Rightarrow> drift list \<times> candidates" where
  "relate_issue x = (\<lambda>(drifts, cands).
     let issue_id = is_issue_id_of x;
         drifts = drifts @ (if is_state x = ''open'' \<and> length (filter (\<lambda>l. startswith l WORKFLOW_PREFIX) (is_labels x)) \<noteq> 1
           then [plain_drift ''workflow_label_cardinality'' issue_id] else []);
         drifts = drifts @ (if no_text (is_area x) \<or> no_text (is_milestone x)
           then [plain_drift ''missing_area_or_milestone'' issue_id] else []);
         (drifts, cands, parents) = fold (relate_text issue_id) (relations (is_body x)) (drifts, cands, []);
         drifts = drifts @ (if 1 < length (remdups parents)
           then [Drift ''multiple_parents'' issue_id ''containment'' (join '','' (sorted_ids parents)) []] else []) in
     fold (relate_native issue_id) (is_native_prerequisites x) (relate_parent x parents (drifts, cands)))"

text \<open>The candidates in order: those that point at themselves or at no known issue are drift.\<close>

definition check_edge :: "string set \<Rightarrow> ((string \<times> string \<times> string) \<times> string list) \<Rightarrow> drift list \<times> edge list \<Rightarrow> drift list \<times> edge list" where
  "check_edge ids = (\<lambda>((kind, source, target), evs) (drifts, edges).
     let owner = (if kind = ''containment'' then source else target);
         relation_target = (if kind = ''containment'' then target else source) in
     if source = target then (drifts @ [Drift ''self_edge'' owner kind relation_target []], edges)
     else if relation_target \<notin> ids then (drifts @ [Drift ''missing_target'' owner kind relation_target []], edges)
     else (drifts, edges @ [Edge kind source target (sort evs)]))"

section \<open>Cycles\<close>

definition adjacent :: "string list \<Rightarrow> (string \<times> string) list \<Rightarrow> string \<Rightarrow> string list" where
  "adjacent ids edges node = sort_key issue_sort_key
     (map snd (filter (\<lambda>(s, t). s = node \<and> s \<in> set ids \<and> t \<in> set ids) edges))"

text \<open>\<open>visit\<close>: the simple paths from a node, each closed where it meets the start again. The set of seen
  nodes is the set of the path.\<close>

function visit :: "string list \<Rightarrow> (string \<times> string) list \<Rightarrow> string \<Rightarrow> string \<Rightarrow> string list \<Rightarrow> string list list" where
  "visit ids edges start node path = concat (map (\<lambda>nxt.
     if nxt = start then [path @ [start]]
     else if nxt \<in> set path then []
     else visit ids edges start nxt (path @ [nxt])) (adjacent ids edges node))"
  by pat_completeness auto
termination
proof (relation "measure (\<lambda>(ids, edges, start, node, path). card (set ids - set path))")
  fix ids :: "string list" and edges start node path nxt
  assume "nxt \<in> set (adjacent ids edges node)" "nxt \<noteq> start" "nxt \<notin> set path"
  then have "nxt \<in> set ids - set path" by (auto simp: adjacent_def)
  then have "card (set ids - set (path @ [nxt])) < card (set ids - set path)"
    by (intro psubset_card_mono) auto
  then show "((ids, edges, start, nxt, path @ [nxt]), ids, edges, start, node, path)
      \<in> measure (\<lambda>(ids, edges, start, node, path). card (set ids - set path))" by simp
qed simp

declare visit.simps [simp del]

definition cycle_key :: "string list \<Rightarrow> nat \<times> (string \<times> string \<times> nat) list" where
  "cycle_key cycle = (length cycle, map issue_sort_key cycle)"

definition min_by :: "('a \<Rightarrow> 'k::linorder) \<Rightarrow> 'a list \<Rightarrow> 'a" where
  "min_by f xs = foldl (\<lambda>m x. if f x < f m then x else m) (hd xs) (tl xs)"

definition cycle_witness :: "string list \<Rightarrow> (string \<times> string) list \<Rightarrow> string list option" where
  "cycle_witness ids edges =
     (let found = concat (map (\<lambda>start. visit ids edges start start [start]) (sorted_ids ids)) in
      if found = [] then None
      else
        (let core = butlast (min_by cycle_key found);
             low = min_by (\<lambda>i. issue_sort_key (core ! i)) [0..<length core];
             rotated = drop low core @ take low core in
         Some (rotated @ [hd rotated])))"

section \<open>The graph\<close>

definition cycle_drift :: "string list \<Rightarrow> string \<Rightarrow> string \<Rightarrow> edge list \<Rightarrow> drift list" where
  "cycle_drift ids kind code edges = (case cycle_witness ids (map (\<lambda>e. (ed_source e, ed_target e)) edges) of
     None \<Rightarrow> []
   | Some witness \<Rightarrow> map (\<lambda>node. Drift code node kind (if 1 < length witness then witness ! 1 else node) witness)
       (sorted_ids (butlast witness)))"

text \<open>The queue: \<open>pop\<close> takes its last element.\<close>

definition enqueue :: "string \<Rightarrow> string list \<times> string list \<Rightarrow> string list \<times> string list" where
  "enqueue affected = (\<lambda>(fatal, queue). if affected \<in> set fatal then (fatal, queue) else (fatal @ [affected], queue @ [affected]))"

definition spread :: "(string \<times> string) list \<Rightarrow> string list \<times> string list \<Rightarrow> string list \<times> string list" where
  "spread edges = (\<lambda>(fatal, queue).
     fold enqueue (map snd (filter (\<lambda>(s, t). s = last queue) edges)) (fatal, butlast queue))"

lemma enqueue_fold:
  "\<exists>new. fold enqueue xs (fatal, queue) = (fatal @ new, queue @ new) \<and> set new \<subseteq> set xs \<and>
     set new \<inter> set fatal = {} \<and> set xs \<subseteq> set fatal \<union> set new \<and> (distinct fatal \<longrightarrow> distinct (fatal @ new))"
proof (induction xs arbitrary: fatal queue)
  case (Cons x xs)
  show ?case
  proof (cases "x \<in> set fatal")
    case True
    then have "enqueue x (fatal, queue) = (fatal, queue)" by (simp add: enqueue_def)
    then show ?thesis using Cons.IH [of fatal queue] True by auto
  next
    case False
    obtain new where "fold enqueue xs (fatal @ [x], queue @ [x]) = ((fatal @ [x]) @ new, (queue @ [x]) @ new)"
      "set new \<subseteq> set xs" "set new \<inter> set (fatal @ [x]) = {}" "set xs \<subseteq> set (fatal @ [x]) \<union> set new"
      "distinct (fatal @ [x]) \<longrightarrow> distinct ((fatal @ [x]) @ new)"
      using Cons.IH [of "fatal @ [x]" "queue @ [x]"] by blast
    moreover have "enqueue x (fatal, queue) = (fatal @ [x], queue @ [x])" using False by (simp add: enqueue_def)
    ultimately show ?thesis using False by (intro exI [of _ "x # new"]) auto
  qed
qed simp

function close_over :: "(string \<times> string) list \<Rightarrow> string list \<times> string list \<Rightarrow> string list" where
  "close_over edges (fatal, queue) =
     (if queue = [] then fatal else close_over edges (spread edges (fatal, queue)))"
  by pat_completeness auto
termination
proof (relation "measures [\<lambda>(edges, (fatal, queue)). card (snd ` set edges - set fatal), \<lambda>(edges, (fatal, queue)). length queue]")
  fix edges :: "(string \<times> string) list" and fatal queue :: "string list"
  assume q: "queue \<noteq> []"
  obtain new where new: "spread edges (fatal, queue) = (fatal @ new, butlast queue @ new)"
    and sub: "set new \<subseteq> set (map snd (filter (\<lambda>(s, t). s = last queue) edges))" "set new \<inter> set fatal = {}"
    using enqueue_fold [of "map snd (filter (\<lambda>(s, t). s = last queue) edges)" fatal "butlast queue"]
    by (auto simp: spread_def)
  show "((edges, spread edges (fatal, queue)), edges, fatal, queue)
      \<in> measures [\<lambda>(edges, (fatal, queue)). card (snd ` set edges - set fatal), \<lambda>(edges, (fatal, queue)). length queue]"
  proof (cases "new = []")
    case True
    then show ?thesis using q by (simp add: new)
  next
    case False
    then obtain x where x: "x \<in> set new" by (cases new) auto
    then have "x \<in> snd ` set edges - set fatal" using sub by auto
    then have "card (snd ` set edges - set (fatal @ new)) < card (snd ` set edges - set fatal)"
      using x by (intro psubset_card_mono) auto
    then show ?thesis by (simp add: new)
  qed
qed simp

declare close_over.simps [simp del]

definition comparable_drift :: "drift list \<Rightarrow> bool" where
  "comparable_drift ds \<longleftrightarrow> (\<forall>d\<in>set ds. \<forall>e\<in>set ds. dr_code d = dr_code e \<and>
     issue_sort_key (dr_issue d) = issue_sort_key (dr_issue e) \<and> dr_kind d = dr_kind e \<longrightarrow>
     (is_issue_id (dr_target d) \<longleftrightarrow> is_issue_id (dr_target e)))"

definition target_sort_key :: "string \<Rightarrow> string \<times> string \<times> nat" where
  "target_sort_key t = (if is_issue_id t then issue_sort_key t else (t, [], 0))"

definition drift_sort_key :: "drift \<Rightarrow> string \<times> (string \<times> string \<times> nat) \<times> string \<times> (string \<times> string \<times> nat) \<times> string list" where
  "drift_sort_key d = (dr_code d, issue_sort_key (dr_issue d), dr_kind d, target_sort_key (dr_target d), dr_witness d)"

definition edge_sort_key :: "edge \<Rightarrow> string \<times> string \<times> string \<times> string list" where
  "edge_sort_key e = (ed_kind e, ed_source e, ed_target e, ed_evidence e)"

definition edge_pairs :: "edge list \<Rightarrow> (string \<times> string) list" where
  "edge_pairs edges = map (\<lambda>e. (ed_source e, ed_target e)) edges"

definition fatal_issues :: "drift list \<Rightarrow> string list" where
  "fatal_issues drifts = remdups (map dr_issue (filter (\<lambda>d. dr_code d \<in> set FATAL_DRIFT) drifts))"

text \<open>The drift in the order in which the loops find it, and the edges of both kinds.\<close>

definition graph_parts :: "issue list \<Rightarrow> drift list \<times> edge list \<times> edge list" where
  "graph_parts issues =
     (let ids = map is_issue_id_of issues;
          (drifts, cands) = fold relate_issue issues ([], []);
          (drifts, edges) = fold (check_edge (set ids)) (sort_key fst cands) (drifts, []);
          containment = filter (\<lambda>e. ed_kind e = ''containment'') edges;
          prerequisites = filter (\<lambda>e. ed_kind e = ''prerequisite'') edges in
      (drifts @ cycle_drift ids ''containment'' ''containment_cycle'' containment
         @ cycle_drift ids ''prerequisite'' ''prerequisite_cycle'' prerequisites, containment, prerequisites))"

text \<open>
  The final sort compares drift of one code, issue and kind by target, where an issue id counts as a tuple
  and any other text as itself: a mixture of the two raises \<open>TypeError\<close>.
\<close>

definition derive_graph :: "issue list \<Rightarrow> graph option" where
  "derive_graph values =
     (let issues = sort_key (\<lambda>x. issue_sort_key (is_issue_id_of x)) values;
          (drifts, containment, prerequisites) = graph_parts issues;
          fatal = fatal_issues drifts;
          fatal = close_over (edge_pairs prerequisites) (fatal, fatal) in
      if comparable_drift drifts
      then Some \<lparr>gr_issues = issues, gr_containment = sort_key edge_sort_key containment,
        gr_prerequisites = sort_key edge_sort_key prerequisites,
        gr_drift = sort_key drift_sort_key (remdups drifts), gr_non_launchable = sort_key issue_sort_key fatal\<rparr>
      else None)"

section \<open>Waves\<close>

definition blocker_satisfied :: "issue \<Rightarrow> bool" where
  "blocker_satisfied x \<longleftrightarrow> is_state x = ''closed'' \<or> ''workflow:done'' \<in> set (is_labels x)"

definition issue_by_id :: "graph \<Rightarrow> string \<Rightarrow> issue option" where
  "issue_by_id g = map_of (rev (map (\<lambda>x. (is_issue_id_of x, x)) (gr_issues g)))"

definition pending_edge :: "graph \<Rightarrow> edge \<Rightarrow> bool" where
  "pending_edge g e = (case issue_by_id g (ed_source e) of None \<Rightarrow> False | Some x \<Rightarrow> \<not> blocker_satisfied x)"

definition pending_pairs :: "graph \<Rightarrow> (string \<times> string) list" where
  "pending_pairs g = edge_pairs (filter (pending_edge g) (gr_prerequisites g))"

definition lower_incoming :: "string list \<Rightarrow> (string \<Rightarrow> int) \<Rightarrow> string \<Rightarrow> int" where
  "lower_incoming targets incoming = fold (\<lambda>t n. n(t := n t - 1)) targets incoming"

definition outgoing :: "(string \<times> string) list \<Rightarrow> string \<Rightarrow> string list" where
  "outgoing pairs source = map snd (filter (\<lambda>(s, t). s = source) pairs)"

definition wave_of :: "(string \<Rightarrow> int) \<Rightarrow> string list \<Rightarrow> string list" where
  "wave_of incoming remaining = sort_key issue_sort_key (filter (\<lambda>x. incoming x = 0) remaining)"

function waves_from :: "(string \<times> string) list \<Rightarrow> (string \<Rightarrow> int) \<Rightarrow> string list \<Rightarrow> string list list" where
  "waves_from pairs incoming remaining =
     (let wave = wave_of incoming remaining in
      if wave = [] then []
      else wave # waves_from pairs (lower_incoming (concat (map (outgoing pairs) wave)) incoming)
             (filter (\<lambda>x. x \<notin> set wave) remaining))"
  by pat_completeness auto
termination
proof (relation "measure (\<lambda>(pairs, incoming, remaining). length remaining)")
  fix pairs and incoming :: "string \<Rightarrow> int" and remaining wave
  assume w: "wave = wave_of incoming remaining" "wave \<noteq> []"
  then obtain x where "x \<in> set wave" using hd_in_set [OF w(2)] by blast
  then have "x \<in> set remaining" "x \<in> set wave" using w(1) by (auto simp: wave_of_def)
  then have "length (filter (\<lambda>x. x \<notin> set wave) remaining) < length remaining"
    by (intro length_filter_less [of x]) auto
  then show "((pairs, lower_incoming (concat (map (outgoing pairs) wave)) incoming, filter (\<lambda>x. x \<notin> set wave) remaining),
      pairs, incoming, remaining) \<in> measure (\<lambda>(pairs, incoming, remaining). length remaining)" by simp
qed simp

declare waves_from.simps [simp del]

text \<open>A source or a target that is no issue raises \<open>KeyError\<close>.\<close>

definition topological_waves :: "graph \<Rightarrow> string list list option" where
  "topological_waves g =
     (let ids = map is_issue_id_of (gr_issues g); pairs = pending_pairs g in
      if list_all (\<lambda>e. ed_source e \<in> set ids \<and> (pending_edge g e \<longrightarrow> ed_target e \<in> set ids)) (gr_prerequisites g)
      then Some (waves_from pairs (fold (\<lambda>(s, t) n. n(t := n t + 1)) pairs (\<lambda>x. 0))
             (filter (\<lambda>x. x \<notin> set (gr_non_launchable g)) (remdups ids)))
      else None)"

end
