(* ===== verification/Exec_Graph_Props.thy ===== *)
theory Exec_Graph_Props
  imports Exec_Graph "HOL-Library.Transitive_Closure_Table"
begin

text \<open>
  What the graph of the execution map promises: the search for a cycle finds one exactly when there is
  one, the closure of the fatal issues is what the prerequisite edges reach, and the waves are the
  schedule of the issues that no unfinished cycle holds back.
\<close>

section \<open>Cycles\<close>

definition edges_in :: "string list \<Rightarrow> (string \<times> string) list \<Rightarrow> (string \<times> string) set" where
  "edges_in ids edges = {(s, t). (s, t) \<in> set edges \<and> s \<in> set ids \<and> t \<in> set ids}"

abbreviation walk :: "('a \<times> 'a) set \<Rightarrow> 'a list \<Rightarrow> bool" where
  "walk R xs \<equiv> successively (\<lambda>a b. (a, b) \<in> R) xs"

lemma set_sort_key_map: "set (sort_key f xs) = set xs"
  by simp

lemma set_adjacent: "nxt \<in> set (adjacent ids edges node) \<longleftrightarrow> (node, nxt) \<in> edges_in ids edges"
  by (force simp: adjacent_def edges_in_def)

lemma walk_snoc: "xs \<noteq> [] \<Longrightarrow> walk R (xs @ [y]) \<longleftrightarrow> walk R xs \<and> (last xs, y) \<in> R"
  by (auto simp: successively_append_iff)

text \<open>\<open>visit\<close> lists the simple cycles that extend its path.\<close>

lemma visit_iff:
  assumes "path \<noteq> []" "last path = node" "start \<in> set path" "distinct path" "walk (edges_in ids edges) path"
  shows "c \<in> set (visit ids edges start node path) \<longleftrightarrow>
    (\<exists>ext. c = path @ ext @ [start] \<and> distinct (path @ ext) \<and> walk (edges_in ids edges) (path @ ext @ [start]))"
  using assms
proof (induction ids edges start node path rule: visit.induct)
  case (1 ids edges start node path)
  let ?E = "edges_in ids edges"
  have step: "c \<in> set (visit ids edges start nxt (path @ [nxt])) \<longleftrightarrow>
      (\<exists>ext. c = (path @ [nxt]) @ ext @ [start] \<and> distinct ((path @ [nxt]) @ ext) \<and> walk ?E ((path @ [nxt]) @ ext @ [start]))"
    if "(node, nxt) \<in> ?E" "nxt \<noteq> start" "nxt \<notin> set path" for nxt
  proof (rule "1.IH")
    show "nxt \<in> set (adjacent ids edges node)" using that(1) by (simp add: set_adjacent)
    show "walk ?E (path @ [nxt])" using 1 that(1) by (simp add: walk_snoc)
  qed (use 1 that in auto)
  have "c \<in> set (visit ids edges start node path) \<longleftrightarrow> (\<exists>nxt\<in>set (adjacent ids edges node). c \<in> set
      (if nxt = start then [path @ [start]] else if nxt \<in> set path then [] else visit ids edges start nxt (path @ [nxt])))"
    unfolding visit.simps [of ids edges start node path] by (simp only: set_concat set_map UN_iff image_iff bex_simps)
  also have "\<dots> \<longleftrightarrow>
      (\<exists>nxt. (node, nxt) \<in> ?E \<and> (if nxt = start then c = path @ [start]
        else nxt \<notin> set path \<and> c \<in> set (visit ids edges start nxt (path @ [nxt]))))"
    unfolding Bex_def set_adjacent by (intro ex_cong1 conj_cong refl) simp
  also have "\<dots> \<longleftrightarrow> (\<exists>nxt. (node, nxt) \<in> ?E \<and> (if nxt = start then c = path @ [start]
        else nxt \<notin> set path \<and> (\<exists>ext. c = (path @ [nxt]) @ ext @ [start] \<and> distinct ((path @ [nxt]) @ ext) \<and>
          walk ?E ((path @ [nxt]) @ ext @ [start]))))"
    by (intro ex_cong1 conj_cong refl if_cong) (use step in blast)+
  also have "\<dots> \<longleftrightarrow> (\<exists>ext. c = path @ ext @ [start] \<and> distinct (path @ ext) \<and> walk ?E (path @ ext @ [start]))" (is "?l = ?r")
  proof
    assume ?l
    then obtain nxt where n: "(node, nxt) \<in> ?E" and c: "if nxt = start then c = path @ [start]
        else nxt \<notin> set path \<and> (\<exists>ext. c = (path @ [nxt]) @ ext @ [start] \<and> distinct ((path @ [nxt]) @ ext) \<and>
          walk ?E ((path @ [nxt]) @ ext @ [start]))" by blast
    show ?r
    proof (cases "nxt = start")
      case True
      then show ?thesis using c n "1.prems" by (intro exI [of _ "[]"]) (simp add: walk_snoc)
    next
      case False
      then obtain ext where "c = (path @ [nxt]) @ ext @ [start]" "distinct ((path @ [nxt]) @ ext)"
        "walk ?E ((path @ [nxt]) @ ext @ [start])" using c by auto
      then show ?thesis by (intro exI [of _ "nxt # ext"]) simp
    qed
  next
    assume ?r
    then obtain ext where c: "c = path @ ext @ [start]" "distinct (path @ ext)" "walk ?E (path @ ext @ [start])" by blast
    show ?l
    proof (cases ext)
      case Nil
      then show ?thesis using c "1.prems" by (intro exI [of _ start]) (simp add: walk_snoc)
    next
      case (Cons nxt more)
      then have "nxt \<noteq> start" "nxt \<notin> set path" using c(2) "1.prems"(3) by auto
      moreover have "(node, nxt) \<in> ?E" using c(3) Cons "1.prems"(1,2) by (simp add: successively_append_iff)
      ultimately show ?thesis using c Cons by (intro exI [of _ nxt]) (auto intro!: exI [of _ more])
    qed
  qed
  finally show ?case .
qed

text \<open>A simple cycle: it ends where it begins and meets no node twice between.\<close>

definition simple_cycle :: "string list \<Rightarrow> (string \<times> string) list \<Rightarrow> string list \<Rightarrow> bool" where
  "simple_cycle ids edges c \<longleftrightarrow> 2 \<le> length c \<and> hd c = last c \<and> distinct (butlast c) \<and> walk (edges_in ids edges) c"

lemma found_iff:
  "c \<in> set (concat (map (\<lambda>start. visit ids edges start start [start]) (sorted_ids ids))) \<longleftrightarrow> simple_cycle ids edges c"
proof -
  have v: "c \<in> set (visit ids edges start start [start]) \<longleftrightarrow>
      (\<exists>ext. c = [start] @ ext @ [start] \<and> distinct ([start] @ ext) \<and> walk (edges_in ids edges) ([start] @ ext @ [start]))" for start
    by (rule visit_iff) simp_all
  have "simple_cycle ids edges c \<longleftrightarrow>
      (\<exists>start\<in>set ids. \<exists>ext. c = [start] @ ext @ [start] \<and> distinct ([start] @ ext) \<and> walk (edges_in ids edges) ([start] @ ext @ [start]))"
    (is "?l = ?r")
  proof
    assume l: ?l
    then obtain a b ext where c: "c = a # ext @ [b]"
      by (cases c; cases "tl c" rule: rev_cases) (auto simp: simple_cycle_def)
    then have "a = b" "distinct (a # ext)" "walk (edges_in ids edges) c" using l by (auto simp: simple_cycle_def butlast_append)
    moreover have "a \<in> set ids"
      using calculation(3) unfolding c by (cases ext) (auto simp: edges_in_def)
    ultimately show ?r using c by (intro bexI [of _ a]) auto
  next
    assume ?r then show ?l by (auto simp: simple_cycle_def butlast_append)
  qed
  then show ?thesis by (auto simp: v sorted_ids_def)
qed

lemma simple_cycle_exists:
  assumes "(v, v) \<in> (edges_in ids edges)\<^sup>+"
  shows "\<exists>c. simple_cycle ids edges c"
proof -
  let ?E = "edges_in ids edges"
  obtain u where u: "(v, u) \<in> ?E" "(u, v) \<in> ?E\<^sup>*" using assms by (meson tranclD)
  then obtain xs where "rtrancl_path (\<lambda>a b. (a, b) \<in> ?E) u xs v"
    using rtranclp_eq_rtrancl_path [of "\<lambda>a b. (a, b) \<in> ?E" u v] by (auto simp: rtranclp_rtrancl_eq)
  then obtain ys where ys: "rtrancl_path (\<lambda>a b. (a, b) \<in> ?E) u ys v" "distinct (u # ys)"
    by (rule rtrancl_path_distinct)
  have w: "walk ?E (u # zs)" if "rtrancl_path (\<lambda>a b. (a, b) \<in> ?E) u zs y" for u zs y
    using that by (induction rule: rtrancl_path.induct) (auto simp: successively_Cons)
  have l: "last (u # zs) = y" if "rtrancl_path (\<lambda>a b. (a, b) \<in> ?E) u zs y" for u zs y
    using that by (induction rule: rtrancl_path.induct) auto
  have "walk ?E (v # u # ys)" using w [OF ys(1)] u(1) by simp
  moreover have last: "last (u # ys) = v" by (rule l [OF ys(1)])
  moreover have "distinct (v # butlast (u # ys))"
  proof -
    have "u # ys = butlast (u # ys) @ [v]" using last by (metis append_butlast_last_id list.distinct(1))
    then show ?thesis using ys(2) by (metis distinct1_rotate rotate1.simps(2))
  qed
  ultimately have "simple_cycle ids edges (v # u # ys)" by (auto simp: simple_cycle_def)
  then show ?thesis ..
qed

lemma min_by_in: "xs \<noteq> [] \<Longrightarrow> min_by f xs \<in> set xs \<and> (\<forall>x\<in>set xs. f (min_by f xs) \<le> f x)"
proof -
  have run: "foldl (\<lambda>m x. if f x < f m then x else m) m ys \<in> insert m (set ys) \<and>
      (\<forall>x\<in>insert m (set ys). f (foldl (\<lambda>m x. if f x < f m then x else m) m ys) \<le> f x)" for m ys
  proof (induction ys arbitrary: m)
    case (Cons y ys)
    show ?case
    proof (cases "f y < f m")
      case True
      then have "f (foldl (\<lambda>m x. if f x < f m then x else m) y ys) \<le> f m" using Cons.IH [of y] by (meson insertI1 order_le_less_trans order_less_imp_le)
      then show ?thesis using True Cons.IH [of y] by simp
    next
      case False
      then have "f (foldl (\<lambda>m x. if f x < f m then x else m) m ys) \<le> f y" using Cons.IH [of m] by (meson insertI1 linorder_not_less order_trans)
      then show ?thesis using False Cons.IH [of m] by (simp; blast)
    qed
  qed simp
  assume "xs \<noteq> []"
  then show ?thesis using run [of "hd xs" "tl xs"] by (cases xs) (auto simp: min_by_def)
qed

lemma rotate_cycle:
  assumes "simple_cycle ids edges (core @ [hd core])" "core \<noteq> []" "k < length core"
  shows "simple_cycle ids edges (drop k core @ take k core @ [hd (drop k core @ take k core)])"
proof -
  define A where "A = take k core" define B where "B = drop k core"
  have AB: "core = A @ B" "B \<noteq> []" using assms(3) by (simp_all add: A_def B_def)
  have "walk (edges_in ids edges) (core @ [hd core])" "distinct core" using assms(1) by (simp_all add: simple_cycle_def)
  then have "walk (edges_in ids edges) (B @ A @ [hd B])" "distinct (B @ A)"
    using AB by (cases "A = []"; simp add: successively_append_iff; blast)+
  then show ?thesis using AB(2) unfolding A_def [symmetric] B_def [symmetric]
    by (cases B) (auto simp: simple_cycle_def butlast_append)
qed

text \<open>The search is correct: no witness means that the edges have no cycle, and a witness is a shortest
  simple cycle.\<close>

lemma cycle_witness_None: "cycle_witness ids edges = None \<Longrightarrow> acyclic (edges_in ids edges)"
proof -
  assume "cycle_witness ids edges = None"
  then have "concat (map (\<lambda>start. visit ids edges start start [start]) (sorted_ids ids)) = []"
    unfolding cycle_witness_def Let_def by (simp only: split: if_split_asm) simp
  then have "\<not> simple_cycle ids edges c" for c using found_iff [of c ids edges] by (metis empty_iff list.set(1))
  then show ?thesis using simple_cycle_exists unfolding acyclic_def by blast
qed

lemma simple_cycle_core:
  assumes "simple_cycle ids edges c"
  shows "butlast c \<noteq> []" "c = butlast c @ [hd (butlast c)]"
proof -
  obtain a ext where c: "c = a # ext @ [a]"
    using assms by (cases c; cases "tl c" rule: rev_cases) (auto simp: simple_cycle_def)
  show "butlast c \<noteq> []" "c = butlast c @ [hd (butlast c)]" by (simp_all add: c butlast_append)
qed

lemma cycle_witness_Some:
  assumes "cycle_witness ids edges = Some w"
  shows "simple_cycle ids edges w" "simple_cycle ids edges c \<Longrightarrow> length w \<le> length c"
proof -
  define found where "found = concat (map (\<lambda>start. visit ids edges start start [start]) (sorted_ids ids))"
  define best where "best = min_by cycle_key found"
  define core where "core = butlast best"
  define low where "low = min_by (\<lambda>i. issue_sort_key (core ! i)) [0..<length core]"
  have some: "found \<noteq> []" and w: "w = drop low core @ take low core @ [hd (drop low core @ take low core)]"
    using assms unfolding cycle_witness_def Let_def found_def [symmetric] best_def [symmetric] core_def [symmetric] low_def [symmetric]
    by (auto split: if_split_asm)
  have iff: "x \<in> set found \<longleftrightarrow> simple_cycle ids edges x" for x unfolding found_def by (rule found_iff)
  have min: "best \<in> set found" "\<And>x. x \<in> set found \<Longrightarrow> cycle_key best \<le> cycle_key x"
    using min_by_in [OF some, of cycle_key] unfolding best_def by blast+
  then have sc: "simple_cycle ids edges best" using iff by blast
  note c = simple_cycle_core [OF sc, folded core_def]
  have low: "low < length core"
    using min_by_in [of "[0..<length core]" "\<lambda>i. issue_sort_key (core ! i)"] c(1) unfolding low_def by auto
  show "simple_cycle ids edges w" unfolding w by (rule rotate_cycle [OF _ c(1) low]) (use sc c(2) in simp)
  have "length w = length best" using low by (subst c(2)) (simp add: w)
  moreover have "length best \<le> length c" if "simple_cycle ids edges c" for c
    using min(2) [of c] that iff by (simp add: cycle_key_def less_eq_prod_def) linarith
  ultimately show "simple_cycle ids edges c \<Longrightarrow> length w \<le> length c" by simp
qed

lemma simple_cycle_trancl: "simple_cycle ids edges c \<Longrightarrow> (hd c, hd c) \<in> (edges_in ids edges)\<^sup>+"
proof -
  have walks: "walk R (x # xs) \<Longrightarrow> xs \<noteq> [] \<Longrightarrow> (x, last xs) \<in> R\<^sup>+" for R :: "(string \<times> string) set" and x xs
    by (induction xs arbitrary: x) (auto intro: trancl_into_trancl2)
  assume "simple_cycle ids edges c"
  then show ?thesis using walks [of "edges_in ids edges" "hd c" "tl c"] by (cases c) (auto simp: simple_cycle_def split: if_split_asm)
qed

section \<open>The closure of the fatal issues\<close>

lemma close_over_set:
  assumes "set queue \<subseteq> set fatal" "\<And>s t. (s, t) \<in> set edges \<Longrightarrow> s \<in> set fatal \<Longrightarrow> s \<notin> set queue \<Longrightarrow> t \<in> set fatal"
  shows "set (close_over edges (fatal, queue)) = (set edges)\<^sup>* `` set fatal"
  using assms
proof (induction edges "(fatal, queue)" arbitrary: fatal queue rule: close_over.induct)
  case (1 edges fatal queue)
  show ?case
  proof (cases "queue = []")
    case True
    have "(set edges)\<^sup>* `` set fatal \<subseteq> set fatal"
      by (rule Image_closed_trancl [THEN equalityD1]) (use 1(3) True in auto)
    then show ?thesis using True by (auto simp: close_over.simps)
  next
    case False
    let ?xs = "map snd (filter (\<lambda>(s, t). s = last queue) edges)"
    obtain new where new: "spread edges (fatal, queue) = (fatal @ new, butlast queue @ new)"
      "set new \<subseteq> set ?xs" "set ?xs \<subseteq> set fatal \<union> set new"
      using enqueue_fold [of ?xs fatal "butlast queue"] by (auto simp: spread_def)
    have q: "set queue = insert (last queue) (set (butlast queue))"
      using False by (metis append_butlast_last_id Un_insert_right list.set(1,2) set_append sup_bot.right_neutral)
    have "set (close_over edges (fatal, queue)) = set (close_over edges (fatal @ new, butlast queue @ new))"
      by (subst close_over.simps) (simp add: False new)
    also have "\<dots> = (set edges)\<^sup>* `` set (fatal @ new)"
    proof (rule 1(1) [OF False, unfolded new, OF refl])
      show "set (butlast queue @ new) \<subseteq> set (fatal @ new)" using 1(2) q by auto
      fix s t assume st: "(s, t) \<in> set edges" "s \<in> set (fatal @ new)" "s \<notin> set (butlast queue @ new)"
      show "t \<in> set (fatal @ new)"
      proof (cases "s = last queue")
        case True
        then have "t \<in> set ?xs" using st(1) by force
        then show ?thesis using new(3) by auto
      next
        case False
        then show ?thesis using 1(3) [OF st(1)] st(2,3) q by auto
      qed
    qed
    also have "\<dots> = (set edges)\<^sup>* `` set fatal"
    proof -
      have "last queue \<in> set fatal" using 1(2) False by auto
      then have "set new \<subseteq> (set edges)\<^sup>* `` set fatal" using new(2) by (force intro!: ImageI r_into_rtrancl)
      then show ?thesis by (auto intro: rtrancl_trans)
    qed
    finally show ?thesis .
  qed
qed

lemma close_over_reaches: "set (close_over edges (fatal, fatal)) = (set edges)\<^sup>* `` set fatal"
  by (rule close_over_set) auto

section \<open>The waves\<close>

definition count_into :: "(string \<times> string) list \<Rightarrow> string set \<Rightarrow> string \<Rightarrow> int" where
  "count_into pairs finished x = int (length (filter (\<lambda>(s, t). t = x \<and> s \<notin> finished) pairs))"

lemma lower_incoming_count: "lower_incoming targets n x = n x - int (count_list targets x)"
proof (induction targets arbitrary: n)
  case (Cons t ts)
  then show ?case by (simp add: lower_incoming_def)
qed (simp add: lower_incoming_def)

lemma raise_incoming: "fold (\<lambda>(s, t) n. n(t := n t + 1)) pairs n x = n x + count_into pairs {} x"
  by (induction pairs arbitrary: n) (auto simp: count_into_def)

lemma count_outgoing: "count_list (outgoing pairs s) x = length (filter (\<lambda>p. p = (s, x)) pairs)"
  by (induction pairs) (auto simp: outgoing_def)

lemma count_wave:
  "distinct wave \<Longrightarrow> count_list (concat (map (outgoing pairs) wave)) x = length (filter (\<lambda>(s, t). t = x \<and> s \<in> set wave) pairs)"
proof (induction wave)
  case (Cons w wave)
  have "length (filter (\<lambda>(s, t). t = x \<and> s \<in> set (w # wave)) pairs) =
      length (filter (\<lambda>p. p = (w, x)) pairs) + length (filter (\<lambda>(s, t). t = x \<and> s \<in> set wave) pairs)"
    using Cons.prems by (induction pairs) auto
  then show ?case using Cons by (simp add: count_list_append count_outgoing)
qed simp

lemma count_step:
  assumes "distinct wave" "set wave \<inter> finished = {}"
  shows "lower_incoming (concat (map (outgoing pairs) wave)) (count_into pairs finished) = count_into pairs (finished \<union> set wave)"
proof
  fix x
  have "length (filter (\<lambda>(s, t). t = x \<and> s \<notin> finished) pairs) =
      length (filter (\<lambda>(s, t). t = x \<and> s \<notin> finished \<union> set wave) pairs) + length (filter (\<lambda>(s, t). t = x \<and> s \<in> set wave) pairs)"
    using assms(2) by (induction pairs) auto
  then show "lower_incoming (concat (map (outgoing pairs) wave)) (count_into pairs finished) x = count_into pairs (finished \<union> set wave) x"
    by (simp add: lower_incoming_count count_wave [OF assms(1)] count_into_def)
qed

lemma count_into_zero: "count_into pairs finished x = 0 \<longleftrightarrow> (\<forall>(s, t)\<in>set pairs. t = x \<longrightarrow> s \<in> finished)"
  by (auto simp: count_into_def filter_empty_conv)

text \<open>A schedule: what is left when the issues of the set are finished.\<close>

definition schedules :: "(string \<times> string) list \<Rightarrow> string set \<Rightarrow> string list \<Rightarrow> string list list \<Rightarrow> bool" where
  "schedules pairs finished remaining ws \<longleftrightarrow> distinct (concat ws) \<and> set (concat ws) \<subseteq> set remaining \<and> [] \<notin> set ws \<and>
     (\<forall>j<length ws. \<forall>(s, t)\<in>set pairs. t \<in> set (ws ! j) \<longrightarrow> s \<in> finished \<or> (\<exists>i<j. s \<in> set (ws ! i))) \<and>
     (\<forall>t\<in>set remaining - set (concat ws). \<exists>s. (s, t) \<in> set pairs \<and> s \<notin> finished \<and> s \<notin> set (concat ws))"

lemma schedules_add:
  assumes "schedules pairs (finished \<union> set w) (filter (\<lambda>x. x \<notin> set w) remaining) ws"
    and "distinct w" "w \<noteq> []" "set w \<subseteq> set remaining" "\<And>s t. (s, t) \<in> set pairs \<Longrightarrow> t \<in> set w \<Longrightarrow> s \<in> finished"
  shows "schedules pairs finished remaining (w # ws)"
  unfolding schedules_def
proof (intro conjI)
  note parts = assms(1) [unfolded schedules_def]
  show "distinct (concat (w # ws))" "set (concat (w # ws)) \<subseteq> set remaining" "[] \<notin> set (w # ws)"
    using parts assms(2-4) by auto
  show "\<forall>j<length (w # ws). \<forall>(s, t)\<in>set pairs. t \<in> set ((w # ws) ! j) \<longrightarrow> s \<in> finished \<or> (\<exists>i<j. s \<in> set ((w # ws) ! i))"
  proof (intro allI impI, clarify)
    fix j s t assume j: "j < length (w # ws)" and st: "(s, t) \<in> set pairs" "t \<in> set ((w # ws) ! j)" "\<not> (\<exists>i<j. s \<in> set ((w # ws) ! i))"
    show "s \<in> finished"
    proof (cases j)
      case 0
      then show ?thesis using assms(5) [OF st(1)] st(2) by simp
    next
      case (Suc k)
      then have "s \<in> finished \<union> set w \<or> (\<exists>i<k. s \<in> set (ws ! i))" using parts j st(1,2) by auto
      moreover have "s \<notin> set w" using st(3) Suc by (metis nth_Cons_0 zero_less_Suc)
      moreover have "\<not> (\<exists>i<k. s \<in> set (ws ! i))" using st(3) Suc by (metis Suc_less_eq nth_Cons_Suc)
      ultimately show ?thesis by blast
    qed
  qed
  show "\<forall>t\<in>set remaining - set (concat (w # ws)). \<exists>s. (s, t) \<in> set pairs \<and> s \<notin> finished \<and> s \<notin> set (concat (w # ws))"
  proof
    fix t assume "t \<in> set remaining - set (concat (w # ws))"
    then have "t \<in> set (filter (\<lambda>x. x \<notin> set w) remaining) - set (concat ws)" by auto
    then obtain s where "(s, t) \<in> set pairs" "s \<notin> finished \<union> set w" "s \<notin> set (concat ws)" using parts by blast
    then show "\<exists>s. (s, t) \<in> set pairs \<and> s \<notin> finished \<and> s \<notin> set (concat (w # ws))" by auto
  qed
qed

lemma waves_from_schedule:
  assumes "distinct remaining" "set remaining \<inter> finished = {}"
  shows "schedules pairs finished remaining (waves_from pairs (count_into pairs finished) remaining)"
  using assms
proof (induction "length remaining" arbitrary: remaining finished rule: less_induct)
  case less
  define w where "w = wave_of (count_into pairs finished) remaining"
  have w: "distinct w" "set w = {x \<in> set remaining. count_into pairs finished x = 0}"
    using less.prems(1) by (simp_all add: w_def wave_of_def)
  show ?case
  proof (cases "w = []")
    case True
    then have "\<forall>t\<in>set remaining. count_into pairs finished t \<noteq> 0" using w(2) by auto
    then have "\<forall>t\<in>set remaining. \<exists>s. (s, t) \<in> set pairs \<and> s \<notin> finished" unfolding count_into_zero by auto
    then show ?thesis using True by (subst waves_from.simps) (simp add: w_def [symmetric] schedules_def)
  next
    case False
    have ws: "waves_from pairs (count_into pairs finished) remaining =
        w # waves_from pairs (count_into pairs (finished \<union> set w)) (filter (\<lambda>x. x \<notin> set w) remaining)"
      using False w less.prems(2) by (subst waves_from.simps) (simp add: w_def [symmetric] count_step Let_def disjoint_iff)
    obtain x where "x \<in> set w" using False by (cases w) auto
    then have "length (filter (\<lambda>x. x \<notin> set w) remaining) < length remaining"
      using w(2) by (intro length_filter_less [of x]) auto
    then have "schedules pairs (finished \<union> set w) (filter (\<lambda>x. x \<notin> set w) remaining)
        (waves_from pairs (count_into pairs (finished \<union> set w)) (filter (\<lambda>x. x \<notin> set w) remaining))"
      by (rule less.hyps) (use less.prems in auto)
    then show ?thesis unfolding ws
      by (rule schedules_add) (use w False count_into_zero [of pairs finished] in auto)
  qed
qed

section \<open>The parts of a derived graph\<close>

text \<open>Every candidate is owned by an issue of the input.\<close>

fun owned_key :: "string set \<Rightarrow> string \<times> string \<times> string \<Rightarrow> bool" where
  "owned_key I (kind, source, target) \<longleftrightarrow>
     (kind = ''containment'' \<and> source \<in> I) \<or> (kind = ''prerequisite'' \<and> target \<in> I)"

definition owned :: "string set \<Rightarrow> candidates \<Rightarrow> bool" where
  "owned I cands \<longleftrightarrow> (\<forall>k\<in>set (map fst cands). owned_key I k)"

lemma keys_add_evidence: "set (map fst (add_evidence key ev cands)) = insert key (set (map fst cands))"
  by (auto simp: add_evidence_def AList.update_keys simp del: set_map)

lemma owned_add: "owned I cands \<Longrightarrow> owned_key I key \<Longrightarrow> owned I (add_evidence key ev cands)"
  unfolding owned_def keys_add_evidence by blast

text \<open>What the loop over the issues does to the drift and the candidates: it adds drift of an issue and
  evidence for an owned candidate, step by step.\<close>

definition RELATE_CODES :: "string list" where
  "RELATE_CODES = [''workflow_label_cardinality'', ''missing_area_or_milestone'', ''multiple_parents'', ''missing_target'',
     ''cross_repo_target'', ''duplicate_edge'', ''native_text_parent_mismatch'']"

lemma relate_codes [simp]:
  "''missing_target'' \<in> set RELATE_CODES" "''cross_repo_target'' \<in> set RELATE_CODES"
  "''duplicate_edge'' \<in> set RELATE_CODES" "''native_text_parent_mismatch'' \<in> set RELATE_CODES"
  by (simp_all add: RELATE_CODES_def)

inductive grows :: "string set \<Rightarrow> drift list \<times> candidates \<Rightarrow> drift list \<times> candidates \<Rightarrow> bool" for I where
  grows_refl: "grows I st st"
| grows_drift: "grows I st (ds, cs) \<Longrightarrow> dr_issue d \<in> I \<Longrightarrow> dr_code d \<in> set RELATE_CODES \<Longrightarrow> grows I st (ds @ [d], cs)"
| grows_edge: "grows I st (ds, cs) \<Longrightarrow> owned_key I key \<Longrightarrow> grows I st (ds, add_evidence key ev cs)"

lemma grows_trans: "grows I b c \<Longrightarrow> grows I a b \<Longrightarrow> grows I a c"
  by (induction rule: grows.induct) (auto intro: grows.intros)

lemma grows_drifts:
  "grows I st (ds, cs) \<Longrightarrow> \<forall>d\<in>set new. dr_issue d \<in> I \<and> dr_code d \<in> set RELATE_CODES \<Longrightarrow> grows I st (ds @ new, cs)"
proof (induction new arbitrary: ds)
  case (Cons d new)
  then show ?case using Cons.IH [of "ds @ [d]"] grows_drift [of I st ds cs d] by simp
qed simp

lemma grows_keeps:
  assumes "grows I st st'"
  shows "set (fst st) \<subseteq> set (fst st')" "set (map fst (snd st)) \<subseteq> set (map fst (snd st'))"
    "owned I (snd st) \<Longrightarrow> owned I (snd st')"
    "d \<in> set (fst st') \<Longrightarrow> d \<in> set (fst st) \<or> (dr_issue d \<in> I \<and> dr_code d \<in> set RELATE_CODES)"
  using assms by (induction rule: grows.induct) (auto simp: keys_add_evidence owned_add simp del: set_map)

lemma target_error: "target_of raw repo = (t, Some e) \<Longrightarrow> e \<in> set RELATE_CODES"
  by (auto simp: target_of_def RELATE_CODES_def split: option.split_asm if_split_asm)

abbreviation text_state :: "drift list \<times> candidates \<times> string list \<Rightarrow> drift list \<times> candidates" where
  "text_state st \<equiv> (fst st, fst (snd st))"

lemma grows_text: "i \<in> I \<Longrightarrow> grows I (text_state st) (text_state (relate_text i r st))"
proof -
  assume i: "i \<in> I"
  obtain phrase raw where r: "r = (phrase, raw)" by (cases r)
  obtain t e where t: "target_of raw (repo_of i) = (t, e)" by fastforce
  have key: "owned_key I (text_key phrase i x)" for x using i by (simp add: text_key_def)
  show ?thesis
  proof (cases e)
    case (Some a)
    then show ?thesis using target_error [of raw "repo_of i" t a] t i
      by (cases st; cases t) (auto simp: relate_text_def r Let_def intro!: grows_drifts grows_refl)
  next
    case None
    then show ?thesis using t i key
      by (cases st; cases t) (auto simp: relate_text_def r Let_def intro!: grows_drifts grows_edge grows_refl)
  qed
qed

lemma grows_texts: "i \<in> I \<Longrightarrow> grows I (text_state st) (text_state (fold (relate_text i) rs st))"
proof (induction rs arbitrary: st)
  case (Cons r rs)
  show ?case using grows_trans [OF Cons.IH [OF Cons.prems, of "relate_text i r st"] grows_text [OF Cons.prems]] by simp
qed (simp add: grows_refl)

lemma grows_parent:
  assumes i: "is_issue_id_of x \<in> I"
  shows "grows I st (relate_parent x parents st)"
proof -
  obtain ds cs where st: "st = (ds, cs)" by (cases st)
  consider "is_native_parent x = None \<or> is_native_parent x = Some []" | raw where "is_native_parent x = Some raw" "raw \<noteq> []"
    by (cases "is_native_parent x") auto
  then show ?thesis
  proof cases
    case 1
    then show ?thesis by (auto simp: st relate_parent_def grows_refl)
  next
    case (2 raw)
    obtain t e where t: "target_of raw (repo_of (is_issue_id_of x)) = (t, e)" by fastforce
    let ?mismatch = "\<lambda>a. if parents \<noteq> [] \<and> set parents \<noteq> {a}
      then [Drift ''native_text_parent_mismatch'' (is_issue_id_of x) ''containment'' (join '','' (sorted_ids (parents @ [a]))) []] else []"
    have mismatch: "grows I st (ds', cs') \<Longrightarrow> grows I st (ds' @ ?mismatch a, cs')" for ds' cs' a
      by (rule grows_drifts) (use i in auto)
    show ?thesis
    proof (cases e)
      case (Some code)
      let ?d = "Drift code (is_issue_id_of x) ''containment'' (case t of None \<Rightarrow> raw | Some t \<Rightarrow> t) []"
      have "grows I st (ds @ [?d], cs)"
        unfolding st by (rule grows_drift [OF grows_refl]) (use target_error [of raw "repo_of (is_issue_id_of x)" t code] t Some i in auto)
      note this mismatch [OF this]
      moreover have "t = Some a \<Longrightarrow> relate_parent x parents st = ((ds @ [?d]) @ ?mismatch a, cs)" for a
        using 2 t Some by (simp add: st relate_parent_def Let_def)
      moreover have "t = None \<Longrightarrow> relate_parent x parents st = (ds @ [?d], cs)"
        using 2 t Some by (simp add: st relate_parent_def Let_def)
      ultimately show ?thesis by (cases t) (simp_all only:)
    next
      case None
      have "grows I st (ds, add_evidence (''containment'', is_issue_id_of x, a) ''native'' cs)" for a
        unfolding st by (rule grows_edge [OF grows_refl]) (use i in simp)
      from mismatch [OF this] have "grows I st (ds @ ?mismatch a, add_evidence (''containment'', is_issue_id_of x, a) ''native'' cs)" for a .
      moreover have "t = Some a \<Longrightarrow> relate_parent x parents st = (ds @ ?mismatch a, add_evidence (''containment'', is_issue_id_of x, a) ''native'' cs)" for a
        using 2 t None by (simp add: st relate_parent_def Let_def)
      moreover have "t = None \<Longrightarrow> relate_parent x parents st = st" using 2 t None by (simp add: st relate_parent_def Let_def)
      ultimately show ?thesis using grows_refl [of I st] by (cases t) auto
    qed
  qed
qed

lemma grows_native: "i \<in> I \<Longrightarrow> grows I st (relate_native i raw st)"
proof -
  assume i: "i \<in> I"
  obtain t e where t: "target_of raw (repo_of i) = (t, e)" by fastforce
  show ?thesis
  proof (cases e)
    case (Some a)
    then show ?thesis using target_error [of raw "repo_of i" t a] t i
      by (cases st; cases t) (auto simp: relate_native_def Let_def intro!: grows_drifts grows_refl)
  next
    case None
    then show ?thesis using t i
      by (cases st; cases t) (auto simp: relate_native_def Let_def intro!: grows_drifts grows_edge grows_refl)
  qed
qed

lemma grows_natives: "i \<in> I \<Longrightarrow> grows I st (fold (relate_native i) raws st)"
proof (induction raws arbitrary: st)
  case (Cons raw raws)
  show ?case using grows_trans [OF Cons.IH [OF Cons.prems, of "relate_native i raw st"] grows_native [OF Cons.prems]] by simp
qed (simp add: grows_refl)

lemma relate_issue_parts:
  obtains d0 d1 drifts1 cands1 parents where
    "fold (relate_text (is_issue_id_of x)) (relations (is_body x)) (drifts @ d0, cands, []) = (drifts1, cands1, parents)"
    "relate_issue x (drifts, cands) =
       fold (relate_native (is_issue_id_of x)) (is_native_prerequisites x) (relate_parent x parents (drifts1 @ d1, cands1))"
    "\<forall>d\<in>set (d0 @ d1). dr_issue d = is_issue_id_of x \<and> dr_code d \<in> set RELATE_CODES"
proof -
  let ?i = "is_issue_id_of x"
  define d0 where "d0 = (if is_state x = ''open'' \<and> length (filter (\<lambda>l. startswith l WORKFLOW_PREFIX) (is_labels x)) \<noteq> 1
      then [plain_drift ''workflow_label_cardinality'' ?i] else []) @
    (if no_text (is_area x) \<or> no_text (is_milestone x) then [plain_drift ''missing_area_or_milestone'' ?i] else [])"
  obtain drifts1 cands1 parents where f: "fold (relate_text ?i) (relations (is_body x)) (drifts @ d0, cands, []) = (drifts1, cands1, parents)"
    by (cases "fold (relate_text ?i) (relations (is_body x)) (drifts @ d0, cands, [])")
  define d1 where "d1 = (if 1 < length (remdups parents)
        then [Drift ''multiple_parents'' ?i ''containment'' (join '','' (sorted_ids parents)) []] else [])"
  have "relate_issue x (drifts, cands) =
       fold (relate_native ?i) (is_native_prerequisites x) (relate_parent x parents (drifts1 @ d1, cands1))"
    using f by (simp only: relate_issue_def Let_def prod.case d0_def d1_def append_assoc)
  moreover have "\<forall>d\<in>set (d0 @ d1). dr_issue d = ?i \<and> dr_code d \<in> set RELATE_CODES"
    by (auto simp: d0_def d1_def RELATE_CODES_def)
  ultimately show thesis by (rule that [OF f])
qed

lemma grows_issue: "is_issue_id_of x \<in> I \<Longrightarrow> grows I st (relate_issue x st)"
proof (cases st)
  case (Pair drifts cands)
  assume i: "is_issue_id_of x \<in> I"
  obtain d0 d1 drifts1 cands1 parents where
    f: "fold (relate_text (is_issue_id_of x)) (relations (is_body x)) (drifts @ d0, cands, []) = (drifts1, cands1, parents)"
    and r: "relate_issue x (drifts, cands) =
       fold (relate_native (is_issue_id_of x)) (is_native_prerequisites x) (relate_parent x parents (drifts1 @ d1, cands1))"
    and d: "\<forall>d\<in>set (d0 @ d1). dr_issue d = is_issue_id_of x \<and> dr_code d \<in> set RELATE_CODES"
    by (rule relate_issue_parts)
  have "grows I (drifts @ d0, cands) (drifts1, cands1)"
    using grows_texts [OF i, of "(drifts @ d0, cands, [])" "relations (is_body x)"] by (simp add: f)
  moreover have "grows I (drifts, cands) (drifts @ d0, cands)" by (rule grows_drifts [OF grows_refl]) (use d i in auto)
  ultimately have "grows I (drifts, cands) (drifts1 @ d1, cands1)"
    by (intro grows_drifts) (use d i in \<open>auto intro: grows_trans\<close>)
  then show ?thesis unfolding Pair r by (meson grows_trans grows_parent grows_natives i)
qed

lemma grows_issues: "is_issue_id_of ` set xs \<subseteq> I \<Longrightarrow> grows I st (fold relate_issue xs st)"
proof (induction xs arbitrary: st)
  case (Cons x xs)
  then have "is_issue_id_of x \<in> I" "is_issue_id_of ` set xs \<subseteq> I" by auto
  then show ?case using grows_trans [OF Cons.IH grows_issue] by simp
qed (simp add: grows_refl)

text \<open>The edges that passed the check.\<close>

definition sound_edge :: "string set \<Rightarrow> edge \<Rightarrow> bool" where
  "sound_edge I e \<longleftrightarrow> ed_kind e \<in> {''containment'', ''prerequisite''} \<and> ed_source e \<in> I \<and> ed_target e \<in> I \<and> ed_source e \<noteq> ed_target e"

lemma check_edges_sound:
  "owned I cands \<Longrightarrow> list_all (sound_edge I) (snd st) \<Longrightarrow> list_all (sound_edge I) (snd (fold (check_edge I) cands st))"
proof (induction cands arbitrary: st)
  case (Cons c cands)
  have "list_all (sound_edge I) (snd (check_edge I c st))"
    using Cons.prems by (cases c; cases st) (auto simp: check_edge_def list_all_append owned_def sound_edge_def [of I "Edge k s t e" for k s t e])
  then show ?case using Cons by (simp add: owned_def)
qed simp

lemma graph_parts_sound:
  assumes "graph_parts issues = (drifts, containment, prerequisites)"
  shows "\<forall>e\<in>set (containment @ prerequisites). sound_edge (is_issue_id_of ` set issues) e"
proof -
  let ?I = "is_issue_id_of ` set issues"
  define p where "p = fold relate_issue issues ([], [])"
  have "grows ?I ([], []) p" unfolding p_def by (rule grows_issues) simp
  then have "owned ?I (snd p)" by (rule grows_keeps(3)) (simp add: owned_def)
  then have "owned ?I (sort_key fst (snd p))" by (simp add: owned_def)
  then have "list_all (sound_edge ?I) (snd (fold (check_edge ?I) (sort_key fst (snd p)) (fst p, [])))"
    by (rule check_edges_sound) simp
  then show ?thesis
    using assms unfolding graph_parts_def p_def [symmetric]
    by (cases p; cases "fold (check_edge ?I) (sort_key fst (snd p)) (fst p, [])") (auto simp: Let_def list_all_iff)
qed

lemma derive_graph_Some:
  assumes "derive_graph values = Some g"
  shows "set (map is_issue_id_of (gr_issues g)) = is_issue_id_of ` set values"
    "e \<in> set (gr_prerequisites g) \<Longrightarrow> sound_edge (is_issue_id_of ` set values) e"
    "set (gr_non_launchable g) =
       (set (edge_pairs (gr_prerequisites g)))\<^sup>* `` (dr_issue ` {d \<in> set (gr_drift g). dr_code d \<in> set FATAL_DRIFT})"
    "\<exists>drifts containment prerequisites. graph_parts (gr_issues g) = (drifts, containment, prerequisites) \<and>
       set (gr_drift g) = set drifts \<and> set (gr_prerequisites g) = set prerequisites \<and> comparable_drift drifts"
proof -
  define issues where "issues = sort_key (\<lambda>x. issue_sort_key (is_issue_id_of x)) values"
  obtain drifts containment prerequisites where parts: "graph_parts issues = (drifts, containment, prerequisites)"
    by (cases "graph_parts issues")
  have g: "g = \<lparr>gr_issues = issues, gr_containment = sort_key edge_sort_key containment,
      gr_prerequisites = sort_key edge_sort_key prerequisites, gr_drift = sort_key drift_sort_key (remdups drifts),
      gr_non_launchable = sort_key issue_sort_key (close_over (edge_pairs prerequisites) (fatal_issues drifts, fatal_issues drifts))\<rparr>"
    and cmp: "comparable_drift drifts"
    using assms parts unfolding derive_graph_def issues_def [symmetric] by (auto simp: Let_def split: if_split_asm)
  have ids: "set issues = set values" by (simp add: issues_def)
  show "set (map is_issue_id_of (gr_issues g)) = is_issue_id_of ` set values" by (simp add: g ids)
  show "e \<in> set (gr_prerequisites g) \<Longrightarrow> sound_edge (is_issue_id_of ` set values) e"
    using graph_parts_sound [OF parts] by (simp add: g ids)
  show "set (gr_non_launchable g) =
       (set (edge_pairs (gr_prerequisites g)))\<^sup>* `` (dr_issue ` {d \<in> set (gr_drift g). dr_code d \<in> set FATAL_DRIFT})"
    by (simp add: g close_over_reaches edge_pairs_def fatal_issues_def)
  show "\<exists>drifts containment prerequisites. graph_parts (gr_issues g) = (drifts, containment, prerequisites) \<and>
       set (gr_drift g) = set drifts \<and> set (gr_prerequisites g) = set prerequisites \<and> comparable_drift drifts"
    using parts cmp by (simp add: g)
qed

section \<open>What the graph promises\<close>

lemma pending_pairs_sound:
  assumes "(s, t) \<in> set (pending_pairs g)"
  shows "(s, t) \<in> set (edge_pairs (gr_prerequisites g))"
  using assms by (auto simp: pending_pairs_def edge_pairs_def)

lemma scheduled_backwards:
  assumes "\<forall>j<length ws. \<forall>(s, t)\<in>set pairs. t \<in> set (ws ! j) \<longrightarrow> (\<exists>i<j. s \<in> set (ws ! i))"
    and "(s, t) \<in> (set pairs)\<^sup>+" "j < length ws" "t \<in> set (ws ! j)"
  shows "\<exists>i<j. s \<in> set (ws ! i)"
  using assms(2,3,4)
proof (induction arbitrary: j rule: trancl_induct)
  case (base y)
  then show ?case using assms(1) by fast
next
  case (step y z)
  obtain i where i: "i < j" "y \<in> set (ws ! i)" using assms(1) step.hyps(2) step.prems by fast
  then obtain k where "k < i" "s \<in> set (ws ! k)" using step.IH [of i] step.prems(1) by auto
  then show ?case using i(1) by (intro exI [of _ k]) simp
qed

lemma in_waves: "x \<in> set (concat ws) \<longleftrightarrow> (\<exists>j<length ws. x \<in> set (ws ! j))"
  by (simp add: set_concat) (metis in_set_conv_nth)

text \<open>An issue whose unfinished prerequisites include a cycle is in no wave.\<close>

lemma cycles_unscheduled:
  assumes "\<forall>j<length ws. \<forall>(s, t)\<in>set pairs. t \<in> set (ws ! j) \<longrightarrow> (\<exists>i<j. s \<in> set (ws ! i))"
    and "(y, y) \<in> (set pairs)\<^sup>+" "(y, x) \<in> (set pairs)\<^sup>*"
  shows "x \<notin> set (concat ws)"
proof
  assume "x \<in> set (concat ws)"
  then obtain j where j: "j < length ws" "x \<in> set (ws ! j)" unfolding in_waves by blast
  have "\<exists>i<length ws. y \<in> set (ws ! i)"
  proof (cases "y = x")
    case False
    then have "(y, x) \<in> (set pairs)\<^sup>+" using assms(3) by (simp add: rtrancl_eq_or_trancl)
    then show ?thesis using scheduled_backwards [OF assms(1) _ j] j(1) by (meson order_less_trans)
  qed (use j in blast)
  then have least: "(LEAST i. i < length ws \<and> y \<in> set (ws ! i)) < length ws \<and> y \<in> set (ws ! (LEAST i. i < length ws \<and> y \<in> set (ws ! i)))"
    by (rule LeastI_ex)
  then obtain k where "k < (LEAST i. i < length ws \<and> y \<in> set (ws ! i))" "y \<in> set (ws ! k)"
    using scheduled_backwards [OF assms(1,2)] by blast
  then show False using not_less_Least least by (metis (no_types, lifting) order_less_trans)
qed

text \<open>What stays out of every wave has such a cycle behind it.\<close>

lemma left_over_cycle:
  assumes "finite L" "\<And>t. t \<in> L \<Longrightarrow> \<exists>s\<in>L. (s, t) \<in> P" "x \<in> L"
  shows "\<exists>y. (y, y) \<in> P\<^sup>+ \<and> (y, x) \<in> P\<^sup>*"
proof -
  define A where "A = {z \<in> L. (z, x) \<in> P\<^sup>*}"
  define R where "R = P \<inter> A \<times> A"
  have "finite R" using assms(1) by (auto simp: R_def A_def)
  have "\<not> acyclic R"
  proof
    assume "acyclic R"
    then have "wf R" by (rule finite_acyclic_wf [OF \<open>finite R\<close>])
    moreover have "x \<in> A" using assms(3) by (simp add: A_def)
    ultimately obtain z where z: "z \<in> A" "\<And>s. (s, z) \<in> R \<Longrightarrow> s \<notin> A" by (metis wfE_min)
    obtain s where "s \<in> L" "(s, z) \<in> P" using assms(2) z(1) by (auto simp: A_def)
    then have "s \<in> A" "(s, z) \<in> R" using z(1) by (auto simp: A_def R_def intro: converse_rtrancl_into_rtrancl)
    then show False using z(2) by blast
  qed
  then obtain y where y: "(y, y) \<in> R\<^sup>+" by (auto simp: acyclic_def)
  then have "y \<in> A" by (induction rule: trancl.induct) (auto simp: R_def)
  moreover have "(y, y) \<in> P\<^sup>+" using y by (rule trancl_mono) (auto simp: R_def)
  ultimately show ?thesis by (auto simp: A_def)
qed

lemma waves_schedule:
  assumes "derive_graph values = Some g"
  obtains ws where "topological_waves g = Some ws"
    "schedules (pending_pairs g) {} (filter (\<lambda>x. x \<notin> set (gr_non_launchable g)) (remdups (map is_issue_id_of (gr_issues g)))) ws"
proof -
  note ids = derive_graph_Some(1) [OF assms] and sound = derive_graph_Some(2) [OF assms]
  let ?left = "filter (\<lambda>x. x \<notin> set (gr_non_launchable g)) (remdups (map is_issue_id_of (gr_issues g)))"
  have "fold (\<lambda>(s, t) n. n(t := n t + 1)) (pending_pairs g) (\<lambda>x. 0) = count_into (pending_pairs g) {}"
    by (rule ext) (simp add: raise_incoming)
  moreover have "list_all (\<lambda>e. ed_source e \<in> set (map is_issue_id_of (gr_issues g)) \<and>
      (pending_edge g e \<longrightarrow> ed_target e \<in> set (map is_issue_id_of (gr_issues g)))) (gr_prerequisites g)"
    using sound unfolding list_all_iff ids by (auto simp: sound_edge_def)
  ultimately have "topological_waves g = Some (waves_from (pending_pairs g) (count_into (pending_pairs g) {}) ?left)"
    by (simp add: topological_waves_def Let_def)
  moreover have "schedules (pending_pairs g) {} ?left (waves_from (pending_pairs g) (count_into (pending_pairs g) {}) ?left)"
    by (rule waves_from_schedule) simp_all
  ultimately show thesis by (rule that)
qed

lemma launchable_back:
  assumes "derive_graph values = Some g" "(s, t) \<in> set (edge_pairs (gr_prerequisites g))" "t \<notin> set (gr_non_launchable g)"
  shows "s \<notin> set (gr_non_launchable g)" "s \<in> is_issue_id_of ` set values"
proof -
  note nl = derive_graph_Some(3) [OF assms(1)] and sound = derive_graph_Some(2) [OF assms(1)]
  show "s \<notin> set (gr_non_launchable g)" using assms(2,3) unfolding nl by (auto intro: rtrancl_into_rtrancl)
  show "s \<in> is_issue_id_of ` set values" using assms(2) sound by (force simp: edge_pairs_def sound_edge_def)
qed

text \<open>C12: Of a derived graph the waves can always be computed. They name each issue at most once, every
  unfinished prerequisite of an issue is in an earlier wave, and the issues named are exactly the launchable
  ones that have no cycle of unfinished prerequisites behind them.\<close>

theorem waves_are_the_schedule:
  assumes "derive_graph values = Some g"
  shows "\<exists>ws. topological_waves g = Some ws \<and> distinct (concat ws) \<and>
    (\<forall>j<length ws. \<forall>(s, t)\<in>set (pending_pairs g). t \<in> set (ws ! j) \<longrightarrow> (\<exists>i<j. s \<in> set (ws ! i))) \<and>
    set (concat ws) = {x \<in> is_issue_id_of ` set values. x \<notin> set (gr_non_launchable g) \<and>
      \<not> (\<exists>y. (y, y) \<in> (set (pending_pairs g))\<^sup>+ \<and> (y, x) \<in> (set (pending_pairs g))\<^sup>*)}"
proof -
  let ?P = "set (pending_pairs g)"
  note ids = derive_graph_Some(1) [OF assms]
  define all where "all = {x \<in> is_issue_id_of ` set values. x \<notin> set (gr_non_launchable g)}"
  obtain ws where top: "topological_waves g = Some ws" and sched: "schedules (pending_pairs g) {}
      (filter (\<lambda>x. x \<notin> set (gr_non_launchable g)) (remdups (map is_issue_id_of (gr_issues g)))) ws"
    by (rule waves_schedule [OF assms])
  have left: "set (filter (\<lambda>x. x \<notin> set (gr_non_launchable g)) (remdups (map is_issue_id_of (gr_issues g)))) = all"
    using ids by (auto simp: all_def)
  note parts = sched [unfolded schedules_def left]
  have order: "\<forall>j<length ws. \<forall>(s, t)\<in>?P. t \<in> set (ws ! j) \<longrightarrow> (\<exists>i<j. s \<in> set (ws ! i))" using parts by blast
  have "set (concat ws) \<subseteq> all" using parts by blast
  moreover have "\<not> (\<exists>y. (y, y) \<in> ?P\<^sup>+ \<and> (y, x) \<in> ?P\<^sup>*)" if "x \<in> set (concat ws)" for x
    using cycles_unscheduled [OF order] that by blast
  moreover have "x \<in> set (concat ws)" if x: "x \<in> all" and free: "\<not> (\<exists>y. (y, y) \<in> ?P\<^sup>+ \<and> (y, x) \<in> ?P\<^sup>*)" for x
  proof (rule ccontr)
    assume out: "x \<notin> set (concat ws)"
    have "\<exists>y. (y, y) \<in> ?P\<^sup>+ \<and> (y, x) \<in> ?P\<^sup>*"
    proof (rule left_over_cycle)
      show "finite (all - set (concat ws))" by (simp add: all_def)
      show "x \<in> all - set (concat ws)" using x out by blast
      fix t assume t: "t \<in> all - set (concat ws)"
      then obtain s where s: "(s, t) \<in> ?P" "s \<notin> set (concat ws)" using parts by blast
      then show "\<exists>s\<in>all - set (concat ws). (s, t) \<in> ?P"
        using launchable_back [OF assms pending_pairs_sound [OF s(1)]] t by (auto simp: all_def)
    qed
    then show False using free by blast
  qed
  ultimately have "set (concat ws) = {x \<in> all. \<not> (\<exists>y. (y, y) \<in> ?P\<^sup>+ \<and> (y, x) \<in> ?P\<^sup>*)}" by blast
  then have "set (concat ws) = {x \<in> is_issue_id_of ` set values. x \<notin> set (gr_non_launchable g) \<and>
      \<not> (\<exists>y. (y, y) \<in> ?P\<^sup>+ \<and> (y, x) \<in> ?P\<^sup>*)}" by (simp only: all_def) blast
  moreover have "distinct (concat ws)" using parts by blast
  ultimately show ?thesis by (intro exI [of _ ws] conjI top order)
qed

section \<open>What is reported\<close>

text \<open>The check of the candidates reports the two kinds of drift it looks for, and keeps what it has.\<close>

lemma check_edges_drift:
  "set (fst st) \<subseteq> set (fst (fold (check_edge I) cands st)) \<and>
   (\<forall>d\<in>set (fst (fold (check_edge I) cands st)). d \<in> set (fst st) \<or> dr_code d \<in> {''self_edge'', ''missing_target''})"
proof (induction cands arbitrary: st)
  case (Cons c cands)
  have "set (fst st) \<subseteq> set (fst (check_edge I c st)) \<and>
      (\<forall>d\<in>set (fst (check_edge I c st)). d \<in> set (fst st) \<or> dr_code d \<in> {''self_edge'', ''missing_target''})"
    by (cases c; cases st) (auto simp: check_edge_def Let_def split: if_split_asm)
  then show ?case using Cons.IH [of "check_edge I c st"] by auto
qed simp

lemma cycle_drift_codes: "d \<in> set (cycle_drift ids kind code edges) \<Longrightarrow> dr_code d = code"
  by (auto simp: cycle_drift_def split: option.split_asm)

lemma graph_parts_cycles:
  assumes "graph_parts issues = (drifts, containment, prerequisites)"
  shows "{d \<in> set drifts. dr_code d = ''prerequisite_cycle''} =
    set (cycle_drift (map is_issue_id_of issues) ''prerequisite'' ''prerequisite_cycle'' prerequisites)"
proof -
  let ?I = "is_issue_id_of ` set issues" and ?ids = "map is_issue_id_of issues"
  define p where "p = fold relate_issue issues ([], [])"
  define q where "q = fold (check_edge ?I) (sort_key fst (snd p)) (fst p, [])"
  have "grows ?I ([], []) p" unfolding p_def by (rule grows_issues) simp
  then have plain: "dr_code d \<noteq> ''prerequisite_cycle''" if "d \<in> set (fst p)" for d
    using grows_keeps(4) [of ?I "([], [])" p d] that by (auto simp: RELATE_CODES_def)
  have "dr_code d \<noteq> ''prerequisite_cycle''" if "d \<in> set (fst q)" for d
    using check_edges_drift [of "(fst p, [])" ?I "sort_key fst (snd p)"] that plain unfolding q_def by fastforce
  moreover have "drifts = fst q @ cycle_drift ?ids ''containment'' ''containment_cycle'' containment
      @ cycle_drift ?ids ''prerequisite'' ''prerequisite_cycle'' prerequisites"
    using assms unfolding graph_parts_def p_def [symmetric]
    by (cases p; cases q) (auto simp: Let_def q_def)
  ultimately show ?thesis by (auto dest: cycle_drift_codes)
qed

lemma edges_in_cong: "set edges = set edges' \<Longrightarrow> edges_in ids edges = edges_in ids edges'"
  by (simp add: edges_in_def)

lemma simple_cycle_cong: "set edges = set edges' \<Longrightarrow> simple_cycle ids edges c = simple_cycle ids edges' c"
  by (simp add: simple_cycle_def edges_in_def)

lemma simple_cycle_nodes: "simple_cycle ids edges w \<Longrightarrow> set (butlast w) = set w"
  by (cases w; cases "tl w" rule: rev_cases) (auto simp: simple_cycle_def butlast_append)

text \<open>C13: The prerequisite cycles of a graph are reported by one witness. The graph has drift of the code
  prerequisite_cycle exactly when its prerequisite edges have a cycle; then the drift is one record for each
  issue of a single cycle, a shortest one, and that cycle is the witness of every record.\<close>

theorem prerequisite_cycle_reported:
  assumes "derive_graph values = Some g" "reported = {d \<in> set (gr_drift g). dr_code d = ''prerequisite_cycle''}"
    and "ids = map is_issue_id_of (gr_issues g)" "P = edge_pairs (gr_prerequisites g)"
  shows "(acyclic (set P) \<and> reported = {}) \<or> (\<not> acyclic (set P) \<and> (\<exists>w. simple_cycle ids P w \<and>
    (\<forall>c. simple_cycle ids P c \<longrightarrow> length w \<le> length c) \<and>
    reported = (\<lambda>node. Drift ''prerequisite_cycle'' node ''prerequisite'' (w ! 1) w) ` set w))"
proof -
  obtain drifts containment prerequisites where parts: "graph_parts (gr_issues g) = (drifts, containment, prerequisites)"
    and drift: "set (gr_drift g) = set drifts" and pre: "set (gr_prerequisites g) = set prerequisites"
    using derive_graph_Some(4) [OF assms(1)] by blast
  have P: "set P = set (map (\<lambda>e. (ed_source e, ed_target e)) prerequisites)" using pre by (simp add: assms(4) edge_pairs_def)
  have whole: "edges_in ids P = set P"
    using derive_graph_Some(1,2) [OF assms(1)] by (force simp: edges_in_def assms(3,4) edge_pairs_def sound_edge_def)
  have rep: "reported = set (cycle_drift ids ''prerequisite'' ''prerequisite_cycle'' prerequisites)"
    using graph_parts_cycles [OF parts] drift by (simp add: assms(2,3))
  show ?thesis
  proof (cases "cycle_witness ids (map (\<lambda>e. (ed_source e, ed_target e)) prerequisites)")
    case None
    then have "acyclic (set P)" using cycle_witness_None [OF None] edges_in_cong [OF P] whole by metis
    then show ?thesis using None rep by (simp add: cycle_drift_def)
  next
    case (Some w)
    have w: "simple_cycle ids P w" using cycle_witness_Some(1) [OF Some] simple_cycle_cong [OF P] by blast
    have "\<not> acyclic (set P)" using simple_cycle_trancl [OF w] whole by (auto simp: acyclic_def)
    moreover have "\<forall>c. simple_cycle ids P c \<longrightarrow> length w \<le> length c"
      using cycle_witness_Some(2) [OF Some] simple_cycle_cong [OF P] by blast
    moreover have "1 < length w" using w by (auto simp: simple_cycle_def)
    then have "reported = (\<lambda>node. Drift ''prerequisite_cycle'' node ''prerequisite'' (w ! 1) w) ` set w"
      using rep Some simple_cycle_nodes [OF w] by (simp add: cycle_drift_def sorted_ids_def)
    ultimately show ?thesis using w by blast
  qed
qed

section \<open>Examples\<close>

definition sample_issue :: "string \<Rightarrow> string \<Rightarrow> string list \<Rightarrow> issue" where
  "sample_issue number body blockers = \<lparr>is_issue_id_of = ''o/r#'' @ number, is_body = body, is_state = ''open'',
     is_labels = [''workflow:ready''], is_area = Some ''a'', is_milestone = Some ''m'', is_native_parent = None,
     is_native_prerequisites = blockers\<rparr>"

definition two_cycles :: "issue list" where
  "two_cycles = [sample_issue ''1'' [] [''#2''], sample_issue ''2'' [] [''#1''],
     sample_issue ''3'' [] [''#4''], sample_issue ''4'' [] [''#3'']]"

theorem waves_are_the_schedule_witness:
  "\<exists>g ws. derive_graph two_cycles = Some g \<and> topological_waves g = Some ws \<and> distinct (concat ws)"
proof -
  have "derive_graph two_cycles \<noteq> None" by code_simp
  then obtain g where g: "derive_graph two_cycles = Some g" by auto
  show ?thesis using waves_are_the_schedule [OF g] g by blast
qed

theorem prerequisite_cycle_reported_witness:
  "\<exists>g. derive_graph two_cycles = Some g \<and> (acyclic (set (edge_pairs (gr_prerequisites g))) \<or>
     (\<exists>w. simple_cycle (map is_issue_id_of (gr_issues g)) (edge_pairs (gr_prerequisites g)) w))"
proof -
  have "derive_graph two_cycles \<noteq> None" by code_simp
  then obtain g where g: "derive_graph two_cycles = Some g" by auto
  show ?thesis using prerequisite_cycle_reported [OF g refl refl refl] g by blast
qed

text \<open>Of two cycles only one is reported: the issues of the other have no drift and count as launchable,
  although no wave ever holds them.\<close>

theorem second_cycle_unreported:
  "\<exists>g. derive_graph two_cycles = Some g \<and> topological_waves g = Some [] \<and>
     {''o/r#3'', ''o/r#4''} \<inter> (set (gr_non_launchable g) \<union> dr_issue ` set (gr_drift g)) = {}"
proof -
  have "(case derive_graph two_cycles of None \<Rightarrow> False
      | Some g \<Rightarrow> topological_waves g = Some [] \<and>
          list_all (\<lambda>x. x \<notin> set (gr_non_launchable g) \<and> list_all (\<lambda>d. dr_issue d \<noteq> x) (gr_drift g)) [''o/r#3'', ''o/r#4''])"
    by code_simp
  then show ?thesis by (cases "derive_graph two_cycles") (auto simp: list_all_iff)
qed

section \<open>Issue ids\<close>

lemma id_char_plain: "id_char c \<Longrightarrow> c \<noteq> CHR ''/'' \<and> c \<noteq> CHR ''#'' \<and> \<not> is_space c"
  by (auto simp: id_char_def is_digit_def is_lower_def is_upper_def is_space_def Let_def)

lemma issue_parts_iff:
  "issue_parts s = Some (owner, name, number) \<longleftrightarrow> s = owner @ ''/'' @ name @ ''#'' @ number \<and> owner \<noteq> [] \<and> list_all id_char owner \<and>
     name \<noteq> [] \<and> list_all id_char name \<and> issue_number number" (is "?l \<longleftrightarrow> ?r")
proof
  have split: "c \<in> set s \<Longrightarrow> s = takeWhile (\<lambda>x. x \<noteq> c) s @ c # drop (length (takeWhile (\<lambda>x. x \<noteq> c) s) + 1) s" for c and s :: string
  proof (induction s)
    case (Cons x s)
    then show ?case by (cases "x = c") auto
  qed simp
  assume l: ?l
  let ?owner = "takeWhile (\<lambda>c. c \<noteq> CHR ''/'') s"
  let ?rest = "drop (length ?owner + 1) s"
  let ?name = "takeWhile (\<lambda>c. c \<noteq> CHR ''#'') ?rest"
  have has: "CHR ''/'' \<in> set s" "CHR ''#'' \<in> set ?rest" and eq: "owner = ?owner" "name = ?name" "number = drop (length ?name + 1) ?rest"
    and ok: "owner \<noteq> []" "list_all id_char owner" "name \<noteq> []" "list_all id_char name" "issue_number number"
    using l by (auto simp: issue_parts_def Let_def split: if_split_asm)
  have "?rest = name @ CHR ''#'' # number" using split [OF has(2)] eq by simp
  then have "s = owner @ CHR ''/'' # name @ CHR ''#'' # number" using split [OF has(1)] eq(1) by simp
  then show ?r using ok by simp
next
  have stop: "list_all id_char xs \<Longrightarrow> \<not> id_char c \<Longrightarrow> takeWhile (\<lambda>x. x \<noteq> c) (xs @ c # ys) = xs" for xs c ys
    by (induction xs) auto
  have seps: "\<not> id_char (CHR ''/'')" "\<not> id_char (CHR ''#'')" using id_char_plain by blast+
  assume r: ?r
  then have "takeWhile (\<lambda>x. x \<noteq> CHR ''/'') s = owner" using stop [of owner "CHR ''/''"] seps by simp
  moreover have "takeWhile (\<lambda>x. x \<noteq> CHR ''#'') (name @ CHR ''#'' # number) = name" using r stop [of name "CHR ''#''"] seps by simp
  ultimately show ?l using r by (simp add: issue_parts_def Let_def)
qed

lemma id_char_lower: "id_char c \<Longrightarrow> id_char (lower_char c)"
proof -
  assume c: "id_char c"
  have "is_lower (lower_char c)" if "is_upper c"
    using that by (simp add: is_lower_def is_upper_def lower_char_def Let_def)
  moreover have "lower_char c = c" if "\<not> is_upper c"
    using c that by (auto simp: id_char_def is_upper_def is_lower_def is_digit_def lower_char_def Let_def)
  ultimately show ?thesis using c by (cases "is_upper c") (simp_all add: id_char_def)
qed

lemma canonical_is_issue_id: "canonical_issue_id value repo = Some t \<Longrightarrow> is_issue_id t"
proof -
  assume "canonical_issue_id value repo = Some t"
  then obtain v owner name number where v: "issue_parts v = Some (owner, name, number)"
    and t: "t = lower owner @ ''/'' @ lower name @ ''#'' @ number"
    by (auto simp: canonical_issue_id_def Let_def split: option.split_asm)
  have low: "list_all id_char xs \<Longrightarrow> list_all id_char (lower xs)" for xs
    by (auto simp: lower_def list_all_iff id_char_lower)
  have "issue_parts t = Some (lower owner, lower name, number)"
    using v low unfolding t issue_parts_iff by (simp add: lower_def)
  then show ?thesis by (simp add: is_issue_id_def)
qed

lemma issue_id_canonical: "is_issue_id raw \<Longrightarrow> canonical_issue_id raw repo \<noteq> None"
proof -
  assume "is_issue_id raw"
  then obtain owner name number where p: "issue_parts raw = Some (owner, name, number)" by (auto simp: is_issue_id_def)
  note parts = p [unfolded issue_parts_iff]
  have "list_all (\<lambda>c. \<not> is_space c) number"
    using parts by (auto simp: issue_number_def list_all_iff is_digit_def is_space_def Let_def)
  moreover have "\<not> is_space (CHR ''/'')" "\<not> is_space (CHR ''#'')" by (simp_all add: is_space_def)
  moreover have "list_all (\<lambda>c. \<not> is_space c) owner" "list_all (\<lambda>c. \<not> is_space c) name"
    using parts id_char_plain by (auto simp: list_all_iff)
  ultimately have "strip raw = raw" using parts by (intro strip_id) simp
  moreover have "\<not> startswith raw ''#''"
    using parts id_char_plain by (cases owner) (auto simp: startswith_def)
  ultimately show ?thesis using p by (simp add: canonical_issue_id_def)
qed

section \<open>Targets that cannot be ordered\<close>

text \<open>What one relation line leaves behind.\<close>

lemma text_missing:
  assumes "(phrase, raw) \<in> set rs" "canonical_issue_id raw (repo_of i) = None"
  shows "Drift ''missing_target'' i (text_kind phrase) raw [] \<in> set (fst (fold (relate_text i) rs st))"
  using assms(1)
proof (induction rs arbitrary: st)
  case (Cons r rs)
  show ?case
  proof (cases "r = (phrase, raw)")
    case True
    have "Drift ''missing_target'' i (text_kind phrase) raw [] \<in> set (fst (relate_text i r st))"
      using assms(2) by (cases st) (simp add: True relate_text_def target_of_def Let_def)
    then show ?thesis using grows_keeps(1) [OF grows_texts [of i "{i}" "relate_text i r st" rs]] by auto
  qed (use Cons in simp)
qed simp

lemma text_candidate:
  assumes "(phrase, raw) \<in> set rs" "target_of raw (repo_of i) = (Some t, None)"
  shows "text_key phrase i t \<in> set (map fst (fst (snd (fold (relate_text i) rs st))))"
  using assms(1)
proof (induction rs arbitrary: st)
  case (Cons r rs)
  show ?case
  proof (cases "r = (phrase, raw)")
    case True
    have "text_key phrase i t \<in> set (map fst (fst (snd (relate_text i r st))))"
      using assms(2) by (cases st) (simp add: True relate_text_def Let_def keys_add_evidence del: set_map)
    then show ?thesis using grows_keeps(2) [OF grows_texts [of i "{i}" "relate_text i r st" rs]] by auto
  qed (use Cons in simp)
qed simp

lemma check_edge_missing:
  assumes "key \<in> set (map fst cands)" "key = text_key phrase i t" "t \<notin> I" "i \<in> I"
  shows "Drift ''missing_target'' i (text_kind phrase) t [] \<in> set (fst (fold (check_edge I) cands st))"
  using assms(1)
proof (induction cands arbitrary: st)
  case (Cons c cands)
  show ?case
  proof (cases "fst c = key")
    case True
    have "Drift ''missing_target'' i (text_kind phrase) t [] \<in> set (fst (check_edge I c st))"
      using True assms(2-4) by (cases c; cases st) (auto simp: check_edge_def text_key_def text_kind_def)
    then show ?thesis using check_edges_drift [of "check_edge I c st" I cands] by auto
  qed (use Cons in simp)
qed simp

lemma relate_issue_lines:
  assumes "x \<in> set xs" "(phrase, raw) \<in> set (relations (is_body x))"
  shows "canonical_issue_id raw (repo_of (is_issue_id_of x)) = None \<Longrightarrow>
      Drift ''missing_target'' (is_issue_id_of x) (text_kind phrase) raw [] \<in> set (fst (fold relate_issue xs st))"
    "target_of raw (repo_of (is_issue_id_of x)) = (Some t, None) \<Longrightarrow>
      text_key phrase (is_issue_id_of x) t \<in> set (map fst (snd (fold relate_issue xs st)))"
proof -
  let ?i = "is_issue_id_of x"
  have one: "(canonical_issue_id raw (repo_of ?i) = None \<longrightarrow>
      Drift ''missing_target'' ?i (text_kind phrase) raw [] \<in> set (fst (relate_issue x st))) \<and>
    (target_of raw (repo_of ?i) = (Some t, None) \<longrightarrow> text_key phrase ?i t \<in> set (map fst (snd (relate_issue x st))))" for st
  proof -
    obtain drifts cands where st: "st = (drifts, cands)" by (cases st)
    obtain d0 d1 drifts1 cands1 parents where
      f: "fold (relate_text ?i) (relations (is_body x)) (drifts @ d0, cands, []) = (drifts1, cands1, parents)"
      and r: "relate_issue x st = fold (relate_native ?i) (is_native_prerequisites x) (relate_parent x parents (drifts1 @ d1, cands1))"
      unfolding st by (rule relate_issue_parts [of x drifts cands]) blast
    have "grows {?i} (drifts1 @ d1, cands1) (relate_issue x st)"
      unfolding r by (rule grows_trans [OF grows_natives grows_parent]) simp_all
    note kept = grows_keeps(1,2) [OF this]
    then show ?thesis
      using text_missing [OF assms(2), of ?i "(drifts @ d0, cands, [])"] text_candidate [OF assms(2), of ?i t "(drifts @ d0, cands, [])"]
      by (auto simp: f)
  qed
  obtain ys zs where xs: "xs = ys @ x # zs" using assms(1) by (meson split_list)
  have "grows (is_issue_id_of ` set zs) (relate_issue x (fold relate_issue ys st)) (fold relate_issue xs st)"
    unfolding xs by (simp add: grows_issues)
  note kept = grows_keeps(1,2) [OF this]
  show "canonical_issue_id raw (repo_of ?i) = None \<Longrightarrow>
      Drift ''missing_target'' ?i (text_kind phrase) raw [] \<in> set (fst (fold relate_issue xs st))"
    using kept(1) one by blast
  show "target_of raw (repo_of ?i) = (Some t, None) \<Longrightarrow> text_key phrase ?i t \<in> set (map fst (snd (fold relate_issue xs st)))"
    using kept(2) one by blast
qed

text \<open>An issue that names a malformed reference and a well-formed one that is not in the snapshot, in
  relation lines of one kind, makes the whole graph fail: the two records of missing_target cannot be ordered
  and the final sort raises TypeError.\<close>

theorem mixed_targets_break_the_graph:
  assumes "x \<in> set values" "(p, raw) \<in> set (relations (is_body x))" "(q, ref) \<in> set (relations (is_body x))"
    and "text_kind p = text_kind q" "canonical_issue_id raw (repo_of (is_issue_id_of x)) = None"
    and "target_of ref (repo_of (is_issue_id_of x)) = (Some t, None)" "t \<notin> is_issue_id_of ` set values"
  shows "derive_graph values = None"
proof -
  let ?i = "is_issue_id_of x"
  define issues where "issues = sort_key (\<lambda>x. issue_sort_key (is_issue_id_of x)) values"
  have x: "x \<in> set issues" "is_issue_id_of ` set issues = is_issue_id_of ` set values" using assms(1) by (simp_all add: issues_def)
  let ?I = "is_issue_id_of ` set issues"
  define st where "st = fold relate_issue issues ([], [])"
  define fin where "fin = fold (check_edge ?I) (sort_key fst (snd st)) (fst st, [])"
  obtain drifts containment prerequisites where parts: "graph_parts issues = (drifts, containment, prerequisites)"
    by (cases "graph_parts issues")
  have sub: "set (fst fin) \<subseteq> set drifts"
    using parts unfolding graph_parts_def st_def [symmetric] by (cases st; cases fin) (auto simp: Let_def fin_def)
  have bad: "Drift ''missing_target'' ?i (text_kind p) raw [] \<in> set drifts"
    using relate_issue_lines(1) [OF x(1) assms(2,5), of "([], [])"] check_edges_drift [of "(fst st, [])" ?I "sort_key fst (snd st)"] sub
    unfolding st_def [symmetric] fin_def [symmetric] by auto
  have "text_key q ?i t \<in> set (map fst (sort_key fst (snd st)))"
    using relate_issue_lines(2) [OF x(1) assms(3,6), of "([], [])"] unfolding st_def [symmetric] by simp
  then have gone: "Drift ''missing_target'' ?i (text_kind q) t [] \<in> set drifts"
    using check_edge_missing [of _ "sort_key fst (snd st)" q ?i t ?I "(fst st, [])"] assms(7) x sub unfolding fin_def [symmetric] by auto
  have "\<not> is_issue_id raw" using issue_id_canonical assms(5) by blast
  moreover have "is_issue_id t"
    using assms(6) by (auto simp: target_of_def intro: canonical_is_issue_id split: option.split_asm if_split_asm)
  ultimately have "\<not> comparable_drift drifts"
    using bad gone assms(4) unfolding comparable_drift_def by (metis drift.sel(1-4))
  then show ?thesis using parts unfolding derive_graph_def issues_def [symmetric] by (simp add: Let_def)
qed

theorem mixed_targets_break_the_graph_witness:
  "derive_graph [sample_issue ''1'' (''Blocked by: #77'' @ [CHR 0x0A] @ ''Blocked by: later'') []] = None"
proof (rule mixed_targets_break_the_graph)
  let ?x = "sample_issue ''1'' (''Blocked by: #77'' @ [CHR 0x0A] @ ''Blocked by: later'') []"
  show "?x \<in> set [?x]" by simp
  show "(''Blocked by'', ''later'') \<in> set (relations (is_body ?x))" by code_simp
  show "(''Blocked by'', ''#77'') \<in> set (relations (is_body ?x))" by code_simp
  show "canonical_issue_id ''later'' (repo_of (is_issue_id_of ?x)) = None" by code_simp
  show "target_of ''#77'' (repo_of (is_issue_id_of ?x)) = (Some ''o/r#77'', None)" by code_simp
  show "''o/r#77'' \<notin> is_issue_id_of ` set [?x]" by code_simp
qed simp

end
