(* ===== verification/Claim_Store.thy ===== *)
theory Claim_Store
  imports Run_Summaries Machines
begin

text \<open>
  The durable claims of the execution map, \<open>SqliteClaimStore\<close> of \<open>scripts/execution_map.py\<close>. The state
  is the five tables; a conditional write is one transaction (\<open>BEGIN IMMEDIATE\<close>), so an operation
  maps a committed state to the next one, and a rollback leaves it as it was. The constraints of the
  schema (primary keys, the two partial unique indexes) are checked where a statement would violate
  them.
\<close>

section \<open>Tables\<close>

definition CLAIM_ACTIVE :: string where "CLAIM_ACTIVE = ''active''"
definition CLAIM_EXPIRED :: string where "CLAIM_EXPIRED = ''expired_pending_reconciliation''"
definition CLAIM_RELEASED :: string where "CLAIM_RELEASED = ''released''"

definition ACTIVE_STATES :: "string list" where
  "ACTIVE_STATES = [CLAIM_ACTIVE, CLAIM_EXPIRED]"

record claim_record =
  cl_claim_version :: int
  cl_claim_id :: string
  cl_issue_id :: string
  cl_workflow :: string
  cl_run_id :: string
  cl_branch_ref :: string
  cl_worktree_path :: string
  cl_store_session_id :: "string option"
  cl_engine_id :: string
  cl_engine_session_id :: "string option"
  cl_driver_id :: string
  cl_state :: string
  cl_acquired_at :: rat
  cl_heartbeat_at :: rat
  cl_lease_expires_at :: rat
  cl_released_at :: "rat option"
  cl_release_reason :: "string option"
  cl_expected_workflow_label :: string
  cl_claim_generation :: int

record history_row =
  hi_claim_id :: string
  hi_generation :: int
  hi_event :: string
  hi_at :: rat
  hi_detail :: dict

record claim_store =
  cs_generation :: int
  cs_claims :: "claim_record list"
  cs_resources :: "(string \<times> string) list"
  cs_history :: "history_row list"
  cs_receipts :: "string list"

definition new_claim_store :: claim_store where
  "new_claim_store = \<lparr>cs_generation = 0, cs_claims = [], cs_resources = [], cs_history = [], cs_receipts = []\<rparr>"

datatype claim_error =
    Bad_claim
  | Generation_conflict
  | Resource_conflict "(string \<times> string) list"
  | Ownership_mismatch
  | Claim_not_active
  | Lease_not_extended
  | Reason_required
  | Session_required
  | Session_bound

definition live :: "claim_record \<Rightarrow> bool" where
  "live r \<longleftrightarrow> cl_state r \<in> set ACTIVE_STATES"

definition find_claim :: "claim_store \<Rightarrow> string \<Rightarrow> claim_record option" where
  "find_claim st claim_id = find (\<lambda>r. cl_claim_id r = claim_id) (cs_claims st)"

text \<open>\<open>UPDATE claims SET .. WHERE claim_id=?\<close>, \<open>_bump\<close> and the history row that goes with it.\<close>

definition update_claim :: "string \<Rightarrow> (claim_record \<Rightarrow> claim_record) \<Rightarrow> claim_store \<Rightarrow> claim_store" where
  "update_claim claim_id f st = st\<lparr>cs_claims := map (\<lambda>r. if cl_claim_id r = claim_id then f r else r) (cs_claims st)\<rparr>"

definition bump :: "string \<Rightarrow> string \<Rightarrow> rat \<Rightarrow> dict \<Rightarrow> claim_store \<Rightarrow> claim_store" where
  "bump claim_id event t detail st = st\<lparr>cs_generation := cs_generation st + 1,
     cs_history := cs_history st @ [\<lparr>hi_claim_id = claim_id, hi_generation = cs_generation st + 1,
       hi_event = event, hi_at = t, hi_detail = detail\<rparr>]\<rparr>"

section \<open>Operations\<close>

definition expire_one :: "rat \<Rightarrow> string \<Rightarrow> claim_store \<Rightarrow> claim_store" where
  "expire_one now claim_id st =
     bump claim_id ''lease_expired'' now [] (update_claim claim_id (\<lambda>r. r\<lparr>cl_state := CLAIM_EXPIRED\<rparr>) st)"

definition expire_locked :: "rat \<Rightarrow> claim_store \<Rightarrow> claim_store" where
  "expire_locked now st = fold (expire_one now)
     (map cl_claim_id (filter (\<lambda>r. cl_state r = CLAIM_ACTIVE \<and> cl_lease_expires_at r \<le> now) (cs_claims st))) st"

definition active_claims :: "claim_store \<Rightarrow> claim_record list" where
  "active_claims st = sort_key cl_issue_id (sort_key cl_claim_id (filter live (cs_claims st)))"

definition expire_leases :: "rat \<Rightarrow> claim_store \<Rightarrow> claim_record list \<times> claim_store" where
  "expire_leases now st = (active_claims (expire_locked now st), expire_locked now st)"

text \<open>The rows of claims that are no longer live are reclaimed.\<close>

definition reclaim :: "claim_store \<Rightarrow> (string \<times> string) list" where
  "reclaim st = filter (\<lambda>(key, claim_id). \<forall>r\<in>set (cs_claims st). cl_claim_id r = claim_id \<longrightarrow> live r) (cs_resources st)"

definition insertable :: "claim_record \<Rightarrow> claim_store \<Rightarrow> bool" where
  "insertable c st \<longleftrightarrow> (\<forall>r\<in>set (cs_claims st). cl_claim_id r \<noteq> cl_claim_id c \<and>
     (live c \<longrightarrow> live r \<longrightarrow> cl_issue_id r \<noteq> cl_issue_id c \<and> cl_run_id r \<noteq> cl_run_id c))"

text \<open>\<open>executemany\<close>: one statement for each key; the statements before a failing one stay done until
  the rollback.\<close>

fun insert_resources :: "string \<Rightarrow> string list \<Rightarrow> (string \<times> string) list \<Rightarrow> bool \<times> (string \<times> string) list" where
  "insert_resources claim_id [] rows = (True, rows)"
| "insert_resources claim_id (key # keys) rows =
     (if key \<in> fst ` set rows then (False, rows) else insert_resources claim_id keys (rows @ [(key, claim_id)]))"

definition resource_conflicts :: "string list \<Rightarrow> (string \<times> string) list \<Rightarrow> (string \<times> string) list" where
  "resource_conflicts resources rows = concat (map (\<lambda>key. case map_of rows key of None \<Rightarrow> [] | Some c \<Rightarrow> [(key, c)])
     (sort (remdups resources)))"

definition acquire ::
    "claim_record \<Rightarrow> string list \<Rightarrow> int \<Rightarrow> claim_store \<Rightarrow> (claim_error + claim_record) \<times> claim_store" where
  "acquire claim resources expected_generation st =
     (if cl_state claim \<noteq> CLAIM_ACTIVE \<or> \<not> distinct resources \<or> resources = [] then (Inl Bad_claim, st)
      else
        (let st1 = expire_locked (cl_acquired_at claim) st in
         if cs_generation st1 \<noteq> expected_generation then (Inl Generation_conflict, st)
         else
           (let row = claim\<lparr>cl_claim_generation := cs_generation st1 + 1\<rparr>; rows = reclaim st1 in
            if \<not> insertable row st1 then (Inl (Resource_conflict (resource_conflicts resources rows)), st)
            else (case insert_resources (cl_claim_id claim) (sort resources) rows of
                (False, rows) \<Rightarrow> (Inl (Resource_conflict (resource_conflicts resources rows)), st)
              | (True, rows) \<Rightarrow>
                  (Inr row, bump (cl_claim_id claim) ''acquired'' (cl_acquired_at claim)
                     [(''resources'', JList (map JStr (sort resources)))]
                     (st1\<lparr>cs_claims := cs_claims st1 @ [row], cs_resources := rows\<rparr>))))))"

definition transition ::
    "string \<Rightarrow> string \<Rightarrow> string \<Rightarrow> int \<Rightarrow> string \<Rightarrow> rat \<Rightarrow> dict \<Rightarrow> (claim_record \<Rightarrow> claim_record) \<Rightarrow> claim_store
     \<Rightarrow> (claim_error + claim_record) \<times> claim_store" where
  "transition claim_id run_id driver_id generation event now detail f st = (case find_claim st claim_id of
     None \<Rightarrow> (Inl Ownership_mismatch, st)
   | Some r \<Rightarrow>
       if cl_run_id r \<noteq> run_id \<or> cl_driver_id r \<noteq> driver_id \<or> cl_claim_generation r \<noteq> generation
       then (Inl Ownership_mismatch, st)
       else if cl_state r \<noteq> CLAIM_ACTIVE then (Inl Claim_not_active, st)
       else
         (let g = cs_generation st + 1; r' = (f r)\<lparr>cl_claim_generation := g\<rparr>;
              st1 = update_claim claim_id (\<lambda>_. r') st;
              st2 = (if event = ''released'' then st1\<lparr>cs_resources := filter (\<lambda>kc. snd kc \<noteq> claim_id) (cs_resources st1)\<rparr> else st1) in
          (Inr r', bump claim_id event now detail st2)))"

definition claim_heartbeat ::
    "string \<Rightarrow> string \<Rightarrow> string \<Rightarrow> int \<Rightarrow> rat \<Rightarrow> rat \<Rightarrow> claim_store \<Rightarrow> (claim_error + claim_record) \<times> claim_store" where
  "claim_heartbeat claim_id run_id driver_id generation lease_expires_at now st =
     (if lease_expires_at \<le> now then (Inl Lease_not_extended, st)
      else transition claim_id run_id driver_id generation ''heartbeat'' now
        [(''heartbeat_at'', JFlt (Fin now)), (''lease_expires_at'', JFlt (Fin lease_expires_at))]
        (\<lambda>r. r\<lparr>cl_heartbeat_at := now, cl_lease_expires_at := lease_expires_at\<rparr>) st)"

definition release ::
    "string \<Rightarrow> string \<Rightarrow> string \<Rightarrow> int \<Rightarrow> string \<Rightarrow> rat \<Rightarrow> claim_store \<Rightarrow> (claim_error + claim_record) \<times> claim_store" where
  "release claim_id run_id driver_id generation reason now st =
     (if blank reason then (Inl Reason_required, st)
      else transition claim_id run_id driver_id generation ''released'' now
        [(''state'', JStr CLAIM_RELEASED), (''released_at'', JFlt (Fin now)), (''release_reason'', JStr reason)]
        (\<lambda>r. r\<lparr>cl_state := CLAIM_RELEASED, cl_released_at := Some now, cl_release_reason := Some reason\<rparr>) st)"

definition bind_engine_session ::
    "string \<Rightarrow> string \<Rightarrow> string \<Rightarrow> int \<Rightarrow> string \<Rightarrow> rat \<Rightarrow> claim_store \<Rightarrow> (claim_error + claim_record) \<times> claim_store" where
  "bind_engine_session claim_id run_id driver_id generation engine_session_id now st =
     (if engine_session_id = [] then (Inl Session_required, st)
      else (case find_claim st claim_id of
          None \<Rightarrow> (Inl Session_bound, st)
        | Some r \<Rightarrow>
            if cl_engine_session_id r \<noteq> None then (Inl Session_bound, st)
            else transition claim_id run_id driver_id generation ''engine_session_bound'' now
              [(''engine_session_id'', JStr engine_session_id)]
              (\<lambda>r. r\<lparr>cl_engine_session_id := Some engine_session_id\<rparr>) st))"

definition claim_history :: "claim_store \<Rightarrow> string \<Rightarrow> history_row list" where
  "claim_history st claim_id = filter (\<lambda>h. hi_claim_id h = claim_id) (cs_history st)"

definition consume_receipt :: "string \<Rightarrow> claim_store \<Rightarrow> bool \<times> claim_store" where
  "consume_receipt receipt_id st =
     (if receipt_id \<in> set (cs_receipts st) then (False, st)
      else (True, st\<lparr>cs_receipts := cs_receipts st @ [receipt_id]\<rparr>))"

datatype claim_op =
    Acquire claim_record "string list" int
  | Heartbeat string string string int rat rat
  | Release string string string int string rat
  | Bind string string string int string rat
  | Expire rat
  | Consume string

fun claim_step :: "claim_op \<Rightarrow> claim_store \<Rightarrow> claim_store" where
  "claim_step (Acquire c resources g) st = snd (acquire c resources g st)"
| "claim_step (Heartbeat c r d g lease now) st = snd (claim_heartbeat c r d g lease now st)"
| "claim_step (Release c r d g reason now) st = snd (release c r d g reason now st)"
| "claim_step (Bind c r d g s now) st = snd (bind_engine_session c r d g s now st)"
| "claim_step (Expire now) st = snd (expire_leases now st)"
| "claim_step (Consume i) st = snd (consume_receipt i st)"

section \<open>The invariant of the store\<close>

definition exclusive :: "claim_record list \<Rightarrow> (string \<times> string) list \<Rightarrow> bool" where
  "exclusive claims resources \<longleftrightarrow> distinct (map cl_claim_id claims) \<and> distinct (map fst resources) \<and>
     (\<forall>kc\<in>set resources. \<exists>r\<in>set claims. cl_claim_id r = snd kc \<and> live r) \<and>
     (\<forall>r\<in>set claims. \<forall>s\<in>set claims. live r \<longrightarrow> live s \<longrightarrow>
        cl_issue_id r = cl_issue_id s \<or> cl_run_id r = cl_run_id s \<longrightarrow> cl_claim_id r = cl_claim_id s)"

definition numbered :: "claim_store \<Rightarrow> bool" where
  "numbered st \<longleftrightarrow> cs_generation st = int (length (cs_history st)) \<and>
     map hi_generation (cs_history st) = map int [1..<Suc (length (cs_history st))] \<and>
     (\<forall>r\<in>set (cs_claims st). cl_claim_generation r \<le> cs_generation st)"

definition claims_wf :: "claim_store \<Rightarrow> bool" where
  "claims_wf st \<longleftrightarrow> exclusive (cs_claims st) (cs_resources st) \<and> numbered st"

lemma bump_simps [simp]:
  "cs_claims (bump c e t d st) = cs_claims st" "cs_resources (bump c e t d st) = cs_resources st"
  "cs_generation (bump c e t d st) = cs_generation st + 1" "cs_receipts (bump c e t d st) = cs_receipts st"
  by (simp_all add: bump_def)

lemma update_claim_simps [simp]:
  "cs_resources (update_claim c f st) = cs_resources st" "cs_generation (update_claim c f st) = cs_generation st"
  "cs_history (update_claim c f st) = cs_history st" "cs_receipts (update_claim c f st) = cs_receipts st"
  by (simp_all add: update_claim_def)

text \<open>A bump numbers one more step; the claims may be stamped with it.\<close>

lemma numbered_bump:
  assumes "numbered st" "\<forall>r\<in>set (cs_claims st'). cl_claim_generation r \<le> cs_generation st + 1"
    and "cs_history st' = cs_history st" "cs_generation st' = cs_generation st"
  shows "numbered (bump c e t d st')"
  using assms by (simp add: numbered_def bump_def)

lemma live_expired [simp]: "live (r\<lparr>cl_state := CLAIM_EXPIRED\<rparr>)"
  by (simp add: live_def ACTIVE_STATES_def)

lemma live_active: "cl_state r = CLAIM_ACTIVE \<Longrightarrow> live r"
  by (simp add: live_def ACTIVE_STATES_def)

lemma exclusive_parts:
  assumes "exclusive claims resources"
  shows "distinct (map cl_claim_id claims)" "distinct (map fst resources)"
    "(k, c) \<in> set resources \<Longrightarrow> \<exists>r\<in>set claims. cl_claim_id r = c \<and> live r"
    "r \<in> set claims \<Longrightarrow> s \<in> set claims \<Longrightarrow> live r \<Longrightarrow> live s \<Longrightarrow>
      cl_issue_id r = cl_issue_id s \<or> cl_run_id r = cl_run_id s \<Longrightarrow> cl_claim_id r = cl_claim_id s"
proof -
  have parts: "distinct (map cl_claim_id claims)" "distinct (map fst resources)"
    "\<forall>kc\<in>set resources. \<exists>r\<in>set claims. cl_claim_id r = snd kc \<and> live r"
    "\<forall>r\<in>set claims. \<forall>s\<in>set claims. live r \<longrightarrow> live s \<longrightarrow>
        cl_issue_id r = cl_issue_id s \<or> cl_run_id r = cl_run_id s \<longrightarrow> cl_claim_id r = cl_claim_id s"
    using assms unfolding exclusive_def by blast+
  show "distinct (map cl_claim_id claims)" "distinct (map fst resources)" by (rule parts)+
  show "(k, c) \<in> set resources \<Longrightarrow> \<exists>r\<in>set claims. cl_claim_id r = c \<and> live r" using bspec [OF parts(3), of "(k, c)"] by simp
  show "r \<in> set claims \<Longrightarrow> s \<in> set claims \<Longrightarrow> live r \<Longrightarrow> live s \<Longrightarrow>
      cl_issue_id r = cl_issue_id s \<or> cl_run_id r = cl_run_id s \<Longrightarrow> cl_claim_id r = cl_claim_id s"
    using parts(4) by blast
qed

lemma exclusive_map:
  assumes "exclusive claims resources"
    and "\<And>r. r \<in> set claims \<Longrightarrow> cl_claim_id (f r) = cl_claim_id r \<and> cl_issue_id (f r) = cl_issue_id r \<and> cl_run_id (f r) = cl_run_id r"
    and "\<And>r. r \<in> set claims \<Longrightarrow> live (f r) \<Longrightarrow> live r"
    and "set resources' \<subseteq> set resources" "distinct (map fst resources')"
    and "\<And>r kc. r \<in> set claims \<Longrightarrow> live r \<Longrightarrow> kc \<in> set resources' \<Longrightarrow> snd kc = cl_claim_id r \<Longrightarrow> live (f r)"
  shows "exclusive (map f claims) resources'"
proof -
  have "map (cl_claim_id \<circ> f) claims = map cl_claim_id claims" using assms(2) by simp
  then have ids: "distinct (map cl_claim_id (map f claims))" using exclusive_parts(1) [OF assms(1)] by (simp only: map_map)
  have held: "\<forall>kc\<in>set resources'. \<exists>r\<in>set (map f claims). cl_claim_id r = snd kc \<and> live r"
  proof
    fix kc assume kc: "kc \<in> set resources'"
    then have "(fst kc, snd kc) \<in> set resources" using assms(4) by auto
    then obtain r where r: "r \<in> set claims" "cl_claim_id r = snd kc" "live r"
      using exclusive_parts(3) [OF assms(1)] by blast
    then have "live (f r)" "cl_claim_id (f r) = snd kc" using assms(2,6) kc by simp_all
    then show "\<exists>r\<in>set (map f claims). cl_claim_id r = snd kc \<and> live r" using r(1) by auto
  qed
  have one: "\<forall>r\<in>set (map f claims). \<forall>s\<in>set (map f claims). live r \<longrightarrow> live s \<longrightarrow>
        cl_issue_id r = cl_issue_id s \<or> cl_run_id r = cl_run_id s \<longrightarrow> cl_claim_id r = cl_claim_id s"
  proof (intro ballI impI)
    fix x y assume "x \<in> set (map f claims)" "y \<in> set (map f claims)"
      and h: "live x" "live y" "cl_issue_id x = cl_issue_id y \<or> cl_run_id x = cl_run_id y"
    then obtain r s where rs: "r \<in> set claims" "s \<in> set claims" "x = f r" "y = f s" by auto
    then have "live r" "live s" using assms(3) h by blast+
    then have "cl_claim_id r = cl_claim_id s"
      using exclusive_parts(4) [OF assms(1) rs(1,2)] assms(2) [OF rs(1)] assms(2) [OF rs(2)] h(3) rs(3,4) by simp
    then show "cl_claim_id x = cl_claim_id y" using assms(2) rs by simp
  qed
  show ?thesis unfolding exclusive_def using ids assms(5) held one by blast
qed

text \<open>A new live claim with keys of its own.\<close>

lemma exclusive_add:
  assumes ex: "exclusive claims resources" and live: "live row" and keys: "distinct keys" "set keys \<inter> fst ` set resources = {}"
    and new: "\<And>r. r \<in> set claims \<Longrightarrow> cl_claim_id r \<noteq> cl_claim_id row \<and>
      (live r \<longrightarrow> cl_issue_id r \<noteq> cl_issue_id row \<and> cl_run_id r \<noteq> cl_run_id row)"
  shows "exclusive (claims @ [row]) (resources @ map (\<lambda>k. (k, cl_claim_id row)) keys)"
  unfolding exclusive_def
proof (intro conjI)
  have "cl_claim_id row \<notin> cl_claim_id ` set claims" using new by (metis imageE)
  then show "distinct (map cl_claim_id (claims @ [row]))" using exclusive_parts(1) [OF ex] by simp
  have "map fst (map (\<lambda>k. (k, cl_claim_id row)) keys) = keys" by (induction keys) auto
  then show "distinct (map fst (resources @ map (\<lambda>k. (k, cl_claim_id row)) keys))"
    using exclusive_parts(2) [OF ex] keys by auto
  show "\<forall>kc\<in>set (resources @ map (\<lambda>k. (k, cl_claim_id row)) keys). \<exists>r\<in>set (claims @ [row]). cl_claim_id r = snd kc \<and> live r"
  proof
    fix kc assume "kc \<in> set (resources @ map (\<lambda>k. (k, cl_claim_id row)) keys)"
    then consider "kc \<in> set resources" | "snd kc = cl_claim_id row" by auto
    then show "\<exists>r\<in>set (claims @ [row]). cl_claim_id r = snd kc \<and> live r"
      using exclusive_parts(3) [OF ex, of "fst kc" "snd kc"] live by cases auto
  qed
  show "\<forall>r\<in>set (claims @ [row]). \<forall>s\<in>set (claims @ [row]). live r \<longrightarrow> live s \<longrightarrow>
      cl_issue_id r = cl_issue_id s \<or> cl_run_id r = cl_run_id s \<longrightarrow> cl_claim_id r = cl_claim_id s"
  proof (intro ballI impI)
    fix r s assume "r \<in> set (claims @ [row])" "s \<in> set (claims @ [row])" "live r" "live s"
      "cl_issue_id r = cl_issue_id s \<or> cl_run_id r = cl_run_id s"
    then show "cl_claim_id r = cl_claim_id s"
      using exclusive_parts(4) [OF ex, of r s] new [of r] new [of s] by (cases "r = row"; cases "s = row") auto
  qed
qed

lemma exclusive_unique: "exclusive claims resources \<Longrightarrow> r \<in> set claims \<Longrightarrow> s \<in> set claims \<Longrightarrow> cl_claim_id r = cl_claim_id s \<Longrightarrow> r = s"
  by (auto simp: exclusive_def distinct_map dest: inj_onD)

section \<open>Expiry\<close>

definition expire_row :: "rat \<Rightarrow> claim_record \<Rightarrow> claim_record" where
  "expire_row now r = (if cl_state r = CLAIM_ACTIVE \<and> cl_lease_expires_at r \<le> now then r\<lparr>cl_state := CLAIM_EXPIRED\<rparr> else r)"

lemma expire_row_simps [simp]:
  "cl_claim_id (expire_row now r) = cl_claim_id r" "cl_issue_id (expire_row now r) = cl_issue_id r"
  "cl_run_id (expire_row now r) = cl_run_id r" "cl_claim_generation (expire_row now r) = cl_claim_generation r"
  "live (expire_row now r) = live r"
  by (auto simp: expire_row_def live_active)

lemma expire_fold:
  "cs_claims (fold (expire_one now) ids st) =
     map (\<lambda>r. if cl_claim_id r \<in> set ids then r\<lparr>cl_state := CLAIM_EXPIRED\<rparr> else r) (cs_claims st) \<and>
   cs_resources (fold (expire_one now) ids st) = cs_resources st \<and>
   cs_generation (fold (expire_one now) ids st) = cs_generation st + int (length ids) \<and>
   cs_receipts (fold (expire_one now) ids st) = cs_receipts st \<and>
   (numbered st \<longrightarrow> numbered (fold (expire_one now) ids st))"
proof (induction ids arbitrary: st)
  case (Cons i ids)
  have "numbered (expire_one now i st)" if "numbered st"
    unfolding expire_one_def
    by (rule numbered_bump [OF that]) (use that in \<open>auto simp: numbered_def update_claim_def\<close>)
  then show ?case using Cons.IH [of "expire_one now i st"]
    by (auto simp: expire_one_def update_claim_def)
qed simp

lemma expire_locked_claims:
  assumes "distinct (map cl_claim_id (cs_claims st))"
  shows "cs_claims (expire_locked now st) = map (expire_row now) (cs_claims st)"
proof -
  have "cl_claim_id r \<in> cl_claim_id ` {r \<in> set (cs_claims st). cl_state r = CLAIM_ACTIVE \<and> cl_lease_expires_at r \<le> now} \<longleftrightarrow>
      cl_state r = CLAIM_ACTIVE \<and> cl_lease_expires_at r \<le> now" if "r \<in> set (cs_claims st)" for r
    using assms that by (auto simp: distinct_map dest: inj_onD)
  then show ?thesis by (simp add: expire_locked_def expire_fold expire_row_def)
qed

lemma expire_locked_simps [simp]:
  "cs_resources (expire_locked now st) = cs_resources st" "cs_receipts (expire_locked now st) = cs_receipts st"
  "cs_generation st \<le> cs_generation (expire_locked now st)"
  by (simp_all add: expire_locked_def expire_fold)

lemma expire_locked_wf: "claims_wf st \<Longrightarrow> claims_wf (expire_locked now st)"
proof -
  assume wf: "claims_wf st"
  have ids: "distinct (map cl_claim_id (cs_claims st))" using wf by (simp add: claims_wf_def exclusive_def)
  have "numbered (expire_locked now st)" using wf expire_fold by (simp add: claims_wf_def expire_locked_def)
  moreover have "exclusive (map (expire_row now) (cs_claims st)) (cs_resources st)"
    using wf exclusive_parts(2) [of "cs_claims st" "cs_resources st"]
    by (intro exclusive_map [of _ "cs_resources st"]) (simp_all add: claims_wf_def)
  ultimately show ?thesis by (simp add: claims_wf_def expire_locked_claims [OF ids])
qed

section \<open>Acquire\<close>

lemma insert_resources_ok:
  "insert_resources c keys rows = (True, rows') \<Longrightarrow>
   rows' = rows @ map (\<lambda>k. (k, c)) keys \<and> distinct keys \<and> set keys \<inter> fst ` set rows = {}"
proof (induction keys arbitrary: rows)
  case (Cons k keys)
  then have "k \<notin> fst ` set rows" "insert_resources c keys (rows @ [(k, c)]) = (True, rows')" by (auto split: if_split_asm)
  with Cons.IH [of "rows @ [(k, c)]"] show ?case by auto
qed simp

lemma insert_resources_accepts:
  "distinct keys \<Longrightarrow> set keys \<inter> fst ` set rows = {} \<Longrightarrow> insert_resources c keys rows = (True, rows @ map (\<lambda>k. (k, c)) keys)"
  by (induction keys arbitrary: rows) auto

lemma reclaim_all:
  assumes "claims_wf st"
  shows "reclaim st = cs_resources st"
proof -
  have ex: "exclusive (cs_claims st) (cs_resources st)" using assms by (simp add: claims_wf_def)
  have "live r" if kc: "(k, c) \<in> set (cs_resources st)" and r: "r \<in> set (cs_claims st)" "cl_claim_id r = c" for k c r
  proof -
    obtain s where "s \<in> set (cs_claims st)" "cl_claim_id s = c" "live s" using exclusive_parts(3) [OF ex kc] by blast
    then show ?thesis using exclusive_unique [OF ex r(1), of s] r(2) by simp
  qed
  then show ?thesis unfolding reclaim_def by (intro filter_True) auto
qed

text \<open>What an accepted acquire did.\<close>

lemma acquire_Inr:
  assumes "acquire c resources g st = (Inr row, st')" "claims_wf st"
  shows "cl_state c = CLAIM_ACTIVE \<and> row = c\<lparr>cl_claim_generation := g + 1\<rparr> \<and>
    g = cs_generation (expire_locked (cl_acquired_at c) st) \<and> insertable c (expire_locked (cl_acquired_at c) st) \<and>
    set resources \<inter> fst ` set (cs_resources st) = {} \<and> distinct resources \<and>
    cs_claims st' = map (expire_row (cl_acquired_at c)) (cs_claims st) @ [row] \<and>
    cs_resources st' = cs_resources st @ map (\<lambda>k. (k, cl_claim_id c)) (sort resources) \<and> claims_wf st'"
proof -
  let ?st1 = "expire_locked (cl_acquired_at c) st"
  have wf1: "claims_wf ?st1" by (rule expire_locked_wf [OF assms(2)])
  have ids: "distinct (map cl_claim_id (cs_claims st))" using assms(2) by (simp add: claims_wf_def exclusive_def)
  obtain rows where ok: "cl_state c = CLAIM_ACTIVE" "distinct resources" "g = cs_generation ?st1"
    "row = c\<lparr>cl_claim_generation := g + 1\<rparr>" "insertable row ?st1"
    "insert_resources (cl_claim_id c) (sort resources) (cs_resources st) = (True, rows)"
    and st': "st' = bump (cl_claim_id c) ''acquired'' (cl_acquired_at c) [(''resources'', JList (map JStr (sort resources)))]
       (?st1\<lparr>cs_claims := cs_claims ?st1 @ [row], cs_resources := rows\<rparr>)"
    using assms(1) reclaim_all [OF wf1]
    by (auto simp: acquire_def Let_def split: if_split_asm prod.split_asm bool.split_asm)
  note ins = insert_resources_ok [OF ok(6)]
  have fresh: "insertable c ?st1" using ok(4,5) by (simp add: insertable_def live_def)
  have live: "live row" using ok(1,4) by (simp add: live_active)
  have ex: "exclusive (cs_claims ?st1) (cs_resources st)" using wf1 by (simp add: claims_wf_def)
  have "exclusive (cs_claims ?st1 @ [row]) (cs_resources st @ map (\<lambda>k. (k, cl_claim_id row)) (sort resources))"
    using ins ok(5) live by (intro exclusive_add [OF ex live]) (simp_all add: insertable_def)
  then have "exclusive (cs_claims ?st1 @ [row]) rows" using ins ok(4) by simp
  moreover have "numbered st'"
    unfolding st' by (rule numbered_bump [of ?st1]) (use wf1 ok(3,4) in \<open>auto simp: claims_wf_def numbered_def\<close>)
  ultimately have "claims_wf st'" by (simp add: claims_wf_def st')
  then show ?thesis using ok ins fresh expire_locked_claims [OF ids] by (simp add: st')
qed

lemma acquire_Inl: "acquire c resources g st = (Inl e, st') \<Longrightarrow> st' = st"
  by (auto simp: acquire_def Let_def split: if_split_asm prod.split_asm bool.split_asm)

section \<open>Transitions\<close>

lemma find_claim_Some: "find_claim st c = Some r \<Longrightarrow> r \<in> set (cs_claims st) \<and> cl_claim_id r = c"
  by (auto simp: find_claim_def find_Some_iff)

lemma find_claim_unique:
  assumes "claims_wf st" "r \<in> set (cs_claims st)"
  shows "find_claim st (cl_claim_id r) = Some r"
proof -
  have ex: "exclusive (cs_claims st) (cs_resources st)" using assms(1) by (simp add: claims_wf_def)
  obtain s where s: "find_claim st (cl_claim_id r) = Some s"
    using assms(2) by (cases "find_claim st (cl_claim_id r)") (auto simp: find_claim_def find_None_iff)
  then show ?thesis using exclusive_unique [OF ex _ assms(2), of s] find_claim_Some [OF s] by simp
qed

text \<open>The changes a transition may make.\<close>

definition admissible :: "string \<Rightarrow> (claim_record \<Rightarrow> claim_record) \<Rightarrow> bool" where
  "admissible event f \<longleftrightarrow> (\<forall>r. cl_claim_id (f r) = cl_claim_id r \<and> cl_issue_id (f r) = cl_issue_id r \<and> cl_run_id (f r) = cl_run_id r \<and>
     (event \<noteq> ''released'' \<longrightarrow> cl_state (f r) = cl_state r))"

lemma transition_Inr:
  assumes "transition c run_id driver g event now d f st = (Inr r', st')" "claims_wf st" "admissible event f"
  shows "\<exists>r. r \<in> set (cs_claims st) \<and> cl_claim_id r = c \<and> cl_run_id r = run_id \<and> cl_driver_id r = driver \<and>
    cl_claim_generation r = g \<and> cl_state r = CLAIM_ACTIVE \<and> r' = (f r)\<lparr>cl_claim_generation := cs_generation st + 1\<rparr> \<and>
    cs_claims st' = map (\<lambda>s. if cl_claim_id s = c then r' else s) (cs_claims st) \<and>
    cs_resources st' = (if event = ''released'' then filter (\<lambda>kc. snd kc \<noteq> c) (cs_resources st) else cs_resources st) \<and>
    cs_generation st' = cs_generation st + 1 \<and> claims_wf st'"
proof -
  obtain r where f: "find_claim st c = Some r" and r: "cl_run_id r = run_id" "cl_driver_id r = driver" "cl_claim_generation r = g"
    "cl_state r = CLAIM_ACTIVE" and r': "r' = (f r)\<lparr>cl_claim_generation := cs_generation st + 1\<rparr>"
    and st': "st' = bump c event now d (let st1 = update_claim c (\<lambda>_. r') st in
      if event = ''released'' then st1\<lparr>cs_resources := filter (\<lambda>kc. snd kc \<noteq> c) (cs_resources st1)\<rparr> else st1)"
    using assms(1) by (auto simp: transition_def Let_def split: option.split_asm if_split_asm)
  note here = find_claim_Some [OF f]
  have ex: "exclusive (cs_claims st) (cs_resources st)" and num: "numbered st" using assms(2) by (simp_all add: claims_wf_def)
  have same: "cl_claim_id r' = c" "cl_issue_id r' = cl_issue_id r" "cl_run_id r' = cl_run_id r"
    "event \<noteq> ''released'' \<Longrightarrow> cl_state r' = CLAIM_ACTIVE"
    using assms(3) here r(4) by (simp_all add: r' admissible_def)
  have only: "s = r" if "s \<in> set (cs_claims st)" "cl_claim_id s = c" for s
    using exclusive_unique [OF ex that(1), of r] here that(2) by simp
  have claims: "cs_claims st' = map (\<lambda>s. if cl_claim_id s = c then r' else s) (cs_claims st)"
    by (simp add: st' Let_def update_claim_def)
  have resources: "cs_resources st' = (if event = ''released'' then filter (\<lambda>kc. snd kc \<noteq> c) (cs_resources st) else cs_resources st)"
    by (simp add: st' Let_def)
  have "exclusive (cs_claims st') (cs_resources st')"
    unfolding claims
  proof (rule exclusive_map [OF ex])
    show "set (cs_resources st') \<subseteq> set (cs_resources st)" by (auto simp: resources)
    show "distinct (map fst (cs_resources st'))" using exclusive_parts(2) [OF ex] by (simp add: resources distinct_map_filter)
    fix s assume s: "s \<in> set (cs_claims st)"
    show "cl_claim_id (if cl_claim_id s = c then r' else s) = cl_claim_id s \<and>
        cl_issue_id (if cl_claim_id s = c then r' else s) = cl_issue_id s \<and> cl_run_id (if cl_claim_id s = c then r' else s) = cl_run_id s"
      using only [OF s] same by simp
    show "live s" if "live (if cl_claim_id s = c then r' else s)"
      using that only [OF s] r(4) live_active by (auto split: if_split_asm)
    show "live (if cl_claim_id s = c then r' else s)" if "live s" "kc \<in> set (cs_resources st')" "snd kc = cl_claim_id s" for kc
      using that same(4) live_active by (auto simp: resources split: if_split_asm)
  qed
  moreover have "numbered st'"
    unfolding st' by (rule numbered_bump [OF num])
      (use num in \<open>auto simp: Let_def update_claim_def numbered_def r'\<close>)
  ultimately have "claims_wf st'" by (simp add: claims_wf_def)
  moreover have "cs_generation st' = cs_generation st + 1" by (simp add: st' Let_def)
  ultimately show ?thesis using here r r' claims resources by blast
qed

lemma transition_Inl: "transition c run_id driver g event now d f st = (Inl e, st') \<Longrightarrow> st' = st"
  by (auto simp: transition_def Let_def split: option.split_asm if_split_asm)

text \<open>Heartbeats, releases and bindings are transitions: the token, and whether one succeeds.\<close>

fun claim_token :: "claim_op \<Rightarrow> (string \<times> int) option" where
  "claim_token (Heartbeat c r d g lease now) = Some (c, g)"
| "claim_token (Release c r d g reason now) = Some (c, g)"
| "claim_token (Bind c r d g s now) = Some (c, g)"
| "claim_token _ = None"

fun succeeds :: "claim_op \<Rightarrow> claim_store \<Rightarrow> bool" where
  "succeeds (Heartbeat c r d g lease now) st = (case fst (claim_heartbeat c r d g lease now st) of Inl _ \<Rightarrow> False | Inr _ \<Rightarrow> True)"
| "succeeds (Release c r d g reason now) st = (case fst (release c r d g reason now st) of Inl _ \<Rightarrow> False | Inr _ \<Rightarrow> True)"
| "succeeds (Bind c r d g s now) st = (case fst (bind_engine_session c r d g s now st) of Inl _ \<Rightarrow> False | Inr _ \<Rightarrow> True)"
| "succeeds _ st = False"

lemma transition_refused:
  "\<not> (case fst (transition c run_id driver g event now d f st) of Inl _ \<Rightarrow> False | Inr _ \<Rightarrow> True) \<Longrightarrow>
   snd (transition c run_id driver g event now d f st) = st"
  by (cases "transition c run_id driver g event now d f st"; cases "fst (transition c run_id driver g event now d f st)")
    (auto dest: transition_Inl)

lemma token_refused: "claim_token q \<noteq> None \<Longrightarrow> \<not> succeeds q st \<Longrightarrow> claim_step q st = st"
  by (cases q) (simp_all add: claim_heartbeat_def release_def bind_engine_session_def transition_refused
      split: if_split_asm option.split option.split_asm)

lemma fst_Inr: "fst p = Inr x \<Longrightarrow> p = (Inr x, snd p)"
  by (cases p) simp

lemma succeeds_parts:
  assumes "claim_token q = Some (c, g)" "succeeds q st"
  shows "\<exists>run_id driver event now d f r'. admissible event f \<and>
    transition c run_id driver g event now d f st = (Inr r', claim_step q st)"
proof (cases q)
  case (Heartbeat c' r dr g' lease now)
  let ?f = "\<lambda>r. r\<lparr>cl_heartbeat_at := now, cl_lease_expires_at := lease\<rparr>"
  let ?t = "transition c r dr g ''heartbeat'' now
    [(''heartbeat_at'', JFlt (Fin now)), (''lease_expires_at'', JFlt (Fin lease))] ?f st"
  obtain x where x: "fst ?t = Inr x" and s: "claim_step q st = snd ?t"
    using assms Heartbeat by (auto simp: claim_heartbeat_def split: if_split_asm sum.split_asm)
  have "admissible ''heartbeat'' ?f" by (simp add: admissible_def)
  then show ?thesis using fst_Inr [OF x] unfolding s by blast
next
  case (Release c' r dr g' reason now)
  let ?f = "\<lambda>r. r\<lparr>cl_state := CLAIM_RELEASED, cl_released_at := Some now, cl_release_reason := Some reason\<rparr>"
  let ?t = "transition c r dr g ''released'' now
    [(''state'', JStr CLAIM_RELEASED), (''released_at'', JFlt (Fin now)), (''release_reason'', JStr reason)] ?f st"
  obtain x where x: "fst ?t = Inr x" and s: "claim_step q st = snd ?t"
    using assms Release by (auto simp: release_def split: if_split_asm sum.split_asm)
  have "admissible ''released'' ?f" by (simp add: admissible_def)
  then show ?thesis using fst_Inr [OF x] unfolding s by blast
next
  case (Bind c' r dr g' i now)
  let ?f = "\<lambda>r. r\<lparr>cl_engine_session_id := Some i\<rparr>"
  let ?t = "transition c r dr g ''engine_session_bound'' now [(''engine_session_id'', JStr i)] ?f st"
  obtain x where x: "fst ?t = Inr x" and s: "claim_step q st = snd ?t"
    using assms Bind by (auto simp: bind_engine_session_def split: if_split_asm sum.split_asm option.split_asm)
  have "admissible ''engine_session_bound'' ?f" by (simp add: admissible_def)
  then show ?thesis using fst_Inr [OF x] unfolding s by blast
qed (use assms in simp_all)

lemma consume_wf: "claims_wf (snd (consume_receipt i st)) = claims_wf st"
  by (simp add: consume_receipt_def claims_wf_def numbered_def)

lemma claim_step_wf: assumes "claims_wf st" shows "claims_wf (claim_step q st)"
proof (cases "claim_token q")
  case None
  then show ?thesis
  proof (cases q)
    case (Acquire c resources g)
    then show ?thesis
      using acquire_Inr [of c resources g st] acquire_Inl [of c resources g st] assms
      by (cases "acquire c resources g st"; cases "fst (acquire c resources g st)") auto
  qed (use assms expire_locked_wf consume_wf in \<open>auto simp: expire_leases_def\<close>)
next
  case (Some t)
  obtain c g where t: "t = (c, g)" by (cases t)
  show ?thesis
  proof (cases "succeeds q st")
    case True
    then show ?thesis using succeeds_parts [OF Some [unfolded t] True] transition_Inr assms by blast
  qed (use assms token_refused [of q st] Some in simp)
qed

lemma new_claim_store_wf: "claims_wf new_claim_store"
  by (simp add: claims_wf_def exclusive_def numbered_def new_claim_store_def)

interpretation claims: invariant_machine claim_step claims_wf "\<lambda>_. True"
  by unfold_locales (rule claim_step_wf)

lemma claims_reachable: "claims_wf (run claim_step qs new_claim_store)"
  by (rule claims.run_inv [OF new_claim_store_wf]) (simp add: list_all_iff)

section \<open>What every history keeps\<close>

text \<open>
  The token of a transition is the claim and the generation its holder knows. It is spent when the
  claim has moved past that generation.
\<close>

definition spent_token :: "claim_store \<Rightarrow> (string \<times> int) option \<Rightarrow> unit option" where
  "spent_token st k = (case k of None \<Rightarrow> None
   | Some (c, g) \<Rightarrow> if claims_wf st \<and> (\<exists>r\<in>set (cs_claims st). cl_claim_id r = c \<and> g < cl_claim_generation r)
       then Some () else None)"

lemma spent_token_Some [simp]:
  "spent_token st k = Some u \<longleftrightarrow> (\<exists>c g. k = Some (c, g) \<and> claims_wf st \<and>
    (\<exists>r\<in>set (cs_claims st). cl_claim_id r = c \<and> g < cl_claim_generation r))"
  by (auto simp: spent_token_def split: option.split prod.split)

lemma wf_generation: "claims_wf st \<Longrightarrow> r \<in> set (cs_claims st) \<Longrightarrow> cl_claim_generation r \<le> cs_generation st"
  unfolding claims_wf_def numbered_def by blast

text \<open>What one step does to the claim with a given id: nothing but expiry, unless it is the step's own.\<close>

lemma step_keeps_claim:
  assumes "claims_wf st" "r \<in> set (cs_claims st)"
  shows "\<exists>r'\<in>set (cs_claims (claim_step q st)). cl_claim_id r' = cl_claim_id r \<and>
    cl_claim_generation r \<le> cl_claim_generation r' \<and>
    (cl_state r = CLAIM_EXPIRED \<longrightarrow> r' = r \<and>
       set (filter (\<lambda>kc. snd kc = cl_claim_id r) (cs_resources st)) \<subseteq> set (cs_resources (claim_step q st)))"
proof -
  have ids: "distinct (map cl_claim_id (cs_claims st))" using assms(1) by (simp add: claims_wf_def exclusive_def)
  have kept: "cl_state r = CLAIM_EXPIRED \<Longrightarrow> expire_row now r = r" for now
    by (simp add: expire_row_def CLAIM_EXPIRED_def CLAIM_ACTIVE_def)
  show ?thesis
  proof (cases "claim_token q")
    case (Some t)
    obtain c g where t: "t = (c, g)" by (cases t)
    show ?thesis
    proof (cases "succeeds q st")
      case True
      then obtain run_id driver event now d f r1 where "admissible event f"
        "transition c run_id driver g event now d f st = (Inr r1, claim_step q st)"
        using succeeds_parts [OF Some [unfolded t] True] by blast
      from transition_Inr [OF this(2) assms(1) this(1)] this(1) obtain s where s: "s \<in> set (cs_claims st)" "cl_claim_id s = c"
        "cl_state s = CLAIM_ACTIVE" and r1: "r1 = (f s)\<lparr>cl_claim_generation := cs_generation st + 1\<rparr>"
        and claims: "cs_claims (claim_step q st) = map (\<lambda>s. if cl_claim_id s = c then r1 else s) (cs_claims st)"
        and resources: "cs_resources (claim_step q st) =
          (if event = ''released'' then filter (\<lambda>kc. snd kc \<noteq> c) (cs_resources st) else cs_resources st)"
        and f: "admissible event f" by blast
      have same: "cl_claim_id r = c \<Longrightarrow> r = s"
        using exclusive_unique [of "cs_claims st" "cs_resources st" r s] assms s(1,2) by (simp add: claims_wf_def)
      have up: "cl_claim_generation s \<le> cs_generation st" using wf_generation [OF assms(1) s(1)] .
      have other: "cl_state r = CLAIM_EXPIRED \<Longrightarrow> cl_claim_id r \<noteq> c"
        using same s(3) by (auto simp: CLAIM_EXPIRED_def CLAIM_ACTIVE_def)
      have "(if cl_claim_id r = c then r1 else r) \<in> set (cs_claims (claim_step q st))" using assms(2) by (auto simp: claims)
      moreover have "cl_claim_id r1 = c" using f s(2) by (simp add: r1 admissible_def)
      ultimately show ?thesis
        using same up other by (intro bexI [of _ "if cl_claim_id r = c then r1 else r"]) (auto simp: resources r1)
    next
      case False
      then show ?thesis using token_refused [of q st] Some assms(2) by (intro bexI [of _ r]) auto
    qed
  next
    case None
    have expired: "\<exists>r'\<in>set (cs_claims (expire_locked now st)). cl_claim_id r' = cl_claim_id r \<and>
        cl_claim_generation r \<le> cl_claim_generation r' \<and> (cl_state r = CLAIM_EXPIRED \<longrightarrow> r' = r)" for now
      using assms(2) kept by (intro bexI [of _ "expire_row now r"]) (simp_all add: expire_locked_claims [OF ids])
    show ?thesis
    proof (cases q)
      case (Acquire c resources g)
      show ?thesis
      proof (cases "fst (acquire c resources g st)")
        case (Inl e)
        then have "claim_step q st = st" using acquire_Inl [of c resources g st e] Acquire by (cases "acquire c resources g st") simp
        then show ?thesis using assms(2) by auto
      next
        case (Inr row)
        from acquire_Inr [OF fst_Inr [OF this] assms(1)] Acquire show ?thesis
          using assms(2) kept by (intro bexI [of _ "expire_row (cl_acquired_at c) r"]) auto
      qed
    next
      case (Expire now)
      then show ?thesis using expired [of now] by (fastforce simp: expire_leases_def)
    next
      case (Consume i)
      then show ?thesis using assms(2) by (auto simp: consume_receipt_def)
    qed (use None in simp_all)
  qed
qed

text \<open>The step that succeeds with a token spends it, and a spent token does not succeed.\<close>

lemma succeeds_spends:
  assumes "claims_wf st" "claim_token q = Some (c, g)" "succeeds q st"
  shows "\<exists>r\<in>set (cs_claims (claim_step q st)). cl_claim_id r = c \<and> g < cl_claim_generation r"
    "r \<in> set (cs_claims st) \<Longrightarrow> cl_claim_id r = c \<Longrightarrow> cl_claim_generation r = g"
proof -
  obtain run_id driver event now d f r1 where f: "admissible event f"
    and t: "transition c run_id driver g event now d f st = (Inr r1, claim_step q st)"
    using succeeds_parts [OF assms(2,3)] by blast
  from transition_Inr [OF t assms(1) f] obtain s where s: "s \<in> set (cs_claims st)" "cl_claim_id s = c" "cl_claim_generation s = g"
    and r1: "r1 = (f s)\<lparr>cl_claim_generation := cs_generation st + 1\<rparr>"
    and claims: "cs_claims (claim_step q st) = map (\<lambda>s. if cl_claim_id s = c then r1 else s) (cs_claims st)" by blast
  have "g \<le> cs_generation st" using wf_generation [OF assms(1) s(1)] s(3) by simp
  moreover have "r1 \<in> set (cs_claims (claim_step q st))" using s by (force simp: claims)
  ultimately show "\<exists>r\<in>set (cs_claims (claim_step q st)). cl_claim_id r = c \<and> g < cl_claim_generation r"
    using f s(2) by (intro bexI [of _ r1]) (simp_all add: r1 admissible_def)
  show "r \<in> set (cs_claims st) \<Longrightarrow> cl_claim_id r = c \<Longrightarrow> cl_claim_generation r = g"
    using exclusive_unique [of "cs_claims st" "cs_resources st" r s] assms(1) s by (simp add: claims_wf_def)
qed

interpretation fence: one_shot_gate claim_step spent_token
  "\<lambda>q st. claims_wf st \<and> claim_token q \<noteq> None \<and> succeeds q st" claim_token
proof
  fix st k v q assume "spent_token st k = Some v"
  then obtain c g r where k: "k = Some (c, g)" and wf: "claims_wf st" and r: "r \<in> set (cs_claims st)" "cl_claim_id r = c" "g < cl_claim_generation r"
    by auto
  obtain r' where "r' \<in> set (cs_claims (claim_step q st))" "cl_claim_id r' = c" "cl_claim_generation r \<le> cl_claim_generation r'"
    using step_keeps_claim [OF wf r(1), of q] r(2) by blast
  then show "spent_token (claim_step q st) k = Some v"
    using r(3) claim_step_wf [OF wf] by (simp add: k) (metis order_less_le_trans)
next
  fix q st assume h: "claims_wf st \<and> claim_token q \<noteq> None \<and> succeeds q st"
  then obtain c g where t: "claim_token q = Some (c, g)" by auto
  show "spent_token (claim_step q st) (claim_token q) \<noteq> None"
    using succeeds_spends(1) [OF _ t] h claim_step_wf t by auto
next
  fix st q assume "spent_token st (claim_token q) \<noteq> None"
  then show "\<not> (claims_wf st \<and> claim_token q \<noteq> None \<and> succeeds q st)"
    using succeeds_spends(2) by fastforce
qed

text \<open>An expired claim and its resources are values that stay.\<close>

definition stuck_claim :: "claim_store \<Rightarrow> string \<Rightarrow> claim_record option" where
  "stuck_claim st c = (case find_claim st c of None \<Rightarrow> None | Some r \<Rightarrow> if cl_state r = CLAIM_EXPIRED then Some r else None)"

lemma stuck_claim_Some: "stuck_claim st c = Some r \<longleftrightarrow> find_claim st c = Some r \<and> cl_state r = CLAIM_EXPIRED"
  by (auto simp: stuck_claim_def split: option.split)

lemma step_keeps_stuck:
  assumes "claims_wf st" "stuck_claim st c = Some r"
  shows "stuck_claim (claim_step q st) c = Some r"
    "(k, c) \<in> set (cs_resources st) \<Longrightarrow> (k, c) \<in> set (cs_resources (claim_step q st))"
proof -
  have r: "r \<in> set (cs_claims st)" "cl_claim_id r = c" "cl_state r = CLAIM_EXPIRED"
    using assms(2) find_claim_Some by (auto simp: stuck_claim_Some)
  note kept = step_keeps_claim [OF assms(1) r(1), of q]
  have "r \<in> set (cs_claims (claim_step q st))" using kept r(3) by auto
  from find_claim_unique [OF claim_step_wf [OF assms(1)] this] r(2,3)
  show "stuck_claim (claim_step q st) c = Some r" by (simp add: stuck_claim_Some)
  show "(k, c) \<in> set (cs_resources st) \<Longrightarrow> (k, c) \<in> set (cs_resources (claim_step q st))" using kept r(2,3) by auto
qed

text \<open>The pair of an expired claim and a key it holds.\<close>

definition stuck_key :: "claim_store \<Rightarrow> string \<times> string \<Rightarrow> claim_record option" where
  "stuck_key st kc = (if kc \<in> set (cs_resources st) then stuck_claim st (snd kc) else None)"

interpretation stuck: durable_machine claim_step claims_wf "\<lambda>_. True" stuck_claim
  by unfold_locales (rule step_keeps_stuck(1))

interpretation stuck_keys: durable_machine claim_step claims_wf "\<lambda>_. True" stuck_key
proof
  fix st q kc v assume wf: "claims_wf st" and v: "stuck_key st kc = Some v"
  obtain k c where kc: "kc = (k, c)" by (cases kc)
  have "(k, c) \<in> set (cs_resources st)" "stuck_claim st c = Some v" using v by (auto simp: stuck_key_def kc split: if_split_asm)
  then show "stuck_key (claim_step q st) kc = Some v" using step_keeps_stuck [OF wf] by (simp add: stuck_key_def kc)
qed

lemma held_refused:
  assumes "claims_wf st" "r \<in> set (cs_claims st)" "cl_state r = CLAIM_EXPIRED"
    and "cl_issue_id d = cl_issue_id r \<or> cl_run_id d = cl_run_id r \<or> (\<exists>k\<in>set resources. (k, cl_claim_id r) \<in> set (cs_resources st))"
  shows "\<exists>e. fst (acquire d resources g st) = Inl e"
proof (cases "fst (acquire d resources g st)")
  case (Inr row)
  note ok = acquire_Inr [OF fst_Inr [OF Inr] assms(1)]
  have "expire_row (cl_acquired_at d) r \<in> set (cs_claims (expire_locked (cl_acquired_at d) st))"
    using assms(1,2) by (simp add: expire_locked_claims claims_wf_def exclusive_def)
  moreover have "live r" "live d" using ok assms(3) by (simp_all add: live_def ACTIVE_STATES_def)
  ultimately have "cl_issue_id d \<noteq> cl_issue_id r \<and> cl_run_id d \<noteq> cl_run_id r" using ok by (fastforce simp: insertable_def)
  moreover have "set resources \<inter> fst ` set (cs_resources st) = {}" using ok by blast
  ultimately show ?thesis using assms(4) by force
qed simp

text \<open>Keys that were inserted before the failing one name the refused claim itself.\<close>

lemma insert_resources_grows: "\<exists>more. snd (insert_resources c keys rows) = rows @ more"
proof (induction keys arbitrary: rows)
  case (Cons k keys)
  then show ?case using Cons.IH [of "rows @ [(k, c)]"] by auto
qed simp

lemma insert_resources_held: "k \<in> set keys \<Longrightarrow> k \<in> fst ` set rows \<Longrightarrow> \<not> fst (insert_resources c keys rows)"
proof (induction keys arbitrary: rows)
  case (Cons x xs)
  have "k \<in> fst ` set (rows @ [(x, c)])" using Cons.prems(2) by simp
  then show ?case using Cons.IH [of "rows @ [(x, c)]"] Cons.prems by auto
qed simp

lemma insert_resources_own:
  assumes "sorted keys" "distinct keys" "k \<in> set keys" "k \<notin> fst ` set rows" "h \<in> set keys" "h \<in> fst ` set rows"
    and "\<And>x. x \<in> set keys \<Longrightarrow> x \<in> fst ` set rows \<Longrightarrow> k < x"
  shows "\<exists>rows'. insert_resources c keys rows = (False, rows') \<and> map_of rows' k = Some c"
  using assms
proof (induction keys arbitrary: rows)
  case (Cons x xs)
  show ?case
  proof (cases "x = k")
    case True
    have h: "h \<in> set xs" using Cons.prems True by auto
    obtain more where more: "snd (insert_resources c xs (rows @ [(k, c)])) = (rows @ [(k, c)]) @ more"
      using insert_resources_grows by blast
    have "\<not> fst (insert_resources c xs (rows @ [(k, c)]))" using insert_resources_held [OF h] Cons.prems(6) by auto
    moreover have "map_of rows k = None" using Cons.prems(4) by (simp add: map_of_eq_None_iff)
    ultimately show ?thesis using True more Cons.prems(4)
      by (cases "insert_resources c xs (rows @ [(k, c)])") (auto simp: map_add_def)
  next
    case False
    then have k: "k \<in> set xs" using Cons.prems(3) by simp
    have x: "x \<le> k" using Cons.prems(1) k by simp
    have new: "x \<notin> fst ` set rows"
    proof
      assume "x \<in> fst ` set rows"
      from Cons.prems(7) [OF _ this] have "k < x" by simp
      then show False using x by (meson leD)
    qed
    have "\<exists>rows'. insert_resources c xs (rows @ [(x, c)]) = (False, rows') \<and> map_of rows' k = Some c"
    proof (rule Cons.IH)
      show "h \<in> set xs" using Cons.prems(5,6) new by auto
      show "\<And>y. y \<in> set xs \<Longrightarrow> y \<in> fst ` set (rows @ [(x, c)]) \<Longrightarrow> k < y" using Cons.prems(2,7) by auto
    qed (use Cons.prems False k in auto)
    then show ?thesis using new by simp
  qed
qed simp

section \<open>The claim store\<close>

definition sample_claim :: "string \<Rightarrow> string \<Rightarrow> string \<Rightarrow> rat \<Rightarrow> claim_record" where
  "sample_claim claim_id issue_id run_id t = \<lparr>cl_claim_version = 1, cl_claim_id = claim_id, cl_issue_id = issue_id,
     cl_workflow = ''feature'', cl_run_id = run_id, cl_branch_ref = ''b'', cl_worktree_path = ''w'',
     cl_store_session_id = None, cl_engine_id = ''e'', cl_engine_session_id = None, cl_driver_id = ''d'',
     cl_state = CLAIM_ACTIVE, cl_acquired_at = t, cl_heartbeat_at = t, cl_lease_expires_at = t + 10,
     cl_released_at = None, cl_release_reason = None, cl_expected_workflow_label = ''workflow:feature'',
     cl_claim_generation = 0\<rparr>"

definition sample_acquired :: "claim_op list" where
  "sample_acquired = [Acquire (sample_claim ''c1'' ''o/r#1'' ''r1'' 0) [''branch:b''] 0]"

lemmas sample_store = sample_acquired_def sample_claim_def acquire_def expire_locked_def expire_one_def insertable_def reclaim_def
  new_claim_store_def CLAIM_ACTIVE_def CLAIM_EXPIRED_def CLAIM_RELEASED_def ACTIVE_STATES_def live_def bump_def
  update_claim_def expire_leases_def transition_def claim_heartbeat_def find_claim_def Let_def

lemma succeeds_token: "succeeds q st \<Longrightarrow> claim_token q \<noteq> None"
  by (cases q) simp_all

text \<open>C14: After any history of operations each resource key is held once, by a live claim; two live claims
  have different issues and different Runs; the generation is the number of history rows, which are numbered in
  order, and no claim is ahead of it.\<close>

theorem claims_exclusive:
  assumes "st = run claim_step qs new_claim_store"
  shows "distinct (map fst (cs_resources st)) \<and>
    (\<forall>(k, c)\<in>set (cs_resources st). \<exists>r\<in>set (cs_claims st). cl_claim_id r = c \<and> live r) \<and>
    (\<forall>r\<in>set (cs_claims st). \<forall>s\<in>set (cs_claims st). live r \<and> live s \<and>
       (cl_claim_id r = cl_claim_id s \<or> cl_issue_id r = cl_issue_id s \<or> cl_run_id r = cl_run_id s) \<longrightarrow> r = s) \<and>
    map hi_generation (cs_history st) = map int [1..<Suc (length (cs_history st))] \<and>
    cs_generation st = int (length (cs_history st)) \<and>
    (\<forall>r\<in>set (cs_claims st). cl_claim_generation r \<le> cs_generation st)"
proof -
  have wf: "claims_wf st" unfolding assms by (rule claims_reachable)
  then have ex: "exclusive (cs_claims st) (cs_resources st)" and num: "numbered st" by (simp_all add: claims_wf_def)
  have "\<forall>(k, c)\<in>set (cs_resources st). \<exists>r\<in>set (cs_claims st). cl_claim_id r = c \<and> live r"
    using exclusive_parts(3) [OF ex] by blast
  moreover have "\<forall>r\<in>set (cs_claims st). \<forall>s\<in>set (cs_claims st). live r \<and> live s \<and>
       (cl_claim_id r = cl_claim_id s \<or> cl_issue_id r = cl_issue_id s \<or> cl_run_id r = cl_run_id s) \<longrightarrow> r = s"
    using exclusive_parts(4) [OF ex] exclusive_unique [OF ex] by blast
  ultimately show ?thesis using exclusive_parts(2) [OF ex] num unfolding numbered_def by blast
qed

theorem claims_exclusive_witness:
  "cs_resources (run claim_step sample_acquired new_claim_store) = [(''branch:b'', ''c1'')] \<and>
   cs_generation (run claim_step sample_acquired new_claim_store) = int (length (cs_history (run claim_step sample_acquired new_claim_store)))"
  using claims_exclusive [OF refl, of sample_acquired] by (auto simp: sample_store)

text \<open>C15: The pair of a claim and the generation its holder knows is a fencing token: once an operation that
  carries it succeeded, no later operation with the same pair does, whatever lies between.\<close>

theorem claim_token_spent_once:
  assumes "succeeds q (run claim_step qs new_claim_store)" "claim_token r = claim_token q"
  shows "\<not> succeeds r (run claim_step (qs @ q # rs) new_claim_store)"
proof -
  have "claims_wf (run claim_step (qs @ q # rs) new_claim_store)" by (rule claims_reachable)
  moreover have "claim_token r \<noteq> None" using succeeds_token [OF assms(1)] assms(2) by simp
  ultimately show ?thesis
    using fence.replay_refused [where q = q and s = "run claim_step qs new_claim_store" and r = r and qs = rs] assms claims_reachable [of qs] succeeds_token [OF assms(1)]
    by (simp add: run_append)
qed

theorem claim_token_spent_once_witness:
  "\<not> succeeds (Heartbeat ''c1'' ''r1'' ''d'' 1 30 6)
     (run claim_step (sample_acquired @ Heartbeat ''c1'' ''r1'' ''d'' 1 20 5 # []) new_claim_store)"
  by (rule claim_token_spent_once) (simp_all add: sample_store)

text \<open>C16: A claim that was expired is never settled by any operation. Once a claim is in the state
  \<open>expired_pending_reconciliation\<close> with a resource key, it keeps that key and that state through
  every later history, each acquire that asks for the key, for its issue or for its Run is refused, and so is
  its own release and its own heartbeat. (A claim past its lease that nobody expired yet is still active, and its owner may
  release or heartbeat it.)\<close>

theorem expired_claim_is_stuck:
  assumes "st = run claim_step qs new_claim_store" "r \<in> set (cs_claims st)" "cl_state r = CLAIM_EXPIRED"
    and "(k, cl_claim_id r) \<in> set (cs_resources st)" "st' = run claim_step rs st"
  shows "r \<in> set (cs_claims st') \<and> (k, cl_claim_id r) \<in> set (cs_resources st') \<and>
    (\<forall>d resources g. k \<in> set resources \<or> cl_issue_id d = cl_issue_id r \<or> cl_run_id d = cl_run_id r \<longrightarrow>
      (\<exists>e. fst (acquire d resources g st') = Inl e)) \<and>
    (\<forall>run_id driver g reason now. \<exists>e. fst (release (cl_claim_id r) run_id driver g reason now st') = Inl e) \<and>
    (\<forall>run_id driver g lease now. \<exists>e. fst (claim_heartbeat (cl_claim_id r) run_id driver g lease now st') = Inl e)"
proof -
  have wf: "claims_wf st" unfolding assms(1) by (rule claims_reachable)
  have key: "stuck_key st (k, cl_claim_id r) = Some r"
    using assms(3,4) find_claim_unique [OF wf assms(2)] by (simp add: stuck_key_def stuck_claim_Some)
  have "stuck_key st' (k, cl_claim_id r) = Some r"
    unfolding assms(5) by (rule stuck_keys.run_stays [OF wf _ key]) (simp add: list_all_iff)
  then have f: "find_claim st' (cl_claim_id r) = Some r" and res: "(k, cl_claim_id r) \<in> set (cs_resources st')"
    by (auto simp: stuck_key_def stuck_claim_Some split: if_split_asm)
  have here: "r \<in> set (cs_claims st')" using find_claim_Some [OF f] by simp
  have wf': "claims_wf st'" unfolding assms(5) by (rule claims.run_inv [OF wf]) (simp add: list_all_iff)
  have "\<forall>d resources g. k \<in> set resources \<or> cl_issue_id d = cl_issue_id r \<or> cl_run_id d = cl_run_id r \<longrightarrow>
      (\<exists>e. fst (acquire d resources g st') = Inl e)"
    by (intro allI impI held_refused [OF wf' here assms(3)]) (use res in auto)
  moreover have "cl_state r \<noteq> CLAIM_ACTIVE" using assms(3) by (simp add: CLAIM_EXPIRED_def CLAIM_ACTIVE_def)
  ultimately show ?thesis using here res by (simp add: release_def claim_heartbeat_def transition_def f)
qed

theorem expired_claim_is_stuck_witness:
  "\<exists>e. fst (acquire (sample_claim ''c2'' ''o/r#2'' ''r2'' 500) [''branch:b''] 2
      (run claim_step [Expire 100] (run claim_step (sample_acquired @ [Expire 11]) new_claim_store))) = Inl e"
proof -
  let ?st = "run claim_step (sample_acquired @ [Expire 11]) new_claim_store"
  let ?r = "(sample_claim ''c1'' ''o/r#1'' ''r1'' 0)\<lparr>cl_state := CLAIM_EXPIRED, cl_claim_generation := 1\<rparr>"
  have "?r \<in> set (cs_claims ?st)" "(''branch:b'', cl_claim_id ?r) \<in> set (cs_resources ?st)" "cl_state ?r = CLAIM_EXPIRED"
    by (simp_all add: sample_store)
  from expired_claim_is_stuck [OF refl this(1,3,2) refl, of "[Expire 100]"] show ?thesis
    by (elim conjE) (erule allE, erule allE, erule allE, erule mp, simp)
qed

text \<open>An acquire that fails on a held key, after keys of its own were inserted, leaves the store as it was and
  names itself as the holder of a free key: the conflicts are read before the rollback, so they contain a claim that
  does not exist.\<close>

theorem conflict_names_refused_claim:
  assumes "st = run claim_step qs new_claim_store" "cl_state c = CLAIM_ACTIVE" "distinct resources"
    and "insertable c (expire_locked (cl_acquired_at c) st)" "g = cs_generation (expire_locked (cl_acquired_at c) st)"
    and "free \<in> set resources" "free \<notin> fst ` set (cs_resources st)"
    and "held \<in> set resources" "held \<in> fst ` set (cs_resources st)"
    and "\<And>x. x \<in> set resources \<Longrightarrow> x \<in> fst ` set (cs_resources st) \<Longrightarrow> free < x"
  shows "\<exists>conflicts. acquire c resources g st = (Inl (Resource_conflict conflicts), st) \<and>
    (free, cl_claim_id c) \<in> set conflicts \<and> (\<forall>r\<in>set (cs_claims st). cl_claim_id r \<noteq> cl_claim_id c)"
proof -
  have wf: "claims_wf st" unfolding assms(1) by (rule claims_reachable)
  let ?st1 = "expire_locked (cl_acquired_at c) st"
  have "\<exists>rows'. insert_resources (cl_claim_id c) (sort resources) (cs_resources st) = (False, rows') \<and> map_of rows' free = Some (cl_claim_id c)"
    by (rule insert_resources_own [of _ free _ held]) (use assms in auto)
  then obtain rows where rows: "insert_resources (cl_claim_id c) (sort resources) (cs_resources st) = (False, rows)"
    and own: "map_of rows free = Some (cl_claim_id c)" by blast
  have ins: "insertable (c\<lparr>cl_claim_generation := n\<rparr>) ?st1" for n using assms(4) by (simp add: insertable_def live_def)
  have "resources \<noteq> []" using assms(6) by auto
  then have refused: "acquire c resources g st = (Inl (Resource_conflict (resource_conflicts resources rows)), st)"
    using assms(2,3,5) ins rows reclaim_all [OF expire_locked_wf [OF wf]] by (simp add: acquire_def Let_def)
  have "(free, cl_claim_id c) \<in> set (resource_conflicts resources rows)"
    using assms(6) own by (force simp: resource_conflicts_def)
  moreover have "\<forall>r\<in>set (cs_claims st). cl_claim_id r \<noteq> cl_claim_id c"
    using assms(4) wf by (auto simp: insertable_def expire_locked_claims claims_wf_def exclusive_def)
  ultimately show ?thesis using refused by blast
qed

theorem conflict_names_refused_claim_witness:
  "\<exists>conflicts. acquire (sample_claim ''c2'' ''o/r#2'' ''r2'' 5) [''area:x'', ''branch:b''] 1 (run claim_step sample_acquired new_claim_store) =
     (Inl (Resource_conflict conflicts), run claim_step sample_acquired new_claim_store) \<and> (''area:x'', ''c2'') \<in> set conflicts"
proof -
  have "\<exists>conflicts. acquire (sample_claim ''c2'' ''o/r#2'' ''r2'' 5) [''area:x'', ''branch:b''] 1 (run claim_step sample_acquired new_claim_store) =
     (Inl (Resource_conflict conflicts), run claim_step sample_acquired new_claim_store) \<and>
     (''area:x'', cl_claim_id (sample_claim ''c2'' ''o/r#2'' ''r2'' 5)) \<in> set conflicts \<and>
     (\<forall>r\<in>set (cs_claims (run claim_step sample_acquired new_claim_store)). cl_claim_id r \<noteq> cl_claim_id (sample_claim ''c2'' ''o/r#2'' ''r2'' 5))"
    by (rule conflict_names_refused_claim [OF refl, where held = "''branch:b''"]) (auto simp: sample_store less_char_def)
  then show ?thesis by (auto simp: sample_claim_def)
qed

end
