(* ===== verification/Preflight.thy ===== *)
theory Preflight
  imports Exec_Graph_Props Claim_Store
begin

text \<open>
  The pre-flight gate of the execution map, \<open>scripts/execution_map.py\<close>: the exclusive keys of a Run, the
  inventories of what is in use, \<open>preflight_validate\<close> over the graph and the claim store, the receipt and
  its single use, and the read projection. The path functions of \<open>os.path\<close>, which depend on the
  platform and the working directory, and \<open>str\<close> of a JSON value are parameters.
\<close>

record map_host =
  mh_lib :: hostlib
  mh_worktree :: "string \<Rightarrow> string"
  mh_str :: "json \<Rightarrow> string"

section \<open>Exclusive keys\<close>

definition run_id_ok :: "string \<Rightarrow> bool" where
  "run_id_ok s \<longleftrightarrow> s \<noteq> [] \<and> length s \<le> 128 \<and> (is_digit (hd s) \<or> is_lower (hd s) \<or> is_upper (hd s)) \<and> list_all id_char (tl s)"

definition collision_keys ::
    "map_host \<Rightarrow> string \<Rightarrow> string \<Rightarrow> string \<Rightarrow> string \<Rightarrow> string option \<Rightarrow> string option \<Rightarrow> string list option" where
  "collision_keys M issue_id run_id worktree label store_session engine_session =
     (case canonical_issue_id issue_id [] of
        None \<Rightarrow> None
      | Some issue \<Rightarrow>
          if \<not> run_id_ok run_id \<or> \<not> startswith label WORKFLOW_PREFIX then None
          else Some (sort ([''issue:'' @ issue, ''run:'' @ run_id, ''branch:work/'' @ run_id, ''worktree:'' @ mh_worktree M worktree,
              ''workflow_label:'' @ issue, ''label_state:'' @ issue @ '':'' @ label]
            @ (case store_session of None \<Rightarrow> [] | Some s \<Rightarrow> [''store_session:'' @ s])
            @ (case engine_session of None \<Rightarrow> [] | Some s \<Rightarrow> [''engine_session:'' @ s]))))"

definition claim_keys :: "map_host \<Rightarrow> claim_record \<Rightarrow> string list option" where
  "claim_keys M c = collision_keys M (cl_issue_id c) (cl_run_id c) (cl_worktree_path c) (cl_expected_workflow_label c)
     (cl_store_session_id c) (cl_engine_session_id c)"

section \<open>Inventories\<close>

definition INVENTORY_NAMES :: "(string \<times> string) list" where
  "INVENTORY_NAMES = [(''issue_id'', ''issue''), (''run_id'', ''run''), (''branch'', ''branch''), (''worktree'', ''worktree''),
     (''store_session_id'', ''store_session''), (''engine_session_id'', ''engine_session'')]"

definition named_keys :: "map_host \<Rightarrow> dict \<Rightarrow> json list" where
  "named_keys M value = concat (map (\<lambda>(name, prefix).
     if truthy (dget value name)
     then [JStr (prefix @ '':'' @ (if name = ''worktree'' then mh_worktree M (mh_str M (dget value name)) else mh_str M (dget value name)))]
     else []) INVENTORY_NAMES)"

definition inventory_step :: "map_host \<Rightarrow> string \<Rightarrow> json \<Rightarrow> string list \<times> string list \<Rightarrow> string list \<times> string list" where
  "inventory_step M source v = (\<lambda>(keys, errors). case v of
     JObj value \<Rightarrow>
       (let owner = or_else (dget value ''owner'') (dget value ''driver_id'');
            errors = errors @ (if truthy owner then [] else [''missing_owner'']);
            raw_keys = (case dget value ''resources'' of JNull \<Rightarrow> JList (named_keys M value) | r \<Rightarrow> r) in
        case raw_keys of
          JList xs \<Rightarrow>
            if list_all is_str xs
            then (keys @ map text_of xs, errors @ (if truthy (dget value ''stale'') \<or>
                py_eq (dget value ''state'') (JStr CLAIM_EXPIRED) then [''stale_unreconciled''] else []))
            else (keys, errors @ [''malformed_'' @ source])
        | _ \<Rightarrow> (keys, errors @ [''malformed_'' @ source]))
   | _ \<Rightarrow> (keys, errors @ [''malformed_'' @ source]))"

definition inventory_keys :: "map_host \<Rightarrow> string \<Rightarrow> json list \<Rightarrow> string list \<times> string list" where
  "inventory_keys M source records = fold (inventory_step M source) records ([], [])"

section \<open>The gate\<close>

record receipt =
  rt_id :: string
  rt_fingerprint :: string
  rt_claim_id :: string
  rt_claim_generation :: int
  rt_resources :: "string list"
  rt_run_id :: string
  rt_expires_at :: rat
  rt_decision :: string

record preflight_result =
  pr_decision :: string
  pr_codes :: "string list"
  pr_receipt :: "receipt option"
  pr_conflict :: "string option"

text \<open>What a call passes in, with the fresh claim id and whether the store can be read and written.\<close>

record preflight_call =
  pf_issue :: issue
  pf_graph :: graph
  pf_run_id :: string
  pf_worktree :: string
  pf_store_session :: "string option"
  pf_engine_id :: string
  pf_engine_session :: "string option"
  pf_driver_id :: string
  pf_workflow :: string
  pf_inventories :: "(string \<times> json list) list"
  pf_writers :: "dict list"
  pf_now :: rat
  pf_ttl :: rat
  pf_acquire :: bool
  pf_claim_id :: string
  pf_readable :: bool
  pf_writable :: bool

definition describe_conflict :: "(string \<times> string) list \<Rightarrow> string list \<Rightarrow> string option" where
  "describe_conflict conflicts keys =
     (let rendered = map (\<lambda>(key, claim_id). key @ '' (held by claim '' @ claim_id @ '')'') conflicts
            @ map (\<lambda>key. key @ '' (holder unknown)'') (sort (remdups keys)) in
      if rendered = [] then None else Some (''conflicting resource(s): '' @ join '', '' rendered))"

definition issue_ready :: "issue \<Rightarrow> bool" where
  "issue_ready x \<longleftrightarrow> is_state x = ''open'' \<and> filter (\<lambda>l. startswith l WORKFLOW_PREFIX) (is_labels x) = [''workflow:ready''] \<and>
     ''atlas:map'' \<notin> set (is_labels x)"

text \<open>Whether a prerequisite of the issue is unfinished: the scan stops at the first one, and raises
  \<open>KeyError\<close> at a source that is no issue.\<close>

fun unsatisfied :: "graph \<Rightarrow> string \<Rightarrow> edge list \<Rightarrow> bool option" where
  "unsatisfied g issue_id [] = Some False"
| "unsatisfied g issue_id (e # es) =
     (if ed_target e \<noteq> issue_id then unsatisfied g issue_id es
      else (case issue_by_id g (ed_source e) of
          None \<Rightarrow> None
        | Some x \<Rightarrow> if blocker_satisfied x then unsatisfied g issue_id es else Some True))"

text \<open>The owners of each writer domain.\<close>

definition writer_step :: "map_host \<Rightarrow> dict \<Rightarrow> string list \<times> (string \<times> string) list \<Rightarrow> string list \<times> (string \<times> string) list" where
  "writer_step M w = (\<lambda>(errors, owners).
     if truthy (dget w ''domain'') \<and> truthy (dget w ''owner'')
     then (errors, owners @ [(mh_str M (dget w ''domain''), mh_str M (dget w ''owner''))])
     else (errors @ [''missing_owner''], owners))"

definition writer_conflict :: "string \<Rightarrow> (string \<times> string) list \<Rightarrow> bool" where
  "writer_conflict driver_id owners \<longleftrightarrow> list_ex (\<lambda>(domain, owner). owner \<noteq> driver_id) owners"

definition text_json :: "string option \<Rightarrow> json" where
  "text_json v = (case v of None \<Rightarrow> JNull | Some s \<Rightarrow> JStr s)"

definition issue_json :: "issue \<Rightarrow> json" where
  "issue_json x = JObj [(''issue_id'', JStr (is_issue_id_of x)), (''body'', JStr (is_body x)), (''state'', JStr (is_state x)),
     (''labels'', JList (map JStr (is_labels x))), (''area'', text_json (is_area x)), (''milestone'', text_json (is_milestone x)),
     (''native_parent'', text_json (is_native_parent x)), (''native_prerequisites'', JList (map JStr (is_native_prerequisites x)))]"

definition drift_json :: "drift \<Rightarrow> json" where
  "drift_json d = JObj [(''code'', JStr (dr_code d)), (''issue_id'', JStr (dr_issue d)), (''edge_kind'', JStr (dr_kind d)),
     (''target'', JStr (dr_target d)), (''witness'', JList (map JStr (dr_witness d)))]"

definition preflight_snapshot :: "preflight_call \<Rightarrow> int \<Rightarrow> json" where
  "preflight_snapshot q generation = JObj [(''issue'', issue_json (pf_issue q)),
     (''graph_drift'', JList (map drift_json (gr_drift (pf_graph q)))),
     (''inventories'', JObj (map_vals JList (pf_inventories q))), (''writers'', JList (map JObj (pf_writers q))),
     (''generation'', JInt generation)]"

definition fingerprint :: "map_host \<Rightarrow> json \<Rightarrow> string" where
  "fingerprint M snapshot = sha256 (mh_lib M) (dumps (mh_lib M) True snapshot)"

definition reject :: "string list \<Rightarrow> string option \<Rightarrow> preflight_result" where
  "reject codes conflict = \<lparr>pr_decision = ''reject'', pr_codes = codes, pr_receipt = None, pr_conflict = conflict\<rparr>"

definition preflight_claim :: "map_host \<Rightarrow> preflight_call \<Rightarrow> claim_record" where
  "preflight_claim M q = \<lparr>cl_claim_version = 1, cl_claim_id = pf_claim_id q, cl_issue_id = is_issue_id_of (pf_issue q),
     cl_workflow = pf_workflow q, cl_run_id = pf_run_id q, cl_branch_ref = ''work/'' @ pf_run_id q,
     cl_worktree_path = mh_worktree M (pf_worktree q), cl_store_session_id = pf_store_session q, cl_engine_id = pf_engine_id q,
     cl_engine_session_id = pf_engine_session q, cl_driver_id = pf_driver_id q, cl_state = CLAIM_ACTIVE,
     cl_acquired_at = pf_now q, cl_heartbeat_at = pf_now q, cl_lease_expires_at = rnd (pf_now q + pf_ttl q),
     cl_released_at = None, cl_release_reason = None, cl_expected_workflow_label = ''workflow:ready'', cl_claim_generation = 0\<rparr>"

definition preflight_receipt :: "map_host \<Rightarrow> preflight_call \<Rightarrow> string list \<Rightarrow> int \<Rightarrow> claim_record \<Rightarrow> receipt" where
  "preflight_receipt M q resources generation c = \<lparr>
     rt_id = sha256 (mh_lib M) (pf_claim_id q @ '':'' @ pf_run_id q @ '':'' @ dec_int (cl_claim_generation c) @ '':''
       @ float_repr (mh_lib M) (pf_now q)),
     rt_fingerprint = fingerprint M (preflight_snapshot q generation), rt_claim_id = pf_claim_id q,
     rt_claim_generation = cl_claim_generation c, rt_resources = resources, rt_run_id = pf_run_id q,
     rt_expires_at = rnd (pf_now q + min (pf_ttl q) 30), rt_decision = ''allow''\<rparr>"

text \<open>The first checks, in the order in which their codes are collected.\<close>

definition issue_codes :: "preflight_call \<Rightarrow> bool \<Rightarrow> string list" where
  "issue_codes q blocked =
     (if issue_ready (pf_issue q) then [] else [''issue_not_ready'']) @
     (if is_issue_id_of (pf_issue q) \<in> set (gr_non_launchable (pf_graph q)) then [''fatal_relation_drift''] else []) @
     (if blocked then [''unsatisfied_prerequisite''] else [])"

definition inventory_parts :: "map_host \<Rightarrow> preflight_call \<Rightarrow> string list \<times> string list" where
  "inventory_parts M q = (let parts = map (\<lambda>(source, records). inventory_keys M source records) (sort_key fst (pf_inventories q)) in
     (concat (map fst parts), concat (map snd parts)))"

text \<open>The keys of the live claims with their claims; a claim whose keys cannot be formed raises.\<close>

definition owned_keys :: "map_host \<Rightarrow> claim_store \<Rightarrow> (string \<times> string) list option" where
  "owned_keys M st = (let parts = map (\<lambda>c. (claim_keys M c, cl_claim_id c)) (active_claims st) in
     if list_ex (\<lambda>(ks, c). ks = None) parts then None
     else Some (concat (map (\<lambda>(ks, c). map (\<lambda>k. (k, c)) (the ks)) parts)))"

datatype preflight_error = Preflight_value_error | Preflight_key_error

text \<open>Everything up to the acquire: an exception, an early answer, or the keys with the codes and the
  conflict found.\<close>

definition preflight_checks ::
    "map_host \<Rightarrow> preflight_call \<Rightarrow> claim_store \<Rightarrow> preflight_error + preflight_result + (string list \<times> string list \<times> string option)" where
  "preflight_checks M q st =
     (case unsatisfied (pf_graph q) (is_issue_id_of (pf_issue q)) (gr_prerequisites (pf_graph q)) of
        None \<Rightarrow> Inl Preflight_key_error
      | Some blocked \<Rightarrow> (case collision_keys M (is_issue_id_of (pf_issue q)) (pf_run_id q) (pf_worktree q) ''workflow:ready''
          (pf_store_session q) (pf_engine_session q) of
        None \<Rightarrow> Inr (Inl (reject [''malformed_request''] None))
      | Some resources \<Rightarrow>
          if \<not> pf_readable q then Inr (Inl (reject [''store_unavailable''] None))
          else (case owned_keys M st of
            None \<Rightarrow> Inl Preflight_value_error
          | Some held \<Rightarrow>
              (let (occupied, errors) = inventory_parts M q;
                   collided = sort (remdups (filter (\<lambda>k. k \<in> set occupied \<or> k \<in> fst ` set held) resources));
                   conflict = (if collided = [] then None else describe_conflict
                     (concat (map (\<lambda>k. case map_of held k of None \<Rightarrow> [] | Some c \<Rightarrow> [(k, c)]) collided))
                     (filter (\<lambda>k. map_of held k = None) collided));
                   (owner_errors, owners) = fold (writer_step M) (pf_writers q) ([], []) in
               Inr (Inr (resources, issue_codes q blocked @ errors @ (if collided = [] then [] else [''resource_collision''])
                 @ owner_errors @ (if writer_conflict (pf_driver_id q) owners then [''shared_store_writer_conflict''] else []),
                 conflict))))))"

definition preflight_acquire ::
    "map_host \<Rightarrow> preflight_call \<Rightarrow> string list \<Rightarrow> string option \<Rightarrow> claim_store \<Rightarrow> preflight_result \<times> claim_store" where
  "preflight_acquire M q resources conflict st =
     (if \<not> pf_writable q then (reject [''store_unavailable''] None, st)
      else (case acquire (preflight_claim M q) resources (cs_generation st) st of
          (Inl (Resource_conflict cs), st') \<Rightarrow> (reject [''resource_collision'']
             (case describe_conflict cs [] of None \<Rightarrow> conflict | d \<Rightarrow> d), st')
        | (Inl Generation_conflict, st') \<Rightarrow> (reject [''resource_collision''] conflict, st')
        | (Inl _, st') \<Rightarrow> (reject [''store_unavailable''] None, st')
        | (Inr c, st') \<Rightarrow> (\<lparr>pr_decision = ''allow'', pr_codes = [],
            pr_receipt = Some (preflight_receipt M q resources (cs_generation st) c), pr_conflict = None\<rparr>, st')))"

definition preflight_validate :: "map_host \<Rightarrow> preflight_call \<Rightarrow> claim_store \<Rightarrow> (preflight_error + preflight_result) \<times> claim_store" where
  "preflight_validate M q st = (case preflight_checks M q st of
     Inl e \<Rightarrow> (Inl e, st)
   | Inr (Inl r) \<Rightarrow> (Inr r, st)
   | Inr (Inr (resources, codes, conflict)) \<Rightarrow>
       if codes \<noteq> [] then (Inr (reject (sort (remdups codes)) conflict), st)
       else if \<not> pf_acquire q
         then (Inr \<lparr>pr_decision = ''validated_read_only'', pr_codes = [], pr_receipt = None, pr_conflict = conflict\<rparr>, st)
       else (case preflight_acquire M q resources conflict st of (r, st') \<Rightarrow> (Inr r, st')))"

section \<open>The receipt\<close>

record receipt_check =
  ck_receipt :: receipt
  ck_snapshot :: json
  ck_claim :: claim_record
  ck_resources :: "string list"
  ck_run_id :: string
  ck_now :: rat

definition receipt_valid :: "map_host \<Rightarrow> receipt_check \<Rightarrow> bool" where
  "receipt_valid M k \<longleftrightarrow> (let r = ck_receipt k in rt_decision r = ''allow'' \<and> ck_now k < rt_expires_at r \<and> rt_run_id r = ck_run_id k \<and>
     rt_claim_id r = cl_claim_id (ck_claim k) \<and> rt_claim_generation r = cl_claim_generation (ck_claim k) \<and>
     sort (ck_resources k) = rt_resources r \<and> fingerprint M (ck_snapshot k) = rt_fingerprint r)"

definition validate_receipt :: "map_host \<Rightarrow> receipt_check \<Rightarrow> claim_store \<Rightarrow> bool \<times> claim_store" where
  "validate_receipt M k st = (if receipt_valid M k then consume_receipt (rt_id (ck_receipt k)) st else (False, st))"

section \<open>The read projection\<close>

record issue_view =
  iv_id :: string
  iv_wave :: "nat option"
  iv_blockers :: "string list"
  iv_drift_codes :: "string list"
  iv_launchable :: bool

record claim_view =
  cv_claim_id :: string
  cv_issue_id :: string
  cv_run_id :: string
  cv_state :: string
  cv_lease_expires_at :: rat
  cv_driver_id :: string

record map_view =
  mv_role :: string
  mv_issues :: "issue_view list"
  mv_waves :: "string list list"
  mv_claims :: "claim_view list"
  mv_codes :: "string list"

text \<open>The wave of an issue; the last one counts if it had several.\<close>

fun wave_number :: "nat \<Rightarrow> string list list \<Rightarrow> string \<Rightarrow> nat option" where
  "wave_number n [] x = None"
| "wave_number n (w # ws) x = (case wave_number (Suc n) ws x of
     None \<Rightarrow> if x \<in> set w then Some n else None | Some m \<Rightarrow> Some m)"

definition view_issue :: "graph \<Rightarrow> string list list \<Rightarrow> issue \<Rightarrow> issue_view" where
  "view_issue g waves x = \<lparr>iv_id = is_issue_id_of x, iv_wave = wave_number 0 waves (is_issue_id_of x),
     iv_blockers = sort_key issue_sort_key (map fst (filter (\<lambda>(s, t). t = is_issue_id_of x) (pending_pairs g))),
     iv_drift_codes = sort (remdups (map dr_code (filter (\<lambda>d. dr_issue d = is_issue_id_of x) (gr_drift g)))),
     iv_launchable = (is_issue_id_of x \<notin> set (gr_non_launchable g))\<rparr>"

definition view_claim :: "claim_record \<Rightarrow> claim_view" where
  "view_claim c = \<lparr>cv_claim_id = cl_claim_id c, cv_issue_id = cl_issue_id c, cv_run_id = cl_run_id c, cv_state = cl_state c,
     cv_lease_expires_at = cl_lease_expires_at c, cv_driver_id = cl_driver_id c\<rparr>"

definition read_projection :: "graph \<Rightarrow> claim_record list \<Rightarrow> string list \<Rightarrow> string \<Rightarrow> map_view option" where
  "read_projection g claims codes role = (case topological_waves g of
     None \<Rightarrow> None
   | Some waves \<Rightarrow> Some \<lparr>mv_role = role, mv_issues = map (view_issue g waves) (gr_issues g), mv_waves = waves,
       mv_claims = map view_claim (sort_key (\<lambda>c. (issue_sort_key (cl_issue_id c), cl_claim_id c)) claims),
       mv_codes = sort (remdups codes)\<rparr>)"

section \<open>What the gate promises\<close>

lemma unsatisfied_False:
  "unsatisfied g i es = Some False \<Longrightarrow> e \<in> set es \<Longrightarrow> ed_target e = i \<Longrightarrow> \<not> pending_edge g e"
  by (induction g i es rule: unsatisfied.induct)
    (auto simp: pending_edge_def split: if_split_asm option.split_asm)

lemma sort_remdups_Nil: "sort (remdups xs) = [] \<longleftrightarrow> xs = []"
  by (metis set_empty set_remdups set_sort)

lemma checks_pass:
  assumes "preflight_checks M q st = Inr (Inr (resources, [], conflict))"
  shows "unsatisfied (pf_graph q) (is_issue_id_of (pf_issue q)) (gr_prerequisites (pf_graph q)) = Some False"
    "issue_ready (pf_issue q)" "is_issue_id_of (pf_issue q) \<notin> set (gr_non_launchable (pf_graph q))"
    "collision_keys M (is_issue_id_of (pf_issue q)) (pf_run_id q) (pf_worktree q) ''workflow:ready''
       (pf_store_session q) (pf_engine_session q) = Some resources"
    "\<exists>held. owned_keys M st = Some held \<and> set resources \<inter> (set (fst (inventory_parts M q)) \<union> fst ` set held) = {}"
    "snd (inventory_parts M q) = []" "conflict = None"
proof -
  obtain blocked where b: "unsatisfied (pf_graph q) (is_issue_id_of (pf_issue q)) (gr_prerequisites (pf_graph q)) = Some blocked"
    using assms by (auto simp: preflight_checks_def split: option.split_asm)
  obtain rs where k: "collision_keys M (is_issue_id_of (pf_issue q)) (pf_run_id q) (pf_worktree q) ''workflow:ready''
       (pf_store_session q) (pf_engine_session q) = Some rs"
    using assms by (auto simp: preflight_checks_def b split: option.split_asm)
  obtain occupied errors where parts: "inventory_parts M q = (occupied, errors)" by (cases "inventory_parts M q")
  obtain owner_errors owners where w: "fold (writer_step M) (pf_writers q) ([], []) = (owner_errors, owners)"
    by (cases "fold (writer_step M) (pf_writers q) ([], [])")
  obtain held where h: "owned_keys M st = Some held" and rd: "pf_readable q"
    using assms by (auto simp: preflight_checks_def b k split: option.split_asm if_split_asm)
  note step = assms [unfolded preflight_checks_def b k h option.case parts w prod.case Let_def]
  have all: "rs = resources" "issue_codes q blocked = []" "errors = []" "conflict = None"
    "filter (\<lambda>k. k \<in> set occupied \<or> k \<in> fst ` set held) rs = []"
    using step rd by (auto simp: sort_remdups_Nil split: if_split_asm)
  show "collision_keys M (is_issue_id_of (pf_issue q)) (pf_run_id q) (pf_worktree q) ''workflow:ready''
       (pf_store_session q) (pf_engine_session q) = Some resources" using k all(1) by simp
  show "conflict = None" "snd (inventory_parts M q) = []" using all parts by simp_all
  have "\<not> blocked" "issue_ready (pf_issue q)" "is_issue_id_of (pf_issue q) \<notin> set (gr_non_launchable (pf_graph q))"
    using all(2) by (auto simp: issue_codes_def split: if_split_asm)
  then show "unsatisfied (pf_graph q) (is_issue_id_of (pf_issue q)) (gr_prerequisites (pf_graph q)) = Some False"
    "issue_ready (pf_issue q)" "is_issue_id_of (pf_issue q) \<notin> set (gr_non_launchable (pf_graph q))" using b by simp_all
  show "\<exists>held. owned_keys M st = Some held \<and> set resources \<inter> (set (fst (inventory_parts M q)) \<union> fst ` set held) = {}"
    using h all(1,5) parts by (auto simp: filter_empty_conv)
qed

text \<open>An allowed call passed the checks and made its acquire; any other call leaves the store as it was.\<close>

lemma acquire_step: "preflight_acquire M q resources conflict st = (r, st') \<Longrightarrow>
    (pr_decision r \<noteq> ''allow'' \<and> st' = st) \<or>
    (\<exists>c. acquire (preflight_claim M q) resources (cs_generation st) st = (Inr c, st') \<and>
       r = \<lparr>pr_decision = ''allow'', pr_codes = [], pr_receipt = Some (preflight_receipt M q resources (cs_generation st) c), pr_conflict = None\<rparr>)"
  using acquire_Inl [of "preflight_claim M q" resources "cs_generation st" st]
  by (cases "acquire (preflight_claim M q) resources (cs_generation st) st"; cases "fst (acquire (preflight_claim M q) resources (cs_generation st) st)")
    (auto simp: preflight_acquire_def reject_def split: if_split_asm claim_error.split_asm)

lemma preflight_cases:
  assumes "preflight_validate M q st = (x, st')"
  shows "(st' = st \<and> (\<forall>r. x = Inr r \<longrightarrow> pr_decision r \<noteq> ''allow'')) \<or>
    (\<exists>resources c. preflight_checks M q st = Inr (Inr (resources, [], None)) \<and> pf_acquire q \<and>
       acquire (preflight_claim M q) resources (cs_generation st) st = (Inr c, st') \<and>
       x = Inr \<lparr>pr_decision = ''allow'', pr_codes = [], pr_receipt = Some (preflight_receipt M q resources (cs_generation st) c), pr_conflict = None\<rparr>)"
proof -
  have early: "preflight_checks M q st = Inr (Inl r) \<Longrightarrow> pr_decision r \<noteq> ''allow''" for r
    by (auto simp: preflight_checks_def reject_def Let_def split: option.split_asm if_split_asm prod.split_asm)
  show ?thesis
  proof (cases "preflight_checks M q st")
    case (Inl e)
    then show ?thesis using assms by (auto simp: preflight_validate_def)
  next
    case (Inr y)
    show ?thesis
    proof (cases y)
      case (Inl r)
      then show ?thesis using assms Inr early by (auto simp: preflight_validate_def)
    next
      case (Inr z)
      obtain resources codes conflict where z: "z = (resources, codes, conflict)" by (cases z)
      have checks: "preflight_checks M q st = Inr (Inr (resources, codes, conflict))" using \<open>preflight_checks M q st = Inr y\<close> Inr z by simp
      show ?thesis
      proof (cases "codes = [] \<and> pf_acquire q")
        case True
        obtain r where acq: "preflight_acquire M q resources conflict st = (r, st')" and x: "x = Inr r"
          using assms checks True by (auto simp: preflight_validate_def split: prod.split_asm)
        have none: "conflict = None" using checks_pass(7) [of M q st resources conflict] checks True by simp
        show ?thesis using acquire_step [OF acq] checks True x none by auto
      next
        case False
        then show ?thesis using assms checks by (auto simp: preflight_validate_def reject_def split: if_split_asm)
      qed
    qed
  qed
qed

section \<open>Histories of the map\<close>

datatype map_op = Claim_op claim_op | Preflight preflight_call | Receipt receipt_check

fun map_step :: "map_host \<Rightarrow> map_op \<Rightarrow> claim_store \<Rightarrow> claim_store" where
  "map_step M (Claim_op q) st = claim_step q st"
| "map_step M (Preflight q) st = snd (preflight_validate M q st)"
| "map_step M (Receipt k) st = snd (validate_receipt M k st)"

lemma preflight_wf: "claims_wf st \<Longrightarrow> claims_wf (snd (preflight_validate M q st))"
  using preflight_cases [of M q st "fst (preflight_validate M q st)" "snd (preflight_validate M q st)"]
    acquire_Inr [of "preflight_claim M q" _ "cs_generation st" st] by auto

lemma map_step_wf: "claims_wf st \<Longrightarrow> claims_wf (map_step M q st)"
  by (cases q) (simp_all add: claim_step_wf preflight_wf validate_receipt_def consume_wf)

interpretation map_claims: invariant_machine "map_step M" claims_wf "\<lambda>_. True" for M
  by unfold_locales (rule map_step_wf)

lemma map_reachable: "claims_wf (run (map_step M) qs new_claim_store)"
  by (rule map_claims.run_inv [OF new_claim_store_wf]) (simp add: list_all_iff)

text \<open>Receipts that were used stay used.\<close>

definition used_receipt :: "claim_store \<Rightarrow> string option \<Rightarrow> unit option" where
  "used_receipt st k = (case k of None \<Rightarrow> None | Some i \<Rightarrow> if i \<in> set (cs_receipts st) then Some () else None)"

fun receipt_token :: "map_op \<Rightarrow> string option" where
  "receipt_token (Receipt k) = Some (rt_id (ck_receipt k))"
| "receipt_token _ = None"

fun accepts_receipt :: "map_host \<Rightarrow> map_op \<Rightarrow> claim_store \<Rightarrow> bool" where
  "accepts_receipt M (Receipt k) st = fst (validate_receipt M k st)"
| "accepts_receipt M _ st = False"

lemma acquire_receipts: "cs_receipts (snd (acquire c resources g st)) = cs_receipts st"
  by (simp add: acquire_def Let_def split: prod.split bool.split)

lemma transition_receipts: "cs_receipts (snd (transition c run_id driver g event now d f st)) = cs_receipts st"
  by (simp add: transition_def Let_def split: option.split)

lemma claim_step_receipts: "set (cs_receipts st) \<subseteq> set (cs_receipts (claim_step q st))"
proof (cases q)
  case (Bind c r d g s now)
  then show ?thesis by (auto simp: bind_engine_session_def transition_receipts split: option.split)
qed (auto simp: acquire_receipts transition_receipts claim_heartbeat_def release_def expire_leases_def consume_receipt_def)

lemma map_step_receipts: "set (cs_receipts st) \<subseteq> set (cs_receipts (map_step M q st))"
proof (cases q)
  case (Preflight p)
  have "cs_receipts (snd (preflight_validate M p st)) = cs_receipts st"
    using preflight_cases [of M p st "fst (preflight_validate M p st)" "snd (preflight_validate M p st)"]
      acquire_receipts [of "preflight_claim M p" _ "cs_generation st" st] by (auto, metis snd_conv)
  then show ?thesis using Preflight by simp
qed (use claim_step_receipts in \<open>auto simp: validate_receipt_def consume_receipt_def\<close>)

interpretation receipts: one_shot_gate "map_step M" used_receipt "accepts_receipt M" receipt_token for M
proof
  fix st k v q assume "used_receipt st k = Some v"
  then show "used_receipt (map_step M q st) k = Some v"
    using map_step_receipts [of st M q] by (auto simp: used_receipt_def split: option.splits if_split_asm)
next
  fix q st assume "accepts_receipt M q st"
  then show "used_receipt (map_step M q st) (receipt_token q) \<noteq> None"
    by (cases q) (auto simp: used_receipt_def validate_receipt_def consume_receipt_def split: if_split_asm)
next
  fix st q assume "used_receipt st (receipt_token q) \<noteq> None"
  then show "\<not> accepts_receipt M q st"
    by (cases q) (auto simp: used_receipt_def validate_receipt_def consume_receipt_def split: if_split_asm)
qed

text \<open>An active claim whose lease is over makes every acquire miss its generation.\<close>

lemma lapsed_generation:
  assumes "r \<in> set (cs_claims st)" "cl_state r = CLAIM_ACTIVE" "cl_lease_expires_at r \<le> now"
  shows "cs_generation st < cs_generation (expire_locked now st)"
proof -
  have "filter (\<lambda>r. cl_state r = CLAIM_ACTIVE \<and> cl_lease_expires_at r \<le> now) (cs_claims st) \<noteq> []"
    using assms by (auto simp: filter_empty_conv)
  then show ?thesis by (simp add: expire_locked_def expire_fold)
qed

lemma lapsed_refused:
  assumes "claims_wf st" "r \<in> set (cs_claims st)" "cl_state r = CLAIM_ACTIVE" "cl_lease_expires_at r \<le> pf_now q"
  shows "snd (preflight_validate M q st) = st \<and> (\<forall>x. fst (preflight_validate M q st) = Inr x \<longrightarrow> pr_decision x \<noteq> ''allow'')"
proof -
  have no: "acquire (preflight_claim M q) resources (cs_generation st) st \<noteq> (Inr c, st')" for resources c st'
    using acquire_Inr [OF _ assms(1), of "preflight_claim M q" resources "cs_generation st" c st']
      lapsed_generation [OF assms(2,3,4)] by (auto simp: preflight_claim_def)
  show ?thesis
    using preflight_cases [of M q st "fst (preflight_validate M q st)" "snd (preflight_validate M q st)", OF prod.collapse [symmetric]] no
    by (elim disjE exE conjE) simp_all
qed

section \<open>The theorems\<close>

text \<open>The keys of a new claim are the keys that were asked for.\<close>

lemma acquire_keys:
  assumes "acquire c resources g st = (Inr row, st')" "claims_wf st"
  shows "(k, cl_claim_id c) \<in> set (cs_resources st') \<longleftrightarrow> k \<in> set resources"
proof -
  note ok = acquire_Inr [OF assms]
  have "(k, cl_claim_id c) \<notin> set (cs_resources st)"
  proof
    assume "(k, cl_claim_id c) \<in> set (cs_resources st)"
    then obtain d where "d \<in> set (cs_claims st)" "cl_claim_id d = cl_claim_id c"
      using exclusive_parts(3) [of "cs_claims st" "cs_resources st" k "cl_claim_id c"] assms(2) by (auto simp: claims_wf_def)
    moreover have "insertable c (expire_locked (cl_acquired_at c) st)" using ok by blast
    ultimately show False
      using assms(2) by (force simp: insertable_def expire_locked_claims claims_wf_def exclusive_def)
  qed
  then show ?thesis using ok by auto
qed

text \<open>C9: What an allowed pre-flight stands for. The issue is open and ready, is launchable, and every
  prerequisite of it is finished; the answer is backed by a live claim of the issue and the Run that holds
  exactly the keys of the request, none of which was held before, beside no other live claim of the issue
  or the Run; and the receipt is bound to that claim.\<close>

theorem preflight_allow_is_exclusive:
  assumes "st = run (map_step M) qs new_claim_store" "preflight_validate M q st = (Inr r, st')" "pr_decision r = ''allow''"
  shows "is_state (pf_issue q) = ''open'' \<and> ''atlas:map'' \<notin> set (is_labels (pf_issue q)) \<and>
    filter (\<lambda>l. startswith l ''workflow:'') (is_labels (pf_issue q)) = [''workflow:ready''] \<and> is_issue_id_of (pf_issue q) \<notin> set (gr_non_launchable (pf_graph q)) \<and>
    (\<forall>e\<in>set (gr_prerequisites (pf_graph q)). ed_target e = is_issue_id_of (pf_issue q) \<longrightarrow> \<not> pending_edge (pf_graph q) e) \<and>
    (\<exists>c keys t. c \<in> set (cs_claims st') \<and> live c \<and> cl_issue_id c = is_issue_id_of (pf_issue q) \<and> cl_run_id c = pf_run_id q \<and>
       collision_keys M (is_issue_id_of (pf_issue q)) (pf_run_id q) (pf_worktree q) ''workflow:ready''
         (pf_store_session q) (pf_engine_session q) = Some keys \<and>
       (\<forall>k. (k, cl_claim_id c) \<in> set (cs_resources st') \<longleftrightarrow> k \<in> set keys) \<and>
       set keys \<inter> fst ` set (cs_resources st) = {} \<and>
       (\<forall>d\<in>set (cs_claims st'). live d \<and> (cl_issue_id d = cl_issue_id c \<or> cl_run_id d = cl_run_id c) \<longrightarrow> d = c) \<and>
       pr_receipt r = Some t \<and> rt_claim_id t = cl_claim_id c \<and> rt_claim_generation t = cl_claim_generation c \<and>
       rt_run_id t = pf_run_id q \<and> rt_resources t = keys)"
proof -
  have wf: "claims_wf st" unfolding assms(1) by (rule map_reachable)
  obtain keys c where checks: "preflight_checks M q st = Inr (Inr (keys, [], None))"
    and acq: "acquire (preflight_claim M q) keys (cs_generation st) st = (Inr c, st')"
    and r: "pr_receipt r = Some (preflight_receipt M q keys (cs_generation st) c)"
    using preflight_cases [OF assms(2)] assms(3) by auto
  note ok = acquire_Inr [OF acq wf] and pass = checks_pass [OF checks]
  have c: "c = (preflight_claim M q)\<lparr>cl_claim_generation := cs_generation st + 1\<rparr>" using ok by blast
  let ?t = "preflight_receipt M q keys (cs_generation st) c"
  have fields: "cl_issue_id c = is_issue_id_of (pf_issue q)" "cl_run_id c = pf_run_id q" "live c"
    by (simp_all add: c preflight_claim_def live_def ACTIVE_STATES_def)
  have here: "c \<in> set (cs_claims st')" using ok by simp
  have keys: "\<forall>k. (k, cl_claim_id c) \<in> set (cs_resources st') \<longleftrightarrow> k \<in> set keys" using acquire_keys [OF acq wf] by (simp add: c)
  have "claims_wf st'" using ok by blast
  then have ex: "exclusive (cs_claims st') (cs_resources st')" by (simp add: claims_wf_def)
  have only: "\<forall>d\<in>set (cs_claims st'). live d \<and> (cl_issue_id d = cl_issue_id c \<or> cl_run_id d = cl_run_id c) \<longrightarrow> d = c"
    using exclusive_parts(4) [OF ex _ here _ fields(3)] exclusive_unique [OF ex _ here] by blast
  have free: "set keys \<inter> fst ` set (cs_resources st) = {}" using ok by blast
  have receipt: "rt_claim_id ?t = cl_claim_id c" "rt_claim_generation ?t = cl_claim_generation c"
    "rt_run_id ?t = pf_run_id q" "rt_resources ?t = keys"
    by (simp_all add: preflight_receipt_def c preflight_claim_def)
  have "\<forall>e\<in>set (gr_prerequisites (pf_graph q)). ed_target e = is_issue_id_of (pf_issue q) \<longrightarrow> \<not> pending_edge (pf_graph q) e"
    using unsatisfied_False [OF pass(1)] by blast
  moreover have "is_state (pf_issue q) = ''open''" "''atlas:map'' \<notin> set (is_labels (pf_issue q))"
    "filter (\<lambda>l. startswith l ''workflow:'') (is_labels (pf_issue q)) = [''workflow:ready'']"
    using pass(2) unfolding issue_ready_def WORKFLOW_PREFIX_def by blast+
  ultimately show ?thesis
    by (intro conjI pass(3) exI [of _ c] exI [of _ keys] exI [of _ ?t] here fields keys only free receipt r pass(4))
qed

text \<open>C11: A receipt is accepted at most once, whatever operations of the map lie between.\<close>

theorem receipt_accepted_once:
  assumes "fst (validate_receipt M k (run (map_step M) qs new_claim_store))" "rt_id (ck_receipt k') = rt_id (ck_receipt k)"
  shows "\<not> fst (validate_receipt M k' (run (map_step M) (qs @ Receipt k # rs) new_claim_store))"
  using receipts.replay_refused [where M = M and q = "Receipt k" and r = "Receipt k'" and qs = rs
      and s = "run (map_step M) qs new_claim_store"] assms
  by (simp add: run_append)

text \<open>C10: While an active claim is past its lease nobody can launch anything: each pre-flight, of whatever issue,
  expires the claim inside its transaction, finds that the generation is not the one it read, is refused as a
  resource collision and rolls the expiry back, so the next one meets the same claim.\<close>

theorem lapsed_claim_blocks_the_map:
  assumes "st = run (map_step M) qs new_claim_store" "r \<in> set (cs_claims st)" "cl_state r = CLAIM_ACTIVE"
    and "list_all (\<lambda>p. cl_lease_expires_at r \<le> pf_now p) (q # ps)"
  shows "run (map_step M) (map Preflight ps) st = st \<and>
    (\<forall>x. fst (preflight_validate M q (run (map_step M) (map Preflight ps) st)) = Inr x \<longrightarrow> pr_decision x \<noteq> ''allow'')"
proof -
  have wf: "claims_wf st" unfolding assms(1) by (rule map_reachable)
  have "list_all (\<lambda>p. cl_lease_expires_at r \<le> pf_now p) ps \<Longrightarrow> run (map_step M) (map Preflight ps) st = st"
    by (induction ps) (simp_all add: lapsed_refused [OF wf assms(2,3)])
  then show ?thesis using lapsed_refused [OF wf assms(2,3), of q] assms(4) by simp
qed

section \<open>Witnesses\<close>

definition sample_map_host :: map_host where
  "sample_map_host = \<lparr>mh_lib = sample_lib, mh_worktree = (\<lambda>p. p), mh_str = text_of\<rparr>"

definition sample_graph :: graph where
  "sample_graph = \<lparr>gr_issues = [sample_issue ''1'' [] [], sample_issue ''2'' [] []], gr_containment = [],
     gr_prerequisites = [], gr_drift = [], gr_non_launchable = []\<rparr>"

definition sample_preflight :: "string \<Rightarrow> rat \<Rightarrow> preflight_call" where
  "sample_preflight n t = \<lparr>pf_issue = sample_issue n [] [], pf_graph = sample_graph, pf_run_id = ''run'' @ n,
     pf_worktree = ''wt'' @ n, pf_store_session = None, pf_engine_id = ''e'', pf_engine_session = None,
     pf_driver_id = ''d'', pf_workflow = ''feature'', pf_inventories = [], pf_writers = [], pf_now = t, pf_ttl = 20,
     pf_acquire = True, pf_claim_id = ''c'' @ n, pf_readable = True, pf_writable = True\<rparr>"

definition sample_started :: "map_op list" where
  "sample_started = [Preflight (sample_preflight ''1'' 0)]"

definition sample_check :: receipt_check where
  "sample_check = (let q = sample_preflight ''1'' 0; c = (preflight_claim sample_map_host q)\<lparr>cl_claim_generation := 1\<rparr>;
       keys = the (claim_keys sample_map_host c) in
     \<lparr>ck_receipt = preflight_receipt sample_map_host q keys 0 c, ck_snapshot = preflight_snapshot q 0, ck_claim = c,
      ck_resources = keys, ck_run_id = ''run1'', ck_now = 5\<rparr>)"

theorem preflight_allow_is_exclusive_witness:
  "\<exists>r. fst (preflight_validate sample_map_host (sample_preflight ''1'' 0) new_claim_store) = Inr r \<and>
     (\<exists>t. pr_receipt r = Some t \<and> rt_run_id t = pf_run_id (sample_preflight ''1'' 0))"
proof -
  have "(case fst (preflight_validate sample_map_host (sample_preflight ''1'' 0) new_claim_store) of
      Inl e \<Rightarrow> False | Inr r \<Rightarrow> pr_decision r = ''allow'')" by code_simp
  then obtain r where r: "fst (preflight_validate sample_map_host (sample_preflight ''1'' 0) new_claim_store) = Inr r"
    "pr_decision r = ''allow''" by (auto split: sum.split_asm)
  from preflight_allow_is_exclusive [where qs = "[]", OF _ fst_Inr [OF r(1)] r(2)] show ?thesis using r(1) by auto
qed

theorem receipt_accepted_once_witness:
  "\<not> fst (validate_receipt sample_map_host sample_check
      (run (map_step sample_map_host) (sample_started @ Receipt sample_check # []) new_claim_store))"
proof (rule receipt_accepted_once)
  show "fst (validate_receipt sample_map_host sample_check (run (map_step sample_map_host) sample_started new_claim_store))"
    by code_simp
qed simp

theorem lapsed_claim_blocks_the_map_witness:
  "(case fst (preflight_validate sample_map_host (sample_preflight ''2'' 30)
      (run (map_step sample_map_host) (map Preflight [sample_preflight ''2'' 25])
        (run (map_step sample_map_host) sample_started new_claim_store))) of
      Inl e \<Rightarrow> True | Inr x \<Rightarrow> pr_decision x \<noteq> ''allow'')"
proof -
  let ?st = "run (map_step sample_map_host) sample_started new_claim_store"
  have "(case cs_claims ?st of [r] \<Rightarrow> cl_state r = CLAIM_ACTIVE \<and> cl_lease_expires_at r = 20 | _ \<Rightarrow> False)" by code_simp
  then obtain r where r: "r \<in> set (cs_claims ?st)" "cl_state r = CLAIM_ACTIVE" "cl_lease_expires_at r = 20"
    by (auto split: list.split_asm)
  show ?thesis
    using lapsed_claim_blocks_the_map [OF refl r(1,2), of "sample_preflight ''2'' 30" "[sample_preflight ''2'' 25]"] r(3)
    by (auto simp: sample_preflight_def split: sum.split)
qed

end
