(* ===== verification/Run_Lifecycle.thy ===== *)
theory Run_Lifecycle
  imports Mandate_Guarantees Review_Submission
begin

text \<open>
  The mandate-bound Runs of the MCP server, \<open>cortxt_mcp/run_lifecycle.py\<close>: a Run is a session whose
  creation names a \<open>run_id\<close>, followed by the events \<open>run.created\<close>, \<open>run.running\<close>, \<open>run.engine_turn\<close>
  and \<open>run.review_submitted\<close>. The state is the session store; an operation returns its result or
  exception, what it asked of an engine, and the store left behind. Engine adapters, the clock,
  \<open>uuid4\<close> and failing writes are arguments. Stored documents may be foreign: a value of the wrong
  type raises what Python raises there. Messages are left out.
\<close>

section \<open>Errors\<close>

text \<open>\<open>RunLifecycleError\<close> with its code and run id, \<open>InvalidArgumentsError\<close>, an exception of the session store
  and any other Python exception by its class.\<close>

datatype life_error =
    Lifecycle (life_code: string) (life_run: "string option")
  | Invalid_arguments
  | Store_error session_error
  | Python string

definition CODE_RUN_NOT_FOUND :: string where "CODE_RUN_NOT_FOUND = ''run_not_found''"
definition CODE_ISSUE_REF_MISMATCH :: string where "CODE_ISSUE_REF_MISMATCH = ''issue_ref_mismatch''"
definition CODE_CLAIM_CONFLICT :: string where "CODE_CLAIM_CONFLICT = ''claim_conflict''"
definition CODE_RUN_NOT_RESUMABLE :: string where "CODE_RUN_NOT_RESUMABLE = ''run_not_resumable''"
definition CODE_SESSION_ID_UNAVAILABLE :: string where "CODE_SESSION_ID_UNAVAILABLE = ''session_id_unavailable''"
definition CODE_ENGINE_NOT_REGISTERED :: string where "CODE_ENGINE_NOT_REGISTERED = ''engine_not_registered''"
definition CODE_ADAPTER_FAILED :: string where "CODE_ADAPTER_FAILED = ''adapter_failed''"
definition CODE_RESULT_CORRELATION_MISMATCH :: string where
  "CODE_RESULT_CORRELATION_MISMATCH = ''result_correlation_mismatch''"
definition CODE_IDEMPOTENCY_CONFLICT :: string where "CODE_IDEMPOTENCY_CONFLICT = ''idempotency_conflict''"
definition CODE_LIFECYCLE_NOT_CONFIGURED :: string where "CODE_LIFECYCLE_NOT_CONFIGURED = ''lifecycle_not_configured''"

definition TERMINAL_STATUSES :: "string list" where
  "TERMINAL_STATUSES = [''succeeded'', ''failed'', ''timed_out'', ''budget_exceeded'', ''blocked'', ''cancelled'']"

definition RESUMABLE_LAST_STATUSES :: "string list" where
  "RESUMABLE_LAST_STATUSES = [''blocked'', ''failed'', ''timed_out'']"

section \<open>Schemas\<close>

definition ref_char :: "char \<Rightarrow> bool" where
  "ref_char c \<longleftrightarrow> is_digit c \<or> is_lower c \<or> is_upper c \<or> c \<in> set ''_.-''"

text \<open>\<open>ISSUE_REF_RE\<close> and \<open>RUN_ID_RE\<close>, used with \<open>fullmatch\<close>.\<close>

definition issue_ref_re :: "string \<Rightarrow> bool" where
  "issue_ref_re s \<longleftrightarrow> takeWhile ref_char s \<noteq> [] \<and> (case dropWhile ref_char s of
     c # r \<Rightarrow> c = CHR ''/'' \<and> takeWhile ref_char r \<noteq> [] \<and> (case dropWhile ref_char r of
        d # n \<Rightarrow> d = CHR ''#'' \<and> n \<noteq> [] \<and> list_all is_digit n
      | [] \<Rightarrow> False)
   | [] \<Rightarrow> False)"

definition life_run_id_re :: "string \<Rightarrow> bool" where
  "life_run_id_re s \<longleftrightarrow> length s = 25 \<and> list_all is_digit (take 8 s) \<and> take 1 (drop 8 s) = ''T'' \<and>
     list_all is_digit (take 6 (drop 9 s)) \<and> take 2 (drop 15 s) = ''Z_'' \<and> hex_run 8 (drop 17 s)"

text \<open>The same pattern with \<open>re.search\<close>: its \<open>$\<close> also matches before a final line break.\<close>

definition run_id_search :: "string \<Rightarrow> bool" where
  "run_id_search s \<longleftrightarrow> life_run_id_re (if s \<noteq> [] \<and> last s = CHR 0x0A then butlast s else s)"

record prop_schema =
  ps_types :: "string list"
  ps_min_length :: "nat option"
  ps_min_items :: "nat option"
  ps_string_items :: bool
  ps_minimum :: "int option"
  ps_run_id :: bool
  ps_enum :: "string list option"

record tool_schema =
  ts_properties :: "(string \<times> prop_schema) list"
  ts_required :: "string list"

definition of_types :: "string list \<Rightarrow> prop_schema" where
  "of_types ts = \<lparr>ps_types = ts, ps_min_length = None, ps_min_items = None, ps_string_items = False, ps_minimum = None,
     ps_run_id = False, ps_enum = None\<rparr>"

definition p_string :: prop_schema where "p_string = of_types [''string'']"
definition p_text :: prop_schema where "p_text = p_string\<lparr>ps_min_length := Some 1\<rparr>"
definition p_nullable :: prop_schema where "p_nullable = of_types [''string'', ''null'']"
definition p_object :: prop_schema where "p_object = of_types [''object'']"
definition p_run_id :: prop_schema where "p_run_id = p_string\<lparr>ps_run_id := True\<rparr>"
definition p_integer :: "int \<Rightarrow> prop_schema" where "p_integer n = (of_types [''integer''])\<lparr>ps_minimum := Some n\<rparr>"
definition p_number :: "int \<Rightarrow> prop_schema" where "p_number n = (of_types [''number''])\<lparr>ps_minimum := Some n\<rparr>"

definition CREATE_SCHEMA :: tool_schema where
  "CREATE_SCHEMA = \<lparr>ts_properties =
     [(''issue_ref'', p_string), (''task_id'', p_string), (''workflow'', p_string), (''worker_role'', p_string),
      (''scope'', p_text),
      (''acceptance_criteria'', (of_types [''array''])\<lparr>ps_string_items := True, ps_min_items := Some 1\<rparr>),
      (''engine_id'', p_string), (''profile'', p_string), (''max_runtime_seconds'', p_integer 1),
      (''max_cost_usd'', p_number 0), (''max_parallel_workers'', p_integer 1), (''delegation_depth'', p_integer 0),
      (''artifact_policy'', p_object), (''approval_ref'', p_string), (''data_class'', p_string),
      (''estimated_cost_usd'', p_number 0), (''prompt'', p_text), (''model'', p_nullable), (''provider'', p_nullable),
      (''worktree'', p_nullable)],
     ts_required = [''issue_ref'', ''task_id'', ''workflow'', ''worker_role'', ''scope'', ''acceptance_criteria'', ''engine_id'',
      ''profile'', ''max_runtime_seconds'', ''max_cost_usd'', ''max_parallel_workers'', ''delegation_depth'',
      ''artifact_policy'', ''approval_ref'', ''data_class'', ''estimated_cost_usd'', ''prompt'']\<rparr>"

definition RESUME_SCHEMA :: tool_schema where
  "RESUME_SCHEMA = \<lparr>ts_properties =
     [(''run_id'', p_run_id), (''issue_ref'', p_string), (''prompt'', p_text), (''max_runtime_seconds'', p_integer 1),
      (''data_class'', p_string), (''estimated_cost_usd'', p_number 0), (''model'', p_nullable), (''provider'', p_nullable)],
     ts_required = [''run_id'', ''issue_ref'', ''prompt'', ''max_runtime_seconds'', ''data_class'', ''estimated_cost_usd'']\<rparr>"

definition REVIEW_SCHEMA :: tool_schema where
  "REVIEW_SCHEMA = \<lparr>ts_properties =
     [(''run_id'', p_run_id), (''issue_ref'', p_string), (''result'', p_object),
      (''review_kind'', p_string\<lparr>ps_enum := Some [''independent'']\<rparr>), (''idempotency_key'', p_text),
      (''data_class'', p_string), (''estimated_cost_usd'', p_number 0), (''max_runtime_seconds'', p_integer 0)],
     ts_required = [''run_id'', ''issue_ref'', ''result'', ''review_kind'', ''idempotency_key'', ''data_class'']\<rparr>"

definition STATUS_SCHEMA :: tool_schema where
  "STATUS_SCHEMA = \<lparr>ts_properties = [(''run_id'', p_run_id), (''issue_ref'', p_string)], ts_required = [''run_id'']\<rparr>"

definition RUN_CREATE :: string where "RUN_CREATE = ''cortxt_run_create''"
definition RUN_RESUME :: string where "RUN_RESUME = ''cortxt_run_resume''"
definition RUN_SUBMIT :: string where "RUN_SUBMIT = ''cortxt_run_submit_for_review''"
definition RUN_STATUS :: string where "RUN_STATUS = ''cortxt_run_status''"

definition TOOL_SCHEMAS :: "(string \<times> tool_schema) list" where
  "TOOL_SCHEMAS = [(RUN_CREATE, CREATE_SCHEMA), (RUN_RESUME, RESUME_SCHEMA), (RUN_SUBMIT, REVIEW_SCHEMA),
     (RUN_STATUS, STATUS_SCHEMA)]"

text \<open>\<open>float(v)\<close> of a number; an integer too large for a binary64 raises \<open>OverflowError\<close>.\<close>

definition number_float :: "json \<Rightarrow> life_error + pyfloat" where
  "number_float v = (case v of
     JInt n \<Rightarrow> (case to_float (of_int n) of Fin x \<Rightarrow> Inr (Fin x) | _ \<Rightarrow> Inl (Python ''OverflowError''))
   | JFlt x \<Rightarrow> Inr x
   | JBool b \<Rightarrow> Inr (Fin (if b then 1 else 0))
   | _ \<Rightarrow> Inl (Python ''TypeError''))"

text \<open>\<open>int(v)\<close> of a number.\<close>

definition number_int :: "json \<Rightarrow> life_error + int" where
  "number_int v = (case v of
     JInt n \<Rightarrow> Inr n
   | JFlt (Fin x) \<Rightarrow> Inr (if 0 \<le> x then \<lfloor>x\<rfloor> else \<lceil>x\<rceil>)
   | JFlt NaN \<Rightarrow> Inl (Python ''ValueError'')
   | JFlt _ \<Rightarrow> Inl (Python ''OverflowError'')
   | JBool b \<Rightarrow> Inr (if b then 1 else 0)
   | _ \<Rightarrow> Inl (Python ''TypeError''))"

definition is_number :: "json \<Rightarrow> bool" where
  "is_number v = (case v of JInt _ \<Rightarrow> True | JFlt _ \<Rightarrow> True | _ \<Rightarrow> False)"

definition integral :: "json \<Rightarrow> bool" where
  "integral v = (case v of JFlt (Fin x) \<Rightarrow> x = of_int \<lfloor>x\<rfloor> | JFlt _ \<Rightarrow> False | _ \<Rightarrow> True)"

definition valid_number :: "json \<Rightarrow> prop_schema \<Rightarrow> bool" where
  "valid_number v p \<longleftrightarrow> is_number v \<and> (''integer'' \<in> set (ps_types p) \<longrightarrow> integral v) \<and>
     (case number_float v of
        Inr (Fin x) \<Rightarrow> (case ps_minimum p of None \<Rightarrow> True | Some n \<Rightarrow> \<not> flt (Fin x) (Fin (of_int n)))
      | _ \<Rightarrow> False)"

definition valid_string :: "string \<Rightarrow> prop_schema \<Rightarrow> bool" where
  "valid_string s p \<longleftrightarrow> (case ps_min_length p of None \<Rightarrow> True | Some n \<Rightarrow> n \<le> length s) \<and>
     (ps_run_id p \<longrightarrow> run_id_search s) \<and> (case ps_enum p of None \<Rightarrow> True | Some xs \<Rightarrow> s \<in> set xs)"

definition valid_value :: "json \<Rightarrow> prop_schema \<Rightarrow> bool" where
  "valid_value v p =
     (if v = JNull then ''null'' \<in> set (ps_types p)
      else if ''object'' \<in> set (ps_types p) then is_obj v
      else if ''array'' \<in> set (ps_types p) then (case v of
          JList xs \<Rightarrow> (ps_string_items p \<longrightarrow> list_all is_str xs) \<and>
            (case ps_min_items p of None \<Rightarrow> True | Some n \<Rightarrow> n \<le> length xs)
        | _ \<Rightarrow> False)
      else if ''string'' \<in> set (ps_types p) then (case v of JStr s \<Rightarrow> valid_string s p | _ \<Rightarrow> False)
      else if ''integer'' \<in> set (ps_types p) \<or> ''number'' \<in> set (ps_types p) then valid_number v p
      else False)"

text \<open>\<open>validate_schema\<close>: unknown and missing arguments first, then every value.\<close>

definition validate_schema :: "string \<Rightarrow> dict \<Rightarrow> life_error + unit" where
  "validate_schema tool args = (case map_of TOOL_SCHEMAS tool of
     None \<Rightarrow> Inl Invalid_arguments
   | Some s \<Rightarrow> ensure (list_all (\<lambda>k. k \<in> set (map fst (ts_properties s))) (dict_keys args) \<and>
        list_all (has_key args) (ts_required s) \<and>
        list_all (\<lambda>kv. case map_of (ts_properties s) (fst kv) of None \<Rightarrow> False | Some p \<Rightarrow> valid_value (snd kv) p) args)
        Invalid_arguments)"

definition validate_issue_ref :: "json \<Rightarrow> life_error + unit" where
  "validate_issue_ref v = ensure (case v of JStr s \<Rightarrow> issue_ref_re s | _ \<Rightarrow> False) Invalid_arguments"

definition validate_run_id :: "json \<Rightarrow> life_error + unit" where
  "validate_run_id v = ensure (case v of JStr s \<Rightarrow> life_run_id_re s | _ \<Rightarrow> False) Invalid_arguments"

section \<open>Results of engines\<close>

text \<open>\<open>d.get(k, default)\<close>, and \<open>v.get(k)\<close> and \<open>k in v\<close> of a value that need not be a dict.\<close>

definition dget_or :: "dict \<Rightarrow> string \<Rightarrow> json \<Rightarrow> json" where
  "dget_or d k v = (case map_of d k of None \<Rightarrow> v | Some x \<Rightarrow> x)"

definition attr :: "string \<Rightarrow> json \<Rightarrow> life_error + json" where
  "attr k v = (case v of JObj d \<Rightarrow> Inr (dget d k) | _ \<Rightarrow> Inl (Python ''AttributeError''))"

definition key_in :: "string \<Rightarrow> json \<Rightarrow> life_error + bool" where
  "key_in k v = (case v of
     JObj d \<Rightarrow> Inr (has_key d k)
   | JList xs \<Rightarrow> Inr (py_in (JStr k) xs)
   | JStr s \<Rightarrow> Inr (contains s k)
   | _ \<Rightarrow> Inl (Python ''TypeError''))"

definition normalize_artifact :: "json \<Rightarrow> life_error + json" where
  "normalize_artifact item = (case item of
     JStr s \<Rightarrow> Inr (JObj [(''ref'', item), (''sha256'', JNull)])
   | JObj d \<Rightarrow> if is_str (dget d ''ref'')
       then Inr (JObj [(''ref'', dget d ''ref''), (''sha256'', if is_str (dget d ''sha256'') then dget d ''sha256'' else JNull)])
       else Inl Invalid_arguments
   | _ \<Rightarrow> Inl Invalid_arguments)"

fun safe_items :: "json list \<Rightarrow> json list" where
  "safe_items [] = []"
| "safe_items (x # xs) = (case normalize_artifact x of Inl _ \<Rightarrow> safe_items xs | Inr y \<Rightarrow> y # safe_items xs)"

definition safe_artifacts :: "json \<Rightarrow> json" where
  "safe_artifacts v = JList (case v of JList xs \<Rightarrow> safe_items xs | _ \<Rightarrow> [])"

definition finite_float :: "pyfloat \<Rightarrow> bool" where
  "finite_float x = (case x of Fin _ \<Rightarrow> True | _ \<Rightarrow> False)"

definition safe_cost :: "json \<Rightarrow> life_error + json" where
  "safe_cost v = (if \<not> is_number v then Inr (JFlt (Fin 0))
     else bindE (number_float v) (\<lambda>x. Inr (JFlt (if finite_float x then x else Fin 0))))"

definition result_cost :: "dict \<Rightarrow> life_error + pyfloat" where
  "result_cost r = (let raw = dget_or r ''cost'' (JFlt (Fin 0)) in
     if \<not> is_number raw then Inl Invalid_arguments
     else bindE (number_float raw) (\<lambda>x. if finite_float x \<and> \<not> flt x (Fin 0) then Inr x else Inl Invalid_arguments))"

definition result_status :: "dict \<Rightarrow> life_error + string" where
  "result_status r = (case dget r ''status'' of
     JStr s \<Rightarrow> if s \<in> set TERMINAL_STATUSES then Inr s else Inl Invalid_arguments
   | _ \<Rightarrow> Inl Invalid_arguments)"

definition payload_digest :: "hostlib \<Rightarrow> dict \<Rightarrow> life_error + string" where
  "payload_digest H result = (case canonical_bytes H (JObj result) of
     None \<Rightarrow> Inl (Store_error Value_error)
   | Some text \<Rightarrow> Inr (sha256 H text))"

definition dict_or :: "json \<Rightarrow> json \<Rightarrow> json" where
  "dict_or v w = (if is_obj v then v else w)"

definition list_or_empty :: "json \<Rightarrow> json" where
  "list_or_empty v = (if is_list v then v else JList [])"

section \<open>Runs in the session store\<close>

text \<open>\<open>event["payload"]\<close> of a loaded event, and \<open>doc["events"][0]["payload"]\<close>.\<close>

definition payload_of :: "json \<Rightarrow> json" where
  "payload_of e = dget (as_dict e) ''payload''"

definition first_payload :: "json \<Rightarrow> life_error + json" where
  "first_payload doc = (case events_of doc of [] \<Rightarrow> Inl (Python ''LookupError'') | e # _ \<Rightarrow> Inr (payload_of e))"

text \<open>\<open>_scan_sessions\<close>, with the session id of each document; the store lists its sessions in the order
  the directory does.\<close>

fun scan_ids :: "hostlib \<Rightarrow> session_store \<Rightarrow> string list \<Rightarrow> life_error + (string \<times> json) list" where
  "scan_ids H st [] = Inr []"
| "scan_ids H st (sid # sids) = (case session_load H sid st of
     Inl (SessionError c m) \<Rightarrow> scan_ids H st sids
   | Inl e \<Rightarrow> Inl (Store_error e)
   | Inr doc \<Rightarrow> bindE (first_payload doc) (\<lambda>created. bindE (key_in ''run_id'' created) (\<lambda>is_run.
       bindE (scan_ids H st sids) (\<lambda>docs. Inr (if is_run then (sid, doc) # docs else docs)))))"

definition scan_sessions :: "hostlib \<Rightarrow> session_store \<Rightarrow> life_error + (string \<times> json) list" where
  "scan_sessions H st = scan_ids H st (filter (\<lambda>sid. startswith sid ''session_'') (remdups (map fst st)))"

fun find_run_in :: "string \<Rightarrow> (string \<times> json) list \<Rightarrow> life_error + (string \<times> json) option" where
  "find_run_in run_id [] = Inr None"
| "find_run_in run_id ((sid, doc) # docs) = bindE (first_payload doc) (\<lambda>created. bindE (attr ''run_id'' created) (\<lambda>r.
     if r = JStr run_id then Inr (Some (sid, doc)) else find_run_in run_id docs))"

definition find_run :: "hostlib \<Rightarrow> session_store \<Rightarrow> string \<Rightarrow> life_error + (string \<times> json) option" where
  "find_run H st run_id = bindE (scan_sessions H st) (find_run_in run_id)"

text \<open>\<open>_last_run_status\<close>, over the events from the last one.\<close>

fun status_in :: "json list \<Rightarrow> life_error + json" where
  "status_in [] = Inr (JStr ''created'')"
| "status_in (e # es) =
     (if event_is ''run.review_submitted'' e then Inr (JStr ''review_submitted'')
      else if event_is ''run.engine_turn'' e then (case payload_of e of
          JObj p \<Rightarrow> Inr (dget_or p ''status'' (JStr ''failed''))
        | _ \<Rightarrow> Inl (Python ''AttributeError''))
      else if event_is ''run.running'' e then Inr (JStr ''running'')
      else status_in es)"

definition last_run_status :: "json \<Rightarrow> life_error + json" where
  "last_run_status doc = status_in (rev (events_of doc))"

text \<open>\<open>status in TERMINAL_STATUSES\<close>\<close>

definition status_among :: "string list \<Rightarrow> json \<Rightarrow> life_error + bool" where
  "status_among xs v = (if \<not> hashable v then Inl (Python ''TypeError'') else Inr (v \<in> set (map JStr xs)))"

fun first_active :: "string \<Rightarrow> (string \<times> json) list \<Rightarrow> life_error + (string \<times> json) option" where
  "first_active issue_ref [] = Inr None"
| "first_active issue_ref ((sid, doc) # docs) = bindE (first_payload doc) (\<lambda>created. bindE (attr ''issue_id'' created) (\<lambda>i.
     if i \<noteq> JStr issue_ref then first_active issue_ref docs
     else bindE (last_run_status doc) (\<lambda>status. bindE (status_among TERMINAL_STATUSES status) (\<lambda>terminal.
       if \<not> terminal \<and> status \<noteq> JStr ''review_submitted'' then Inr (Some (sid, doc)) else first_active issue_ref docs))))"

definition active_run_for_issue :: "hostlib \<Rightarrow> session_store \<Rightarrow> string \<Rightarrow> life_error + (string \<times> json) option" where
  "active_run_for_issue H st issue_ref = bindE (scan_sessions H st) (first_active issue_ref)"

definition last_engine_turn :: "json \<Rightarrow> json option" where
  "last_engine_turn doc = (case filter (event_is ''run.engine_turn'') (events_of doc) of
     [] \<Rightarrow> None | es \<Rightarrow> Some (payload_of (last es)))"

record run_identity =
  ri_run_id :: json
  ri_issue_ref :: json
  ri_engine_id :: json
  ri_profile :: json
  ri_session_id :: json
  ri_scope_fingerprint :: json
  ri_worktree :: json
  ri_status :: json
  ri_max_runtime :: json
  ri_max_cost :: json
  ri_worker_role :: json

text \<open>\<open>turn or {}\<close>\<close>

definition turn_or_empty :: "json \<Rightarrow> json" where
  "turn_or_empty doc = (case last_engine_turn doc of None \<Rightarrow> JObj [] | Some v \<Rightarrow> or_else v (JObj []))"

definition run_created_of :: "json \<Rightarrow> json" where
  "run_created_of doc = (case find (event_is ''run.created'') (events_of doc) of None \<Rightarrow> JObj [] | Some e \<Rightarrow> payload_of e)"

definition run_identity_of :: "json \<Rightarrow> life_error + run_identity" where
  "run_identity_of doc = bindE (first_payload doc) (\<lambda>created.
     (case (created, run_created_of doc, turn_or_empty doc) of
        (JObj c, JObj rc, JObj t) \<Rightarrow> bindE (last_run_status doc) (\<lambda>status. Inr
          \<lparr>ri_run_id = dget c ''run_id'', ri_issue_ref = dget c ''issue_id'',
           ri_engine_id = or_else (dget t ''engine_id'') (or_else (dget c ''runtime'') (JStr ''hermes'')),
           ri_profile = or_else (dget t ''profile'') (or_else (dget rc ''profile'') (JStr ''builder'')),
           ri_session_id = dget t ''session_id'', ri_scope_fingerprint = dget rc ''scope_fingerprint'',
           ri_worktree = dget rc ''worktree'', ri_status = status, ri_max_runtime = dget rc ''max_runtime_seconds'',
           ri_max_cost = dget rc ''max_cost_usd'', ri_worker_role = dget c ''worker_role''\<rparr>)
      | _ \<Rightarrow> Inl (Python ''AttributeError'')))"

section \<open>The authoritative call context\<close>

definition resolve_for_context :: "hostlib \<Rightarrow> session_store \<Rightarrow> json \<Rightarrow> life_error + run_identity" where
  "resolve_for_context H st run_id = bindE (validate_run_id run_id) (\<lambda>_.
     bindE (find_run H st (text_of run_id)) (\<lambda>found. case found of
       None \<Rightarrow> Inl (Lifecycle CODE_RUN_NOT_FOUND (Some (text_of run_id)))
     | Some (sid, doc) \<Rightarrow> bindE (run_identity_of doc) (\<lambda>i.
         if ri_scope_fingerprint i = JNull then Inl (Lifecycle CODE_RUN_NOT_FOUND (Some (text_of run_id))) else Inr i)))"

definition tool_context :: "dict \<Rightarrow> json \<Rightarrow> pyfloat \<Rightarrow> pyfloat \<Rightarrow> call_context" where
  "tool_context args fp cost runtime = \<lparr>c_issue_ref = dget args ''issue_ref'', c_data_class = dget args ''data_class'', c_cost = cost,
     c_runtime = Some runtime, c_scope_text = JNull, c_fingerprint = fp\<rparr>"

definition build_call_context :: "mandate_lib \<Rightarrow> session_store \<Rightarrow> string \<Rightarrow> dict \<Rightarrow> life_error + call_context" where
  "build_call_context M st tool args = bindE (validate_schema tool args) (\<lambda>_.
     if tool = RUN_CREATE then
       bindE (validate_issue_ref (dget args ''issue_ref'')) (\<lambda>_.
       bindE (number_float (dget args ''estimated_cost_usd'')) (\<lambda>cost.
       bindE (number_float (dget args ''max_runtime_seconds'')) (\<lambda>runtime.
         Inr (tool_context args (JStr (compute_scope_fingerprint M (text_of (dget args ''scope'')))) cost runtime))))
     else if tool = RUN_RESUME then
       bindE (validate_issue_ref (dget args ''issue_ref'')) (\<lambda>_.
       bindE (resolve_for_context (mhost M) st (dget args ''run_id'')) (\<lambda>i.
       bindE (number_float (dget args ''estimated_cost_usd'')) (\<lambda>cost.
       bindE (number_float (dget args ''max_runtime_seconds'')) (\<lambda>runtime.
         Inr (tool_context args (ri_scope_fingerprint i) cost runtime)))))
     else if tool = RUN_SUBMIT then
       bindE (validate_issue_ref (dget args ''issue_ref'')) (\<lambda>_.
       bindE (resolve_for_context (mhost M) st (dget args ''run_id'')) (\<lambda>i.
       bindE (result_status (as_dict (dget args ''result''))) (\<lambda>_.
       bindE (result_cost (as_dict (dget args ''result''))) (\<lambda>cost.
       bindE (number_float (dget_or args ''max_runtime_seconds'' (JInt 1))) (\<lambda>runtime.
         Inr (tool_context args (ri_scope_fingerprint i) cost runtime))))))
     else
       bindE (validate_run_id (dget args ''run_id'')) (\<lambda>_.
       bindE (if has_key args ''issue_ref'' then validate_issue_ref (dget args ''issue_ref'') else Inr ()) (\<lambda>_.
         Inr \<lparr>c_issue_ref = dget_or args ''issue_ref'' (JStr []), c_data_class = JStr ''L0'', c_cost = Fin 0, c_runtime = None,
           c_scope_text = JNull, c_fingerprint = JNull\<rparr>)))"

section \<open>Operations\<close>

text \<open>An engine turn: what is asked of the broker, and its answer. \<open>lh_registered\<close> are the engines with an
  adapter, \<open>lh_str\<close> is \<open>str\<close> of a value that is not a text and \<open>lh_text\<close> \<open>str\<close> of an exception.\<close>

record invocation =
  iv_engine :: json
  iv_profile :: json
  iv_prompt :: json
  iv_timeout :: int
  iv_model :: json
  iv_provider :: json
  iv_cwd :: json
  iv_session_id :: json

datatype engine_answer = Answers json | Adapter_raises string

record life_host =
  lh_mandate :: mandate_lib
  lh_registered :: "string \<Rightarrow> bool"
  lh_str :: "json \<Rightarrow> string"
  lh_text :: "life_error \<Rightarrow> string"

abbreviation lh_lib :: "life_host \<Rightarrow> hostlib" where
  "lh_lib L \<equiv> mhost (lh_mandate L)"

text \<open>What one call meets outside: the ids it generates, the successive readings of the clock by the service and
  by the session store, which of its successive writes go through, and the answer of the engine.\<close>

record life_world =
  lw_run_id :: string
  lw_uuid :: string
  lw_review_uuid :: string
  lw_clock :: "nat \<Rightarrow> string"
  lw_stamp :: "nat \<Rightarrow> string"
  lw_writes :: "nat \<Rightarrow> bool"
  lw_answer :: engine_answer

definition check_call_binding :: "dict \<Rightarrow> json \<Rightarrow> string option \<Rightarrow> life_error + unit" where
  "check_call_binding binding issue_ref fp =
     (if \<not> py_eq (dget binding ''issue_ref'') issue_ref then Inl (Lifecycle CODE_ISSUE_REF_MISMATCH None)
      else (case fp of
        None \<Rightarrow> Inr ()
      | Some f \<Rightarrow> ensure (dget binding ''scope_fingerprint'' = JStr f) (Lifecycle CODE_ISSUE_REF_MISMATCH None)))"

text \<open>\<open>engine_context.get(engine_id).has_provider\<close>\<close>

definition has_provider :: "life_host \<Rightarrow> json \<Rightarrow> life_error + bool" where
  "has_provider L engine = (case engine of
     JStr s \<Rightarrow> Inr (lh_registered L s)
   | _ \<Rightarrow> if hashable engine then Inr False else Inl (Python ''TypeError''))"

definition text_value :: "life_host \<Rightarrow> json \<Rightarrow> string" where
  "text_value L v = (case v of JStr s \<Rightarrow> s | _ \<Rightarrow> lh_str L v)"

definition envelope_status :: "dict \<Rightarrow> json" where
  "envelope_status r = (case dget r ''status'' of
     JStr s \<Rightarrow> if s \<in> set (TERMINAL_STATUSES @ [''created'', ''running'']) then JStr s else JStr ''failed''
   | _ \<Rightarrow> JStr ''failed'')"

text \<open>\<open>_envelope\<close>\<close>

definition envelope_of :: "life_host \<Rightarrow> json \<Rightarrow> json \<Rightarrow> json \<Rightarrow> json \<Rightarrow> json \<Rightarrow> json \<Rightarrow> json \<Rightarrow> dict \<Rightarrow> json \<Rightarrow> json \<Rightarrow> life_error + json" where
  "envelope_of L issue_ref run_id session_id engine profile worker_role started_at result model finished_at =
     bindE (safe_cost (dget result ''cost'')) (\<lambda>cost. Inr (JObj
       [(''issue_id'', issue_ref), (''run_id'', run_id), (''status'', envelope_status result),
        (''runtime'', JStr (text_value L engine @ ''/v0.1'')), (''worker_role'', or_else profile worker_role),
        (''started_at'', started_at), (''finished_at'', finished_at), (''model'', or_else (dget result ''model'') model),
        (''usage'', dict_or (dget result ''usage'') (JObj [])), (''cost'', cost), (''cost_currency'', JStr ''USD''),
        (''cost_status'', dget_or result ''cost_status'' (JStr ''unknown'')),
        (''artifacts'', safe_artifacts (dget result ''artifacts'')), (''evidence'', list_or_empty (dget result ''evidence'')),
        (''error'', dict_or (dget result ''error'') JNull), (''session_id'', session_id), (''review'', JNull)]))"

text \<open>\<open>_append_engine_turn\<close>\<close>

definition turn_payload :: "dict \<Rightarrow> string \<Rightarrow> dict \<Rightarrow> dict option \<Rightarrow> string \<Rightarrow> life_error + dict" where
  "turn_payload base run_id result failure finished_at =
     bindE (safe_cost (dget result ''cost'')) (\<lambda>cost. Inr
       [(''run_id'', JStr run_id), (''engine_id'', or_else (dget base ''engine_id'') (dget base ''runtime'')),
        (''profile'', dget base ''profile''),
        (''status'', if failure = None then dget_or result ''status'' (JStr ''failed'') else JStr ''failed''),
        (''session_id'', dget result ''session_id''), (''model'', dget result ''model''), (''provider'', dget result ''provider''),
        (''usage'', dict_or (dget result ''usage'') (JObj [])), (''cost'', cost),
        (''cost_status'', dget_or result ''cost_status'' (JStr ''unknown'')),
        (''artifacts'', safe_artifacts (dget result ''artifacts'')), (''evidence'', list_or_empty (dget result ''evidence'')),
        (''error'', case failure of Some f \<Rightarrow> JObj f | None \<Rightarrow> dict_or (dget result ''error'') JNull),
        (''finished_at'', JStr finished_at)])"

definition store_result :: "(session_error + 'a) \<Rightarrow> life_error + 'a" where
  "store_result r = mapErr Store_error r"

definition append_engine_turn :: "hostlib \<Rightarrow> string \<Rightarrow> string \<Rightarrow> bool \<Rightarrow> string \<Rightarrow> dict \<Rightarrow> string \<Rightarrow> dict \<Rightarrow> dict option \<Rightarrow> session_store
    \<Rightarrow> (life_error + json) \<times> session_store" where
  "append_engine_turn H finished_at stamp writes sid base run_id result failure st =
     (case turn_payload base run_id result failure finished_at of
        Inl e \<Rightarrow> (Inl e, st)
      | Inr turn \<Rightarrow> apfst store_result (writer_append H stamp writes sid ''run.engine_turn'' (JObj turn) st))"

definition failure_of :: "string \<Rightarrow> dict" where
  "failure_of message = [(''category'', JStr CODE_ADAPTER_FAILED), (''message'', JStr message)]"

definition path_arg :: "json \<Rightarrow> life_error + json" where
  "path_arg v = (if \<not> truthy v then Inr JNull else if is_str v then Inr v else Inl (Python ''TypeError''))"

text \<open>What \<open>create_run\<close> leaves to the worker thread: the closure \<open>turn\<close>.\<close>

record worker_job =
  wj_session_id :: string
  wj_run_id :: string
  wj_run_created :: dict
  wj_args :: dict

definition job_invocation :: "worker_job \<Rightarrow> life_error + invocation" where
  "job_invocation j = (let a = wj_args j in
     bindE (number_int (dget a ''max_runtime_seconds'')) (\<lambda>timeout. bindE (path_arg (dget a ''worktree'')) (\<lambda>cwd. Inr
       \<lparr>iv_engine = dget (wj_run_created j) ''engine_id'', iv_profile = dget a ''profile'', iv_prompt = dget a ''prompt'', iv_timeout = timeout,
        iv_model = dget a ''model'', iv_provider = dget a ''provider'', iv_cwd = cwd, iv_session_id = JNull\<rparr>)))"

text \<open>The thread: an exception on the way to the recorded turn is recorded as a failed turn; an exception of that
  ends the thread.\<close>

definition fail_turn :: "hostlib \<Rightarrow> life_world \<Rightarrow> nat \<Rightarrow> worker_job \<Rightarrow> string \<Rightarrow> session_store \<Rightarrow> session_store" where
  "fail_turn H w i j message st =
     snd (append_engine_turn H (lw_clock w i) (lw_stamp w i) (lw_writes w i) (wj_session_id j) (wj_run_created j) (wj_run_id j)
       [] (Some (failure_of message)) st)"

definition worker_turn :: "life_host \<Rightarrow> life_world \<Rightarrow> worker_job \<Rightarrow> session_store \<Rightarrow> invocation list \<times> session_store" where
  "worker_turn L w j st = (case job_invocation j of
     Inl e \<Rightarrow> ([], fail_turn (lh_lib L) w 0 j (lh_text L e) st)
   | Inr iv \<Rightarrow> (case lw_answer w of
       Adapter_raises m \<Rightarrow> ([iv], fail_turn (lh_lib L) w 0 j m st)
     | Answers (JObj r) \<Rightarrow>
         (case append_engine_turn (lh_lib L) (lw_clock w 0) (lw_stamp w 0) (lw_writes w 0) (wj_session_id j) (wj_run_created j)
             (wj_run_id j) r None st of
            (Inr _, st) \<Rightarrow> ([iv], st)
          | (Inl e, st) \<Rightarrow> ([iv], fail_turn (lh_lib L) w 1 j (lh_text L e) st))
     | Answers _ \<Rightarrow> ([iv], fail_turn (lh_lib L) w 0 j ''adapter returned a non-dict result'' st)))"

text \<open>\<open>create_run\<close>\<close>

definition run_created_payload :: "string \<Rightarrow> dict \<Rightarrow> dict \<Rightarrow> life_error + dict" where
  "run_created_payload run_id args binding =
     bindE (number_int (dget args ''max_runtime_seconds'')) (\<lambda>runtime.
     bindE (number_float (dget args ''max_cost_usd'')) (\<lambda>cost.
     bindE (number_int (dget args ''max_parallel_workers'')) (\<lambda>workers.
     bindE (number_int (dget args ''delegation_depth'')) (\<lambda>depth. Inr
       [(''run_id'', JStr run_id), (''issue_ref'', dget args ''issue_ref''), (''scope_fingerprint'', dget binding ''scope_fingerprint''),
        (''engine_id'', dget args ''engine_id''), (''profile'', dget args ''profile''), (''data_class'', dget args ''data_class''),
        (''max_runtime_seconds'', JInt runtime), (''max_cost_usd'', JFlt cost), (''max_parallel_workers'', JInt workers),
        (''delegation_depth'', JInt depth), (''artifact_policy'', dget args ''artifact_policy''),
        (''approval_ref'', dget args ''approval_ref''), (''model'', dget args ''model''), (''provider'', dget args ''provider''),
        (''worktree'', dget args ''worktree'')]))))"

definition create_checks :: "life_host \<Rightarrow> string \<Rightarrow> dict \<Rightarrow> dict \<Rightarrow> session_store \<Rightarrow> life_error + dict" where
  "create_checks L run_id args binding st =
     bindE (validate_schema RUN_CREATE args) (\<lambda>_.
     bindE (validate_issue_ref (dget args ''issue_ref'')) (\<lambda>_.
     bindE (check_call_binding binding (dget args ''issue_ref'')
       (Some (compute_scope_fingerprint (lh_mandate L) (text_of (dget args ''scope''))))) (\<lambda>_.
     bindE (active_run_for_issue (lh_lib L) st (text_of (dget args ''issue_ref''))) (\<lambda>active.
     bindE (ensure (active = None) (Lifecycle CODE_CLAIM_CONFLICT None)) (\<lambda>_.
     bindE (has_provider L (dget args ''engine_id'')) (\<lambda>provided.
     bindE (ensure provided (Lifecycle CODE_ENGINE_NOT_REGISTERED (Some run_id))) (\<lambda>_.
       run_created_payload run_id args binding)))))))"

definition create_run :: "life_host \<Rightarrow> life_world \<Rightarrow> dict \<Rightarrow> dict \<Rightarrow> session_store
    \<Rightarrow> (life_error + json \<times> worker_job) \<times> session_store" where
  "create_run L w args binding st =
     (let H = lh_lib L; run_id = lw_run_id w; sid = ''session_'' @ lw_uuid w in
      case create_checks L run_id args binding st of
        Inl e \<Rightarrow> (Inl e, st)
      | Inr created \<Rightarrow>
          (case session_create H (lw_stamp w 0) (lw_uuid w) (lw_writes w 0) (dget args ''task_id'')
              [(''run_id'', JStr run_id), (''issue_id'', dget args ''issue_ref''), (''worker_role'', dget args ''worker_role''),
               (''runtime'', dget args ''engine_id'')] st of
             (Inl e, st) \<Rightarrow> (Inl (Store_error e), st)
           | (Inr _, st) \<Rightarrow>
          (case session_append H (lw_stamp w 1) (lw_writes w 1) sid 0 ''run.created'' (JObj created) st of
             (Inl e, st) \<Rightarrow> (Inl (Store_error e), st)
           | (Inr _, st) \<Rightarrow>
          (case session_append H (lw_stamp w 2) (lw_writes w 2) sid 1 ''run.running''
              (JObj [(''run_id'', JStr run_id), (''started_at'', JStr (lw_clock w 0))]) st of
             (Inl e, st) \<Rightarrow> (Inl (Store_error e), st)
           | (Inr _, st) \<Rightarrow>
              (bindE (envelope_of L (dget args ''issue_ref'') (JStr run_id) JNull (dget args ''engine_id'') (dget args ''profile'')
                 (dget args ''worker_role'') (JStr (lw_clock w 0)) [(''status'', JStr ''running'')] (dget args ''model'') JNull)
                 (\<lambda>v. Inr (v, \<lparr>wj_session_id = sid, wj_run_id = run_id, wj_run_created = created, wj_args = args\<rparr>)), st)))))"

text \<open>\<open>status_of\<close>\<close>

definition matched_run :: "hostlib \<Rightarrow> session_store \<Rightarrow> string \<Rightarrow> json \<Rightarrow> life_error + string \<times> json \<times> run_identity" where
  "matched_run H st run_id issue_ref = bindE (find_run H st run_id) (\<lambda>found. case found of
     None \<Rightarrow> Inl (Lifecycle CODE_RUN_NOT_FOUND (Some run_id))
   | Some (sid, doc) \<Rightarrow> bindE (run_identity_of doc) (\<lambda>i.
       if issue_ref \<noteq> JNull \<and> ri_issue_ref i \<noteq> issue_ref then Inl (Lifecycle CODE_ISSUE_REF_MISMATCH (Some run_id))
       else Inr (sid, doc, i)))"

definition running_payload :: "json \<Rightarrow> json" where
  "running_payload doc = (case find (event_is ''run.running'') (rev (events_of doc)) of None \<Rightarrow> JObj [] | Some e \<Rightarrow> payload_of e)"

definition status_of :: "life_host \<Rightarrow> string \<Rightarrow> json \<Rightarrow> session_store \<Rightarrow> life_error + json" where
  "status_of L run_id issue_ref st =
     bindE (validate_run_id (JStr run_id)) (\<lambda>_.
     bindE (if issue_ref = JNull then Inr () else validate_issue_ref issue_ref) (\<lambda>_.
     bindE (matched_run (lh_lib L) st run_id issue_ref) (\<lambda>(sid, doc, i).
     bindE (attr ''started_at'' (running_payload doc)) (\<lambda>started_at.
     bindE (status_among [''created'', ''running''] (ri_status i)) (\<lambda>unfinished.
       (case turn_or_empty doc of
          JObj t \<Rightarrow> envelope_of L (ri_issue_ref i) (JStr run_id) (dget t ''session_id'') (ri_engine_id i) (ri_profile i)
            (ri_worker_role i) started_at (if t = [] then [(''status'', ri_status i)] else t) (dget t ''model'')
            (if unfinished then JNull else dget t ''finished_at'')
        | _ \<Rightarrow> Inl (Python ''AttributeError'')))))))"

text \<open>\<open>resume_run\<close>\<close>

definition resume_checks :: "life_host \<Rightarrow> dict \<Rightarrow> dict \<Rightarrow> session_store \<Rightarrow> life_error + string \<times> run_identity" where
  "resume_checks L args binding st =
     bindE (validate_schema RUN_RESUME args) (\<lambda>_.
     bindE (validate_issue_ref (dget args ''issue_ref'')) (\<lambda>_.
     bindE (validate_run_id (dget args ''run_id'')) (\<lambda>_.
     bindE (check_call_binding binding (dget args ''issue_ref'') None) (\<lambda>_.
     let run_id = text_of (dget args ''run_id'') in
     bindE (matched_run (lh_lib L) st run_id (dget args ''issue_ref'')) (\<lambda>(sid, doc, i).
     let status = ri_status i in
     bindE (if status = JStr ''running'' then Inr True
        else bindE (status_among TERMINAL_STATUSES status) (\<lambda>terminal.
             bindE (status_among RESUMABLE_LAST_STATUSES status) (\<lambda>resumable. Inr (terminal \<and> \<not> resumable)))) (\<lambda>refused.
     bindE (ensure (\<not> refused) (Lifecycle CODE_RUN_NOT_RESUMABLE (Some run_id))) (\<lambda>_.
     bindE (ensure (\<not> (ri_session_id i = JNull \<and> status \<noteq> JStr ''created'')) (Lifecycle CODE_SESSION_ID_UNAVAILABLE (Some run_id))) (\<lambda>_.
     bindE (has_provider L (ri_engine_id i)) (\<lambda>provided.
     bindE (ensure provided (Lifecycle CODE_ENGINE_NOT_REGISTERED (Some run_id))) (\<lambda>_. Inr (sid, i)))))))))))"

definition resume_invocation :: "dict \<Rightarrow> run_identity \<Rightarrow> life_error + invocation" where
  "resume_invocation args i =
     bindE (number_int (dget args ''max_runtime_seconds'')) (\<lambda>timeout. bindE (path_arg (ri_worktree i)) (\<lambda>cwd. Inr
       \<lparr>iv_engine = ri_engine_id i, iv_profile = ri_profile i, iv_prompt = dget args ''prompt'', iv_timeout = timeout,
        iv_model = dget args ''model'', iv_provider = dget args ''provider'', iv_cwd = cwd, iv_session_id = ri_session_id i\<rparr>))"

definition resume_base :: "json \<Rightarrow> run_identity \<Rightarrow> dict" where
  "resume_base run_id i = [(''run_id'', run_id), (''engine_id'', ri_engine_id i), (''profile'', ri_profile i)]"

text \<open>A turn of the engine that failed is recorded and reported; when it cannot be recorded, that exception is reported.\<close>

definition resume_failed :: "life_host \<Rightarrow> life_world \<Rightarrow> string \<Rightarrow> json \<Rightarrow> run_identity \<Rightarrow> string \<Rightarrow> session_store
    \<Rightarrow> (life_error + json) \<times> session_store" where
  "resume_failed L w sid run_id i message st =
     (case append_engine_turn (lh_lib L) (lw_clock w 1) (lw_stamp w 0) (lw_writes w 0) sid (resume_base run_id i) (text_of run_id)
         [] (Some (failure_of message)) st of
        (Inl e, st) \<Rightarrow> (Inl e, st)
      | (Inr _, st) \<Rightarrow> (Inl (Lifecycle CODE_ADAPTER_FAILED (Some (text_of run_id))), st))"

definition resume_run :: "life_host \<Rightarrow> life_world \<Rightarrow> dict \<Rightarrow> dict \<Rightarrow> session_store
    \<Rightarrow> (life_error + json) \<times> invocation list \<times> session_store" where
  "resume_run L w args binding st = (case resume_checks L args binding st of
     Inl e \<Rightarrow> (Inl e, [], st)
   | Inr (sid, i) \<Rightarrow>
      (let run_id = dget args ''run_id'' in
       case resume_invocation args i of
         Inl e \<Rightarrow> (case resume_failed L w sid run_id i (lh_text L e) st of (r, st) \<Rightarrow> (r, [], st))
       | Inr iv \<Rightarrow> (case lw_answer w of
           Adapter_raises m \<Rightarrow> (case resume_failed L w sid run_id i m st of (r, st) \<Rightarrow> (r, [iv], st))
         | Answers (JObj result) \<Rightarrow>
             (case append_engine_turn (lh_lib L) (lw_clock w 1) (lw_stamp w 0) (lw_writes w 0) sid (resume_base run_id i)
                 (text_of run_id) result None st of
                (Inl e, st) \<Rightarrow> (Inl e, [iv], st)
              | (Inr _, st) \<Rightarrow>
                  (envelope_of L (ri_issue_ref i) run_id (or_else (dget result ''session_id'') (ri_session_id i)) (ri_engine_id i)
                     (ri_profile i) (or_else (ri_worker_role i) (JStr ''builder'')) (JStr (lw_clock w 0)) result
                     (dget args ''model'') (JStr (lw_clock w 2)), [iv], st))
         | Answers _ \<Rightarrow> (case resume_failed L w sid run_id i ''adapter returned a non-dict result'' st of (r, st) \<Rightarrow> (r, [iv], st)))))"

text \<open>\<open>submit_for_review\<close>\<close>

fun find_submission :: "string \<Rightarrow> json list \<Rightarrow> life_error + json option" where
  "find_submission key [] = Inr None"
| "find_submission key (e # es) =
     (if event_is ''run.review_submitted'' e
      then bindE (attr ''idempotency_key'' (payload_of e)) (\<lambda>k.
        if k = JStr key then Inr (Some (payload_of e)) else find_submission key es)
      else find_submission key es)"

text \<open>\<open>prior[k]\<close>\<close>

definition item :: "json \<Rightarrow> string \<Rightarrow> life_error + json" where
  "item v k = (if has_key (as_dict v) k then Inr (dget (as_dict v) k) else Inl (Python ''KeyError''))"

definition review_envelope :: "run_identity \<Rightarrow> json \<Rightarrow> json \<Rightarrow> string \<Rightarrow> json" where
  "review_envelope i submission_id submitted_at finished_at = JObj
     [(''issue_id'', ri_issue_ref i), (''run_id'', ri_run_id i), (''status'', JStr ''succeeded''), (''runtime'', JStr ''cortxt-mcp/v0.1''),
      (''worker_role'', or_else (ri_worker_role i) (JStr ''coordinator'')), (''started_at'', JNull), (''finished_at'', JStr finished_at),
      (''model'', JNull), (''usage'', JObj []), (''cost'', JFlt (Fin 0)), (''cost_currency'', JStr ''USD''), (''cost_status'', JStr ''unknown''),
      (''artifacts'', JList []), (''evidence'', JList []), (''error'', JNull), (''session_id'', ri_session_id i),
      (''review'', JObj [(''review_id'', submission_id), (''kind'', JStr ''independent''), (''status'', JStr ''submitted''),
         (''submitted_at'', submitted_at)])]"

definition submit_checks :: "life_host \<Rightarrow> dict \<Rightarrow> dict \<Rightarrow> session_store \<Rightarrow> life_error + string \<times> json \<times> run_identity \<times> string" where
  "submit_checks L args binding st =
     bindE (validate_schema RUN_SUBMIT args) (\<lambda>_.
     bindE (validate_issue_ref (dget args ''issue_ref'')) (\<lambda>_.
     bindE (validate_run_id (dget args ''run_id'')) (\<lambda>_.
     bindE (check_call_binding binding (dget args ''issue_ref'') None) (\<lambda>_.
     let run_id = text_of (dget args ''run_id''); result = as_dict (dget args ''result'') in
     bindE (matched_run (lh_lib L) st run_id (dget args ''issue_ref'')) (\<lambda>(sid, doc, i).
     bindE (result_status result) (\<lambda>status.
     bindE (ensure (dget result ''issue_id'' = dget args ''issue_ref'' \<and> dget result ''run_id'' = dget args ''run_id'')
        (Lifecycle CODE_RESULT_CORRELATION_MISMATCH (Some run_id))) (\<lambda>_. Inr (sid, doc, i, status))))))))"

definition submission_payload :: "string \<Rightarrow> dict \<Rightarrow> string \<Rightarrow> string \<Rightarrow> string \<Rightarrow> dict" where
  "submission_payload submission_id args status submitted_at digest =
     [(''review_submission_id'', JStr submission_id), (''review_kind'', dget args ''review_kind''),
      (''idempotency_key'', dget args ''idempotency_key''), (''result_status'', JStr status), (''submitted_at'', JStr submitted_at),
      (''payload_hash'', JStr digest)]"

definition submit_for_review :: "life_host \<Rightarrow> life_world \<Rightarrow> dict \<Rightarrow> dict \<Rightarrow> session_store \<Rightarrow> (life_error + json) \<times> session_store" where
  "submit_for_review L w args binding st = (case submit_checks L args binding st of
     Inl e \<Rightarrow> (Inl e, st)
   | Inr (sid, doc, i, status) \<Rightarrow>
      (let H = lh_lib L; result = as_dict (dget args ''result''); run_id = text_of (dget args ''run_id'') in
       case find_submission (text_of (dget args ''idempotency_key'')) (events_of doc) of
         Inl e \<Rightarrow> (Inl e, st)
       | Inr (Some prior) \<Rightarrow>
           (bindE (item prior ''payload_hash'') (\<lambda>h. bindE (payload_digest H result) (\<lambda>digest.
              if h = JStr digest then
                bindE (item prior ''review_submission_id'') (\<lambda>submission_id. bindE (item prior ''submitted_at'') (\<lambda>submitted_at.
                  Inr (review_envelope i submission_id submitted_at (lw_clock w 0))))
              else Inl (Lifecycle CODE_IDEMPOTENCY_CONFLICT (Some run_id)))), st)
       | Inr None \<Rightarrow>
           (let submission_id = ''review_'' @ lw_review_uuid w in
            case payload_digest H result of
              Inl e \<Rightarrow> (Inl e, st)
            | Inr digest \<Rightarrow>
                (case writer_append H (lw_stamp w 0) (lw_writes w 0) sid ''run.review_submitted''
                    (JObj (submission_payload submission_id args status (lw_clock w 0) digest)) st of
                   (Inl e, st) \<Rightarrow> (Inl (Store_error e), st)
                 | (Inr _, st) \<Rightarrow> (Inr (review_envelope i (JStr submission_id) (JStr (lw_clock w 0)) (lw_clock w 1)), st)))))"

end
