(* ===== verification/Run_Lifecycle_Props.thy ===== *)
theory Run_Lifecycle_Props
  imports Run_Lifecycle
begin

text \<open>
  What the Runs of the MCP server promise. A session only grows, so a review submission stays and is
  answered again for its idempotency key; with engines that report a known status at most one Run of an
  issue is active; and the states from which a Run never leaves: a creation that failed half-way,
  and a running Run whose worker died with the server.
\<close>

section \<open>Stores of Runs\<close>

definition stored :: "session_store \<Rightarrow> string \<Rightarrow> json \<Rightarrow> bool" where
  "stored st sid v \<longleftrightarrow> map_of st sid = Some (Some v)"

definition created_of :: "json \<Rightarrow> dict" where
  "created_of v = (case first_payload v of Inr (JObj c) \<Rightarrow> c | _ \<Rightarrow> [])"

definition RUN_EVENTS :: "string list" where
  "RUN_EVENTS = [''run.created'', ''run.running'', ''run.engine_turn'', ''run.review_submitted'']"

definition payloads_ok :: "json list \<Rightarrow> bool" where
  "payloads_ok es \<longleftrightarrow> (\<forall>e\<in>set es. (\<exists>t\<in>set RUN_EVENTS. event_is t e) \<longrightarrow> is_obj (payload_of e))"

definition run_session :: "json \<Rightarrow> bool" where
  "run_session v \<longleftrightarrow> (\<exists>c. first_payload v = Inr (JObj c)) \<and> payloads_ok (events_of v)"

definition is_run :: "json \<Rightarrow> bool" where
  "is_run v \<longleftrightarrow> has_key (created_of v) ''run_id''"

definition run_named :: "string \<Rightarrow> json \<Rightarrow> bool" where
  "run_named r v \<longleftrightarrow> dget (created_of v) ''run_id'' = JStr r"

definition life_ok :: "hostlib \<Rightarrow> session_store \<Rightarrow> bool" where
  "life_ok H st \<longleftrightarrow> sessions_ok H st \<and> (\<forall>sid v. stored st sid v \<longrightarrow> run_session v) \<and>
     (\<forall>sid sid' v v' r. stored st sid v \<longrightarrow> stored st sid' v' \<longrightarrow> run_named r v \<longrightarrow> run_named r v' \<longrightarrow> sid = sid')"

lemma run_named_is_run: "run_named r v \<Longrightarrow> is_run v"
  by (auto simp: run_named_def is_run_def has_key_iff dget_def split: option.split_asm)

lemma stored_unique: "stored st sid v \<Longrightarrow> stored st sid w \<Longrightarrow> w = v"
  by (simp add: stored_def)

lemma life_ok_stored:
  assumes "life_ok H st" "stored st sid v"
  shows "session_load H sid st = Inr v" "run_session v" "session_id_re sid" "session_ok H sid v"
  using sessions_ok_load [of H st sid "Some v"] assms by (auto simp: life_ok_def stored_def session_ok_def)

lemma life_ok_listed:
  assumes "life_ok H st" "sid \<in> set (map fst st)"
  obtains v where "stored st sid v" "session_load H sid st = Inr v"
proof -
  obtain f where "map_of st sid = Some f" using assms(2) by (metis list.set_map map_of_eq_None_iff not_None_eq)
  then show thesis using sessions_ok_load [of H st sid f] assms(1) that by (auto simp: life_ok_def stored_def)
qed

lemma first_payload_created: "run_session v \<Longrightarrow> first_payload v = Inr (JObj (created_of v))"
  by (auto simp: run_session_def created_of_def)

lemma scan_ids_ok:
  assumes "life_ok H st" "\<forall>sid\<in>set sids. \<exists>v. stored st sid v"
  shows "\<exists>docs. scan_ids H st sids = Inr docs \<and> set docs = {(sid, v). sid \<in> set sids \<and> stored st sid v \<and> is_run v}"
  using assms(2)
proof (induction sids)
  case (Cons sid sids)
  then obtain v docs where v: "stored st sid v" and d: "scan_ids H st sids = Inr docs"
    "set docs = {(sid, v). sid \<in> set sids \<and> stored st sid v \<and> is_run v}" by auto
  note l = life_ok_stored [OF assms(1) v]
  have "scan_ids H st (sid # sids) = Inr (if is_run v then (sid, v) # docs else docs)"
    by (simp add: l(1) first_payload_created [OF l(2)] key_in_def d(1) is_run_def)
  moreover have "set (if is_run v then (sid, v) # docs else docs) = {(x, v). x \<in> set (sid # sids) \<and> stored st x v \<and> is_run v}"
    using v by (auto simp: d(2) dest: stored_unique)
  ultimately show ?case by blast
qed simp

lemma scan_ok:
  assumes "life_ok H st"
  obtains docs where "scan_sessions H st = Inr docs" "set docs = {(sid, v). stored st sid v \<and> is_run v}"
proof -
  let ?sids = "filter (\<lambda>sid. startswith sid ''session_'') (remdups (map fst st))"
  have "\<forall>sid\<in>set ?sids. \<exists>v. stored st sid v" using life_ok_listed [OF assms] by (metis filter_is_subset set_remdups subsetD)
  from scan_ids_ok [OF assms this] obtain docs where d: "scan_ids H st ?sids = Inr docs"
    "set docs = {(sid, v). sid \<in> set ?sids \<and> stored st sid v \<and> is_run v}" by blast
  have "sid \<in> set ?sids" if "stored st sid v" for sid v
  proof -
    have "sid \<in> set (map fst st)" using that by (auto simp: stored_def dest!: map_of_SomeD intro: image_eqI [rotated])
    moreover have "startswith sid ''session_''" using life_ok_stored(3) [OF assms that] by (simp add: session_id_re_def)
    ultimately show ?thesis by simp
  qed
  then have "set docs = {(sid, v). stored st sid v \<and> is_run v}" unfolding d(2) by blast
  with that d(1) show thesis by (simp add: scan_sessions_def)
qed

lemma find_run_in_ok:
  assumes "\<forall>(sid, v)\<in>set docs. run_session v"
  shows "\<exists>r. find_run_in run_id docs = Inr r \<and> (case r of
      None \<Rightarrow> \<forall>(sid, v)\<in>set docs. \<not> run_named run_id v
    | Some (sid, v) \<Rightarrow> (sid, v) \<in> set docs \<and> run_named run_id v)"
  using assms
proof (induction docs)
  case (Cons d docs)
  obtain sid v where d: "d = (sid, v)" by (cases d)
  then have p: "first_payload v = Inr (JObj (created_of v))" using Cons.prems first_payload_created by auto
  show ?case
  proof (cases "run_named run_id v")
    case True
    then show ?thesis using p by (simp add: d attr_def run_named_def)
  next
    case False
    then show ?thesis using p Cons by (auto simp: d attr_def run_named_def split: option.splits)
  qed
qed simp

lemma find_run_ok:
  assumes "life_ok H st"
  shows "\<exists>r. find_run H st run_id = Inr r \<and> (\<forall>sid v. r = Some (sid, v) \<longleftrightarrow> stored st sid v \<and> run_named run_id v)"
proof -
  obtain docs where d: "scan_sessions H st = Inr docs" "set docs = {(sid, v). stored st sid v \<and> is_run v}"
    by (rule scan_ok [OF assms])
  have "\<forall>(sid, v)\<in>set docs. run_session v" using life_ok_stored(2) [OF assms] by (auto simp: d(2))
  from find_run_in_ok [OF this, of run_id] obtain r where r: "find_run_in run_id docs = Inr r"
    "case r of None \<Rightarrow> \<forall>(sid, v)\<in>set docs. \<not> run_named run_id v | Some (sid, v) \<Rightarrow> (sid, v) \<in> set docs \<and> run_named run_id v"
    by blast
  have "find_run H st run_id = Inr r" by (simp add: find_run_def d(1) r(1))
  moreover have "r = Some (sid, v) \<longleftrightarrow> stored st sid v \<and> run_named run_id v" for sid v
  proof (cases r)
    case None
    then show ?thesis using r(2) run_named_is_run by (auto simp: d(2))
  next
    case (Some x)
    then obtain sid' v' where x: "r = Some (sid', v')" by (cases x) auto
    then have m: "stored st sid' v'" "run_named run_id v'" using r(2) by (auto simp: d(2))
    have "sid = sid' \<and> v = v'" if "stored st sid v" "run_named run_id v"
      using assms that m stored_unique unfolding life_ok_def by metis
    then show ?thesis using x m by auto
  qed
  ultimately show ?thesis by blast
qed

lemma find_run_Some:
  "life_ok H st \<Longrightarrow> find_run H st r = Inr (Some (sid, v)) \<longleftrightarrow> stored st sid v \<and> run_named r v"
  using find_run_ok [of H st r] by (metis sum.inject(2))

lemma run_unique:
  assumes "life_ok H st" "stored st sid v" "run_named r v" "stored st sid' v'" "run_named r v'"
  shows "sid' = sid \<and> v' = v"
proof -
  have "sid' = sid" using assms unfolding life_ok_def by blast
  then show ?thesis using assms(2,4) stored_unique by blast
qed

lemma find_run_no_error: "life_ok H st \<Longrightarrow> find_run H st r \<noteq> Inl e"
  using find_run_ok [of H st r] by auto

section \<open>What an append does\<close>

text \<open>The payload an event gets back when the session is read again.\<close>

lemma payload_norm [simp]: "payload_of (json_norm (JObj e)) = json_norm (dget e ''payload'')"
  by (simp add: payload_of_def del: json_norm.simps)

lemma event_is_norm [simp]: "event_is t (json_norm (JObj e)) \<longleftrightarrow> dget e ''event_type'' = JStr t"
  by (cases "dget e ''event_type''") (simp_all add: event_is_def del: json_norm.simps(2))

lemma dget_norm [simp]: "dget (sort_key fst (map_vals json_norm d)) k = json_norm (dget d k)"
  by (simp add: dget_map_vals)

lemma dget_or_norm [simp]: "dget_or (sort_key fst (map_vals json_norm d)) k (JStr s) = json_norm (dget_or d k (JStr s))"
  by (simp add: dget_or_def map_of_map_vals split: option.split)

lemma json_norm_JStr [simp]: "json_norm v = JStr s \<longleftrightarrow> v = JStr s"
  by (cases v) simp_all

lemma json_norm_JNull [simp]: "json_norm v = JNull \<longleftrightarrow> v = JNull"
  by (cases v) simp_all

text \<open>A session grows by one event, or stays.\<close>

definition event_added :: "session_store \<Rightarrow> string \<Rightarrow> string \<Rightarrow> dict \<Rightarrow> session_store \<Rightarrow> bool" where
  "event_added st sid t p st' \<longleftrightarrow> (\<exists>v v' e. stored st sid v \<and> map_of st' = (map_of st)(sid \<mapsto> Some v') \<and>
     events_of v' = events_of v @ [e] \<and> event_is t e \<and> (\<forall>u. u \<noteq> t \<longrightarrow> \<not> event_is u e) \<and> payload_of e = json_norm (JObj p))"

lemma session_append_grows:
  assumes "sessions_ok H st" "session_append H now w sid n t (JObj p) st = (r, st')"
  shows "(\<exists>e. r = Inl e) \<and> st' = st \<or> (\<exists>doc. r = Inr doc) \<and> sessions_ok H st' \<and> event_added st sid t p st'"
proof (cases r)
  case (Inl e)
  then show ?thesis using failed_call_keeps(1) [of H now w sid n t "JObj p" st] assms(2) by auto
next
  case (Inr doc)
  note a = append_ok [OF assms(1) assms(2) [unfolded Inr]]
  obtain v e where v: "session_load H sid st = Inr v" "events_of (json_norm doc) = events_of v @ [json_norm (JObj e)]"
    "new_event H now (length (events_of v)) t (JObj p) (dget e ''previous_hash'') = Inr e"
    using prepare_append_ok [OF assms(1) a(1)] by metis
  have f: "dget e ''event_type'' = JStr t" "dget e ''payload'' = JObj p" using new_event_fields [OF v(3)] by simp_all
  have "event_added st sid t p st'"
    unfolding event_added_def stored_def a(2) update_conv'
    using load_stored [OF v(1)] v(2) f by (intro exI conjI) (auto simp del: json_norm.simps)
  moreover have "sessions_ok H st'" using sessions_ok_update [OF assms(1) a(3)] by (simp add: a(2))
  ultimately show ?thesis using Inr by simp
qed

lemma writer_append_grows:
  assumes "sessions_ok H st" "writer_append H now w sid t (JObj p) st = (r, st')"
  shows "(\<exists>e. r = Inl e) \<and> st' = st \<or> (\<exists>doc. r = Inr doc) \<and> sessions_ok H st' \<and> event_added st sid t p st'"
proof (cases "session_load H sid st")
  case (Inr doc)
  with assms(2) show ?thesis using session_append_grows [OF assms(1)] by (simp add: writer_append_def)
next
  case (Inl e)
  have "(Inl e, st) = (r, st')" using assms(2) unfolding writer_append_def Inl by simp
  then show ?thesis by blast
qed

lemma engine_turn_grows:
  assumes "sessions_ok H st" "append_engine_turn H fin now w sid base r result failure st = (x, st')"
  shows "(\<exists>e. x = Inl e) \<and> st' = st \<or>
    (\<exists>doc p. x = Inr doc \<and> turn_payload base r result failure fin = Inr p \<and> sessions_ok H st' \<and> event_added st sid ''run.engine_turn'' p st')"
proof (cases "turn_payload base r result failure fin")
  case (Inl e)
  then show ?thesis using assms(2) by (auto simp: append_engine_turn_def)
next
  case (Inr p)
  obtain y st1 where y: "writer_append H now w sid ''run.engine_turn'' (JObj p) st = (y, st1)" by fastforce
  with assms(2) Inr have "x = store_result y" "st' = st1" by (simp_all add: append_engine_turn_def)
  then show ?thesis using writer_append_grows [OF assms(1) y] Inr by (cases y) (auto simp: store_result_def)
qed

text \<open>All sessions stay, with the events they have.\<close>

definition extends :: "session_store \<Rightarrow> session_store \<Rightarrow> bool" where
  "extends st st' \<longleftrightarrow> (\<forall>sid v. stored st sid v \<longrightarrow> (\<exists>v' es. stored st' sid v' \<and> events_of v' = events_of v @ es))"

lemma extends_refl [simp]: "extends st st"
  unfolding extends_def by (metis append_Nil2)

lemma extends_trans: "extends st st1 \<Longrightarrow> extends st1 st2 \<Longrightarrow> extends st st2"
  unfolding extends_def by (metis append_assoc)

lemma event_added_extends: "event_added st sid t p st' \<Longrightarrow> extends st st'"
  unfolding event_added_def extends_def stored_def by (metis append_Nil2 map_upd_Some_unfold option.inject)

lemma created_extend:
  assumes "events_of v' = events_of v @ es" "events_of v \<noteq> []"
  shows "first_payload v' = first_payload v" "created_of v' = created_of v" "is_run v' = is_run v" "run_named r v' = run_named r v"
proof -
  show f: "first_payload v' = first_payload v" using assms by (cases "events_of v") (simp_all add: first_payload_def)
  then show "created_of v' = created_of v" by (simp add: created_of_def)
  then show "is_run v' = is_run v" "run_named r v' = run_named r v" by (simp_all add: is_run_def run_named_def)
qed

lemma run_session_events: "run_session v \<Longrightarrow> events_of v \<noteq> []"
  by (auto simp: run_session_def first_payload_def split: list.splits)

lemma life_ok_event_added:
  assumes "life_ok H st" "sessions_ok H st'" "event_added st sid t p st'"
  shows "life_ok H st'"
proof -
  obtain v v' e where g: "stored st sid v" "map_of st' = (map_of st)(sid \<mapsto> Some v')" "events_of v' = events_of v @ [e]"
    "payload_of e = json_norm (JObj p)" using assms(3) by (auto simp: event_added_def)
  have v: "run_session v" using life_ok_stored(2) [OF assms(1) g(1)] .
  note c = created_extend [OF g(3) run_session_events [OF v]]
  have v': "run_session v'" using v g(4) by (auto simp: run_session_def c(1) payloads_ok_def g(3))
  have st: "stored st' x w \<longleftrightarrow> (if x = sid then w = v' else stored st x w)" for x w
    by (auto simp: stored_def g(2))
  have old: "\<exists>w'. stored st x w' \<and> (\<forall>r. run_named r w' = run_named r w)" if "stored st' x w" for x w
    using that g(1) c(4) by (auto simp: st split: if_split_asm)
  show ?thesis
    unfolding life_ok_def
  proof (intro conjI allI impI)
    show "run_session w" if "stored st' x w" for x w
      using that v' life_ok_stored(2) [OF assms(1)] by (auto simp: st split: if_split_asm)
    show "x = x'" if "stored st' x w" "stored st' x' w'" "run_named r w" "run_named r w'" for x x' w w' r
      using old [OF that(1)] old [OF that(2)] that(3,4) assms(1) unfolding life_ok_def by metis
  qed (rule assms(2))
qed

section \<open>The status of a Run\<close>

definition run_status :: "json \<Rightarrow> json" where
  "run_status v = (case last_run_status v of Inr s \<Rightarrow> s | Inl _ \<Rightarrow> JNull)"

definition active :: "json \<Rightarrow> bool" where
  "active v \<longleftrightarrow> run_status v \<notin> JStr ` set (''review_submitted'' # TERMINAL_STATUSES)"

definition run_of_issue :: "string \<Rightarrow> json \<Rightarrow> bool" where
  "run_of_issue issue_ref v \<longleftrightarrow> is_run v \<and> dget (created_of v) ''issue_id'' = JStr issue_ref"

definition has_created :: "json \<Rightarrow> bool" where
  "has_created v \<longleftrightarrow> (\<exists>e\<in>set (events_of v). event_is ''run.created'' e)"

lemma status_in_total: "payloads_ok es \<Longrightarrow> \<exists>s. status_in es = Inr s"
  by (induction es) (auto simp: payloads_ok_def RUN_EVENTS_def is_obj_iff split: json.split)

lemma last_run_status_ok: "run_session v \<Longrightarrow> last_run_status v = Inr (run_status v)"
proof -
  assume "run_session v"
  then have "payloads_ok (rev (events_of v))" by (simp add: run_session_def payloads_ok_def)
  from status_in_total [OF this] show ?thesis by (auto simp: last_run_status_def run_status_def)
qed

text \<open>The status after one more event.\<close>

definition status_after :: "string \<Rightarrow> dict \<Rightarrow> json \<Rightarrow> json" where
  "status_after t p old = (if t = ''run.review_submitted'' then JStr ''review_submitted''
     else if t = ''run.engine_turn'' then json_norm (dget_or p ''status'' (JStr ''failed''))
     else if t = ''run.running'' then JStr ''running'' else old)"

lemma added_status:
  assumes "run_session v" "events_of v' = events_of v @ [e]" "event_is t e" "\<forall>u. u \<noteq> t \<longrightarrow> \<not> event_is u e"
    "payload_of e = json_norm (JObj p)"
  shows "run_status v' = status_after t p (run_status v)"
proof -
  have "status_in (rev (events_of v)) = Inr (run_status v)"
    using last_run_status_ok [OF assms(1)] by (simp add: last_run_status_def)
  then show ?thesis using assms(2-5) by (auto simp: run_status_def last_run_status_def status_after_def)
qed

text \<open>Reading a store after one event was added to a session.\<close>

lemma event_added_stored: "event_added st sid t p st' \<Longrightarrow> \<exists>v. stored st sid v"
  by (auto simp: event_added_def)

lemma event_added_cases:
  assumes "life_ok H st" "event_added st sid t p st'" "stored st sid v"
  obtains v' where "stored st' sid v'" "\<And>x w. x \<noteq> sid \<Longrightarrow> stored st' x w \<longleftrightarrow> stored st x w"
    "created_of v' = created_of v" "is_run v' = is_run v" "run_status v' = status_after t p (run_status v)"
    "has_created v' \<longleftrightarrow> has_created v \<or> t = ''run.created''" "\<exists>e. events_of v' = events_of v @ [e]"
proof -
  obtain v' e where g: "stored st sid v" "map_of st' = (map_of st)(sid \<mapsto> Some v')" "events_of v' = events_of v @ [e]"
    "event_is t e" "\<forall>u. u \<noteq> t \<longrightarrow> \<not> event_is u e" "payload_of e = json_norm (JObj p)"
    using assms(2,3) by (auto simp: event_added_def dest: stored_unique)
  have v: "run_session v" using life_ok_stored(2) [OF assms(1) g(1)] .
  note c = created_extend [OF g(3) run_session_events [OF v]]
  have h: "has_created v' \<longleftrightarrow> has_created v \<or> t = ''run.created''"
    using g(4,5) by (auto simp: has_created_def g(3))
  show thesis
    using g(1,2) added_status [OF v g(3-6)] h g(3) by (intro that [OF _ _ c(2,3)]) (auto simp: stored_def)
qed

lemma first_active_None:
  assumes "\<forall>(sid, v)\<in>set docs. run_session v" "first_active issue_ref docs = Inr None" "(sid, v) \<in> set docs"
    "dget (created_of v) ''issue_id'' = JStr issue_ref"
  shows "\<not> active v"
  using assms
proof (induction docs)
  case (Cons d docs)
  obtain x w where d: "d = (x, w)" by (cases d)
  have w: "run_session w" using Cons.prems(1) by (simp add: d)
  show ?case
  proof (cases "d = (sid, v)")
    case True
    then have "w = v" by (simp add: d)
    with Cons.prems(2,4) w show ?thesis
      by (auto simp: d first_payload_created attr_def last_run_status_ok status_among_def active_def result_simps split: if_split_asm)
  next
    case False
    have "first_active issue_ref docs = Inr None"
      using Cons.prems(2) w
      by (auto simp: d first_payload_created attr_def last_run_status_ok status_among_def result_simps split: if_split_asm)
    then show ?thesis using Cons False by simp
  qed
qed simp

lemma active_run_None:
  assumes "life_ok H st" "active_run_for_issue H st issue_ref = Inr None" "stored st sid v" "run_of_issue issue_ref v"
  shows "\<not> active v"
proof -
  obtain docs where d: "scan_sessions H st = Inr docs" "set docs = {(sid, v). stored st sid v \<and> is_run v}"
    by (rule scan_ok [OF assms(1)])
  have "\<forall>(sid, v)\<in>set docs. run_session v" using life_ok_stored(2) [OF assms(1)] by (auto simp: d(2))
  from first_active_None [OF this] show ?thesis
    using assms(2-4) d by (auto simp: active_run_for_issue_def run_of_issue_def)
qed

section \<open>What a creation does\<close>

definition fresh_ids :: "life_world \<Rightarrow> session_store \<Rightarrow> bool" where
  "fresh_ids w st \<longleftrightarrow> map_of st (''session_'' @ lw_uuid w) = None \<and>
     list_all (\<lambda>kv. case snd kv of None \<Rightarrow> True | Some v \<Rightarrow> \<not> run_named (lw_run_id w) v) st"

lemma fresh_ids_stored: "fresh_ids w st \<Longrightarrow> stored st sid v \<Longrightarrow> \<not> run_named (lw_run_id w) v"
  by (fastforce simp: fresh_ids_def stored_def list_all_iff dest: map_of_SomeD)

definition session_added :: "session_store \<Rightarrow> string \<Rightarrow> string \<Rightarrow> json \<Rightarrow> session_store \<Rightarrow> bool" where
  "session_added st sid r issue_ref st' \<longleftrightarrow> map_of st sid = None \<and> (\<exists>v. map_of st' = (map_of st)(sid \<mapsto> Some v) \<and> run_session v \<and>
     run_named r v \<and> json_norm issue_ref = dget (created_of v) ''issue_id'' \<and> run_status v = JStr ''created'' \<and> \<not> has_created v)"

lemma session_create_adds:
  assumes "sessions_ok H st" "map_of st (''session_'' @ u) = None"
    "session_create H now u w task [(''run_id'', JStr r), (''issue_id'', i), (''worker_role'', wr), (''runtime'', rt)] st = (x, st')"
  shows "(\<exists>e. x = Inl e) \<and> st' = st \<or> (\<exists>doc. x = Inr doc) \<and> sessions_ok H st' \<and> session_added st (''session_'' @ u) r i st'"
proof (cases x)
  case (Inl e)
  then show ?thesis using failed_call_keeps(2) assms(3) by (metis fst_conv snd_conv)
next
  case (Inr doc)
  let ?opt = "[(''run_id'', JStr r), (''issue_id'', i), (''worker_role'', wr), (''runtime'', rt)]"
  note c = create_ok [OF assms(3) [unfolded Inr]]
  obtain e where e: "dget e ''event_type'' = JStr ''session.created''" "dget e ''payload'' = JObj (create_payload task ?opt)"
    "events_of (json_norm doc) = [json_norm (JObj e)]"
    using session_create_events [OF assms(3) [unfolded Inr]] by auto
  let ?v = "json_norm doc" and ?c = "sort_key fst (map_vals json_norm (create_payload task ?opt))"
  have f: "first_payload ?v = Inr (JObj ?c)" using e(2) by (simp add: first_payload_def e(3) del: json_norm.simps(2)) simp
  then have cr: "created_of ?v = ?c" by (simp add: created_of_def)
  have none: "\<not> event_is t (json_norm (JObj e))" if "t \<in> set RUN_EVENTS" for t
    using that by (auto simp: e(1) RUN_EVENTS_def simp del: json_norm.simps(2))
  have "run_session ?v" using none by (auto simp: run_session_def f payloads_ok_def e(3) simp del: json_norm.simps(2))
  moreover have "dget (create_payload task ?opt) ''run_id'' = JStr r" "dget (create_payload task ?opt) ''issue_id'' = i"
    by (simp_all add: create_payload_def OPTIONAL_FIELDS_def)
  then have "run_named r ?v \<and> json_norm i = dget (created_of ?v) ''issue_id''" by (simp add: run_named_def cr)
  moreover have "run_status ?v = JStr ''created'' \<and> \<not> has_created ?v"
    using none by (simp add: run_status_def last_run_status_def has_created_def e(3) RUN_EVENTS_def del: json_norm.simps(2))
  moreover have "map_of st' = (map_of st)(''session_'' @ u \<mapsto> Some ?v)" using c by (simp add: update_conv')
  ultimately have "session_added st (''session_'' @ u) r i st'" unfolding session_added_def using assms(2) by blast
  moreover have "sessions_ok H st'" using c sessions_ok_update [OF assms(1)] by simp
  ultimately show ?thesis using Inr by simp
qed

lemma session_added_extends: "session_added st sid r i st' \<Longrightarrow> extends st st'"
  by (auto simp: session_added_def extends_def stored_def)

lemma life_ok_session_added:
  assumes "life_ok H st" "sessions_ok H st'" "session_added st sid r i st'" "\<And>x v. stored st x v \<Longrightarrow> \<not> run_named r v"
  shows "life_ok H st'"
proof -
  obtain v where g: "map_of st' = (map_of st)(sid \<mapsto> Some v)" "run_session v" "run_named r v"
    using assms(3) by (auto simp: session_added_def)
  have st: "stored st' x w \<longleftrightarrow> (if x = sid then w = v else stored st x w)" for x w by (auto simp: stored_def g(1))
  have r: "run_named q v \<longleftrightarrow> q = r" for q using g(3) by (auto simp: run_named_def)
  show ?thesis
    unfolding life_ok_def
  proof (intro conjI allI impI)
    show "run_session w" if "stored st' x w" for x w
      using that g(2) life_ok_stored(2) [OF assms(1)] by (auto simp: st split: if_split_asm)
    show "x = x'" if "stored st' x w" "stored st' x' w'" "run_named q w" "run_named q w'" for x x' w w' q
      using that assms(1,4) r unfolding st life_ok_def by (metis (full_types))
  qed (rule assms(2))
qed

text \<open>How far a creation gets: nothing, the session alone, the session with its \<open>run.created\<close>, or all.\<close>

definition creation :: "hostlib \<Rightarrow> session_store \<Rightarrow> string \<Rightarrow> string \<Rightarrow> json \<Rightarrow> session_store \<Rightarrow> bool \<Rightarrow> bool \<Rightarrow> bool" where
  "creation H st sid r issue_ref st' created running \<longleftrightarrow> life_ok H st' \<and> (\<exists>st0. session_added st sid r issue_ref st0 \<and> life_ok H st0 \<and>
     (if \<not> created then \<not> running \<and> st' = st0
      else (\<exists>st1 p q. event_added st0 sid ''run.created'' p st1 \<and> life_ok H st1 \<and>
        (if \<not> running then st' = st1 else event_added st1 sid ''run.running'' q st'))))"

lemma create_run_effect:
  assumes "life_ok (lh_lib L) st" "fresh_ids w st" "create_run L w args binding st = (r, st')"
  shows "(\<exists>e. r = Inl e) \<and> st' = st \<or>
    (\<exists>p c. create_checks L (lw_run_id w) args binding st = Inr p \<and> lw_writes w 0 \<and>
      creation (lh_lib L) st (''session_'' @ lw_uuid w) (lw_run_id w) (dget args ''issue_ref'') st' c (\<exists>x. r = Inr x) \<and>
      (c \<longrightarrow> lw_writes w 1 \<and> finite_json (JObj p)) \<and> (\<forall>v job. r = Inr (v, job) \<longrightarrow> wj_session_id job = ''session_'' @ lw_uuid w))"
proof -
  let ?H = "lh_lib L" and ?sid = "''session_'' @ lw_uuid w" and ?r = "lw_run_id w" and ?i = "dget args ''issue_ref''"
  let ?opt = "[(''run_id'', JStr ?r), (''issue_id'', ?i), (''worker_role'', dget args ''worker_role''), (''runtime'', dget args ''engine_id'')]"
  have ok: "sessions_ok ?H st" using assms(1) by (simp add: life_ok_def)
  have none: "map_of st ?sid = None" using assms(2) by (simp add: fresh_ids_def)
  show ?thesis
  proof (cases "create_checks L ?r args binding st")
    case (Inl e)
    then show ?thesis using assms(3) by (auto simp: create_run_def Let_def)
  next
    case (Inr p)
    obtain x st0 where x: "session_create ?H (lw_stamp w 0) (lw_uuid w) (lw_writes w 0) (dget args ''task_id'') ?opt st = (x, st0)" by fastforce
    show ?thesis
    proof (cases x)
      case (Inl e)
      then have "st0 = st" using session_create_adds [OF ok none x] by auto
      with x Inl Inr assms(3) show ?thesis by (auto simp: create_run_def Let_def)
    next
      case x0: (Inr doc)
      then have a: "sessions_ok ?H st0" "session_added st ?sid ?r ?i st0" using session_create_adds [OF ok none x] by auto
      have w0: "lw_writes w 0" using x x0
        by (auto simp: session_create_def atomic_write_def Let_def split: if_split_asm sum.split_asm option.split_asm)
      have l0: "life_ok ?H st0" by (rule life_ok_session_added [OF assms(1) a]) (rule fresh_ids_stored [OF assms(2)])
      obtain y st1 where y: "session_append ?H (lw_stamp w 1) (lw_writes w 1) ?sid 0 ''run.created'' (JObj p) st0 = (y, st1)" by fastforce
      note y' = session_append_grows [OF a(1) y]
      show ?thesis
      proof (cases y)
        case (Inl e)
        then have "st1 = st0" using y' by auto
        then have "r = Inl (Store_error e)" "st' = st0" using assms(3) x x0 y Inl Inr by (simp_all add: create_run_def Let_def)
        then show ?thesis using Inr w0 l0 a(2) by (intro disjI2 exI [of _ p] exI [of _ False]) (auto simp: creation_def)
      next
        case y0: (Inr doc1)
        then have b: "sessions_ok ?H st1" "event_added st0 ?sid ''run.created'' p st1" using y' by auto
        have w1: "lw_writes w 1" "finite_json (JObj p)" using y y0
          by (auto simp: session_append_def atomic_write_def prepare_append_def new_event_Inr result_simps simp del: finite_json.simps
              split: if_split_asm sum.split_asm option.split_asm json.split_asm)
        have l1: "life_ok ?H st1" by (rule life_ok_event_added [OF l0 b])
        let ?q = "[(''run_id'', JStr ?r), (''started_at'', JStr (lw_clock w 0))]"
        obtain z st2 where z: "session_append ?H (lw_stamp w 2) (lw_writes w 2) ?sid 1 ''run.running'' (JObj ?q) st1 = (z, st2)" by fastforce
        note z' = session_append_grows [OF b(1) z]
        show ?thesis
        proof (cases z)
          case (Inl e)
          then have "st2 = st1" using z' by auto
          then have "r = Inl (Store_error e)" "st' = st1" using assms(3) x x0 y y0 z Inl Inr by (simp_all add: create_run_def Let_def)
          then show ?thesis using Inr w0 w1 l0 l1 a(2) b(2)
            by (intro disjI2 exI [of _ p] exI [of _ True]) (auto simp: creation_def)
        next
          case z0: (Inr doc2)
          then have c: "sessions_ok ?H st2" "event_added st1 ?sid ''run.running'' ?q st2" using z' by auto
          have l2: "life_ok ?H st2" by (rule life_ok_event_added [OF l1 c])
          obtain v job where "r = Inr (v, job)" "wj_session_id job = ?sid" "st' = st2"
            using assms(3) x x0 y y0 z z0 Inr by (auto simp: create_run_def Let_def envelope_of_def safe_cost_def is_number_def)
          then show ?thesis using Inr w0 w1 l0 l1 l2 a(2) b(2) c(2)
            by (intro disjI2 exI [of _ p] exI [of _ True]) (auto simp: creation_def)
        qed
      qed
    qed
  qed
qed

lemma creation_life_ok: "creation H st sid r i st' c d \<Longrightarrow> life_ok H st'"
  by (simp add: creation_def)

text \<open>The store a creation leaves.\<close>

lemma creation_cases:
  assumes "creation H st sid r i st' c d"
  obtains v where "map_of st sid = None" "stored st' sid v" "\<And>x w. x \<noteq> sid \<Longrightarrow> stored st' x w \<longleftrightarrow> stored st x w"
    "run_named r v" "dget (created_of v) ''issue_id'' = json_norm i" "run_status v = (if d then JStr ''running'' else JStr ''created'')"
    "has_created v \<longleftrightarrow> c" "extends st st'"
proof -
  obtain st0 where st0: "session_added st sid r i st0" "life_ok H st0"
    and rest: "if \<not> c then \<not> d \<and> st' = st0 else (\<exists>st1 p q. event_added st0 sid ''run.created'' p st1 \<and> life_ok H st1 \<and>
        (if \<not> d then st' = st1 else event_added st1 sid ''run.running'' q st'))"
    using assms by (auto simp: creation_def)
  obtain v where v: "map_of st sid = None" "map_of st0 = (map_of st)(sid \<mapsto> Some v)" "run_named r v"
    "dget (created_of v) ''issue_id'' = json_norm i" "run_status v = JStr ''created''" "\<not> has_created v"
    using st0(1) by (auto simp: session_added_def)
  have s0: "stored st0 sid v" "\<And>x w. x \<noteq> sid \<Longrightarrow> stored st0 x w \<longleftrightarrow> stored st x w" by (auto simp: stored_def v(2))
  have e0: "extends st st0" by (rule session_added_extends [OF st0(1)])
  show thesis
  proof (cases c)
    case False
    then show ?thesis using rest s0 v e0 by (intro that [of v]) auto
  next
    case True
    then obtain st1 p q where one: "event_added st0 sid ''run.created'' p st1" "life_ok H st1"
      and two: "if \<not> d then st' = st1 else event_added st1 sid ''run.running'' q st'" using rest by auto
    obtain v1 where v1: "stored st1 sid v1" "\<And>x w. x \<noteq> sid \<Longrightarrow> stored st1 x w \<longleftrightarrow> stored st0 x w" "created_of v1 = created_of v"
      "run_status v1 = JStr ''created''" "has_created v1"
      by (rule event_added_cases [OF st0(2) one(1) s0(1)]) (use v(5) in \<open>auto simp: status_after_def\<close>)
    have e1: "extends st st1" using e0 event_added_extends [OF one(1)] by (rule extends_trans)
    show ?thesis
    proof (cases d)
      case False
      then show ?thesis using two s0 v v1 e1 True by (intro that [of v1]) (auto simp: run_named_def)
    next
      case d: True
      have two': "event_added st1 sid ''run.running'' q st'" using two d by simp
      obtain v2 where v2: "stored st' sid v2" "\<And>x w. x \<noteq> sid \<Longrightarrow> stored st' x w \<longleftrightarrow> stored st1 x w" "created_of v2 = created_of v1"
        "run_status v2 = JStr ''running''" "has_created v2"
        by (rule event_added_cases [OF one(2) two' v1(1)]) (use v1(5) in \<open>auto simp: status_after_def\<close>)
      have e2: "extends st st'" using e1 event_added_extends [OF two'] by (rule extends_trans)
      show ?thesis
      proof (rule that [OF v(1) v2(1)])
        show "stored st' x w \<longleftrightarrow> stored st x w" if "x \<noteq> sid" for x w using that s0(2) v1(2) v2(2) by simp
      qed (use v v1(3) v2 True d e2 in \<open>simp_all add: run_named_def\<close>)
    qed
  qed
qed

lemma creation_extends: "creation H st sid r i st' c d \<Longrightarrow> extends st st'"
  by (erule creation_cases)

section \<open>What turns and submissions do\<close>

definition terminal_answer :: "engine_answer \<Rightarrow> bool" where
  "terminal_answer a \<longleftrightarrow> (case a of
     Answers (JObj r) \<Rightarrow> dget_or r ''status'' (JStr ''failed'') \<in> JStr ` set TERMINAL_STATUSES
   | _ \<Rightarrow> True)"

definition turn_added :: "hostlib \<Rightarrow> life_world \<Rightarrow> session_store \<Rightarrow> string \<Rightarrow> session_store \<Rightarrow> bool" where
  "turn_added H w st sid st' \<longleftrightarrow> life_ok H st' \<and> (\<exists>p. event_added st sid ''run.engine_turn'' p st' \<and>
     (terminal_answer (lw_answer w) \<longrightarrow> dget_or p ''status'' (JStr ''failed'') \<in> JStr ` set TERMINAL_STATUSES))"

lemma turn_payload_status:
  "turn_payload base r result failure fin = Inr p \<Longrightarrow>
    dget_or p ''status'' (JStr ''failed'') = (if failure = None then dget_or result ''status'' (JStr ''failed'') else JStr ''failed'')"
  by (auto simp: turn_payload_def dget_or_def result_simps)

lemma failed_terminal [simp]: "JStr ''failed'' \<in> JStr ` set TERMINAL_STATUSES"
  by (simp add: TERMINAL_STATUSES_def)

lemma engine_turn_added:
  assumes "life_ok H st" "append_engine_turn H fin now wr sid base r result failure st = (x, st')"
    and "failure \<noteq> None \<or> lw_answer w = Answers (JObj result)"
  shows "(\<exists>e. x = Inl e) \<and> st' = st \<or> (\<exists>doc. x = Inr doc) \<and> turn_added H w st sid st'"
proof -
  have ok: "sessions_ok H st" using assms(1) by (simp add: life_ok_def)
  consider "(\<exists>e. x = Inl e) \<and> st' = st" | doc p where "x = Inr doc" "turn_payload base r result failure fin = Inr p" "sessions_ok H st'"
    "event_added st sid ''run.engine_turn'' p st'"
    using engine_turn_grows [OF ok assms(2)] by blast
  then show ?thesis
  proof cases
    case 2
    have "turn_added H w st sid st'"
      unfolding turn_added_def using turn_payload_status [OF 2(2)] life_ok_event_added [OF assms(1) 2(3,4)] 2(4) assms(3)
      by (auto simp: terminal_answer_def)
    with 2(1) show ?thesis by blast
  qed blast
qed

lemma fail_turn_added:
  assumes "life_ok H st"
  shows "fail_turn H w i j m st = st \<or> turn_added H w st (wj_session_id j) (fail_turn H w i j m st)"
proof -
  obtain x st' where x: "append_engine_turn H (lw_clock w i) (lw_stamp w i) (lw_writes w i) (wj_session_id j) (wj_run_created j) (wj_run_id j)
       [] (Some (failure_of m)) st = (x, st')" by fastforce
  have "fail_turn H w i j m st = st'" by (simp add: fail_turn_def x)
  then show ?thesis using engine_turn_added [OF assms x, of w] by auto
qed

lemma worker_turn_effect:
  assumes "life_ok (lh_lib L) st" "worker_turn L w j st = (ivs, st')"
  shows "st' = st \<or> turn_added (lh_lib L) w st (wj_session_id j) st'"
proof -
  note f = fail_turn_added [OF assms(1)]
  show ?thesis
  proof (cases "job_invocation j")
    case (Inl e)
    then have "st' = fail_turn (lh_lib L) w 0 j (lh_text L e) st" using assms(2) by (simp add: worker_turn_def)
    then show ?thesis using f by simp
  next
    case (Inr iv)
    show ?thesis
    proof (cases "\<exists>r. lw_answer w = Answers (JObj r)")
      case True
      then obtain r where r: "lw_answer w = Answers (JObj r)" by auto
      obtain x st1 where x: "append_engine_turn (lh_lib L) (lw_clock w 0) (lw_stamp w 0) (lw_writes w 0) (wj_session_id j) (wj_run_created j)
          (wj_run_id j) r None st = (x, st1)" by fastforce
      note e = engine_turn_added [OF assms(1) x, of w]
      show ?thesis
      proof (cases x)
        case x1: (Inl e1)
        then have "st1 = st" using e r by auto
        then have "st' = fail_turn (lh_lib L) w 1 j (lh_text L e1) st" using assms(2) x x1 r Inr by (simp add: worker_turn_def)
        then show ?thesis using f by simp
      next
        case x2: (Inr doc)
        then have "st' = st1" using assms(2) x r Inr by (simp add: worker_turn_def)
        then show ?thesis using e r x2 by auto
      qed
    next
      case False
      then obtain m where "st' = fail_turn (lh_lib L) w 0 j m st"
        using assms(2) Inr by (auto simp: worker_turn_def split: engine_answer.split_asm json.split_asm)
      then show ?thesis using f by simp
    qed
  qed
qed

lemma resume_failed_effect:
  assumes "life_ok (lh_lib L) st" "resume_failed L w sid r i m st = (x, st')"
  shows "(\<exists>e. x = Inl e) \<and> (st' = st \<or> turn_added (lh_lib L) w st sid st')"
proof -
  obtain y st1 where y: "append_engine_turn (lh_lib L) (lw_clock w 1) (lw_stamp w 0) (lw_writes w 0) sid (resume_base r i) (text_of r)
         [] (Some (failure_of m)) st = (y, st1)" by fastforce
  then show ?thesis using engine_turn_added [OF assms(1) y, of w] assms(2) by (cases y) (auto simp: resume_failed_def)
qed

lemma resume_run_effect:
  assumes "life_ok (lh_lib L) st" "resume_run L w args binding st = (r, ivs, st')"
  shows "(\<exists>e. r = Inl e) \<and> ivs = [] \<and> st' = st \<or> (\<exists>sid i. resume_checks L args binding st = Inr (sid, i) \<and>
    (st' = st \<or> turn_added (lh_lib L) w st sid st') \<and> ((\<exists>v. r = Inr v) \<longrightarrow> turn_added (lh_lib L) w st sid st') \<and>
    (\<forall>iv\<in>set ivs. resume_invocation args i = Inr iv))"
proof (cases "resume_checks L args binding st")
  case (Inl e)
  then show ?thesis using assms(2) by (auto simp: resume_run_def)
next
  case (Inr x)
  then obtain sid i where c: "resume_checks L args binding st = Inr (sid, i)" by (cases x) auto
  note f = resume_failed_effect [OF assms(1)]
  have "(st' = st \<or> turn_added (lh_lib L) w st sid st') \<and> ((\<exists>v. r = Inr v) \<longrightarrow> turn_added (lh_lib L) w st sid st') \<and>
    (\<forall>iv\<in>set ivs. resume_invocation args i = Inr iv)"
  proof (cases "resume_invocation args i")
    case (Inl e)
    obtain y st1 where y: "resume_failed L w sid (dget args ''run_id'') i (lh_text L e) st = (y, st1)" by fastforce
    then show ?thesis using assms(2) f [OF y] by (auto simp: resume_run_def c Inl Let_def)
  next
    case (Inr iv)
    show ?thesis
    proof (cases "\<exists>p. lw_answer w = Answers (JObj p)")
      case True
      then obtain p where p: "lw_answer w = Answers (JObj p)" by auto
      obtain y st1 where y: "append_engine_turn (lh_lib L) (lw_clock w 1) (lw_stamp w 0) (lw_writes w 0) sid (resume_base (dget args ''run_id'') i)
          (text_of (dget args ''run_id'')) p None st = (y, st1)" by fastforce
      show ?thesis using engine_turn_added [OF assms(1) y, of w] assms(2) p
        by (cases y) (auto simp: resume_run_def c Inr Let_def y simp del: One_nat_def)
    next
      case False
      then obtain m y st1 where y: "resume_failed L w sid (dget args ''run_id'') i m st = (y, st1)" and e: "r = y" "ivs = [iv]" "st' = st1"
        using assms(2) by (auto simp: resume_run_def c Inr Let_def split: engine_answer.split_asm json.split_asm prod.split_asm)
      then show ?thesis using f [OF y] Inr by auto
    qed
  qed
  with c show ?thesis by blast
qed

lemma submit_effect:
  assumes "life_ok (lh_lib L) st" "submit_for_review L w args binding st = (r, st')"
  shows "st' = st \<or> (\<exists>sid doc i status p. submit_checks L args binding st = Inr (sid, doc, i, status) \<and> life_ok (lh_lib L) st' \<and>
    event_added st sid ''run.review_submitted'' p st')"
proof (cases "submit_checks L args binding st")
  case (Inl e)
  then show ?thesis using assms(2) by (simp add: submit_for_review_def)
next
  case (Inr x)
  then obtain sid doc i status where c: "submit_checks L args binding st = Inr (sid, doc, i, status)" by (cases x) auto
  have ok: "sessions_ok (lh_lib L) st" using assms(1) by (simp add: life_ok_def)
  show ?thesis
  proof (cases "find_submission (text_of (dget args ''idempotency_key'')) (events_of doc) = Inr None \<and>
      (\<exists>d. payload_digest (lh_lib L) (as_dict (dget args ''result'')) = Inr d)")
    case True
    then obtain d where d: "find_submission (text_of (dget args ''idempotency_key'')) (events_of doc) = Inr None"
      "payload_digest (lh_lib L) (as_dict (dget args ''result'')) = Inr d" by auto
    let ?p = "submission_payload (''review_'' @ lw_review_uuid w) args status (lw_clock w 0) d"
    obtain y st1 where y: "writer_append (lh_lib L) (lw_stamp w 0) (lw_writes w 0) sid ''run.review_submitted'' (JObj ?p) st = (y, st1)" by fastforce
    have "st' = st1" using assms(2) y by (cases y) (auto simp: submit_for_review_def c Let_def d)
    then show ?thesis using writer_append_grows [OF ok y] life_ok_event_added [OF assms(1)] c by blast
  next
    case False
    then show ?thesis using assms(2) by (auto simp: submit_for_review_def c Let_def split: sum.split_asm option.split_asm)
  qed
qed

section \<open>The checks of a call\<close>

lemma payloads_ok_obj: "payloads_ok es \<Longrightarrow> e \<in> set es \<Longrightarrow> t \<in> set RUN_EVENTS \<Longrightarrow> event_is t e \<Longrightarrow> \<exists>d. payload_of e = JObj d"
  by (auto simp: payloads_ok_def is_obj_iff)

lemma run_created_obj:
  assumes "run_session v"
  shows "\<exists>rc. run_created_of v = JObj rc \<and> (rc \<noteq> [] \<longrightarrow> has_created v)"
proof (cases "find (event_is ''run.created'') (events_of v)")
  case (Some e)
  then have "e \<in> set (events_of v)" "event_is ''run.created'' e" by (auto simp: find_Some_iff)
  moreover from this obtain d where "payload_of e = JObj d"
    using payloads_ok_obj [of "events_of v" e "''run.created''"] assms by (auto simp: run_session_def RUN_EVENTS_def)
  ultimately show ?thesis using Some by (auto simp: run_created_of_def has_created_def)
qed (simp add: run_created_of_def)

lemma turn_obj:
  assumes "run_session v"
  shows "\<exists>t. turn_or_empty v = JObj t"
proof (cases "filter (event_is ''run.engine_turn'') (events_of v)")
  case Nil
  then show ?thesis by (simp add: turn_or_empty_def last_engine_turn_def)
next
  case (Cons e es)
  let ?l = "last (filter (event_is ''run.engine_turn'') (events_of v))"
  have "?l \<in> set (filter (event_is ''run.engine_turn'') (events_of v))" by (rule last_in_set) (simp add: Cons)
  then obtain d where "payload_of ?l = JObj d"
    using payloads_ok_obj [of "events_of v" ?l "''run.engine_turn''"] assms by (auto simp: run_session_def RUN_EVENTS_def)
  moreover have "last_engine_turn v = Some (payload_of ?l)" by (simp add: last_engine_turn_def Cons)
  ultimately show ?thesis by (simp add: turn_or_empty_def or_else_def)
qed

lemma identity_ok:
  assumes "run_session v"
  obtains i t rc where "run_identity_of v = Inr i" "ri_status i = run_status v" "ri_run_id i = dget (created_of v) ''run_id''"
    "ri_issue_ref i = dget (created_of v) ''issue_id''" "ri_scope_fingerprint i \<noteq> JNull \<longrightarrow> has_created v"
    "turn_or_empty v = JObj t" "ri_session_id i = dget t ''session_id''" "run_created_of v = JObj rc"
    "ri_scope_fingerprint i = dget rc ''scope_fingerprint''"
proof -
  obtain rc t where o: "run_created_of v = JObj rc" "rc \<noteq> [] \<longrightarrow> has_created v" "turn_or_empty v = JObj t"
    using run_created_obj [OF assms] turn_obj [OF assms] by auto
  obtain i where i: "run_identity_of v = Inr i"
    by (simp add: run_identity_of_def first_payload_created [OF assms] last_run_status_ok [OF assms] o)
  moreover have "dget rc ''scope_fingerprint'' \<noteq> JNull \<longrightarrow> has_created v" using o(2) by auto
  ultimately show thesis using o
    by (intro that [of i t rc]) (auto simp: run_identity_of_def first_payload_created [OF assms] last_run_status_ok [OF assms])
qed

lemma matched_run_Inr:
  assumes "life_ok H st" "matched_run H st r issue_ref = Inr (sid, v, i)"
  shows "stored st sid v" "run_named r v" "run_identity_of v = Inr i" "ri_status i = run_status v"
    "issue_ref \<noteq> JNull \<Longrightarrow> dget (created_of v) ''issue_id'' = issue_ref"
proof -
  have f: "find_run H st r = Inr (Some (sid, v))" and i: "run_identity_of v = Inr i" and m: "issue_ref \<noteq> JNull \<Longrightarrow> ri_issue_ref i = issue_ref"
    using assms(2) by (auto simp: matched_run_def result_simps split: option.split_asm if_split_asm)
  show s: "stored st sid v" "run_named r v" "run_identity_of v = Inr i"
    using f i find_run_Some [OF assms(1)] by simp_all
  obtain j where j: "run_identity_of v = Inr j" "ri_status j = run_status v" "ri_issue_ref j = dget (created_of v) ''issue_id''"
    by (rule identity_ok [OF life_ok_stored(2) [OF assms(1) s(1)]])
  then show "ri_status i = run_status v" "issue_ref \<noteq> JNull \<Longrightarrow> dget (created_of v) ''issue_id'' = issue_ref"
    using i m by simp_all
qed

lemma valid_issue_ref: "validate_issue_ref v = Inr () \<Longrightarrow> \<exists>s. v = JStr s \<and> issue_ref_re s"
  by (auto simp: validate_issue_ref_def ensure_def split: json.split_asm if_split_asm)

lemma valid_run_id: "validate_run_id v = Inr () \<Longrightarrow> \<exists>s. v = JStr s \<and> life_run_id_re s"
  by (auto simp: validate_run_id_def ensure_def split: json.split_asm if_split_asm)

text \<open>What a resume that reaches the engine has checked.\<close>

lemma resume_checks_Inr:
  assumes "life_ok (lh_lib L) st" "resume_checks L args binding st = Inr (sid, i)"
  obtains v issue_ref r where "stored st sid v" "run_named r v" "dget args ''run_id'' = JStr r" "dget args ''issue_ref'' = JStr issue_ref"
    "dget binding ''issue_ref'' = JStr issue_ref" "run_of_issue issue_ref v" "run_identity_of v = Inr i"
    "run_status v \<noteq> JStr ''running''" "run_status v \<notin> JStr ` {''succeeded'', ''budget_exceeded'', ''cancelled''}"
    "hashable (run_status v)" "ri_session_id i \<noteq> JNull \<or> run_status v = JStr ''created''"
    "\<exists>engine. ri_engine_id i = JStr engine \<and> lh_registered L engine"
proof -
  note d = assms(2) [unfolded resume_checks_def Let_def]
  obtain s where s: "dget args ''issue_ref'' = JStr s" using d valid_issue_ref by (auto simp: result_simps)
  obtain r where r: "dget args ''run_id'' = JStr r" using d valid_run_id by (auto simp: result_simps)
  have b: "dget binding ''issue_ref'' = JStr s" using d s by (auto simp: result_simps check_call_binding_def split: if_split_asm)
  obtain v where m: "matched_run (lh_lib L) st r (JStr s) = Inr (sid, v, i)" using d s r by (auto simp: result_simps text_of_def)
  note m' = matched_run_Inr [OF assms(1) m]
  have p: "\<exists>engine. ri_engine_id i = JStr engine \<and> lh_registered L engine"
    using d s r m by (auto simp: result_simps text_of_def has_provider_def split: json.split_asm if_split_asm)
  have st: "run_status v \<noteq> JStr ''running''" "run_status v \<notin> JStr ` {''succeeded'', ''budget_exceeded'', ''cancelled''}"
    "hashable (run_status v)" "ri_session_id i \<noteq> JNull \<or> run_status v = JStr ''created''"
    using d s r m m'(4) by (auto simp: result_simps text_of_def status_among_def TERMINAL_STATUSES_def RESUMABLE_LAST_STATUSES_def
        split: if_split_asm)
  have "run_of_issue s v" using m'(2,5) run_named_is_run by (auto simp: run_of_issue_def)
  then show thesis using that m' s r b p st by blast
qed

lemma submit_checks_Inr:
  assumes "life_ok (lh_lib L) st" "submit_checks L args binding st = Inr (sid, v, i, status)"
  obtains issue_ref r where "stored st sid v" "run_named r v" "dget args ''run_id'' = JStr r" "dget args ''issue_ref'' = JStr issue_ref"
    "run_of_issue issue_ref v" "run_identity_of v = Inr i" "status \<in> set TERMINAL_STATUSES"
    "dget (as_dict (dget args ''result'')) ''status'' = JStr status"
proof -
  note d = assms(2) [unfolded submit_checks_def Let_def]
  obtain s where s: "dget args ''issue_ref'' = JStr s" using d valid_issue_ref by (auto simp: result_simps)
  obtain r where r: "dget args ''run_id'' = JStr r" using d valid_run_id by (auto simp: result_simps)
  have m: "matched_run (lh_lib L) st r (JStr s) = Inr (sid, v, i)" using d s r by (auto simp: result_simps text_of_def)
  note m' = matched_run_Inr [OF assms(1) m]
  have st: "status \<in> set TERMINAL_STATUSES" "dget (as_dict (dget args ''result'')) ''status'' = JStr status"
    using d by (auto simp: result_simps result_status_def split: json.split_asm if_split_asm)
  have "run_of_issue s v" using m'(2,5) run_named_is_run by (auto simp: run_of_issue_def)
  then show thesis using that m' s r st by blast
qed

lemma create_checks_Inr:
  assumes "life_ok (lh_lib L) st" "create_checks L r args binding st = Inr p"
  obtains issue_ref where "dget args ''issue_ref'' = JStr issue_ref"
    "\<And>sid v. stored st sid v \<Longrightarrow> run_of_issue issue_ref v \<Longrightarrow> \<not> active v"
proof -
  note d = assms(2) [unfolded create_checks_def]
  obtain s where s: "dget args ''issue_ref'' = JStr s" using d valid_issue_ref by (auto simp: result_simps)
  have "active_run_for_issue (lh_lib L) st s = Inr None" using d s by (auto simp: result_simps text_of_def)
  then show thesis using that s active_run_None [OF assms(1)] by blast
qed

text \<open>The context of a resume or a submission carries the fingerprint stored when the Run was created.\<close>

lemma context_bound:
  assumes "life_ok (mhost M) st" "build_call_context M st tool args = Inr c" "tool \<in> {RUN_RESUME, RUN_SUBMIT}"
  obtains r sid v rc where "dget args ''run_id'' = JStr r" "stored st sid v" "run_named r v" "run_created_of v = JObj rc" "has_created v"
    "c_fingerprint c = dget rc ''scope_fingerprint''" "c_fingerprint c \<noteq> JNull" "c_issue_ref c = dget args ''issue_ref''"
    "\<exists>s. dget args ''issue_ref'' = JStr s \<and> issue_ref_re s"
proof -
  have t: "tool \<noteq> RUN_CREATE" "RUN_SUBMIT \<noteq> RUN_RESUME" using assms(3) by (auto simp: RUN_CREATE_def RUN_RESUME_def RUN_SUBMIT_def)
  obtain i where i: "resolve_for_context (mhost M) st (dget args ''run_id'') = Inr i" "c_fingerprint c = ri_scope_fingerprint i"
    "c_issue_ref c = dget args ''issue_ref''" "validate_issue_ref (dget args ''issue_ref'') = Inr ()"
    using assms(2,3) t by (auto simp: build_call_context_def tool_context_def result_simps)
  obtain r where r: "dget args ''run_id'' = JStr r" using i(1) valid_run_id by (auto simp: resolve_for_context_def result_simps)
  obtain sid v where v: "find_run (mhost M) st r = Inr (Some (sid, v))" "run_identity_of v = Inr i" "ri_scope_fingerprint i \<noteq> JNull"
    using i(1) by (auto simp: resolve_for_context_def result_simps r text_of_def split: option.split_asm if_split_asm)
  then have s: "stored st sid v" "run_named r v" using find_run_Some [OF assms(1)] by auto
  obtain j t rc where "run_identity_of v = Inr j" "ri_scope_fingerprint j \<noteq> JNull \<longrightarrow> has_created v" "run_created_of v = JObj rc"
    "ri_scope_fingerprint j = dget rc ''scope_fingerprint''"
    by (rule identity_ok [OF life_ok_stored(2) [OF assms(1) s(1)]])
  then show thesis using that [OF r s] i v valid_issue_ref by simp
qed

section \<open>Histories\<close>

text \<open>The server: its store and the worker threads that have not finished. A resume or submission reaches its
  handler through \<open>call_tool\<close>, which builds the call context first. Generated ids are fresh. When the
  server ends its threads end with it.\<close>

record life_state =
  ls_store :: session_store
  ls_jobs :: "worker_job list"

datatype life_op =
    Run_create life_world dict dict
  | Run_work life_world nat
  | Run_resume life_world dict dict
  | Run_submit life_world dict dict
  | Server_dies

definition called :: "life_host \<Rightarrow> session_store \<Rightarrow> string \<Rightarrow> dict \<Rightarrow> bool" where
  "called L st tool args = (case build_call_context (lh_mandate L) st tool args of Inr _ \<Rightarrow> True | Inl _ \<Rightarrow> False)"

fun life_step :: "life_host \<Rightarrow> life_op \<Rightarrow> life_state \<Rightarrow> life_state" where
  "life_step L (Run_create w args binding) s =
     (if \<not> fresh_ids w (ls_store s) then s
      else (case create_run L w args binding (ls_store s) of
        (Inl _, st) \<Rightarrow> s\<lparr>ls_store := st\<rparr>
      | (Inr (_, job), st) \<Rightarrow> s\<lparr>ls_store := st, ls_jobs := ls_jobs s @ [job]\<rparr>))"
| "life_step L (Run_work w k) s =
     (if length (ls_jobs s) \<le> k then s
      else s\<lparr>ls_store := snd (worker_turn L w (ls_jobs s ! k) (ls_store s)), ls_jobs := take k (ls_jobs s) @ drop (Suc k) (ls_jobs s)\<rparr>)"
| "life_step L (Run_resume w args binding) s =
     (if called L (ls_store s) RUN_RESUME args then s\<lparr>ls_store := snd (snd (resume_run L w args binding (ls_store s)))\<rparr> else s)"
| "life_step L (Run_submit w args binding) s =
     (if called L (ls_store s) RUN_SUBMIT args then s\<lparr>ls_store := snd (submit_for_review L w args binding (ls_store s))\<rparr> else s)"
| "life_step L Server_dies s = s\<lparr>ls_jobs := []\<rparr>"

definition no_runs :: life_state where
  "no_runs = \<lparr>ls_store = [], ls_jobs = []\<rparr>"

definition life_inv :: "hostlib \<Rightarrow> life_state \<Rightarrow> bool" where
  "life_inv H s \<longleftrightarrow> life_ok H (ls_store s) \<and> (\<forall>j\<in>set (ls_jobs s). \<exists>v. stored (ls_store s) (wj_session_id j) v \<and> has_created v)"

text \<open>What a step does to the store, by kind.\<close>

definition step_effect :: "life_host \<Rightarrow> life_op \<Rightarrow> life_state \<Rightarrow> session_store \<Rightarrow> bool" where
  "step_effect L q s st' \<longleftrightarrow> (case q of
     Run_create w a b \<Rightarrow> (\<exists>issue_ref c d. dget a ''issue_ref'' = JStr issue_ref \<and>
       creation (lh_lib L) (ls_store s) (''session_'' @ lw_uuid w) (lw_run_id w) (JStr issue_ref) st' c d \<and>
       (\<forall>sid v. stored (ls_store s) sid v \<longrightarrow> run_of_issue issue_ref v \<longrightarrow> \<not> active v))
   | Run_work w k \<Rightarrow> k < length (ls_jobs s) \<and> turn_added (lh_lib L) w (ls_store s) (wj_session_id (ls_jobs s ! k)) st'
   | Run_resume w a b \<Rightarrow> (\<exists>sid v. stored (ls_store s) sid v \<and> has_created v \<and> run_status v \<noteq> JStr ''running'' \<and>
       turn_added (lh_lib L) w (ls_store s) sid st')
   | Run_submit w a b \<Rightarrow> (\<exists>sid v r p. stored (ls_store s) sid v \<and> has_created v \<and> dget a ''run_id'' = JStr r \<and> run_named r v \<and>
       life_ok (lh_lib L) st' \<and> event_added (ls_store s) sid ''run.review_submitted'' p st')
   | Server_dies \<Rightarrow> False)"

lemma resume_step_effect:
  assumes "life_ok (lh_lib L) (ls_store s)" "called L (ls_store s) RUN_RESUME a"
    and "snd (snd (resume_run L w a b (ls_store s))) \<noteq> ls_store s"
  shows "step_effect L (Run_resume w a b) s (snd (snd (resume_run L w a b (ls_store s))))"
proof -
  obtain r ivs st' where r: "resume_run L w a b (ls_store s) = (r, ivs, st')" by (metis prod.collapse)
  obtain sid i where c: "resume_checks L a b (ls_store s) = Inr (sid, i)" and t: "turn_added (lh_lib L) w (ls_store s) sid st'"
    using resume_run_effect [OF assms(1) r] assms(3) by (auto simp: r)
  obtain v n where v: "stored (ls_store s) sid v" "run_named n v" "dget a ''run_id'' = JStr n" "run_status v \<noteq> JStr ''running''"
    by (rule resume_checks_Inr [OF assms(1) c])
  obtain x where "build_call_context (lh_mandate L) (ls_store s) RUN_RESUME a = Inr x"
    using assms(2) by (auto simp: called_def split: sum.split_asm)
  then obtain n' sid' v' where n: "dget a ''run_id'' = JStr n'" "stored (ls_store s) sid' v'" "run_named n' v'" "has_created v'"
    using context_bound [OF assms(1)] by blast
  then have "run_named n v'" using v(3) by simp
  then have "has_created v" using run_unique [OF assms(1) v(1,2) n(2)] n(4) by simp
  then show ?thesis using v t by (auto simp: step_effect_def r)
qed

lemma submit_step_effect:
  assumes "life_ok (lh_lib L) (ls_store s)" "called L (ls_store s) RUN_SUBMIT a"
    and "snd (submit_for_review L w a b (ls_store s)) \<noteq> ls_store s"
  shows "step_effect L (Run_submit w a b) s (snd (submit_for_review L w a b (ls_store s)))"
proof -
  obtain r st' where r: "submit_for_review L w a b (ls_store s) = (r, st')" by fastforce
  obtain sid v i status p where c: "submit_checks L a b (ls_store s) = Inr (sid, v, i, status)" "life_ok (lh_lib L) st'"
    "event_added (ls_store s) sid ''run.review_submitted'' p st'"
    using submit_effect [OF assms(1) r] assms(3) by (auto simp: r)
  obtain n where v: "stored (ls_store s) sid v" "run_named n v" "dget a ''run_id'' = JStr n"
    by (rule submit_checks_Inr [OF assms(1) c(1)])
  obtain x where "build_call_context (lh_mandate L) (ls_store s) RUN_SUBMIT a = Inr x"
    using assms(2) by (auto simp: called_def split: sum.split_asm)
  then obtain n' sid' v' where n: "dget a ''run_id'' = JStr n'" "stored (ls_store s) sid' v'" "run_named n' v'" "has_created v'"
    using context_bound [OF assms(1)] by blast
  then have "run_named n v'" using v(3) by simp
  then have "has_created v" using run_unique [OF assms(1) v(1,2) n(2)] n(4) by simp
  then show ?thesis using v c by (auto simp: step_effect_def r)
qed

lemma step_effect_ok: "step_effect L q s st' \<Longrightarrow> life_ok (lh_lib L) st' \<and> extends (ls_store s) st'"
proof -
  have t: "turn_added H w st sid st' \<Longrightarrow> life_ok H st' \<and> extends st st'" for H w st sid
    by (auto simp: turn_added_def intro: event_added_extends)
  show "step_effect L q s st' \<Longrightarrow> life_ok (lh_lib L) st' \<and> extends (ls_store s) st'"
    by (cases q) (auto simp: step_effect_def dest: t creation_life_ok creation_extends event_added_extends)
qed

lemma has_created_extends: "extends st st' \<Longrightarrow> \<exists>v. stored st sid v \<and> has_created v \<Longrightarrow> \<exists>v. stored st' sid v \<and> has_created v"
  unfolding extends_def has_created_def by (metis Un_iff set_append)

lemma life_step_effect:
  assumes "life_inv (lh_lib L) s"
  shows "life_inv (lh_lib L) (life_step L q s) \<and>
    (ls_store (life_step L q s) = ls_store s \<or> step_effect L q s (ls_store (life_step L q s)))"
proof -
  let ?s = "life_step L q s" and ?H = "lh_lib L"
  have ok: "life_ok ?H (ls_store s)" using assms by (simp add: life_inv_def)
  have e: "(ls_store ?s = ls_store s \<or> step_effect L q s (ls_store ?s)) \<and>
    (\<forall>j\<in>set (ls_jobs ?s). j \<in> set (ls_jobs s) \<or> (\<exists>v. stored (ls_store ?s) (wj_session_id j) v \<and> has_created v))"
  proof (cases q)
    case (Run_create w a b)
    obtain r st' where r: "create_run L w a b (ls_store s) = (r, st')" by fastforce
    show ?thesis
    proof (cases "fresh_ids w (ls_store s) \<and> \<not> ((\<exists>e. r = Inl e) \<and> st' = ls_store s)")
      case False
      then show ?thesis by (auto simp: Run_create r)
    next
      case True
      with create_run_effect [OF ok _ r] obtain p c where p: "create_checks L (lw_run_id w) a b (ls_store s) = Inr p"
        "creation ?H (ls_store s) (''session_'' @ lw_uuid w) (lw_run_id w) (dget a ''issue_ref'') st' c (\<exists>x. r = Inr x)"
        "\<forall>v job. r = Inr (v, job) \<longrightarrow> wj_session_id job = ''session_'' @ lw_uuid w" by auto
      obtain i where i: "dget a ''issue_ref'' = JStr i" "\<And>sid v. stored (ls_store s) sid v \<Longrightarrow> run_of_issue i v \<Longrightarrow> \<not> active v"
        by (rule create_checks_Inr [OF ok p(1)]) blast
      have st: "ls_store ?s = st'" using True by (cases r) (auto simp: Run_create r)
      have "step_effect L q s st'" using p(2) i by (auto simp: step_effect_def Run_create)
      moreover have "\<exists>v. stored st' (wj_session_id j) v \<and> has_created v" if "j \<in> set (ls_jobs ?s)" "j \<notin> set (ls_jobs s)" for j
      proof -
        have "\<exists>v. r = Inr (v, j)" using that True by (cases r) (auto simp: Run_create r)
        then obtain v where v: "r = Inr (v, j)" by blast
        obtain x where "stored st' (''session_'' @ lw_uuid w) x" "has_created x \<longleftrightarrow> c" by (rule creation_cases [OF p(2)])
        moreover have c using p(2) v by (auto simp: creation_def split: if_split_asm)
        ultimately show ?thesis using p(3) v by auto
      qed
      ultimately show ?thesis using st by auto
    qed
  next
    case (Run_work w k)
    show ?thesis
    proof (cases "k < length (ls_jobs s)")
      case True
      obtain ivs st' where r: "worker_turn L w (ls_jobs s ! k) (ls_store s) = (ivs, st')" by fastforce
      show ?thesis using worker_turn_effect [OF ok r] True
        by (auto simp: Run_work r step_effect_def dest: in_set_takeD in_set_dropD)
    qed (simp add: Run_work)
  next
    case (Run_resume w a b)
    then show ?thesis using resume_step_effect [OF ok, of a w b] by auto
  next
    case (Run_submit w a b)
    then show ?thesis using submit_step_effect [OF ok, of a w b] by auto
  qed simp
  then have x: "life_ok ?H (ls_store ?s) \<and> extends (ls_store s) (ls_store ?s)"
    using ok step_effect_ok [of L q s "ls_store ?s"] by (elim conjE disjE) simp_all
  have "\<exists>v. stored (ls_store ?s) (wj_session_id j) v \<and> has_created v" if "j \<in> set (ls_jobs ?s)" for j
    using that e has_created_extends [OF conjunct2 [OF x]] assms unfolding life_inv_def by blast
  then show ?thesis using e x unfolding life_inv_def by blast
qed

interpretation runs_of_server: invariant_machine "life_step L" "life_inv (lh_lib L)" "\<lambda>_. True" for L
  by unfold_locales (use life_step_effect in blast)

lemma life_inv_init: "life_inv H no_runs"
  by (simp add: life_inv_def no_runs_def life_ok_def sessions_ok_def stored_def)

lemma life_inv_run: "life_inv (lh_lib L) (run (life_step L) qs no_runs)"
  by (rule runs_of_server.run_inv [OF life_inv_init]) (simp add: list_all_iff)

end
