(* ===== verification/Run_Lifecycle_Guarantees.thy ===== *)
theory Run_Lifecycle_Guarantees
  imports Run_Lifecycle_Props
begin

text \<open>
  Guarantees over the histories of \<open>Run_Lifecycle_Props\<close>, and the Runs that no later call can finish.
\<close>

section \<open>Arguments that pass the schema\<close>

lemma valid_args:
  assumes "validate_schema tool args = Inr ()" "map_of TOOL_SCHEMAS tool = Some ts" "k \<in> set (ts_required ts)"
    "map_of (ts_properties ts) k = Some p"
  shows "valid_value (dget args k) p"
proof -
  have a: "has_key args k" "list_all (\<lambda>kv. case map_of (ts_properties ts) (fst kv) of None \<Rightarrow> False | Some p \<Rightarrow> valid_value (snd kv) p) args"
    using assms(1-3) by (auto simp: validate_schema_def result_simps list_all_iff)
  then obtain v where "map_of args k = Some v" by (auto simp: has_key_iff)
  moreover from this have "(k, v) \<in> set args" by (rule map_of_SomeD)
  ultimately show ?thesis using a(2) assms(4) by (fastforce simp: list_all_iff dget_def)
qed

lemma valid_string_value: "valid_value v p_string \<Longrightarrow> \<exists>s. v = JStr s"
  by (cases v) (auto simp: valid_value_def p_string_def of_types_def split: if_split_asm)

lemma valid_optional:
  assumes "validate_schema tool args = Inr ()" "map_of TOOL_SCHEMAS tool = Some ts" "map_of (ts_properties ts) k = Some p" "dget args k \<noteq> JNull"
  shows "valid_value (dget args k) p"
proof -
  have a: "list_all (\<lambda>kv. case map_of (ts_properties ts) (fst kv) of None \<Rightarrow> False | Some p \<Rightarrow> valid_value (snd kv) p) args"
    using assms(1,2) by (auto simp: validate_schema_def result_simps)
  obtain v where "map_of args k = Some v" using assms(4) by (auto simp: dget_def split: option.split_asm)
  moreover from this have "(k, v) \<in> set args" by (rule map_of_SomeD)
  ultimately show ?thesis using a assms(3) by (fastforce simp: list_all_iff dget_def)
qed

lemma valid_nullable_value: "valid_value v p_nullable \<Longrightarrow> v = JNull \<or> is_str v"
  by (cases v) (auto simp: valid_value_def p_nullable_def of_types_def split: if_split_asm)

lemma create_schema_fields:
  "map_of TOOL_SCHEMAS RUN_CREATE = Some CREATE_SCHEMA"
  "''issue_ref'' \<in> set (ts_required CREATE_SCHEMA)" "map_of (ts_properties CREATE_SCHEMA) ''issue_ref'' = Some p_string"
  "''worker_role'' \<in> set (ts_required CREATE_SCHEMA)" "map_of (ts_properties CREATE_SCHEMA) ''worker_role'' = Some p_string"
  "''engine_id'' \<in> set (ts_required CREATE_SCHEMA)" "map_of (ts_properties CREATE_SCHEMA) ''engine_id'' = Some p_string"
  "''task_id'' \<in> set (ts_required CREATE_SCHEMA)" "map_of (ts_properties CREATE_SCHEMA) ''task_id'' = Some p_string"
  by (simp_all add: TOOL_SCHEMAS_def CREATE_SCHEMA_def)

text \<open>A creation that passed its checks writes its session when the first write goes through.\<close>

lemma create_writes:
  assumes "create_checks L (lw_run_id w) args binding st = Inr p" "nonblank (dget args ''task_id'')" "hex_run 32 (lw_uuid w)"
    "lw_writes w 0"
  shows "snd (create_run L w args binding st) \<noteq> st \<or> map_of st (''session_'' @ lw_uuid w) \<noteq> None"
proof -
  let ?opt = "[(''run_id'', JStr (lw_run_id w)), (''issue_id'', dget args ''issue_ref''), (''worker_role'', dget args ''worker_role''),
               (''runtime'', dget args ''engine_id'')]"
  have val: "validate_schema RUN_CREATE args = Inr ()" using assms(1) by (auto simp: create_checks_def result_simps)
  note txts = valid_args [OF val create_schema_fields(1), THEN valid_string_value]
  obtain i r e t where f: "dget args ''issue_ref'' = JStr i" "dget args ''worker_role'' = JStr r" "dget args ''engine_id'' = JStr e"
    "dget args ''task_id'' = JStr t"
    using txts [OF create_schema_fields(2,3)] txts [OF create_schema_fields(4,5)] txts [OF create_schema_fields(6,7)]
      txts [OF create_schema_fields(8,9)] by blast
  have fin: "finite_json (dget args ''task_id'')" "finite_json (JObj ?opt)" by (simp_all add: f)
  obtain doc where d: "session_create (lh_lib L) (lw_stamp w 0) (lw_uuid w) True (dget args ''task_id'') ?opt st =
      (Inr doc, AList.update (''session_'' @ lw_uuid w) (Some (json_norm doc)) st)"
    by (rule create_accepted [OF assms(2) fin assms(3)])
  show ?thesis
  proof (cases "map_of st (''session_'' @ lw_uuid w)")
    case None
    let ?st0 = "AList.update (''session_'' @ lw_uuid w) (Some (json_norm doc)) st"
    have keep: "map_of (snd (session_append H n wr i m t pl x)) k \<noteq> None" if "map_of x k \<noteq> None" for H n wr i m t pl x k
      using that by (auto simp: session_append_def atomic_write_def update_conv' split: sum.split option.split if_split)
    have k0: "map_of ?st0 (''session_'' @ lw_uuid w) \<noteq> None" by (simp add: update_conv')
    obtain y st1 where y: "session_append (lh_lib L) (lw_stamp w 1) (lw_writes w 1) (''session_'' @ lw_uuid w) 0 ''run.created'' (JObj p) ?st0 = (y, st1)"
      by fastforce
    have k1: "map_of st1 (''session_'' @ lw_uuid w) \<noteq> None" using keep [OF k0] y by (metis snd_conv)
    obtain z st2 where z: "session_append (lh_lib L) (lw_stamp w 2) (lw_writes w 2) (''session_'' @ lw_uuid w) 1 ''run.running''
        (JObj [(''run_id'', JStr (lw_run_id w)), (''started_at'', JStr (lw_clock w 0))]) st1 = (z, st2)" by fastforce
    have k2: "map_of st2 (''session_'' @ lw_uuid w) \<noteq> None" using keep [OF k1] z by (metis snd_conv)
    have "snd (create_run L w args binding st) \<in> {st1, st2}"
      using assms(1,4) d y z by (cases y; cases z) (simp_all add: create_run_def Let_def del: One_nat_def)
    then show ?thesis using k1 k2 None by auto
  qed simp
qed

section \<open>One active Run of an issue\<close>

definition unique_active :: "session_store \<Rightarrow> bool" where
  "unique_active st \<longleftrightarrow> (\<forall>sid sid' v v' i. stored st sid v \<longrightarrow> stored st sid' v' \<longrightarrow> run_of_issue i v \<longrightarrow> run_of_issue i v' \<longrightarrow>
     active v \<longrightarrow> active v' \<longrightarrow> sid = sid')"

definition known_answers :: "life_op \<Rightarrow> bool" where
  "known_answers q \<longleftrightarrow> (case q of Run_work w _ \<Rightarrow> terminal_answer (lw_answer w) | Run_resume w _ _ \<Rightarrow> terminal_answer (lw_answer w) | _ \<Rightarrow> True)"

text \<open>A session that ends inactive cannot break the uniqueness.\<close>

lemma unique_active_update:
  assumes "unique_active st" "\<And>x w. x \<noteq> sid \<Longrightarrow> stored st' x w \<longleftrightarrow> stored st x w" "\<And>w. stored st' sid w \<Longrightarrow> \<not> active w"
  shows "unique_active st'"
  using assms unfolding unique_active_def by metis

lemma added_inactive:
  assumes "life_ok H st" "event_added st sid t p st'" "\<And>s. status_after t p s \<in> JStr ` set (''review_submitted'' # TERMINAL_STATUSES)"
    "unique_active st"
  shows "unique_active st'"
proof -
  obtain v where v: "stored st sid v" using event_added_stored [OF assms(2)] by blast
  obtain v' where v': "stored st' sid v'" "\<And>x w. x \<noteq> sid \<Longrightarrow> stored st' x w \<longleftrightarrow> stored st x w"
    "run_status v' = status_after t p (run_status v)"
    by (rule event_added_cases [OF assms(1,2) v]) (rule that)
  have "\<not> active v'" using assms(3) by (simp add: active_def v'(3) del: set_simps)
  then show ?thesis using unique_active_update [OF assms(4) v'(2)] stored_unique [OF v'(1)] by blast
qed

lemma turn_inactive:
  assumes "life_ok H st" "turn_added H w st sid st'" "terminal_answer (lw_answer w)" "unique_active st"
  shows "unique_active st'"
proof -
  obtain p x where p: "event_added st sid ''run.engine_turn'' p st'" "dget_or p ''status'' (JStr ''failed'') = JStr x" "x \<in> set TERMINAL_STATUSES"
    using assms(2,3) by (auto simp: turn_added_def)
  show ?thesis by (rule added_inactive [OF assms(1) p(1) _ assms(4)]) (use p in \<open>simp add: status_after_def\<close>)
qed

lemma unique_active_step:
  assumes "life_inv (lh_lib L) s" "unique_active (ls_store s)" "known_answers q"
  shows "unique_active (ls_store (life_step L q s))"
proof (cases "ls_store (life_step L q s) = ls_store s")
  case False
  let ?st' = "ls_store (life_step L q s)"
  have ok: "life_ok (lh_lib L) (ls_store s)" using assms(1) by (simp add: life_inv_def)
  have e: "step_effect L q s ?st'" using life_step_effect [OF assms(1)] False by blast
  show ?thesis
  proof (cases q)
    case (Run_create w a b)
    then obtain i c d where c: "creation (lh_lib L) (ls_store s) (''session_'' @ lw_uuid w) (lw_run_id w) (JStr i) ?st' c d"
      "\<And>sid v. stored (ls_store s) sid v \<Longrightarrow> run_of_issue i v \<Longrightarrow> \<not> active v" using e by (auto simp: step_effect_def)
    obtain v where v: "stored ?st' (''session_'' @ lw_uuid w) v" "\<And>x w'. x \<noteq> ''session_'' @ lw_uuid w \<Longrightarrow> stored ?st' x w' \<longleftrightarrow> stored (ls_store s) x w'"
      "dget (created_of v) ''issue_id'' = JStr i" by (rule creation_cases [OF c(1)]) simp
    have own: "w' = v" if "stored ?st' (''session_'' @ lw_uuid w) w'" for w' using that v(1) stored_unique by blast
    have i: "run_of_issue j v \<Longrightarrow> j = i" for j by (simp add: run_of_issue_def v(3))
    show ?thesis using assms(2) c(2) v(2) own i unfolding unique_active_def by metis
  next
    case (Run_work w k)
    then show ?thesis using e assms(2,3) turn_inactive [OF ok] by (auto simp: step_effect_def known_answers_def)
  next
    case (Run_resume w a b)
    then show ?thesis using e assms(2,3) turn_inactive [OF ok] by (auto simp: step_effect_def known_answers_def)
  next
    case (Run_submit w a b)
    then obtain sid p where "event_added (ls_store s) sid ''run.review_submitted'' p ?st'" using e by (auto simp: step_effect_def)
    then show ?thesis by (rule added_inactive [OF ok _ _ assms(2)]) (simp add: status_after_def)
  qed (use e in \<open>simp add: step_effect_def\<close>)
qed (use assms in simp)

interpretation exclusive_runs: invariant_machine "life_step L" "\<lambda>s. life_inv (lh_lib L) s \<and> unique_active (ls_store s)" known_answers for L
  by unfold_locales (use life_step_effect unique_active_step in blast)

lemma unique_active_run:
  assumes "list_all known_answers qs"
  shows "unique_active (ls_store (run (life_step L) qs no_runs))"
proof -
  have "life_inv (lh_lib L) no_runs \<and> unique_active (ls_store no_runs)"
    by (simp add: life_inv_init) (simp add: unique_active_def no_runs_def stored_def)
  from exclusive_runs.run_inv [OF this assms] show ?thesis by blast
qed

text \<open>C18: at most one active Run of an issue. After any history of creations, worker turns, resumes, submissions and
  ends of the server, with failing writes at any point, two active Runs of one issue are the same, as long as every
  engine that answers with a result reports a terminal status.\<close>

theorem lifecycle_one_active_run:
  assumes "list_all known_answers qs" "st = ls_store (run (life_step L) qs no_runs)"
    "stored st sid v" "run_of_issue issue_ref v" "active v" "stored st sid' v'" "run_of_issue issue_ref v'" "active v'"
  shows "sid' = sid"
  using unique_active_run [OF assms(1), of L] assms(2-8) unfolding unique_active_def by blast

section \<open>Runs that hold their issue for good\<close>

text \<open>A session whose creation got no further: no operation reaches it, because the context of a resume or a submission
  needs the fingerprint of \<open>run.created\<close>.\<close>

definition abandoned :: "json \<Rightarrow> bool" where
  "abandoned v \<longleftrightarrow> is_run v \<and> run_status v = JStr ''created'' \<and> \<not> has_created v"

definition abandoned_at :: "life_state \<Rightarrow> string \<Rightarrow> json option" where
  "abandoned_at s sid = (case map_of (ls_store s) sid of Some (Some v) \<Rightarrow> if abandoned v then Some v else None | _ \<Rightarrow> None)"

lemma abandoned_at_Some: "abandoned_at s sid = Some v \<longleftrightarrow> stored (ls_store s) sid v \<and> abandoned v"
  by (auto simp: abandoned_at_def stored_def split: option.splits)

lemma event_elsewhere:
  assumes "life_ok H st" "event_added st sid' t p st'" "stored st sid v" "sid \<noteq> sid'"
  shows "stored st' sid v"
proof -
  obtain v' where v: "stored st sid' v'" using event_added_stored [OF assms(2)] by blast
  have "\<And>x w. x \<noteq> sid' \<Longrightarrow> stored st' x w \<longleftrightarrow> stored st x w" by (rule event_added_cases [OF assms(1,2) v])
  then show ?thesis using assms(3,4) by simp
qed

lemma turn_elsewhere: "life_ok H st \<Longrightarrow> turn_added H w st sid' st' \<Longrightarrow> stored st sid v \<Longrightarrow> sid \<noteq> sid' \<Longrightarrow> stored st' sid v"
  by (auto simp: turn_added_def intro: event_elsewhere)

lemma creation_elsewhere:
  assumes "creation H st sid' r i st' c d" "stored st sid v"
  shows "stored st' sid v"
proof -
  have n: "map_of st sid' = None" by (rule creation_cases [OF assms(1)])
  have "\<And>x w. x \<noteq> sid' \<Longrightarrow> stored st' x w \<longleftrightarrow> stored st x w" by (rule creation_cases [OF assms(1)])
  then show ?thesis using assms(2) n by (cases "sid = sid'") (auto simp: stored_def)
qed

lemma abandoned_stays:
  assumes "life_inv (lh_lib L) s" "stored (ls_store s) sid v" "abandoned v"
  shows "stored (ls_store (life_step L q s)) sid v"
proof (cases "ls_store (life_step L q s) = ls_store s")
  case False
  let ?st' = "ls_store (life_step L q s)"
  have ok: "life_ok (lh_lib L) (ls_store s)" using assms(1) by (simp add: life_inv_def)
  have e: "step_effect L q s ?st'" using life_step_effect [OF assms(1)] False by blast
  have other: "sid \<noteq> x" if "stored (ls_store s) x w" "has_created w" for x w
    using that assms(2,3) stored_unique unfolding abandoned_def by blast
  show ?thesis
  proof (cases q)
    case (Run_create w a b)
    then show ?thesis using e assms(2) by (auto simp: step_effect_def intro: creation_elsewhere)
  next
    case (Run_work w k)
    then have k: "k < length (ls_jobs s)" "turn_added (lh_lib L) w (ls_store s) (wj_session_id (ls_jobs s ! k)) ?st'"
      using e by (auto simp: step_effect_def)
    then have "sid \<noteq> wj_session_id (ls_jobs s ! k)" using other assms(1) unfolding life_inv_def by (metis nth_mem)
    then show ?thesis using turn_elsewhere [OF ok k(2) assms(2)] by blast
  next
    case (Run_resume w a b)
    then show ?thesis using e other turn_elsewhere [OF ok _ assms(2)] unfolding step_effect_def by auto
  next
    case (Run_submit w a b)
    then show ?thesis using e other event_elsewhere [OF ok _ assms(2)] unfolding step_effect_def by auto
  qed (use e in \<open>simp add: step_effect_def\<close>)
qed (use assms in simp)

interpretation abandoned_runs: durable_machine "life_step L" "life_inv (lh_lib L)" "\<lambda>_. True" abandoned_at for L
  by unfold_locales (use life_step_effect abandoned_stays in \<open>auto simp: abandoned_at_Some\<close>)

text \<open>A running Run whose thread is gone: only a submission for this Run still changes it.\<close>

definition stranded :: "string \<Rightarrow> life_state \<Rightarrow> string \<Rightarrow> json option" where
  "stranded r s sid = (case map_of (ls_store s) sid of
     Some (Some v) \<Rightarrow> if run_named r v \<and> run_status v = JStr ''running'' \<and> list_all (\<lambda>j. wj_session_id j \<noteq> sid) (ls_jobs s) then Some v else None
   | _ \<Rightarrow> None)"

definition not_submitted :: "string \<Rightarrow> life_op \<Rightarrow> bool" where
  "not_submitted r q \<longleftrightarrow> (case q of Run_submit w a b \<Rightarrow> dget a ''run_id'' \<noteq> JStr r | _ \<Rightarrow> True)"

lemma stranded_Some: "stranded r s sid = Some v \<longleftrightarrow> stored (ls_store s) sid v \<and> run_named r v \<and> run_status v = JStr ''running'' \<and>
    (\<forall>j\<in>set (ls_jobs s). wj_session_id j \<noteq> sid)"
  by (auto simp: stranded_def stored_def list_all_iff split: option.splits)

lemma new_jobs:
  assumes "life_inv (lh_lib L) s" "j \<in> set (ls_jobs (life_step L q s))"
  shows "j \<in> set (ls_jobs s) \<or> map_of (ls_store s) (wj_session_id j) = None"
proof (cases q)
  case (Run_create w a b)
  obtain r st' where r: "create_run L w a b (ls_store s) = (r, st')" by fastforce
  have ok: "life_ok (lh_lib L) (ls_store s)" using assms(1) by (simp add: life_inv_def)
  show ?thesis
    using assms(2) create_run_effect [OF ok _ r] by (cases r) (auto simp: Run_create r fresh_ids_def split: if_split_asm)
qed (use assms(2) in \<open>auto split: if_split_asm dest: in_set_takeD in_set_dropD\<close>)

lemma stranded_stays:
  assumes "life_inv (lh_lib L) s" "not_submitted r q" "stranded r s sid = Some v"
  shows "stranded r (life_step L q s) sid = Some v"
proof -
  note v = assms(3) [unfolded stranded_Some]
  let ?st' = "ls_store (life_step L q s)"
  have ok: "life_ok (lh_lib L) (ls_store s)" using assms(1) by (simp add: life_inv_def)
  have "stored ?st' sid v"
  proof (cases "?st' = ls_store s")
    case False
    then have e: "step_effect L q s ?st'" using life_step_effect [OF assms(1)] by blast
    show ?thesis
    proof (cases q)
      case (Run_create w a b)
      then show ?thesis using e v by (auto simp: step_effect_def intro: creation_elsewhere)
    next
      case (Run_work w k)
      then have k: "k < length (ls_jobs s)" "turn_added (lh_lib L) w (ls_store s) (wj_session_id (ls_jobs s ! k)) ?st'"
        using e by (auto simp: step_effect_def)
      then show ?thesis using turn_elsewhere [OF ok k(2)] v by (metis nth_mem)
    next
      case (Run_resume w a b)
      then obtain x u where "stored (ls_store s) x u" "run_status u \<noteq> JStr ''running''" "turn_added (lh_lib L) w (ls_store s) x ?st'"
        using e by (auto simp: step_effect_def)
      then show ?thesis using turn_elsewhere [OF ok] v stored_unique by blast
    next
      case (Run_submit w a b)
      then obtain x u n p where x: "stored (ls_store s) x u" "dget a ''run_id'' = JStr n" "run_named n u"
        "event_added (ls_store s) x ''run.review_submitted'' p ?st'" using e by (auto simp: step_effect_def)
      have "n \<noteq> r" using assms(2) Run_submit x(2) by (auto simp: not_submitted_def)
      have "sid \<noteq> x"
      proof
        assume "sid = x"
        then have "u = v" using x(1) v stored_unique by blast
        then show False using x(3) v \<open>n \<noteq> r\<close> by (simp add: run_named_def)
      qed
      then show ?thesis using event_elsewhere [OF ok x(4)] v by blast
    qed (use e in \<open>simp add: step_effect_def\<close>)
  qed (use v in simp)
  moreover have "wj_session_id j \<noteq> sid" if "j \<in> set (ls_jobs (life_step L q s))" for j
    using new_jobs [OF assms(1) that] v by (auto simp: stored_def)
  ultimately show ?thesis using v by (simp add: stranded_Some)
qed

interpretation stranded_runs: durable_machine "life_step L" "life_inv (lh_lib L)" "not_submitted r" "stranded r" for L r
  by unfold_locales (use life_step_effect stranded_stays in blast)+

text \<open>While a Run of the issue is active, no creation for it gets anywhere.\<close>

lemma active_refuses_create:
  assumes "life_ok (lh_lib L) st" "stored st sid v" "run_of_issue i v" "active v" "dget args ''issue_ref'' = JStr i"
  shows "\<exists>e. create_run L w args binding st = (Inl e, st)"
proof (cases "create_checks L (lw_run_id w) args binding st")
  case (Inr p)
  obtain j where "dget args ''issue_ref'' = JStr j" "\<And>sid v. stored st sid v \<Longrightarrow> run_of_issue j v \<Longrightarrow> \<not> active v"
    by (rule create_checks_Inr [OF assms(1) Inr]) blast
  then show ?thesis using assms by auto
qed (simp add: create_run_def Let_def)

lemma created_active: "run_status v = JStr ''created'' \<Longrightarrow> active v" "run_status v = JStr ''running'' \<Longrightarrow> active v"
  by (simp_all add: active_def TERMINAL_STATUSES_def image_iff)

text \<open>C21: a creation that fails half-way blocks its issue for good. When the session was written but \<open>run.created\<close> was not
  - the write fails, or the artifact policy holds a NaN, which JSON-RPC lets through and the canonical form refuses -
  the call raises, and after any further history every creation for the issue is refused.\<close>

theorem half_created_run_blocks_issue:
  assumes "s = run (life_step L) qs no_runs" "fresh_ids w (ls_store s)"
    "create_checks L (lw_run_id w) args binding (ls_store s) = Inr created" "nonblank (dget args ''task_id'')" "hex_run 32 (lw_uuid w)"
    "lw_writes w 0" "\<not> lw_writes w 1 \<or> \<not> finite_json (JObj created)"
    "dget args' ''issue_ref'' = dget args ''issue_ref''"
    "later = ls_store (run (life_step L) (Run_create w args binding # rs) s)"
  shows "\<exists>e e'. fst (create_run L w args binding (ls_store s)) = Inl e \<and> create_run L w' args' binding' later = (Inl e', later)"
proof -
  have inv: "life_inv (lh_lib L) s" using life_inv_run by (simp add: assms(1))
  then have ok: "life_ok (lh_lib L) (ls_store s)" by (simp add: life_inv_def)
  obtain r st' where r: "create_run L w args binding (ls_store s) = (r, st')" by fastforce
  have "st' \<noteq> ls_store s" using create_writes [OF assms(3-6)] assms(2) by (simp add: r fresh_ids_def)
  then obtain c where c: "creation (lh_lib L) (ls_store s) (''session_'' @ lw_uuid w) (lw_run_id w) (dget args ''issue_ref'') st' c (\<exists>x. r = Inr x)"
    "\<not> c" using create_run_effect [OF ok assms(2) r] assms(3,7) by auto
  then obtain e where e: "r = Inl e" by (cases r) (auto simp: creation_def)
  obtain i where i: "dget args ''issue_ref'' = JStr i" by (rule create_checks_Inr [OF ok assms(3)])
  obtain v where v: "stored st' (''session_'' @ lw_uuid w) v" "run_named (lw_run_id w) v" "dget (created_of v) ''issue_id'' = JStr i"
    "run_status v = JStr ''created''" "\<not> has_created v"
    by (rule creation_cases [OF c(1)]) (use c(2) e i in auto)
  let ?s1 = "life_step L (Run_create w args binding) s"
  have s1: "ls_store ?s1 = st'" using assms(2) r e by simp
  have "abandoned v" using v run_named_is_run by (auto simp: abandoned_def)
  then have at: "abandoned_at ?s1 (''session_'' @ lw_uuid w) = Some v" using v(1) s1 by (simp add: abandoned_at_Some)
  have inv1: "life_inv (lh_lib L) ?s1" using life_step_effect [OF inv] by blast
  have "abandoned_at (run (life_step L) rs ?s1) (''session_'' @ lw_uuid w) = Some v"
    by (rule abandoned_runs.run_stays [OF inv1 _ at]) (simp add: list_all_iff)
  then have "stored later (''session_'' @ lw_uuid w) v" by (simp add: abandoned_at_Some assms(9))
  moreover have "life_ok (lh_lib L) later"
    using runs_of_server.run_inv [OF inv1, of rs] by (simp add: assms(9) life_inv_def list_all_iff)
  moreover have "run_of_issue i v" using v(2,3) run_named_is_run by (auto simp: run_of_issue_def)
  ultimately obtain e' where "create_run L w' args' binding' later = (Inl e', later)"
    using active_refuses_create created_active(1) [OF v(4)] assms(8) i by metis
  then show ?thesis using r e by auto
qed

text \<open>C22: a Run that was running when the server ended stays so: until somebody submits a result for it, every resume of it
  and every creation for its issue is refused, whatever else happens.\<close>

theorem dead_worker_run_blocks_issue:
  assumes "s = run (life_step L) (qs @ [Server_dies]) no_runs" "stored (ls_store s) sid v" "run_named r v" "run_of_issue i v"
    "run_status v = JStr ''running''" "list_all (not_submitted r) rs" "later = ls_store (run (life_step L) rs s)"
    "dget args ''issue_ref'' = JStr i" "dget resume ''run_id'' = JStr r"
  shows "\<exists>e e'. create_run L w args binding later = (Inl e, later) \<and> resume_run L w' resume binding' later = (Inl e', [], later) \<and>
    stored later sid v"
proof -
  have inv: "life_inv (lh_lib L) s" using life_inv_run by (simp add: assms(1))
  have "ls_jobs s = []" by (simp add: assms(1) run_append)
  then have "stranded r s sid = Some v" using assms(2,3,5) by (simp add: stranded_Some)
  from stranded_runs.run_stays [OF inv assms(6) this] have v: "stored later sid v" by (simp add: stranded_Some assms(7))
  have "list_all (\<lambda>_. True) rs" by (simp add: list_all_iff)
  from runs_of_server.run_inv [OF inv this] have ok: "life_ok (lh_lib L) later" by (simp add: assms(7) life_inv_def)
  have "\<exists>e. resume_checks L resume binding' later = Inl e"
  proof (cases "resume_checks L resume binding' later")
    case (Inr x)
    then obtain sid' i' where x: "resume_checks L resume binding' later = Inr (sid', i')" by (cases x) auto
    obtain v' n where "stored later sid' v'" "run_named n v'" "dget resume ''run_id'' = JStr n" "run_status v' \<noteq> JStr ''running''"
      by (rule resume_checks_Inr [OF ok x])
    then show ?thesis using run_unique [OF ok v assms(3)] assms(5,9) by auto
  qed simp
  then obtain e' where "resume_run L w' resume binding' later = (Inl e', [], later)" by (auto simp: resume_run_def)
  then show ?thesis using active_refuses_create [OF ok v assms(4) created_active(2) [OF assms(5)] assms(8)] v by blast
qed

section \<open>Submissions are idempotent\<close>

lemma find_submission_found: "find_submission k es = Inr (Some p) \<Longrightarrow> find_submission k (es @ fs) = Inr (Some p)"
  by (induction es) (auto simp: result_simps split: if_split_asm)

lemma find_submission_none: "find_submission k es = Inr None \<Longrightarrow> find_submission k (es @ fs) = find_submission k fs"
  by (induction es) (auto simp: result_simps split: if_split_asm)

lemma has_key_norm [simp]: "has_key (sort_key fst (map_vals json_norm d)) k = has_key d k"
  by (simp add: has_key_iff map_of_map_vals)

lemma valid_text_value: "valid_value v p_text \<Longrightarrow> \<exists>s. v = JStr s"
  by (cases v) (auto simp: valid_value_def p_text_def p_string_def of_types_def split: if_split_asm)

lemma submit_key:
  assumes "submit_checks L args binding st = Inr x"
  obtains key where "dget args ''idempotency_key'' = JStr key"
proof -
  have val: "validate_schema RUN_SUBMIT args = Inr ()" using assms by (auto simp: submit_checks_def result_simps)
  have "map_of TOOL_SCHEMAS RUN_SUBMIT = Some REVIEW_SCHEMA"
    by (simp add: TOOL_SCHEMAS_def RUN_SUBMIT_def RUN_CREATE_def RUN_RESUME_def)
  moreover have "''idempotency_key'' \<in> set (ts_required REVIEW_SCHEMA)" "map_of (ts_properties REVIEW_SCHEMA) ''idempotency_key'' = Some p_text"
    by (simp_all add: REVIEW_SCHEMA_def)
  ultimately show thesis using valid_text_value [OF valid_args [OF val]] that by blast
qed

text \<open>The submission a store holds under a key, and the answer for it.\<close>

definition submission_at :: "session_store \<Rightarrow> string \<Rightarrow> string \<Rightarrow> json \<Rightarrow> bool" where
  "submission_at st r key p \<longleftrightarrow> (\<exists>sid v. stored st sid v \<and> run_named r v \<and> find_submission key (events_of v) = Inr (Some p))"

definition review_of :: "json \<Rightarrow> json" where
  "review_of v = dget (as_dict v) ''review''"

definition answers :: "json \<Rightarrow> json \<Rightarrow> string \<Rightarrow> bool" where
  "answers p review digest \<longleftrightarrow> has_key (as_dict p) ''payload_hash'' \<and> has_key (as_dict p) ''review_submission_id'' \<and>
     has_key (as_dict p) ''submitted_at'' \<and> dget (as_dict p) ''payload_hash'' = JStr digest \<and>
     review = JObj [(''review_id'', dget (as_dict p) ''review_submission_id''), (''kind'', JStr ''independent''), (''status'', JStr ''submitted''),
       (''submitted_at'', dget (as_dict p) ''submitted_at'')]"

lemma submission_extends:
  assumes "life_ok H st" "submission_at st r key p" "extends st st'"
  shows "submission_at st' r key p"
proof -
  obtain sid v where v: "stored st sid v" "run_named r v" "find_submission key (events_of v) = Inr (Some p)"
    using assms(2) by (auto simp: submission_at_def)
  then obtain v' es where v': "stored st' sid v'" "events_of v' = events_of v @ es" using assms(3) unfolding extends_def by blast
  have "run_named r v'" using created_extend(4) [OF v'(2)] run_session_events [OF life_ok_stored(2) [OF assms(1) v(1)]] v(2) by blast
  moreover have "find_submission key (events_of v') = Inr (Some p)" unfolding v'(2) by (rule find_submission_found [OF v(3)])
  ultimately show ?thesis using v'(1) unfolding submission_at_def by blast
qed

lemma submit_recorded:
  assumes "life_ok (lh_lib L) st" "submit_for_review L w args binding st = (Inr res, st')"
  obtains r key p digest where "dget args ''run_id'' = JStr r" "dget args ''idempotency_key'' = JStr key" "submission_at st' r key p"
    "payload_digest (lh_lib L) (as_dict (dget args ''result'')) = Inr digest" "answers p (review_of res) digest"
proof -
  obtain sid v i status where c: "submit_checks L args binding st = Inr (sid, v, i, status)"
    using assms(2) by (cases "submit_checks L args binding st") (auto simp: submit_for_review_def)
  obtain r where r: "stored st sid v" "run_named r v" "dget args ''run_id'' = JStr r" by (rule submit_checks_Inr [OF assms(1) c])
  obtain key where key: "dget args ''idempotency_key'' = JStr key" by (rule submit_key [OF c])
  note d = assms(2) [unfolded submit_for_review_def c key]
  have ok: "sessions_ok (lh_lib L) st" using assms(1) by (simp add: life_ok_def)
  show thesis
  proof (cases "find_submission key (events_of v)")
    case (Inl e)
    then show ?thesis using d by (simp add: text_of_def)
  next
    case (Inr f)
    show ?thesis
    proof (cases f)
      case (Some p)
      then obtain digest where g: "payload_digest (lh_lib L) (as_dict (dget args ''result'')) = Inr digest" "answers p (review_of res) digest" "st' = st"
        using d Inr by (auto simp: text_of_def Let_def result_simps item_def answers_def review_of_def review_envelope_def as_dict_def
            split: if_split_asm)
      have "submission_at st r key p" using r(1,2) Inr Some unfolding submission_at_def by blast
      then show ?thesis using that [OF r(3) key _ g(1,2)] g(3) by simp
    next
      case None
      obtain digest where g: "payload_digest (lh_lib L) (as_dict (dget args ''result'')) = Inr digest"
        using d Inr None by (cases "payload_digest (lh_lib L) (as_dict (dget args ''result''))") (auto simp: text_of_def Let_def)
      let ?id = "''review_'' @ lw_review_uuid w"
      let ?p = "submission_payload ?id args status (lw_clock w 0) digest"
      obtain y st1 where y: "writer_append (lh_lib L) (lw_stamp w 0) (lw_writes w 0) sid ''run.review_submitted'' (JObj ?p) st = (y, st1)" by fastforce
      obtain doc where "y = Inr doc" and res: "res = review_envelope i (JStr ?id) (JStr (lw_clock w 0)) (lw_clock w 1)" "st' = st1"
        using d Inr None g y by (cases y) (auto simp: text_of_def Let_def)
      then have "event_added st sid ''run.review_submitted'' ?p st'" using writer_append_grows [OF ok y] by auto
      then obtain v' e where a: "stored st' sid v'" "events_of v' = events_of v @ [e]" "event_is ''run.review_submitted'' e"
        "payload_of e = json_norm (JObj ?p)"
        using r(1) by (auto simp: event_added_def stored_def)
      have "run_named r v'" using created_extend(4) [OF a(2)] run_session_events [OF life_ok_stored(2) [OF assms(1) r(1)]] r(2) by blast
      moreover have "find_submission key (events_of v') = Inr (Some (json_norm (JObj ?p)))"
        unfolding a(2) find_submission_none [OF Inr [unfolded None]]
        using a(3,4) by (simp add: attr_def submission_payload_def key)
      ultimately have "submission_at st' r key (json_norm (JObj ?p))" using a(1) by (auto simp: submission_at_def)
      moreover have "answers (json_norm (JObj ?p)) (review_of res) digest"
        by (simp add: answers_def res(1) review_of_def review_envelope_def as_dict_def submission_payload_def has_key_def dict_keys_def)
      ultimately show ?thesis using that [OF r(3) key _ g] by blast
    qed
  qed
qed

lemma submit_replayed:
  assumes "life_ok (lh_lib L) st" "submission_at st r key p" "answers p review digest"
    "submit_checks L args binding st = Inr x" "dget args ''run_id'' = JStr r" "dget args ''idempotency_key'' = JStr key"
    "payload_digest (lh_lib L) (as_dict (dget args ''result'')) = Inr digest'"
  shows "if digest' = digest then \<exists>res. submit_for_review L w args binding st = (Inr res, st) \<and> review_of res = review
    else submit_for_review L w args binding st = (Inl (Lifecycle CODE_IDEMPOTENCY_CONFLICT (Some r)), st)"
proof -
  obtain sid v i status where c: "submit_checks L args binding st = Inr (sid, v, i, status)" using assms(4) by (cases x) auto
  obtain n where n: "stored st sid v" "run_named n v" "dget args ''run_id'' = JStr n" by (rule submit_checks_Inr [OF assms(1) c])
  then have "run_named r v" using assms(5) by simp
  moreover obtain sid' v' where v': "stored st sid' v'" "run_named r v'" "find_submission key (events_of v') = Inr (Some p)"
    using assms(2) by (auto simp: submission_at_def)
  ultimately have "v' = v" using run_unique [OF assms(1) n(1) _ v'(1,2)] by blast
  with v'(3) have f: "find_submission key (events_of v) = Inr (Some p)" by simp
  show ?thesis
    using assms(3,5-7) by (auto simp: submit_for_review_def c f text_of_def Let_def item_def answers_def review_of_def review_envelope_def as_dict_def)
qed

text \<open>C19: a submission is idempotent. Once a result was submitted under a key, a later submission for the same Run and key changes
  nothing, whatever happened between: the same result is answered with the same review id and time, another one is
  refused as an idempotency conflict.\<close>

theorem submission_idempotent:
  assumes "s = run (life_step L) qs no_runs" "submit_for_review L w args binding (ls_store s) = (Inr res, ls_store s')"
    "s' = life_step L (Run_submit w args binding) s" "later = ls_store (run (life_step L) rs s')"
    "submit_checks L args' binding' later = Inr x"
    "dget args' ''run_id'' = dget args ''run_id''" "dget args' ''idempotency_key'' = dget args ''idempotency_key''"
    "payload_digest (lh_lib L) (as_dict (dget args ''result'')) = Inr digest"
    "payload_digest (lh_lib L) (as_dict (dget args' ''result'')) = Inr digest'"
  shows "if digest' = digest then \<exists>res'. submit_for_review L w' args' binding' later = (Inr res', later) \<and> review_of res' = review_of res
    else \<exists>r. submit_for_review L w' args' binding' later = (Inl (Lifecycle CODE_IDEMPOTENCY_CONFLICT (Some r)), later)"
proof -
  have inv: "life_inv (lh_lib L) s" using life_inv_run by (simp add: assms(1))
  then have ok: "life_ok (lh_lib L) (ls_store s)" by (simp add: life_inv_def)
  obtain r key p d where r: "dget args ''run_id'' = JStr r" "dget args ''idempotency_key'' = JStr key" "submission_at (ls_store s') r key p"
    "payload_digest (lh_lib L) (as_dict (dget args ''result'')) = Inr d" "answers p (review_of res) d"
    by (rule submit_recorded [OF ok assms(2)])
  have d: "d = digest" using r(4) assms(8) by simp
  have inv': "life_inv (lh_lib L) s'" unfolding assms(3) using life_step_effect [OF inv] by blast
  have "life_inv (lh_lib L) (run (life_step L) rs s') \<and> submission_at (ls_store (run (life_step L) rs s')) r key p" if "life_inv (lh_lib L) s'"
    "submission_at (ls_store s') r key p" for s'
    using that
  proof (induction rs arbitrary: s')
    case (Cons q rs)
    have "extends (ls_store s') (ls_store (life_step L q s'))" using life_step_effect [OF Cons.prems(1), of q] step_effect_ok by auto
    then have "submission_at (ls_store (life_step L q s')) r key p"
      using submission_extends Cons.prems by (simp add: life_inv_def) blast
    then show ?case using Cons.IH life_step_effect [OF Cons.prems(1), of q] by simp
  qed simp
  from this [OF inv' r(3)] have l: "life_ok (lh_lib L) later" "submission_at later r key p" by (simp_all add: life_inv_def assms(4))
  show ?thesis using submit_replayed [OF l r(5) assms(5) _ _ assms(9), of w'] assms(6,7) r(1,2) d by (auto split: if_split_asm)
qed

section \<open>What the status of a Run hides\<close>

text \<open>A review submission changes nothing of the identity but the status.\<close>

lemma identity_after_review:
  assumes "run_session v" "events_of v' = events_of v @ [e]" "event_is ''run.review_submitted'' e"
    "\<forall>u. u \<noteq> ''run.review_submitted'' \<longrightarrow> \<not> event_is u e" "payload_of e = json_norm (JObj p)" "run_identity_of v = Inr i" "run_session v'"
  shows "run_identity_of v' = Inr (i\<lparr>ri_status := JStr ''review_submitted''\<rparr>)"
proof -
  have "find P (xs @ [e]) = find P xs" if "\<not> P e" for P xs
    using that by (induction xs) auto
  then have rc: "run_created_of v' = run_created_of v" using assms(4) by (simp add: run_created_of_def assms(2))
  have t: "turn_or_empty v' = turn_or_empty v" using assms(4) by (simp add: turn_or_empty_def last_engine_turn_def assms(2))
  have f: "first_payload v' = first_payload v" by (rule created_extend [OF assms(2) run_session_events [OF assms(1)]])
  have st: "last_run_status v' = Inr (JStr ''review_submitted'')" using assms(3) by (simp add: last_run_status_def assms(2))
  obtain t' where "turn_or_empty v = JObj t'" using turn_obj [OF assms(1)] by auto
  moreover obtain rc' where "run_created_of v = JObj rc'" using run_created_obj [OF assms(1)] by auto
  ultimately show ?thesis
    using assms(6) by (auto simp: run_identity_of_def rc t f st first_payload_created [OF assms(1)] result_simps)
qed

text \<open>The calls that are the same for a resume, whatever the Run's status is.\<close>

definition resume_request :: "life_host \<Rightarrow> dict \<Rightarrow> dict \<Rightarrow> run_identity \<Rightarrow> bool" where
  "resume_request L args binding i \<longleftrightarrow> validate_schema RUN_RESUME args = Inr () \<and> validate_issue_ref (dget args ''issue_ref'') = Inr () \<and>
     validate_run_id (dget args ''run_id'') = Inr () \<and> check_call_binding binding (dget args ''issue_ref'') None = Inr () \<and>
     ri_issue_ref i = dget args ''issue_ref'' \<and> has_provider L (ri_engine_id i) = Inr True \<and> (\<exists>iv. resume_invocation args i = Inr iv)"

lemma resume_by_status:
  assumes "life_ok (lh_lib L) st" "stored st sid v" "run_named (text_of (dget args ''run_id'')) v" "run_identity_of v = Inr i"
    "resume_request L args binding i"
  shows "resume_checks L args binding st =
    (if ri_status i \<in> JStr ` {''running'', ''succeeded'', ''budget_exceeded'', ''cancelled''}
       then Inl (Lifecycle CODE_RUN_NOT_RESUMABLE (Some (text_of (dget args ''run_id''))))
     else if \<not> hashable (ri_status i) then Inl (Python ''TypeError'')
     else if ri_session_id i = JNull \<and> ri_status i \<noteq> JStr ''created''
       then Inl (Lifecycle CODE_SESSION_ID_UNAVAILABLE (Some (text_of (dget args ''run_id''))))
     else Inr (sid, i))"
proof -
  obtain s where s: "dget args ''issue_ref'' = JStr s" using assms(5) valid_issue_ref by (auto simp: resume_request_def)
  have f: "find_run (lh_lib L) st (text_of (dget args ''run_id'')) = Inr (Some (sid, v))" using find_run_Some [OF assms(1)] assms(2,3) by simp
  have "matched_run (lh_lib L) st (text_of (dget args ''run_id'')) (dget args ''issue_ref'') = Inr (sid, v, i)"
    using assms(4,5) by (simp add: matched_run_def f resume_request_def)
  then show ?thesis
    using assms(5) by (auto simp: resume_checks_def resume_request_def Let_def status_among_def TERMINAL_STATUSES_def
        RESUMABLE_LAST_STATUSES_def image_iff ensure_def)
qed

text \<open>A succeeded Run cannot be resumed, until it is submitted for review: then the same resume reaches the engine again. The
  status of the submission hides the terminal status of the Run.\<close>

theorem submitted_run_resumes:
  assumes "st = ls_store (run (life_step L) qs no_runs)" "stored st sid v" "run_named (text_of (dget args ''run_id'')) v"
    "run_identity_of v = Inr i" "ri_status i = JStr ''succeeded''" "ri_session_id i \<noteq> JNull" "resume_request L args binding i"
    "submit_for_review L w submission binding' st = (Inr res, st')" "st' \<noteq> st" "dget submission ''run_id'' = dget args ''run_id''"
  shows "resume_run L w' args binding st = (Inl (Lifecycle CODE_RUN_NOT_RESUMABLE (Some (text_of (dget args ''run_id'')))), [], st) \<and>
    (\<exists>iv. resume_invocation args i = Inr iv \<and> fst (snd (resume_run L w' args binding st')) = [iv])"
proof -
  have ok: "life_ok (lh_lib L) st" using life_inv_run [of L qs] by (simp add: assms(1) life_inv_def)
  have "resume_checks L args binding st = Inl (Lifecycle CODE_RUN_NOT_RESUMABLE (Some (text_of (dget args ''run_id''))))"
    using resume_by_status [OF ok assms(2-4,7)] assms(5) by simp
  then have before: "resume_run L w' args binding st = (Inl (Lifecycle CODE_RUN_NOT_RESUMABLE (Some (text_of (dget args ''run_id'')))), [], st)"
    by (simp add: resume_run_def)
  obtain sid' d j status p where c: "submit_checks L submission binding' st = Inr (sid', d, j, status)" "life_ok (lh_lib L) st'"
    "event_added st sid' ''run.review_submitted'' p st'"
    using submit_effect [OF ok assms(8)] assms(9) by blast
  obtain n where n: "stored st sid' d" "run_named n d" "dget submission ''run_id'' = JStr n" by (rule submit_checks_Inr [OF ok c(1)])
  then have "run_named n v" using assms(3,10) by (simp add: text_of_def)
  from run_unique [OF ok n(1,2) assms(2) this] have sid: "sid' = sid" by simp
  obtain v' e where e: "stored st' sid v'" "events_of v' = events_of v @ [e]" "event_is ''run.review_submitted'' e"
    "\<forall>u. u \<noteq> ''run.review_submitted'' \<longrightarrow> \<not> event_is u e" "payload_of e = json_norm (JObj p)"
    using c(3) assms(2) by (auto simp: event_added_def sid stored_def)
  have rs: "run_session v" "run_session v'" using life_ok_stored(2) [OF ok assms(2)] life_ok_stored(2) [OF c(2) e(1)] by auto
  let ?i = "i\<lparr>ri_status := JStr ''review_submitted''\<rparr>"
  have i': "run_identity_of v' = Inr ?i" by (rule identity_after_review [OF rs(1) e(2-5) assms(4) rs(2)])
  have named: "run_named (text_of (dget args ''run_id'')) v'"
    using created_extend(4) [OF e(2) run_session_events [OF rs(1)]] assms(3) by simp
  have req: "resume_request L args binding ?i" using assms(7) by (simp add: resume_request_def resume_invocation_def)
  have k: "resume_checks L args binding st' = Inr (sid, ?i)"
    using resume_by_status [OF c(2) e(1) named i' req] assms(6) by simp
  obtain iv where iv: "resume_invocation args i = Inr iv" "resume_invocation args ?i = Inr iv"
    using assms(7) by (auto simp: resume_request_def resume_invocation_def)
  have "fst (snd (resume_run L w' args binding st')) = [iv]"
    by (simp add: resume_run_def k iv(2) Let_def split: engine_answer.split json.split prod.split sum.split)
  then show ?thesis using before iv(1) by blast
qed

text \<open>A status the service does not know is reported as \<open>failed\<close> but stored as the engine gave it, so the Run the client
  sees as failed keeps its issue claimed.\<close>

theorem unknown_status_keeps_claim:
  assumes "st = ls_store (run (life_step L) qs no_runs)" "lw_answer w = Answers (JObj result)" "dget result ''status'' = JStr x"
    "x \<notin> set (''created'' # ''running'' # ''review_submitted'' # TERMINAL_STATUSES)"
    "resume_run L w args binding st = (Inr res, ivs, st')" "dget args' ''issue_ref'' = dget args ''issue_ref''"
  shows "dget (as_dict res) ''status'' = JStr ''failed'' \<and> (\<exists>e. create_run L w' args' binding' st' = (Inl e, st'))"
proof -
  have ok: "life_ok (lh_lib L) st" using life_inv_run [of L qs] by (simp add: assms(1) life_inv_def)
  obtain sid i where c: "resume_checks L args binding st = Inr (sid, i)" and t: "turn_added (lh_lib L) w st sid st'"
    using resume_run_effect [OF ok assms(5)] by auto
  obtain v s where v: "stored st sid v" "dget args ''issue_ref'' = JStr s" "run_of_issue s v" by (rule resume_checks_Inr [OF ok c])
  note d = assms(5) [unfolded resume_run_def c]
  obtain iv where iv: "resume_invocation args i = Inr iv"
  proof (cases "resume_invocation args i")
    case (Inl e)
    obtain z st2 where z: "resume_failed L w sid (dget args ''run_id'') i (lh_text L e) st = (z, st2)" by fastforce
    then show ?thesis using d Inl resume_failed_effect [OF ok z] by (auto simp: Let_def)
  qed
  obtain y st1 where y: "append_engine_turn (lh_lib L) (lw_clock w 1) (lw_stamp w 0) (lw_writes w 0) sid (resume_base (dget args ''run_id'') i)
      (text_of (dget args ''run_id'')) result None st = (y, st1)" by fastforce
  have y1: "\<exists>doc. y = Inr doc" "st' = st1" and res: "envelope_of L (ri_issue_ref i) (dget args ''run_id'')
      (or_else (dget result ''session_id'') (ri_session_id i)) (ri_engine_id i) (ri_profile i) (or_else (ri_worker_role i) (JStr ''builder''))
      (JStr (lw_clock w 0)) result (dget args ''model'') (JStr (lw_clock w 2)) = Inr res"
    using d iv assms(2) y by (cases y; simp add: Let_def del: One_nat_def)+
  have "dget (as_dict res) ''status'' = envelope_status result" using res by (auto simp: envelope_of_def result_simps as_dict_def)
  moreover have "envelope_status result = JStr ''failed''" using assms(3,4) by (auto simp: envelope_status_def)
  moreover have "sessions_ok (lh_lib L) st" using ok by (simp add: life_ok_def)
  from engine_turn_grows [OF this y] obtain p where p: "turn_payload (resume_base (dget args ''run_id'') i) (text_of (dget args ''run_id'')) result None (lw_clock w 1) = Inr p"
    "event_added st sid ''run.engine_turn'' p st1" using y1 by auto
  obtain v' where v': "stored st1 sid v'" "created_of v' = created_of v" "is_run v' = is_run v"
    "run_status v' = status_after ''run.engine_turn'' p (run_status v)" by (rule event_added_cases [OF ok p(2) v(1)]) (rule that)
  have "dget_or result ''status'' (JStr ''failed'') = JStr x" using assms(3) by (auto simp: dget_or_def dget_def split: option.split_asm)
  then have "run_status v' = JStr x" using turn_payload_status [OF p(1)] by (simp add: v'(4) status_after_def)
  then have "active v'" using assms(4) by (auto simp: active_def)
  moreover have "run_of_issue s v'" using v(3) v'(2,3) by (simp add: run_of_issue_def)
  moreover have "life_ok (lh_lib L) st'" using t by (simp add: turn_added_def)
  ultimately show ?thesis using active_refuses_create v'(1) y1(2) assms(6) v(2) by metis
qed

section \<open>A Run from its creation to its result\<close>

text \<open>Events of a session by type and payload.\<close>

definition event_log :: "json \<Rightarrow> (string \<times> json) list \<Rightarrow> bool" where
  "event_log v l \<longleftrightarrow> list_all2 (\<lambda>e tp. event_is (fst tp) e \<and> (\<forall>u. u \<noteq> fst tp \<longrightarrow> \<not> event_is u e) \<and> payload_of e = snd tp) (events_of v) l"

lemma event_log_append:
  assumes "life_ok H st" "event_added st sid t p st'" "stored st sid v" "event_log v l"
  obtains v' where "stored st' sid v'" "event_log v' (l @ [(t, json_norm (JObj p))])"
proof -
  obtain v' e where "stored st' sid v'" "events_of v' = events_of v @ [e]" "event_is t e" "\<forall>u. u \<noteq> t \<longrightarrow> \<not> event_is u e"
    "payload_of e = json_norm (JObj p)"
    using assms(2,3) by (auto simp: event_added_def stored_def)
  with assms(4) that show thesis by (auto simp: event_log_def list_all2_appendI)
qed

lemma append_succeeds:
  assumes "life_ok H st" "stored st sid v" "latest_sequence v = n" "event_type_re t" "finite_json (JObj p)"
  obtains doc st' where "session_append H now True sid n t (JObj p) st = (Inr doc, st')" "event_added st sid t p st'" "life_ok H st'"
proof -
  have ok: "sessions_ok H st" using assms(1) by (simp add: life_ok_def)
  obtain doc where "prepare_append H now sid (latest_sequence v) t (JObj p) st = Inr doc" "canonical_bytes H doc \<noteq> None"
    by (rule append_accepted [OF ok life_ok_stored(1) [OF assms(1,2)] assms(4,5)])
  then obtain st' where a: "session_append H now True sid n t (JObj p) st = (Inr doc, st')"
    using assms(3) by (auto simp: session_append_def atomic_write_def)
  have "sessions_ok H st'" "event_added st sid t p st'" using session_append_grows [OF ok a] by auto
  then show thesis using that [OF a] life_ok_event_added [OF assms(1)] by blast
qed

lemma writer_succeeds:
  assumes "life_ok H st" "stored st sid v" "event_type_re t" "finite_json (JObj p)"
  obtains doc st' where "writer_append H now True sid t (JObj p) st = (Inr doc, st')" "event_added st sid t p st'" "life_ok H st'"
proof (rule append_succeeds [OF assms(1,2) refl assms(3,4)])
  fix doc st'
  assume "session_append H now True sid (latest_sequence v) t (JObj p) st = (Inr doc, st')" "event_added st sid t p st'" "life_ok H st'"
  then show thesis using that life_ok_stored(1) [OF assms(1,2)] by (auto simp: writer_append_def)
qed

lemma log_length: "event_log v l \<Longrightarrow> latest_sequence v = int (length l) - 1"
  by (auto simp: event_log_def latest_sequence_def dest: list_all2_lengthD)

definition first_log :: "life_world \<Rightarrow> dict \<Rightarrow> dict \<Rightarrow> (string \<times> json) list" where
  "first_log w args p = (let r = JStr (lw_run_id w) in
     [(''session.created'', json_norm (JObj (create_payload (dget args ''task_id'')
         [(''run_id'', r), (''issue_id'', dget args ''issue_ref''), (''worker_role'', dget args ''worker_role''), (''runtime'', dget args ''engine_id'')]))),
      (''run.created'', json_norm (JObj p)),
      (''run.running'', json_norm (JObj [(''run_id'', r), (''started_at'', JStr (lw_clock w 0))]))])"

text \<open>A creation that passes its checks succeeds when the store takes its writes.\<close>

lemma create_succeeds:
  assumes "life_ok (lh_lib L) st" "fresh_ids w st" "create_checks L (lw_run_id w) args binding st = Inr p" "nonblank (dget args ''task_id'')"
    "hex_run 32 (lw_uuid w)" "\<forall>k. lw_writes w k" "finite_json (JObj p)"
  obtains env st' v where "create_run L w args binding st =
      (Inr (env, \<lparr>wj_session_id = ''session_'' @ lw_uuid w, wj_run_id = lw_run_id w, wj_run_created = p, wj_args = args\<rparr>), st')"
    "dget (as_dict env) ''status'' = JStr ''running''" "life_ok (lh_lib L) st'" "stored st' (''session_'' @ lw_uuid w) v"
    "event_log v (first_log w args p)"
proof -
  let ?H = "lh_lib L" and ?sid = "''session_'' @ lw_uuid w" and ?r = "JStr (lw_run_id w)"
  let ?opt = "[(''run_id'', ?r), (''issue_id'', dget args ''issue_ref''), (''worker_role'', dget args ''worker_role''), (''runtime'', dget args ''engine_id'')]"
  let ?q = "[(''run_id'', ?r), (''started_at'', JStr (lw_clock w 0))]"
  have w: "lw_writes w k" for k using assms(6) by blast
  have val: "validate_schema RUN_CREATE args = Inr ()" using assms(3) by (auto simp: create_checks_def result_simps)
  note txts = valid_args [OF val create_schema_fields(1), THEN valid_string_value]
  have fin: "finite_json (dget args ''task_id'')" "finite_json (JObj ?opt)"
    using txts [OF create_schema_fields(2,3)] txts [OF create_schema_fields(4,5)] txts [OF create_schema_fields(6,7)]
      txts [OF create_schema_fields(8,9)] by auto
  obtain doc where d: "session_create ?H (lw_stamp w 0) (lw_uuid w) True (dget args ''task_id'') ?opt st =
      (Inr doc, AList.update ?sid (Some (json_norm doc)) st)" (is "_ = (_, ?st0)")
    by (rule create_accepted [OF assms(4) fin assms(5)])
  have ok: "sessions_ok ?H st" using assms(1) by (simp add: life_ok_def)
  have none: "map_of st ?sid = None" using assms(2) by (simp add: fresh_ids_def)
  have a: "sessions_ok ?H ?st0" "session_added st ?sid (lw_run_id w) (dget args ''issue_ref'') ?st0"
    using session_create_adds [OF ok none d] by auto
  have l0: "life_ok ?H ?st0" by (rule life_ok_session_added [OF assms(1) a]) (rule fresh_ids_stored [OF assms(2)])
  have s0: "stored ?st0 ?sid (json_norm doc)" by (simp add: stored_def update_conv')
  obtain e where e: "dget e ''event_type'' = JStr ''session.created''" "dget e ''payload'' = JObj (create_payload (dget args ''task_id'') ?opt)"
    "events_of (json_norm doc) = [json_norm (JObj e)]"
    using session_create_events [OF d] by auto
  have g0: "event_log (json_norm doc) [(''session.created'', json_norm (JObj (create_payload (dget args ''task_id'') ?opt)))]"
    using e by (simp add: event_log_def del: json_norm.simps(2))
  have t: "event_type_re ''run.created''" "event_type_re ''run.running''"
    by (simp_all add: event_type_re_def is_lower_def is_digit_def)
  obtain doc1 st1 where b: "session_append ?H (lw_stamp w 1) True ?sid 0 ''run.created'' (JObj p) ?st0 = (Inr doc1, st1)"
    "event_added ?st0 ?sid ''run.created'' p st1" "life_ok ?H st1"
    by (rule append_succeeds [OF l0 s0 _ t(1) assms(7)]) (simp add: log_length [OF g0])
  obtain v1 where v1: "stored st1 ?sid v1" "event_log v1 ([(''session.created'', json_norm (JObj (create_payload (dget args ''task_id'') ?opt)))] @
      [(''run.created'', json_norm (JObj p))])" by (rule event_log_append [OF l0 b(2) s0 g0])
  have f: "finite_json (JObj ?q)" by simp
  obtain doc2 st2 where c: "session_append ?H (lw_stamp w 2) True ?sid 1 ''run.running'' (JObj ?q) st1 = (Inr doc2, st2)"
    "event_added st1 ?sid ''run.running'' ?q st2" "life_ok ?H st2"
    by (rule append_succeeds [OF b(3) v1(1) _ t(2) f]) (simp add: log_length [OF v1(2)])
  obtain v2 where v2: "stored st2 ?sid v2" "event_log v2 (first_log w args p)"
    by (rule event_log_append [OF b(3) c(2) v1]) (auto simp: first_log_def Let_def)
  have "\<exists>env. create_run L w args binding st =
      (Inr (env, \<lparr>wj_session_id = ?sid, wj_run_id = lw_run_id w, wj_run_created = p, wj_args = args\<rparr>), st2) \<and>
      dget (as_dict env) ''status'' = JStr ''running''"
    using assms(3) d b(1) c(1) w
    by (simp add: create_run_def Let_def envelope_of_def safe_cost_def is_number_def as_dict_def envelope_status_def del: One_nat_def)
  then show thesis using that c(3) v2 by blast
qed

text \<open>A worker whose engine answers with a result records it.\<close>

lemma worker_succeeds:
  assumes "life_ok (lh_lib L) st" "stored st (wj_session_id j) v" "event_log v l" "job_invocation j = Inr iv" "lw_answer w = Answers (JObj r)"
    "lw_writes w 0" "turn_payload (wj_run_created j) (wj_run_id j) r None (lw_clock w 0) = Inr p" "finite_json (JObj p)"
  obtains st' v' where "worker_turn L w j st = ([iv], st')" "life_ok (lh_lib L) st'" "stored st' (wj_session_id j) v'"
    "event_log v' (l @ [(''run.engine_turn'', json_norm (JObj p))])"
proof -
  have t: "event_type_re ''run.engine_turn''" by (simp add: event_type_re_def is_lower_def is_digit_def)
  obtain doc st' where a: "writer_append (lh_lib L) (lw_stamp w 0) True (wj_session_id j) ''run.engine_turn'' (JObj p) st = (Inr doc, st')"
    "event_added st (wj_session_id j) ''run.engine_turn'' p st'" "life_ok (lh_lib L) st'"
    by (rule writer_succeeds [OF assms(1,2) t assms(8)])
  obtain v' where "stored st' (wj_session_id j) v'" "event_log v' (l @ [(''run.engine_turn'', json_norm (JObj p))])"
    by (rule event_log_append [OF assms(1) a(2) assms(2,3)])
  moreover have "worker_turn L w j st = ([iv], st')"
    using assms(4-8) a(1) by (simp add: worker_turn_def append_engine_turn_def store_result_def)
  ultimately show thesis using that a(3) by blast
qed

lemma log_of_four:
  assumes "run_session v" "event_log v [(''session.created'', JObj c), (''run.created'', JObj rc), (''run.running'', JObj q), (''run.engine_turn'', JObj t)]"
    "t \<noteq> []"
  shows "created_of v = c" "run_created_of v = JObj rc" "turn_or_empty v = JObj t" "running_payload v = JObj q"
    "run_status v = dget_or t ''status'' (JStr ''failed'')"
  using assms(2,3) first_payload_created [OF assms(1)]
  by (auto simp: event_log_def list_all2_Cons2 first_payload_def created_of_def run_created_of_def turn_or_empty_def last_engine_turn_def
      or_else_def running_payload_def run_status_def last_run_status_def)

lemma sorted_empty: "sort_key fst (map_vals json_norm d) = [] \<longleftrightarrow> d = []"
  by (metis length_0_conv length_map length_sort map_vals_def)

lemma turn_fields:
  assumes "turn_payload base r result None fin = Inr t"
  shows "dget t ''session_id'' = dget result ''session_id''" "dget t ''finished_at'' = JStr fin"
    "\<exists>x. dget t ''cost'' = JFlt x" "t \<noteq> []"
  using assms by (auto simp: turn_payload_def result_simps safe_cost_def split: if_split_asm)

text \<open>A creation that passes its checks leaves its worker a job it can ask of the engine.\<close>

lemma job_ready:
  assumes "create_checks L r args binding st = Inr p"
  shows "\<exists>iv. job_invocation \<lparr>wj_session_id = sid, wj_run_id = r, wj_run_created = p, wj_args = args\<rparr> = Inr iv"
proof -
  have val: "validate_schema RUN_CREATE args = Inr ()" and pay: "run_created_payload r args binding = Inr p"
    using assms by (auto simp: create_checks_def result_simps)
  obtain m where m: "number_int (dget args ''max_runtime_seconds'') = Inr m"
    using pay by (auto simp: run_created_payload_def result_simps)
  have "map_of (ts_properties CREATE_SCHEMA) ''worktree'' = Some p_nullable" by (simp add: CREATE_SCHEMA_def)
  from valid_optional [OF val create_schema_fields(1) this] have "dget args ''worktree'' = JNull \<or> is_str (dget args ''worktree'')"
    using valid_nullable_value by blast
  then have "\<exists>cwd. path_arg (dget args ''worktree'') = Inr cwd" by (auto simp: path_arg_def)
  then show ?thesis using m by (auto simp: job_invocation_def Let_def)
qed

text \<open>What the service reports of a Run whose only turn is \<open>t\<close>.\<close>

lemma answered_status:
  assumes "life_ok (lh_lib L) st" "stored st sid v" "event_log v (first_log w args p @ [(''run.engine_turn'', json_norm (JObj t))])"
    "life_run_id_re (lw_run_id w)" "turn_payload p (lw_run_id w) r None fin = Inr t" "dget r ''status'' = JStr x" "x \<in> set TERMINAL_STATUSES"
  shows "(\<exists>env. status_of L (lw_run_id w) JNull st = Inr env \<and> dget (as_dict env) ''status'' = JStr x \<and>
    dget (as_dict env) ''session_id'' = json_norm (dget r ''session_id'') \<and> dget (as_dict env) ''started_at'' = JStr (lw_clock w 0) \<and>
    dget (as_dict env) ''finished_at'' = JStr fin) \<and> \<not> active v"
proof -
  have rs: "run_session v" using life_ok_stored(2) [OF assms(1,2)] .
  note tf = turn_fields [OF assms(5)]
  let ?t = "sort_key fst (map_vals json_norm t)"
  have tne: "?t \<noteq> []" using tf(4) by (simp add: sorted_empty)
  note g = log_of_four [OF rs assms(3) [unfolded first_log_def Let_def append_Cons append_Nil json_norm.simps(2)] tne]
  have named: "run_named (lw_run_id w) v" by (simp add: run_named_def g(1) create_payload_def OPTIONAL_FIELDS_def)
  have gx: "dget_or t ''status'' (JStr ''failed'') = JStr x"
    using turn_payload_status [OF assms(5)] assms(6) by (auto simp: dget_or_def dget_def split: option.split_asm)
  have status: "run_status v = JStr x" by (simp add: g(5) gx)
  have tx: "dget t ''status'' = JStr x"
    using gx assms(5) by (auto simp: turn_payload_def result_simps dget_or_def)
  obtain i where i: "run_identity_of v = Inr i" "ri_status i = JStr x"
    by (rule identity_ok [OF rs]) (use status in auto)
  have "find_run (lh_lib L) st (lw_run_id w) = Inr (Some (sid, v))" using find_run_Some [OF assms(1)] assms(2) named by simp
  then have mr: "matched_run (lh_lib L) st (lw_run_id w) JNull = Inr (sid, v, i)" using i by (simp add: matched_run_def)
  have un: "status_among [''created'', ''running''] (JStr x) = Inr False"
    using assms(7) by (auto simp: status_among_def TERMINAL_STATUSES_def)
  obtain c where c: "dget t ''cost'' = JFlt c" using tf(3) by auto
  have es: "envelope_status ?t = JStr x" using assms(7) by (simp add: envelope_status_def tx)
  show ?thesis
    using assms(4,7) tne
    by (simp add: status_of_def validate_run_id_def mr g(3,4) attr_def un i(2) envelope_of_def safe_cost_def c is_number_def number_float_def
        as_dict_def es tf(1,2) active_def status)
qed

text \<open>C20: a Run reports what its engine answered. After a valid creation with new ids, whose writes work and whose payload is finite, and
  the turn of its worker right after it, in which the engine answered one of the terminal statuses, the result is finite and
  its write works, the status of the Run is that status, with the engine's session id and both times, and the Run no longer
  holds its issue. For an engine status outside the terminal ones see \<open>unknown_status_keeps_claim\<close>.\<close>

theorem created_run_reports_result:
  assumes "s = run (life_step L) qs no_runs" "fresh_ids w (ls_store s)" "life_run_id_re (lw_run_id w)"
    "create_checks L (lw_run_id w) args binding (ls_store s) = Inr p" "nonblank (dget args ''task_id'')" "hex_run 32 (lw_uuid w)"
    "\<forall>k. lw_writes w k" "finite_json (JObj p)"
    "lw_answer w' = Answers (JObj r)" "dget r ''status'' = JStr x" "x \<in> set TERMINAL_STATUSES" "lw_writes w' 0"
    "turn_payload p (lw_run_id w) r None (lw_clock w' 0) = Inr t" "finite_json (JObj t)"
    "later = ls_store (run (life_step L) [Run_create w args binding, Run_work w' (length (ls_jobs s))] s)"
  shows "\<exists>env. status_of L (lw_run_id w) JNull later = Inr env \<and> dget (as_dict env) ''status'' = JStr x \<and>
    dget (as_dict env) ''session_id'' = json_norm (dget r ''session_id'') \<and> dget (as_dict env) ''started_at'' = JStr (lw_clock w 0) \<and>
    dget (as_dict env) ''finished_at'' = JStr (lw_clock w' 0) \<and> (\<exists>v. stored later (''session_'' @ lw_uuid w) v \<and> \<not> active v)"
proof -
  let ?sid = "''session_'' @ lw_uuid w" and ?H = "lh_lib L"
  let ?j = "\<lparr>wj_session_id = ?sid, wj_run_id = lw_run_id w, wj_run_created = p, wj_args = args\<rparr>"
  have ok: "life_ok ?H (ls_store s)" using life_inv_run [of L qs] by (simp add: assms(1) life_inv_def)
  obtain env st' v where a: "create_run L w args binding (ls_store s) = (Inr (env, ?j), st')" "life_ok ?H st'" "stored st' ?sid v"
    "event_log v (first_log w args p)"
    by (rule create_succeeds [OF ok assms(2,4-8)])
  obtain iv where iv: "job_invocation ?j = Inr iv" using job_ready [OF assms(4)] by blast
  obtain st2 v2 where b: "worker_turn L w' ?j st' = ([iv], st2)" "life_ok ?H st2" "stored st2 (wj_session_id ?j) v2"
    "event_log v2 (first_log w args p @ [(''run.engine_turn'', json_norm (JObj t))])"
    by (rule worker_succeeds [OF a(2) _ a(4) iv assms(9,12) _ assms(14)]) (use a(3) assms(13) in auto)
  have later: "later = st2" using a(1) b(1) assms(2) by (simp add: assms(15))
  have v2: "stored st2 ?sid v2" using b(3) by simp
  show ?thesis
    using answered_status [OF b(2) v2 b(4) assms(3,13,10,11)] v2 later by blast
qed

section \<open>Sample calls\<close>

definition sample_host :: life_host where
  "sample_host = \<lparr>lh_mandate = sample_mlib, lh_registered = (\<lambda>s. s = ''codex''), lh_str = (\<lambda>_. []), lh_text = (\<lambda>_. ''error'')\<rparr>"

definition sample_rid :: string where "sample_rid = ''20260101T000000Z_00000000''"

definition sample_run_sid :: string where "sample_run_sid = ''session_'' @ replicate 32 (CHR ''0'')"

definition sample_answer :: "string \<Rightarrow> dict" where
  "sample_answer x = [(''status'', JStr x), (''session_id'', JStr ''e'')]"

definition sample_world :: "string \<Rightarrow> life_world" where
  "sample_world x = \<lparr>lw_run_id = sample_rid, lw_uuid = replicate 32 (CHR ''0''), lw_review_uuid = replicate 32 (CHR ''0''),
     lw_clock = (\<lambda>_. ''t''), lw_stamp = (\<lambda>_. ''t''), lw_writes = (\<lambda>_. True), lw_answer = Answers (JObj (sample_answer x))\<rparr>"

definition sample_args :: "dict \<Rightarrow> dict" where
  "sample_args policy = [(''issue_ref'', JStr ''o/r#1''), (''task_id'', JStr ''t''), (''workflow'', JStr ''w''), (''worker_role'', JStr ''builder''),
     (''scope'', JStr ''s''), (''acceptance_criteria'', JList [JStr ''a'']), (''engine_id'', JStr ''codex''), (''profile'', JStr ''builder''),
     (''max_runtime_seconds'', JFlt (Fin 60)), (''max_cost_usd'', JFlt (Fin 1)), (''max_parallel_workers'', JFlt (Fin 1)),
     (''delegation_depth'', JFlt (Fin 0)), (''artifact_policy'', JObj policy), (''approval_ref'', JStr ''a''), (''data_class'', JStr ''L0''),
     (''estimated_cost_usd'', JFlt (Fin 1)), (''prompt'', JStr ''p'')]"

definition sample_fingerprint :: json where
  "sample_fingerprint = JStr (compute_scope_fingerprint sample_mlib ''s'')"

definition sample_binding :: dict where
  "sample_binding = [(''issue_ref'', JStr ''o/r#1''), (''scope_fingerprint'', sample_fingerprint)]"

definition sample_created :: "dict \<Rightarrow> dict" where
  "sample_created policy = [(''run_id'', JStr sample_rid), (''issue_ref'', JStr ''o/r#1''), (''scope_fingerprint'', sample_fingerprint),
     (''engine_id'', JStr ''codex''), (''profile'', JStr ''builder''), (''data_class'', JStr ''L0''), (''max_runtime_seconds'', JInt 60),
     (''max_cost_usd'', JFlt (Fin 1)), (''max_parallel_workers'', JInt 1), (''delegation_depth'', JInt 0), (''artifact_policy'', JObj policy),
     (''approval_ref'', JStr ''a''), (''model'', JNull), (''provider'', JNull), (''worktree'', JNull)]"

definition sample_turn :: "string \<Rightarrow> dict" where
  "sample_turn x = [(''run_id'', JStr sample_rid), (''engine_id'', JStr ''codex''), (''profile'', JStr ''builder''), (''status'', JStr x),
     (''session_id'', JStr ''e''), (''model'', JNull), (''provider'', JNull), (''usage'', JObj []), (''cost'', JFlt (Fin 0)),
     (''cost_status'', JStr ''unknown''), (''artifacts'', JList []), (''evidence'', JList []), (''error'', JNull), (''finished_at'', JStr ''t'')]"

definition sample_resume :: dict where
  "sample_resume = [(''run_id'', JStr sample_rid), (''issue_ref'', JStr ''o/r#1''), (''prompt'', JStr ''p''),
     (''max_runtime_seconds'', JFlt (Fin 60)), (''data_class'', JStr ''L0''), (''estimated_cost_usd'', JFlt (Fin 1))]"

definition sample_outcome :: dict where
  "sample_outcome = [(''issue_id'', JStr ''o/r#1''), (''run_id'', JStr sample_rid), (''status'', JStr ''succeeded'')]"

definition sample_submit :: dict where
  "sample_submit = [(''run_id'', JStr sample_rid), (''issue_ref'', JStr ''o/r#1''), (''result'', JObj sample_outcome),
     (''review_kind'', JStr ''independent''), (''idempotency_key'', JStr ''k''), (''data_class'', JStr ''L0''),
     (''max_runtime_seconds'', JFlt (Fin 1))]"

definition sample_op :: "dict \<Rightarrow> life_op" where
  "sample_op policy = Run_create (sample_world ''succeeded'') (sample_args policy) sample_binding"

definition sample_work :: "string \<Rightarrow> life_op" where
  "sample_work x = Run_work (sample_world x) 0"

lemma sample_checks:
  "create_checks sample_host sample_rid (sample_args []) sample_binding [] = Inr (sample_created [])"
  "create_checks sample_host sample_rid (sample_args [(''x'', JFlt NaN)]) sample_binding [] = Inr (sample_created [(''x'', JFlt NaN)])"
  by code_simp+

lemma sample_world_fields [simp]:
  "lw_run_id (sample_world x) = sample_rid" "lw_uuid (sample_world x) = replicate 32 (CHR ''0'')" "lw_clock (sample_world x) k = ''t''"
  "lw_writes (sample_world x) k" "lw_answer (sample_world x) = Answers (JObj (sample_answer x))" "lw_review_uuid (sample_world x) = replicate 32 (CHR ''0'')"
  by (simp_all add: sample_world_def)

lemma sample_life_session [simp]:
  "CHR ''s'' # CHR ''e'' # CHR ''s'' # CHR ''s'' # CHR ''i'' # CHR ''o'' # CHR ''n'' # CHR ''_'' # replicate 32 (CHR ''0'') = sample_run_sid"
  by (simp add: sample_run_sid_def)

lemma sample_fresh: "fresh_ids (sample_world x) (ls_store no_runs)"
  by (simp add: fresh_ids_def no_runs_def)

lemma sample_misc:
  "nonblank (dget (sample_args p) ''task_id'')" "hex_run 32 (replicate 32 (CHR ''0''))" "life_run_id_re sample_rid" "finite_json (JObj (sample_created []))"
  "dget (sample_args p) ''issue_ref'' = JStr ''o/r#1''" "finite_json (JObj (sample_turn x))" "ls_store no_runs = []"
  by (simp_all add: sample_args_def nonblank_def blank_def is_space_def hex_run_def is_hex_def is_digit_def list_all_iff sample_rid_def
      life_run_id_re_def sample_created_def sample_fingerprint_def sample_turn_def no_runs_def)

lemma sample_turn_payload: "turn_payload (sample_created []) sample_rid (sample_answer x) None ''t'' = Inr (sample_turn x)"
  by (simp add: turn_payload_def sample_created_def sample_answer_def sample_turn_def safe_cost_def is_number_def or_else_def dict_or_def
      list_or_empty_def safe_artifacts_def dget_or_def)

abbreviation sample_started :: life_state where
  "sample_started \<equiv> run (life_step sample_host) [sample_op []] no_runs"

abbreviation sample_done :: "string \<Rightarrow> life_state" where
  "sample_done x \<equiv> run (life_step sample_host) [sample_op [], sample_work x] no_runs"

definition sample_job :: worker_job where
  "sample_job = \<lparr>wj_session_id = sample_run_sid, wj_run_id = sample_rid, wj_run_created = sample_created [], wj_args = sample_args []\<rparr>"

abbreviation sample_log :: "(string \<times> json) list" where
  "sample_log \<equiv> first_log (sample_world ''succeeded'') (sample_args []) (sample_created [])"

lemma sample_running:
  obtains v where "ls_jobs sample_started = [sample_job]" "life_ok (lh_lib sample_host) (ls_store sample_started)"
    "stored (ls_store sample_started) sample_run_sid v" "event_log v sample_log"
proof -
  have ok: "life_ok (lh_lib sample_host) (ls_store no_runs)" using life_inv_init by (simp add: life_inv_def)
  obtain env st' v where "create_run sample_host (sample_world ''succeeded'') (sample_args []) sample_binding (ls_store no_runs) = (Inr (env, sample_job), st')"
    "life_ok (lh_lib sample_host) st'" "stored st' sample_run_sid v" "event_log v sample_log"
    by (rule create_succeeds [OF ok sample_fresh [of "''succeeded''"], where args = "sample_args []" and binding = sample_binding and p = "sample_created []"])
      (use sample_checks sample_misc in \<open>simp_all add: sample_job_def no_runs_def\<close>)
  then show thesis using that sample_fresh by (simp add: sample_op_def no_runs_def)
qed

lemma sample_log_eq:
  "sample_log = [(''session.created'', JObj [(''issue_id'', JStr ''o/r#1''), (''run_id'', JStr sample_rid), (''runtime'', JStr ''codex''), (''task_id'', JStr ''t''), (''worker_role'', JStr ''builder'')]),
     (''run.created'', json_norm (JObj (sample_created []))), (''run.running'', JObj [(''run_id'', JStr sample_rid), (''started_at'', JStr ''t'')])]"
  by (simp add: first_log_def Let_def create_payload_def OPTIONAL_FIELDS_def sample_args_def)

lemma log_of_three:
  assumes "run_session v" "event_log v [(''session.created'', JObj c), (''run.created'', rc), (''run.running'', JObj q)]"
  shows "created_of v = c" "run_status v = JStr ''running''"
  using assms(2) first_payload_created [OF assms(1)]
  by (auto simp: event_log_def list_all2_Cons2 first_payload_def created_of_def run_status_def last_run_status_def)

lemma sample_running_status:
  assumes "run_session v" "event_log v sample_log"
  shows "run_status v = JStr ''running''" "run_named sample_rid v" "run_of_issue ''o/r#1'' v"
  using log_of_three [OF assms(1) assms(2) [unfolded sample_log_eq]]
  by (simp_all add: run_named_def run_of_issue_def is_run_def has_key_def dict_keys_def)

text \<open>The identity of the sample Run after the turn of its worker.\<close>

definition sample_identity :: "string \<Rightarrow> run_identity" where
  "sample_identity x = \<lparr>ri_run_id = JStr sample_rid, ri_issue_ref = JStr ''o/r#1'', ri_engine_id = JStr ''codex'', ri_profile = JStr ''builder'',
     ri_session_id = JStr ''e'', ri_scope_fingerprint = sample_fingerprint, ri_worktree = JNull, ri_status = JStr x, ri_max_runtime = JInt 60,
     ri_max_cost = JFlt (Fin 1), ri_worker_role = JStr ''builder''\<rparr>"

lemma sample_finished:
  obtains v where "life_ok (lh_lib sample_host) (ls_store (sample_done x))" "stored (ls_store (sample_done x)) sample_run_sid v"
    "run_session v" "run_named sample_rid v" "run_of_issue ''o/r#1'' v" "run_status v = JStr x" "run_identity_of v = Inr (sample_identity x)"
    "find_submission ''k'' (events_of v) = Inr None"
proof -
  obtain v0 where v0: "ls_jobs sample_started = [sample_job]" "life_ok (lh_lib sample_host) (ls_store sample_started)"
    "stored (ls_store sample_started) sample_run_sid v0" "event_log v0 sample_log" by (rule sample_running)
  have iv: "job_invocation sample_job = Inr \<lparr>iv_engine = JStr ''codex'', iv_profile = JStr ''builder'', iv_prompt = JStr ''p'', iv_timeout = 60,
      iv_model = JNull, iv_provider = JNull, iv_cwd = JNull, iv_session_id = JNull\<rparr>"
    by (simp add: job_invocation_def sample_job_def sample_args_def number_int_def path_arg_def sample_created_def)
  have j: "stored (ls_store sample_started) (wj_session_id sample_job) v0"
      "turn_payload (wj_run_created sample_job) (wj_run_id sample_job) (sample_answer x) None (lw_clock (sample_world x) 0) = Inr (sample_turn x)"
      "wj_session_id sample_job = sample_run_sid" "wj_run_id sample_job = sample_rid"
    by (simp_all only: sample_job_def worker_job.select_convs v0(3) sample_turn_payload sample_world_fields)
  obtain st' v where w: "worker_turn sample_host (sample_world x) sample_job (ls_store sample_started) = ([\<lparr>iv_engine = JStr ''codex'', iv_profile = JStr ''builder'', iv_prompt = JStr ''p'', iv_timeout = 60,
      iv_model = JNull, iv_provider = JNull, iv_cwd = JNull, iv_session_id = JNull\<rparr>], st')" "life_ok (lh_lib sample_host) st'" "stored st' sample_run_sid v"
    "event_log v (sample_log @ [(''run.engine_turn'', json_norm (JObj (sample_turn x)))])"
    by (rule worker_succeeds [OF v0(2) j(1) v0(4) iv sample_world_fields(5) sample_world_fields(4) j(2) sample_misc(6), unfolded j(3)]) (rule that)
  have st: "ls_store (sample_done x) = st'" using v0(1) w(1) by (simp add: run_def sample_work_def)
  have rs: "run_session v" by (rule life_ok_stored(2) [OF w(2,3)])
  let ?t = "sort_key fst (map_vals json_norm (sample_turn x))" and ?c = "sort_key fst (map_vals json_norm (sample_created []))"
  have tne: "?t \<noteq> []" unfolding sorted_empty by (simp add: sample_turn_def)
  note g = log_of_four [OF rs w(4) [unfolded sample_log_eq append_Cons append_Nil json_norm.simps(2)] tne]
  have s: "run_status v = JStr x" by (simp add: g(5)) (simp add: sample_turn_def dget_or_def)
  have n: "run_named sample_rid v" "run_of_issue ''o/r#1'' v"
    by (simp_all add: run_named_def run_of_issue_def is_run_def g(1) has_key_def dict_keys_def)
  have i: "run_identity_of v = Inr (sample_identity x)"
    by (simp add: run_identity_of_def first_payload_created [OF rs] last_run_status_ok [OF rs] g(2,3) s)
      (simp add: g(1) sample_identity_def sample_turn_def sample_created_def or_else_def sample_fingerprint_def)
  have "find_submission ''k'' (events_of v) = Inr None"
    using w(4) by (auto simp: sample_log_eq event_log_def list_all2_Cons2)
  then show thesis using that w(2,3) rs n s i st by simp
qed

theorem lifecycle_one_active_run_witness:
  "\<exists>!sid. \<exists>v. stored (ls_store sample_started) sid v \<and> run_of_issue ''o/r#1'' v \<and> active v"
proof -
  obtain v where v: "life_ok (lh_lib sample_host) (ls_store sample_started)" "stored (ls_store sample_started) sample_run_sid v" "event_log v sample_log"
    by (rule sample_running)
  note s = sample_running_status [OF life_ok_stored(2) [OF v(1,2)] v(3)]
  have k: "list_all known_answers [sample_op []]" by (simp add: known_answers_def sample_op_def)
  show ?thesis
    using v(2) s created_active(2) lifecycle_one_active_run [OF k refl] by (intro ex1I [of _ sample_run_sid]) blast+
qed

theorem created_run_reports_result_witness:
  "\<exists>env. status_of sample_host sample_rid JNull (ls_store (sample_done ''succeeded'')) = Inr env \<and> dget (as_dict env) ''status'' = JStr ''succeeded''"
proof -
  have "\<exists>env. status_of sample_host (lw_run_id (sample_world ''succeeded'')) JNull (ls_store (sample_done ''succeeded'')) = Inr env \<and> dget (as_dict env) ''status'' = JStr ''succeeded''"
    using created_run_reports_result [of no_runs sample_host "[]" "sample_world ''succeeded''" "sample_args []" sample_binding "sample_created []"
        "sample_world ''succeeded''" "sample_answer ''succeeded''" "''succeeded''" "sample_turn ''succeeded''" "ls_store (sample_done ''succeeded'')"]
      sample_fresh sample_misc sample_checks(1) sample_turn_payload [of "''succeeded''"]
    by (auto simp: sample_op_def sample_work_def sample_answer_def TERMINAL_STATUSES_def no_runs_def)
  then show ?thesis by simp
qed

theorem half_created_run_blocks_issue_witness:
  "\<exists>e. create_run sample_host (sample_world ''succeeded'') (sample_args []) sample_binding
      (ls_store (run (life_step sample_host) [sample_op [(''x'', JFlt NaN)]] no_runs)) =
    (Inl e, ls_store (run (life_step sample_host) [sample_op [(''x'', JFlt NaN)]] no_runs))"
proof -
  have "\<not> finite_json (JObj (sample_created [(''x'', JFlt NaN)]))" by (simp add: sample_created_def)
  then show ?thesis
    using half_created_run_blocks_issue [of no_runs sample_host "[]" "sample_world ''succeeded''" "sample_args [(''x'', JFlt NaN)]" sample_binding
        "sample_created [(''x'', JFlt NaN)]" "sample_args []" _ "[]" "sample_world ''succeeded''" sample_binding]
      sample_fresh sample_misc sample_checks(2) by (auto simp: sample_op_def)
qed

theorem dead_worker_run_blocks_issue_witness:
  "\<exists>e e' st. create_run sample_host (sample_world ''succeeded'') (sample_args []) sample_binding st = (Inl e, st) \<and>
    resume_run sample_host (sample_world ''succeeded'') sample_resume sample_binding st = (Inl e', [], st)"
proof -
  obtain v where v: "life_ok (lh_lib sample_host) (ls_store sample_started)" "stored (ls_store sample_started) sample_run_sid v" "event_log v sample_log"
    by (rule sample_running)
  note s = sample_running_status [OF life_ok_stored(2) [OF v(1,2)] v(3)]
  let ?s = "run (life_step sample_host) ([sample_op []] @ [Server_dies]) no_runs"
  have "stored (ls_store ?s) sample_run_sid v" using v(2) by (simp add: run_append)
  moreover have "list_all (not_submitted sample_rid) []" "dget sample_resume ''run_id'' = JStr sample_rid" by (simp_all add: sample_resume_def)
  ultimately show ?thesis using dead_worker_run_blocks_issue [OF refl _ s(2,3,1) _ refl sample_misc(5)] by blast
qed

text \<open>Calls on the sample Run after its turn.\<close>

lemma sample_calls:
  "validate_schema RUN_SUBMIT sample_submit = Inr ()" "validate_schema RUN_RESUME sample_resume = Inr ()"
  "validate_issue_ref (JStr ''o/r#1'') = Inr ()" "validate_run_id (JStr sample_rid) = Inr ()"
  "check_call_binding sample_binding (JStr ''o/r#1'') None = Inr ()" "result_status sample_outcome = Inr ''succeeded''"
  "result_cost sample_outcome = Inr (Fin 0)" "isl (payload_digest (lh_lib sample_host) sample_outcome) = False"
  by code_simp+

lemma sample_call_args:
  "dget sample_submit ''run_id'' = JStr sample_rid" "dget sample_submit ''issue_ref'' = JStr ''o/r#1''"
  "dget sample_submit ''result'' = JObj sample_outcome" "dget sample_submit ''idempotency_key'' = JStr ''k''"
  "dget_or sample_submit ''max_runtime_seconds'' w = JFlt (Fin 1)"
  "dget sample_outcome ''run_id'' = JStr sample_rid" "dget sample_outcome ''issue_id'' = JStr ''o/r#1''"
  "dget sample_resume ''run_id'' = JStr sample_rid" "dget sample_resume ''issue_ref'' = JStr ''o/r#1''"
  "dget sample_resume ''max_runtime_seconds'' = JFlt (Fin 60)"
  by (simp_all add: sample_submit_def sample_resume_def sample_outcome_def dget_or_def)

lemma sample_digest: obtains d where "payload_digest (lh_lib sample_host) sample_outcome = Inr d"
  using sample_calls(8) by (cases "payload_digest (lh_lib sample_host) sample_outcome") auto

lemma sample_submit_checks:
  assumes "life_ok (lh_lib sample_host) st" "stored st sample_run_sid v" "run_named sample_rid v" "run_identity_of v = Inr i"
    "ri_issue_ref i = JStr ''o/r#1''"
  shows "submit_checks sample_host sample_submit sample_binding st = Inr (sample_run_sid, v, i, ''succeeded'')"
proof -
  have "find_run (lh_lib sample_host) st sample_rid = Inr (Some (sample_run_sid, v))" using find_run_Some [OF assms(1)] assms(2,3) by simp
  then have "matched_run (lh_lib sample_host) st sample_rid (JStr ''o/r#1'') = Inr (sample_run_sid, v, i)" using assms(4,5) by (simp add: matched_run_def)
  then show ?thesis by (simp add: submit_checks_def sample_calls sample_call_args Let_def as_dict_def ensure_def text_of_def)
qed

lemma sample_called:
  assumes "life_ok (lh_lib sample_host) st" "stored st sample_run_sid v" "run_named sample_rid v" "run_identity_of v = Inr i"
    "ri_scope_fingerprint i \<noteq> JNull"
  shows "called sample_host st RUN_SUBMIT sample_submit"
proof -
  have "find_run (lh_lib sample_host) st sample_rid = Inr (Some (sample_run_sid, v))" using find_run_Some [OF assms(1)] assms(2,3) by simp
  then have "resolve_for_context (lh_lib sample_host) st (JStr sample_rid) = Inr i"
    using assms(4,5) by (simp add: resolve_for_context_def sample_calls text_of_def)
  moreover have "RUN_SUBMIT \<noteq> RUN_CREATE" "RUN_SUBMIT \<noteq> RUN_RESUME" by (simp_all add: RUN_SUBMIT_def RUN_CREATE_def RUN_RESUME_def)
  ultimately show ?thesis
    by (simp add: called_def build_call_context_def sample_calls sample_call_args as_dict_def number_float_def)
qed

abbreviation sample_review :: life_op where
  "sample_review \<equiv> Run_submit (sample_world ''succeeded'') sample_submit sample_binding"

lemma sample_submitted:
  obtains v e v' res d where "life_ok (lh_lib sample_host) (ls_store (sample_done ''succeeded''))"
    "stored (ls_store (sample_done ''succeeded'')) sample_run_sid v" "run_named sample_rid v" "run_identity_of v = Inr (sample_identity ''succeeded'')"
    "submit_for_review sample_host (sample_world ''succeeded'') sample_submit sample_binding (ls_store (sample_done ''succeeded'')) =
       (Inr res, ls_store (life_step sample_host sample_review (sample_done ''succeeded'')))"
    "ls_store (life_step sample_host sample_review (sample_done ''succeeded'')) \<noteq> ls_store (sample_done ''succeeded'')"
    "submit_checks sample_host sample_submit sample_binding (ls_store (life_step sample_host sample_review (sample_done ''succeeded''))) =
       Inr (sample_run_sid, v', sample_identity ''review_submitted'', ''succeeded'')"
    "payload_digest (lh_lib sample_host) sample_outcome = Inr d"
proof -
  let ?s = "sample_done ''succeeded''" and ?w = "sample_world ''succeeded''" and ?H = "lh_lib sample_host"
  obtain v where v: "life_ok ?H (ls_store ?s)" "stored (ls_store ?s) sample_run_sid v" "run_session v" "run_named sample_rid v"
    "run_identity_of v = Inr (sample_identity ''succeeded'')" "find_submission ''k'' (events_of v) = Inr None"
    by (rule sample_finished [of "''succeeded''"]) (rule that)
  obtain d where d: "payload_digest ?H sample_outcome = Inr d" by (rule sample_digest)
  let ?p = "submission_payload (''review_'' @ lw_review_uuid ?w) sample_submit ''succeeded'' (lw_clock ?w 0) d"
  have i: "ri_issue_ref (sample_identity x) = JStr ''o/r#1''" "ri_scope_fingerprint (sample_identity x) \<noteq> JNull" for x
    by (simp_all add: sample_identity_def sample_fingerprint_def)
  have t: "event_type_re ''run.review_submitted''" by (simp add: event_type_re_def is_lower_def is_digit_def)
  have f: "finite_json (JObj ?p)" by (simp add: submission_payload_def sample_submit_def)
  obtain doc st' where a: "writer_append ?H (lw_stamp ?w 0) True sample_run_sid ''run.review_submitted'' (JObj ?p) (ls_store ?s) = (Inr doc, st')"
    "event_added (ls_store ?s) sample_run_sid ''run.review_submitted'' ?p st'" "life_ok ?H st'"
    by (rule writer_succeeds [OF v(1,2) t f]) (rule that)
  note c = sample_submit_checks [OF v(1,2,4,5) i(1)]
  have b: "submit_for_review sample_host ?w sample_submit sample_binding (ls_store ?s) =
      (Inr (review_envelope (sample_identity ''succeeded'') (JStr (''review_'' @ lw_review_uuid ?w)) (JStr (lw_clock ?w 0)) (lw_clock ?w 1)), st')"
    using a(1) by (simp only: submit_for_review_def c sum.case prod.case Let_def sample_call_args as_dict_def json.case text_of_def v(6) option.case d
        sample_world_fields)
  have k: "called sample_host (ls_store ?s) RUN_SUBMIT sample_submit" by (rule sample_called [OF v(1,2,4,5) i(2)])
  have st: "ls_store (life_step sample_host sample_review ?s) = st'" by (simp only: life_step.simps k b if_True snd_conv) simp
  obtain v' e where e: "stored st' sample_run_sid v'" "events_of v' = events_of v @ [e]" "event_is ''run.review_submitted'' e"
    "\<forall>u. u \<noteq> ''run.review_submitted'' \<longrightarrow> \<not> event_is u e" "payload_of e = json_norm (JObj ?p)"
    using a(2) v(2) by (auto simp: event_added_def stored_def)
  have rs: "run_session v'" by (rule life_ok_stored(2) [OF a(3) e(1)])
  have ne: "st' \<noteq> ls_store ?s" using e(1,2) v(2) by (auto simp: stored_def)
  have "run_named sample_rid v'" using created_extend(4) [OF e(2) run_session_events [OF v(3)]] v(4) by simp
  moreover have "run_identity_of v' = Inr (sample_identity ''review_submitted'')"
    using identity_after_review [OF v(3) e(2-5) v(5) rs] by (simp add: sample_identity_def)
  ultimately have "submit_checks sample_host sample_submit sample_binding st' = Inr (sample_run_sid, v', sample_identity ''review_submitted'', ''succeeded'')"
    using sample_submit_checks [OF a(3) e(1)] i(1) by blast
  then show thesis using that [OF v(1,2,4,5)] b st ne d by simp
qed

theorem submission_idempotent_witness:
  "\<exists>res res'. submit_for_review sample_host (sample_world ''succeeded'') sample_submit sample_binding (ls_store (sample_done ''succeeded'')) =
      (Inr res, ls_store (life_step sample_host sample_review (sample_done ''succeeded''))) \<and>
    submit_for_review sample_host (sample_world ''succeeded'') sample_submit sample_binding
      (ls_store (life_step sample_host sample_review (sample_done ''succeeded''))) =
      (Inr res', ls_store (life_step sample_host sample_review (sample_done ''succeeded''))) \<and> review_of res' = review_of res"
proof -
  obtain v' res d where a: "submit_for_review sample_host (sample_world ''succeeded'') sample_submit sample_binding (ls_store (sample_done ''succeeded'')) =
       (Inr res, ls_store (life_step sample_host sample_review (sample_done ''succeeded'')))"
    "submit_checks sample_host sample_submit sample_binding (ls_store (life_step sample_host sample_review (sample_done ''succeeded''))) =
       Inr (sample_run_sid, v', sample_identity ''review_submitted'', ''succeeded'')"
    "payload_digest (lh_lib sample_host) sample_outcome = Inr d"
    by (rule sample_submitted) (rule that)
  have d: "payload_digest (lh_lib sample_host) (as_dict (dget sample_submit ''result'')) = Inr d"
    using a(3) by (simp add: sample_call_args as_dict_def)
  have l: "ls_store (life_step sample_host sample_review (sample_done ''succeeded'')) =
      ls_store (run (life_step sample_host) [] (life_step sample_host sample_review (sample_done ''succeeded'')))" by simp
  show ?thesis
    using submission_idempotent [OF refl a(1) refl l a(2) refl refl d d, of "sample_world ''succeeded''"] a(1) by auto
qed

lemma sample_resume_request: "resume_request sample_host sample_resume sample_binding (sample_identity x)"
proof -
  have "has_provider sample_host (JStr ''codex'') = Inr True" by (simp add: has_provider_def sample_host_def)
  then show ?thesis
    by (simp add: resume_request_def sample_calls sample_call_args resume_invocation_def number_int_def path_arg_def) (simp add: sample_identity_def)
qed

theorem submitted_run_resumes_witness:
  "(\<exists>e. resume_run sample_host (sample_world ''succeeded'') sample_resume sample_binding (ls_store (sample_done ''succeeded'')) =
      (Inl e, [], ls_store (sample_done ''succeeded''))) \<and>
    (\<exists>iv. fst (snd (resume_run sample_host (sample_world ''succeeded'') sample_resume sample_binding
      (ls_store (life_step sample_host sample_review (sample_done ''succeeded''))))) = [iv])"
proof -
  obtain v res where a: "stored (ls_store (sample_done ''succeeded'')) sample_run_sid v" "run_named sample_rid v"
    "run_identity_of v = Inr (sample_identity ''succeeded'')"
    "submit_for_review sample_host (sample_world ''succeeded'') sample_submit sample_binding (ls_store (sample_done ''succeeded'')) =
       (Inr res, ls_store (life_step sample_host sample_review (sample_done ''succeeded'')))"
    "ls_store (life_step sample_host sample_review (sample_done ''succeeded'')) \<noteq> ls_store (sample_done ''succeeded'')"
    by (rule sample_submitted) (rule that)
  have n: "run_named (text_of (dget sample_resume ''run_id'')) v" using a(2) by (simp add: sample_call_args text_of_def)
  have i: "ri_status (sample_identity ''succeeded'') = JStr ''succeeded''" "ri_session_id (sample_identity ''succeeded'') \<noteq> JNull"
    by (simp_all add: sample_identity_def)
  have r: "dget sample_submit ''run_id'' = dget sample_resume ''run_id''" by (simp add: sample_call_args)
  show ?thesis
    using submitted_run_resumes [OF refl a(1) n a(3) i sample_resume_request a(4,5) r, of "sample_world ''succeeded''"] by blast
qed

theorem unknown_status_keeps_claim_witness:
  "\<exists>res ivs st e. resume_run sample_host (sample_world ''partial'') sample_resume sample_binding (ls_store (sample_done ''failed'')) = (Inr res, ivs, st) \<and>
    dget (as_dict res) ''status'' = JStr ''failed'' \<and>
    create_run sample_host (sample_world ''succeeded'') (sample_args []) sample_binding st = (Inl e, st)"
proof -
  obtain st where st: "st = ls_store (sample_done ''failed'')" by simp
  let ?w = "sample_world ''partial''" and ?H = "lh_lib sample_host"
  let ?i = "sample_identity ''failed''" and ?r = "sample_answer ''partial''"
  obtain v where v: "life_ok ?H st" "stored st sample_run_sid v" "run_named sample_rid v" "run_identity_of v = Inr ?i"
    by (rule sample_finished [of "''failed''", folded st]) (rule that)
  have n: "run_named (text_of (dget sample_resume ''run_id'')) v" using v(3) by (simp add: sample_call_args text_of_def)
  have k: "resume_checks sample_host sample_resume sample_binding st = Inr (sample_run_sid, ?i)"
    using resume_by_status [OF v(1,2) n v(4) sample_resume_request] by (simp add: sample_identity_def)
  obtain iv where iv: "resume_invocation sample_resume ?i = Inr iv" using sample_resume_request by (auto simp: resume_request_def)
  obtain t where t: "turn_payload (resume_base (JStr sample_rid) ?i) sample_rid ?r None ''t'' = Inr t" "finite_json (JObj t)"
    by (simp add: turn_payload_def resume_base_def sample_identity_def sample_answer_def safe_cost_def is_number_def or_else_def dict_or_def
      list_or_empty_def safe_artifacts_def dget_or_def)
  have e: "event_type_re ''run.engine_turn''" by (simp add: event_type_re_def is_lower_def is_digit_def)
  obtain doc st' where a: "writer_append ?H (lw_stamp ?w 0) True sample_run_sid ''run.engine_turn'' (JObj t) st = (Inr doc, st')"
    by (rule writer_succeeds [OF v(1,2) e t(2)]) (rule that)
  have "\<exists>res. resume_run sample_host ?w sample_resume sample_binding st = (Inr res, [iv], st')"
    by (simp add: resume_run_def k iv Let_def sample_call_args text_of_def append_engine_turn_def t(1) a store_result_def)
      (simp add: envelope_of_def safe_cost_def sample_answer_def is_number_def)
  then obtain res where res: "resume_run sample_host ?w sample_resume sample_binding st = (Inr res, [iv], st')" by blast
  have x: "dget ?r ''status'' = JStr ''partial''" "''partial'' \<notin> set (''created'' # ''running'' # ''review_submitted'' # TERMINAL_STATUSES)"
    by (simp_all add: sample_answer_def TERMINAL_STATUSES_def)
  have j: "dget (sample_args []) ''issue_ref'' = dget sample_resume ''issue_ref''" by (simp add: sample_call_args sample_misc)
  show ?thesis
    using unknown_status_keeps_claim [OF st sample_world_fields(5) x res j, of "sample_world ''succeeded''" sample_binding] res unfolding st by blast
qed

end
