(* ===== verification/Routing.thy ===== *)
theory Routing
  imports Py_Value "HOL-Library.Multiset"
begin

text \<open>
  \<open>agent-platform/routing/engine_manifest.py\<close>: the capability manifests of the engines and the choice among
  them. A reason is kept as a value (what matched, how many candidates) and not as its sentence.
\<close>

section \<open>Manifests\<close>

definition COST_ORDER :: "(string \<times> nat) list" where
  "COST_ORDER = [(''free'', 0), (''cheap'', 1), (''metered'', 2)]"

definition RELIABILITY_ORDER :: "(string \<times> nat) list" where
  "RELIABILITY_ORDER = [(''verified'', 0), (''unverified'', 1), (''degraded'', 2)]"

definition DEFAULT_FALLBACK_ENGINE :: string where
  "DEFAULT_FALLBACK_ENGINE = ''claude''"

record engine_manifest =
  em_engine_id :: string
  em_task_shapes :: "string list"
  em_cost_class :: string
  em_reliability :: string
  em_checkpoint :: bool

text \<open>\<open>__post_init__\<close>, which every manifest passes.\<close>

definition manifest_ok :: "engine_manifest \<Rightarrow> bool" where
  "manifest_ok m \<longleftrightarrow> em_engine_id m \<noteq> [] \<and> em_cost_class m \<in> set (map fst COST_ORDER) \<and>
     em_reliability m \<in> {''verified'', ''unverified'', ''degraded''}"

definition DEFAULT_MANIFESTS :: "engine_manifest list" where
  "DEFAULT_MANIFESTS =
    [\<lparr>em_engine_id = ''claude'',
      em_task_shapes = [''general'', ''review'', ''adr-drafting'', ''widget-ui'', ''cli'', ''security-sensitive''],
      em_cost_class = ''metered'', em_reliability = ''verified'', em_checkpoint = True\<rparr>,
     \<lparr>em_engine_id = ''hermes'', em_task_shapes = [''research'', ''background-task'', ''parallel-dispatch''],
      em_cost_class = ''cheap'', em_reliability = ''unverified'', em_checkpoint = True\<rparr>,
     \<lparr>em_engine_id = ''hermes-free'', em_task_shapes = [''research'', ''background-task''],
      em_cost_class = ''free'', em_reliability = ''unverified'', em_checkpoint = True\<rparr>,
     \<lparr>em_engine_id = ''dsh'', em_task_shapes = [''research'', ''background-task''],
      em_cost_class = ''cheap'', em_reliability = ''unverified'', em_checkpoint = True\<rparr>]"

section \<open>The choice\<close>

datatype choice_reason = Cheapest_of string nat | No_engine "json list" "string option"

record engine_choice =
  ec_engine :: json
  ec_reason :: choice_reason
  ec_matched :: "string option"
  ec_excluded :: "(string \<times> string list) list"
  ec_checkpoint :: bool

datatype route_error = Route_value_error | Route_type_error

text \<open>\<open>sorted(tag_set & set(m.task_shapes))\<close>\<close>

definition matched_tags :: "json list \<Rightarrow> engine_manifest \<Rightarrow> string list" where
  "matched_tags tags m = sort (remdups (filter (\<lambda>t. py_in (JStr t) tags) (em_task_shapes m)))"

definition matches :: "json list \<Rightarrow> engine_manifest list \<Rightarrow> (engine_manifest \<times> string list) list" where
  "matches tags ms = filter (\<lambda>p. snd p \<noteq> []) (map (\<lambda>m. (m, matched_tags tags m)) ms)"

definition degraded :: "engine_manifest \<Rightarrow> bool" where
  "degraded m \<longleftrightarrow> em_reliability m = ''degraded''"

definition candidates :: "json list \<Rightarrow> string option \<Rightarrow> engine_manifest list \<Rightarrow> (engine_manifest \<times> string) list" where
  "candidates tags min_reliability ms =
     filter (\<lambda>p. case min_reliability of None \<Rightarrow> True
        | Some r \<Rightarrow> the (map_of RELIABILITY_ORDER (em_reliability (fst p))) \<le> the (map_of RELIABILITY_ORDER r))
       (map (\<lambda>p. (fst p, hd (snd p))) (filter (\<lambda>p. \<not> degraded (fst p)) (matches tags ms)))"

definition excluded :: "json list \<Rightarrow> engine_manifest list \<Rightarrow> (string \<times> string list) list" where
  "excluded tags ms = map (\<lambda>p. (em_engine_id (fst p), snd p)) (filter (\<lambda>p. degraded (fst p)) (matches tags ms))"

text \<open>\<open>(COST_ORDER[cost_class], engine_id)\<close> of two candidates, in order.\<close>

definition cost_of :: "engine_manifest \<Rightarrow> nat" where
  "cost_of m = the (map_of COST_ORDER (em_cost_class m))"

definition cheaper :: "engine_manifest \<times> string \<Rightarrow> engine_manifest \<times> string \<Rightarrow> bool" where
  "cheaper p q \<longleftrightarrow> cost_of (fst p) < cost_of (fst q) \<or>
     cost_of (fst p) = cost_of (fst q) \<and> em_engine_id (fst p) < em_engine_id (fst q)"

text \<open>The first element of the stable sort: the first one that no other is strictly below.\<close>

fun first_cheapest :: "engine_manifest \<times> string \<Rightarrow> (engine_manifest \<times> string) list \<Rightarrow> engine_manifest \<times> string" where
  "first_cheapest p [] = p"
| "first_cheapest p (q # qs) = first_cheapest (if cheaper q p then q else p) qs"

text \<open>\<open>sorted\<close> of a set of values: it raises \<open>TypeError\<close> unless they can be compared.\<close>

definition sortable :: "json list \<Rightarrow> bool" where
  "sortable vs \<longleftrightarrow> list_all is_str vs \<or> list_all (\<lambda>v. num_val v \<noteq> None) vs \<or> list_all (\<lambda>v. v = JNull) vs"

definition route :: "json list \<Rightarrow> engine_manifest list \<Rightarrow> json \<Rightarrow> string option \<Rightarrow> route_error + engine_choice" where
  "route tags ms fallback min_reliability =
     (if tags = [] then Inl Route_value_error
      else if (case min_reliability of None \<Rightarrow> False | Some r \<Rightarrow> map_of RELIABILITY_ORDER r = None) then Inl Route_value_error
      else if \<not> list_all hashable tags then Inl Route_type_error
      else (case candidates tags min_reliability ms of
        [] \<Rightarrow> if sortable tags then Inr \<lparr>ec_engine = fallback, ec_reason = No_engine tags min_reliability, ec_matched = None,
               ec_excluded = excluded tags ms, ec_checkpoint = True\<rparr> else Inl Route_type_error
      | p # ps \<Rightarrow> (case first_cheapest p ps of (m, tag) \<Rightarrow>
           Inr \<lparr>ec_engine = JStr (em_engine_id m), ec_reason = Cheapest_of tag (length (p # ps)), ec_matched = Some tag,
             ec_excluded = excluded tags ms, ec_checkpoint = em_checkpoint m\<rparr>)))"

end
