(* ===== verification/Mcp_Server.thy ===== *)
theory Mcp_Server
  imports Run_Lifecycle Routing
begin

text \<open>
  The MCP server: \<open>cortxt_mcp/tools.py\<close> (registry, tiers, handlers, \<open>call_tool\<close>), \<open>cortxt_mcp/audit.py\<close> and
  \<open>cortxt_mcp/protocol.py\<close> (\<open>handle_request\<close>, \<open>serve_stdio\<close>). The commands of the command line that the handlers call
  are the parameter \<open>th_cli\<close>: a command and its arguments give a result, or an exception, and the sessions they leave.
  Replies carry the code and data of an error and not its sentence; \<open>json.loads\<close> and the conversions of a text to a number
  are parameters. An argument list that is not an object is taken as pairs with texts as keys, as \<open>dict\<close> takes it.
\<close>

section \<open>Audit\<close>

definition SENSITIVE_KEYS :: "string list" where
  "SENSITIVE_KEYS = [''prompt'', ''value'', ''token'', ''secret'', ''password'', ''credential'', ''api_key'', ''apikey'', ''authorization'',
     ''scope'', ''scope_text'', ''acceptance_criteria'', ''result'', ''artifacts'', ''evidence'', ''mandate'', ''mandate_context'']"

definition MAX_STR_LEN :: nat where "MAX_STR_LEN = 120"

definition is_sensitive :: "string \<Rightarrow> bool" where
  "is_sensitive key \<longleftrightarrow> lower key \<in> set SENSITIVE_KEYS"

definition summarize_value :: "string \<Rightarrow> json \<Rightarrow> json" where
  "summarize_value key v =
     (if is_sensitive key then (case v of
          JStr s \<Rightarrow> JStr (''<redacted len='' @ dec_nat (length s) @ ''>'')
        | _ \<Rightarrow> JStr ''<redacted>'')
      else (case v of
          JStr s \<Rightarrow> if MAX_STR_LEN < length s
            then JStr (take MAX_STR_LEN s @ ''...<truncated, len='' @ dec_nat (length s) @ ''>'') else v
        | JList xs \<Rightarrow> JList (take 20 xs)
        | JObj d \<Rightarrow> JStr ''<dict>''
        | _ \<Rightarrow> v))"

definition summarize_args :: "dict \<Rightarrow> dict" where
  "summarize_args args = map (\<lambda>(k, v). (k, summarize_value k v)) args"

text \<open>What is audited of a call: status and decision, and the correlation fields, which are whatever the client sent.\<close>

record audit_entry =
  ae_tool :: json
  ae_args :: dict
  ae_status :: string
  ae_mandate_id :: json
  ae_decision :: json
  ae_granted_by :: json
  ae_kid :: json
  ae_run_id :: json
  ae_issue_ref :: json

definition audit_payload :: "audit_entry \<Rightarrow> dict" where
  "audit_payload e = [(''tool'', ae_tool e), (''args_summary'', JObj (summarize_args (ae_args e))), (''caller'', JStr ''mcp''),
     (''status'', JStr (ae_status e)), (''mandate_id'', ae_mandate_id e), (''mandate_decision'', ae_decision e),
     (''granted_by'', ae_granted_by e), (''kid'', ae_kid e), (''run_id'', ae_run_id e), (''issue_ref'', ae_issue_ref e)]"

text \<open>\<open>AuditLog\<close>: the session it opened, if any, and the sequence it expects there.\<close>

record audit_log =
  al_session :: "string option"
  al_sequence :: nat

text \<open>The ids, stamps and writes of one record: the first is for the session, the second for the event.\<close>

record audit_world =
  aw_uuid :: string
  aw_stamp :: "nat \<Rightarrow> string"
  aw_writes :: "nat \<Rightarrow> bool"

definition audit_append :: "hostlib \<Rightarrow> audit_world \<Rightarrow> audit_entry \<Rightarrow> string \<Rightarrow> audit_log \<Rightarrow> session_store
    \<Rightarrow> (session_error + unit) \<times> audit_log \<times> session_store" where
  "audit_append H w e sid al st =
     (case session_append H (aw_stamp w 1) (aw_writes w 1) sid (int (al_sequence al)) ''mcp.tool_call'' (JObj (audit_payload e)) st of
        (Inl x, st) \<Rightarrow> (Inl x, al, st)
      | (Inr _, st) \<Rightarrow> (Inr (), al\<lparr>al_sequence := Suc (al_sequence al)\<rparr>, st))"

definition audit_record :: "hostlib \<Rightarrow> audit_world \<Rightarrow> audit_entry \<Rightarrow> audit_log \<Rightarrow> session_store
    \<Rightarrow> (session_error + unit) \<times> audit_log \<times> session_store" where
  "audit_record H w e al st = (case al_session al of
     Some sid \<Rightarrow> audit_append H w e sid al st
   | None \<Rightarrow>
       (case session_create H (aw_stamp w 0) (aw_uuid w) (aw_writes w 0) (JStr ''mcp-server'')
           [(''worker_role'', JStr ''mcp''), (''runtime'', JStr ''mcp'')] st of
          (Inl x, st) \<Rightarrow> (Inl x, al, st)
        | (Inr _, st) \<Rightarrow>
            (let sid = ''session_'' @ aw_uuid w in audit_append H w e sid (al\<lparr>al_session := Some sid\<rparr>) st)))"

section \<open>Tools and tiers\<close>

definition TIER_READ_ONLY :: nat where "TIER_READ_ONLY = 0"
definition TIER_DISPATCH :: nat where "TIER_DISPATCH = 1"
definition TIER_CREDENTIALS :: nat where "TIER_CREDENTIALS = 2"

record tool_spec =
  tl_name :: string
  tl_tier :: nat
  tl_binding :: bool
  tl_schema :: "tool_schema option"
  tl_lifecycle :: bool

definition plain_tool :: "nat \<Rightarrow> string \<Rightarrow> tool_spec" where
  "plain_tool tier name = \<lparr>tl_name = name, tl_tier = tier, tl_binding = False, tl_schema = None, tl_lifecycle = False\<rparr>"

definition run_tool :: "string \<Rightarrow> tool_schema \<Rightarrow> tool_spec" where
  "run_tool name s = \<lparr>tl_name = name, tl_tier = TIER_DISPATCH, tl_binding = True, tl_schema = Some s, tl_lifecycle = True\<rparr>"

definition TOOL_REGISTRY :: "tool_spec list" where
  "TOOL_REGISTRY =
     map (plain_tool TIER_READ_ONLY) [''route_engine'', ''list_engine_manifests'', ''cortxt_status'', ''cortxt_sessions'', ''cortxt_runtimes'',
       ''cortxt_orchestrator'', ''cortxt_pipeline''] @
     [\<lparr>tl_name = RUN_STATUS, tl_tier = TIER_READ_ONLY, tl_binding = False, tl_schema = Some STATUS_SCHEMA, tl_lifecycle = True\<rparr>] @
     map (plain_tool TIER_DISPATCH) [''cortxt_dispatch'', ''cortxt_addons_submit'', ''cortxt_daemon_status'', ''cortxt_widget_generate'',
       ''cortxt_widget_edit'', ''cortxt_widget_remove'', ''cortxt_widget_reset''] @
     [run_tool RUN_CREATE CREATE_SCHEMA, run_tool RUN_RESUME RESUME_SCHEMA, run_tool RUN_SUBMIT REVIEW_SCHEMA]"

definition find_spec :: "json \<Rightarrow> tool_spec option" where
  "find_spec name = find (\<lambda>t. name = JStr (tl_name t)) TOOL_REGISTRY"

definition unlocked_tiers :: "bool \<Rightarrow> bool \<Rightarrow> nat list" where
  "unlocked_tiers allow_dispatch allow_credentials =
     [TIER_READ_ONLY] @ (if allow_dispatch then [TIER_DISPATCH] else []) @ (if allow_credentials then [TIER_CREDENTIALS] else [])"

definition list_tools :: "bool \<Rightarrow> bool \<Rightarrow> tool_spec list" where
  "list_tools allow_dispatch allow_credentials =
     filter (\<lambda>t. tl_tier t \<in> set (unlocked_tiers allow_dispatch allow_credentials)) TOOL_REGISTRY"

section \<open>Handlers\<close>

text \<open>\<open>th_cli\<close> runs a command of the command line, \<open>th_notes\<close> are the notes of the manifests, \<open>th_reason\<close> and
  \<open>th_degraded\<close> the sentences of a choice.\<close>

record tool_host =
  th_life :: life_host
  th_cli :: "string \<Rightarrow> dict \<Rightarrow> session_store \<Rightarrow> (string + json) \<times> session_store"
  th_notes :: "string \<Rightarrow> string"
  th_reason :: "choice_reason \<Rightarrow> string"
  th_degraded :: "string list \<Rightarrow> string"

abbreviation th_mandate :: "tool_host \<Rightarrow> mandate_lib" where
  "th_mandate T \<equiv> lh_mandate (th_life T)"

text \<open>\<open>float(v)\<close> and \<open>int(v)\<close> of an argument.\<close>

definition arg_float :: "mandate_lib \<Rightarrow> json \<Rightarrow> life_error + json" where
  "arg_float M v = (case py_float M v of
     Float x \<Rightarrow> Inr (JFlt x) | Float_overflow \<Rightarrow> Inl (Python ''OverflowError'') | Float_type_or_value_error \<Rightarrow> Inl (Python ''ValueError''))"

definition arg_int :: "json \<Rightarrow> life_error + json" where
  "arg_int v = (case v of
     JStr s \<Rightarrow> (case int_of_text s of Some n \<Rightarrow> Inr (JInt n) | None \<Rightarrow> Inl (Python ''ValueError''))
   | _ \<Rightarrow> bindE (number_int v) (\<lambda>n. Inr (JInt n)))"

definition paths_of :: "dict \<Rightarrow> life_error + dict" where
  "paths_of args = bindE (path_arg (dget args ''store'')) (\<lambda>store. bindE (path_arg (dget args ''snapshot'')) (\<lambda>snapshot.
     Inr [(''store'', store), (''snapshot'', snapshot)]))"

definition overview_of :: "mandate_lib \<Rightarrow> dict \<Rightarrow> life_error + dict" where
  "overview_of M args = bindE (paths_of args) (\<lambda>ps. bindE (arg_float M (dget_or args ''stale_after'' (JFlt (Fin 300)))) (\<lambda>x.
     Inr (ps @ [(''stale_after'', x)])))"

definition flag :: "dict \<Rightarrow> string \<Rightarrow> string \<times> json" where
  "flag args k = (k, JBool (truthy (dget_or args k (JBool False))))"

definition optional :: "dict \<Rightarrow> string \<Rightarrow> string \<times> json" where
  "optional args k = (k, dget args k)"

definition specs_dir_of :: "dict \<Rightarrow> life_error + (string \<times> json)" where
  "specs_dir_of args = bindE (path_arg (dget args ''specs_dir'')) (\<lambda>p. Inr (''specs_dir'', p))"

definition dispatch_args :: "dict \<Rightarrow> life_error + dict" where
  "dispatch_args args =
     bindE (item (JObj args) ''tags'') (\<lambda>tags. bindE (item (JObj args) ''task_id'') (\<lambda>task_id.
     bindE (item (JObj args) ''prompt'') (\<lambda>prompt. bindE (paths_of args) (\<lambda>ps.
     bindE (arg_int (dget_or args ''timeout'' (JInt 120))) (\<lambda>timeout. Inr
       ([(''tags'', tags), (''task_id'', task_id), (''prompt'', prompt)] @ ps @
        [optional args ''hermes_profile'', (''timeout'', timeout), optional args ''model'', optional args ''provider'',
         optional args ''workstream_id'', optional args ''run_id'', optional args ''issue_id'', optional args ''branch'',
         optional args ''worktree'']))))))"

text \<open>The command behind a tool and its arguments.\<close>

definition command_of :: "mandate_lib \<Rightarrow> string \<Rightarrow> dict \<Rightarrow> life_error + string \<times> dict" where
  "command_of M tool args =
     (if tool = ''cortxt_status'' then bindE (overview_of M args) (\<lambda>a. Inr (''status'', a))
      else if tool = ''cortxt_sessions'' then bindE (paths_of args) (\<lambda>a. Inr (''sessions'', a))
      else if tool = ''cortxt_runtimes'' then bindE (paths_of args) (\<lambda>a. Inr (''runtimes'', a))
      else if tool = ''cortxt_orchestrator'' then bindE (overview_of M args) (\<lambda>a.
        Inr (''orchestrator'', (''orchestrator_command'', JStr ''overview'') # a))
      else if tool = ''cortxt_pipeline'' then bindE (overview_of M args) (\<lambda>a.
        Inr (''pipeline'', a @ [(''watch'', JBool False), (''interval'', JFlt (Fin 2))]))
      else if tool = ''cortxt_dispatch'' then bindE (dispatch_args args) (\<lambda>a. Inr (''dispatch'', a))
      else if tool = ''cortxt_addons_submit'' then
        bindE (item (JObj args) ''candidate_id'') (\<lambda>c. bindE (paths_of args) (\<lambda>ps.
          Inr (''addons'', [(''candidate_id'', c), flag args ''codex_security_passed'', flag args ''incomplete''] @ ps)))
      else if tool = ''cortxt_daemon_status'' then
        (if \<not> truthy (dget args ''snapshot'') then Inl (Python ''ValueError'')
         else Inr (''daemon'', [(''daemon_command'', JStr ''status''), optional args ''snapshot'']))
      else if tool = ''cortxt_widget_generate'' then
        bindE (item (JObj args) ''prompt'') (\<lambda>p. bindE (specs_dir_of args) (\<lambda>d.
          Inr (''widget_generate'', [(''prompt'', p), flag args ''confirm'', d])))
      else if tool = ''cortxt_widget_edit'' then
        bindE (item (JObj args) ''widget_id'') (\<lambda>i. bindE (item (JObj args) ''widget_version'') (\<lambda>v. bindE (item (JObj args) ''prompt'') (\<lambda>p.
          bindE (specs_dir_of args) (\<lambda>d.
            Inr (''widget_edit'', [(''widget_id'', i), (''widget_version'', v), (''prompt'', p), flag args ''confirm'', d])))))
      else if tool = ''cortxt_widget_remove'' then
        bindE (item (JObj args) ''widget_id'') (\<lambda>i. bindE (item (JObj args) ''widget_version'') (\<lambda>v. bindE (specs_dir_of args) (\<lambda>d.
          Inr (''widget_remove'', [(''widget_id'', i), (''widget_version'', v), d, flag args ''confirm'']))))
      else bindE (specs_dir_of args) (\<lambda>d. Inr (''widget_reset'', [d, flag args ''confirm''])))"

definition WIDGET_TOOLS :: "string list" where
  "WIDGET_TOOLS = [''cortxt_widget_generate'', ''cortxt_widget_edit'', ''cortxt_widget_remove'', ''cortxt_widget_reset'']"

definition run_command :: "tool_host \<Rightarrow> string \<Rightarrow> dict \<Rightarrow> session_store \<Rightarrow> (life_error + json) \<times> session_store" where
  "run_command T tool args st = (case command_of (th_mandate T) tool args of
     Inl e \<Rightarrow> (Inl e, st)
   | Inr (command, a) \<Rightarrow> (case th_cli T command a st of
       (Inl e, st) \<Rightarrow> (Inl (Python e), st)
     | (Inr v, st) \<Rightarrow> (Inr v, st)))"

text \<open>The handlers of the widget tools turn every exception into a failed result.\<close>

definition widget_failure :: "tool_host \<Rightarrow> life_error \<Rightarrow> json" where
  "widget_failure T e = JObj [(''status'', JStr ''failed''),
     (''error'', JObj [(''category'', JStr ''runtime_error''), (''message'', JStr (lh_text (th_life T) e))])]"

definition cli_tool :: "tool_host \<Rightarrow> string \<Rightarrow> dict \<Rightarrow> session_store \<Rightarrow> (life_error + json) \<times> session_store" where
  "cli_tool T tool args st = (case run_command T tool args st of
     (Inr v, st) \<Rightarrow> (Inr v, st)
   | (Inl e, st) \<Rightarrow> (if tool \<in> set WIDGET_TOOLS then Inr (widget_failure T e) else Inl e, st))"

text \<open>\<open>list(v)\<close> of a value that is not falsy\<close>

definition list_of :: "json \<Rightarrow> life_error + json list" where
  "list_of v = (case v of
     JList xs \<Rightarrow> Inr xs | JStr s \<Rightarrow> Inr (map (\<lambda>c. JStr [c]) s) | JObj d \<Rightarrow> Inr (map JStr (dict_keys d)) | _ \<Rightarrow> Inl (Python ''TypeError''))"

definition choice_json :: "tool_host \<Rightarrow> engine_choice \<Rightarrow> json" where
  "choice_json T c = JObj [(''engine_id'', ec_engine c), (''reason'', JStr (th_reason T (ec_reason c))),
     (''matched_tag'', case ec_matched c of None \<Rightarrow> JNull | Some t \<Rightarrow> JStr t),
     (''excluded'', JList (map (\<lambda>(i, ts). JList [JStr i, JStr (th_degraded T ts)]) (ec_excluded c))),
     (''checkpoint_required'', JBool (ec_checkpoint c))]"

definition tool_route_engine :: "tool_host \<Rightarrow> dict \<Rightarrow> life_error + json" where
  "tool_route_engine T args =
     (let tags = dget args ''task_tags'' in
      if \<not> truthy tags then Inl (Python ''ValueError'')
      else bindE (list_of tags) (\<lambda>ts.
        (case route ts DEFAULT_MANIFESTS (dget_or args ''fallback'' (JStr ''claude'')) None of
           Inl Route_value_error \<Rightarrow> Inl (Python ''ValueError'')
         | Inl Route_type_error \<Rightarrow> Inl (Python ''TypeError'')
         | Inr c \<Rightarrow> Inr (choice_json T c))))"

definition tool_list_engine_manifests :: "tool_host \<Rightarrow> json" where
  "tool_list_engine_manifests T = JList (map (\<lambda>m. JObj
     [(''engine_id'', JStr (em_engine_id m)), (''task_shapes'', JList (map JStr (em_task_shapes m))), (''cost_class'', JStr (em_cost_class m)),
      (''reliability_class'', JStr (em_reliability m)), (''notes'', JStr (th_notes T (em_engine_id m))),
      (''checkpoint_required'', JBool (em_checkpoint m))]) DEFAULT_MANIFESTS)"

text \<open>The handler of a tool, over the sessions and the workers.\<close>

definition handler :: "tool_host \<Rightarrow> life_world \<Rightarrow> string \<Rightarrow> dict \<Rightarrow> dict \<Rightarrow> session_store \<Rightarrow> worker_job list
    \<Rightarrow> (life_error + json) \<times> session_store \<times> worker_job list" where
  "handler T w tool args binding st jobs =
     (let L = th_life T in
      if tool = ''route_engine'' then (tool_route_engine T args, st, jobs)
      else if tool = ''list_engine_manifests'' then (Inr (tool_list_engine_manifests T), st, jobs)
      else if tool = RUN_STATUS then (status_of L (text_of (dget args ''run_id'')) (dget args ''issue_ref'') st, st, jobs)
      else if tool = RUN_CREATE then (case create_run L w args binding st of
          (Inl e, st) \<Rightarrow> (Inl e, st, jobs) | (Inr (v, job), st) \<Rightarrow> (Inr v, st, jobs @ [job]))
      else if tool = RUN_RESUME then (case resume_run L w args binding st of (r, _, st) \<Rightarrow> (r, st, jobs))
      else if tool = RUN_SUBMIT then (case submit_for_review L w args binding st of (r, st) \<Rightarrow> (r, st, jobs))
      else (case cli_tool T tool args st of (r, st) \<Rightarrow> (r, st, jobs)))"

section \<open>Calling a tool\<close>

datatype tool_error = Tool_not_found | Tier_locked nat | Rejected reason | Failed life_error

text \<open>The server: its flags, the registered keys (\<open>None\<close> without a verifier), its stores, and whether it has the lifecycle service and
  an audit log.\<close>

record ('e, 's) mcp_server =
  sv_dispatch :: bool
  sv_credentials :: bool
  sv_keys :: "keyring option"
  sv_deps :: "'e \<Rightarrow> 's mandate_deps"
  sv_lifecycle :: bool
  sv_audited :: bool
  sv_host :: tool_host

record 's server_state =
  ss_registers :: 's
  ss_sessions :: session_store
  ss_jobs :: "worker_job list"
  ss_audit :: audit_log

text \<open>What one request meets outside.\<close>

record 'e call_world =
  cw_env :: 'e
  cw_now1 :: int
  cw_now2 :: int
  cw_life :: life_world
  cw_audit :: audit_world

abbreviation sv_mandate :: "('e, 's) mcp_server \<Rightarrow> mandate_lib" where
  "sv_mandate S \<equiv> th_mandate (sv_host S)"

definition server_keys :: "('e, 's) mcp_server \<Rightarrow> keyring" where
  "server_keys S = (case sv_keys S of None \<Rightarrow> [] | Some keys \<Rightarrow> verifier_keys (sv_mandate S) keys)"

definition BINDING_FIELDS :: "string list" where
  "BINDING_FIELDS = [''mandate_id'', ''granted_by'', ''issue_ref'', ''scope_fingerprint'', ''budget_usd_max'', ''max_runtime_seconds'', ''data_class_max'']"

definition binding_of :: "json \<Rightarrow> dict" where
  "binding_of mandate = map (\<lambda>k. (k, dget (as_dict mandate) k)) BINDING_FIELDS"

text \<open>The context of a call: the lifecycle tools derive theirs, the others take the one of the client.\<close>

definition call_context_of :: "('e, 's) mcp_server \<Rightarrow> tool_spec \<Rightarrow> dict \<Rightarrow> call_context \<Rightarrow> session_store \<Rightarrow> life_error + call_context" where
  "call_context_of S t args client st =
     (if tl_lifecycle t then build_call_context (sv_mandate S) st (tl_name t) args else Inr client)"

definition authorize :: "('e, 's) mcp_server \<Rightarrow> 'e call_world \<Rightarrow> tool_spec \<Rightarrow> dict \<Rightarrow> json \<Rightarrow> call_context \<Rightarrow> session_store \<Rightarrow> 's
    \<Rightarrow> (tool_error + unit) \<times> 's" where
  "authorize S w t args mandate client st regs =
     (if tl_tier t < TIER_DISPATCH then (Inr (), regs)
      else (case call_context_of S t args client st of
        Inl e \<Rightarrow> (Inl (Failed e), regs)
      | Inr c \<Rightarrow> (case verify_mandate (sv_mandate S) (sv_deps S (cw_env w)) (server_keys S) (cw_now1 w) (cw_now2 w) (tl_name t) c mandate regs of
          (Decision r _, regs) \<Rightarrow> (if r = Accepted then Inr () else Inl (Rejected r), regs)
        | (Raises x, regs) \<Rightarrow> (Inl (Failed (Python x)), regs))))"

text \<open>The lifecycle tool without a mandate, \<open>cortxt_run_status\<close>, has its arguments checked by the same derivation.\<close>

definition checked_read :: "('e, 's) mcp_server \<Rightarrow> tool_spec \<Rightarrow> dict \<Rightarrow> session_store \<Rightarrow> life_error + unit" where
  "checked_read S t args st =
     (if tl_lifecycle t \<and> \<not> tl_binding t
      then bindE (build_call_context (sv_mandate S) st (tl_name t) args) (\<lambda>_. Inr ()) else Inr ())"

definition call_tool :: "('e, 's) mcp_server \<Rightarrow> 'e call_world \<Rightarrow> json \<Rightarrow> dict \<Rightarrow> json \<Rightarrow> call_context \<Rightarrow> 's server_state
    \<Rightarrow> (tool_error + json) \<times> 's server_state" where
  "call_tool S w name args mandate client s = (case find_spec name of
     None \<Rightarrow> (Inl Tool_not_found, s)
   | Some t \<Rightarrow>
      if tl_tier t \<notin> set (unlocked_tiers (sv_dispatch S) (sv_credentials S)) then (Inl (Tier_locked (tl_tier t)), s)
      else if tl_lifecycle t \<and> \<not> sv_lifecycle S then (Inl (Failed (Python ''RuntimeError'')), s)
      else (case authorize S w t args mandate client (ss_sessions s) (ss_registers s) of
        (Inl e, regs) \<Rightarrow> (Inl e, s\<lparr>ss_registers := regs\<rparr>)
      | (Inr _, regs) \<Rightarrow> (case checked_read S t args (ss_sessions s) of
          Inl e \<Rightarrow> (Inl (Failed e), s\<lparr>ss_registers := regs\<rparr>)
        | Inr _ \<Rightarrow> (case handler (sv_host S) (cw_life w) (tl_name t) args (binding_of mandate) (ss_sessions s) (ss_jobs s) of
            (r, st, jobs) \<Rightarrow> (mapErr Failed r, s\<lparr>ss_registers := regs, ss_sessions := st, ss_jobs := jobs\<rparr>)))))"

section \<open>Requests\<close>

definition reason_text :: "reason \<Rightarrow> string" where
  "reason_text r = (case r of
     Accepted \<Rightarrow> ''accepted'' | Mandate_missing \<Rightarrow> ''mandate_missing'' | Malformed_envelope \<Rightarrow> ''malformed_envelope''
   | Unknown_schema_version \<Rightarrow> ''unknown_schema_version'' | Unknown_granted_by \<Rightarrow> ''unknown_granted_by'' | Unknown_kid \<Rightarrow> ''unknown_kid''
   | Key_revoked \<Rightarrow> ''key_revoked'' | Missing_signature \<Rightarrow> ''missing_signature'' | Invalid_signature \<Rightarrow> ''invalid_signature''
   | Nonce_replayed \<Rightarrow> ''nonce_replayed'' | Expires_at_invalid \<Rightarrow> ''expires_at_invalid'' | Expired \<Rightarrow> ''expired''
   | Tool_not_allowed \<Rightarrow> ''tool_not_allowed'' | Invalid_data_class \<Rightarrow> ''invalid_data_class''
   | Data_class_exceeded \<Rightarrow> ''data_class_exceeded'' | Runtime_exceeded \<Rightarrow> ''runtime_exceeded'' | Budget_exceeded \<Rightarrow> ''budget_exceeded''
   | Issue_ref_mismatch \<Rightarrow> ''issue_ref_mismatch'' | Scope_fingerprint_mismatch \<Rightarrow> ''scope_fingerprint_mismatch'')"

datatype error_data = No_data | Reason string | Code string

datatype reply = Initialized | Tools "tool_spec list" | Payload json | Failure int error_data

text \<open>\<open>dict(v)\<close>: an object, or a sequence of pairs.\<close>

definition pair_of :: "json \<Rightarrow> life_error + string \<times> json" where
  "pair_of v = (case v of
     JList xs \<Rightarrow> (case xs of
         [JStr k, x] \<Rightarrow> Inr (k, x) | [_, _] \<Rightarrow> Inl (Python ''TypeError'') | _ \<Rightarrow> Inl (Python ''ValueError''))
   | JStr s \<Rightarrow> (case s of [a, b] \<Rightarrow> Inr ([a], JStr [b]) | _ \<Rightarrow> Inl (Python ''ValueError''))
   | JObj d \<Rightarrow> (case d of [(a, _), (b, _)] \<Rightarrow> Inr (a, JStr b) | _ \<Rightarrow> Inl (Python ''ValueError''))
   | _ \<Rightarrow> Inl (Python ''TypeError''))"

definition dict_of :: "json \<Rightarrow> life_error + dict" where
  "dict_of v = (case v of
     JObj d \<Rightarrow> Inr d
   | JList xs \<Rightarrow> bindE (mapE pair_of xs) (\<lambda>ps. Inr (fold (\<lambda>(k, x) d. dset k x d) ps []))
   | JStr _ \<Rightarrow> Inl (Python ''ValueError'')
   | _ \<Rightarrow> Inl (Python ''TypeError''))"

definition without_mandate :: "dict \<Rightarrow> dict" where
  "without_mandate args = filter (\<lambda>kv. fst kv \<noteq> ''mandate'' \<and> fst kv \<noteq> ''mandate_context'') args"

text \<open>The context of a client: an estimate that cannot be read is taken as infinite.\<close>

definition estimate :: "mandate_lib \<Rightarrow> json \<Rightarrow> life_error + pyfloat" where
  "estimate M v = (case py_float M v of
     Float x \<Rightarrow> Inr x | Float_type_or_value_error \<Rightarrow> Inr PInf | Float_overflow \<Rightarrow> Inl (Python ''OverflowError''))"

definition client_context :: "mandate_lib \<Rightarrow> json \<Rightarrow> life_error + call_context" where
  "client_context M raw = (let d = (case raw of JObj d \<Rightarrow> d | _ \<Rightarrow> []); runtime = dget d ''estimated_runtime_seconds'' in
     bindE (estimate M (or_else (dget_or d ''estimated_cost_usd'' (JFlt (Fin 0))) (JFlt (Fin 0)))) (\<lambda>cost.
     bindE (if runtime = JNull then Inr None else bindE (estimate M runtime) (\<lambda>x. Inr (Some x))) (\<lambda>seconds. Inr
       \<lparr>c_issue_ref = dget_or d ''issue_ref'' (JStr []), c_data_class = dget_or d ''data_class'' (JStr ''L0''), c_cost = cost,
        c_runtime = seconds, c_scope_text = dget d ''scope_text'', c_fingerprint = dget d ''expected_scope_fingerprint''\<rparr>)))"

definition no_context :: call_context where
  "no_context = \<lparr>c_issue_ref = JStr [], c_data_class = JStr ''L0'', c_cost = Fin 0, c_runtime = None, c_scope_text = JNull, c_fingerprint = JNull\<rparr>"

text \<open>The context of the client, or the refusal of a lifecycle tool without a service.\<close>

definition client_of :: "('e, 's) mcp_server \<Rightarrow> json \<Rightarrow> json \<Rightarrow> life_error + call_context" where
  "client_of S name raw = (case find_spec name of
     Some t \<Rightarrow> if tl_lifecycle t
       then (if sv_lifecycle S then Inr no_context else Inl (Lifecycle CODE_LIFECYCLE_NOT_CONFIGURED None))
       else client_context (sv_mandate S) raw
   | None \<Rightarrow> client_context (sv_mandate S) raw)"

definition try_tool :: "('e, 's) mcp_server \<Rightarrow> 'e call_world \<Rightarrow> json \<Rightarrow> dict \<Rightarrow> json \<Rightarrow> json \<Rightarrow> 's server_state
    \<Rightarrow> (tool_error + json) \<times> 's server_state" where
  "try_tool S w name args mandate raw s =
     (case client_of S name raw of
        Inl e \<Rightarrow> (Inl (Failed e), s)
      | Inr client \<Rightarrow> call_tool S w name args mandate client s)"

text \<open>What is audited of an answer: an unknown tool and an exception other than those of the service are not.\<close>

definition audit_entry_of :: "json \<Rightarrow> dict \<Rightarrow> json \<Rightarrow> string \<Rightarrow> string \<Rightarrow> bool \<Rightarrow> json \<Rightarrow> audit_entry" where
  "audit_entry_of name args mandate status decision mandated run_id =
     (let field = (\<lambda>k. if mandated then dget (as_dict mandate) k else JNull) in
      \<lparr>ae_tool = name, ae_args = args, ae_status = status, ae_mandate_id = field ''mandate_id'',
       ae_decision = (if mandated then JStr decision else JNull), ae_granted_by = field ''granted_by'', ae_kid = field ''kid'',
       ae_run_id = run_id, ae_issue_ref = dget args ''issue_ref''\<rparr>)"

definition needs_mandate :: "json \<Rightarrow> bool" where
  "needs_mandate name = (case find_spec name of None \<Rightarrow> False | Some t \<Rightarrow> TIER_DISPATCH \<le> tl_tier t)"

definition audited_answer :: "json \<Rightarrow> dict \<Rightarrow> json \<Rightarrow> tool_error + json \<Rightarrow> audit_entry option" where
  "audited_answer name args mandate r =
     (let own_run = dget args ''run_id''; entry = audit_entry_of name args mandate; m = needs_mandate name in
      case r of
        Inr v \<Rightarrow> Some (entry ''accepted'' ''accepted'' m (or_else (dget (as_dict v) ''run_id'') own_run))
      | Inl Tool_not_found \<Rightarrow> None
      | Inl (Tier_locked n) \<Rightarrow> Some (entry ''rejected'' ''tier_locked'' m own_run)
      | Inl (Rejected x) \<Rightarrow> Some (entry ''rejected'' (''rejected:'' @ reason_text x) True own_run)
      | Inl (Failed Invalid_arguments) \<Rightarrow> Some (entry ''rejected'' ''rejected:invalid_arguments'' m own_run)
      | Inl (Failed (Lifecycle c i)) \<Rightarrow> Some (entry ''rejected'' (''rejected:lifecycle:'' @ c) m
          (or_else own_run (case i of None \<Rightarrow> JNull | Some x \<Rightarrow> JStr x)))
      | Inl (Failed _) \<Rightarrow> None)"

definition reply_of :: "tool_error + json \<Rightarrow> reply" where
  "reply_of r = (case r of
     Inr v \<Rightarrow> Payload v
   | Inl Tool_not_found \<Rightarrow> Failure (-32601) No_data
   | Inl (Tier_locked n) \<Rightarrow> Failure (-32001) No_data
   | Inl (Rejected x) \<Rightarrow> Failure (-32002) (Reason (reason_text x))
   | Inl (Failed Invalid_arguments) \<Rightarrow> Failure (-32602) No_data
   | Inl (Failed (Lifecycle c i)) \<Rightarrow> Failure (-32003) (Code c)
   | Inl (Failed _) \<Rightarrow> Failure (-32000) No_data)"

text \<open>\<open>tools/call\<close>; \<open>Inl\<close> is an exception that leaves \<open>handle_request\<close>.\<close>

definition audit_answer :: "('e, 's) mcp_server \<Rightarrow> 'e call_world \<Rightarrow> json \<Rightarrow> dict \<Rightarrow> json \<Rightarrow> tool_error + json \<Rightarrow> 's server_state
    \<Rightarrow> (life_error + reply) \<times> 's server_state" where
  "audit_answer S w name args mandate r s = (case audited_answer name args mandate r of
     None \<Rightarrow> (Inr (reply_of r), s)
   | Some e \<Rightarrow>
      if \<not> sv_audited S then (Inr (reply_of r), s)
      else (case audit_record (mhost (sv_mandate S)) (cw_audit w) e (ss_audit s) (ss_sessions s) of
        (Inl x, al, st) \<Rightarrow> (Inl (Store_error x), s\<lparr>ss_audit := al, ss_sessions := st\<rparr>)
      | (Inr _, al, st) \<Rightarrow> (Inr (reply_of r), s\<lparr>ss_audit := al, ss_sessions := st\<rparr>)))"

definition handle_call :: "('e, 's) mcp_server \<Rightarrow> 'e call_world \<Rightarrow> dict \<Rightarrow> 's server_state \<Rightarrow> (life_error + reply) \<times> 's server_state" where
  "handle_call S w params s = (case dict_of (or_else (dget params ''arguments'') (JObj [])) of
     Inl e \<Rightarrow> (Inl e, s)
   | Inr all \<Rightarrow>
      (let name = dget params ''name''; mandate = dget all ''mandate''; args = without_mandate all in
       if \<not> hashable name then (Inl (Python ''TypeError''), s)
       else (case try_tool S w name args mandate (dget all ''mandate_context'') s of
         (r, s) \<Rightarrow> audit_answer S w name args mandate r s)))"

definition handle_request :: "('e, 's) mcp_server \<Rightarrow> 'e call_world \<Rightarrow> json \<Rightarrow> 's server_state
    \<Rightarrow> (life_error + reply option) \<times> 's server_state" where
  "handle_request S w request s = (case request of
     JObj r \<Rightarrow>
       (let reply = (\<lambda>x. if has_key r ''id'' then Some x else None); method = dget r ''method'' in
        if method = JStr ''initialize'' then (Inr (reply Initialized), s)
        else if method = JStr ''notifications/initialized'' then (Inr None, s)
        else if method = JStr ''tools/list'' then (Inr (reply (Tools (list_tools (sv_dispatch S) (sv_credentials S)))), s)
        else if method = JStr ''tools/call'' then
          (case or_else (dget r ''params'') (JObj []) of
             JObj params \<Rightarrow> (case handle_call S w params s of
                 (Inl e, s) \<Rightarrow> (Inl e, s) | (Inr x, s) \<Rightarrow> (Inr (reply x), s))
           | _ \<Rightarrow> (Inl (Python ''AttributeError''), s))
        else (Inr (reply (Failure (-32601) No_data)), s))
   | JList _ \<Rightarrow> (Inl (Python ''AttributeError''), s)
   | JStr _ \<Rightarrow> (Inl (Python ''AttributeError''), s)
   | _ \<Rightarrow> (Inl (Python ''TypeError''), s))"

text \<open>\<open>serve_stdio\<close> over the lines of its input: the replies, the exception that ended it, if any, and the state.
  \<open>parse\<close> is \<open>json.loads\<close>, \<open>None\<close> its \<open>JSONDecodeError\<close>.\<close>

fun serve_stdio :: "('e, 's) mcp_server \<Rightarrow> (string \<Rightarrow> json option) \<Rightarrow> (string \<times> 'e call_world) list \<Rightarrow> 's server_state
    \<Rightarrow> reply list \<times> life_error option \<times> 's server_state" where
  "serve_stdio S parse [] s = ([], None, s)"
| "serve_stdio S parse ((line, w) # lines) s =
     (if strip line = [] then serve_stdio S parse lines s
      else (case parse (strip line) of
        None \<Rightarrow> serve_stdio S parse lines s
      | Some request \<Rightarrow> (case handle_request S w request s of
          (Inl e, s) \<Rightarrow> ([], Some e, s)
        | (Inr r, s) \<Rightarrow> (case serve_stdio S parse lines s of
            (rs, e, s) \<Rightarrow> ((case r of None \<Rightarrow> rs | Some x \<Rightarrow> x # rs), e, s)))))"

end
