(* ===== verification/Mcp_Server_Props.thy ===== *)
theory Mcp_Server_Props
  imports Mcp_Server Run_Lifecycle_Guarantees
begin

text \<open>
  What the MCP server promises. The handler of a tool that changes something only runs under a mandate that was
  checked for this call and this scope, and one mandate runs one handler; every answer the client gets is in the audit
  trail, in order, without the texts of sensitive arguments; an answer that cannot be audited is not given and ends
  the server.
\<close>

section \<open>A request as a call\<close>

text \<open>The tool, the arguments without mandate, the mandate and the client's context of a \<open>tools/call\<close>; \<open>None\<close> for every other
  request, and for one that ends in an exception before a tool is looked up.\<close>

definition call_of :: "json \<Rightarrow> (json \<times> dict \<times> json \<times> json) option" where
  "call_of request = (case request of
     JObj r \<Rightarrow> if dget r ''method'' = JStr ''tools/call'' then
       (case or_else (dget r ''params'') (JObj []) of
          JObj params \<Rightarrow> (case dict_of (or_else (dget params ''arguments'') (JObj [])) of
             Inr all \<Rightarrow> if hashable (dget params ''name'')
               then Some (dget params ''name'', without_mandate all, dget all ''mandate'', dget all ''mandate_context'') else None
           | Inl _ \<Rightarrow> None)
        | _ \<Rightarrow> None) else None
   | _ \<Rightarrow> None)"

lemma handle_request_call:
  assumes "call_of request = Some (name, args, mandate, raw)"
  shows "handle_request S w request s = (case try_tool S w name args mandate raw s of (r, s1) \<Rightarrow>
     (case audit_answer S w name args mandate r s1 of
        (Inl e, s2) \<Rightarrow> (Inl e, s2)
      | (Inr x, s2) \<Rightarrow> (Inr (if has_key (as_dict request) ''id'' then Some x else None), s2)))"
proof (cases request)
  case (JObj r)
  have m: "dget r ''method'' = JStr ''tools/call''" using assms by (auto simp: call_of_def JObj split: if_split_asm)
  obtain params where p: "or_else (dget r ''params'') (JObj []) = JObj params"
    using assms by (auto simp: call_of_def JObj m split: json.split_asm)
  obtain all where a: "dict_of (or_else (dget params ''arguments'') (JObj [])) = Inr all"
    using assms by (auto simp: call_of_def JObj m p split: sum.split_asm)
  have h: "hashable (dget params ''name'')" and n: "name = dget params ''name''" "args = without_mandate all" "mandate = dget all ''mandate''"
    "raw = dget all ''mandate_context''"
    using assms by (auto simp: call_of_def JObj m p a split: if_split_asm)
  show ?thesis
    by (simp add: JObj handle_request_def Let_def m p handle_call_def a h n as_dict_def split: prod.split sum.split)
qed (use assms in \<open>auto simp: call_of_def\<close>)

lemma handle_request_other:
  assumes "call_of request = None"
  shows "snd (handle_request S w request s) = s" "fst (handle_request S w request s) \<noteq> Inr (Some (Payload v))"
  using assms
  by (auto simp: call_of_def handle_request_def handle_call_def Let_def split: json.splits sum.splits if_splits prod.splits)

section \<open>Authorization\<close>

abbreviation mandated :: "tool_spec \<Rightarrow> bool" where
  "mandated t \<equiv> TIER_DISPATCH \<le> tl_tier t"

definition query_of :: "'e call_world \<Rightarrow> tool_spec \<Rightarrow> call_context \<Rightarrow> json \<Rightarrow> 'e mandate_query" where
  "query_of w t c mandate = \<lparr>m_env = cw_env w, m_now1 = cw_now1 w, m_now2 = cw_now2 w, m_tool = tl_name t, m_context = c, m_envelope = mandate\<rparr>"

lemma authorize_verify:
  assumes "mandated t"
  shows "authorize S w t args mandate client st regs = (case call_context_of S t args client st of
     Inl e \<Rightarrow> (Inl (Failed e), regs)
   | Inr c \<Rightarrow> (case verify_query (sv_mandate S) (sv_deps S) (server_keys S) (query_of w t c mandate) regs of
       (Decision r _, regs) \<Rightarrow> (if r = Accepted then Inr () else Inl (Rejected r), regs)
     | (Raises x, regs) \<Rightarrow> (Inl (Failed (Python x)), regs)))"
  using assms by (simp add: authorize_def verify_query_def query_of_def split: sum.split)

lemma authorize_Inr:
  assumes "mandated t" "authorize S w t args mandate client st regs = (Inr u, regs')"
  obtains c mid where "call_context_of S t args client st = Inr c"
    "verify_query (sv_mandate S) (sv_deps S) (server_keys S) (query_of w t c mandate) regs = (Decision Accepted mid, regs')"
  using assms(2) unfolding authorize_verify [OF assms(1)]
  by (auto split: sum.split_asm prod.split_asm verdict.split_asm if_split_asm)

text \<open>The call gets as far as the handler of a tool that needs a mandate.\<close>

definition authorized :: "('e, 's) mcp_server \<Rightarrow> 'e call_world \<Rightarrow> json \<Rightarrow> 's server_state \<Rightarrow> bool" where
  "authorized S w request s \<longleftrightarrow> (case call_of request of
     None \<Rightarrow> False
   | Some (name, args, mandate, raw) \<Rightarrow> (case find_spec name of
       None \<Rightarrow> False
     | Some t \<Rightarrow> mandated t \<and> tl_tier t \<in> set (unlocked_tiers (sv_dispatch S) (sv_credentials S)) \<and> (tl_lifecycle t \<longrightarrow> sv_lifecycle S) \<and>
         (case client_of S name raw of
            Inl _ \<Rightarrow> False
          | Inr client \<Rightarrow> fst (authorize S w t args mandate client (ss_sessions s) (ss_registers s)) = Inr ())))"

lemma audit_answer_keeps:
  "ss_registers (snd (audit_answer S w name args mandate r s)) = ss_registers s"
  "ss_jobs (snd (audit_answer S w name args mandate r s)) = ss_jobs s"
  by (auto simp: audit_answer_def split: option.split sum.split prod.split)

lemma same_registers: "\<exists>regs. s = s\<lparr>ss_registers := regs\<rparr>"
  by (rule exI [of _ "ss_registers s"]) simp

lemma request_keeps:
  assumes "call_of request = Some (name, args, mandate, raw)"
  shows "ss_registers (snd (handle_request S w request s)) = ss_registers (snd (try_tool S w name args mandate raw s))"
    "ss_jobs (snd (handle_request S w request s)) = ss_jobs (snd (try_tool S w name args mandate raw s))"
proof -
  obtain r s1 where t: "try_tool S w name args mandate raw s = (r, s1)" by fastforce
  obtain x s2 where a: "audit_answer S w name args mandate r s1 = (x, s2)" by fastforce
  have "snd (handle_request S w request s) = s2" by (cases x) (simp_all add: handle_request_call [OF assms] t a)
  then show "ss_registers (snd (handle_request S w request s)) = ss_registers (snd (try_tool S w name args mandate raw s))"
    "ss_jobs (snd (handle_request S w request s)) = ss_jobs (snd (try_tool S w name args mandate raw s))"
    using audit_answer_keeps [of S w name args mandate r s1] by (simp_all add: t a)
qed

lemma call_tool_unauthorized:
  assumes "find_spec name = Some t" "mandated t" "\<not> (tl_tier t \<in> set (unlocked_tiers (sv_dispatch S) (sv_credentials S)) \<and> (tl_lifecycle t \<longrightarrow> sv_lifecycle S) \<and>
      fst (authorize S w t args mandate client (ss_sessions s) (ss_registers s)) = Inr ())"
  shows "\<exists>e regs. call_tool S w name args mandate client s = (Inl e, s\<lparr>ss_registers := regs\<rparr>)"
proof -
  obtain x regs where x: "authorize S w t args mandate client (ss_sessions s) (ss_registers s) = (x, regs)" by fastforce
  show ?thesis
    using assms x same_registers by (cases x) (auto simp: call_tool_def)
qed

text \<open>Without authorization no handler runs: the sessions and the workers stay as they are.\<close>

lemma unauthorized_inert:
  assumes "call_of request = Some (name, args, mandate, raw)" "find_spec name = Some t" "mandated t" "\<not> authorized S w request s"
  shows "\<exists>e regs. try_tool S w name args mandate raw s = (Inl e, s\<lparr>ss_registers := regs\<rparr>)"
proof (cases "client_of S name raw")
  case (Inl e)
  then show ?thesis unfolding try_tool_def Inl using same_registers by auto
next
  case (Inr client)
  show ?thesis
    unfolding try_tool_def Inr sum.case
    by (rule call_tool_unauthorized [OF assms(2,3)]) (use assms Inr in \<open>auto simp: authorized_def\<close>)
qed

section \<open>Histories of a server\<close>

definition no_audit :: audit_log where
  "no_audit = \<lparr>al_session = None, al_sequence = 0\<rparr>"

text \<open>The ids a request generates are new: those of a Run before the tool, that of the audit session after it.\<close>

definition fresh_call :: "('e, 's) mcp_server \<Rightarrow> 'e call_world \<Rightarrow> json \<Rightarrow> 's server_state \<Rightarrow> bool" where
  "fresh_call S w request s \<longleftrightarrow> fresh_ids (cw_life w) (ss_sessions s) \<and> (case call_of request of
     None \<Rightarrow> True
   | Some (name, args, mandate, raw) \<Rightarrow>
       map_of (ss_sessions (snd (try_tool S w name args mandate raw s))) (''session_'' @ aw_uuid (cw_audit w)) = None)"

text \<open>A request, the turn of a worker, and a new process on the same files: it has no workers and no audit session yet.\<close>

datatype 'e server_op = Request "'e call_world" json | Work life_world nat | Restart

fun server_step :: "('e, 's) mcp_server \<Rightarrow> 'e server_op \<Rightarrow> 's server_state \<Rightarrow> 's server_state" where
  "server_step S (Request w request) s = (if fresh_call S w request s then snd (handle_request S w request s) else s)"
| "server_step S (Work w k) s =
     (if length (ss_jobs s) \<le> k then s
      else s\<lparr>ss_sessions := snd (worker_turn (th_life (sv_host S)) w (ss_jobs s ! k) (ss_sessions s)),
             ss_jobs := take k (ss_jobs s) @ drop (Suc k) (ss_jobs s)\<rparr>)"
| "server_step S Restart s = s\<lparr>ss_jobs := [], ss_audit := no_audit\<rparr>"

definition request_nonce :: "json \<Rightarrow> string" where
  "request_nonce request = (case call_of request of
     Some (name, args, JObj d, raw) \<Rightarrow> text_of (dget d ''nonce'') | _ \<Rightarrow> [])"

lemma query_of_nonce: "call_of request = Some (name, args, mandate, raw) \<Longrightarrow> query_nonce (query_of w t c mandate) = request_nonce request"
  by (auto simp: query_nonce_def query_of_def request_nonce_def split: json.split)

text \<open>What a request does to the stores of the verifier: nothing, or one verification of its mandate.\<close>

lemma authorize_registers:
  assumes "authorize S w t args mandate client st regs = (x, regs')"
  shows "regs' = regs \<or> (\<exists>c. regs' = verify_op (sv_mandate S) (sv_deps S) (server_keys S) (query_of w t c mandate) regs)"
proof (cases "mandated t")
  case True
  show ?thesis
  proof (cases "call_context_of S t args client st")
    case (Inr c)
    have "regs' = snd (verify_query (sv_mandate S) (sv_deps S) (server_keys S) (query_of w t c mandate) regs)"
      using assms unfolding authorize_verify [OF True] Inr by (auto split: prod.split_asm verdict.split_asm)
    then show ?thesis unfolding verify_op_def by blast
  next
    case (Inl e)
    then show ?thesis using assms unfolding authorize_verify [OF True] by simp
  qed
qed (use assms in \<open>simp add: authorize_def\<close>)

lemma call_tool_registers:
  "ss_registers (snd (call_tool S w name args mandate client s)) = ss_registers s \<or>
   (\<exists>t c. ss_registers (snd (call_tool S w name args mandate client s)) =
      verify_op (sv_mandate S) (sv_deps S) (server_keys S) (query_of w t c mandate) (ss_registers s))"
proof (cases "find_spec name")
  case (Some t)
  obtain x regs where x: "authorize S w t args mandate client (ss_sessions s) (ss_registers s) = (x, regs)" by fastforce
  have "ss_registers (snd (call_tool S w name args mandate client s)) \<in> {ss_registers s, regs}"
    by (auto simp: call_tool_def Some x split: sum.split prod.split)
  then show ?thesis using authorize_registers [OF x] by auto
qed (simp add: call_tool_def)

lemma request_registers:
  "ss_registers (snd (handle_request S w request s)) = ss_registers s \<or>
   (\<exists>q. query_nonce q = request_nonce request \<and> m_env q = cw_env w \<and>
      ss_registers (snd (handle_request S w request s)) = verify_op (sv_mandate S) (sv_deps S) (server_keys S) q (ss_registers s))"
proof (cases "call_of request")
  case (Some x)
  then obtain name args mandate raw where c: "call_of request = Some (name, args, mandate, raw)" by (cases x) auto
  have "ss_registers (snd (handle_request S w request s)) = ss_registers (snd (try_tool S w name args mandate raw s))"
    by (rule request_keeps(1) [OF c])
  moreover have "ss_registers (snd (try_tool S w name args mandate raw s)) = ss_registers s \<or>
      (\<exists>t c. ss_registers (snd (try_tool S w name args mandate raw s)) =
        verify_op (sv_mandate S) (sv_deps S) (server_keys S) (query_of w t c mandate) (ss_registers s))"
  proof (cases "client_of S name raw")
    case (Inr client)
    then show ?thesis using call_tool_registers [of S w name args mandate client s] by (simp add: try_tool_def)
  qed (simp add: try_tool_def)
  moreover have "m_env (query_of w t x mandate) = cw_env w" for t x by (simp add: query_of_def)
  ultimately show ?thesis using query_of_nonce [OF c] by metis
qed (simp add: handle_request_other)

lemma authorized_verified:
  assumes "authorized S w request s"
  obtains name args mandate raw t client c mid where "call_of request = Some (name, args, mandate, raw)" "find_spec name = Some t" "mandated t"
    "tl_tier t \<in> set (unlocked_tiers (sv_dispatch S) (sv_credentials S))"
    "call_context_of S t args client (ss_sessions s) = Inr c"
    "verify_query (sv_mandate S) (sv_deps S) (server_keys S) (query_of w t c mandate) (ss_registers s) =
       (Decision Accepted mid, ss_registers (snd (handle_request S w request s)))"
proof -
  obtain name args mandate raw where c: "call_of request = Some (name, args, mandate, raw)"
    using assms by (auto simp: authorized_def split: option.split_asm)
  obtain t client where t: "find_spec name = Some t" "mandated t" "tl_tier t \<in> set (unlocked_tiers (sv_dispatch S) (sv_credentials S))"
    "tl_lifecycle t \<longrightarrow> sv_lifecycle S" "client_of S name raw = Inr client"
    "fst (authorize S w t args mandate client (ss_sessions s) (ss_registers s)) = Inr ()"
    using assms by (auto simp: authorized_def c split: option.split_asm sum.split_asm)
  obtain regs where r: "authorize S w t args mandate client (ss_sessions s) (ss_registers s) = (Inr (), regs)"
    using t(6) by (cases "authorize S w t args mandate client (ss_sessions s) (ss_registers s)") auto
  obtain x mid where v: "call_context_of S t args client (ss_sessions s) = Inr x"
    "verify_query (sv_mandate S) (sv_deps S) (server_keys S) (query_of w t x mandate) (ss_registers s) = (Decision Accepted mid, regs)"
    by (rule authorize_Inr [OF t(2) r])
  have "ss_registers (snd (try_tool S w name args mandate raw s)) = regs"
    using t by (auto simp: try_tool_def call_tool_def r split: sum.split prod.split)
  moreover have "ss_registers (snd (handle_request S w request s)) = ss_registers (snd (try_tool S w name args mandate raw s))"
    by (rule request_keeps(1) [OF c])
  ultimately show thesis using that [OF c t(1-3) v(1)] v(2) by simp
qed

text \<open>A request with a mandate is a token of the nonce gate of the stores.\<close>

definition op_nonce :: "'e server_op \<Rightarrow> string" where
  "op_nonce q = (case q of Request w request \<Rightarrow> request_nonce request | _ \<Rightarrow> [])"

definition op_authorized :: "('e, 's) mcp_server \<Rightarrow> 'e server_op \<Rightarrow> 's server_state \<Rightarrow> bool" where
  "op_authorized S q s \<longleftrightarrow> (case q of Request w request \<Rightarrow> fresh_call S w request s \<and> authorized S w request s | _ \<Rightarrow> False)"

text \<open>A request whose call can read the nonce file, and every other operation.\<close>

definition op_reads :: "call_env server_op \<Rightarrow> bool" where
  "op_reads q \<longleftrightarrow> (case q of Request w request \<Rightarrow> can_read (e_nonces (cw_env w)) | _ \<Rightarrow> True)"

definition on_files :: "(string \<Rightarrow> int option) \<Rightarrow> pyfloat \<Rightarrow> pyfloat \<Rightarrow> (call_env, registers) mcp_server \<Rightarrow> (call_env, registers) mcp_server" where
  "on_files parse interval freshness S = S\<lparr>sv_deps := server_deps parse interval freshness\<rparr>"

lemma on_files_deps [simp]: "sv_deps (on_files parse interval freshness S) = server_deps parse interval freshness"
  by (simp add: on_files_def)

lemma nonce_kept:
  assumes "op_reads q" "nonce_used (r_nonces (ss_registers s)) n = Some u"
  shows "nonce_used (r_nonces (ss_registers (server_step (on_files parse interval freshness S) q s))) n = Some u"
proof (cases q)
  case (Request w request)
  let ?S = "on_files parse interval freshness S"
  consider "ss_registers (snd (handle_request ?S w request s)) = ss_registers s"
    | x where "m_env x = cw_env w" "ss_registers (snd (handle_request ?S w request s)) = verify_op (sv_mandate ?S) (sv_deps ?S) (server_keys ?S) x (ss_registers s)"
    using request_registers [of ?S w request s] by blast
  then show ?thesis
  proof cases
    case 2
    then show ?thesis using assms server.verify_keeps [where q = x and s = "ss_registers s" and n = n and u = u] by (simp add: Request op_reads_def)
  qed (use assms in \<open>simp add: Request\<close>)
qed (use assms in simp_all)

lemma authorized_past:
  assumes "authorized S w request s" "sv_deps S = server_deps parse interval freshness"
  obtains q where "query_nonce q = request_nonce request" "m_env q = cw_env w" "past_nonce (sv_mandate S) (server_deps parse interval freshness) (server_keys S) q (ss_registers s)"
    "ss_registers (snd (handle_request S w request s)) = verify_op (sv_mandate S) (server_deps parse interval freshness) (server_keys S) q (ss_registers s)"
proof -
  obtain name args mandate raw t client c mid where a: "call_of request = Some (name, args, mandate, raw)"
    "verify_query (sv_mandate S) (sv_deps S) (server_keys S) (query_of w t c mandate) (ss_registers s) =
       (Decision Accepted mid, ss_registers (snd (handle_request S w request s)))"
    by (rule authorized_verified [OF assms(1)])
  let ?q = "query_of w t c mandate"
  have "Accepted \<in> late" by (simp add: late_def)
  then have "past_nonce (sv_mandate S) (server_deps parse interval freshness) (server_keys S) ?q (ss_registers s)"
    unfolding past_nonce_def using a(2) [unfolded assms(2)] by (intro exI [of _ Accepted] exI [of _ mid]) simp
  moreover have "ss_registers (snd (handle_request S w request s)) =
      verify_op (sv_mandate S) (server_deps parse interval freshness) (server_keys S) ?q (ss_registers s)"
    using a(2) [unfolded assms(2)] by (simp add: verify_op_def)
  moreover have "m_env ?q = cw_env w" by (simp add: query_of_def)
  ultimately show thesis using that [OF query_of_nonce [OF a(1)]] by blast
qed

interpretation server_gate: guarded_gate "server_step (on_files parse interval freshness S)" "\<lambda>_. True" op_reads "\<lambda>s. nonce_used (r_nonces (ss_registers s))"
  "op_authorized (on_files parse interval freshness S)" op_nonce for parse interval freshness S
proof
  fix s q k v
  let ?S = "on_files parse interval freshness S"
  show "op_reads q \<Longrightarrow> nonce_used (r_nonces (ss_registers s)) k = Some v \<Longrightarrow> nonce_used (r_nonces (ss_registers (server_step ?S q s))) k = Some v"
    by (rule nonce_kept)
  show "True \<and> nonce_used (r_nonces (ss_registers (server_step ?S q s))) (op_nonce q) \<noteq> None" if "op_authorized ?S q s"
  proof -
    obtain w request where q: "q = Request w request" "fresh_call ?S w request s" "authorized ?S w request s"
      using \<open>op_authorized ?S q s\<close> by (cases q) (auto simp: op_authorized_def)
    obtain x where "query_nonce x = request_nonce request" "m_env x = cw_env w" "past_nonce (sv_mandate ?S) (server_deps parse interval freshness) (server_keys ?S) x (ss_registers s)"
      "ss_registers (snd (handle_request ?S w request s)) = verify_op (sv_mandate ?S) (server_deps parse interval freshness) (server_keys ?S) x (ss_registers s)"
      by (rule authorized_past [OF q(3) on_files_deps])
    then show ?thesis using server.past_nonce_used [of "sv_mandate ?S" parse interval freshness "server_keys ?S" x "ss_registers s"] q(2)
      by (simp add: q(1) op_nonce_def)
  qed
  show "\<not> op_authorized ?S q s" if "op_reads q" "nonce_used (r_nonces (ss_registers s)) (op_nonce q) \<noteq> None"
  proof
    assume "op_authorized ?S q s"
    then obtain w request where q: "q = Request w request" "authorized ?S w request s"
      by (cases q) (auto simp: op_authorized_def)
    obtain x where "query_nonce x = request_nonce request" "m_env x = cw_env w" "past_nonce (sv_mandate ?S) (server_deps parse interval freshness) (server_keys ?S) x (ss_registers s)"
      by (rule authorized_past [OF q(2) on_files_deps])
    then show False using that server.used_stops [where s = "ss_registers s" and q = x] by (simp add: q op_nonce_def op_reads_def)
  qed
qed

section \<open>Sessions that are no Runs\<close>

text \<open>What the tools and the workers do keeps the sessions well-formed, keeps every session that is no Run as it is, and
  every Run a Run.\<close>

definition runs_grow :: "hostlib \<Rightarrow> session_store \<Rightarrow> session_store \<Rightarrow> bool" where
  "runs_grow H st st' \<longleftrightarrow> life_ok H st' \<and> (\<forall>sid v. stored st sid v \<longrightarrow>
     (if is_run v then \<exists>v'. stored st' sid v' \<and> is_run v' else stored st' sid v))"

lemma runs_grow_refl: "life_ok H st \<Longrightarrow> runs_grow H st st"
  by (auto simp: runs_grow_def)

lemma runs_grow_trans: "runs_grow H st st1 \<Longrightarrow> runs_grow H st1 st2 \<Longrightarrow> runs_grow H st st2"
  unfolding runs_grow_def by (metis (no_types, lifting))

lemma runs_grow_added:
  assumes "life_ok H st" "life_ok H st'" "event_added st sid t p st'" "stored st sid v" "is_run v"
  shows "runs_grow H st st'"
proof -
  obtain v' where v': "stored st' sid v'" "\<And>x w. x \<noteq> sid \<Longrightarrow> stored st' x w \<longleftrightarrow> stored st x w" "is_run v' = is_run v"
    by (rule event_added_cases [OF assms(1,3,4)]) (rule that)
  have "if is_run w then \<exists>v'. stored st' x v' \<and> is_run v' else stored st' x w" if "stored st x w" for x w
  proof (cases "x = sid")
    case True
    then have "w = v" using that assms(4) stored_unique by blast
    then show ?thesis using True v'(1,3) assms(5) by auto
  qed (use that v'(2) in auto)
  then show ?thesis using assms(2) by (simp add: runs_grow_def)
qed

lemma runs_grow_session_added:
  assumes "life_ok H st'" "session_added st sid r i st'"
  shows "runs_grow H st st'" "\<exists>v. stored st' sid v \<and> is_run v"
proof -
  obtain v where v: "map_of st sid = None" "map_of st' = (map_of st)(sid \<mapsto> Some v)" "run_named r v"
    using assms(2) by (auto simp: session_added_def)
  have "stored st' x w" if "stored st x w" for x w using that v(1,2) by (auto simp: stored_def)
  then show "runs_grow H st st'" using assms(1) by (auto simp: runs_grow_def)
  show "\<exists>v. stored st' sid v \<and> is_run v" using v run_named_is_run by (auto simp: stored_def)
qed

lemma runs_grow_creation:
  assumes "creation H st sid r i st' c d"
  shows "runs_grow H st st'" "\<exists>v. stored st' sid v \<and> is_run v"
proof -
  obtain st0 where st0: "session_added st sid r i st0" "life_ok H st0" "life_ok H st'"
    "if \<not> c then \<not> d \<and> st' = st0 else (\<exists>st1 p q. event_added st0 sid ''run.created'' p st1 \<and> life_ok H st1 \<and>
        (if \<not> d then st' = st1 else event_added st1 sid ''run.running'' q st'))"
    using assms by (auto simp: creation_def)
  note g = runs_grow_session_added [OF st0(2,1)]
  have "runs_grow H st0 st'"
  proof (cases c)
    case True
    then obtain st1 p q where e: "event_added st0 sid ''run.created'' p st1" "life_ok H st1"
      "if \<not> d then st' = st1 else event_added st1 sid ''run.running'' q st'" using st0(4) by auto
    obtain v where v: "stored st0 sid v" "is_run v" using g(2) by blast
    have g1: "runs_grow H st0 st1" by (rule runs_grow_added [OF st0(2) e(2,1) v])
    then obtain v1 where "stored st1 sid v1" "is_run v1" using v unfolding runs_grow_def by (metis (full_types))
    then have "d \<Longrightarrow> runs_grow H st1 st'" using runs_grow_added [OF e(2) st0(3)] e(3) by simp
    then show ?thesis using g1 e(3) runs_grow_trans by (cases d) auto
  next
    case False
    then show ?thesis using st0(4) runs_grow_refl [OF st0(2)] by simp
  qed
  then show "runs_grow H st st'" "\<exists>v. stored st' sid v \<and> is_run v"
    using runs_grow_trans [OF g(1)] g(2) unfolding runs_grow_def by (blast, metis (full_types))
qed

lemma runs_grow_turn:
  assumes "life_ok H st" "turn_added H w st sid st'" "stored st sid v" "is_run v"
  shows "runs_grow H st st'"
  using runs_grow_added [OF assms(1) _ _ assms(3,4)] assms(2) by (auto simp: turn_added_def)

text \<open>A command of the command line may add sessions, with Run ids of their own, and leaves the others.\<close>

definition cli_adds_only :: "tool_host \<Rightarrow> bool" where
  "cli_adds_only T \<longleftrightarrow> (\<forall>command a st. life_ok (lh_lib (th_life T)) st \<longrightarrow>
     life_ok (lh_lib (th_life T)) (snd (th_cli T command a st)) \<and> (\<forall>sid v. stored st sid v \<longrightarrow> stored (snd (th_cli T command a st)) sid v))"

lemma runs_grow_cli:
  assumes "cli_adds_only T" "life_ok (lh_lib (th_life T)) st"
  shows "runs_grow (lh_lib (th_life T)) st (snd (cli_tool T tool args st))"
proof -
  have "snd (cli_tool T tool args st) = snd (run_command T tool args st)"
    by (auto simp: cli_tool_def split: prod.split sum.split)
  moreover have "snd (run_command T tool args st) = st \<or> (\<exists>c a. snd (run_command T tool args st) = snd (th_cli T c a st))"
    by (auto simp: run_command_def split: prod.split sum.split) (metis snd_conv)+
  ultimately show ?thesis
    using assms runs_grow_refl [OF assms(2)] unfolding cli_adds_only_def runs_grow_def by (metis (full_types))
qed

lemma handler_grows:
  assumes "cli_adds_only T" "life_ok (lh_lib (th_life T)) st" "fresh_ids w st" "handler T w tool args binding st jobs = (r, st', jobs')"
  shows "runs_grow (lh_lib (th_life T)) st st' \<and> (\<forall>j\<in>set jobs'. j \<in> set jobs \<or> (\<exists>v. stored st' (wj_session_id j) v \<and> is_run v))"
proof -
  let ?L = "th_life T"
  note refl = runs_grow_refl [OF assms(2)]
  have distinct: "RUN_CREATE \<noteq> RUN_STATUS" "RUN_RESUME \<notin> {RUN_STATUS, RUN_CREATE}" "RUN_SUBMIT \<notin> {RUN_STATUS, RUN_CREATE, RUN_RESUME}"
    "RUN_CREATE \<notin> {''route_engine'', ''list_engine_manifests''}" "RUN_RESUME \<notin> {''route_engine'', ''list_engine_manifests''}"
    "RUN_SUBMIT \<notin> {''route_engine'', ''list_engine_manifests''}"
    by (simp_all add: RUN_CREATE_def RUN_STATUS_def RUN_RESUME_def RUN_SUBMIT_def)
  consider "tool = RUN_CREATE" | "tool = RUN_RESUME" | "tool = RUN_SUBMIT"
    | "tool \<in> {''route_engine'', ''list_engine_manifests'', RUN_STATUS}"
    | "tool \<notin> {RUN_CREATE, RUN_RESUME, RUN_SUBMIT, ''route_engine'', ''list_engine_manifests'', RUN_STATUS}" by blast
  then show ?thesis
  proof cases
    case 1
    obtain x st1 where x: "create_run ?L w args binding st = (x, st1)" by fastforce
    then have e: "st' = st1" "set jobs' = set jobs \<union> (case x of Inr (v, job) \<Rightarrow> {job} | _ \<Rightarrow> {})"
      using assms(4) distinct by (auto simp: handler_def 1 Let_def split: sum.split_asm prod.split_asm)
    from create_run_effect [OF assms(2,3) x] show ?thesis
    proof
      assume "(\<exists>e. x = Inl e) \<and> st1 = st"
      then show ?thesis using e refl by auto
    next
      assume "\<exists>p c. create_checks ?L (lw_run_id w) args binding st = Inr p \<and> lw_writes w 0 \<and>
        creation (lh_lib ?L) st (''session_'' @ lw_uuid w) (lw_run_id w) (dget args ''issue_ref'') st1 c (\<exists>y. x = Inr y) \<and>
        (c \<longrightarrow> lw_writes w 1 \<and> finite_json (JObj p)) \<and> (\<forall>v job. x = Inr (v, job) \<longrightarrow> wj_session_id job = ''session_'' @ lw_uuid w)"
      then obtain c where c: "creation (lh_lib ?L) st (''session_'' @ lw_uuid w) (lw_run_id w) (dget args ''issue_ref'') st1 c (\<exists>y. x = Inr y)"
        "\<forall>v job. x = Inr (v, job) \<longrightarrow> wj_session_id job = ''session_'' @ lw_uuid w" by blast
      show ?thesis using runs_grow_creation [OF c(1)] c(2) e by (auto split: sum.split_asm prod.split_asm)
    qed
  next
    case 2
    obtain x ivs st1 where x: "resume_run ?L w args binding st = (x, ivs, st1)" using prod_cases3 by blast
    then have e: "st' = st1" "jobs' = jobs" using assms(4) distinct by (auto simp: handler_def 2 Let_def)
    have "runs_grow (lh_lib ?L) st st1"
    proof (cases "st1 = st")
      case False
      then obtain sid i where c: "resume_checks ?L args binding st = Inr (sid, i)" "turn_added (lh_lib ?L) w st sid st1"
        using resume_run_effect [OF assms(2) x] by auto
      obtain v issue_ref where v: "stored st sid v" "run_of_issue issue_ref v" by (rule resume_checks_Inr [OF assms(2) c(1)])
      then have "is_run v" by (simp add: run_of_issue_def)
      then show ?thesis using runs_grow_turn [OF assms(2) c(2) v(1)] by blast
    qed (use refl in simp)
    then show ?thesis by (simp add: e)
  next
    case 3
    obtain x st1 where x: "submit_for_review ?L w args binding st = (x, st1)" by fastforce
    then have e: "st' = st1" "jobs' = jobs" using assms(4) distinct by (auto simp: handler_def 3 Let_def)
    have "runs_grow (lh_lib ?L) st st1"
    proof (cases "st1 = st")
      case False
      then obtain sid v i status p where c: "submit_checks ?L args binding st = Inr (sid, v, i, status)" "life_ok (lh_lib ?L) st1"
        "event_added st sid ''run.review_submitted'' p st1"
        using submit_effect [OF assms(2) x] by blast
      obtain n where v: "stored st sid v" "run_named n v" by (rule submit_checks_Inr [OF assms(2) c(1)])
      then show ?thesis using runs_grow_added [OF assms(2) c(2,3) v(1)] run_named_is_run by blast
    qed (use refl in simp)
    then show ?thesis by (simp add: e)
  next
    case 4
    then have "st' = st" "jobs' = jobs" using assms(4) by (auto simp: handler_def Let_def split: if_split_asm)
    then show ?thesis using refl by simp
  next
    case 5
    then have "st' = snd (cli_tool T tool args st)" "jobs' = jobs" using assms(4) by (auto simp: handler_def Let_def split: prod.split_asm)
    then show ?thesis using runs_grow_cli [OF assms(1,2)] by simp
  qed
qed

lemma call_tool_effect:
  "ss_audit (snd (call_tool S w name args mandate client s)) = ss_audit s \<and>
   (ss_sessions (snd (call_tool S w name args mandate client s)) = ss_sessions s \<and> ss_jobs (snd (call_tool S w name args mandate client s)) = ss_jobs s \<or>
   (\<exists>tool binding r. handler (sv_host S) (cw_life w) tool args binding (ss_sessions s) (ss_jobs s) =
      (r, ss_sessions (snd (call_tool S w name args mandate client s)), ss_jobs (snd (call_tool S w name args mandate client s)))))"
proof (cases "find_spec name")
  case (Some t)
  obtain x regs where x: "authorize S w t args mandate client (ss_sessions s) (ss_registers s) = (x, regs)" by fastforce
  obtain r st jobs where h: "handler (sv_host S) (cw_life w) (tl_name t) args (binding_of mandate) (ss_sessions s) (ss_jobs s) = (r, st, jobs)"
    using prod_cases3 by blast
  show ?thesis
    using h by (cases x; cases "checked_read S t args (ss_sessions s)") (auto simp: call_tool_def Some x)
qed (simp add: call_tool_def)

lemma try_tool_effect:
  "ss_audit (snd (try_tool S w name args mandate raw s)) = ss_audit s \<and>
   (ss_sessions (snd (try_tool S w name args mandate raw s)) = ss_sessions s \<and> ss_jobs (snd (try_tool S w name args mandate raw s)) = ss_jobs s \<or>
   (\<exists>tool binding r. handler (sv_host S) (cw_life w) tool args binding (ss_sessions s) (ss_jobs s) =
      (r, ss_sessions (snd (try_tool S w name args mandate raw s)), ss_jobs (snd (try_tool S w name args mandate raw s)))))"
proof (cases "client_of S name raw")
  case (Inr client)
  have "try_tool S w name args mandate raw s = call_tool S w name args mandate client s" by (simp add: try_tool_def Inr)
  then show ?thesis using call_tool_effect by metis
qed (simp add: try_tool_def)

end
