(* ===== verification/Mcp_Server_Guarantees.thy ===== *)
theory Mcp_Server_Guarantees
  imports Mcp_Server_Props
begin

text \<open>
  The audit trail of the MCP server, and its guarantees over histories of requests, worker turns and restarts.
\<close>

section \<open>The trail in the session\<close>

definition audit_created :: "string \<times> json" where
  "audit_created = (''session.created'',
     json_norm (JObj (create_payload (JStr ''mcp-server'') [(''worker_role'', JStr ''mcp''), (''runtime'', JStr ''mcp'')])))"

definition tool_event :: "audit_entry \<Rightarrow> string \<times> json" where
  "tool_event e = (''mcp.tool_call'', json_norm (JObj (audit_payload e)))"

text \<open>The session of the log holds exactly these entries, and is no Run.\<close>

definition trail_ok :: "audit_log \<Rightarrow> session_store \<Rightarrow> audit_entry list \<Rightarrow> bool" where
  "trail_ok al st es \<longleftrightarrow> al_sequence al = length es \<and> (case al_session al of
     None \<Rightarrow> es = []
   | Some sid \<Rightarrow> \<exists>v. stored st sid v \<and> \<not> is_run v \<and> event_log v (audit_created # map tool_event es))"

lemma runs_grow_other: "runs_grow H st st' \<Longrightarrow> stored st sid v \<Longrightarrow> \<not> is_run v \<Longrightarrow> stored st' sid v"
  unfolding runs_grow_def by (metis (full_types))

lemma trail_grows: "runs_grow H st st' \<Longrightarrow> trail_ok al st es \<Longrightarrow> trail_ok al st' es"
  using runs_grow_other [of H st st'] by (auto simp: trail_ok_def split: option.splits)

text \<open>Runs stay where they are when the log is written.\<close>

definition runs_kept :: "hostlib \<Rightarrow> session_store \<Rightarrow> session_store \<Rightarrow> bool" where
  "runs_kept H st st' \<longleftrightarrow> life_ok H st' \<and> (\<forall>sid v. stored st sid v \<longrightarrow> is_run v \<longrightarrow> stored st' sid v)"

lemma runs_kept_refl: "life_ok H st \<Longrightarrow> runs_kept H st st"
  by (simp add: runs_kept_def)

lemma audit_append_trail:
  assumes "life_ok H st" "trail_ok al st es" "al_session al = Some sid" "audit_append H w e sid al st = (r, al', st')"
  shows "runs_kept H st st' \<and> trail_ok al' st' (if isl r then es else es @ [e])"
proof -
  obtain v where v: "stored st sid v" "\<not> is_run v" "event_log v (audit_created # map tool_event es)"
    using assms(2,3) by (auto simp: trail_ok_def)
  have ok: "sessions_ok H st" using assms(1) by (simp add: life_ok_def)
  obtain x st1 where x: "session_append H (aw_stamp w 1) (aw_writes w 1) sid (int (al_sequence al)) ''mcp.tool_call'' (JObj (audit_payload e)) st = (x, st1)"
    by fastforce
  show ?thesis
  proof (cases x)
    case (Inl y)
    then have "st1 = st" using session_append_grows [OF ok x] by auto
    then show ?thesis using assms Inl x runs_kept_refl [OF assms(1)] by (auto simp: audit_append_def)
  next
    case (Inr doc)
    then have a: "sessions_ok H st1" "event_added st sid ''mcp.tool_call'' (audit_payload e) st1" using session_append_grows [OF ok x] by auto
    have l: "life_ok H st1" by (rule life_ok_event_added [OF assms(1) a])
    obtain v1 where v1: "stored st1 sid v1" "\<And>y w. y \<noteq> sid \<Longrightarrow> stored st1 y w \<longleftrightarrow> stored st y w" "is_run v1 = is_run v"
      by (rule event_added_cases [OF assms(1) a(2) v(1)]) (rule that)
    obtain v2 where "stored st1 sid v2" "event_log v2 ((audit_created # map tool_event es) @ [tool_event e])"
      using event_log_append [OF assms(1) a(2) v(1,3)] unfolding tool_event_def by metis
    then have "event_log v1 (audit_created # map tool_event (es @ [e]))" using v1(1) stored_unique by (simp) blast
    then have t: "trail_ok (al\<lparr>al_sequence := Suc (al_sequence al)\<rparr>) st1 (es @ [e])"
      using v1(1,3) v(2) assms(2,3) by (auto simp: trail_ok_def)
    have "stored st1 y w" if "stored st y w" "is_run w" for y w
      using that v v1(2) stored_unique by (cases "y = sid") blast+
    then have "runs_kept H st st1" using l by (simp add: runs_kept_def)
    then show ?thesis using t assms(4) Inr x by (auto simp: audit_append_def)
  qed
qed

text \<open>The session the log opens is no Run: it has no Run id.\<close>

lemma audit_session_added:
  assumes "life_ok H st" "map_of st (''session_'' @ u) = None"
    "session_create H now u wr (JStr ''mcp-server'') [(''worker_role'', JStr ''mcp''), (''runtime'', JStr ''mcp'')] st = (x, st')"
  shows "(\<exists>e. x = Inl e) \<and> st' = st \<or> (\<exists>doc. x = Inr doc) \<and> runs_kept H st st' \<and>
    (\<exists>v. stored st' (''session_'' @ u) v \<and> \<not> is_run v \<and> event_log v [audit_created])"
proof (cases x)
  case (Inl e)
  then show ?thesis using failed_call_keeps(2) assms(3) by (metis fst_conv snd_conv)
next
  case (Inr doc)
  let ?p = "create_payload (JStr ''mcp-server'') [(''worker_role'', JStr ''mcp''), (''runtime'', JStr ''mcp'')]"
  let ?v = "json_norm doc" and ?c = "sort_key fst (map_vals json_norm ?p)" and ?sid = "''session_'' @ u"
  note c = create_ok [OF assms(3) [unfolded Inr]]
  obtain e where e: "dget e ''event_type'' = JStr ''session.created''" "dget e ''payload'' = JObj ?p" "events_of ?v = [json_norm (JObj e)]"
    using session_create_events [OF assms(3) [unfolded Inr]] by auto
  have f: "first_payload ?v = Inr (JObj ?c)" using e(2) by (simp add: first_payload_def e(3) del: json_norm.simps(2)) simp
  then have cr: "created_of ?v = ?c" by (simp add: created_of_def)
  have n: "\<not> has_key ?p ''run_id''" by (simp add: create_payload_def OPTIONAL_FIELDS_def has_key_def dict_keys_def)
  then have nr: "\<not> is_run ?v" by (simp add: is_run_def cr)
  have "\<not> event_is t (json_norm (JObj e))" if "t \<in> set RUN_EVENTS" for t
    using that by (auto simp: e(1) RUN_EVENTS_def simp del: json_norm.simps(2))
  then have rs: "run_session ?v" by (auto simp: run_session_def f payloads_ok_def e(3) simp del: json_norm.simps(2))
  have m: "map_of st' = (map_of st)(?sid \<mapsto> Some ?v)" using c by (simp add: update_conv')
  have st: "stored st' y w \<longleftrightarrow> (if y = ?sid then w = ?v else stored st y w)" for y w by (auto simp: stored_def m)
  have named: "\<not> run_named q ?v" for q using nr run_named_is_run by blast
  have "sessions_ok H st'" using c sessions_ok_update [of H st] assms(1) by (simp add: life_ok_def)
  moreover have "run_session w" if "stored st' y w" for y w
    using that rs life_ok_stored(2) [OF assms(1)] by (auto simp: st split: if_split_asm)
  moreover have "y = z" if "stored st' y w" "stored st' z w'" "run_named q w" "run_named q w'" for y z w w' q
    using that named assms(1) unfolding st life_ok_def by (metis (full_types))
  ultimately have "life_ok H st'" unfolding life_ok_def by blast
  moreover have "stored st' y w" if "stored st y w" for y w using that assms(2) st [of y w] by (cases "y = ?sid") (simp_all add: stored_def)
  moreover have "event_log ?v [audit_created]"
    using e by (simp add: event_log_def audit_created_def del: json_norm.simps(2))
  ultimately show ?thesis using Inr nr by (auto simp: runs_kept_def st)
qed

lemma audit_record_trail:
  assumes "life_ok H st" "trail_ok al st es" "map_of st (''session_'' @ aw_uuid w) = None" "audit_record H w e al st = (r, al', st')"
  shows "runs_kept H st st' \<and> trail_ok al' st' (if isl r then es else es @ [e])"
proof (cases "al_session al")
  case (Some sid)
  then show ?thesis using audit_append_trail [OF assms(1,2)] assms(4) by (simp add: audit_record_def)
next
  case None
  let ?sid = "''session_'' @ aw_uuid w"
  obtain x st1 where x: "session_create H (aw_stamp w 0) (aw_uuid w) (aw_writes w 0) (JStr ''mcp-server'')
      [(''worker_role'', JStr ''mcp''), (''runtime'', JStr ''mcp'')] st = (x, st1)" by fastforce
  note a = audit_session_added [OF assms(1,3) x]
  show ?thesis
  proof (cases x)
    case (Inl y)
    then show ?thesis using a assms x None runs_kept_refl [OF assms(1)] by (auto simp: audit_record_def)
  next
    case (Inr doc)
    let ?al = "al\<lparr>al_session := Some ?sid\<rparr>"
    have k: "runs_kept H st st1" "\<exists>v. stored st1 ?sid v \<and> \<not> is_run v \<and> event_log v [audit_created]" using a Inr by auto
    have es: "es = []" "al_sequence al = 0" using assms(2) None by (auto simp: trail_ok_def)
    have t: "trail_ok ?al st1 es" using k(2) es by (simp add: trail_ok_def)
    have r: "audit_append H w e ?sid ?al st1 = (r, al', st')" using assms(4) x None Inr by (simp add: audit_record_def Let_def)
    have "life_ok H st1" using k(1) by (simp add: runs_kept_def)
    from audit_append_trail [OF this t _ r] show ?thesis using k(1) by (auto simp: runs_kept_def)
  qed
qed

section \<open>Histories\<close>

definition server_inv :: "('e, 's) mcp_server \<Rightarrow> 's server_state \<Rightarrow> bool" where
  "server_inv S s \<longleftrightarrow> life_ok (mhost (sv_mandate S)) (ss_sessions s) \<and>
     (\<forall>j\<in>set (ss_jobs s). \<exists>v. stored (ss_sessions s) (wj_session_id j) v \<and> is_run v)"

text \<open>The entries the requests of a history call for, in order.\<close>

definition entries_of :: "('e, 's) mcp_server \<Rightarrow> 'e server_op \<Rightarrow> 's server_state \<Rightarrow> audit_entry list" where
  "entries_of S q s = (case q of
     Request w request \<Rightarrow> (case call_of request of
         Some (name, args, mandate, raw) \<Rightarrow> (case audited_answer name args mandate (fst (try_tool S w name args mandate raw s)) of
             Some e \<Rightarrow> [e] | None \<Rightarrow> [])
       | None \<Rightarrow> [])
   | _ \<Rightarrow> [])"

primrec audit_trail :: "('e, 's) mcp_server \<Rightarrow> 'e server_op list \<Rightarrow> 's server_state \<Rightarrow> audit_entry list" where
  "audit_trail S [] s = []"
| "audit_trail S (q # qs) s = entries_of S q s @ audit_trail S qs (server_step S q s)"

text \<open>A history of one process in which no request ended in an exception; its ids are new.\<close>

primrec served :: "('e, 's) mcp_server \<Rightarrow> 'e server_op list \<Rightarrow> 's server_state \<Rightarrow> bool" where
  "served S [] s = True"
| "served S (q # qs) s = ((case q of
     Request w request \<Rightarrow> fresh_call S w request s \<and> \<not> isl (fst (handle_request S w request s))
   | Work w k \<Rightarrow> True
   | Restart \<Rightarrow> False) \<and> served S qs (server_step S q s))"

lemma try_tool_inv:
  assumes "server_inv S s" "cli_adds_only (sv_host S)" "fresh_ids (cw_life w) (ss_sessions s)" "try_tool S w name args mandate raw s = (r, s1)"
  shows "server_inv S s1" "runs_grow (mhost (sv_mandate S)) (ss_sessions s) (ss_sessions s1)" "ss_audit s1 = ss_audit s"
proof -
  let ?H = "mhost (sv_mandate S)"
  have ok: "life_ok ?H (ss_sessions s)" using assms(1) by (simp add: server_inv_def)
  have e: "ss_audit s1 = ss_audit s" "ss_sessions s1 = ss_sessions s \<and> ss_jobs s1 = ss_jobs s \<or>
      (\<exists>tool binding r. handler (sv_host S) (cw_life w) tool args binding (ss_sessions s) (ss_jobs s) = (r, ss_sessions s1, ss_jobs s1))"
    using try_tool_effect [of S w name args mandate raw s] by (simp_all add: assms(4))
  from e(2) have "runs_grow ?H (ss_sessions s) (ss_sessions s1) \<and>
      (\<forall>j\<in>set (ss_jobs s1). j \<in> set (ss_jobs s) \<or> (\<exists>v. stored (ss_sessions s1) (wj_session_id j) v \<and> is_run v))"
  proof
    assume "\<exists>tool binding r. handler (sv_host S) (cw_life w) tool args binding (ss_sessions s) (ss_jobs s) = (r, ss_sessions s1, ss_jobs s1)"
    then show ?thesis using handler_grows [OF assms(2) ok assms(3)] by blast
  qed (use runs_grow_refl [OF ok] in auto)
  then show "runs_grow ?H (ss_sessions s) (ss_sessions s1)" "ss_audit s1 = ss_audit s" "server_inv S s1"
    using e(1) assms(1) by (auto simp: server_inv_def runs_grow_def) (metis (full_types))
qed

lemma audit_answer_trail:
  assumes "server_inv S s" "trail_ok (ss_audit s) (ss_sessions s) es" "sv_audited S"
    "map_of (ss_sessions s) (''session_'' @ aw_uuid (cw_audit w)) = None" "audit_answer S w name args mandate r s = (x, s')"
  shows "server_inv S s'" "trail_ok (ss_audit s') (ss_sessions s') (es @ (case audited_answer name args mandate r of
      Some e \<Rightarrow> if isl x then [] else [e] | None \<Rightarrow> []))"
proof -
  let ?H = "mhost (sv_mandate S)"
  have "server_inv S s' \<and> trail_ok (ss_audit s') (ss_sessions s') (es @ (case audited_answer name args mandate r of
      Some e \<Rightarrow> if isl x then [] else [e] | None \<Rightarrow> []))"
  proof (cases "audited_answer name args mandate r")
    case (Some e)
    obtain y al st where y: "audit_record ?H (cw_audit w) e (ss_audit s) (ss_sessions s) = (y, al, st)" using prod_cases3 by blast
    have ok: "life_ok ?H (ss_sessions s)" using assms(1) by (simp add: server_inv_def)
    note t = audit_record_trail [OF ok assms(2,4) y]
    have "s' = s\<lparr>ss_audit := al, ss_sessions := st\<rparr>" "isl x = isl y"
      using assms(3,5) Some y by (auto simp: audit_answer_def split: sum.split_asm)
    moreover have "server_inv S (s\<lparr>ss_audit := al, ss_sessions := st\<rparr>)"
      using t assms(1) unfolding server_inv_def runs_kept_def by simp (metis (full_types))
    ultimately show ?thesis using t Some by auto
  qed (use assms in \<open>auto simp: audit_answer_def\<close>)
  then show "server_inv S s'" "trail_ok (ss_audit s') (ss_sessions s') (es @ (case audited_answer name args mandate r of
      Some e \<Rightarrow> if isl x then [] else [e] | None \<Rightarrow> []))" by auto
qed

lemma request_trail:
  assumes "server_inv S s" "trail_ok (ss_audit s) (ss_sessions s) es" "sv_audited S" "cli_adds_only (sv_host S)" "fresh_call S w request s"
    "handle_request S w request s = (x, s')"
  shows "server_inv S s' \<and> (\<not> isl x \<longrightarrow> trail_ok (ss_audit s') (ss_sessions s') (es @ entries_of S (Request w request) s))"
proof (cases "call_of request")
  case None
  then have "s' = s" using handle_request_other(1) [of request S w s] assms(6) by simp
  then show ?thesis using assms(1,2) None by (simp add: entries_of_def)
next
  case (Some c)
  then obtain name args mandate raw where c: "call_of request = Some (name, args, mandate, raw)" by (cases c) auto
  obtain r s1 where t: "try_tool S w name args mandate raw s = (r, s1)" by fastforce
  obtain y s2 where a: "audit_answer S w name args mandate r s1 = (y, s2)" by fastforce
  have f: "fresh_ids (cw_life w) (ss_sessions s)" "map_of (ss_sessions s1) (''session_'' @ aw_uuid (cw_audit w)) = None"
    using assms(5) by (simp_all add: fresh_call_def c t)
  have e: "s' = s2" "isl x = isl y" using assms(6) by (auto simp: handle_request_call [OF c] t a split: sum.split_asm)
  note t1 = try_tool_inv [OF assms(1,4) f(1) t]
  have "trail_ok (ss_audit s1) (ss_sessions s1) es" using trail_grows [OF t1(2) assms(2)] by (simp add: t1(3))
  note a1 = audit_answer_trail [OF t1(1) this assms(3) f(2) a]
  show ?thesis using a1 e by (auto simp: entries_of_def c t split: option.split_asm)
qed

lemma work_trail:
  assumes "server_inv S s" "trail_ok (ss_audit s) (ss_sessions s) es"
  shows "server_inv S (server_step S (Work w k) s) \<and>
    trail_ok (ss_audit (server_step S (Work w k) s)) (ss_sessions (server_step S (Work w k) s)) es"
proof (cases "length (ss_jobs s) \<le> k")
  case False
  let ?H = "mhost (sv_mandate S)" and ?j = "ss_jobs s ! k"
  have ok: "life_ok ?H (ss_sessions s)" using assms(1) by (simp add: server_inv_def)
  have "?j \<in> set (ss_jobs s)" using False by simp
  then obtain v where v: "stored (ss_sessions s) (wj_session_id ?j) v" "is_run v" using assms(1) by (auto simp: server_inv_def)
  obtain ivs st where st: "worker_turn (th_life (sv_host S)) w ?j (ss_sessions s) = (ivs, st)" by fastforce
  have g: "runs_grow ?H (ss_sessions s) st"
    using worker_turn_effect [OF ok st] runs_grow_refl [OF ok] runs_grow_turn [OF ok _ v] by auto
  have "set (take k (ss_jobs s) @ drop (Suc k) (ss_jobs s)) \<subseteq> set (ss_jobs s)" using set_take_subset set_drop_subset by fastforce
  then have "server_inv S (server_step S (Work w k) s)"
    using assms(1) g False st unfolding server_inv_def runs_grow_def by simp (metis (full_types) subsetD Un_iff)
  then show ?thesis using trail_grows [OF g assms(2)] False st by simp
qed (use assms in simp)

lemma served_trail:
  assumes "server_inv S s" "trail_ok (ss_audit s) (ss_sessions s) es" "sv_audited S" "cli_adds_only (sv_host S)" "served S qs s"
  shows "server_inv S (run (server_step S) qs s) \<and>
    trail_ok (ss_audit (run (server_step S) qs s)) (ss_sessions (run (server_step S) qs s)) (es @ audit_trail S qs s)"
  using assms(1,2,5)
proof (induction qs arbitrary: s es)
  case (Cons q qs)
  let ?s = "server_step S q s"
  have "server_inv S ?s \<and> trail_ok (ss_audit ?s) (ss_sessions ?s) (es @ entries_of S q s)"
  proof (cases q)
    case (Request w request)
    obtain x s1 where x: "handle_request S w request s = (x, s1)" by fastforce
    have f: "fresh_call S w request s" "\<not> isl x" using Cons.prems(3) by (simp_all add: Request x)
    show ?thesis using request_trail [OF Cons.prems(1,2) assms(3,4) f(1) x] f by (simp add: Request x)
  next
    case (Work w k)
    then show ?thesis using work_trail [OF Cons.prems(1,2)] by (simp add: entries_of_def)
  qed (use Cons.prems in simp)
  then show ?case using Cons.IH [of ?s "es @ entries_of S q s"] Cons.prems(3) by simp
qed simp

section \<open>Guarantees\<close>

text \<open>A handler behind a mandate runs once for a mandate's nonce. After a request got past the authorization of the server on its
  files, a later request with the same nonce for a tool that needs a mandate is refused before any handler: it changes neither a
  session nor the workers, whatever requests, worker turns and restarts lie between, as long as the calls can read the nonce
  file.\<close>

theorem mandate_admits_one_request:
  assumes "F = on_files parse interval freshness S" "op_authorized F q s" "list_all op_reads qs" "op_reads (Request w request)"
    and "request_nonce request = op_nonce q" "call_of request = Some (name, args, mandate, raw)" "find_spec name = Some t" "mandated t"
    and "s' = run (server_step F) (q # qs) s" "fresh_call F w request s'"
  shows "\<exists>e regs. try_tool F w name args mandate raw s' = (Inl e, s'\<lparr>ss_registers := regs\<rparr>)"
proof -
  have "\<not> op_authorized F (Request w request) s'"
    unfolding assms(1,9)
    by (rule server_gate.replay_refused [OF TrueI assms(2) [unfolded assms(1)] assms(3,4)]) (simp add: op_nonce_def assms(5))
  then have "\<not> authorized F w request s'" using assms(10) by (simp add: op_authorized_def)
  then show ?thesis by (rule unauthorized_inert [OF assms(6-8)])
qed

text \<open>The audit trail is complete. After any history of one process in which no request ended in an exception, with ids that
  are new and commands that only add sessions, the audit session holds one event for every answered call of a known tool, in
  order, with the sequence numbers the log counted, and nothing else.\<close>

theorem audit_trail_complete:
  assumes "life_ok (mhost (sv_mandate S)) (ss_sessions s)" "ss_jobs s = []" "ss_audit s = no_audit" "sv_audited S"
    and "cli_adds_only (sv_host S)" "served S qs s" "s' = run (server_step S) qs s" "al_session (ss_audit s') = Some sid"
  shows "\<exists>v. stored (ss_sessions s') sid v \<and> event_log v (audit_created # map tool_event (audit_trail S qs s)) \<and>
    al_sequence (ss_audit s') = length (audit_trail S qs s)"
proof -
  have "server_inv S s" "trail_ok (ss_audit s) (ss_sessions s) []"
    using assms(1-3) by (simp_all add: server_inv_def trail_ok_def no_audit_def)
  from served_trail [OF this assms(4-6)] show ?thesis
    using assms(8) by (auto simp: trail_ok_def assms(7))
qed

text \<open>The audit keeps no secret: what it records of a call is the same for two calls that differ only in the values under
  sensitive names, when texts under such a name have one length.\<close>

definition same_public :: "string \<times> json \<Rightarrow> string \<times> json \<Rightarrow> bool" where
  "same_public x y \<longleftrightarrow> fst x = fst y \<and> (snd x = snd y \<or> is_sensitive (fst x) \<and>
     is_str (snd x) = is_str (snd y) \<and> length (text_of (snd x)) = length (text_of (snd y)))"

lemma summarize_value_same:
  "is_sensitive k \<Longrightarrow> is_str v = is_str v' \<Longrightarrow> length (text_of v) = length (text_of v') \<Longrightarrow> summarize_value k v = summarize_value k v'"
  by (cases v; cases v') (simp_all add: summarize_value_def text_of_def)

theorem audit_redacts:
  assumes "list_all2 same_public args args'"
  shows "summarize_args args = summarize_args args'"
  using assms
proof (induction rule: list_all2_induct)
  case (Cons x xs y ys)
  then have "summarize_value (fst x) (snd x) = summarize_value (fst y) (snd y)" "fst x = fst y"
    using summarize_value_same [of "fst x" "snd x" "snd y"] by (auto simp: same_public_def)
  then show ?case using Cons by (simp add: summarize_args_def split_beta)
qed (simp add: summarize_args_def)

end
