(* ===== verification/Spec2Isabelle.thy ===== *)
theory Spec2Isabelle
  imports Core_Store_Props Core_Concurrent Packaging_Ops Dispatch Ledger Mandate_Guarantees Dispatch_Sync Review_Submission Preflight Run_Lifecycle_Guarantees Mcp_Server_Guarantees
begin

text \<open>
  \<^bold>\<open>Cortxt.\<close> The repository runs agents on GitHub issues under the control of an operator. An issue is
  admitted by the execution map (\<open>scripts/execution_map.py\<close>): the prerequisites of its graph must be
  finished and a claim must reserve every exclusive resource of the Run. The dispatcher
  (\<open>scripts/dispatcher.py\<close>) claims the issue, registers the Run, keeps its lease alive and settles it: a
  claimed success passes an evidence gate first (\<open>scripts/commit_evidence.py\<close> for a Run that commits,
  \<open>scripts/evidence_port.py\<close> for one that only reads), an accepted one is submitted for review
  (\<open>daemon/review_submission.py\<close>) and the issue's label and comment follow. Sessions
  (\<open>runtime/session_state.py\<close>) and ledgers (\<open>state/ledger.py\<close>) are hash-chained documents of what a Run
  did. The operator reads Runs through a projection that correlates the registry with the sessions
  (\<open>widget_contract/run_authority.py\<close>). Calls of the MCP server carry signed mandates
  (\<open>cortxt_mcp/mandate.py\<close>). Beside this stand the append-only core store (\<open>state/core_store.py\<close>) with the
  packaging records built on it (\<open>widget_contract/product_packaging\<close>), and the event surface (\<open>events\<close>).
  Paths without \<open>scripts/\<close> are below \<open>src/agent-platform\<close>.

  \<^bold>\<open>Foundations.\<close>
  \<^item> \<open>Prelude\<close>: exceptions as the left side of a sum, loops that stop at the first one, Python's string
    operations. A string is a list of code points 0 to 255.
  \<^item> \<open>Machines\<close>: the interfaces of the components as locales over a state and its operations.
    \<open>invariant_machine\<close>: every operation keeps an invariant. \<open>durable_machine\<close>: a fact, once true, stays
    so. \<open>write_once\<close>: what a key answers never changes. \<open>one_shot_gate\<close>: a token passes once. Each
    is interpreted on the component that provides it, in that component's theory.
  \<^item> \<open>Store_Files\<close>: the stores that are one JSON file whose loader turns a failed read into the empty register.
    Each operation comes with a \<open>file_access\<close>, whether its read and its write work; \<open>guarded_gate\<close> is the one-shot
    gate that holds for the operations that can read, and \<open>one_shot_gate\<close> is the case without a condition. The mandate
    stores, the mandate verifier (\<open>mandate_registers\<close>, the contract it needs of its stores) and the MCP server are such gates.
  \<^item> \<open>Py_Float\<close>: binary64 with rounding to nearest even. \<open>Py_Value\<close>: JSON values with Python's equality,
    order and truth. \<open>Py_Text\<close>: splitting and joining. \<open>Canonical\<close>: \<open>json.dumps\<close> with sorted keys, and digests.

  \<^bold>\<open>Stores.\<close>
  \<^item> \<open>Core_Store\<close>, \<open>Core_Store_Props\<close>, \<open>Core_Concurrent\<close> (\<open>core_store.py\<close>): the state is the directory of
    record files. Shown: appends never touch a stored record, what was appended is read back, the first writer
    wins, in any interleaving of system calls and deaths of writers too; and the payload that is accepted
    although its envelope is too deep to be read.
  \<^item> \<open>Packaging_Records\<close> (\<open>revision.py\<close>, \<open>operation_record.py\<close>), \<open>Decision_Slot\<close>, \<open>Evidence_Store\<close>,
    \<open>Packaging_Ops\<close> (\<open>ops_api.py\<close>, \<open>px_projection.py\<close>): the decision chain, redelivery, and the
    round trip of revisions through the core store.
  \<^item> \<open>Session_State\<close> (\<open>session_state.py\<close>, \<open>session_writer.py\<close>) and \<open>Ledger\<close> (\<open>ledger.py\<close>,
    \<open>inference/provider_policy.py\<close>): every stored session is a valid chain after any history; a ledger is created only
    for an assured data class, and one accepted payload can make it unreadable.

  \<^bold>\<open>Calls from outside.\<close>
  \<^item> \<open>Events\<close> (\<open>validation.py\<close>, \<open>registry.py\<close>, \<open>envelope.py\<close>, \<open>signing.py\<close>, \<open>idempotency.py\<close>) and \<open>Dispatch\<close>
    (\<open>dispatch.py\<close>): a handler runs on a valid envelope only, behind a signature over the raw payload, and once in
    the window while the idempotency file can be read; \<open>failed_load_runs_again\<close> is the history in which it cannot.
  \<^item> \<open>Mandate_Stores\<close> (\<open>nonce_store.py\<close>, \<open>revocation_store.py\<close>), \<open>Mandate\<close> and \<open>Mandate_Guarantees\<close>
    (\<open>mandate.py\<close>): the comparisons an accepted call satisfies, an issued mandate verifies, and a nonce passes once
    and an exhausted budget stays so while the registers can be read; \<open>failed_read_readmits_nonces\<close> and
    \<open>failed_read_resets_budget\<close> are what a failed read does.
  \<^item> \<open>Run_Lifecycle\<close>, \<open>Run_Lifecycle_Props\<close>, \<open>Run_Lifecycle_Guarantees\<close> (\<open>cortxt_mcp/run_lifecycle.py\<close>): the Runs a
    mandate starts, over the session store: one active Run per issue, a submission answered again under its key, what a
    finished turn reports, and the two ways in which an issue stays blocked.
  \<^item> \<open>Routing\<close> (\<open>routing/engine_manifest.py\<close>) and \<open>Mcp_Server\<close>, \<open>Mcp_Server_Props\<close>,
    \<open>Mcp_Server_Guarantees\<close> (\<open>tools.py\<close>, \<open>audit.py\<close>, \<open>protocol.py\<close> of \<open>cortxt_mcp\<close>): tiers, authorization, handlers,
    audit trail and the loop over lines; a mandate admits one request while the nonce file can be read, every answered
    call of a known tool is audited, and a text under a sensitive name reaches the audit by its length only.

  \<^bold>\<open>Runs.\<close>
  \<^item> \<open>Exec_Graph\<close>, \<open>Exec_Graph_Props\<close> (the graph of \<open>execution_map.py\<close>): cycles are found exactly when there are some, the
    waves are the schedule of the issues no cycle holds back.
  \<^item> \<open>Claim_Store\<close> (\<open>SqliteClaimStore\<close> there): exclusive keys, issues and Runs after any history; a generation
    is spent once; an expired claim is never settled. \<open>Preflight\<close> (\<open>preflight_validate\<close>, the receipt and the read
    projection) composes graph and claims.
  \<^item> \<open>Run_Summaries\<close>, \<open>Run_Diff\<close> (\<open>run_authority.py\<close>): correlation of the two stores, freshness, and the diff a
    reviewer is shown.
  \<^item> \<open>Commit_Gate\<close> (\<open>commit_evidence.py\<close>) and \<open>Evidence_Port\<close> (\<open>evidence_port.py\<close>): what an accepted range or report satisfies.
  \<^item> \<open>Dispatcher\<close>, \<open>Dispatcher_Props\<close>, \<open>Dispatcher_Claims\<close>, \<open>Dispatch_Sync\<close> (\<open>dispatcher.py\<close>): the registry, its
    operations as sequences of atomic steps, the refinement of the abstract life cycle \<open>life_step\<close> in
    every interleaving, one active Run per issue, sweeps and resynchronisation, and the part that runs without the lock.
    A gh call that fails may have been carried out by GitHub (\<open>gh_failed\<close>, \<open>Post_lost\<close>); the comments posted are
    bounded by one and the number of such calls.
  \<^item> \<open>Review_Submission\<close> (\<open>review_submission.py\<close>): submitting over the session store happens once.

  \<^bold>\<open>Bounds and termination.\<close> No definition uses fuel. Loops are structural recursion or terminate by a
  measure: the search for cycles and the closure by the issues not visited yet, the waves by the issues that
  remain, the sweep and resynchronisation by the registry. Size, depth and time limits are the source's
  constants. Machine integers do not occur: Python's are \<open>int\<close>.

  \<^bold>\<open>Parameters.\<close> What the code calls outside the repository is an argument: SHA-256, HMAC, Ed25519 and base64,
  \<open>json.loads\<close> of a text, \<open>float.__repr__\<close>, \<open>fromisoformat\<close>, \<open>re.search\<close> with a pattern from a schema,
  \<open>os.path\<close>, the clock, \<open>uuid4\<close>, git, GitHub, and failures of the file system. A theorem that relies on a law of
  one (an injective digest, a signature that verifies) names it as a hypothesis, and its witness instantiates it.

  \<^bold>\<open>Not modelled.\<close> Texts meant for people only (details of refusals, comments); code points above 255;
  integers of more than 4,300 digits; an \<open>OSError\<close> of starting gh or of writing the registry, timeouts of git in the gate,
  the launcher's result marker, the backup hook of the core store; symbolic links and permissions of the store directories; the conversion of
  JSON into issues in the execution map; the terminal, activity and review projections of \<open>run_authority.py\<close>. The command line, the
  process around the MCP server and the commands behind its handlers, the widget's HTTP host, the adapters of engines and inference services and the scripts around git and GitHub
  processes are drivers of other programs; they and the components not reached are listed in the manifest.
\<close>

end
